(* ===== verification/Prelude.thy ===== *)
theory Prelude
  imports Complex_Main "HOL-Library.AList" "HOL-Library.Multiset"
begin

text \<open>
  What the component theories share: the JavaScript values the sources rely on (numbers that may
  be NaN or infinite, insertion-ordered \<open>Map\<close>s, \<open>undefined\<close> and \<open>null\<close> as \<open>None\<close>, truthiness of
  optional strings, stable \<open>sort\<close>), generic lemmas about lists and association lists, and the
  locale \<open>event_machine\<close> through which every stateful component lifts a one-step invariant to
  runs of any length.
\<close>

named_theorems js_simps \<open>unfolding rules for the JavaScript idioms of the sources\<close>

section \<open>Numbers\<close>

text \<open>
  A JavaScript number that the code inspects with \<open>Number.isFinite\<close> or \<open>Number.isSafeInteger\<close>.
  Finite numbers are exact rationals: rounding of doubles is not modelled.
\<close>

datatype js_num = Fin rat | NaN | PosInf | NegInf

fun isFinite :: "js_num \<Rightarrow> bool" where
  "isFinite (Fin _) = True"
| "isFinite _ = False"

definition maxSafeInteger :: int where
  "maxSafeInteger = 9007199254740991"

fun isSafeInteger :: "js_num \<Rightarrow> bool" where
  "isSafeInteger (Fin q) = (of_int \<lfloor>q\<rfloor> = q \<and> \<bar>q\<bar> \<le> of_int maxSafeInteger)"
| "isSafeInteger _ = False"

fun finValue :: "js_num \<Rightarrow> rat" where
  "finValue (Fin q) = q"
| "finValue _ = 0"

definition safe_int :: "int \<Rightarrow> bool" where
  "safe_int n \<longleftrightarrow> \<bar>n\<bar> \<le> maxSafeInteger"

lemma isSafeInteger_of_int [simp]: "isSafeInteger (Fin (of_int n)) \<longleftrightarrow> safe_int n"
  unfolding isSafeInteger.simps safe_int_def floor_of_int of_int_abs [symmetric] of_int_le_iff
  by simp

section \<open>Optional values\<close>

text \<open>An optional string is truthy when it is present and not empty.\<close>

definition truthy :: "string option \<Rightarrow> bool" where
  "truthy x = (case x of None \<Rightarrow> False | Some s \<Rightarrow> s \<noteq> [])"

lemma truthy_simps [simp]: "\<not> truthy None" "truthy (Some s) \<longleftrightarrow> s \<noteq> []"
  by (simp_all add: truthy_def)

text \<open>The operator \<open>??\<close>: the default when the value is \<open>undefined\<close> or \<open>null\<close>.\<close>

definition coalesce :: "'a option \<Rightarrow> 'a \<Rightarrow> 'a" where
  "coalesce x d = (case x of None \<Rightarrow> d | Some v \<Rightarrow> v)"

lemma coalesce_simps [simp]: "coalesce None d = d" "coalesce (Some v) d = v"
  by (simp_all add: coalesce_def)

text \<open>\<open>xs.filter(x => x != null)\<close> on a list of optional values.\<close>

primrec somes :: "'a option list \<Rightarrow> 'a list" where
  "somes [] = []"
| "somes (x # xs) = (case x of None \<Rightarrow> somes xs | Some v \<Rightarrow> v # somes xs)"

lemma set_somes: "set (somes xs) = {v. Some v \<in> set xs}"
  by (induction xs) (auto split: option.splits)

lemma somes_append [simp]: "somes (xs @ ys) = somes xs @ somes ys"
  by (induction xs) (auto split: option.splits)

lemma length_somes: "length (somes xs) \<le> length xs"
  by (induction xs) (auto split: option.splits)

section \<open>Insertion-ordered maps\<close>

text \<open>
  A JavaScript \<open>Map\<close> iterates in insertion order; \<open>set\<close> on a present key keeps its place and
  \<open>delete\<close> forgets it. That is an association list with distinct keys under the library's
  \<open>AList.update\<close> and \<open>AList.delete\<close>.
\<close>

type_synonym ('k, 'v) jsmap = "('k \<times> 'v) list"

abbreviation jget :: "('k, 'v) jsmap \<Rightarrow> 'k \<Rightarrow> 'v option" where
  "jget m k \<equiv> map_of m k"

abbreviation jset :: "'k \<Rightarrow> 'v \<Rightarrow> ('k, 'v) jsmap \<Rightarrow> ('k, 'v) jsmap" where
  "jset \<equiv> AList.update"

abbreviation jdelete :: "'k \<Rightarrow> ('k, 'v) jsmap \<Rightarrow> ('k, 'v) jsmap" where
  "jdelete \<equiv> AList.delete"

definition jhas :: "('k, 'v) jsmap \<Rightarrow> 'k \<Rightarrow> bool" where
  "jhas m k \<longleftrightarrow> k \<in> set (map fst m)"

definition jkeys :: "('k, 'v) jsmap \<Rightarrow> 'k list" where
  "jkeys m = map fst m"

definition jvalues :: "('k, 'v) jsmap \<Rightarrow> 'v list" where
  "jvalues m = map snd m"

text \<open>\<open>new Map(entries)\<close>: later entries of a key overwrite earlier ones, in the first one's place.\<close>

definition jofList :: "('k \<times> 'v) list \<Rightarrow> ('k, 'v) jsmap" where
  "jofList kvs = fold (\<lambda>(k, v) m. jset k v m) kvs []"

abbreviation jwf :: "('k, 'v) jsmap \<Rightarrow> bool" where
  "jwf m \<equiv> distinct (map fst m)"

lemma jhas_iff: "jhas m k \<longleftrightarrow> jget m k \<noteq> None"
  by (simp add: jhas_def map_of_eq_None_iff)

lemma jget_jset [simp]: "jget (jset k v m) k' = (if k = k' then Some v else jget m k')"
  by (simp add: update_conv')

lemma jget_jdelete [simp]: "jget (jdelete k m) k' = (if k = k' then None else jget m k')"
  by (simp add: delete_conv')

lemma jwf_jset [simp]: "jwf m \<Longrightarrow> jwf (jset k v m)"
  by (rule distinct_update)

lemma jwf_jdelete [simp]: "jwf m \<Longrightarrow> jwf (jdelete k m)"
  by (rule distinct_delete)

lemma jset_absent: "k \<notin> set (map fst m) \<Longrightarrow> jset k v m = m @ [(k, v)]"
  by (induction m) auto

lemma jset_keys: "map fst (jset k v m) = (if k \<in> set (map fst m) then map fst m else map fst m @ [k])"
  by (induction m) auto

lemma jdelete_filter: "jdelete k m = filter (\<lambda>p. fst p \<noteq> k) m"
  by (induction m) auto

lemma fold_jset_wf: "jwf m \<Longrightarrow> jwf (fold (\<lambda>(k, v) m. jset k v m) kvs m)"
  by (induction kvs arbitrary: m) (auto simp: distinct_update)

lemma jwf_jofList [simp]: "jwf (jofList kvs)"
  by (simp add: jofList_def fold_jset_wf)

lemma jget_fold_jset:
  "jget (fold (\<lambda>(k, v) m. jset k v m) kvs m) k =
     (case map_of (rev kvs) k of None \<Rightarrow> jget m k | Some v \<Rightarrow> Some v)"
  by (induction kvs arbitrary: m) (auto simp: map_add_def split: option.splits)

lemma jget_jofList: "jget (jofList kvs) k = map_of (rev kvs) k"
  by (simp add: jofList_def jget_fold_jset split: option.splits)

lemma fold_jset_distinct:
  "distinct (map fst (m @ kvs)) \<Longrightarrow> fold (\<lambda>(k, v) m. jset k v m) kvs m = m @ kvs"
proof (induction kvs arbitrary: m)
  case Nil
  then show ?case by simp
next
  case (Cons kv kvs)
  obtain k v where kv: "kv = (k, v)" by (cases kv)
  with Cons.prems have absent: "k \<notin> set (map fst m)" by auto
  have "distinct (map fst ((m @ [(k, v)]) @ kvs))"
    using Cons.prems kv by auto
  from Cons.IH [OF this] show ?case
    unfolding kv fold_simps prod.case jset_absent [OF absent] o_def by simp
qed

lemma jofList_distinct: "distinct (map fst kvs) \<Longrightarrow> jofList kvs = kvs"
  using fold_jset_distinct [of "[]" kvs] by (simp add: jofList_def)

lemma jget_jofList_distinct: "distinct (map fst kvs) \<Longrightarrow> jget (jofList kvs) k = map_of kvs k"
  by (simp add: jofList_distinct)

text \<open>A number per entry, added up: the counters the code keeps beside its maps.\<close>

definition jsum :: "('v \<Rightarrow> int) \<Rightarrow> ('k, 'v) jsmap \<Rightarrow> int" where
  "jsum f m = sum_list (map (\<lambda>x. f (snd x)) m)"

lemma jsum_Nil [simp]: "jsum f [] = 0"
  by (simp add: jsum_def)

lemma jsum_append: "jsum f (m @ m') = jsum f m + jsum f m'"
  by (simp add: jsum_def)

lemma jsum_jset:
  "jwf m \<Longrightarrow> jsum f (jset k v m) = jsum f m - (case jget m k of None \<Rightarrow> 0 | Some u \<Rightarrow> f u) + f v"
proof (induction m)
  case (Cons x m)
  obtain i u where x: "x = (i, u)" by (cases x)
  with Cons show ?case by (auto simp: jsum_def)
qed (simp add: jsum_def)

lemma jsum_jdelete:
  "jwf m \<Longrightarrow> jsum f (jdelete k m) = jsum f m - (case jget m k of None \<Rightarrow> 0 | Some u \<Rightarrow> f u)"
proof (induction m)
  case (Cons x m)
  obtain i u where x: "x = (i, u)" by (cases x)
  show ?case
  proof (cases "i = k")
    case True
    with Cons.prems x have "k \<notin> fst ` set m" by auto
    then have "jdelete k m = m" by (auto simp: jdelete_filter filter_id_conv)
    with True x show ?thesis by (simp add: jsum_def)
  next
    case False
    with Cons x show ?thesis by (simp add: jsum_def)
  qed
qed (simp add: jsum_def)

lemma jsum_nonneg: "(\<And>k v. (k, v) \<in> set m \<Longrightarrow> 0 \<le> f v) \<Longrightarrow> 0 \<le> jsum f m"
  unfolding jsum_def by (rule sum_list_nonneg) auto

lemma jkeys_jset: "jkeys (jset k v m) = (if jhas m k then jkeys m else jkeys m @ [k])"
  by (simp add: jkeys_def jhas_def jset_keys)

lemma jkeys_jdelete: "jkeys (jdelete k m) = filter (\<lambda>i. i \<noteq> k) (jkeys m)"
  by (simp add: jkeys_def jdelete_filter filter_map comp_def)

section \<open>Lists\<close>

lemma find_SomeD: "find P xs = Some x \<Longrightarrow> x \<in> set xs \<and> P x"
  by (induction xs) (auto split: if_splits)

lemma find_NoneD: "find P xs = None \<Longrightarrow> x \<in> set xs \<Longrightarrow> \<not> P x"
  by (simp add: find_None_iff)

lemma concat_map_concat: "concat (map g (concat xss)) = concat (map (\<lambda>xs. concat (map g xs)) xss)"
  by (induction xss) auto

lemma concat_map_somes:
  "concat (map g (somes xs)) = concat (map (\<lambda>x. case x of None \<Rightarrow> [] | Some v \<Rightarrow> g v) xs)"
  by (induction xs) (auto split: option.splits)

lemma filter_concat_map: "filter P (concat (map f xs)) = concat (map (\<lambda>x. filter P (f x)) xs)"
  by (induction xs) auto

lemma map_of_distinct_in:
  "distinct (map fst xs) \<Longrightarrow> map_of xs k = Some v \<longleftrightarrow> (k, v) \<in> set xs"
  by (auto dest: map_of_SomeD intro: map_of_is_SomeI)

lemma map_of_rev_distinct: "distinct (map fst xs) \<Longrightarrow> map_of (rev xs) k = map_of xs k"
proof (cases "map_of xs k")
  case None
  then have "map_of (rev xs) k = None" by (simp add: map_of_eq_None_iff)
  with None show ?thesis by simp
next
  case (Some v)
  assume "distinct (map fst xs)"
  then have "distinct (map fst (rev xs))" by (simp add: rev_map [symmetric])
  with Some show ?thesis by (auto dest: map_of_SomeD intro: map_of_is_SomeI)
qed

lemma find_map_of: "find (\<lambda>l. fst l = p) xs = map_option (Pair p) (map_of xs p)"
  by (induction xs) auto

lemma map_of_replace:
  "map_of (map (\<lambda>(i, v). (i, if i = p then w else v)) xs) q =
     (if q = p then map_option (\<lambda>_. w) (map_of xs p) else map_of xs q)"
  by (induction xs) auto

lemma those_Some: "those xs = Some ys \<longleftrightarrow> xs = map Some ys"
  by (induction xs arbitrary: ys) (auto simp: Cons_eq_map_conv split: option.splits)

lemma sum_list_filter_partition:
  fixes f :: "'a \<Rightarrow> 'b::comm_monoid_add"
  shows "sum_list (map f xs) = sum_list (map f (filter P xs)) + sum_list (map f (filter (\<lambda>x. \<not> P x) xs))"
  by (induction xs) (auto simp: ac_simps)

lemma sum_list_divide: "sum_list (map (\<lambda>x. x / s) xs) = sum_list xs / (s::'a::field)"
  by (induction xs) (auto simp: add_divide_distrib)

lemma sum_list_pos: "xs \<noteq> [] \<Longrightarrow> (\<And>x. x \<in> set xs \<Longrightarrow> 0 < x) \<Longrightarrow> 0 < sum_list (xs :: rat list)"
proof (induction xs)
  case (Cons x xs)
  then show ?case by (cases "xs = []") (auto intro: add_pos_pos)
qed simp

section \<open>Sorting\<close>

text \<open>
  \<open>xs.sort(cmp)\<close> for a consistent comparison: a stable insertion sort. Sorting by a number is the
  library's \<open>sort_key\<close>, which is stable too.
\<close>

fun jinsert :: "('a \<Rightarrow> 'a \<Rightarrow> int) \<Rightarrow> 'a \<Rightarrow> 'a list \<Rightarrow> 'a list" where
  "jinsert cmp x [] = [x]"
| "jinsert cmp x (y # ys) = (if cmp x y \<le> 0 then x # y # ys else y # jinsert cmp x ys)"

definition jsort :: "('a \<Rightarrow> 'a \<Rightarrow> int) \<Rightarrow> 'a list \<Rightarrow> 'a list" where
  "jsort cmp xs = foldr (jinsert cmp) xs []"

lemma mset_jinsert [simp]: "mset (jinsert cmp x ys) = add_mset x (mset ys)"
  by (induction ys) auto

lemma mset_jsort [simp]: "mset (jsort cmp xs) = mset xs"
  unfolding jsort_def by (induction xs) auto

lemma set_jsort [simp]: "set (jsort cmp xs) = set xs"
  by (metis mset_jsort set_mset_mset)

section \<open>Machines driven by events\<close>

text \<open>
  Every stateful component is a function from an operation and a state to the next state. An
  invariant that each operation keeps holds after every sequence of operations, and a relation
  between consecutive states that is reflexive and transitive relates the ends of every run.
\<close>

locale event_machine =
  fixes step :: "'e \<Rightarrow> 's \<Rightarrow> 's"
    and inv :: "'s \<Rightarrow> bool"
  assumes step_inv: "inv s \<Longrightarrow> inv (step e s)"
begin

lemma run_inv: "inv s \<Longrightarrow> inv (fold step es s)"
  by (induction es arbitrary: s) (auto intro: step_inv)

end

locale monotone_machine = event_machine +
  fixes le :: "'s \<Rightarrow> 's \<Rightarrow> bool"
  assumes le_refl: "le s s"
    and le_trans: "le s t \<Longrightarrow> le t u \<Longrightarrow> le s u"
    and step_le: "inv s \<Longrightarrow> le s (step e s)"
begin

lemma run_le: "inv s \<Longrightarrow> le s (fold step es s)"
proof (induction es arbitrary: s)
  case Nil
  show ?case by (simp add: le_refl)
next
  case (Cons e es)
  then have "le (step e s) (fold step es (step e s))" by (blast intro: step_inv)
  with step_le [OF Cons.prems] show ?case by (auto intro: le_trans)
qed

end

section \<open>Growing buffers\<close>

text \<open>Doubling until the requirement fits; a capacity of 0 stays.\<close>

function growCapacity :: "nat \<Rightarrow> nat \<Rightarrow> nat" where
  "growCapacity capacity required =
     (if 0 < capacity \<and> capacity < required then growCapacity (capacity * 2) required else capacity)"
  by pat_completeness auto
termination
  by (relation "measure (\<lambda>(c, r). r - c)") auto

declare growCapacity.simps [simp del]

lemma growCapacity_ge: "0 < c \<Longrightarrow> r \<le> growCapacity c r"
  by (induction c r rule: growCapacity.induct) (subst growCapacity.simps, auto)

section \<open>JSON values\<close>

datatype json = JNull | JBool bool | JNum js_num | JStr string | JArr "json list" | JObj "(string \<times> json) list"

text \<open>A property of a value that may be no object: \<open>undefined\<close> is \<open>None\<close>.\<close>

definition asRecord :: "json option \<Rightarrow> (string \<times> json) list" where
  "asRecord v = (case v of Some (JObj kvs) \<Rightarrow> kvs | _ \<Rightarrow> [])"

end
