(* ===== verification/PanelStore.thy ===== *)
theory PanelStore
  imports Prelude
begin

text \<open>
  The interface between the split tree (\<open>packages/yaade-panels/src/tree.ts\<close>) and the code that
  arranges terminals in it (\<open>packages/yaade-app/src/mux/terminal-tiling.ts\<close>): a store of panes with
  distinct ids, one view each, that can be set, split and closed. The locale \<open>panel_store\<close> states
  what the provider promises about the list of panes; \<open>keyed_store\<close> adds a key that some views
  carry (the terminal a pane shows) and proves once when keys stay unique.
\<close>

text \<open>No key is carried by the views of two panes.\<close>

definition uniqueKeys :: "('v \<Rightarrow> 'k option) \<Rightarrow> (int \<times> 'v) list \<Rightarrow> bool" where
  "uniqueKeys key xs \<longleftrightarrow>
     list_all (\<lambda>(i, v). list_all (\<lambda>(j, w). key v = None \<or> key v \<noteq> key w \<or> i = j) xs) xs"

definition keysOf :: "('v \<Rightarrow> 'k option) \<Rightarrow> (int \<times> 'v) list \<Rightarrow> 'k list" where
  "keysOf key xs = somes (map (\<lambda>l. key (snd l)) xs)"

lemma uniqueKeysI:
  "(\<And>i v j w k. (i, v) \<in> set xs \<Longrightarrow> (j, w) \<in> set xs \<Longrightarrow> key v = Some k \<Longrightarrow> key w = Some k \<Longrightarrow> i = j) \<Longrightarrow>
     uniqueKeys key xs"
  by (fastforce simp: uniqueKeys_def list_all_iff)

lemma uniqueKeysD:
  "uniqueKeys key xs \<Longrightarrow> (i, v) \<in> set xs \<Longrightarrow> (j, w) \<in> set xs \<Longrightarrow> key v = Some k \<Longrightarrow> key w = Some k \<Longrightarrow> i = j"
  by (fastforce simp: uniqueKeys_def list_all_iff)

lemma uniqueKeys_subset: "uniqueKeys key ys \<Longrightarrow> set xs \<subseteq> set ys \<Longrightarrow> uniqueKeys key xs"
  by (rule uniqueKeysI) (meson subsetD uniqueKeysD)

lemma set_keysOf: "set (keysOf key xs) = {k. \<exists>i v. (i, v) \<in> set xs \<and> key v = Some k}"
  by (auto simp: keysOf_def set_somes image_iff) (metis snd_conv)+

lemma distinct_keysOf:
  "distinct (map fst xs) \<Longrightarrow> distinct (keysOf key xs) \<longleftrightarrow> uniqueKeys key xs"
proof (induction xs)
  case Nil
  show ?case by (simp add: keysOf_def uniqueKeys_def)
next
  case (Cons x xs)
  obtain i v where x: "x = (i, v)" by (cases x)
  have i: "i \<notin> fst ` set xs" using Cons.prems x by simp
  have IH: "distinct (keysOf key xs) \<longleftrightarrow> uniqueKeys key xs" using Cons by simp
  show ?case
  proof (cases "key v")
    case None
    then have "uniqueKeys key (x # xs) \<longleftrightarrow> uniqueKeys key xs"
      by (auto simp: uniqueKeys_def list_all_iff x)
    with IH None show ?thesis by (simp add: keysOf_def x)
  next
    case (Some k)
    have "uniqueKeys key (x # xs) \<longleftrightarrow> uniqueKeys key xs \<and> k \<notin> set (keysOf key xs)"
    proof
      assume u: "uniqueKeys key (x # xs)"
      then have "uniqueKeys key xs" by (rule uniqueKeys_subset) auto
      moreover have "k \<notin> set (keysOf key xs)"
        using uniqueKeysD [OF u, of i v _ _ k] i Some by (force simp: set_keysOf x)
      ultimately show "uniqueKeys key xs \<and> k \<notin> set (keysOf key xs)" ..
    next
      assume u: "uniqueKeys key xs \<and> k \<notin> set (keysOf key xs)"
      show "uniqueKeys key (x # xs)"
        by (rule uniqueKeysI) (use u Some in \<open>auto simp: x set_keysOf dest: uniqueKeysD\<close>)
    qed
    with IH Some show ?thesis by (auto simp: keysOf_def x)
  qed
qed

locale panel_store =
  fixes inv :: "'t \<Rightarrow> bool"
    and items :: "'t \<Rightarrow> (int \<times> 'v) list"
    and blank :: 'v
    and set_view :: "'t \<Rightarrow> int \<Rightarrow> 'v \<Rightarrow> 't"
    and split_at :: "'t \<Rightarrow> int \<Rightarrow> 'e \<Rightarrow> int \<times> 't"
    and close :: "'t \<Rightarrow> int \<Rightarrow> 't"
  assumes ids_distinct: "inv t \<Longrightarrow> distinct (map fst (items t))"
    and items_nonempty: "inv t \<Longrightarrow> items t \<noteq> []"
    and items_set: "items (set_view t p w) = map (\<lambda>(i, v). (i, if i = p then w else v)) (items t)"
    and items_split: "inv t \<Longrightarrow> split_at t p e = (j, t') \<Longrightarrow> j \<notin> set (map fst (items t)) \<and>
      mset (items t') = mset (items t) + (if p \<in> set (map fst (items t)) then {#(j, blank)#} else {#})"
    and items_close: "inv t \<Longrightarrow> filter (\<lambda>l. fst l \<noteq> p) (items t) \<noteq> [] \<Longrightarrow>
      items (close t p) = filter (\<lambda>l. fst l \<noteq> p) (items t)"
    and inv_set: "inv t \<Longrightarrow> inv (set_view t p w)"
    and inv_split: "inv t \<Longrightarrow> split_at t p e = (j, t') \<Longrightarrow> inv t'"
    and inv_close: "inv t \<Longrightarrow> inv (close t p)"
begin

lemma set_items_set:
  "(i, v) \<in> set (items (set_view t p w)) \<longleftrightarrow>
     (if i = p then v = w \<and> p \<in> set (map fst (items t)) else (i, v) \<in> set (items t))"
proof -
  have "(i, v) \<in> set (items (set_view t p w)) \<longleftrightarrow>
      (\<exists>x. (i, x) \<in> set (items t) \<and> v = (if i = p then w else x))"
    by (auto simp: items_set image_iff case_prod_beta Bex_def split_paired_Ex)
  then show ?thesis by (auto simp: image_iff Bex_def split_paired_Ex)
qed

lemma ids_set: "map fst (items (set_view t p w)) = map fst (items t)"
  by (simp add: items_set comp_def case_prod_beta)

lemma length_set: "length (items (set_view t p w)) = length (items t)"
  by (simp add: items_set)

lemma set_items_split:
  assumes "inv t" and "split_at t p e = (j, t')"
  shows "set (items t') = set (items t) \<union> (if p \<in> set (map fst (items t)) then {(j, blank)} else {})"
proof -
  have "set (items t') = set_mset (mset (items t'))" by simp
  with items_split [OF assms] show ?thesis by (simp split: if_splits)
qed

lemma length_split:
  assumes "inv t" and "split_at t p e = (j, t')" and "p \<in> set (map fst (items t))"
  shows "length (items t') = Suc (length (items t))"
proof -
  have "size (mset (items t')) = Suc (size (mset (items t)))"
    using items_split [OF assms(1,2)] assms(3) by (simp only: size_union if_True) simp
  then show ?thesis by simp
qed

lemma other_pane:
  assumes "inv t" and "2 \<le> length (items t)"
  shows "filter (\<lambda>l. fst l \<noteq> p) (items t) \<noteq> []"
proof -
  obtain a b xs where "items t = a # b # xs"
    using assms(2) by (cases "items t"; cases "tl (items t)") auto
  with ids_distinct [OF assms(1)] show ?thesis by (auto simp: filter_empty_conv)
qed

lemma set_items_close:
  "inv t \<Longrightarrow> 2 \<le> length (items t) \<Longrightarrow> set (items (close t p)) = {l \<in> set (items t). fst l \<noteq> p}"
  by (simp add: items_close other_pane)

lemma length_close:
  assumes "inv t" and "2 \<le> length (items t)" and "p \<in> set (map fst (items t))"
  shows "Suc (length (items (close t p))) = length (items t)"
proof -
  have "length (items (close t p)) = length (filter (\<lambda>i. i \<noteq> p) (map fst (items t)))"
    using assms(1,2) by (simp add: items_close other_pane filter_map comp_def)
  also have "filter (\<lambda>i. i \<noteq> p) (map fst (items t)) = remove1 p (map fst (items t))"
    using distinct_remove1_removeAll [OF ids_distinct [OF assms(1)], of p]
    by (simp add: removeAll_filter_not_eq eq_commute)
  finally show ?thesis using assms(3) by (simp add: length_remove1) (metis Suc_pred length_pos_if_in_set length_map assms(3) list.set_map)
qed

end

locale keyed_store = panel_store inv items blank set_view split_at close
  for inv :: "'t \<Rightarrow> bool" and items :: "'t \<Rightarrow> (int \<times> 'v) list" and blank :: 'v
    and set_view :: "'t \<Rightarrow> int \<Rightarrow> 'v \<Rightarrow> 't" and split_at :: "'t \<Rightarrow> int \<Rightarrow> 'e \<Rightarrow> int \<times> 't"
    and close :: "'t \<Rightarrow> int \<Rightarrow> 't" +
  fixes key :: "'v \<Rightarrow> 'k option"
  assumes key_blank: "key blank = None"
begin

lemma unique_close:
  "inv t \<Longrightarrow> 2 \<le> length (items t) \<Longrightarrow> uniqueKeys key (items t) \<Longrightarrow> uniqueKeys key (items (close t p))"
  by (erule uniqueKeys_subset) (auto simp: set_items_close)

lemma unique_split:
  assumes "inv t" and "split_at t p e = (j, t')" and "uniqueKeys key (items t)"
  shows "uniqueKeys key (items t')"
  by (rule uniqueKeysI)
    (use assms(3) in \<open>auto simp: set_items_split [OF assms(1,2)] key_blank dest: uniqueKeysD split: if_splits\<close>)

text \<open>A view may be set when its key is on no other pane.\<close>

lemma unique_set:
  assumes "uniqueKeys key (items t)"
    and "\<And>i v k. (i, v) \<in> set (items t) \<Longrightarrow> key v = Some k \<Longrightarrow> key w = Some k \<Longrightarrow> i = p"
  shows "uniqueKeys key (items (set_view t p w))"
  by (rule uniqueKeysI)
    (use assms in \<open>auto simp: set_items_set dest: uniqueKeysD split: if_splits\<close>)

lemma unique_swap:
  assumes u: "uniqueKeys key (items t)" and d: "inv t" and pq: "p \<noteq> q"
    and p: "(p, v) \<in> set (items t)" and q: "(q, w) \<in> set (items t)"
  shows "uniqueKeys key (items (set_view (set_view t p w) q v))"
proof -
  have one: "x = y" if "(i, x) \<in> set (items t)" "(i, y) \<in> set (items t)" for i x y
    using eq_key_imp_eq_value [OF ids_distinct [OF d] that] .
  show ?thesis
    by (rule uniqueKeysI)
      (use u pq p q one in \<open>auto simp: set_items_set ids_set dest: uniqueKeysD split: if_splits\<close>)
qed

end

end
