(* ===== verification/PanelTree.thy ===== *)
theory PanelTree
  imports PanelStore
begin

text \<open>
  The split tree of panels, \<open>packages/yaade-panels/src/tree.ts\<close>: a tree whose leaves hold a view
  under a numeric panel id and whose inner nodes are rows or columns with one size ratio per
  child. The class \<open>PanelTree\<close> is the record \<open>panel_tree\<close>; every method that assigns \<open>this.root\<close>
  or \<open>this.nextPanelId\<close> returns the new record (and its result). The lemmas show what each
  operation does to the list of leaves, that it keeps the tree well formed, that pruning reaches
  its fixed point within the guard of 64 rounds, and that the layout tiles the viewport.
\<close>

section \<open>Data\<close>

text \<open>\<open>Edge\<close> of \<open>packages/yaade-shared/src/panels.ts\<close>.\<close>

datatype edge = ELeft | ERight | ETop | EBottom | ECenter

datatype split_kind = RowKind | ColumnKind

text \<open>
  \<open>PanelNode\<close>: the variants \<open>row\<close> and \<open>column\<close> carry the same \<open>PanelSplit\<close> payload, so they are
  one constructor with the kind as an argument.
\<close>

datatype 'v panel_node =
    Leaf int 'v
  | Split split_kind "'v panel_node list" "rat list"

record 'v panel_options =
  emptyView :: 'v
  isEmptyView :: "'v \<Rightarrow> bool"

record 'v panel_tree =
  root :: "'v panel_node"
  nextPanelId :: int

record 'v tree_snapshot =
  snapRoot :: "'v panel_node"
  snapNextPanelId :: js_num

record rect =
  rx :: rat
  ry :: rat
  rwidth :: rat
  rheight :: rat

definition SPLITTER :: rat where
  "SPLITTER = 4"

section \<open>Operations\<close>

text \<open>The constructor with and without a given root.\<close>

definition newPanelTree :: "'v panel_options \<Rightarrow> 'v panel_node option \<Rightarrow> 'v panel_tree" where
  "newPanelTree opts r =
     (case r of
        Some n \<Rightarrow> \<lparr>root = n, nextPanelId = 1\<rparr>
      | None \<Rightarrow> \<lparr>root = Leaf 1 (emptyView opts), nextPanelId = 2\<rparr>)"

definition allocPanelId :: "'v panel_tree \<Rightarrow> int \<times> 'v panel_tree" where
  "allocPanelId t = (nextPanelId t, t\<lparr>nextPanelId := nextPanelId t + 1\<rparr>)"

text \<open>The leaves a walk of the tree visits, in its order.\<close>

fun visitLeaves :: "'v panel_node \<Rightarrow> (int \<times> 'v) list" where
  "visitLeaves (Leaf i v) = [(i, v)]"
| "visitLeaves (Split k cs rs) = concat (map visitLeaves cs)"

abbreviation leaves :: "'v panel_tree \<Rightarrow> (int \<times> 'v) list" where
  "leaves t \<equiv> visitLeaves (root t)"

abbreviation leafIds :: "'v panel_tree \<Rightarrow> int list" where
  "leafIds t \<equiv> map fst (leaves t)"

fun setViewNode :: "int \<Rightarrow> 'v \<Rightarrow> 'v panel_node \<Rightarrow> 'v panel_node" where
  "setViewNode p w (Leaf i v) = Leaf i (if i = p then w else v)"
| "setViewNode p w (Split k cs rs) = Split k (map (setViewNode p w) cs) rs"

definition setView :: "'v panel_tree \<Rightarrow> int \<Rightarrow> 'v \<Rightarrow> 'v panel_tree" where
  "setView t p w = t\<lparr>root := setViewNode p w (root t)\<rparr>"

text \<open>\<open>getLeaf\<close> overwrites its result at every match, so it returns the last matching leaf.\<close>

definition getLeaf :: "'v panel_tree \<Rightarrow> int \<Rightarrow> (int \<times> 'v) option" where
  "getLeaf t p = find (\<lambda>l. fst l = p) (rev (leaves t))"

definition getView :: "'v panel_tree \<Rightarrow> int \<Rightarrow> 'v option" where
  "getView t p = map_option snd (getLeaf t p)"

definition findPanelWithView :: "'v panel_tree \<Rightarrow> ('v \<Rightarrow> bool) \<Rightarrow> int option" where
  "findPanelWithView t P = map_option fst (find (\<lambda>l. P (snd l)) (leaves t))"

text \<open>
  \<open>mapNode\<close>: \<open>replace\<close> returning the node itself (\<open>None\<close> here) means keep and recurse; a new node
  is taken as it is.
\<close>

fun mapNode :: "('v panel_node \<Rightarrow> 'v panel_node option) \<Rightarrow> 'v panel_node \<Rightarrow> 'v panel_node" where
  "mapNode f (Leaf i v) = (case f (Leaf i v) of Some n \<Rightarrow> n | None \<Rightarrow> Leaf i v)"
| "mapNode f (Split k cs rs) =
     (case f (Split k cs rs) of Some n \<Rightarrow> n | None \<Rightarrow> Split k (map (mapNode f) cs) rs)"

definition horizontal :: "edge \<Rightarrow> bool" where
  "horizontal e \<longleftrightarrow> e = ELeft \<or> e = ERight"

definition newLeafSecond :: "edge \<Rightarrow> bool" where
  "newLeafSecond e \<longleftrightarrow> e = ERight \<or> e = EBottom"

fun splitReplace :: "int \<Rightarrow> edge \<Rightarrow> 'v panel_node \<Rightarrow> 'v panel_node \<Rightarrow> 'v panel_node option" where
  "splitReplace p e newLeaf (Leaf i v) =
     (if i \<noteq> p then None
      else Some (Split (if horizontal e then RowKind else ColumnKind)
        [if newLeafSecond e then Leaf i v else newLeaf,
         if newLeafSecond e then newLeaf else Leaf i v] [1/2, 1/2]))"
| "splitReplace p e newLeaf (Split k cs rs) = None"

definition splitAtEdge :: "'v panel_options \<Rightarrow> 'v panel_tree \<Rightarrow> int \<Rightarrow> edge \<Rightarrow> int \<times> 'v panel_tree" where
  "splitAtEdge opts t p e =
     (let (newId, t1) = allocPanelId t;
          newLeaf = Leaf newId (emptyView opts)
      in (newId, t1\<lparr>root := mapNode (splitReplace p e newLeaf) (root t1)\<rparr>))"

definition rebalanceRatios :: "nat \<Rightarrow> rat list" where
  "rebalanceRatios n = replicate n (1 / of_nat n)"

text \<open>\<open>removePanel\<close>: \<open>None\<close> is the \<open>null\<close> of a subtree with nothing left.\<close>

fun removePanel :: "int \<Rightarrow> 'v panel_node \<Rightarrow> 'v panel_node option" where
  "removePanel p (Leaf i v) = (if i = p then None else Some (Leaf i v))"
| "removePanel p (Split k cs rs) =
     (let children = somes (map (removePanel p) cs)
      in if length children = 0 then None
         else if length children = 1 then Some (hd children)
         else Some (Split k children (rebalanceRatios (length children))))"

definition createDefaultLeaf :: "'v panel_options \<Rightarrow> 'v panel_tree \<Rightarrow> 'v panel_node \<times> 'v panel_tree" where
  "createDefaultLeaf opts t = (let (i, t1) = allocPanelId t in (Leaf i (emptyView opts), t1))"

definition closePanel :: "'v panel_options \<Rightarrow> 'v panel_tree \<Rightarrow> int \<Rightarrow> 'v panel_tree" where
  "closePanel opts t p =
     (case removePanel p (root t) of
        Some n \<Rightarrow> t\<lparr>root := n\<rparr>
      | None \<Rightarrow> (let (n, t1) = createDefaultLeaf opts t in t1\<lparr>root := n\<rparr>))"

text \<open>
  \<open>layoutNode\<close> writes one rectangle per leaf into the map. A split with fewer ratios than
  children reads \<open>undefined\<close> and yields \<open>NaN\<close> sizes: that layout is \<open>None\<close> here.
\<close>

fun layoutNode :: "'v panel_node \<Rightarrow> rect \<Rightarrow> (int, rect) jsmap \<Rightarrow> (int, rect) jsmap option"
  and layoutChildren :: "bool \<Rightarrow> rect \<Rightarrow> rat \<Rightarrow> rat \<Rightarrow> 'v panel_node list \<Rightarrow> rat list
    \<Rightarrow> (int, rect) jsmap \<Rightarrow> (int, rect) jsmap option" where
  "layoutNode (Leaf i v) r m = Some (jset i r m)"
| "layoutNode (Split k cs rs) r m =
     (let hor = (k = RowKind);
          offset = (if hor then rx r else ry r);
          total = (if hor then rwidth r else rheight r);
          available = total - SPLITTER * (of_nat (length cs) - 1)
      in layoutChildren hor r available offset cs rs m)"
| "layoutChildren hor r available offset [] rs m = Some m"
| "layoutChildren hor r available offset (c # cs) [] m = None"
| "layoutChildren hor r available offset (c # cs) (q # qs) m =
     (let size = available * q;
          childRect = (if hor then r\<lparr>rx := offset, rwidth := size\<rparr>
                       else r\<lparr>ry := offset, rheight := size\<rparr>)
      in case layoutNode c childRect m of
           None \<Rightarrow> None
         | Some m' \<Rightarrow> layoutChildren hor r available (offset + (size + SPLITTER)) cs qs m')"

definition computeRects :: "'v panel_tree \<Rightarrow> rect \<Rightarrow> (int, rect) jsmap option" where
  "computeRects t viewport = layoutNode (root t) viewport []"

text \<open>\<open>getAtPath\<close>, and the assignment to the \<open>split\<close> of the node it returns.\<close>

fun getAtPath :: "'v panel_node \<Rightarrow> int list \<Rightarrow> 'v panel_node option" where
  "getAtPath n [] = Some n"
| "getAtPath (Leaf i v) (idx # path) = None"
| "getAtPath (Split k cs rs) (idx # path) =
     (if 0 \<le> idx \<and> idx < int (length cs) then getAtPath (cs ! nat idx) path else None)"

fun setRatiosAtPath :: "'v panel_node \<Rightarrow> int list \<Rightarrow> rat list \<Rightarrow> 'v panel_node" where
  "setRatiosAtPath (Leaf i v) path new = Leaf i v"
| "setRatiosAtPath (Split k cs rs) [] new = Split k cs new"
| "setRatiosAtPath (Split k cs rs) (idx # path) new =
     (if 0 \<le> idx \<and> idx < int (length cs)
      then Split k (cs[nat idx := setRatiosAtPath (cs ! nat idx) path new]) rs
      else Split k cs rs)"

definition normalizeRatios :: "rat list \<Rightarrow> rat list option" where
  "normalizeRatios rs = (if sum_list rs \<le> 0 then None else Some (map (\<lambda>q. q / sum_list rs) rs))"

definition setSplitRatios :: "'v panel_tree \<Rightarrow> int list \<Rightarrow> js_num list \<Rightarrow> bool \<times> 'v panel_tree" where
  "setSplitRatios t path ratios =
     (case getAtPath (root t) path of
        None \<Rightarrow> (False, t)
      | Some (Leaf i v) \<Rightarrow> (False, t)
      | Some (Split k cs rs) \<Rightarrow>
          if length ratios \<noteq> length cs then (False, t)
          else if list_ex (\<lambda>q. \<not> isFinite q \<or> finValue q \<le> 0) ratios then (False, t)
          else case normalizeRatios (map finValue ratios) of
                 None \<Rightarrow> (False, t)
               | Some next \<Rightarrow>
                   if \<not> list_ex (\<lambda>(a, b). \<bar>a - b\<bar> > 1/1000) (zip next rs) then (False, t)
                   else (True, t\<lparr>root := setRatiosAtPath (root t) path next\<rparr>))"

definition attachAtViewportEdge :: "'v panel_options \<Rightarrow> 'v panel_tree \<Rightarrow> edge \<Rightarrow> int \<times> 'v panel_tree" where
  "attachAtViewportEdge opts t e =
     (let (newId, t1) = allocPanelId t;
          newLeaf = Leaf newId (emptyView opts);
          k = (if horizontal e then RowKind else ColumnKind);
          first = (if newLeafSecond e then root t1 else newLeaf);
          second = (if newLeafSecond e then newLeaf else root t1);
          ratios = (if e = ELeft \<or> e = ETop then [22/100, 78/100] else [78/100, 22/100])
      in (newId, t1\<lparr>root := Split k [first, second] ratios\<rparr>))"

text \<open>The rounds of \<open>pruneEmptyLeaves\<close>: the first argument is what its guard leaves.\<close>

fun pruneRounds :: "nat \<Rightarrow> 'v panel_options \<Rightarrow> 'v panel_tree \<Rightarrow> 'v panel_tree" where
  "pruneRounds 0 opts t = t"
| "pruneRounds (Suc guard) opts t =
     (let leafCount = length (leaves t);
          empties = map fst (filter (\<lambda>l. isEmptyView opts (snd l)) (leaves t))
      in if length empties = 0 \<or> leafCount \<le> 1 then t
         else pruneRounds guard opts (fold (\<lambda>p s. closePanel opts s p) empties t))"

definition pruneEmptyLeaves :: "'v panel_options \<Rightarrow> 'v panel_tree \<Rightarrow> 'v panel_tree" where
  "pruneEmptyLeaves opts t = pruneRounds 64 opts t"

fun clonePanelNode :: "'v panel_node \<Rightarrow> 'v panel_node" where
  "clonePanelNode (Leaf i v) = Leaf i v"
| "clonePanelNode (Split k cs rs) = Split k (map clonePanelNode cs) rs"

definition cloneTree :: "'v panel_tree \<Rightarrow> 'v panel_tree" where
  "cloneTree t = \<lparr>root = clonePanelNode (root t), nextPanelId = nextPanelId t\<rparr>"

definition toJSON :: "'v panel_tree \<Rightarrow> 'v tree_snapshot" where
  "toJSON t = \<lparr>snapRoot = root t, snapNextPanelId = Fin (of_int (nextPanelId t))\<rparr>"

fun maxPanelId :: "'v panel_node \<Rightarrow> int" where
  "maxPanelId (Leaf i v) = i"
| "maxPanelId (Split k cs rs) = fold (\<lambda>c maximum. max maximum c) (map maxPanelId cs) 0"

definition applySnapshot :: "'v tree_snapshot \<Rightarrow> 'v panel_tree" where
  "applySnapshot s =
     (let minimumNextId = maxPanelId (snapRoot s) + 1
      in \<lparr>root = snapRoot s,
          nextPanelId = (if isSafeInteger (snapNextPanelId s) \<and> finValue (snapNextPanelId s) > 0
                         then max \<lfloor>finValue (snapNextPanelId s)\<rfloor> minimumNextId
                         else minimumNextId)\<rparr>)"

fun toggleKind :: "split_kind \<Rightarrow> split_kind" where
  "toggleKind RowKind = ColumnKind"
| "toggleKind ColumnKind = RowKind"

definition toggleRootOrientation :: "'v panel_tree \<Rightarrow> bool \<times> 'v panel_tree" where
  "toggleRootOrientation t =
     (case root t of
        Leaf i v \<Rightarrow> (False, t)
      | Split k cs rs \<Rightarrow> (True, t\<lparr>root := Split (toggleKind k) cs rs\<rparr>))"

section \<open>Well-formedness\<close>

text \<open>
  What every operation keeps: a split has at least two children and as many positive ratios adding
  up to one; leaf ids are distinct, positive and below the next id to be handed out.
\<close>

fun wf_node :: "'v panel_node \<Rightarrow> bool" where
  "wf_node (Leaf i v) = True"
| "wf_node (Split k cs rs) =
     (2 \<le> length cs \<and> length rs = length cs \<and> list_all (\<lambda>q. 0 < q) rs \<and> sum_list rs = 1 \<and>
      list_all wf_node cs)"

definition wf_tree :: "'v panel_tree \<Rightarrow> bool" where
  "wf_tree t \<longleftrightarrow> wf_node (root t) \<and> distinct (leafIds t) \<and>
     list_all (\<lambda>i. 0 < i \<and> i < nextPanelId t) (leafIds t)"

lemma wf_treeD:
  assumes "wf_tree t"
  shows "wf_node (root t)" "distinct (leafIds t)" "nextPanelId t \<notin> set (leafIds t)"
    and "i \<in> set (leafIds t) \<Longrightarrow> 0 < i" "i \<in> set (leafIds t) \<Longrightarrow> i < nextPanelId t"
  using assms by (auto simp: wf_tree_def list_all_iff)

section \<open>Leaves after each operation\<close>

lemma visitLeaves_setViewNode:
  "visitLeaves (setViewNode p w n) = map (\<lambda>(i, v). (i, if i = p then w else v)) (visitLeaves n)"
  by (induction n) (auto simp: map_concat intro!: arg_cong [where f = concat])

lemma leaves_setView [simp]:
  "leaves (setView t p w) = map (\<lambda>(i, v). (i, if i = p then w else v)) (leaves t)"
  by (simp add: setView_def visitLeaves_setViewNode)

lemma nextPanelId_setView [simp]: "nextPanelId (setView t p w) = nextPanelId t"
  by (simp add: setView_def)

lemma leafIds_setView [simp]: "leafIds (setView t p w) = leafIds t"
  by (simp add: case_prod_beta comp_def)

lemma visitLeaves_split:
  "visitLeaves (mapNode (splitReplace p e (Leaf j w)) n) =
     concat (map (\<lambda>l. if fst l = p then (if newLeafSecond e then [l, (j, w)] else [(j, w), l])
                      else [l]) (visitLeaves n))"
  by (induction n) (auto simp: concat_map_concat comp_def intro!: arg_cong [where f = concat])

lemma removePanel_leaves:
  "(case removePanel p n of None \<Rightarrow> [] | Some m \<Rightarrow> visitLeaves m) = filter (\<lambda>l. fst l \<noteq> p) (visitLeaves n)"
proof (induction n)
  case (Split k cs rs)
  have all: "concat (map visitLeaves (somes (map (removePanel p) cs))) =
      filter (\<lambda>l. fst l \<noteq> p) (concat (map visitLeaves cs))"
    using Split by (auto simp: concat_map_somes filter_concat_map comp_def intro!: arg_cong [where f = concat])
  then show ?case
  proof (cases "somes (map (removePanel p) cs)")
    case Nil
    with all show ?thesis by simp
  next
    case (Cons c cs')
    with all show ?thesis by (cases cs') (auto simp: Let_def)
  qed
qed simp

lemma removePanel_nonempty: "removePanel p n = Some m \<Longrightarrow> visitLeaves m \<noteq> []"
proof (induction n arbitrary: m)
  case (Leaf i v)
  then show ?case by (auto split: if_splits)
next
  case (Split k cs rs)
  have sub: "visitLeaves c \<noteq> []" if "c \<in> set (somes (map (removePanel p) cs))" for c
    using that Split.IH by (auto simp: set_somes)
  show ?case
  proof (cases "somes (map (removePanel p) cs)")
    case Nil
    with Split.prems show ?thesis by simp
  next
    case (Cons c cs')
    with Split.prems sub show ?thesis by (cases cs') (auto simp: Let_def)
  qed
qed

lemma removePanel_None_iff: "removePanel p n = None \<longleftrightarrow> filter (\<lambda>l. fst l \<noteq> p) (visitLeaves n) = []"
proof (cases "removePanel p n")
  case None
  with removePanel_leaves [of p n] show ?thesis by simp
next
  case (Some m)
  with removePanel_leaves [of p n] removePanel_nonempty [OF Some] show ?thesis by simp
qed

lemma leaves_closePanel:
  "leaves (closePanel opts t p) =
     (if filter (\<lambda>l. fst l \<noteq> p) (leaves t) = [] then [(nextPanelId t, emptyView opts)]
      else filter (\<lambda>l. fst l \<noteq> p) (leaves t))"
  using removePanel_None_iff [of p "root t"] removePanel_leaves [of p "root t"]
  by (cases "removePanel p (root t)")
    (auto simp: closePanel_def createDefaultLeaf_def allocPanelId_def)

lemma nextPanelId_closePanel:
  "nextPanelId (closePanel opts t p) =
     (if filter (\<lambda>l. fst l \<noteq> p) (leaves t) = [] then nextPanelId t + 1 else nextPanelId t)"
  using removePanel_None_iff [of p "root t"]
  by (cases "removePanel p (root t)")
    (auto simp: closePanel_def createDefaultLeaf_def allocPanelId_def)

lemma leaves_splitAtEdge:
  "splitAtEdge opts t p e = (j, t') \<Longrightarrow>
     j = nextPanelId t \<and> nextPanelId t' = nextPanelId t + 1 \<and>
     leaves t' = concat (map (\<lambda>l. if fst l = p
        then (if newLeafSecond e then [l, (j, emptyView opts)] else [(j, emptyView opts), l])
        else [l]) (leaves t))"
  by (auto simp: splitAtEdge_def allocPanelId_def visitLeaves_split)

section \<open>Well-formedness is kept\<close>

lemma wf_setViewNode [simp]: "wf_node (setViewNode p w n) \<longleftrightarrow> wf_node n"
  by (induction n) (auto simp: list_all_iff)

lemma setView_wf [simp]: "wf_tree (setView t p w) \<longleftrightarrow> wf_tree t"
  by (simp add: wf_tree_def leafIds_setView del: leaves_setView) (simp add: setView_def)

lemma wf_mapNode_split: "wf_node n \<Longrightarrow> wf_node (mapNode (splitReplace p e (Leaf j w)) n)"
  by (induction n) (auto simp: list_all_iff)

lemma rebalanceRatios_ok:
  "0 < n \<Longrightarrow> length (rebalanceRatios n) = n \<and> list_all (\<lambda>q. 0 < q) (rebalanceRatios n) \<and>
     sum_list (rebalanceRatios n) = 1"
  by (simp add: rebalanceRatios_def list_all_iff sum_list_replicate)

text \<open>Whatever the tree was, what \<open>removePanel\<close> returns is well formed: it rebuilds every split.\<close>

lemma removePanel_wf: "removePanel p n = Some m \<Longrightarrow> wf_node m"
proof (induction n arbitrary: m)
  case (Leaf i v)
  then show ?case by (auto split: if_splits)
next
  case (Split k cs rs)
  have sub: "wf_node c" if "c \<in> set (somes (map (removePanel p) cs))" for c
    using that Split.IH by (auto simp: set_somes)
  show ?case
  proof (cases "somes (map (removePanel p) cs)")
    case Nil
    with Split.prems show ?thesis by simp
  next
    case (Cons c cs')
    show ?thesis
    proof (cases cs')
      case Nil
      with Cons Split.prems sub show ?thesis by (auto simp: Let_def)
    next
      case (Cons d ds)
      with \<open>somes (map (removePanel p) cs) = c # cs'\<close> Split.prems sub
        rebalanceRatios_ok [of "length (c # cs')"]
      show ?thesis by (auto simp: Let_def list_all_iff)
    qed
  qed
qed

lemma wf_node_nonempty: "wf_node n \<Longrightarrow> visitLeaves n \<noteq> []"
proof (induction n)
  case (Split k cs rs)
  then show ?case by (cases cs) auto
qed simp

lemma wf_tree_next_pos: "wf_tree t \<Longrightarrow> 1 < nextPanelId t"
  using wf_node_nonempty [of "root t"] wf_treeD(1,4,5) [of t]
  by (cases "leaves t") fastforce+

lemma wf_singleton [simp]: "wf_tree \<lparr>root = Leaf i v, nextPanelId = k\<rparr> \<longleftrightarrow> 0 < i \<and> i < k"
  by (simp add: wf_tree_def)

lemma closePanel_wf:
  assumes "wf_tree t"
  shows "wf_tree (closePanel opts t p)"
proof -
  have "wf_node (root (closePanel opts t p))"
    by (cases "removePanel p (root t)")
      (auto simp: closePanel_def createDefaultLeaf_def allocPanelId_def dest: removePanel_wf)
  with assms wf_tree_next_pos [OF assms] show ?thesis
    by (auto simp: wf_tree_def leaves_closePanel nextPanelId_closePanel list_all_iff
        distinct_map_filter)
qed

text \<open>Placing one fresh element beside every occurrence of \<open>p\<close> (there is at most one).\<close>

lemma concat_split_other:
  "p \<notin> set (map fst xs) \<Longrightarrow> concat (map (\<lambda>l. if fst l = p then f l else [l]) xs) = xs"
  by (induction xs) auto

lemma distinct_map_fst_split:
  "distinct (map fst xs) \<Longrightarrow> j \<notin> set (map fst xs) \<Longrightarrow>
     distinct (map fst (concat (map (\<lambda>l. if fst l = p
       then (if b then [l, (j, w)] else [(j, w), l]) else [l]) xs)))"
proof (induction xs)
  case (Cons x xs)
  show ?case
  proof (cases "fst x = p")
    case True
    with Cons.prems have "p \<notin> set (map fst xs)" by simp
    from concat_split_other [OF this, of "\<lambda>l. if b then [l, (j, w)] else [(j, w), l]"]
    show ?thesis using True Cons.prems by (simp add: eq_commute)
  next
    case False
    with Cons show ?thesis by (auto simp: image_iff split: if_splits)
  qed
qed simp

lemma wf_splitAtEdge_node:
  assumes "wf_tree t" and "splitAtEdge opts t p e = (j, t')"
  shows "wf_node (root t')"
  using assms by (auto simp: splitAtEdge_def allocPanelId_def wf_mapNode_split dest: wf_treeD)

lemma set_leaves_split:
  "set (concat (map (\<lambda>l. if fst l = p then (if b then [l, (j, w)] else [(j, w), l]) else [l]) xs)) =
     set xs \<union> (if p \<in> set (map fst xs) then {(j, w)} else {})"
  by (induction xs) (auto split: if_splits)

lemma splitAtEdge_wf:
  assumes "wf_tree t" and "splitAtEdge opts t p e = (j, t')"
  shows "wf_tree t'"
proof -
  note l = leaves_splitAtEdge [OF assms(2)]
  have "distinct (leafIds t')"
    unfolding l [THEN conjunct2, THEN conjunct2]
    by (rule distinct_map_fst_split) (use l wf_treeD(2,3) [OF assms(1)] in auto)
  moreover have "set (leafIds t') \<subseteq> insert (nextPanelId t) (set (leafIds t))"
    using l by (auto simp: set_leaves_split split: if_splits)
  moreover have "nextPanelId t' = nextPanelId t + 1" using l by simp
  ultimately have "distinct (leafIds t')" "\<And>i. i \<in> set (leafIds t') \<Longrightarrow> 0 < i \<and> i < nextPanelId t'"
    using wf_treeD(4,5) [OF assms(1)] wf_tree_next_pos [OF assms(1)] by (auto, fastforce+)
  with wf_splitAtEdge_node [OF assms] show ?thesis
    by (simp add: wf_tree_def list_all_iff)
qed

lemma leaves_attach:
  "attachAtViewportEdge opts t e = (j, t') \<Longrightarrow>
     j = nextPanelId t \<and> nextPanelId t' = nextPanelId t + 1 \<and>
     leaves t' = (if newLeafSecond e then leaves t @ [(j, emptyView opts)]
                  else (j, emptyView opts) # leaves t)"
  by (auto simp: attachAtViewportEdge_def allocPanelId_def Let_def)

lemma attach_wf:
  assumes "wf_tree t" and "attachAtViewportEdge opts t e = (j, t')"
  shows "wf_tree t'"
proof -
  have "wf_node (root t')"
    using assms by (auto simp: attachAtViewportEdge_def allocPanelId_def Let_def dest: wf_treeD)
  with leaves_attach [OF assms(2)] wf_treeD(2-5) [OF assms(1)] wf_tree_next_pos [OF assms(1)]
  show ?thesis by (fastforce simp: wf_tree_def list_all_iff)
qed

lemma newPanelTree_wf: "wf_tree (newPanelTree opts None)"
  by (simp add: newPanelTree_def)

section \<open>Ratios\<close>

lemma visitLeaves_setRatios [simp]: "visitLeaves (setRatiosAtPath n path new) = visitLeaves n"
proof (induction n path new rule: setRatiosAtPath.induct)
  case (3 k cs rs idx path new)
  show ?case
  proof (cases "0 \<le> idx \<and> idx < int (length cs)")
    case True
    then have "map visitLeaves (cs[nat idx := setRatiosAtPath (cs ! nat idx) path new]) = map visitLeaves cs"
      using 3 by (simp add: map_update list_update_same_conv nat_less_iff)
    with True show ?thesis by simp
  qed auto
qed simp_all

lemma normalizeRatios_ok:
  assumes "normalizeRatios rs = Some qs" and "list_all (\<lambda>q. 0 < q) rs"
  shows "length qs = length rs \<and> list_all (\<lambda>q. 0 < q) qs \<and> sum_list qs = 1"
  using assms by (auto simp: normalizeRatios_def sum_list_divide list_all_iff split: if_splits)

lemma wf_setRatiosAtPath:
  assumes "wf_node n" and "getAtPath n path = Some (Split k cs rs)"
    and "length new = length cs" and "list_all (\<lambda>q. 0 < q) new" and "sum_list new = 1"
  shows "wf_node (setRatiosAtPath n path new)"
  using assms
proof (induction n path new rule: setRatiosAtPath.induct)
  case (3 k' cs' rs' idx path new)
  then have idx: "0 \<le> idx \<and> idx < int (length cs')" by (auto split: if_splits)
  moreover from this have "cs' ! nat idx \<in> set cs'" by auto
  ultimately have "wf_node (setRatiosAtPath (cs' ! nat idx) path new)"
    using 3 by (auto simp: list_all_iff)
  with idx 3(2) show ?case
    by (auto simp: list_all_iff dest!: set_update_subset_insert [THEN subsetD])
qed auto

text \<open>\<open>setSplitRatios\<close> on every branch: refused without a change, or the normalised ratios in place.\<close>

lemma setSplitRatios_cases:
  obtains "setSplitRatios t path ratios = (False, t)"
  | k cs rs new where "getAtPath (root t) path = Some (Split k cs rs)"
      and "length ratios = length cs"
      and "list_all (\<lambda>q. isFinite q \<and> 0 < finValue q) ratios"
      and "normalizeRatios (map finValue ratios) = Some new"
      and "setSplitRatios t path ratios = (True, t\<lparr>root := setRatiosAtPath (root t) path new\<rparr>)"
proof (cases "getAtPath (root t) path")
  case None
  then show ?thesis by (intro that(1)) (simp add: setSplitRatios_def)
next
  case (Some n)
  show ?thesis
  proof (cases n)
    case (Leaf i v)
    with Some show ?thesis by (intro that(1)) (simp add: setSplitRatios_def)
  next
    case (Split k cs rs)
    show ?thesis
    proof (cases "setSplitRatios t path ratios = (False, t)")
      case False
      then have ok: "length ratios = length cs" "\<not> list_ex (\<lambda>q. \<not> isFinite q \<or> finValue q \<le> 0) ratios"
        using Some Split by (auto simp: setSplitRatios_def split: if_splits)
      with False Some Split obtain new where new: "normalizeRatios (map finValue ratios) = Some new"
        by (auto simp: setSplitRatios_def split: option.splits)
      with False Some Split ok
      have "setSplitRatios t path ratios = (True, t\<lparr>root := setRatiosAtPath (root t) path new\<rparr>)"
        by (auto simp: setSplitRatios_def split: if_splits)
      with Some Split ok new show ?thesis
        by (intro that(2)) (auto simp: list_ex_iff list_all_iff)
    qed (rule that(1))
  qed
qed

lemma leaves_setSplitRatios [simp]:
  "leaves (snd (setSplitRatios t path ratios)) = leaves t"
  "nextPanelId (snd (setSplitRatios t path ratios)) = nextPanelId t"
  by (cases rule: setSplitRatios_cases [of t path ratios]; simp)+

lemma setSplitRatios_wf: "wf_tree t \<Longrightarrow> wf_tree (snd (setSplitRatios t path ratios))"
proof (cases rule: setSplitRatios_cases [of t path ratios])
  case (2 k cs rs new)
  assume "wf_tree t"
  have pos: "list_all (\<lambda>q. 0 < q) (map finValue ratios)"
    using 2(3) by (simp add: list_all_iff)
  from normalizeRatios_ok [OF 2(4) pos] 2(1,2) wf_treeD(1) [OF \<open>wf_tree t\<close>]
  have "wf_node (setRatiosAtPath (root t) path new)"
    by (intro wf_setRatiosAtPath) auto
  with 2(5) \<open>wf_tree t\<close> show ?thesis by (simp add: wf_tree_def)
qed simp

lemma toggleRoot_leaves: "leaves (snd (toggleRootOrientation t)) = leaves t"
  by (simp add: toggleRootOrientation_def split: panel_node.split)

lemma toggleRoot_wf: "wf_tree t \<Longrightarrow> wf_tree (snd (toggleRootOrientation t))"
  by (auto simp: wf_tree_def toggleRootOrientation_def split: panel_node.splits)

section \<open>Pruning\<close>

lemma fold_closePanel_keep:
  assumes "filter (\<lambda>l. fst l \<notin> set ps) (leaves t) \<noteq> []"
  shows "leaves (fold (\<lambda>p s. closePanel opts s p) ps t) = filter (\<lambda>l. fst l \<notin> set ps) (leaves t)
       \<and> nextPanelId (fold (\<lambda>p s. closePanel opts s p) ps t) = nextPanelId t"
  using assms
proof (induction ps arbitrary: t)
  case (Cons p ps)
  have ff: "filter (\<lambda>l. fst l \<notin> set (p # ps)) (leaves t) =
      filter (\<lambda>l. fst l \<notin> set ps) (filter (\<lambda>l. fst l \<noteq> p) (leaves t))"
    by (simp add: conj_commute)
  with Cons.prems have "filter (\<lambda>l. fst l \<noteq> p) (leaves t) \<noteq> []" by (metis filter.simps(1))
  with ff Cons.prems Cons.IH [of "closePanel opts t p"] show ?case
    by (simp add: leaves_closePanel nextPanelId_closePanel)
qed simp

lemma fold_closePanel_all:
  assumes "ps \<noteq> []" and "distinct ps" and "nextPanelId t \<notin> set ps"
    and "set ps = set (leafIds t)"
  shows "leaves (fold (\<lambda>p s. closePanel opts s p) ps t) = [(nextPanelId t, emptyView opts)]"
  using assms
proof (induction ps arbitrary: t)
  case (Cons p ps)
  show ?case
  proof (cases "ps = []")
    case True
    with Cons.prems(4) have "filter (\<lambda>l. fst l \<noteq> p) (leaves t) = []"
      by (auto simp: filter_empty_conv)
    with True show ?thesis by (simp add: leaves_closePanel)
  next
    case False
    then obtain q where "q \<in> set ps" by (meson list.set_sel(1))
    then have "q \<in> set (leafIds t)" "q \<noteq> p" using Cons.prems by auto
    then obtain l where "l \<in> set (leaves t)" "fst l = q" "q \<noteq> p" by (metis imageE list.set_map)
    then have ne: "filter (\<lambda>l. fst l \<noteq> p) (leaves t) \<noteq> []" by (auto simp: filter_empty_conv)
    have ids: "leafIds (closePanel opts t p) = filter (\<lambda>i. i \<noteq> p) (leafIds t)"
      using ne by (simp add: leaves_closePanel filter_map comp_def)
    have "leaves (fold (\<lambda>p s. closePanel opts s p) ps (closePanel opts t p)) =
        [(nextPanelId (closePanel opts t p), emptyView opts)]"
    proof (rule Cons.IH [OF False])
      show "nextPanelId (closePanel opts t p) \<notin> set ps"
        using ne Cons.prems(3) by (simp add: nextPanelId_closePanel)
      show "set ps = set (leafIds (closePanel opts t p))"
        unfolding ids using Cons.prems(2,4) by auto
    qed (use Cons.prems in simp)
    with ne show ?thesis by (simp add: nextPanelId_closePanel)
  qed
qed simp

text \<open>Two rounds are enough, so the guard of 64 is never what stops the loop.\<close>

lemma pruneRounds_leaves:
  assumes "wf_tree t"
  shows "leaves (pruneRounds (Suc (Suc g)) opts t) =
     (let kept = filter (\<lambda>l. \<not> isEmptyView opts (snd l)) (leaves t)
      in if length (leaves t) \<le> 1 then leaves t
         else if kept = [] then [(nextPanelId t, emptyView opts)] else kept)"
proof -
  let ?es = "map fst (filter (\<lambda>l. isEmptyView opts (snd l)) (leaves t))"
  let ?kept = "filter (\<lambda>l. \<not> isEmptyView opts (snd l)) (leaves t)"
  note d = wf_treeD(2) [OF assms]
  have kept: "filter (\<lambda>l. fst l \<notin> set ?es) (leaves t) = ?kept"
  proof (rule filter_cong [OF refl])
    fix l assume "l \<in> set (leaves t)"
    with d show "(fst l \<notin> set ?es) = (\<not> isEmptyView opts (snd l))"
      by (cases l) (auto simp: image_iff dest: eq_key_imp_eq_value)
  qed
  have des: "distinct ?es" using d by (rule distinct_map_filter)
  show ?thesis
  proof (cases "?es = [] \<or> length (leaves t) \<le> 1")
    case True
    then show ?thesis
      using wf_node_nonempty [OF wf_treeD(1) [OF assms]]
      by (cases "leaves t") (auto simp: Let_def filter_empty_conv filter_id_conv)
  next
    case False
    let ?t' = "fold (\<lambda>p s. closePanel opts s p) ?es t"
    show ?thesis
    proof (cases "?kept = []")
      case True
      then have "filter (\<lambda>l. isEmptyView opts (snd l)) (leaves t) = leaves t"
        by (auto simp: filter_id_conv filter_empty_conv)
      then have "set ?es = set (leafIds t)" by simp
      then have "leaves ?t' = [(nextPanelId t, emptyView opts)]"
        using False des wf_treeD(3) [OF assms] by (intro fold_closePanel_all) auto
      with False True show ?thesis by (simp add: Let_def)
    next
      case k: False
      then have "leaves ?t' = ?kept"
        using fold_closePanel_keep [of ?es t opts] kept by simp
      with False k show ?thesis by (simp add: Let_def)
    qed
  qed
qed

lemma pruneEmptyLeaves_leaves:
  assumes "wf_tree t"
  shows "leaves (pruneEmptyLeaves opts t) =
     (let kept = filter (\<lambda>l. \<not> isEmptyView opts (snd l)) (leaves t)
      in if length (leaves t) \<le> 1 then leaves t
         else if kept = [] then [(nextPanelId t, emptyView opts)] else kept)"
  using pruneRounds_leaves [OF assms, of 62 opts]
  by (simp add: pruneEmptyLeaves_def numeral_eq_Suc del: pruneRounds.simps)

lemma fold_closePanel_wf: "wf_tree t \<Longrightarrow> wf_tree (fold (\<lambda>p s. closePanel opts s p) ps t)"
  by (induction ps arbitrary: t) (auto simp: closePanel_wf)

lemma pruneRounds_wf: "wf_tree t \<Longrightarrow> wf_tree (pruneRounds g opts t)"
  by (induction g arbitrary: t) (auto simp: Let_def fold_closePanel_wf)

lemma pruneEmptyLeaves_wf: "wf_tree t \<Longrightarrow> wf_tree (pruneEmptyLeaves opts t)"
  by (simp add: pruneEmptyLeaves_def pruneRounds_wf)

section \<open>Lookups, copies and snapshots\<close>

lemma getView_rev: "getView t p = map_of (rev (leaves t)) p"
  by (simp add: getView_def getLeaf_def find_map_of option.map_comp comp_def option.map_ident)

lemma getView_map_of: "distinct (leafIds t) \<Longrightarrow> getView t p = map_of (leaves t) p"
  by (simp add: getView_rev map_of_rev_distinct)

lemma getView_Some_iff:
  "distinct (leafIds t) \<Longrightarrow> getView t p = Some v \<longleftrightarrow> (p, v) \<in> set (leaves t)"
  by (simp add: getView_map_of map_of_distinct_in)

lemma getLeaf_None_iff: "getLeaf t p = None \<longleftrightarrow> p \<notin> set (leafIds t)"
  by (simp add: getLeaf_def find_map_of map_of_eq_None_iff)

lemma getView_None_iff: "getView t p = None \<longleftrightarrow> p \<notin> set (leafIds t)"
  by (simp add: getView_def getLeaf_None_iff)

lemma getView_setView:
  "distinct (leafIds t) \<Longrightarrow> p \<in> set (leafIds t) \<Longrightarrow>
     getView (setView t p w) q = (if q = p then Some w else getView t q)"
proof -
  assume d: "distinct (leafIds t)" and p: "p \<in> set (leafIds t)"
  obtain v where v: "map_of (leaves t) p = Some v"
    using p by (metis list.set_map map_of_eq_None_iff not_Some_eq)
  have "getView (setView t p w) q = map_of (leaves (setView t p w)) q"
    by (rule getView_map_of) (simp only: leafIds_setView d)
  also have "\<dots> = (if q = p then Some w else map_of (leaves t) q)"
    using v by (simp add: map_of_replace)
  finally show ?thesis by (simp add: getView_map_of [OF d])
qed

lemma findPanel_Some: "findPanelWithView t P = Some p \<Longrightarrow> \<exists>v. (p, v) \<in> set (leaves t) \<and> P v"
  by (auto simp: findPanelWithView_def dest!: find_SomeD)

lemma findPanel_None: "findPanelWithView t P = None \<longleftrightarrow> (\<forall>v \<in> snd ` set (leaves t). \<not> P v)"
  by (auto simp: findPanelWithView_def find_None_iff)

lemma clonePanelNode_id [simp]: "clonePanelNode n = n"
  by (induction n) (auto simp: map_idI)

lemma cloneTree_id [simp]: "cloneTree t = t"
  by (simp add: cloneTree_def)

lemma fold_max_le: "x \<in> set xs \<Longrightarrow> x \<le> fold (\<lambda>c m. max m c) xs (a::int)"
  and fold_max_init: "a \<le> fold (\<lambda>c m. max m c) xs (a::int)"
proof -
  have init: "a \<le> fold (\<lambda>c m. max m c) xs a" for a :: int and xs
    by (induction xs arbitrary: a) (auto intro: order_trans [OF max.cobounded1])
  then show "a \<le> fold (\<lambda>c m. max m c) xs a" .
  show "x \<in> set xs \<Longrightarrow> x \<le> fold (\<lambda>c m. max m c) xs a"
    by (induction xs arbitrary: a) (auto intro: order_trans [OF max.cobounded2 init])
qed

lemma fold_max_least: "(\<And>x. x \<in> set xs \<Longrightarrow> x \<le> b) \<Longrightarrow> a \<le> b \<Longrightarrow> fold (\<lambda>c m. max m c) xs (a::int) \<le> b"
  by (induction xs arbitrary: a) auto

lemma maxPanelId_upper: "i \<in> set (map fst (visitLeaves n)) \<Longrightarrow> i \<le> maxPanelId n"
proof (induction n)
  case (Split k cs rs)
  then obtain c where "c \<in> set cs" "i \<le> maxPanelId c" by auto
  then show ?case by (auto intro: order_trans [OF _ fold_max_le])
qed simp

lemma maxPanelId_least:
  "(\<And>i. i \<in> set (map fst (visitLeaves n)) \<Longrightarrow> i \<le> b) \<Longrightarrow> 0 \<le> b \<Longrightarrow> maxPanelId n \<le> b"
proof (induction n)
  case (Split k cs rs)
  have "maxPanelId c \<le> b" if "c \<in> set cs" for c
    using that Split.prems by (intro Split.IH) auto
  with Split.prems show ?case by (auto intro!: fold_max_least)
qed simp

text \<open>Every snapshot, whatever its counter claims, leads to ids above all of its leaves.\<close>

lemma applySnapshot_fresh: "i \<in> set (leafIds (applySnapshot s)) \<Longrightarrow> i < nextPanelId (applySnapshot s)"
  using maxPanelId_upper [of i "snapRoot s"] by (auto simp: applySnapshot_def Let_def)

lemma applySnapshot_toJSON:
  assumes "wf_tree t" and "nextPanelId t \<le> maxSafeInteger"
  shows "applySnapshot (toJSON t) = t"
proof -
  have "maxPanelId (root t) + 1 \<le> nextPanelId t"
    using maxPanelId_least [of "root t" "nextPanelId t - 1"] wf_treeD(5) [OF assms(1)]
      wf_tree_next_pos [OF assms(1)] by fastforce
  moreover have "safe_int (nextPanelId t)" "0 < nextPanelId t"
    using wf_tree_next_pos [OF assms(1)] assms(2) by (auto simp: safe_int_def)
  ultimately show ?thesis
    by (simp add: applySnapshot_def toJSON_def Let_def max_def del: isSafeInteger.simps)
qed

section \<open>Layout\<close>

text \<open>
  The rectangles as a list in leaf order, without the map: the reference the layout is compared
  with.
\<close>

fun tileNode :: "'v panel_node \<Rightarrow> rect \<Rightarrow> (int \<times> rect) list"
  and tileChildren :: "bool \<Rightarrow> rect \<Rightarrow> rat \<Rightarrow> rat \<Rightarrow> 'v panel_node list \<Rightarrow> rat list \<Rightarrow> (int \<times> rect) list" where
  "tileNode (Leaf i v) r = [(i, r)]"
| "tileNode (Split k cs rs) r =
     tileChildren (k = RowKind) r
       ((if k = RowKind then rwidth r else rheight r) - SPLITTER * (of_nat (length cs) - 1))
       (if k = RowKind then rx r else ry r) cs rs"
| "tileChildren hor r available offset [] rs = []"
| "tileChildren hor r available offset (c # cs) [] = []"
| "tileChildren hor r available offset (c # cs) (q # qs) =
     tileNode c (if hor then r\<lparr>rx := offset, rwidth := available * q\<rparr>
                 else r\<lparr>ry := offset, rheight := available * q\<rparr>) @
     tileChildren hor r available (offset + (available * q + SPLITTER)) cs qs"

lemma tile_ids:
  fixes n :: "'v panel_node" and cs :: "'v panel_node list"
  shows "wf_node n \<Longrightarrow> map fst (tileNode n r) = map fst (visitLeaves n)"
  "list_all wf_node cs \<Longrightarrow> length rs = length cs \<Longrightarrow>
     map fst (tileChildren hor r available offset cs rs) = map fst (concat (map visitLeaves cs))"
  by (induction n r and hor r available offset cs rs rule: tileNode_tileChildren.induct) auto

lemma layout_tile:
  fixes n :: "'v panel_node" and cs :: "'v panel_node list"
  shows "wf_node n \<Longrightarrow> distinct (map fst m @ map fst (visitLeaves n)) \<Longrightarrow>
     layoutNode n r m = Some (m @ tileNode n r)"
  "list_all wf_node cs \<Longrightarrow> length rs = length cs \<Longrightarrow>
     distinct (map fst m @ map fst (concat (map visitLeaves cs))) \<Longrightarrow>
     layoutChildren hor r available offset cs rs m = Some (m @ tileChildren hor r available offset cs rs)"
proof (induction n r m and hor r available offset cs rs m rule: layoutNode_layoutChildren.induct)
  case (1 i v r m)
  then show ?case by (simp add: jset_absent)
next
  case (5 hor r available offset c cs q qs m)
  let ?r = "if hor then r\<lparr>rx := offset, rwidth := available * q\<rparr>
            else r\<lparr>ry := offset, rheight := available * q\<rparr>"
  have c: "layoutNode c ?r m = Some (m @ tileNode c ?r)"
    using 5(1) [OF refl refl] 5(3,5) by (auto simp: Int_Un_distrib)
  have "distinct (map fst (m @ tileNode c ?r) @ map fst (concat (map visitLeaves cs)))"
    using 5(3,5) by (auto simp: tile_ids)
  then have "layoutChildren hor r available (offset + (available * q + SPLITTER)) cs qs (m @ tileNode c ?r) =
      Some ((m @ tileNode c ?r) @ tileChildren hor r available (offset + (available * q + SPLITTER)) cs qs)"
    using 5(2) [OF refl refl c] 5(3,4) by auto
  with c show ?case by (simp add: Let_def)
qed (auto simp: Let_def)

lemma computeRects_tile: "wf_tree t \<Longrightarrow> computeRects t vp = Some (tileNode (root t) vp)"
  by (simp add: computeRects_def layout_tile(1) wf_treeD)

text \<open>Position and extent along one axis: \<open>True\<close> is the horizontal one.\<close>

definition lo :: "bool \<Rightarrow> rect \<Rightarrow> rat" where
  "lo h r = (if h then rx r else ry r)"

definition ext :: "bool \<Rightarrow> rect \<Rightarrow> rat" where
  "ext h r = (if h then rwidth r else rheight r)"

definition hi :: "bool \<Rightarrow> rect \<Rightarrow> rat" where
  "hi h r = lo h r + ext h r"

definition inside :: "rect \<Rightarrow> rect \<Rightarrow> bool" where
  "inside a r \<longleftrightarrow> list_all (\<lambda>h. lo h r \<le> lo h a \<and> hi h a \<le> hi h r) [True, False]"

text \<open>Separated by at least the splitter along one of the axes.\<close>

definition apart :: "rect \<Rightarrow> rect \<Rightarrow> bool" where
  "apart a b \<longleftrightarrow> list_ex (\<lambda>h. hi h a + SPLITTER \<le> lo h b \<or> hi h b + SPLITTER \<le> lo h a) [True, False]"

definition nonneg_rect :: "rect \<Rightarrow> bool" where
  "nonneg_rect r \<longleftrightarrow> 0 \<le> rwidth r \<and> 0 \<le> rheight r"

lemmas rect_simps = lo_def ext_def hi_def inside_def apart_def nonneg_rect_def SPLITTER_def

definition strip :: "bool \<Rightarrow> rect \<Rightarrow> rat \<Rightarrow> rat \<Rightarrow> rect" where
  "strip hor r offset sz = (if hor then r\<lparr>rx := offset, rwidth := sz\<rparr>
                              else r\<lparr>ry := offset, rheight := sz\<rparr>)"

lemma strip_simps [simp]:
  "lo hor (strip hor r offset sz) = offset" "ext hor (strip hor r offset sz) = sz"
  "lo (\<not> hor) (strip hor r offset sz) = lo (\<not> hor) r"
  "ext (\<not> hor) (strip hor r offset sz) = ext (\<not> hor) r"
  by (auto simp: strip_def lo_def ext_def)

lemma inside_axes: "inside a r \<longleftrightarrow> (\<forall>h. lo h r \<le> lo h a \<and> hi h a \<le> hi h r)"
  by (auto simp: inside_def all_bool_eq)

lemma inside_strip:
  "inside a (strip hor r offset sz) \<longleftrightarrow>
     offset \<le> lo hor a \<and> hi hor a \<le> offset + sz \<and>
     lo (\<not> hor) r \<le> lo (\<not> hor) a \<and> hi (\<not> hor) a \<le> hi (\<not> hor) r"
  by (cases hor) (auto simp: inside_axes all_bool_eq hi_def strip_def lo_def ext_def)

lemma nonneg_axes: "nonneg_rect r \<longleftrightarrow> (\<forall>h. 0 \<le> ext h r)"
  by (auto simp: nonneg_rect_def ext_def all_bool_eq)

lemma tileNode_Split:
  "tileNode (Split k cs rs) r = tileChildren (k = RowKind) r
     (ext (k = RowKind) r - SPLITTER * (of_nat (length cs) - 1)) (lo (k = RowKind) r) cs rs"
  by (simp add: ext_def lo_def)

lemma tileChildren_Cons:
  "tileChildren hor r available offset (c # cs) (q # qs) =
     tileNode c (strip hor r offset (available * q)) @
     tileChildren hor r available (offset + (available * q + SPLITTER)) cs qs"
  by (simp add: strip_def)

lemma sorted_wrt_appendI:
  "sorted_wrt P xs \<Longrightarrow> sorted_wrt P ys \<Longrightarrow> (\<And>x y. x \<in> set xs \<Longrightarrow> y \<in> set ys \<Longrightarrow> P x y) \<Longrightarrow>
     sorted_wrt P (xs @ ys)"
  by (simp add: sorted_wrt_append)

lemma apartI: "hi h a + SPLITTER \<le> lo h b \<Longrightarrow> apart a b"
  by (cases h) (auto simp: apart_def)

lemma inside_strip_mono:
  "inside a (strip hor r o1 s1) \<Longrightarrow> o2 \<le> o1 \<Longrightarrow> o1 + s1 \<le> o2 + s2 \<Longrightarrow> inside a (strip hor r o2 s2)"
  by (auto simp: inside_strip)

text \<open>
  One induction over the layout: with every leaf rectangle non-negative, a subtree's rectangles
  lie inside the rectangle it was given and are separated by the splitter.
\<close>

lemma tile_geometry:
  fixes n :: "'v panel_node" and cs :: "'v panel_node list"
  shows "wf_node n \<Longrightarrow> list_all (nonneg_rect \<circ> snd) (tileNode n r) \<Longrightarrow>
     nonneg_rect r \<and> list_all (\<lambda>x. inside (snd x) r) (tileNode n r) \<and>
     sorted_wrt (\<lambda>a b. apart (snd a) (snd b)) (tileNode n r)"
  "list_all wf_node cs \<Longrightarrow> length rs = length cs \<Longrightarrow> cs \<noteq> [] \<Longrightarrow> list_all (\<lambda>q. 0 < q) rs \<Longrightarrow>
     list_all (nonneg_rect \<circ> snd) (tileChildren hor r available offset cs rs) \<Longrightarrow>
     0 \<le> available \<and> 0 \<le> ext (\<not> hor) r \<and>
     list_all (\<lambda>x. inside (snd x) (strip hor r offset
       (available * sum_list rs + SPLITTER * (of_nat (length cs) - 1))))
       (tileChildren hor r available offset cs rs) \<and>
     sorted_wrt (\<lambda>a b. apart (snd a) (snd b)) (tileChildren hor r available offset cs rs)"
proof (induction n r and hor r available offset cs rs rule: tileNode_tileChildren.induct)
  case (1 i v r)
  then show ?case by (simp add: inside_axes)
next
  case (2 k cs rs r)
  let ?h = "k = RowKind" and ?n = "SPLITTER * (of_nat (length cs) - 1)"
  have wf: "list_all wf_node cs" "length rs = length cs" "cs \<noteq> []" "list_all (\<lambda>q. 0 < q) rs"
    "sum_list rs = 1" "2 \<le> length cs"
    using 2(2) by auto
  note IH = 2(1) [OF wf(1-4), folded ext_def lo_def]
  have all: "list_all (nonneg_rect \<circ> snd) (tileChildren ?h r (ext ?h r - ?n) (lo ?h r) cs rs)"
    using 2(3) unfolding tileNode_Split .
  have whole: "strip ?h r (lo ?h r) (ext ?h r) = r"
    by (cases k) (simp_all add: strip_def lo_def ext_def)
  have "0 \<le> ?n" using wf(6) by (simp add: SPLITTER_def)
  with IH [OF all] have "0 \<le> ext ?h r" "0 \<le> ext (\<not> ?h) r" by auto
  then have "nonneg_rect r" by (cases k) (auto simp: nonneg_rect_def ext_def)
  with IH [OF all] show ?case unfolding tileNode_Split by (simp add: wf(5) whole)
next
  case (5 hor r available offset c cs q qs)
  let ?s = "strip hor r offset (available * q)"
  let ?o = "offset + (available * q + SPLITTER)"
  let ?tc = "tileNode c ?s" and ?ts = "tileChildren hor r available ?o cs qs"
  have wf: "wf_node c" "list_all wf_node cs" "length qs = length cs" "0 < q" "list_all (\<lambda>q. 0 < q) qs"
    using 5(3-6) by auto
  have nn: "list_all (nonneg_rect \<circ> snd) ?tc" "list_all (nonneg_rect \<circ> snd) ?ts"
    using 5(7) unfolding tileChildren_Cons list_all_append by blast+
  note c = 5(1) [folded strip_def, OF wf(1) nn(1)]
  have size: "0 \<le> available * q" "0 \<le> ext (\<not> hor) r"
    using c unfolding nonneg_axes by (metis strip_simps(2), metis strip_simps(4))
  then have av: "0 \<le> available" using wf(4) by (simp add: zero_le_mult_iff)
  show ?case
  proof (cases "cs = []")
    case True
    with wf(3) have "?ts = []" "qs = []" by simp_all
    with c av size True show ?thesis unfolding tileChildren_Cons by (simp add: algebra_simps)
  next
    case False
    let ?w = "available * sum_list qs + SPLITTER * (of_nat (length cs) - 1)"
    let ?W = "available * sum_list (q # qs) + SPLITTER * (of_nat (length (c # cs)) - 1)"
    note rest = 5(2) [OF wf(2,3) False wf(5) nn(2)]
    have "0 < sum_list qs" using wf(3,5) False by (intro sum_list_pos) (auto simp: list_all_iff)
    then have W: "offset + available * q \<le> offset + ?W" "?o + ?w = offset + ?W" "offset \<le> ?o"
      using av size(1) by (auto simp: algebra_simps SPLITTER_def intro!: mult_nonneg_nonneg add_nonneg_nonneg)
    have "list_all (\<lambda>x. inside (snd x) (strip hor r offset ?W)) (?tc @ ?ts)"
      using c rest W by (auto simp: list_all_iff intro: inside_strip_mono)
    moreover have "apart (snd x) (snd y)" if "x \<in> set ?tc" "y \<in> set ?ts" for x y
    proof (rule apartI [where h = hor])
      have "hi hor (snd x) \<le> offset + available * q" "?o \<le> lo hor (snd y)"
        using c rest that by (auto simp: list_all_iff inside_strip)
      then show "hi hor (snd x) + SPLITTER \<le> lo hor (snd y)" by simp
    qed
    ultimately show ?thesis
      unfolding tileChildren_Cons using c rest av size
      by (auto simp del: strip_simps intro!: sorted_wrt_appendI)
  qed
qed auto

section \<open>The tree as a store of panes\<close>

lemma mset_split_leaves:
  "distinct (map fst xs) \<Longrightarrow>
     mset (concat (map (\<lambda>l. if fst l = p then (if b then [l, (j, w)] else [(j, w), l]) else [l]) xs)) =
     mset xs + (if p \<in> set (map fst xs) then {#(j, w)#} else {#})"
proof (induction xs)
  case (Cons x xs)
  show ?case
  proof (cases "fst x = p")
    case True
    with Cons.prems have "p \<notin> set (map fst xs)" by simp
    from concat_split_other [OF this, of "\<lambda>l. if b then [l, (j, w)] else [(j, w), l]"]
    show ?thesis using True by simp
  next
    case False
    with Cons show ?thesis by auto
  qed
qed simp

interpretation panes: panel_store wf_tree "\<lambda>t. leaves t" "emptyView opts" setView "splitAtEdge opts"
  "closePanel opts"
  for opts :: "'v panel_options"
proof (unfold_locales, goal_cases)
  case (4 t p e j t')
  note l = leaves_splitAtEdge [OF 4(2)]
  have "mset (leaves t') = mset (leaves t) + (if p \<in> set (leafIds t) then {#(j, emptyView opts)#} else {#})"
    unfolding l [THEN conjunct2, THEN conjunct2]
    by (rule mset_split_leaves) (rule wf_treeD(2) [OF 4(1)])
  with l wf_treeD(3) [OF 4(1)] show ?case by simp
qed (auto simp: wf_treeD wf_node_nonempty leaves_closePanel closePanel_wf splitAtEdge_wf)

section \<open>Properties\<close>

text \<open>The operations that change a tree, as events of one machine.\<close>

datatype 'v tree_op =
    SetView int 'v
  | SplitAtEdge int edge
  | AttachAtEdge edge
  | ClosePanel int
  | PruneEmpty
  | SetRatios "int list" "js_num list"
  | ToggleRoot

fun tree_step :: "'v panel_options \<Rightarrow> 'v tree_op \<Rightarrow> 'v panel_tree \<Rightarrow> 'v panel_tree" where
  "tree_step opts (SetView p w) t = setView t p w"
| "tree_step opts (SplitAtEdge p e) t = snd (splitAtEdge opts t p e)"
| "tree_step opts (AttachAtEdge e) t = snd (attachAtViewportEdge opts t e)"
| "tree_step opts (ClosePanel p) t = closePanel opts t p"
| "tree_step opts PruneEmpty t = pruneEmptyLeaves opts t"
| "tree_step opts (SetRatios path rs) t = snd (setSplitRatios t path rs)"
| "tree_step opts ToggleRoot t = snd (toggleRootOrientation t)"

lemma tree_step_wf: "wf_tree t \<Longrightarrow> wf_tree (tree_step opts e t)"
proof (cases e)
  case (SplitAtEdge p ed)
  assume "wf_tree t"
  with SplitAtEdge show ?thesis
    by (cases "splitAtEdge opts t p ed") (auto dest: splitAtEdge_wf)
next
  case (AttachAtEdge ed)
  assume "wf_tree t"
  with AttachAtEdge show ?thesis
    by (cases "attachAtViewportEdge opts t ed") (auto dest: attach_wf)
qed (auto simp: closePanel_wf pruneEmptyLeaves_wf setSplitRatios_wf toggleRoot_wf)

lemma nextPanelId_pruneRounds: "nextPanelId t \<le> nextPanelId (pruneRounds g opts t)"
proof -
  have fold: "nextPanelId s \<le> nextPanelId (fold (\<lambda>p s. closePanel opts s p) ps s)" for ps s
  proof (induction ps arbitrary: s)
    case (Cons p ps)
    have "nextPanelId s \<le> nextPanelId (closePanel opts s p)"
      by (simp add: nextPanelId_closePanel)
    also have "\<dots> \<le> nextPanelId (fold (\<lambda>p s. closePanel opts s p) ps (closePanel opts s p))"
      by (rule Cons.IH)
    finally show ?case by simp
  qed simp
  show ?thesis
    by (induction g arbitrary: t) (auto simp: Let_def intro: order_trans [OF fold])
qed

lemma tree_step_next: "nextPanelId t \<le> nextPanelId (tree_step opts e t)"
  by (cases e) (auto simp: nextPanelId_closePanel splitAtEdge_def attachAtViewportEdge_def
      allocPanelId_def Let_def pruneEmptyLeaves_def nextPanelId_pruneRounds
      toggleRootOrientation_def split: panel_node.split)

interpretation tree_machine: monotone_machine "tree_step opts" wf_tree
  "\<lambda>s t. nextPanelId s \<le> nextPanelId t"
  for opts :: "'v panel_options"
  by unfold_locales (auto simp: tree_step_wf tree_step_next)

text \<open>
  C21: Any sequence of operations on a new tree leaves it well formed: ratios stay positive, one per
  child and adding up to one, every split keeps two children or more, and panel ids stay distinct
  and below the next id to be handed out.
\<close>

theorem tree_run_wf: "wf_tree (fold (tree_step opts) es (newPanelTree opts None))"
  by (rule tree_machine.run_inv) (rule newPanelTree_wf)

text \<open>
  C34: On a well-formed tree the layout gives every leaf one rectangle, in leaf order, and when none
  of them is negative (the viewport has room for the splitters) they lie inside the viewport and
  any two are separated by the width of a splitter.
\<close>

theorem computeRects_tiles:
  assumes "wf_tree t"
  shows "\<exists>m. computeRects t vp = Some m \<and> jkeys m = leafIds t \<and>
    (list_all (nonneg_rect \<circ> snd) m \<longrightarrow>
      list_all (\<lambda>x. inside (snd x) vp) m \<and> sorted_wrt (\<lambda>a b. apart (snd a) (snd b)) m)"
  using assms tile_geometry(1) [of "root t" vp] tile_ids(1) [of "root t" vp]
  by (simp add: computeRects_tile jkeys_def wf_treeD)

definition demo_options :: "int option panel_options" where
  "demo_options = \<lparr>emptyView = None, isEmptyView = (\<lambda>v. v = None)\<rparr>"

text \<open>Three panes: one on the left, two stacked on the right, one of them empty.\<close>

definition demo_tree :: "int option panel_tree" where
  "demo_tree = \<lparr>root = Split RowKind [Leaf 1 (Some 10),
      Split ColumnKind [Leaf 2 None, Leaf 3 (Some 30)] [1/4, 3/4]] [1/2, 1/2], nextPanelId = 4\<rparr>"

lemma demo_tree_wf: "wf_tree demo_tree"
  by (simp add: wf_tree_def demo_tree_def)

theorem computeRects_tiles_witness:
  "\<exists>m. computeRects demo_tree \<lparr>rx = 0, ry = 0, rwidth = 804, rheight = 604\<rparr> = Some m \<and> jkeys m = [1, 2, 3]"
  using computeRects_tiles [OF demo_tree_wf, of "\<lparr>rx = 0, ry = 0, rwidth = 804, rheight = 604\<rparr>"]
  by (auto simp: demo_tree_def)

text \<open>
  Pruning ends well before its guard of 64 rounds: what is left are exactly the leaves that are
  not empty, in their order; a lone leaf stays, and when every leaf is empty one fresh empty leaf
  remains.
\<close>

theorem pruneEmptyLeaves_correct:
  assumes "wf_tree t"
  shows "wf_tree (pruneEmptyLeaves opts t) \<and>
    leaves (pruneEmptyLeaves opts t) =
      (let kept = filter (\<lambda>l. \<not> isEmptyView opts (snd l)) (leaves t)
       in if length (leaves t) \<le> 1 then leaves t
          else if kept = [] then [(nextPanelId t, emptyView opts)] else kept)"
  using assms by (intro conjI pruneEmptyLeaves_wf pruneEmptyLeaves_leaves)

theorem pruneEmptyLeaves_correct_witness:
  "leaves (pruneEmptyLeaves demo_options demo_tree) = [(1, Some 10), (3, Some 30)]"
  using pruneEmptyLeaves_correct [OF demo_tree_wf, of demo_options]
  by (simp add: demo_tree_def demo_options_def)

text \<open>
  Splitting a panel hands out an unused id and adds one empty leaf next to the panel, on the
  side the edge names, and closing the new panel gives the leaves back as they were.
\<close>

theorem splitAtEdge_close:
  assumes "wf_tree t" and "splitAtEdge opts t p e = (j, t')" and "leaves t = xs @ [(p, v)] @ ys"
  shows "leaves t' = xs @ (if newLeafSecond e then [(p, v), (j, emptyView opts)]
                           else [(j, emptyView opts), (p, v)]) @ ys \<and>
    list_all (\<lambda>i. i \<noteq> j) (leafIds t) \<and> leaves (closePanel opts t' j) = leaves t"
proof -
  note l = leaves_splitAtEdge [OF assms(2)]
  have "p \<notin> set (map fst xs)" "p \<notin> set (map fst ys)"
    using wf_treeD(2) [OF assms(1)] unfolding assms(3) by auto
  then have t': "leaves t' = xs @ (if newLeafSecond e then [(p, v), (j, emptyView opts)]
      else [(j, emptyView opts), (p, v)]) @ ys"
    using l unfolding assms(3) by (simp add: concat_split_other)
  have j: "j \<notin> set (leafIds t)" using l wf_treeD(3) [OF assms(1)] by simp
  then have "filter (\<lambda>l. fst l \<noteq> j) xs = xs" "filter (\<lambda>l. fst l \<noteq> j) ys = ys" "p \<noteq> j"
    unfolding assms(3) by (auto simp: filter_id_conv)
  with j t' show ?thesis
    by (auto simp: leaves_closePanel assms(3) list_all_iff)
qed

theorem splitAtEdge_close_witness:
  "leaves (snd (splitAtEdge demo_options demo_tree 2 ELeft)) =
     [(1, Some 10), (4, None), (2, None), (3, Some 30)]"
  using splitAtEdge_close [OF demo_tree_wf, of demo_options 2 ELeft 4 _ "[(1, Some 10)]" None "[(3, Some 30)]"]
  by (simp add: demo_tree_def splitAtEdge_def allocPanelId_def newLeafSecond_def demo_options_def)

lemma getAtPath_setRatios:
  "getAtPath n path = Some (Split k cs rs) \<Longrightarrow>
     getAtPath (setRatiosAtPath n path new) path = Some (Split k cs new)"
proof (induction n path new rule: setRatiosAtPath.induct)
  case (1 i v path new)
  then show ?case by (cases path) auto
qed (auto split: if_splits)

text \<open>
  When \<open>setSplitRatios\<close> reports a change, the addressed split keeps its kind and its children,
  its ratios are the given ones divided by their sum, and the tree is still well formed; when it
  reports none, nothing changed.
\<close>

theorem setSplitRatios_correct:
  assumes "wf_tree t" and "setSplitRatios t path ratios = (changed, t')"
  shows "wf_tree t' \<and> leaves t' = leaves t \<and>
    (if changed then \<exists>k cs rs. getAtPath (root t) path = Some (Split k cs rs) \<and>
       getAtPath (root t') path =
         Some (Split k cs (map (\<lambda>q. finValue q / sum_list (map finValue ratios)) ratios))
     else t' = t)"
proof -
  have t': "t' = snd (setSplitRatios t path ratios)" using assms(2) by simp
  have "wf_tree t'" "leaves t' = leaves t"
    unfolding t' by (rule setSplitRatios_wf [OF assms(1)]) simp
  moreover have "if changed then \<exists>k cs rs. getAtPath (root t) path = Some (Split k cs rs) \<and>
       getAtPath (root t') path =
         Some (Split k cs (map (\<lambda>q. finValue q / sum_list (map finValue ratios)) ratios))
     else t' = t"
  proof (cases rule: setSplitRatios_cases [of t path ratios])
    case 1
    with assms(2) show ?thesis by simp
  next
    case (2 k cs rs new)
    with assms(2) show ?thesis
      by (auto simp: normalizeRatios_def comp_def getAtPath_setRatios split: if_splits)
  qed
  ultimately show ?thesis by simp
qed

theorem setSplitRatios_correct_witness:
  "\<exists>t'. setSplitRatios demo_tree [1] [Fin 1, Fin 1] = (True, t') \<and> wf_tree t' \<and>
     getAtPath (root t') [1] = Some (Split ColumnKind [Leaf 2 None, Leaf 3 (Some 30)] [1/2, 1/2])"
proof -
  obtain t' where t': "setSplitRatios demo_tree [1] [Fin 1, Fin 1] = (True, t')"
    by (simp add: setSplitRatios_def demo_tree_def normalizeRatios_def)
  from setSplitRatios_correct [OF demo_tree_wf t'] t' show ?thesis
    by (auto simp: demo_tree_def)
qed

text \<open>
  A snapshot, whatever its counter says, restores to a tree that hands out ids above all of its
  panels', and the snapshot of a well-formed tree restores to that tree.
\<close>

theorem snapshot_roundtrip:
  "list_all (\<lambda>i. i < nextPanelId (applySnapshot s)) (leafIds (applySnapshot s)) \<and>
   (wf_tree t \<and> nextPanelId t \<le> maxSafeInteger \<longrightarrow> applySnapshot (toJSON t) = t)"
  using applySnapshot_fresh [of _ s] applySnapshot_toJSON [of t] by (auto simp: list_all_iff)

theorem snapshot_roundtrip_witness: "applySnapshot (toJSON demo_tree) = demo_tree"
  using snapshot_roundtrip [of "toJSON demo_tree" demo_tree] demo_tree_wf
  by (simp add: demo_tree_def maxSafeInteger_def)

end
