(* ===== verification/MuxTypes.thy ===== *)
theory MuxTypes
  imports Prelude
begin

text \<open>
  The entities of the multiplexer, \<open>packages/yaade-rpc/src/mux-session.ts\<close>: sessions, their tabs
  (windows) and terminals, the events the host sends about them, and the patterns of their ids.
  Positions, revisions and generations are whole numbers, timestamps are the host's strings.
\<close>

section \<open>Identifiers\<close>

definition idChar :: "char \<Rightarrow> bool" where
  "idChar c \<longleftrightarrow> c \<in> set (''ABCDEFGHIJKLMNOPQRSTUVWXYZ'' @ ''abcdefghijklmnopqrstuvwxyz'' @ ''0123456789_-'')"

text \<open>The patterns \<open>ses-[A-Za-z0-9_-]+\<close>, \<open>tab-...\<close> and \<open>term-...\<close>.\<close>

definition taggedId :: "string \<Rightarrow> string \<Rightarrow> bool" where
  "taggedId prefix s \<longleftrightarrow> take (length prefix) s = prefix \<and> length prefix < length s \<and>
     list_all idChar (drop (length prefix) s)"

definition validSessionId :: "string \<Rightarrow> bool" where
  "validSessionId = taggedId ''ses-''"

definition validMuxTerminalId :: "string \<Rightarrow> bool" where
  "validMuxTerminalId = taggedId ''term-''"

definition validSessionTabId :: "string \<Rightarrow> bool" where
  "validSessionTabId = taggedId ''tab-''"

lemma taggedId_nonempty: "taggedId p s \<Longrightarrow> s \<noteq> []"
  by (auto simp: taggedId_def)

lemma taggedId_append [simp]:
  "taggedId p (p @ s) \<longleftrightarrow> s \<noteq> [] \<and> list_all idChar s"
  by (auto simp: taggedId_def)

lemma taggedId_iff: "taggedId p s \<longleftrightarrow> (\<exists>r. s = p @ r \<and> r \<noteq> [] \<and> list_all idChar r)"
  by (metis append_take_drop_id taggedId_append taggedId_def)

section \<open>Entities\<close>

datatype terminal_status =
    Created | Starting | Running | Waiting | Succeeded | Failed | Cancelled | Disconnected

datatype process_state =
    PStarting | PRunning | PExited | PFailed | PDisconnected | PInterrupted | PRestoring | POrphaned

datatype activity_state =
    AStarting | AWorking | ARunningCommand | AWaitingForInput | AIdle | AFailed

record process_identity =
  pid :: int
  platform :: string
  bootId :: "string option"
  startToken :: string
  executablePath :: "string option"

record terminal_output =
  terminalInstanceId :: string
  ptyId :: "string option"
  historyId :: "string option"
  processIdentity :: "process_identity option"
  generation :: int
  processState :: process_state
  activityState :: activity_state
  replayAvailable :: bool
  exitCode :: "int option"
  truncated :: bool

record app_session =
  sesId :: string
  sesTitle :: string
  sesPosition :: int
  sesActiveTabId :: "string option"
  sesActiveMuxTerminalId :: "string option"
  sesRevision :: "int option"
  sesCreatedAt :: string
  sesUpdatedAt :: string
  sesArchivedAt :: "string option"

record session_tab =
  tabIdOf :: string
  tabSessionId :: string
  tabTitle :: string
  tabPosition :: int
  tabActiveMuxTerminalId :: "string option"
  tabLayoutJson :: "string option"
  tabRevision :: "int option"
  tabCreatedAt :: string
  tabUpdatedAt :: string
  tabArchivedAt :: "string option"

text \<open>\<open>kind\<close> is the literal \<open>terminal\<close>; of \<open>input\<close> only its shell arguments vary.\<close>

record mux_terminal =
  trmId :: string
  trmSessionId :: string
  trmTabId :: "string option"
  trmTitle :: string
  trmPosition :: int
  trmStatus :: terminal_status
  trmShellArgs :: "string list option"
  trmInputRevision :: int
  trmOutput :: terminal_output
  trmError :: "string option"
  trmRevision :: int
  trmCreatedAt :: string
  trmUpdatedAt :: string
  trmStartedAt :: "string option"
  trmFinishedAt :: "string option"
  trmArchivedAt :: "string option"

section \<open>Events\<close>

datatype session_tag = SessionCreated | SessionUpdated | SessionArchived | SessionRestored

datatype tab_tag = SessionTabCreated | SessionTabUpdated | SessionTabArchived

datatype terminal_tag = MuxTerminalCreated | MuxTerminalUpdated

text \<open>The events by their payload; \<open>revision\<close> and \<open>occurredAt\<close> come with each of them.\<close>

datatype mux_event =
    SessionEvent session_tag int string app_session
  | TabEvent tab_tag int string session_tab
  | TerminalEvent terminal_tag int string string mux_terminal
  | TerminalOutputChanged int string string terminal_output
  | MuxTerminalArchived int string string

fun eventRevision :: "mux_event \<Rightarrow> int" where
  "eventRevision (SessionEvent tag r ts s) = r"
| "eventRevision (TabEvent tag r ts t) = r"
| "eventRevision (TerminalEvent tag r ts i t) = r"
| "eventRevision (TerminalOutputChanged r ts i out) = r"
| "eventRevision (MuxTerminalArchived r ts i) = r"

datatype connection = Connecting | Connected | Reconciling | Offline

end
