(* ===== verification/TerminalTiling.thy ===== *)
theory TerminalTiling
  imports PanelTree MuxTypes
begin

text \<open>
  The arrangement of terminals in one window, \<open>packages/yaade-app/src/mux/terminal-tiling.ts\<close>: a
  split tree with at most one terminal per pane, the focused pane and the zoomed pane. Every
  exported function copies the tree before it changes it, so a workspace is a value here. The
  lemmas show that each operation keeps the workspace well formed, what it does to the set of
  terminals shown, and what restoring a persisted layout guarantees.
\<close>

section \<open>Data\<close>

definition MAX_TERMINAL_TILES :: nat where
  "MAX_TERMINAL_TILES = 6"

datatype terminal_pane_view = EmptyPane | TerminalPane string

type_synonym terminal_tree = "terminal_pane_view panel_tree"

record terminal_workspace =
  tree :: terminal_tree
  focusedPanelId :: int
  zoomedPanelId :: "int option"

definition TERMINAL_PANE_OPTIONS :: "terminal_pane_view panel_options" where
  "TERMINAL_PANE_OPTIONS = \<lparr>emptyView = EmptyPane, isEmptyView = (\<lambda>v. v = EmptyPane)\<rparr>"

text \<open>\<open>DropAction\<close> of \<open>packages/yaade-shared/src/panels.ts\<close>; the tiling only tells splits from the rest.\<close>

datatype drop_action =
    MoveToPane "int option"
  | SplitAction edge
  | InsertAtBoundary "int list" int

section \<open>Panes\<close>

text \<open>\<open>firstPanel\<close> allocates an id when a split tree has no leaf at all.\<close>

definition firstPanel :: "terminal_tree \<Rightarrow> int \<times> terminal_tree" where
  "firstPanel t =
     (case root t of
        Leaf i v \<Rightarrow> (i, t)
      | Split k cs rs \<Rightarrow>
          (case leaves t of
             (i, v) # _ \<Rightarrow> (i, t)
           | [] \<Rightarrow> allocPanelId t))"

definition panelExists :: "terminal_tree \<Rightarrow> int \<Rightarrow> bool" where
  "panelExists t p \<longleftrightarrow> getLeaf t p \<noteq> None"

definition terminalPaneCount :: "terminal_workspace \<Rightarrow> nat" where
  "terminalPaneCount w = length (leaves (tree w))"

definition resolvedFocus :: "terminal_tree \<Rightarrow> int \<Rightarrow> int \<times> terminal_tree" where
  "resolvedFocus t preferred = (if panelExists t preferred then (preferred, t) else firstPanel t)"

definition findTerminalPanel :: "terminal_tree \<Rightarrow> string \<Rightarrow> int option" where
  "findTerminalPanel t muxTerminalId = findPanelWithView t (\<lambda>v. v = TerminalPane muxTerminalId)"

definition removeTerminalPanel :: "terminal_tree \<Rightarrow> int \<Rightarrow> terminal_tree" where
  "removeTerminalPanel t p =
     (if getLeaf t p = None then t
      else if length (leaves t) = 1 then setView t p EmptyPane
      else closePanel TERMINAL_PANE_OPTIONS t p)"

section \<open>Operations on a workspace\<close>

definition createTerminalWorkspace :: terminal_workspace where
  "createTerminalWorkspace =
     (let (p, t) = firstPanel (newPanelTree TERMINAL_PANE_OPTIONS None)
      in \<lparr>tree = t, focusedPanelId = p, zoomedPanelId = None\<rparr>)"

definition focusTerminalPanel :: "terminal_workspace \<Rightarrow> int \<Rightarrow> terminal_workspace" where
  "focusTerminalPanel w p =
     (if \<not> panelExists (tree w) p then w
      else if focusedPanelId w = p \<and> zoomedPanelId w = None then w
      else w\<lparr>focusedPanelId := p, zoomedPanelId := None\<rparr>)"

text \<open>Split a pane and show a terminal in the new one.\<close>

definition splitInto :: "terminal_tree \<Rightarrow> int \<Rightarrow> edge \<Rightarrow> string \<Rightarrow> terminal_workspace" where
  "splitInto t target e muxTerminalId =
     (let (created, t') = splitAtEdge TERMINAL_PANE_OPTIONS t target e
      in \<lparr>tree = setView t' created (TerminalPane muxTerminalId),
          focusedPanelId = created, zoomedPanelId = None\<rparr>)"

definition openTerminalView :: "terminal_workspace \<Rightarrow> string \<Rightarrow> terminal_workspace" where
  "openTerminalView w muxTerminalId =
     (case findTerminalPanel (tree w) muxTerminalId of
        Some existing \<Rightarrow> focusTerminalPanel w existing
      | None \<Rightarrow>
          (let (target, t) = resolvedFocus (cloneTree (tree w)) (focusedPanelId w);
               targetView = getView t target
           in if targetView = None \<or> targetView = Some EmptyPane
              then \<lparr>tree = setView t target (TerminalPane muxTerminalId),
                    focusedPanelId = target, zoomedPanelId = None\<rparr>
              else if terminalPaneCount w \<ge> MAX_TERMINAL_TILES then w
              else splitInto t target ERight muxTerminalId))"

definition openTerminalViewInPanel :: "terminal_workspace \<Rightarrow> int \<Rightarrow> string \<Rightarrow> terminal_workspace" where
  "openTerminalViewInPanel w p muxTerminalId =
     (case findTerminalPanel (tree w) muxTerminalId of
        Some existing \<Rightarrow> focusTerminalPanel w existing
      | None \<Rightarrow>
          if \<not> panelExists (tree w) p then openTerminalView w muxTerminalId
          else if getView (tree w) p \<noteq> Some EmptyPane then openTerminalView w muxTerminalId
          else \<lparr>tree = setView (cloneTree (tree w)) p (TerminalPane muxTerminalId),
                focusedPanelId = p, zoomedPanelId = None\<rparr>)"

definition activateTerminalTab :: "terminal_workspace \<Rightarrow> int \<Rightarrow> string \<Rightarrow> terminal_workspace" where
  "activateTerminalTab w p muxTerminalId =
     (if getView (tree w) p \<noteq> Some (TerminalPane muxTerminalId) then w else focusTerminalPanel w p)"

definition reorderTerminalTabs :: "terminal_workspace \<Rightarrow> int \<Rightarrow> string \<Rightarrow> int \<Rightarrow> terminal_workspace" where
  "reorderTerminalTabs w p muxTerminalId toIndex = w"

text \<open>The edge is \<open>right\<close> or \<open>bottom\<close> in the source's type.\<close>

definition splitTerminalPanel :: "terminal_workspace \<Rightarrow> int \<Rightarrow> edge \<Rightarrow> terminal_workspace" where
  "splitTerminalPanel w p e =
     (if \<not> panelExists (tree w) p then w
      else if terminalPaneCount w \<ge> MAX_TERMINAL_TILES then w
      else (let (created, t) = splitAtEdge TERMINAL_PANE_OPTIONS (cloneTree (tree w)) p e
            in \<lparr>tree = t, focusedPanelId = created, zoomedPanelId = None\<rparr>))"

definition toggleTerminalPanelZoom :: "terminal_workspace \<Rightarrow> int \<Rightarrow> terminal_workspace" where
  "toggleTerminalPanelZoom w p =
     (if \<not> panelExists (tree w) p \<or> terminalPaneCount w < 2 then w
      else w\<lparr>focusedPanelId := p,
             zoomedPanelId := (if zoomedPanelId w = Some p then None else Some p)\<rparr>)"

definition closeTerminalPanel :: "terminal_workspace \<Rightarrow> int \<Rightarrow> terminal_workspace" where
  "closeTerminalPanel w p =
     (if \<not> panelExists (tree w) p then w
      else (let (focus, t) = resolvedFocus (removeTerminalPanel (cloneTree (tree w)) p) (focusedPanelId w)
            in \<lparr>tree = t, focusedPanelId = focus,
                zoomedPanelId = (if zoomedPanelId w = Some p then None else zoomedPanelId w)\<rparr>))"

definition closeTerminalTab :: "terminal_workspace \<Rightarrow> int \<Rightarrow> string \<Rightarrow> terminal_workspace" where
  "closeTerminalTab w p muxTerminalId =
     (if getView (tree w) p \<noteq> Some (TerminalPane muxTerminalId) then w else closeTerminalPanel w p)"

definition resizeTerminalSplit :: "terminal_workspace \<Rightarrow> int list \<Rightarrow> js_num list \<Rightarrow> terminal_workspace" where
  "resizeTerminalSplit w path ratios =
     (let (changed, t) = setSplitRatios (cloneTree (tree w)) path ratios
      in if \<not> changed then w else w\<lparr>tree := t\<rparr>)"

fun splitEdge :: "drop_action \<Rightarrow> edge option" where
  "splitEdge (SplitAction e) = (if e \<noteq> ECenter then Some e else None)"
| "splitEdge _ = None"

definition dockTerminalView :: "terminal_workspace \<Rightarrow> string \<Rightarrow> int \<Rightarrow> drop_action \<Rightarrow> terminal_workspace" where
  "dockTerminalView w muxTerminalId target action =
     (if \<not> panelExists (tree w) target then w
      else (let source = findTerminalPanel (tree w) muxTerminalId
      in if source = Some target then focusTerminalPanel w target
      else (let t = cloneTree (tree w); targetView = getView t target
      in case splitEdge action of
           Some e \<Rightarrow>
             if source = None \<and> terminalPaneCount w \<ge> MAX_TERMINAL_TILES then w
             else (let t' = (case source of None \<Rightarrow> t | Some s \<Rightarrow> removeTerminalPanel t s)
                   in if \<not> panelExists t' target then w else splitInto t' target e muxTerminalId)
         | None \<Rightarrow>
             (case source of
                Some s \<Rightarrow>
                  (let t' = (case (targetView, getView t s) of
                       (Some (TerminalPane a), Some (TerminalPane b)) \<Rightarrow>
                          setView (setView t s (TerminalPane a)) target (TerminalPane b)
                     | _ \<Rightarrow> removeTerminalPanel (setView t target (TerminalPane muxTerminalId)) s)
                   in \<lparr>tree = t', focusedPanelId = target, zoomedPanelId = None\<rparr>)
              | None \<Rightarrow>
                  if targetView = Some EmptyPane
                  then \<lparr>tree = setView t target (TerminalPane muxTerminalId),
                        focusedPanelId = target, zoomedPanelId = None\<rparr>
                  else if terminalPaneCount w \<ge> MAX_TERMINAL_TILES then w
                  else splitInto t target ERight muxTerminalId))))"

text \<open>The terminals that are shown and not in the given live set, with their panes, in leaf order.\<close>

fun missingView :: "string list \<Rightarrow> int \<times> terminal_pane_view \<Rightarrow> (int \<times> string) option" where
  "missingView live (p, TerminalPane x) = (if \<not> List.member live x then Some (p, x) else None)"
| "missingView live (p, EmptyPane) = None"

definition missingViews :: "terminal_workspace \<Rightarrow> string list \<Rightarrow> (int \<times> string) list" where
  "missingViews w live = somes (map (missingView live) (leaves (tree w)))"

definition removeMissingTerminalViews :: "terminal_workspace \<Rightarrow> string list \<Rightarrow> terminal_workspace" where
  "removeMissingTerminalViews w live =
     fold (\<lambda>(p, x) next. closeTerminalTab next p x) (missingViews w live) w"

fun terminalOf :: "terminal_pane_view \<Rightarrow> string option" where
  "terminalOf EmptyPane = None"
| "terminalOf (TerminalPane x) = Some x"

definition terminalIdsInWorkspace :: "terminal_workspace \<Rightarrow> string list" where
  "terminalIdsInWorkspace w = keysOf terminalOf (leaves (tree w))"

section \<open>Well-formed workspaces\<close>

text \<open>What holds of an arrangement before the number of panes is capped.\<close>

definition wf_arrangement :: "terminal_workspace \<Rightarrow> bool" where
  "wf_arrangement w \<longleftrightarrow> wf_tree (tree w) \<and> panelExists (tree w) (focusedPanelId w) \<and>
     (case zoomedPanelId w of None \<Rightarrow> True | Some z \<Rightarrow> panelExists (tree w) z) \<and>
     distinct (terminalIdsInWorkspace w)"

definition wf_workspace :: "terminal_workspace \<Rightarrow> bool" where
  "wf_workspace w \<longleftrightarrow> wf_arrangement w \<and> terminalPaneCount w \<le> MAX_TERMINAL_TILES"

interpretation tiles: keyed_store wf_tree "\<lambda>t. leaves t" EmptyPane setView
  "splitAtEdge TERMINAL_PANE_OPTIONS" "closePanel TERMINAL_PANE_OPTIONS" terminalOf
proof (rule keyed_store.intro)
  show "panel_store wf_tree (\<lambda>t. leaves t) EmptyPane setView (splitAtEdge TERMINAL_PANE_OPTIONS)
      (closePanel TERMINAL_PANE_OPTIONS)"
    using panes.panel_store_axioms [of TERMINAL_PANE_OPTIONS] by (simp add: TERMINAL_PANE_OPTIONS_def)
qed (unfold_locales, simp)

abbreviation shown :: "terminal_tree \<Rightarrow> int \<Rightarrow> string \<Rightarrow> bool" where
  "shown t p x \<equiv> (p, TerminalPane x) \<in> set (leaves t)"

abbreviation unique :: "terminal_tree \<Rightarrow> bool" where
  "unique t \<equiv> uniqueKeys terminalOf (leaves t)"

lemma terminalOf_Some [simp]: "terminalOf v = Some x \<longleftrightarrow> v = TerminalPane x"
  by (cases v) auto

lemma terminalOf_None: "terminalOf v = None \<longleftrightarrow> v = EmptyPane"
  by (cases v) auto

lemma set_terminalIds: "set (terminalIdsInWorkspace w) = {x. \<exists>p. shown (tree w) p x}"
  by (auto simp: terminalIdsInWorkspace_def set_keysOf)

lemma unique_iff:
  "wf_tree (tree w) \<Longrightarrow> distinct (terminalIdsInWorkspace w) \<longleftrightarrow> unique (tree w)"
  unfolding terminalIdsInWorkspace_def by (rule distinct_keysOf) (rule wf_treeD(2))

lemma panelExists_iff: "panelExists t p \<longleftrightarrow> p \<in> set (leafIds t)"
  by (simp add: panelExists_def getLeaf_None_iff del: set_map)

lemma panelExists_view: "panelExists t p \<Longrightarrow> \<exists>v. (p, v) \<in> set (leaves t)"
  by (auto simp: panelExists_iff)

lemma panelExistsI: "(p, v) \<in> set (leaves t) \<Longrightarrow> panelExists t p"
  by (force simp: panelExists_iff)

lemma findTerminal_Some: "findTerminalPanel t x = Some p \<Longrightarrow> shown t p x"
  by (auto simp: findTerminalPanel_def dest: findPanel_Some)

lemma findTerminal_None: "findTerminalPanel t x = None \<longleftrightarrow> (\<forall>p. \<not> shown t p x)"
  by (force simp: findTerminalPanel_def findPanel_None)

lemma firstPanel_wf: "wf_tree t \<Longrightarrow> \<exists>p. firstPanel t = (p, t) \<and> panelExists t p"
  using wf_node_nonempty [of "root t"] wf_treeD(1) [of t]
  by (cases "root t"; cases "leaves t") (auto simp: firstPanel_def panelExists_iff)

lemma resolvedFocus_wf:
  assumes "wf_tree t"
  obtains p where "resolvedFocus t preferred = (p, t)" "panelExists t p"
    "panelExists t preferred \<Longrightarrow> p = preferred"
  using firstPanel_wf [OF assms] by (cases "panelExists t preferred") (auto simp: resolvedFocus_def)

lemma getView_iff: "wf_tree t \<Longrightarrow> getView t p = Some v \<longleftrightarrow> (p, v) \<in> set (leaves t)"
  by (rule getView_Some_iff) (rule wf_treeD(2))

lemma view_unique: "wf_tree t \<Longrightarrow> (p, v) \<in> set (leaves t) \<Longrightarrow> (p, w) \<in> set (leaves t) \<Longrightarrow> v = w"
  by (rule eq_key_imp_eq_value [OF wf_treeD(2)])

text \<open>Removing a pane: the last one only becomes empty.\<close>

lemma length_one_distinct: "length xs = 1 \<Longrightarrow> (p, v) \<in> set xs \<Longrightarrow> xs = [(p, v)]"
  by (cases xs) auto

lemma leaves_remove:
  assumes "wf_tree t" and "panelExists t p"
  shows "leaves (removeTerminalPanel t p) =
    (if length (leaves t) = 1 then [(p, EmptyPane)] else filter (\<lambda>l. fst l \<noteq> p) (leaves t))"
proof (cases "length (leaves t) = 1")
  case True
  obtain v where "(p, v) \<in> set (leaves t)" using panelExists_view [OF assms(2)] by blast
  then have "leaves t = [(p, v)]" by (rule length_one_distinct [OF True])
  with assms(2) show ?thesis by (auto simp: removeTerminalPanel_def panelExists_def)
next
  case False
  with wf_node_nonempty [OF wf_treeD(1) [OF assms(1)]] have "2 \<le> length (leaves t)"
    by (cases "leaves t"; cases "tl (leaves t)") auto
  from tiles.items_close [OF assms(1) tiles.other_pane [OF assms(1) this]] False assms(2)
  show ?thesis by (auto simp: removeTerminalPanel_def panelExists_def)
qed

lemma remove_wf: "wf_tree t \<Longrightarrow> wf_tree (removeTerminalPanel t p)"
  by (simp add: removeTerminalPanel_def closePanel_wf)

lemma set_leaves_remove:
  assumes "wf_tree t" and "panelExists t p"
  shows "q \<noteq> p \<Longrightarrow> (q, v) \<in> set (leaves (removeTerminalPanel t p)) \<longleftrightarrow> (q, v) \<in> set (leaves t)"
    and "\<not> shown (removeTerminalPanel t p) p x"
  using length_one_distinct [of "leaves t" q v] length_one_distinct [of "leaves t" p] panelExists_view [OF assms(2)]
  by (auto simp: leaves_remove [OF assms])

lemma unique_remove:
  assumes "wf_tree t" and "panelExists t p" and "unique t"
  shows "unique (removeTerminalPanel t p)"
proof (rule uniqueKeysI)
  fix i v j w k
  assume "(i, v) \<in> set (leaves (removeTerminalPanel t p))" "(j, w) \<in> set (leaves (removeTerminalPanel t p))"
    "terminalOf v = Some k" "terminalOf w = Some k"
  then show "i = j"
    using set_leaves_remove [OF assms(1,2)] assms(3) by (auto dest: uniqueKeysD) (metis terminalOf_Some uniqueKeysD)
qed

section \<open>Every operation keeps the workspace well formed\<close>

lemma wf_arrangementI:
  "wf_tree (tree w) \<Longrightarrow> unique (tree w) \<Longrightarrow> panelExists (tree w) (focusedPanelId w) \<Longrightarrow>
     (\<And>z. zoomedPanelId w = Some z \<Longrightarrow> panelExists (tree w) z) \<Longrightarrow> wf_arrangement w"
  by (auto simp: wf_arrangement_def unique_iff split: option.split)

lemma wf_arrangementD:
  assumes "wf_arrangement w"
  shows "wf_tree (tree w)" "unique (tree w)" "panelExists (tree w) (focusedPanelId w)"
    and "zoomedPanelId w = Some z \<Longrightarrow> panelExists (tree w) z"
  using assms by (auto simp: wf_arrangement_def unique_iff)

lemma wf_workspaceI:
  "wf_arrangement w \<Longrightarrow> terminalPaneCount w \<le> MAX_TERMINAL_TILES \<Longrightarrow> wf_workspace w"
  by (simp add: wf_workspace_def)

lemma panelExists_setView [simp]: "panelExists (setView t p v) q \<longleftrightarrow> panelExists t q"
  by (simp add: panelExists_iff del: leaves_setView set_map)

lemma unique_setView:
  assumes "unique t" and "\<forall>q. \<not> shown t q x"
  shows "unique (setView t p (TerminalPane x))"
  by (rule tiles.unique_set) (use assms in auto)

text \<open>Putting a terminal that is not shown yet into a pane.\<close>

lemma fill_wf:
  assumes "wf_tree t" and "unique t" and "panelExists t p" and "\<forall>q. \<not> shown t q x"
  shows "wf_arrangement \<lparr>tree = setView t p (TerminalPane x), focusedPanelId = p, zoomedPanelId = None\<rparr>"
  by (rule wf_arrangementI) (use assms in \<open>simp_all add: unique_setView del: leaves_setView\<close>)

lemma splitInto_leaves:
  assumes "wf_tree t" and "panelExists t target"
  shows "\<exists>j. \<not> panelExists t j \<and> focusedPanelId (splitInto t target e x) = j \<and>
    set (leaves (tree (splitInto t target e x))) = insert (j, TerminalPane x) (set (leaves t)) \<and>
    terminalPaneCount (splitInto t target e x) = Suc (length (leaves t))"
proof -
  obtain j t' where s: "splitAtEdge TERMINAL_PANE_OPTIONS t target e = (j, t')" by fastforce
  note l = tiles.set_items_split [OF assms(1) s] and n = tiles.length_split [OF assms(1) s]
  have t: "target \<in> set (leafIds t)" using assms(2) by (simp add: panelExists_iff)
  have j: "j \<notin> set (leafIds t)" using tiles.items_split [OF assms(1) s] by blast
  have "set (leaves (setView t' j (TerminalPane x))) = insert (j, TerminalPane x) (set (leaves t))"
    unfolding set_eq_iff split_paired_All tiles.set_items_set
    using l t j by (auto simp: image_iff)
  with n [OF t] j s show ?thesis
    by (auto simp: splitInto_def panelExists_iff terminalPaneCount_def tiles.length_set simp del: leaves_setView)
qed

lemma splitInto_wf:
  assumes "wf_tree t" and "unique t" and "panelExists t target" and "\<forall>q. \<not> shown t q x"
  shows "wf_arrangement (splitInto t target e x)"
proof (rule wf_arrangementI)
  obtain j t' where s: "splitAtEdge TERMINAL_PANE_OPTIONS t target e = (j, t')" by fastforce
  show "wf_tree (tree (splitInto t target e x))"
    using s splitAtEdge_wf [OF assms(1) s] by (simp add: splitInto_def)
  obtain j where j: "\<not> panelExists t j" "focusedPanelId (splitInto t target e x) = j"
    "set (leaves (tree (splitInto t target e x))) = insert (j, TerminalPane x) (set (leaves t))"
    using splitInto_leaves [OF assms(1,3)] by blast
  show "unique (tree (splitInto t target e x))"
    by (rule uniqueKeysI) (use j assms(2,4) in \<open>auto dest: uniqueKeysD\<close>)
  show "panelExists (tree (splitInto t target e x)) (focusedPanelId (splitInto t target e x))"
    using j by (intro panelExistsI) auto
qed (simp add: splitInto_def case_prod_beta)

lemma focus_wf: "wf_workspace w \<Longrightarrow> wf_workspace (focusTerminalPanel w p)"
  by (auto simp: focusTerminalPanel_def wf_workspace_def wf_arrangement_def terminalIdsInWorkspace_def
      terminalPaneCount_def)

lemma create_wf: "wf_workspace createTerminalWorkspace"
  by (simp add: createTerminalWorkspace_def newPanelTree_def firstPanel_def wf_workspace_def
      wf_arrangement_def panelExists_iff terminalIdsInWorkspace_def terminalPaneCount_def keysOf_def
      TERMINAL_PANE_OPTIONS_def MAX_TERMINAL_TILES_def)

lemma fill_count [simp]:
  "terminalPaneCount \<lparr>tree = setView t p v, focusedPanelId = f, zoomedPanelId = z\<rparr> = length (leaves t)"
  by (simp add: terminalPaneCount_def)

text \<open>\<open>openTerminalView\<close> by its four outcomes.\<close>

lemma open_cases:
  assumes "wf_arrangement w"
  obtains (existing) p where "shown (tree w) p x" "openTerminalView w x = focusTerminalPanel w p"
  | (empty) "\<forall>q. \<not> shown (tree w) q x" "(focusedPanelId w, EmptyPane) \<in> set (leaves (tree w))"
      "openTerminalView w x = \<lparr>tree = setView (tree w) (focusedPanelId w) (TerminalPane x),
         focusedPanelId = focusedPanelId w, zoomedPanelId = None\<rparr>"
  | (full) y where "\<forall>q. \<not> shown (tree w) q x" "shown (tree w) (focusedPanelId w) y"
      "terminalPaneCount w \<ge> MAX_TERMINAL_TILES" "openTerminalView w x = w"
  | (split) y where "\<forall>q. \<not> shown (tree w) q x" "shown (tree w) (focusedPanelId w) y"
      "terminalPaneCount w < MAX_TERMINAL_TILES"
      "openTerminalView w x = splitInto (tree w) (focusedPanelId w) ERight x"
proof (cases "findTerminalPanel (tree w) x")
  case (Some p)
  then show ?thesis by (intro existing [of p] findTerminal_Some) (auto simp: openTerminalView_def)
next
  case None
  note wf = wf_arrangementD [OF assms]
  note n = None [unfolded findTerminal_None]
  have f: "resolvedFocus (tree w) (focusedPanelId w) = (focusedPanelId w, tree w)"
    using wf(3) by (simp add: resolvedFocus_def)
  obtain v where v: "(focusedPanelId w, v) \<in> set (leaves (tree w))" using panelExists_view [OF wf(3)] by blast
  then have g: "getView (tree w) (focusedPanelId w) = Some v" by (simp add: getView_iff wf(1))
  show ?thesis
  proof (cases v)
    case EmptyPane
    with None n f g v show ?thesis by (intro empty) (auto simp: openTerminalView_def)
  next
    case (TerminalPane y)
    with None n f g v show ?thesis
      by (cases "MAX_TERMINAL_TILES \<le> terminalPaneCount w")
        (auto simp: openTerminalView_def intro: full [of y] split [of y])
  qed
qed

lemma open_wf: "wf_workspace w \<Longrightarrow> wf_workspace (openTerminalView w x)"
proof -
  assume w: "wf_workspace w"
  then have a: "wf_arrangement w" and c: "terminalPaneCount w \<le> MAX_TERMINAL_TILES"
    by (auto simp: wf_workspace_def)
  note wf = wf_arrangementD [OF a]
  from a show ?thesis
  proof (cases rule: open_cases [where x = x])
    case (existing p)
    with w show ?thesis by (simp add: focus_wf)
  next
    case empty
    with fill_wf [OF wf(1-3)] c show ?thesis
      by (intro wf_workspaceI) (simp_all add: terminalPaneCount_def)
  next
    case (full y)
    with w show ?thesis by simp
  next
    case (split y)
    with splitInto_wf [OF wf(1-3)] splitInto_leaves [OF wf(1,3), of ERight x] show ?thesis
      by (intro wf_workspaceI) (auto simp: terminalPaneCount_def)
  qed
qed

lemma wf_workspaceD:
  assumes "wf_workspace w"
  shows "wf_arrangement w" "wf_tree (tree w)" "unique (tree w)" "panelExists (tree w) (focusedPanelId w)"
    and "zoomedPanelId w = Some z \<Longrightarrow> panelExists (tree w) z" "length (leaves (tree w)) \<le> MAX_TERMINAL_TILES"
  using assms wf_arrangementD [of w] by (auto simp: wf_workspace_def terminalPaneCount_def)

lemma open_in_panel_wf: "wf_workspace w \<Longrightarrow> wf_workspace (openTerminalViewInPanel w p x)"
proof -
  assume w: "wf_workspace w"
  note d = wf_workspaceD [OF w]
  have "wf_workspace \<lparr>tree = setView (tree w) p (TerminalPane x), focusedPanelId = p, zoomedPanelId = None\<rparr>"
    if "findTerminalPanel (tree w) x = None" "panelExists (tree w) p"
    using that d(6) by (intro wf_workspaceI fill_wf d(2,3)) (simp_all add: findTerminal_None)
  with w show ?thesis
    by (auto simp: openTerminalViewInPanel_def focus_wf open_wf split: option.split)
qed

lemma split_panel_wf: "wf_workspace w \<Longrightarrow> wf_workspace (splitTerminalPanel w p e)"
proof -
  assume w: "wf_workspace w"
  note d = wf_workspaceD [OF w]
  obtain j t where s: "splitAtEdge TERMINAL_PANE_OPTIONS (tree w) p e = (j, t)" by fastforce
  have "wf_workspace \<lparr>tree = t, focusedPanelId = j, zoomedPanelId = None\<rparr>"
    if p: "panelExists (tree w) p" and c: "terminalPaneCount w < MAX_TERMINAL_TILES"
  proof (rule wf_workspaceI [OF wf_arrangementI])
    have t: "p \<in> set (leafIds (tree w))" using p by (simp add: panelExists_iff)
    have "(j, EmptyPane) \<in> set (leaves t)"
      using tiles.set_items_split [OF d(2) s] t by simp
    then show "panelExists (tree \<lparr>tree = t, focusedPanelId = j, zoomedPanelId = None\<rparr>)
        (focusedPanelId \<lparr>tree = t, focusedPanelId = j, zoomedPanelId = None\<rparr>)"
      by (auto intro: panelExistsI)
    show "terminalPaneCount \<lparr>tree = t, focusedPanelId = j, zoomedPanelId = None\<rparr> \<le> MAX_TERMINAL_TILES"
      using tiles.length_split [OF d(2) s t] c by (simp add: terminalPaneCount_def)
  qed (use splitAtEdge_wf [OF d(2) s] tiles.unique_split [OF d(2) s d(3)] in simp_all)
  with w s show ?thesis by (auto simp: splitTerminalPanel_def)
qed

lemma zoom_wf: "wf_workspace w \<Longrightarrow> wf_workspace (toggleTerminalPanelZoom w p)"
  by (auto simp: toggleTerminalPanelZoom_def wf_workspace_def wf_arrangement_def
      terminalIdsInWorkspace_def terminalPaneCount_def)

text \<open>Closing an existing pane: the other panes stay, the focus moves only when it must.\<close>

lemma close_panel:
  assumes "wf_arrangement w" and "panelExists (tree w) p"
  shows "wf_arrangement (closeTerminalPanel w p)"
    and "tree (closeTerminalPanel w p) = removeTerminalPanel (tree w) p"
    and "terminalPaneCount (closeTerminalPanel w p) =
      (if terminalPaneCount w = 1 then 1 else terminalPaneCount w - 1)"
proof -
  note d = wf_arrangementD [OF assms(1)]
  let ?t = "removeTerminalPanel (tree w) p"
  note t = remove_wf [OF d(1), of p]
  obtain f where f: "resolvedFocus ?t (focusedPanelId w) = (f, ?t)" "panelExists ?t f"
    by (rule resolvedFocus_wf [OF t])
  show tr: "tree (closeTerminalPanel w p) = ?t"
    using assms(2) f by (simp add: closeTerminalPanel_def)
  show "wf_arrangement (closeTerminalPanel w p)"
  proof (rule wf_arrangementI)
    fix z assume "zoomedPanelId (closeTerminalPanel w p) = Some z"
    then have z: "zoomedPanelId w = Some z" "z \<noteq> p"
      using assms(2) f by (auto simp: closeTerminalPanel_def split: if_splits)
    then obtain v where "(z, v) \<in> set (leaves (tree w))" using d(4) panelExists_view by blast
    then show "panelExists (tree (closeTerminalPanel w p)) z"
      unfolding tr using set_leaves_remove(1) [OF d(1) assms(2) z(2), of v] by (intro panelExistsI) simp
  next
    show "panelExists (tree (closeTerminalPanel w p)) (focusedPanelId (closeTerminalPanel w p))"
      using assms(2) f by (simp add: closeTerminalPanel_def)
  next
    show "wf_tree (tree (closeTerminalPanel w p))" unfolding tr by (rule t)
    show "unique (tree (closeTerminalPanel w p))" unfolding tr by (rule unique_remove [OF d(1) assms(2) d(2)])
  qed
  show "terminalPaneCount (closeTerminalPanel w p) =
      (if terminalPaneCount w = 1 then 1 else terminalPaneCount w - 1)"
  proof (cases "length (leaves (tree w)) = 1")
    case True
    then show ?thesis unfolding terminalPaneCount_def tr by (simp add: leaves_remove [OF d(1) assms(2)])
  next
    case False
    with wf_node_nonempty [OF wf_treeD(1) [OF d(1)]] have "2 \<le> length (leaves (tree w))"
      by (cases "leaves (tree w)"; cases "tl (leaves (tree w))") auto
    note two = tiles.length_close [OF d(1) this, of p] tiles.items_close [OF d(1) tiles.other_pane [OF d(1) this]]
    with False assms(2) show ?thesis
      unfolding terminalPaneCount_def tr leaves_remove [OF d(1) assms(2)] panelExists_iff by auto
  qed
qed

lemma close_panel_absent: "\<not> panelExists (tree w) p \<Longrightarrow> closeTerminalPanel w p = w"
  by (simp add: closeTerminalPanel_def)

lemma close_wf_arrangement: "wf_arrangement w \<Longrightarrow> wf_arrangement (closeTerminalPanel w p)"
  by (cases "panelExists (tree w) p") (simp_all add: close_panel close_panel_absent)

lemma close_count: "wf_arrangement w \<Longrightarrow> terminalPaneCount (closeTerminalPanel w p) \<le> terminalPaneCount w"
  by (cases "panelExists (tree w) p") (auto simp: close_panel close_panel_absent)

lemma close_wf: "wf_workspace w \<Longrightarrow> wf_workspace (closeTerminalPanel w p)"
  using close_wf_arrangement [of w p] close_count [of w p] by (auto simp: wf_workspace_def)

lemma close_tab_wf_arrangement: "wf_arrangement w \<Longrightarrow> wf_arrangement (closeTerminalTab w p x)"
  by (simp add: closeTerminalTab_def close_wf_arrangement)

lemma close_tab_wf: "wf_workspace w \<Longrightarrow> wf_workspace (closeTerminalTab w p x)"
  by (simp add: closeTerminalTab_def close_wf)

lemma resize_wf: "wf_workspace w \<Longrightarrow> wf_workspace (resizeTerminalSplit w path ratios)"
  using setSplitRatios_wf [of "tree w" path ratios] leaves_setSplitRatios [of "tree w" path ratios]
  by (auto simp: resizeTerminalSplit_def wf_workspace_def wf_arrangement_def panelExists_iff
      terminalPaneCount_def terminalIdsInWorkspace_def case_prod_beta split: option.splits
      simp del: leaves_setSplitRatios)

lemma unique_other:
  "unique t \<Longrightarrow> shown t p x \<Longrightarrow> q \<noteq> p \<Longrightarrow> \<not> shown t q x"
  by (auto dest: uniqueKeysD)

lemma removed_not_shown:
  assumes "wf_tree t" and "unique t" and "shown t p x"
  shows "\<not> shown (removeTerminalPanel t p) q x"
  using set_leaves_remove [OF assms(1) panelExistsI [OF assms(3)]] unique_other [OF assms(2,3)]
  by (cases "q = p") auto

lemma panelExists_remove:
  assumes "wf_tree t" and "panelExists t p" and "panelExists t q" and "q \<noteq> p"
  shows "panelExists (removeTerminalPanel t p) q"
proof -
  obtain v where "(q, v) \<in> set (leaves t)" using panelExists_view [OF assms(3)] by blast
  with set_leaves_remove(1) [OF assms(1,2,4)] show ?thesis by (intro panelExistsI) simp
qed

lemma length_remove:
  assumes "wf_arrangement w" and "panelExists (tree w) p"
  shows "length (leaves (removeTerminalPanel (tree w) p)) = (if terminalPaneCount w = 1 then 1 else terminalPaneCount w - 1)"
  using close_panel(2,3) [OF assms] by (simp add: terminalPaneCount_def)

section \<open>Docking\<close>

abbreviation terminals :: "terminal_workspace \<Rightarrow> string set" where
  "terminals w \<equiv> set (terminalIdsInWorkspace w)"

lemma terminals_eqI:
  "set (leaves (tree w)) = insert (j, TerminalPane x) L \<Longrightarrow>
     terminals w = insert x {y. \<exists>p. (p, TerminalPane y) \<in> L}"
  by (auto simp: set_terminalIds)

lemma terminals_focus [simp]: "terminals (focusTerminalPanel w p) = terminals w"
  by (simp add: focusTerminalPanel_def terminalIdsInWorkspace_def)

text \<open>The three ways a terminal is moved: beside a pane, onto an empty pane, swapped with another.\<close>

lemma dock_split:
  fixes e :: edge
  assumes w: "wf_workspace w" and s: "shown (tree w) s x" and "s \<noteq> target" and "panelExists (tree w) target"
  defines "r \<equiv> splitInto (removeTerminalPanel (tree w) s) target e x"
  shows "wf_workspace r \<and> terminals r = terminals w"
proof -
  note d = wf_workspaceD [OF w]
  let ?t = "removeTerminalPanel (tree w) s"
  have se: "panelExists (tree w) s" using s by (rule panelExistsI)
  have te: "panelExists ?t target"
    using panelExists_remove [OF d(2) se assms(4)] assms(3) by simp
  have nx: "\<forall>q. \<not> shown ?t q x" using removed_not_shown [OF d(2,3) s] by blast
  note t = remove_wf [OF d(2), of s]
  have "wf_arrangement r"
    unfolding r_def by (rule splitInto_wf [OF t unique_remove [OF d(2) se d(3)] te nx])
  moreover have "1 < terminalPaneCount w"
  proof (rule ccontr)
    assume "\<not> 1 < terminalPaneCount w"
    with se assms(3,4) show False
      by (cases "leaves (tree w)") (auto simp: terminalPaneCount_def panelExists_iff)
  qed
  with splitInto_leaves [OF t te, of e x] length_remove [OF d(1) se] d(6)
  have "terminalPaneCount r \<le> MAX_TERMINAL_TILES" by (auto simp: r_def terminalPaneCount_def)
  ultimately have "wf_workspace r" by (rule wf_workspaceI)
  moreover have "terminals r = terminals w"
  proof -
    have "\<exists>q. shown ?t q y" if "shown (tree w) p y" "y \<noteq> x" for p y
      using that set_leaves_remove(1) [OF d(2) se, of p] view_unique [OF d(2) s, of "TerminalPane y"] by blast
    moreover have "\<exists>q. shown (tree w) q y" if "shown ?t p y" for p y
      using that set_leaves_remove(1) [OF d(2) se, of p] set_leaves_remove(2) [OF d(2) se]
      by (cases "p = s") auto
    moreover obtain j where "set (leaves (tree r)) = insert (j, TerminalPane x) (set (leaves ?t))"
      using splitInto_leaves [OF t te, of e x] unfolding r_def by blast
    from terminals_eqI [OF this] have "terminals r = insert x {y. \<exists>p. shown ?t p y}" .
    moreover have "x \<in> terminals w" using s unfolding set_terminalIds by blast
    ultimately show ?thesis unfolding set_terminalIds by auto
  qed
  ultimately show ?thesis ..
qed

lemma dock_swap:
  assumes w: "wf_workspace w" and s: "shown (tree w) s x" and t: "shown (tree w) target a" and "s \<noteq> target"
  defines "r \<equiv> \<lparr>tree = setView (setView (tree w) s (TerminalPane a)) target (TerminalPane x),
    focusedPanelId = target, zoomedPanelId = None\<rparr>"
  shows "wf_workspace r \<and> terminals r = terminals w"
proof -
  note d = wf_workspaceD [OF w]
  have "panelExists (tree w) target" using t by (rule panelExistsI)
  then have "wf_arrangement r"
    unfolding r_def using tiles.unique_swap [OF d(3,2) assms(4) s t] d(2)
    by (intro wf_arrangementI) (simp_all del: leaves_setView)
  then have "wf_workspace r" using d(6) by (intro wf_workspaceI) (simp_all add: r_def)
  moreover have "terminals r = terminals w"
  proof -
    have L: "(i, v) \<in> set (leaves (tree r)) \<longleftrightarrow> (if i = target then v = TerminalPane x
        else if i = s then v = TerminalPane a else (i, v) \<in> set (leaves (tree w)))" for i v
      using panelExistsI [OF s] panelExistsI [OF t] assms(4) unfolding r_def panelExists_iff
      by (simp add: tiles.set_items_set tiles.ids_set del: leaves_setView set_map)
    have "shown (tree r) target x" "shown (tree r) s a" using L assms(4) by auto
    moreover have "shown (tree r) p y" if "shown (tree w) p y" "p \<noteq> s" "p \<noteq> target" for p y
      using L that by simp
    ultimately have "terminals w \<subseteq> terminals r"
      unfolding set_terminalIds using view_unique [OF d(2) s] view_unique [OF d(2) t] by blast
    moreover have "terminals r \<subseteq> terminals w"
      using L s t unfolding set_terminalIds by (auto split: if_splits)
    ultimately show ?thesis by blast
  qed
  ultimately show ?thesis ..
qed

lemma dock_onto_empty:
  assumes w: "wf_workspace w" and s: "shown (tree w) s x"
    and t: "(target, EmptyPane) \<in> set (leaves (tree w))" and "s \<noteq> target"
  defines "r \<equiv> \<lparr>tree = removeTerminalPanel (setView (tree w) target (TerminalPane x)) s,
    focusedPanelId = target, zoomedPanelId = None\<rparr>"
  shows "wf_workspace r \<and> terminals r = terminals w"
proof -
  note d = wf_workspaceD [OF w]
  let ?t = "setView (tree w) target (TerminalPane x)"
  have e: "wf_tree ?t" "panelExists ?t s" "panelExists ?t target"
    using d(2) panelExistsI [OF s] panelExistsI [OF t] by simp_all
  have L: "(i, v) \<in> set (leaves (tree r)) \<longleftrightarrow>
      (if i = target then v = TerminalPane x else (i, v) \<in> set (leaves (tree w)))" if "i \<noteq> s" for i v
    using set_leaves_remove(1) [OF e(1,2) that] panelExistsI [OF t] unfolding r_def panelExists_iff
    by (simp add: tiles.set_items_set del: leaves_setView set_map)
  have Ls: "\<not> shown (tree r) s y" for y
    using set_leaves_remove(2) [OF e(1,2)] by (simp add: r_def)
  have "unique (tree r)"
  proof (rule uniqueKeysI)
    fix i v j u k
    assume "(i, v) \<in> set (leaves (tree r))" "(j, u) \<in> set (leaves (tree r))"
      "terminalOf v = Some k" "terminalOf u = Some k"
    then have "shown (tree r) i k" "shown (tree r) j k" by simp_all
    moreover from this Ls have "i \<noteq> s" "j \<noteq> s" by blast+
    ultimately show "i = j"
      using unique_other [OF d(3) s, of i] unique_other [OF d(3) s, of j] unique_other [OF d(3), of i k j]
      by (auto simp: L split: if_splits)
  qed
  moreover have "panelExists (tree r) target"
    using panelExists_remove [OF e] assms(4) by (simp add: r_def)
  ultimately have a: "wf_arrangement r"
    using remove_wf [OF e(1), of s] by (intro wf_arrangementI) (simp_all add: r_def)
  have "length (leaves (removeTerminalPanel ?t s)) \<le> length (leaves ?t)"
    unfolding leaves_remove [OF e(1,2)] by (simp del: leaves_setView)
  then have "wf_workspace r"
    using d(6) by (intro wf_workspaceI a) (simp add: r_def terminalPaneCount_def)
  moreover have "terminals r = terminals w"
  proof (rule set_eqI)
    fix y
    show "y \<in> terminals r \<longleftrightarrow> y \<in> terminals w"
    proof (cases "y = x")
      case True
      have "shown (tree r) target x" using L assms(4) by simp
      with True s show ?thesis unfolding set_terminalIds by blast
    next
      case False
      then have "shown (tree r) i y \<longleftrightarrow> shown (tree w) i y" for i
        using L [of i "TerminalPane y"] Ls [of y] view_unique [OF d(2) s] view_unique [OF d(2) t]
        by (cases "i = s") (auto split: if_splits)
      then show ?thesis unfolding set_terminalIds by blast
    qed
  qed
  ultimately show ?thesis ..
qed

lemma splitInto_new:
  assumes w: "wf_workspace w" and n: "\<forall>q. \<not> shown (tree w) q x" and "panelExists (tree w) target"
    and "terminalPaneCount w < MAX_TERMINAL_TILES"
  shows "wf_workspace (splitInto (tree w) target e x) \<and>
    terminals (splitInto (tree w) target e x) = insert x (terminals w)"
proof -
  note d = wf_workspaceD [OF w]
  obtain j where j: "set (leaves (tree (splitInto (tree w) target e x))) =
      insert (j, TerminalPane x) (set (leaves (tree w)))"
    "terminalPaneCount (splitInto (tree w) target e x) = Suc (length (leaves (tree w)))"
    using splitInto_leaves [OF d(2) assms(3), of e x] by blast
  have "terminals (splitInto (tree w) target e x) = insert x (terminals w)"
    using terminals_eqI [OF j(1)] unfolding set_terminalIds [of w] by simp
  moreover have "wf_workspace (splitInto (tree w) target e x)"
    using splitInto_wf [OF d(2,3) assms(3) n] j(2) assms(4)
    by (intro wf_workspaceI) (simp_all add: terminalPaneCount_def)
  ultimately show ?thesis by simp
qed

lemma fill_new:
  assumes w: "wf_workspace w" and n: "\<forall>q. \<not> shown (tree w) q x"
    and e: "(target, EmptyPane) \<in> set (leaves (tree w))"
  defines "r \<equiv> \<lparr>tree = setView (tree w) target (TerminalPane x), focusedPanelId = target, zoomedPanelId = None\<rparr>"
  shows "wf_workspace r \<and> terminals r = insert x (terminals w)"
proof -
  note d = wf_workspaceD [OF w]
  note te = panelExistsI [OF e]
  have "wf_workspace r"
    unfolding r_def using fill_wf [OF d(2,3) te n] d(6) by (intro wf_workspaceI) simp_all
  moreover have "shown (tree r) q y \<longleftrightarrow> (if q = target then y = x else shown (tree w) q y)" for q y
    using te unfolding r_def panelExists_iff
    by (simp add: tiles.set_items_set del: leaves_setView set_map)
  then have "terminals r = insert x (terminals w)"
    unfolding set_terminalIds using view_unique [OF d(2) e] by (auto split: if_splits) (metis terminal_pane_view.distinct(1))
  ultimately show ?thesis ..
qed

text \<open>Docking either changes nothing or shows the docked terminal and every one shown before.\<close>

lemma dock_result:
  fixes x :: string and target :: int and action :: drop_action
  assumes w: "wf_workspace w"
  defines "r \<equiv> dockTerminalView w x target action"
  shows "wf_workspace r \<and> (r = w \<or> terminals r = insert x (terminals w))"
proof (cases "panelExists (tree w) target")
  case False
  with w show ?thesis by (simp add: r_def dockTerminalView_def)
next
  case te: True
  note d = wf_workspaceD [OF w]
  obtain v where v: "(target, v) \<in> set (leaves (tree w))" using panelExists_view [OF te] by blast
  then have tv: "getView (tree w) target = Some v" by (simp add: getView_iff d(2))
  show ?thesis
  proof (cases "findTerminalPanel (tree w) x")
    case (Some s)
    note s = findTerminal_Some [OF Some]
    then have sv: "getView (tree w) s = Some (TerminalPane x)" by (simp add: getView_iff d(2))
    have x: "insert x (terminals w) = terminals w" using s unfolding set_terminalIds by blast
    show ?thesis
    proof (cases "s = target")
      case True
      with Some te focus_wf [OF w, of target] show ?thesis
        by (simp add: r_def dockTerminalView_def x del: set_map)
    next
      case False
      show ?thesis
      proof (cases "splitEdge action")
        case (Some e)
        with False \<open>findTerminalPanel (tree w) x = Some s\<close> te dock_split [OF w s False te, of e] w show ?thesis
          unfolding r_def x by (simp add: dockTerminalView_def Let_def)
      next
        case None
        show ?thesis
        proof (cases v)
          case EmptyPane
          with None False Some te tv sv dock_onto_empty [OF w s _ False] v show ?thesis
            unfolding r_def x by (simp add: dockTerminalView_def Let_def)
        next
          case (TerminalPane a)
          with None False Some te tv sv dock_swap [OF w s _ False, of a] v show ?thesis
            unfolding r_def x by (simp add: dockTerminalView_def Let_def)
        qed
      qed
    qed
  next
    case None
    note n = None [unfolded findTerminal_None]
    have split: "wf_workspace (splitInto (tree w) target e x) \<and>
        terminals (splitInto (tree w) target e x) = insert x (terminals w)"
      if "\<not> MAX_TERMINAL_TILES \<le> terminalPaneCount w" for e
      using splitInto_new [OF w n te] that by simp
    show ?thesis
    proof (cases "splitEdge action")
      case (Some e)
      with None te w split [of e] show ?thesis
        unfolding r_def by (auto simp: dockTerminalView_def Let_def)
    next
      case ns: None
      show ?thesis
      proof (cases v)
        case EmptyPane
        with None ns te tv fill_new [OF w n] v show ?thesis
          unfolding r_def by (simp add: dockTerminalView_def Let_def)
      next
        case (TerminalPane a)
        with None ns te tv w split [of ERight] show ?thesis
          unfolding r_def by (auto simp: dockTerminalView_def Let_def)
      qed
    qed
  qed
qed

section \<open>Runs of operations\<close>

datatype tiling_op =
    Open string
  | OpenInPanel int string
  | Focus int
  | Activate int string
  | Reorder int string int
  | SplitPanel int edge
  | ToggleZoom int
  | Close int
  | CloseTab int string
  | Resize "int list" "js_num list"
  | Dock string int drop_action
  | RemoveMissing "string list"

fun tiling_step :: "tiling_op \<Rightarrow> terminal_workspace \<Rightarrow> terminal_workspace" where
  "tiling_step (Open x) w = openTerminalView w x"
| "tiling_step (OpenInPanel p x) w = openTerminalViewInPanel w p x"
| "tiling_step (Focus p) w = focusTerminalPanel w p"
| "tiling_step (Activate p x) w = activateTerminalTab w p x"
| "tiling_step (Reorder p x i) w = reorderTerminalTabs w p x i"
| "tiling_step (SplitPanel p e) w = splitTerminalPanel w p e"
| "tiling_step (ToggleZoom p) w = toggleTerminalPanelZoom w p"
| "tiling_step (Close p) w = closeTerminalPanel w p"
| "tiling_step (CloseTab p x) w = closeTerminalTab w p x"
| "tiling_step (Resize path rs) w = resizeTerminalSplit w path rs"
| "tiling_step (Dock x p a) w = dockTerminalView w x p a"
| "tiling_step (RemoveMissing live) w = removeMissingTerminalViews w live"

lemma fold_close_tab:
  "(\<And>w p x. P w \<Longrightarrow> P (closeTerminalTab w p x)) \<Longrightarrow> P w \<Longrightarrow>
     P (fold (\<lambda>(p, x) next. closeTerminalTab next p x) ms w)"
  by (induction ms arbitrary: w) (auto simp: case_prod_beta)

lemma tiling_step_wf: "wf_workspace w \<Longrightarrow> wf_workspace (tiling_step a w)"
proof (cases a)
  case (Dock x p act)
  assume "wf_workspace w"
  from dock_result [OF this, of x p act] Dock show ?thesis by simp
next
  case (RemoveMissing live)
  assume "wf_workspace w"
  from fold_close_tab [of wf_workspace, OF close_tab_wf this] RemoveMissing show ?thesis
    by (simp add: removeMissingTerminalViews_def)
qed (auto simp: open_wf open_in_panel_wf focus_wf activateTerminalTab_def reorderTerminalTabs_def
  split_panel_wf zoom_wf close_wf close_tab_wf resize_wf)

interpretation tiling_machine: event_machine tiling_step wf_workspace
  by unfold_locales (rule tiling_step_wf)

section \<open>Persisted layouts\<close>

text \<open>
  A persisted layout after \<open>JSON.parse\<close>: the shape the schema asks for, with numbers that its
  filters still have to accept.
\<close>

datatype persisted_node =
    PLeaf js_num terminal_pane_view
  | PSplit split_kind "persisted_node list" "js_num list"

record persisted_workspace =
  version :: js_num
  persistedRoot :: persisted_node
  persistedNextPanelId :: js_num
  persistedFocus :: js_num
  persistedZoom :: "js_num option"

definition positiveInteger :: "js_num \<Rightarrow> bool" where
  "positiveInteger n \<longleftrightarrow> isSafeInteger n \<and> finValue n > 0"

definition positiveRatio :: "js_num \<Rightarrow> bool" where
  "positiveRatio n \<longleftrightarrow> isFinite n \<and> finValue n > 0"

fun schemaView :: "terminal_pane_view \<Rightarrow> bool" where
  "schemaView EmptyPane = True"
| "schemaView (TerminalPane x) = validMuxTerminalId x"

fun schemaNode :: "persisted_node \<Rightarrow> bool" where
  "schemaNode (PLeaf i v) = (positiveInteger i \<and> schemaView v)"
| "schemaNode (PSplit k cs rs) =
     (list_all schemaNode cs \<and> 2 \<le> length cs \<and> list_all positiveRatio rs \<and> 2 \<le> length rs)"

definition schemaWorkspace :: "persisted_workspace \<Rightarrow> bool" where
  "schemaWorkspace d \<longleftrightarrow> version d = Fin 1 \<and> schemaNode (persistedRoot d) \<and>
     positiveInteger (persistedNextPanelId d) \<and> positiveInteger (persistedFocus d) \<and>
     (case persistedZoom d of None \<Rightarrow> True | Some z \<Rightarrow> positiveInteger z)"

definition intValue :: "js_num \<Rightarrow> int" where
  "intValue n = \<lfloor>finValue n\<rfloor>"

fun runtimePanelNode :: "persisted_node \<Rightarrow> terminal_pane_view panel_node option" where
  "runtimePanelNode (PLeaf i v) = Some (Leaf (intValue i) v)"
| "runtimePanelNode (PSplit k cs rs) =
     (if length cs \<noteq> length rs then None
      else (let ratioSum = sum_list (map finValue rs) in
        if ratioSum \<le> 0 then None
        else case those (map runtimePanelNode cs) of
               None \<Rightarrow> None
             | Some children \<Rightarrow> Some (Split k children (map (\<lambda>q. finValue q / ratioSum) rs))))"

text \<open>
  \<open>parseTerminalWorkspace\<close>: \<open>decode\<close> stands for \<open>JSON.parse\<close> and the schema's check of the shape;
  \<open>None\<close> when either throws.
\<close>

definition parseTerminalWorkspace ::
  "(string \<Rightarrow> persisted_workspace option) \<Rightarrow> string option \<Rightarrow> terminal_workspace option" where
  "parseTerminalWorkspace decode layoutJson =
     (case layoutJson of
        None \<Rightarrow> None
      | Some s \<Rightarrow>
          if s = [] then None
          else case decode s of
            None \<Rightarrow> None
          | Some d \<Rightarrow>
              if \<not> schemaWorkspace d then None
              else case runtimePanelNode (persistedRoot d) of
                None \<Rightarrow> None
              | Some r \<Rightarrow>
                  (let t = applySnapshot \<lparr>snapRoot = r, snapNextPanelId = persistedNextPanelId d\<rparr>;
                       focus = intValue (persistedFocus d);
                       zoom = map_option intValue (persistedZoom d)
                   in if \<not> panelExists t focus then None
                      else Some \<lparr>tree = t, focusedPanelId = focus,
                        zoomedPanelId = (case zoom of
                            None \<Rightarrow> None
                          | Some z \<Rightarrow> if panelExists t z then Some z else None)\<rparr>))"

definition paneToClose :: "terminal_workspace \<Rightarrow> int option" where
  "paneToClose w =
     (let ids = leafIds (tree w);
          empty = find (\<lambda>p. getView (tree w) p = Some EmptyPane) ids
      in case empty of
           Some p \<Rightarrow> Some p
         | None \<Rightarrow> if ids = [] then None else Some (last ids))"

lemma paneToClose_exists: "paneToClose w = Some p \<Longrightarrow> panelExists (tree w) p"
proof -
  assume "paneToClose w = Some p"
  then have "p \<in> set (leafIds (tree w))"
    by (auto simp: paneToClose_def Let_def simp del: set_map dest!: find_SomeD split: option.splits if_splits)
  then show ?thesis by (simp add: panelExists_iff)
qed

lemma root_firstPanel: "root (snd (firstPanel t)) = root t"
  by (simp add: firstPanel_def allocPanelId_def split: panel_node.split list.split)

lemma leaves_resolvedFocus: "leaves (snd (resolvedFocus t p)) = leaves t"
  by (simp add: resolvedFocus_def root_firstPanel)

lemma leaves_close_any:
  "panelExists (tree w) p \<Longrightarrow>
     leaves (tree (closeTerminalPanel w p)) = leaves (removeTerminalPanel (tree w) p)"
  using leaves_resolvedFocus [of "removeTerminalPanel (tree w) p" "focusedPanelId w"]
  by (simp add: closeTerminalPanel_def case_prod_beta)

lemma close_decreases:
  assumes "MAX_TERMINAL_TILES < terminalPaneCount w" and "panelExists (tree w) p"
  shows "terminalPaneCount (closeTerminalPanel w p) < terminalPaneCount w"
proof -
  obtain v where "(p, v) \<in> set (leaves (tree w))" using panelExists_view [OF assms(2)] by blast
  then have "length (filter (\<lambda>l. fst l \<noteq> p) (leaves (tree w))) < length (leaves (tree w))"
    by (rule length_filter_less) simp
  with assms show ?thesis
    by (auto simp: terminalPaneCount_def leaves_close_any removeTerminalPanel_def leaves_closePanel
        MAX_TERMINAL_TILES_def panelExists_def)
qed

function capRestoredTerminalPanes :: "terminal_workspace \<Rightarrow> terminal_workspace" where
  "capRestoredTerminalPanes w =
     (if terminalPaneCount w > MAX_TERMINAL_TILES
      then case paneToClose w of
             None \<Rightarrow> w
           | Some p \<Rightarrow> capRestoredTerminalPanes (closeTerminalPanel w p)
      else w)"
  by pat_completeness auto
termination
  by (relation "measure terminalPaneCount") (auto simp: close_decreases paneToClose_exists)

declare capRestoredTerminalPanes.simps [simp del]

text \<open>
  The last loop of \<open>restoreTerminalWorkspace\<close>. The source compares objects; \<open>openTerminalView\<close>
  returns a new object only for a workspace that differs.
\<close>

fun openMissing :: "string list \<Rightarrow> string list \<Rightarrow> terminal_workspace \<Rightarrow> terminal_workspace" where
  "openMissing [] shown_ids w = w"
| "openMissing (x # xs) shown_ids w =
     (if List.member shown_ids x then openMissing xs shown_ids w
      else (let next = openTerminalView w x
            in if next = w then w else openMissing xs (x # shown_ids) next))"

definition restoreTerminalWorkspace ::
  "(string \<Rightarrow> persisted_workspace option) \<Rightarrow> string option \<Rightarrow> string list \<Rightarrow> terminal_workspace" where
  "restoreTerminalWorkspace decode layoutJson live =
     (let workspace = coalesce (parseTerminalWorkspace decode layoutJson) createTerminalWorkspace;
          capped = capRestoredTerminalPanes (removeMissingTerminalViews workspace live)
      in openMissing live (terminalIdsInWorkspace capped) capped)"

fun persistNode :: "terminal_pane_view panel_node \<Rightarrow> persisted_node" where
  "persistNode (Leaf i v) = PLeaf (Fin (of_int i)) v"
| "persistNode (Split k cs rs) = PSplit k (map persistNode cs) (map Fin rs)"

definition persistWorkspace :: "terminal_workspace \<Rightarrow> persisted_workspace" where
  "persistWorkspace w =
     \<lparr>version = Fin 1, persistedRoot = persistNode (snapRoot (toJSON (tree w))),
      persistedNextPanelId = snapNextPanelId (toJSON (tree w)),
      persistedFocus = Fin (of_int (focusedPanelId w)),
      persistedZoom = map_option (\<lambda>z. Fin (of_int z)) (zoomedPanelId w)\<rparr>"

text \<open>\<open>encode\<close> stands for \<open>JSON.stringify\<close>.\<close>

definition serializeTerminalWorkspace ::
  "(persisted_workspace \<Rightarrow> string) \<Rightarrow> terminal_workspace \<Rightarrow> string" where
  "serializeTerminalWorkspace encode w = encode (persistWorkspace w)"

section \<open>Restoring\<close>

lemma shown_close_tab:
  assumes "wf_arrangement w" and "shown (tree (closeTerminalTab w p x)) q y"
  shows "shown (tree w) q y \<and> (q, y) \<noteq> (p, x)"
proof (cases "getView (tree w) p = Some (TerminalPane x)")
  case True
  note d = wf_arrangementD [OF assms(1)]
  have p: "shown (tree w) p x" using True by (simp add: getView_iff d(1))
  note pe = panelExistsI [OF p]
  from True assms(2) have q: "shown (removeTerminalPanel (tree w) p) q y"
    by (simp add: closeTerminalTab_def close_panel(2) [OF assms(1) pe])
  then have "q \<noteq> p" using set_leaves_remove(2) [OF d(1) pe] by blast
  with q set_leaves_remove(1) [OF d(1) pe] show ?thesis by simp
next
  case False
  with assms show ?thesis
    by (auto simp: closeTerminalTab_def getView_iff wf_arrangementD(1))
qed

lemma shown_close_tabs:
  "wf_arrangement w \<Longrightarrow> shown (tree (fold (\<lambda>(p, x) next. closeTerminalTab next p x) ms w)) q y \<Longrightarrow>
     shown (tree w) q y \<and> (q, y) \<notin> set ms"
proof (induction ms arbitrary: w)
  case (Cons m ms)
  obtain p x where m: "m = (p, x)" by (cases m)
  from Cons.IH [of "closeTerminalTab w p x"] Cons.prems
  have "shown (tree (closeTerminalTab w p x)) q y" "(q, y) \<notin> set ms"
    by (auto simp: m close_tab_wf_arrangement)
  with shown_close_tab [OF Cons.prems(1) this(1)] show ?case by (auto simp: m)
qed simp

lemma missingView_Some: "missingView live l = Some (p, x) \<longleftrightarrow> l = (p, TerminalPane x) \<and> x \<notin> set live"
  by (cases "(live, l)" rule: missingView.cases) auto

lemma set_missingViews: "set (missingViews w live) = {(p, x). shown (tree w) p x \<and> x \<notin> set live}"
  by (auto simp: missingViews_def set_somes missingView_Some dest!: sym [of "Some _"])
    (metis (no_types, lifting) image_eqI missingView_Some)

lemma removeMissing_live:
  assumes "wf_arrangement w"
  shows "wf_arrangement (removeMissingTerminalViews w live)"
    and "terminals (removeMissingTerminalViews w live) \<subseteq> set live \<inter> terminals w"
proof -
  show "wf_arrangement (removeMissingTerminalViews w live)"
    unfolding removeMissingTerminalViews_def
    by (rule fold_close_tab [where P = wf_arrangement]) (rule close_tab_wf_arrangement, assumption, rule assms)
  show "terminals (removeMissingTerminalViews w live) \<subseteq> set live \<inter> terminals w"
    using shown_close_tabs [OF assms, where ms = "missingViews w live"] set_missingViews [of w live]
    unfolding set_terminalIds removeMissingTerminalViews_def by blast
qed

lemma terminals_close:
  assumes "wf_arrangement w"
  shows "terminals (closeTerminalPanel w p) \<subseteq> terminals w"
proof (cases "panelExists (tree w) p")
  case True
  note d = wf_arrangementD [OF assms]
  have "shown (tree w) q y" if "shown (removeTerminalPanel (tree w) p) q y" for q y
    using that set_leaves_remove(1) [OF d(1) True, of q] set_leaves_remove(2) [OF d(1) True]
    by (cases "q = p") auto
  then show ?thesis unfolding set_terminalIds close_panel(2) [OF assms True] by blast
qed (simp add: close_panel_absent)

lemma paneToClose_some: "wf_arrangement w \<Longrightarrow> paneToClose w \<noteq> None"
  using wf_node_nonempty [of "root (tree w)"] wf_arrangementD(1) [of w] wf_treeD(1)
  by (auto simp: paneToClose_def Let_def split: option.splits)

text \<open>The cap stops at six panes, keeps the workspace well formed and shows nothing new.\<close>

lemma cap_result:
  "wf_arrangement w \<Longrightarrow> wf_workspace (capRestoredTerminalPanes w) \<and>
     terminals (capRestoredTerminalPanes w) \<subseteq> terminals w"
proof (induction w rule: capRestoredTerminalPanes.induct)
  case (1 w)
  show ?case
  proof (cases "terminalPaneCount w > MAX_TERMINAL_TILES")
    case True
    obtain p where p: "paneToClose w = Some p" using paneToClose_some [OF 1(2)] by blast
    from 1(1) [OF True p close_wf_arrangement [OF 1(2)]] terminals_close [OF 1(2), of p] True p
    show ?thesis by (subst (1 2) capRestoredTerminalPanes.simps) auto
  next
    case False
    with 1(2) show ?thesis by (subst (1 2) capRestoredTerminalPanes.simps) (auto simp: wf_workspace_def)
  qed
qed

text \<open>Opening a terminal shows it next to all others, unless every pane is taken.\<close>

lemma open_result:
  fixes x :: string
  assumes w: "wf_workspace w" and n: "x \<notin> terminals w"
  defines "r \<equiv> openTerminalView w x"
  shows "wf_workspace r" and "r = w \<and> terminalPaneCount w = MAX_TERMINAL_TILES \<or>
    r \<noteq> w \<and> terminals r = insert x (terminals w)"
proof -
  note d = wf_workspaceD [OF w]
  show "wf_workspace r" unfolding r_def by (rule open_wf [OF w])
  from d(1) show "r = w \<and> terminalPaneCount w = MAX_TERMINAL_TILES \<or>
    r \<noteq> w \<and> terminals r = insert x (terminals w)"
  proof (cases rule: open_cases [where x = x])
    case (existing p)
    with n show ?thesis unfolding set_terminalIds by blast
  next
    case empty
    from fill_new [OF w empty(1,2)] n show ?thesis
      unfolding r_def empty(3) by (metis insertI1)
  next
    case (full y)
    with d(6) show ?thesis by (simp add: r_def terminalPaneCount_def)
  next
    case (split y)
    from splitInto_new [OF w split(1) d(4) split(3), of ERight] n show ?thesis
      unfolding r_def split(4) by (metis insertI1)
  qed
qed

lemma openMissing_result:
  fixes xs :: "string list"
  assumes "wf_workspace w" and "set shown_ids = terminals w"
  defines "r \<equiv> openMissing xs shown_ids w"
  shows "wf_workspace r \<and> terminals r \<subseteq> terminals w \<union> set xs \<and>
    (terminals w \<union> set xs \<subseteq> terminals r \<or> terminalPaneCount r = MAX_TERMINAL_TILES)"
  using assms(1,2) unfolding r_def
proof (induction xs arbitrary: shown_ids w)
  case (Cons x xs)
  show ?case
  proof (cases "x \<in> terminals w")
    case True
    with Cons show ?thesis by (simp add: insert_absorb)
  next
    case False
    let ?n = "openTerminalView w x"
    note o = open_result [OF Cons.prems(1) False]
    show ?thesis
    proof (cases "?n = w")
      case True
      with False o(2) Cons.prems show ?thesis by auto
    next
      case ne: False
      with o(2) have t: "set (x # shown_ids) = terminals ?n" using Cons.prems(2) by simp
      from Cons.IH [OF o(1) t] False ne Cons.prems(2) t show ?thesis by (auto simp: Let_def)
    qed
  qed
qed simp

lemma runtime_wf:
  "schemaNode n \<Longrightarrow> runtimePanelNode n = Some m \<Longrightarrow>
     wf_node m \<and> list_all (\<lambda>i. 0 < i) (map fst (visitLeaves m))"
proof (induction n arbitrary: m)
  case (PLeaf i v)
  then show ?case by (cases i) (auto simp: intValue_def positiveInteger_def)
next
  case (PSplit k cs rs)
  let ?s = "sum_list (map finValue rs)"
  from PSplit.prems(2) obtain ms where ms: "length cs = length rs" "0 < ?s" "map runtimePanelNode cs = map Some ms"
    "m = Split k ms (map (\<lambda>q. finValue q / ?s) rs)"
    by (auto simp: Let_def those_Some split: if_splits option.splits)
  have len: "length ms = length cs" using ms(3) by (metis length_map)
  have sub: "wf_node c \<and> list_all (\<lambda>i. 0 < i) (map fst (visitLeaves c))" if "c \<in> set ms" for c
  proof -
    from that obtain j where j: "j < length ms" "c = ms ! j" by (metis in_set_conv_nth)
    then have "runtimePanelNode (cs ! j) = Some c" using ms(3) len by (metis nth_map)
    moreover have "cs ! j \<in> set cs" using j(1) len by simp
    ultimately show ?thesis using PSplit by (auto simp: list_all_iff)
  qed
  have pos: "list_all (\<lambda>q. 0 < q / ?s) (map finValue rs)"
    using PSplit.prems(1) ms(2) by (auto simp: list_all_iff positiveRatio_def)
  have "sum_list (map (\<lambda>q. finValue q / ?s) rs) = 1"
    using sum_list_divide [of ?s "map finValue rs"] ms(2) by (simp add: comp_def)
  with PSplit.prems(1) ms(1) len sub pos show ?case
    by (auto simp: ms(4) list_all_iff)
qed

text \<open>A layout that parses gives a well-formed arrangement when no id and no terminal occurs twice.\<close>

lemma parse_wf:
  assumes "parseTerminalWorkspace decode layoutJson = Some w"
    and "distinct (leafIds (tree w))" and "distinct (terminalIdsInWorkspace w)"
  shows "wf_arrangement w"
proof -
  from assms(1) obtain d r where d: "schemaWorkspace d" "runtimePanelNode (persistedRoot d) = Some r"
    "tree w = applySnapshot \<lparr>snapRoot = r, snapNextPanelId = persistedNextPanelId d\<rparr>"
    "panelExists (tree w) (focusedPanelId w)"
    "case zoomedPanelId w of None \<Rightarrow> True | Some z \<Rightarrow> panelExists (tree w) z"
    by (auto simp: parseTerminalWorkspace_def Let_def split: option.splits if_splits)
  have r: "root (tree w) = r" by (simp add: d(3) applySnapshot_def Let_def)
  have "wf_node r" "list_all (\<lambda>i. 0 < i) (map fst (visitLeaves r))"
    using runtime_wf [OF _ d(2)] d(1) by (auto simp: schemaWorkspace_def)
  moreover have "i < nextPanelId (tree w)" if "i \<in> set (leafIds (tree w))" for i
    using that unfolding d(3) by (rule applySnapshot_fresh)
  ultimately have "wf_tree (tree w)"
    using assms(2) r by (auto simp: wf_tree_def list_all_iff)
  with assms(3) d(4,5) show ?thesis by (simp add: wf_arrangement_def)
qed

lemma create_no_terminals: "terminals createTerminalWorkspace = {}"
  by (simp add: set_terminalIds createTerminalWorkspace_def newPanelTree_def firstPanel_def
      TERMINAL_PANE_OPTIONS_def)

section \<open>Round trip\<close>

lemma validNode_persist:
  assumes "wf_node n" and "list_all (\<lambda>(i, v). 0 < i \<and> safe_int i \<and> schemaView v) (visitLeaves n)"
  shows "schemaNode (persistNode n) \<and> runtimePanelNode (persistNode n) = Some n"
  using assms
proof (induction n)
  case (Leaf i v)
  then show ?case
    by (auto simp: positiveInteger_def intValue_def simp del: isSafeInteger.simps)
next
  case (Split k cs rs)
  have sub: "schemaNode (persistNode c) \<and> runtimePanelNode (persistNode c) = Some c" if "c \<in> set cs" for c
    using that Split by (auto simp: list_all_iff)
  then have "those (map (\<lambda>x. runtimePanelNode (persistNode x)) cs) = Some cs"
    by (simp add: those_Some)
  moreover have "map (\<lambda>q. finValue q / 1) (map Fin rs) = rs" by (simp add: map_idI)
  ultimately show ?case
    using Split.prems(1) sub by (auto simp: comp_def list_all_iff positiveRatio_def simp del: div_by_1)
qed

lemma parse_serialize:
  assumes w: "wf_workspace w" and small: "nextPanelId (tree w) \<le> maxSafeInteger"
    and ids: "list_all validMuxTerminalId (terminalIdsInWorkspace w)"
    and json: "decode (encode (persistWorkspace w)) = Some (persistWorkspace w)"
    and nonempty: "encode (persistWorkspace w) \<noteq> []"
  shows "parseTerminalWorkspace decode (Some (serializeTerminalWorkspace encode w)) = Some w"
proof -
  note d = wf_workspaceD [OF w]
  have id: "0 < i \<and> safe_int i" if "panelExists (tree w) i" for i
    using that wf_treeD(4,5) [OF d(2), of i] small unfolding panelExists_iff by (simp add: safe_int_def del: set_map)
  have "schemaView v" if "(i, v) \<in> set (leaves (tree w))" for i v
    using that ids unfolding list_all_iff set_terminalIds by (cases v) auto
  then have "list_all (\<lambda>(i, v). 0 < i \<and> safe_int i \<and> schemaView v) (leaves (tree w))"
    using id panelExistsI by (fastforce simp: list_all_iff)
  note n = validNode_persist [OF wf_treeD(1) [OF d(2)] this]
  have next_ok: "0 < nextPanelId (tree w) \<and> safe_int (nextPanelId (tree w))"
    using wf_tree_next_pos [OF d(2)] small by (simp add: safe_int_def)
  have "schemaWorkspace (persistWorkspace w)"
    using n id d(4,5) next_ok
    by (auto simp: schemaWorkspace_def persistWorkspace_def toJSON_def positiveInteger_def
        split: option.split simp del: isSafeInteger.simps)
  moreover have "applySnapshot \<lparr>snapRoot = root (tree w), snapNextPanelId = Fin (of_int (nextPanelId (tree w)))\<rparr> = tree w"
    using applySnapshot_toJSON [OF d(2) small] by (simp add: toJSON_def)
  ultimately show ?thesis
    using n json nonempty d(4,5)
    by (cases "zoomedPanelId w")
      (auto simp: parseTerminalWorkspace_def serializeTerminalWorkspace_def Let_def persistWorkspace_def
        toJSON_def intValue_def)
qed

section \<open>Properties\<close>

text \<open>
  C22: Whatever sequence of operations is applied to a new workspace (open, focus, split, zoom, close,
  resize, dock, discarding dead terminals), its tree stays well formed, the focused and the zoomed
  pane exist, no terminal is in two panes, and there are at most six panes.
\<close>

theorem tiling_run_wf: "wf_workspace (fold tiling_step ops createTerminalWorkspace)"
  by (rule tiling_machine.run_inv) (rule create_wf)

text \<open>
  Docking a terminal on a pane hides none: either nothing changes, or the terminals shown
  afterwards are those shown before and the docked one.
\<close>

theorem dockTerminalView_keeps:
  assumes "wf_workspace w"
  shows "dockTerminalView w x target action = w \<or>
    set (terminalIdsInWorkspace (dockTerminalView w x target action)) = insert x (set (terminalIdsInWorkspace w))"
  using dock_result [OF assms, of x target action] by blast

definition demo_workspace :: terminal_workspace where
  "demo_workspace = \<lparr>tree = \<lparr>root = Split RowKind [Leaf 1 (TerminalPane ''term-a''),
      Leaf 2 (TerminalPane ''term-b'')] [1/2, 1/2], nextPanelId = 3\<rparr>, focusedPanelId = 1, zoomedPanelId = None\<rparr>"

lemma demo_workspace_wf: "wf_workspace demo_workspace"
  by (simp add: wf_workspace_def wf_arrangement_def demo_workspace_def wf_tree_def panelExists_iff
      terminalIdsInWorkspace_def keysOf_def terminalPaneCount_def MAX_TERMINAL_TILES_def)

theorem dockTerminalView_keeps_witness:
  "set (terminalIdsInWorkspace (dockTerminalView demo_workspace ''term-a'' 2 (MoveToPane None))) =
     {''term-a'', ''term-b''}"
  using dockTerminalView_keeps [OF demo_workspace_wf, of "''term-a''" 2 "MoveToPane None"]
  by (auto simp: demo_workspace_def terminalIdsInWorkspace_def keysOf_def)

text \<open>
  Opening a terminal that is not shown gives the workspace back unchanged only when six panes
  are in use; otherwise it is shown besides all that were shown, in the focused pane.
\<close>

theorem openTerminalView_shows:
  assumes "wf_workspace w" and "x \<notin> set (terminalIdsInWorkspace w)"
  shows "if openTerminalView w x = w then terminalPaneCount w = MAX_TERMINAL_TILES
    else set (terminalIdsInWorkspace (openTerminalView w x)) = insert x (set (terminalIdsInWorkspace w)) \<and>
      getView (tree (openTerminalView w x)) (focusedPanelId (openTerminalView w x)) = Some (TerminalPane x)"
proof -
  let ?r = "openTerminalView w x"
  note o = open_result [OF assms]
  note d = wf_workspaceD [OF assms(1)]
  have "shown (tree ?r) (focusedPanelId ?r) x" if "?r \<noteq> w"
    using d(1)
  proof (cases rule: open_cases [where x = x])
    case (existing p)
    with assms(2) show ?thesis unfolding set_terminalIds by blast
  next
    case empty
    with panelExistsI [OF empty(2)] show ?thesis
      unfolding panelExists_iff by (simp add: tiles.set_items_set del: leaves_setView set_map)
  next
    case (full y)
    with that show ?thesis by simp
  next
    case (split y)
    with splitInto_leaves [OF d(2,4), of ERight x] show ?thesis by auto
  qed
  with o show ?thesis by (auto simp: getView_iff wf_workspaceD(2))
qed

theorem openTerminalView_shows_witness:
  "getView (tree (openTerminalView demo_workspace ''term-c'')) 3 = Some (TerminalPane ''term-c'')"
proof -
  have "''term-c'' \<notin> set (terminalIdsInWorkspace demo_workspace)"
    by (simp add: demo_workspace_def terminalIdsInWorkspace_def keysOf_def)
  moreover have "focusedPanelId (openTerminalView demo_workspace ''term-c'') = 3"
    by (simp add: openTerminalView_def findTerminalPanel_def findPanelWithView_def demo_workspace_def
        resolvedFocus_def panelExists_def getLeaf_def getView_def terminalPaneCount_def splitInto_def
        splitAtEdge_def allocPanelId_def MAX_TERMINAL_TILES_def)
  moreover have "terminalPaneCount demo_workspace \<noteq> MAX_TERMINAL_TILES"
    by (simp add: demo_workspace_def terminalPaneCount_def MAX_TERMINAL_TILES_def)
  ultimately show ?thesis using openTerminalView_shows [OF demo_workspace_wf, of "''term-c''"] by metis
qed

lemma restore_distinct:
  fixes live :: "string list"
  assumes "case parseTerminalWorkspace decode layoutJson of None \<Rightarrow> True
    | Some w \<Rightarrow> distinct (leafIds (tree w)) \<and> distinct (terminalIdsInWorkspace w)"
  defines "r \<equiv> restoreTerminalWorkspace decode layoutJson live"
  shows "wf_workspace r \<and> set (terminalIdsInWorkspace r) \<subseteq> set live \<and>
    (set live \<subseteq> set (terminalIdsInWorkspace r) \<or> terminalPaneCount r = MAX_TERMINAL_TILES)"
proof -
  let ?w = "coalesce (parseTerminalWorkspace decode layoutJson) createTerminalWorkspace"
  let ?c = "capRestoredTerminalPanes (removeMissingTerminalViews ?w live)"
  have "wf_arrangement ?w"
    using assms(1) parse_wf create_wf
    by (cases "parseTerminalWorkspace decode layoutJson") (auto simp: wf_workspace_def)
  note m = removeMissing_live [OF this, of live]
  from cap_result [OF m(1)] m(2) have c: "wf_workspace ?c" "terminals ?c \<subseteq> set live" by auto
  have "r = openMissing live (terminalIdsInWorkspace ?c) ?c"
    unfolding r_def restoreTerminalWorkspace_def Let_def by (rule refl)
  with openMissing_result [OF c(1) refl, of live] c(2) show ?thesis by auto
qed

text \<open>A stored layout that the program wrote itself: the text of a workspace that some run of the tiling led to.\<close>

definition savedLayout ::
  "(string \<Rightarrow> persisted_workspace option) \<Rightarrow> (persisted_workspace \<Rightarrow> string) \<Rightarrow> tiling_op list \<Rightarrow> string option \<Rightarrow> bool" where
  "savedLayout decode encode ops layoutJson \<longleftrightarrow>
     (let w = fold tiling_step ops createTerminalWorkspace in
        layoutJson = Some (serializeTerminalWorkspace encode w)
        \<and> nextPanelId (tree w) \<le> maxSafeInteger \<and> list_all validMuxTerminalId (terminalIdsInWorkspace w)
        \<and> decode (encode (persistWorkspace w)) = Some (persistWorkspace w) \<and> encode (persistWorkspace w) \<noteq> [])"

text \<open>
  C23: Saving and restoring is safe. A layout that the program saved after any sequence of tiling operations, or a layout that is
  absent or does not parse, is restored, whatever terminals are live by then, to a well-formed workspace that shows live
  terminals only, none twice, and all of them unless six panes are in use.
\<close>

theorem restoreTerminalWorkspace_ok:
  fixes live :: "string list"
  assumes "savedLayout decode encode ops layoutJson \<or> parseTerminalWorkspace decode layoutJson = None"
  defines "r \<equiv> restoreTerminalWorkspace decode layoutJson live"
  shows "wf_workspace r \<and> set (terminalIdsInWorkspace r) \<subseteq> set live \<and>
    (set live \<subseteq> set (terminalIdsInWorkspace r) \<or> terminalPaneCount r = MAX_TERMINAL_TILES)"
proof -
  let ?w = "fold tiling_step ops createTerminalWorkspace"
  have w: "wf_workspace ?w" by (rule tiling_machine.run_inv) (rule create_wf)
  have "parseTerminalWorkspace decode layoutJson = Some ?w" if "savedLayout decode encode ops layoutJson"
    using that parse_serialize [OF w, of decode encode] by (simp add: savedLayout_def Let_def)
  moreover have "distinct (leafIds (tree ?w))" "distinct (terminalIdsInWorkspace ?w)"
    using w by (simp_all add: wf_workspace_def wf_arrangement_def wf_tree_def)
  ultimately show ?thesis unfolding r_def using assms(1) by (intro restore_distinct) auto
qed

text \<open>
  A layout that repeats a panel id is accepted too, and then restoring shows one terminal in two panes: what is put into
  the focused panel goes into both of them.
\<close>

definition twice :: persisted_workspace where
  "twice = \<lparr>version = Fin 1, persistedRoot = PSplit RowKind [PLeaf (Fin 1) EmptyPane, PLeaf (Fin 1) EmptyPane] [Fin 1, Fin 1],
     persistedNextPanelId = Fin 2, persistedFocus = Fin 1, persistedZoom = None\<rparr>"

lemma restore_twice: "terminalIdsInWorkspace (restoreTerminalWorkspace (\<lambda>_. Some twice) (Some ''{}'') [''term-b'']) = [''term-b'', ''term-b'']"
  by code_simp

theorem restoreTerminalWorkspace_ok_witness:
  "wf_workspace (restoreTerminalWorkspace (\<lambda>_. Some (persistWorkspace (openTerminalView createTerminalWorkspace ''term-a''))) (Some ''{}'') [''term-b''])
    \<and> set (terminalIdsInWorkspace (restoreTerminalWorkspace (\<lambda>_. Some (persistWorkspace (openTerminalView createTerminalWorkspace ''term-a''))) (Some ''{}'') [''term-b'']))
        \<subseteq> set [''term-b'']
    \<and> (set [''term-b''] \<subseteq> set (terminalIdsInWorkspace (restoreTerminalWorkspace (\<lambda>_. Some (persistWorkspace (openTerminalView createTerminalWorkspace ''term-a''))) (Some ''{}'') [''term-b'']))
      \<or> terminalPaneCount (restoreTerminalWorkspace (\<lambda>_. Some (persistWorkspace (openTerminalView createTerminalWorkspace ''term-a''))) (Some ''{}'') [''term-b'']) = MAX_TERMINAL_TILES)"
proof (rule restoreTerminalWorkspace_ok [OF disjI1])
  have w: "fold tiling_step [Open ''term-a''] createTerminalWorkspace = openTerminalView createTerminalWorkspace ''term-a''" by simp
  show "savedLayout (\<lambda>_. Some (persistWorkspace (openTerminalView createTerminalWorkspace ''term-a''))) (\<lambda>_. ''{}'')
      [Open ''term-a''] (Some ''{}'')"
    unfolding savedLayout_def Let_def w serializeTerminalWorkspace_def by (intro conjI; code_simp)
qed

text \<open>
  When the decoder returns what the encoder was given, a well-formed workspace with valid
  terminal ids is parsed back from its serialization exactly, ratios, focus and zoom included.
\<close>

theorem serialize_parse:
  assumes "wf_workspace w" and "nextPanelId (tree w) \<le> maxSafeInteger"
    and "list_all validMuxTerminalId (terminalIdsInWorkspace w)"
    and "decode (encode (persistWorkspace w)) = Some (persistWorkspace w)"
    and "encode (persistWorkspace w) \<noteq> []"
  shows "parseTerminalWorkspace decode (Some (serializeTerminalWorkspace encode w)) = Some w"
  using assms by (rule parse_serialize)

theorem serialize_parse_witness:
  "parseTerminalWorkspace (\<lambda>s. if s = ''{}'' then Some (persistWorkspace demo_workspace) else None)
     (Some (serializeTerminalWorkspace (\<lambda>_. ''{}'') demo_workspace)) = Some demo_workspace"
  by (rule serialize_parse [OF demo_workspace_wf])
    (simp_all add: demo_workspace_def maxSafeInteger_def terminalIdsInWorkspace_def keysOf_def
      validMuxTerminalId_def taggedId_def idChar_def)

end
