(* ===== verification/MuxRouting.thy ===== *)
theory MuxRouting
  imports MuxTypes
begin

text \<open>
  Deep links and the choice of what to show, \<open>packages/yaade-app/src/mux/mux-routing.ts\<close>. The URL
  parser and the query encoder are parameters; \<open>localeCompare\<close> is the comparison it stands for.
\<close>

record mux_route =
  routeSession :: "string option"
  routeTab :: "string option"
  routeTerminal :: "string option"

text \<open>\<open>optionalSessionId\<close>, \<open>optionalTabId\<close> and \<open>optionalMuxTerminalId\<close>: a value that decodes.\<close>

definition optionalId :: "(string \<Rightarrow> bool) \<Rightarrow> string option \<Rightarrow> string option" where
  "optionalId valid v = (if \<not> truthy v then None
     else case v of None \<Rightarrow> None | Some s \<Rightarrow> if valid s then Some s else None)"

text \<open>\<open>getParam url name\<close> stands for \<open>new URL(url).searchParams.get(name)\<close>.\<close>

definition parseMuxSessionRoute :: "(string \<Rightarrow> string \<Rightarrow> string option) \<Rightarrow> string \<Rightarrow> mux_route" where
  "parseMuxSessionRoute getParam url =
     \<lparr>routeSession = optionalId validSessionId (getParam url ''s''),
      routeTab = optionalId validSessionTabId (getParam url ''t''),
      routeTerminal = optionalId validMuxTerminalId (getParam url ''term'')\<rparr>"

definition startsWith :: "string \<Rightarrow> string \<Rightarrow> bool" where
  "startsWith p s \<longleftrightarrow> take (length p) s = p"

definition isSessionTabId :: "string \<Rightarrow> bool" where
  "isSessionTabId = startsWith ''tab-''"

definition isMuxTerminalId :: "string \<Rightarrow> bool" where
  "isMuxTerminalId = startsWith ''term-''"

text \<open>The parameters \<open>muxSessionUrl\<close> puts into the query, in order.\<close>

definition routeParams :: "string \<Rightarrow> string option \<Rightarrow> string option \<Rightarrow> (string \<times> string) list" where
  "routeParams sessionId tabOrTerminal muxTerminalId =
     (let tabId = (case tabOrTerminal of
            Some x \<Rightarrow> if isSessionTabId x then Some x else None | None \<Rightarrow> None);
          paneId = (case muxTerminalId of
            Some x \<Rightarrow> Some x
          | None \<Rightarrow> (case tabOrTerminal of
              Some x \<Rightarrow> if isMuxTerminalId x then Some x else None | None \<Rightarrow> None))
      in (''s'', sessionId) #
         (case tabId of Some x \<Rightarrow> [(''t'', x)] | None \<Rightarrow> []) @
         (case paneId of Some x \<Rightarrow> [(''term'', x)] | None \<Rightarrow> []))"

definition muxSessionUrl ::
  "((string \<times> string) list \<Rightarrow> string) \<Rightarrow> string \<Rightarrow> string option \<Rightarrow> string option \<Rightarrow> string \<Rightarrow> string" where
  "muxSessionUrl encodeParams sessionId tabOrTerminal muxTerminalId basePath =
     basePath @ ''?'' @ encodeParams (routeParams sessionId tabOrTerminal muxTerminalId)"

text \<open>A storage that throws reads as \<open>undefined\<close>: \<open>saved\<close> is what \<open>readPersistedMuxSessionRoute\<close> returns.\<close>

definition resolveMuxSessionRoute ::
  "(string \<Rightarrow> string \<Rightarrow> string option) \<Rightarrow> string \<Rightarrow> string option \<Rightarrow> mux_route" where
  "resolveMuxSessionRoute getParam href saved =
     (let live = parseMuxSessionRoute getParam href
      in if routeSession live \<noteq> None then live
         else case saved of
           None \<Rightarrow> live
         | Some s \<Rightarrow>
             if s = [] then live
             else (let restored = parseMuxSessionRoute getParam s
                   in if routeSession restored \<noteq> None then restored else live))"

text \<open>Everything after the first double hyphen, or the string when there is none.\<close>

fun afterDashes :: "string \<Rightarrow> string option" where
  "afterDashes [] = None"
| "afterDashes (c # s) = (if c = CHR ''-'' \<and> s \<noteq> [] \<and> hd s = CHR ''-'' then Some (tl s) else afterDashes s)"

definition stripTag :: "string \<Rightarrow> string" where
  "stripTag s =
     (if startsWith ''ses-'' s then drop 4 s
      else if startsWith ''tab-'' s then drop 4 s
      else if startsWith ''term-'' s then drop 5 s else s)"

definition localResourceKey :: "string \<Rightarrow> string" where
  "localResourceKey s = coalesce (afterDashes (stripTag s)) (stripTag s)"

definition sameLocalResource :: "string option \<Rightarrow> string option \<Rightarrow> bool" where
  "sameLocalResource left right =
     (truthy left \<and> truthy right \<and>
      (left = right \<or> map_option localResourceKey left = map_option localResourceKey right))"

definition findUniqueId :: "string option \<Rightarrow> string list \<Rightarrow> string option" where
  "findUniqueId requested ids =
     (if \<not> truthy requested then None
      else case requested of
        None \<Rightarrow> None
      | Some r \<Rightarrow>
          (case find (\<lambda>i. i = r) ids of
             Some exact \<Rightarrow> Some exact
           | None \<Rightarrow> find (\<lambda>i. localResourceKey i = localResourceKey r) ids))"

definition findUniqueByLocalKey :: "('a \<Rightarrow> string) \<Rightarrow> string option \<Rightarrow> 'a list \<Rightarrow> 'a option" where
  "findUniqueByLocalKey idOf requested items =
     (case findUniqueId requested (map idOf items) of
        None \<Rightarrow> None
      | Some i \<Rightarrow> find (\<lambda>x. idOf x = i) items)"

definition shouldHoldRequestedRoute ::
  "mux_route \<Rightarrow> string list \<Rightarrow> string list \<Rightarrow> string list \<Rightarrow> connection \<Rightarrow> bool" where
  "shouldHoldRequestedRoute route sessionIds tabIds terminalIds conn =
     (let missing = (\<lambda>r ids. truthy r \<and> findUniqueId r ids = None)
      in if \<not> (missing (routeSession route) sessionIds \<or> missing (routeTab route) tabIds \<or>
               missing (routeTerminal route) terminalIds)
         then False else conn \<noteq> Connected)"

definition chooseSession ::
  "(string \<Rightarrow> string \<Rightarrow> int) \<Rightarrow> string option \<Rightarrow> app_session list \<Rightarrow> app_session option" where
  "chooseSession localeCompare requested sessions =
     (let visible = filter (\<lambda>s. \<not> truthy (sesArchivedAt s)) sessions
      in if truthy requested then findUniqueByLocalKey sesId requested visible
         else (case jsort (\<lambda>a b. localeCompare (sesUpdatedAt b) (sesUpdatedAt a)) visible of
                 [] \<Rightarrow> None | s # _ \<Rightarrow> Some s))"

definition isLiveSessionTab :: "app_session option \<Rightarrow> session_tab option \<Rightarrow> bool" where
  "isLiveSessionTab session tab =
     (case (session, tab) of
        (Some s, Some t) \<Rightarrow> \<not> truthy (sesArchivedAt s) \<and> \<not> truthy (tabArchivedAt t) \<and> tabSessionId t = sesId s
      | _ \<Rightarrow> False)"

fun firstSome :: "'a option list \<Rightarrow> 'a option" where
  "firstSome [] = None"
| "firstSome (x # xs) = (case x of Some v \<Rightarrow> Some v | None \<Rightarrow> firstSome xs)"

definition chooseTab ::
  "string option \<Rightarrow> app_session option \<Rightarrow> session_tab list \<Rightarrow> string option \<Rightarrow> session_tab option" where
  "chooseTab requested session tabs owningTabId =
     (case session of
        None \<Rightarrow> None
      | Some s \<Rightarrow>
          (let visible = sort_key tabPosition
                 (filter (\<lambda>t. tabSessionId t = sesId s \<and> \<not> truthy (tabArchivedAt t)) tabs)
           in firstSome
                [findUniqueByLocalKey tabIdOf requested visible,
                 findUniqueByLocalKey tabIdOf owningTabId visible,
                 findUniqueByLocalKey tabIdOf (sesActiveTabId s) visible,
                 (case visible of [] \<Rightarrow> None | t # _ \<Rightarrow> Some t)]))"

text \<open>The tab argument is a session tab or a session: only its active terminal is read.\<close>

definition chooseMuxTerminal :: "string option \<Rightarrow> string option option \<Rightarrow> string list \<Rightarrow> string option" where
  "chooseMuxTerminal requested tabActive ids =
     (case tabActive of
        None \<Rightarrow> None
      | Some active \<Rightarrow>
          firstSome [findUniqueId requested ids, findUniqueId active ids,
            (case ids of [] \<Rightarrow> None | i # _ \<Rightarrow> Some i)])"

section \<open>Lemmas\<close>

lemma findUniqueId_mem: "findUniqueId r ids = Some i \<Longrightarrow> i \<in> set ids"
  by (auto simp: findUniqueId_def dest: find_SomeD split: if_splits option.splits)

lemma findUniqueId_exact: "r \<in> set ids \<Longrightarrow> r \<noteq> [] \<Longrightarrow> findUniqueId (Some r) ids = Some r"
  by (auto simp: findUniqueId_def find_None_iff dest: find_SomeD split: option.split)

lemma findUniqueByLocalKey_mem: "findUniqueByLocalKey f r xs = Some x \<Longrightarrow> x \<in> set xs"
  by (auto simp: findUniqueByLocalKey_def dest: find_SomeD split: option.splits)

lemma firstSome_mem: "firstSome xs = Some v \<Longrightarrow> Some v \<in> set xs"
  by (induction xs) (auto split: option.splits)

lemma firstSome_None: "firstSome xs = None \<longleftrightarrow> list_all (\<lambda>x. x = None) xs"
  by (induction xs) (auto split: option.splits)

section \<open>Properties\<close>

lemma optionalId_valid: "valid s \<Longrightarrow> s \<noteq> [] \<Longrightarrow> optionalId valid (Some s) = Some s"
  by (simp add: optionalId_def)

lemma valid_tags:
  "validSessionTabId t \<Longrightarrow> isSessionTabId t" "validSessionId s \<Longrightarrow> s \<noteq> []"
  "validMuxTerminalId x \<Longrightarrow> x \<noteq> []" "validSessionTabId t \<Longrightarrow> t \<noteq> []"
  by (auto simp: validSessionTabId_def validSessionId_def validMuxTerminalId_def isSessionTabId_def
      startsWith_def taggedId_def)

text \<open>
  When the URL parser returns the parameters the encoder was given, a deep link built from valid
  session, tab and terminal ids (the last two optional) is parsed back to exactly those ids.
\<close>

theorem muxSessionUrl_parse:
  assumes "\<And>k. getParam (basePath @ ''?'' @ encodeParams (routeParams s tab trm)) k =
      map_of (routeParams s tab trm) k"
    and "validSessionId s" and "list_all validSessionTabId (case tab of None \<Rightarrow> [] | Some t \<Rightarrow> [t])"
    and "list_all validMuxTerminalId (case trm of None \<Rightarrow> [] | Some x \<Rightarrow> [x])"
  shows "parseMuxSessionRoute getParam (muxSessionUrl encodeParams s tab trm basePath) =
    \<lparr>routeSession = Some s, routeTab = tab, routeTerminal = trm\<rparr>"
proof -
  have not_terminal: "\<not> isMuxTerminalId t" if "validSessionTabId t" for t
    using that by (auto simp: validSessionTabId_def taggedId_iff isMuxTerminalId_def startsWith_def)
  have t: "isSessionTabId t \<and> t \<noteq> []" if "tab = Some t" for t
    using assms(3) that valid_tags by auto
  have params: "routeParams s tab trm = (''s'', s) #
      (case tab of Some x \<Rightarrow> [(''t'', x)] | None \<Rightarrow> []) @ (case trm of Some x \<Rightarrow> [(''term'', x)] | None \<Rightarrow> [])"
    using assms(3) t not_terminal by (cases tab; cases trm) (simp_all add: routeParams_def)
  have get: "map_of (routeParams s tab trm) ''s'' = Some s" "map_of (routeParams s tab trm) ''t'' = tab"
    "map_of (routeParams s tab trm) ''term'' = trm"
    unfolding params by (cases tab; cases trm; simp)+
  have opt: "optionalId validSessionTabId tab = tab" "optionalId validMuxTerminalId trm = trm"
    using assms(3,4) by (cases tab; cases trm; auto simp: optionalId_def dest: valid_tags)+
  show ?thesis
    unfolding parseMuxSessionRoute_def muxSessionUrl_def assms(1) get opt
    by (simp add: optionalId_valid assms(2) valid_tags)
qed

theorem muxSessionUrl_parse_witness:
  "parseMuxSessionRoute (\<lambda>url k. map_of [(''s'', ''ses-a''), (''t'', ''tab-b'')] k)
     (muxSessionUrl (\<lambda>ps. ''q'') ''ses-a'' (Some ''tab-b'') None ''/'') =
   \<lparr>routeSession = Some ''ses-a'', routeTab = Some ''tab-b'', routeTerminal = None\<rparr>"
  by (rule muxSessionUrl_parse)
    (simp_all add: routeParams_def isSessionTabId_def isMuxTerminalId_def startsWith_def
      validSessionId_def validSessionTabId_def taggedId_def idChar_def)

text \<open>
  The tab chosen for a session is one of its tabs that is not archived; there is one whenever the
  session has such a tab, and a requested tab that qualifies is the one chosen.
\<close>

theorem chooseTab_visible:
  "(case chooseTab requested (Some s) tabs owning of
      None \<Rightarrow> filter (\<lambda>t. tabSessionId t = sesId s \<and> \<not> truthy (tabArchivedAt t)) tabs = []
    | Some t \<Rightarrow> t \<in> set (filter (\<lambda>t. tabSessionId t = sesId s \<and> \<not> truthy (tabArchivedAt t)) tabs) \<and>
        (list_ex (\<lambda>u. tabSessionId u = sesId s \<and> \<not> truthy (tabArchivedAt u) \<and> tabIdOf u \<noteq> [] \<and>
           requested = Some (tabIdOf u)) tabs \<longrightarrow> requested = Some (tabIdOf t)))"
proof -
  let ?P = "\<lambda>t. tabSessionId t = sesId s \<and> \<not> truthy (tabArchivedAt t)"
  let ?V = "sort_key tabPosition (filter ?P tabs)"
  let ?cs = "[findUniqueByLocalKey tabIdOf requested ?V, findUniqueByLocalKey tabIdOf owning ?V,
    findUniqueByLocalKey tabIdOf (sesActiveTabId s) ?V, (case ?V of [] \<Rightarrow> None | t # _ \<Rightarrow> Some t)]"
  have c: "chooseTab requested (Some s) tabs owning = firstSome ?cs"
    by (simp add: chooseTab_def Let_def)
  show ?thesis
  proof (cases "firstSome ?cs")
    case None
    then have "?V = []" unfolding firstSome_None by (cases ?V) auto
    then have "filter ?P tabs = []" by (metis set_empty set_sort)
    with None show ?thesis unfolding c by simp
  next
    case (Some t)
    from firstSome_mem [OF Some] have "t \<in> set ?V"
      by (auto simp del: set_sort dest!: sym [of "Some t"] dest: findUniqueByLocalKey_mem split: list.splits)
    then have t: "t \<in> set (filter ?P tabs)" by simp
    have "requested = Some (tabIdOf t)"
      if u: "u \<in> set tabs" "?P u" "tabIdOf u \<noteq> []" "requested = Some (tabIdOf u)" for u
    proof -
      have "tabIdOf u \<in> set (map tabIdOf ?V)" using u by auto
      then have f: "findUniqueId requested (map tabIdOf ?V) = Some (tabIdOf u)"
        unfolding u(4) by (rule findUniqueId_exact) (rule u(3))
      obtain v where "find (\<lambda>x. tabIdOf x = tabIdOf u) ?V = Some v"
        using u by (cases "find (\<lambda>x. tabIdOf x = tabIdOf u) ?V") (auto simp: find_None_iff)
      with f have "findUniqueByLocalKey tabIdOf requested ?V = Some v" "tabIdOf v = tabIdOf u"
        by (auto simp: findUniqueByLocalKey_def dest: find_SomeD)
      with Some u(4) show ?thesis by simp
    qed
    with t Some show ?thesis unfolding c by (auto simp: list_ex_iff)
  qed
qed

definition demo_tab :: session_tab where
  "demo_tab = \<lparr>tabIdOf = ''tab-b'', tabSessionId = ''ses-a'', tabTitle = [], tabPosition = 2,
     tabActiveMuxTerminalId = None, tabLayoutJson = None, tabRevision = None, tabCreatedAt = [],
     tabUpdatedAt = [], tabArchivedAt = None\<rparr>"

definition demo_route_session :: app_session where
  "demo_route_session = \<lparr>sesId = ''ses-a'', sesTitle = [], sesPosition = 0, sesActiveTabId = None,
     sesActiveMuxTerminalId = None, sesRevision = None, sesCreatedAt = [], sesUpdatedAt = [], sesArchivedAt = None\<rparr>"

theorem chooseTab_visible_witness:
  "map_option tabIdOf (chooseTab (Some ''tab-b'') (Some demo_route_session)
     [demo_tab\<lparr>tabIdOf := ''tab-a'', tabPosition := 1\<rparr>, demo_tab] None) = Some ''tab-b''"
  using chooseTab_visible [where requested = "Some ''tab-b''" and s = demo_route_session and tabs =
    "[demo_tab\<lparr>tabIdOf := ''tab-a'', tabPosition := 1\<rparr>, demo_tab]" and owning = None]
  by (auto simp: demo_tab_def demo_route_session_def split: option.splits)

end
