(* ===== verification/MuxStore.thy ===== *)
theory MuxStore
  imports MuxRouting "HOL-Library.Char_ord" "HOL-Library.List_Lexorder"
begin

text \<open>
  The client's normalised copy of the multiplexer, \<open>packages/yaade-app/src/mux/mux-store.ts\<close>. The
  class \<open>MuxSessionStore\<close> is the record \<open>mux_store\<close> with its maps, indexes, selection, revision
  table and pending closes; each method is a function on it. Listeners and the published snapshot
  (a copy of the fields) are left out; the revision gap that \<open>apply\<close> reports is a result. The
  lemmas show that the selection always points at what is shown, that stale events change nothing,
  that known revisions never decrease, and that the incremental index update agrees with a rebuild.
\<close>

section \<open>State\<close>

record mux_store =
  sessionsById :: "(string, app_session) jsmap"
  visibleSessionIds :: "string list"
  tabsById :: "(string, session_tab) jsmap"
  visibleTabIdsBySession :: "(string, string list) jsmap"
  terminalsById :: "(string, mux_terminal) jsmap"
  terminalIdsBySession :: "(string, string list) jsmap"
  terminalIdsByTab :: "(string, string list) jsmap"
  activeSessionId :: "string option"
  activeTabId :: "string option"
  activeMuxTerminalId :: "string option"
  connection :: connection
  revisions :: "(string, int) jsmap"
  pendingTerminalCloses :: "(string, int) jsmap"
  pendingTabCloses :: "(string, int) jsmap"
  nextCloseMutationId :: int

definition emptyMuxStore :: mux_store where
  "emptyMuxStore = \<lparr>sessionsById = [], visibleSessionIds = [], tabsById = [],
     visibleTabIdsBySession = [], terminalsById = [], terminalIdsBySession = [], terminalIdsByTab = [],
     activeSessionId = None, activeTabId = None, activeMuxTerminalId = None, connection = Connecting,
     revisions = [], pendingTerminalCloses = [], pendingTabCloses = [], nextCloseMutationId = 1\<rparr>"

text \<open>The keys of the revision table are prefixed strings.\<close>

datatype entity = SessionEntity | TabEntity | TerminalEntity

fun entityKey :: "entity \<Rightarrow> string \<Rightarrow> string" where
  "entityKey SessionEntity i = ''session:'' @ i"
| "entityKey TabEntity i = ''tab:'' @ i"
| "entityKey TerminalEntity i = ''terminal:'' @ i"

lemma entityKey_inj [simp]: "entityKey e i = entityKey f j \<longleftrightarrow> e = f \<and> i = j"
  by (cases e; cases f) auto

record revision_snapshot =
  snapSessions :: "(string, int) jsmap"
  snapTabs :: "(string, int) jsmap"
  snapTerminals :: "(string, int) jsmap"

record revision_gap =
  gapEntity :: entity
  gapId :: string
  expectedRevision :: int
  actualRevision :: int

abbreviation sesRev :: "app_session \<Rightarrow> int" where
  "sesRev s \<equiv> coalesce (sesRevision s) 0"

abbreviation tabRev :: "session_tab \<Rightarrow> int" where
  "tabRev t \<equiv> coalesce (tabRevision t) 0"

definition fallbackTab :: "app_session \<Rightarrow> session_tab" where
  "fallbackTab s = \<lparr>tabIdOf = ''tab-'' @ drop 4 (sesId s), tabSessionId = sesId s, tabTitle = ''Window 1'',
     tabPosition = 0, tabActiveMuxTerminalId = None, tabLayoutJson = None, tabRevision = None,
     tabCreatedAt = sesCreatedAt s, tabUpdatedAt = sesUpdatedAt s, tabArchivedAt = None\<rparr>"

definition captureRevisions :: "mux_store \<Rightarrow> revision_snapshot" where
  "captureRevisions st =
     \<lparr>snapSessions = jofList (map (\<lambda>(i, v). (i, sesRev v)) (sessionsById st)),
      snapTabs = jofList (map (\<lambda>(i, v). (i, tabRev v)) (tabsById st)),
      snapTerminals = jofList (map (\<lambda>(i, v). (i, trmRevision v)) (terminalsById st))\<rparr>"

section \<open>Indexes\<close>

text \<open>\<open>(m.get(k) ?? [])\<close>, and that list with one more element put back.\<close>

definition idsIn :: "(string, string list) jsmap \<Rightarrow> string \<Rightarrow> string list" where
  "idsIn m k = coalesce (jget m k) []"

definition addId :: "string \<Rightarrow> string \<Rightarrow> (string, string list) jsmap \<Rightarrow> (string, string list) jsmap" where
  "addId k x m = jset k (idsIn m k @ [x]) m"

definition sortIds :: "(string \<Rightarrow> int) \<Rightarrow> (string, string list) jsmap \<Rightarrow> (string, string list) jsmap" where
  "sortIds pos m = map (\<lambda>(k, ids). (k, sort_key pos ids)) m"

definition tabPos :: "mux_store \<Rightarrow> string \<Rightarrow> int" where
  "tabPos st i = (case jget (tabsById st) i of None \<Rightarrow> 0 | Some t \<Rightarrow> tabPosition t)"

definition terminalPos :: "mux_store \<Rightarrow> string \<Rightarrow> int" where
  "terminalPos st i = (case jget (terminalsById st) i of None \<Rightarrow> 0 | Some t \<Rightarrow> trmPosition t)"

definition tabIdForTerminal :: "mux_store \<Rightarrow> mux_terminal \<Rightarrow> string option" where
  "tabIdForTerminal st t =
     (let first = (case idsIn (visibleTabIdsBySession st) (trmSessionId t) of [] \<Rightarrow> None | i # _ \<Rightarrow> Some i)
      in case trmTabId t of
           Some i \<Rightarrow> if jhas (tabsById st) i then Some i else first
         | None \<Rightarrow> first)"

definition tabClosed :: "mux_store \<Rightarrow> string \<Rightarrow> bool" where
  "tabClosed st i = ((case jget (tabsById st) i of None \<Rightarrow> False | Some t \<Rightarrow> truthy (tabArchivedAt t)) \<or>
     jhas (pendingTabCloses st) i)"

text \<open>The tab a terminal is listed under, when it is listed at all.\<close>

definition listedTab :: "mux_store \<Rightarrow> mux_terminal \<Rightarrow> string option" where
  "listedTab st t =
     (if truthy (trmArchivedAt t) \<or> jhas (pendingTerminalCloses st) (trmId t) then None
      else case tabIdForTerminal st t of
        None \<Rightarrow> None
      | Some i \<Rightarrow> if tabClosed st i then None else Some i)"

definition rebuildTerminalIndexes :: "mux_store \<Rightarrow> mux_store" where
  "rebuildTerminalIndexes st =
     (let bySession = jofList (map (\<lambda>i. (i, [])) (visibleSessionIds st));
          byTab = jofList (map (\<lambda>t. (tabIdOf t, [])) (filter
            (\<lambda>t. \<not> truthy (tabArchivedAt t) \<and> \<not> jhas (pendingTabCloses st) (tabIdOf t)) (jvalues (tabsById st))));
          (bySession', byTab') = fold (\<lambda>t (s, b). case listedTab st t of
              None \<Rightarrow> (s, b)
            | Some i \<Rightarrow> (addId (trmSessionId t) (trmId t) s, addId i (trmId t) b))
            (jvalues (terminalsById st)) (bySession, byTab)
      in st\<lparr>terminalIdsBySession := sortIds (terminalPos st) bySession',
            terminalIdsByTab := sortIds (terminalPos st) byTab'\<rparr>)"

definition sortedVisibleSessions :: "app_session list \<Rightarrow> string list" where
  "sortedVisibleSessions ss =
     map sesId (sort_key sesPosition (filter (\<lambda>s. \<not> truthy (sesArchivedAt s)) ss))"

definition rebuildVisibleSessions :: "mux_store \<Rightarrow> mux_store" where
  "rebuildVisibleSessions st = st\<lparr>visibleSessionIds := sortedVisibleSessions (jvalues (sessionsById st))\<rparr>"

definition visibleTabs :: "mux_store \<Rightarrow> session_tab list \<Rightarrow> (string, string list) jsmap" where
  "visibleTabs st tabs =
     sortIds (tabPos st) (fold (\<lambda>t m.
       if truthy (tabArchivedAt t) \<or> jhas (pendingTabCloses st) (tabIdOf t) then m
       else addId (tabSessionId t) (tabIdOf t) m) tabs [])"

definition rebuildVisibleTabs :: "mux_store \<Rightarrow> mux_store" where
  "rebuildVisibleTabs st =
     rebuildTerminalIndexes (st\<lparr>visibleTabIdsBySession := visibleTabs st (jvalues (tabsById st))\<rparr>)"

section \<open>Selection\<close>

definition pick :: "string option \<Rightarrow> string list \<Rightarrow> string option" where
  "pick preferred ids =
     (case preferred of
        Some i \<Rightarrow> if List.member ids i then Some i else (case ids of [] \<Rightarrow> None | j # _ \<Rightarrow> Some j)
      | None \<Rightarrow> (case ids of [] \<Rightarrow> None | j # _ \<Rightarrow> Some j))"

definition selectedTabForSession :: "mux_store \<Rightarrow> string \<Rightarrow> string option" where
  "selectedTabForSession st i =
     pick (case jget (sessionsById st) i of None \<Rightarrow> None | Some s \<Rightarrow> sesActiveTabId s)
       (idsIn (visibleTabIdsBySession st) i)"

definition selectedTerminalForTab :: "mux_store \<Rightarrow> string \<Rightarrow> string option" where
  "selectedTerminalForTab st i =
     pick (case jget (tabsById st) i of None \<Rightarrow> None | Some t \<Rightarrow> tabActiveMuxTerminalId t)
       (idsIn (terminalIdsByTab st) i)"

definition findByLocalKey :: "('v \<Rightarrow> string) \<Rightarrow> (string, 'v) jsmap \<Rightarrow> string \<Rightarrow> 'v option" where
  "findByLocalKey idOf items requested =
     (case jget items requested of
        Some v \<Rightarrow> Some v
      | None \<Rightarrow> find (\<lambda>v. localResourceKey (idOf v) = localResourceKey requested) (jvalues items))"

definition resolveSessionId :: "mux_store \<Rightarrow> string \<Rightarrow> string option" where
  "resolveSessionId st i =
     (if jhas (sessionsById st) i then Some i
      else map_option sesId (findByLocalKey sesId (sessionsById st) i))"

definition reconcileSelection :: "mux_store \<Rightarrow> mux_store" where
  "reconcileSelection st =
     (let session = (case activeSessionId st of
            Some i \<Rightarrow> if jhas (sessionsById st) i \<and> List.member (visibleSessionIds st) i then Some i
                      else (case visibleSessionIds st of [] \<Rightarrow> None | j # _ \<Rightarrow> Some j)
          | None \<Rightarrow> (case visibleSessionIds st of [] \<Rightarrow> None | j # _ \<Rightarrow> Some j))
      in case session of
           None \<Rightarrow> st\<lparr>activeSessionId := None, activeTabId := None, activeMuxTerminalId := None\<rparr>
         | Some s \<Rightarrow>
             (let tab = (case activeTabId st of
                    Some t \<Rightarrow> if List.member (idsIn (visibleTabIdsBySession st) s) t then Some t
                              else selectedTabForSession st s
                  | None \<Rightarrow> selectedTabForSession st s);
                  terminal = (case tab of
                    None \<Rightarrow> None
                  | Some t \<Rightarrow> (case activeMuxTerminalId st of
                      Some x \<Rightarrow> if List.member (idsIn (terminalIdsByTab st) t) x then Some x
                                else selectedTerminalForTab st t
                    | None \<Rightarrow> selectedTerminalForTab st t))
              in st\<lparr>activeSessionId := Some s, activeTabId := tab, activeMuxTerminalId := terminal\<rparr>))"

definition selectSession :: "string \<Rightarrow> mux_store \<Rightarrow> mux_store" where
  "selectSession i st =
     (case resolveSessionId st i of
        None \<Rightarrow> st
      | Some r \<Rightarrow>
          if activeSessionId st = Some r then st
          else (let tab = selectedTabForSession st r
                in st\<lparr>activeSessionId := Some r, activeTabId := tab,
                      activeMuxTerminalId := (case tab of None \<Rightarrow> None | Some t \<Rightarrow> selectedTerminalForTab st t)\<rparr>))"

definition selectTab :: "string \<Rightarrow> mux_store \<Rightarrow> mux_store" where
  "selectTab i st =
     (case findByLocalKey tabIdOf (tabsById st) i of
        None \<Rightarrow> st
      | Some t \<Rightarrow>
          if truthy (tabArchivedAt t) \<or> jhas (pendingTabCloses st) (tabIdOf t) then st
          else st\<lparr>activeSessionId := Some (tabSessionId t), activeTabId := Some i,
                  activeMuxTerminalId := selectedTerminalForTab st i\<rparr>)"

definition selectMuxTerminal :: "string \<Rightarrow> mux_store \<Rightarrow> mux_store" where
  "selectMuxTerminal i st =
     (case findByLocalKey trmId (terminalsById st) i of
        None \<Rightarrow> st
      | Some t \<Rightarrow>
          if truthy (trmArchivedAt t) \<or> jhas (pendingTerminalCloses st) (trmId t) then st
          else case tabIdForTerminal st t of
                 None \<Rightarrow> st
               | Some tab \<Rightarrow> st\<lparr>activeSessionId := Some (trmSessionId t), activeTabId := Some tab,
                                activeMuxTerminalId := Some i\<rparr>)"

definition setConnection :: "connection \<Rightarrow> mux_store \<Rightarrow> mux_store" where
  "setConnection c st = st\<lparr>connection := c\<rparr>"

section \<open>Snapshots\<close>

text \<open>
  The two loops \<open>mergeSnapshot\<close> runs over sessions, tabs and terminals alike: an incoming entity
  unless the current one is newer, then the omitted current ones that changed since the baseline.
\<close>

definition mergeEntities ::
  "('v \<Rightarrow> int) \<Rightarrow> (string, 'v) jsmap \<Rightarrow> (string, 'v) jsmap \<Rightarrow> (string, int) jsmap \<Rightarrow> (string, 'v) jsmap" where
  "mergeEntities revOf current incoming baseline =
     (let taken = fold (\<lambda>(i, inc) m. jset i (case jget current i of
            Some c \<Rightarrow> if revOf c > revOf inc then c else inc
          | None \<Rightarrow> inc) m) incoming []
      in fold (\<lambda>(i, c) m.
           if jhas incoming i then m
           else if revOf c > coalesce (jget baseline i) 0 then jset i c m else m) current taken)"

definition hasVisibleTab :: "session_tab list \<Rightarrow> app_session \<Rightarrow> bool" where
  "hasVisibleTab tabs s = list_ex (\<lambda>t. tabSessionId t = sesId s \<and> \<not> truthy (tabArchivedAt t)) tabs"

definition addFallbackTabs :: "app_session list \<Rightarrow> (string, session_tab) jsmap \<Rightarrow> (string, session_tab) jsmap" where
  "addFallbackTabs sessions tabs =
     fold (\<lambda>s m. if hasVisibleTab (jvalues m) s then m
                 else jset (tabIdOf (fallbackTab s)) (fallbackTab s) m) sessions tabs"

text \<open>\<open>this.revisions.set(key, Math.max(this.revisions.get(key) ?? 0, revision))\<close> for each entry.\<close>

definition bumpRevisions :: "entity \<Rightarrow> (string \<times> int) list \<Rightarrow> (string, int) jsmap \<Rightarrow> (string, int) jsmap" where
  "bumpRevisions e rs m =
     fold (\<lambda>(i, r) m. jset (entityKey e i) (max (coalesce (jget m (entityKey e i)) 0) r) m) rs m"

definition clearAuthoritativelyFinishedCloses :: "mux_store \<Rightarrow> mux_store" where
  "clearAuthoritativelyFinishedCloses st =
     st\<lparr>pendingTerminalCloses := filter (\<lambda>(i, _). case jget (terminalsById st) i of
            None \<Rightarrow> False | Some t \<Rightarrow> \<not> truthy (trmArchivedAt t)) (pendingTerminalCloses st),
        pendingTabCloses := filter (\<lambda>(i, _). case jget (tabsById st) i of
            None \<Rightarrow> False | Some t \<Rightarrow> \<not> truthy (tabArchivedAt t)) (pendingTabCloses st)\<rparr>"

definition mergeSnapshot ::
  "app_session list \<Rightarrow> mux_terminal list \<Rightarrow> session_tab list \<Rightarrow> bool \<Rightarrow> revision_snapshot \<Rightarrow> mux_store \<Rightarrow> mux_store" where
  "mergeSnapshot sessions terminals tabs hasTabs baseline st =
     (let nextSessions = mergeEntities sesRev (sessionsById st)
            (jofList (map (\<lambda>v. (sesId v, v)) sessions)) (snapSessions baseline);
          mergedTabs = (if hasTabs then mergeEntities tabRev (tabsById st)
            (jofList (map (\<lambda>v. (tabIdOf v, v)) tabs)) (snapTabs baseline) else tabsById st);
          nextTabs = addFallbackTabs (jvalues nextSessions) mergedTabs;
          nextTerminals = mergeEntities trmRevision (terminalsById st)
            (jofList (map (\<lambda>v. (trmId v, v)) terminals)) (snapTerminals baseline);
          st1 = clearAuthoritativelyFinishedCloses (st\<lparr>sessionsById := nextSessions,
            tabsById := nextTabs, terminalsById := nextTerminals\<rparr>);
          revs = bumpRevisions TerminalEntity (snapTerminals baseline)
            (bumpRevisions TabEntity (snapTabs baseline)
            (bumpRevisions SessionEntity (snapSessions baseline)
            (bumpRevisions TerminalEntity (map (\<lambda>(i, v). (i, trmRevision v)) nextTerminals)
            (bumpRevisions TabEntity (map (\<lambda>(i, v). (i, tabRev v)) nextTabs)
            (bumpRevisions SessionEntity (map (\<lambda>(i, v). (i, sesRev v)) nextSessions)
              (revisions st1))))))
      in reconcileSelection (rebuildVisibleTabs (rebuildVisibleSessions (st1\<lparr>revisions := revs\<rparr>))))"

definition replaceAll ::
  "app_session list \<Rightarrow> mux_terminal list \<Rightarrow> session_tab list \<Rightarrow> mux_store \<Rightarrow> mux_store" where
  "replaceAll sessions terminals tabs st =
     (let nextTabs = fold (\<lambda>s ts. if hasVisibleTab ts s then ts else ts @ [fallbackTab s]) sessions tabs;
          st1 = st\<lparr>sessionsById := jofList (map (\<lambda>s. (sesId s, s)) sessions),
            visibleSessionIds := sortedVisibleSessions sessions,
            tabsById := jofList (map (\<lambda>t. (tabIdOf t, t)) nextTabs)\<rparr>;
          st2 = st1\<lparr>visibleTabIdsBySession := visibleTabs st1 nextTabs,
            terminalsById := jofList (map (\<lambda>t. (trmId t, t)) terminals)\<rparr>;
          st3 = clearAuthoritativelyFinishedCloses st2;
          revs = bumpRevisions TerminalEntity (map (\<lambda>t. (trmId t, trmRevision t)) terminals)
            (bumpRevisions TabEntity (map (\<lambda>t. (tabIdOf t, tabRev t)) tabs)
            (bumpRevisions SessionEntity (map (\<lambda>s. (sesId s, sesRev s)) sessions) (revisions st3)))
      in reconcileSelection (rebuildTerminalIndexes (st3\<lparr>revisions := revs\<rparr>)))"

definition replaceTab :: "session_tab \<Rightarrow> mux_store \<Rightarrow> mux_store" where
  "replaceTab tab st =
     (if (case jget (tabsById st) (tabIdOf tab) of
            None \<Rightarrow> False
          | Some current \<Rightarrow> tabRev current > tabRev tab \<or>
              tabRev current = tabRev tab \<and> tabUpdatedAt current > tabUpdatedAt tab)
      then st
      else (let st1 = st\<lparr>tabsById := jset (tabIdOf tab) tab (tabsById st)\<rparr>;
                st2 = (if truthy (tabArchivedAt tab)
                       then st1\<lparr>pendingTabCloses := jdelete (tabIdOf tab) (pendingTabCloses st1)\<rparr> else st1)
            in reconcileSelection (rebuildVisibleTabs st2)))"

definition replaceMuxTerminal :: "mux_terminal \<Rightarrow> mux_store \<Rightarrow> mux_store" where
  "replaceMuxTerminal terminal st =
     (if (case jget (terminalsById st) (trmId terminal) of
            None \<Rightarrow> False
          | Some current \<Rightarrow> trmRevision current > trmRevision terminal \<or>
              trmRevision current = trmRevision terminal \<and> trmUpdatedAt current > trmUpdatedAt terminal)
      then st
      else replaceAll (jvalues (sessionsById st))
        (filter (\<lambda>c. trmId c \<noteq> trmId terminal) (jvalues (terminalsById st)) @ [terminal])
        (jvalues (tabsById st)) st)"

definition replaceMuxTerminalIfNewer :: "mux_terminal \<Rightarrow> mux_store \<Rightarrow> mux_store" where
  "replaceMuxTerminalIfNewer terminal st =
     (case jget (terminalsById st) (trmId terminal) of
        Some current \<Rightarrow> if trmRevision current > trmRevision terminal then st else replaceMuxTerminal terminal st
      | None \<Rightarrow> replaceMuxTerminal terminal st)"

text \<open>\<open>tabs\<close> is \<open>None\<close> for a host that does not send them.\<close>

definition replaceSession ::
  "app_session \<Rightarrow> mux_terminal list \<Rightarrow> session_tab list option \<Rightarrow> mux_store \<Rightarrow> mux_store" where
  "replaceSession session terminals tabs st =
     (let nextSession = (case jget (sessionsById st) (sesId session) of
            Some c \<Rightarrow> if sesRev c > sesRev session then c else session
          | None \<Rightarrow> session);
          sessions = filter (\<lambda>c. sesId c \<noteq> sesId session) (jvalues (sessionsById st));
          existingTerminals = filter (\<lambda>c. trmSessionId c \<noteq> sesId session) (jvalues (terminalsById st));
          inc0 = jofList (map (\<lambda>v. (trmId v, v)) terminals);
          inc1 = fold (\<lambda>c m.
            if trmSessionId c \<noteq> sesId session \<or> jhas m (trmId c) then m
            else if truthy (trmArchivedAt c) then jset (trmId c) c m else m) (jvalues (terminalsById st)) inc0;
          incomingTerminals = fold (\<lambda>inc m. case jget (terminalsById st) (trmId inc) of
              Some c \<Rightarrow> if trmRevision c > trmRevision inc then jset (trmId inc) c m else m
            | None \<Rightarrow> m) terminals inc1;
          existingTabs = filter (\<lambda>c. tabSessionId c \<noteq> sesId session) (jvalues (tabsById st));
          tabs0 = jofList (map (\<lambda>v. (tabIdOf v, v)) (coalesce tabs []));
          tabs1 = fold (\<lambda>c m.
            if tabSessionId c \<noteq> sesId session then m
            else if tabs = None then jset (tabIdOf c) c m
            else if jhas m (tabIdOf c) then m
            else if truthy (tabArchivedAt c) then jset (tabIdOf c) c m else m) (jvalues (tabsById st)) tabs0;
          incomingTabs = fold (\<lambda>inc m. case jget (tabsById st) (tabIdOf inc) of
              Some c \<Rightarrow> if tabRev c > tabRev inc then jset (tabIdOf inc) c m else m
            | None \<Rightarrow> m) (coalesce tabs []) tabs1
      in replaceAll (sessions @ [nextSession]) (existingTerminals @ jvalues incomingTerminals)
           (existingTabs @ jvalues incomingTabs) st)"

section \<open>Optimistic closes\<close>

text \<open>Staging returns the handle's mutation id, or \<open>None\<close> when nothing was staged.\<close>

definition stageTerminalClose :: "string \<Rightarrow> mux_store \<Rightarrow> int option \<times> mux_store" where
  "stageTerminalClose i st =
     (case jget (terminalsById st) i of
        None \<Rightarrow> (None, st)
      | Some t \<Rightarrow>
          if truthy (trmArchivedAt t) \<or> jhas (pendingTerminalCloses st) i then (None, st)
          else (let m = nextCloseMutationId st in
            (Some m, reconcileSelection (rebuildTerminalIndexes
               (st\<lparr>nextCloseMutationId := m + 1,
                   pendingTerminalCloses := jset i m (pendingTerminalCloses st)\<rparr>)))))"

definition stageTabClose :: "string \<Rightarrow> mux_store \<Rightarrow> int option \<times> mux_store" where
  "stageTabClose i st =
     (case jget (tabsById st) i of
        None \<Rightarrow> (None, st)
      | Some t \<Rightarrow>
          if truthy (tabArchivedAt t) \<or> jhas (pendingTabCloses st) i then (None, st)
          else (let m = nextCloseMutationId st in
            (Some m, reconcileSelection (rebuildVisibleTabs
               (st\<lparr>nextCloseMutationId := m + 1,
                   pendingTabCloses := jset i m (pendingTabCloses st)\<rparr>)))))"

text \<open>The handle of a staged close, for terminals (\<open>True\<close>) and for tabs.\<close>

definition pendingOf :: "bool \<Rightarrow> mux_store \<Rightarrow> (string, int) jsmap" where
  "pendingOf terminal st = (if terminal then pendingTerminalCloses st else pendingTabCloses st)"

definition dropPending :: "bool \<Rightarrow> string \<Rightarrow> mux_store \<Rightarrow> mux_store" where
  "dropPending terminal i st =
     (if terminal then st\<lparr>pendingTerminalCloses := jdelete i (pendingTerminalCloses st)\<rparr>
      else st\<lparr>pendingTabCloses := jdelete i (pendingTabCloses st)\<rparr>)"

definition confirmClose :: "bool \<Rightarrow> string \<Rightarrow> int \<Rightarrow> mux_store \<Rightarrow> mux_store" where
  "confirmClose terminal i m st =
     (if jget (pendingOf terminal st) i = Some m then dropPending terminal i st else st)"

definition rollbackClose :: "bool \<Rightarrow> string \<Rightarrow> int \<Rightarrow> mux_store \<Rightarrow> mux_store" where
  "rollbackClose terminal i m st =
     (if jget (pendingOf terminal st) i \<noteq> Some m then st
      else reconcileSelection (rebuildVisibleTabs (dropPending terminal i st)))"

definition clearPendingCloses :: "mux_store \<Rightarrow> mux_store" where
  "clearPendingCloses st =
     (if pendingTerminalCloses st = [] \<and> pendingTabCloses st = [] then st
      else reconcileSelection (rebuildVisibleTabs
        (st\<lparr>pendingTerminalCloses := [], pendingTabCloses := []\<rparr>)))"

section \<open>Events\<close>

text \<open>
  The difference between two index maps when one terminal changes. \<open>remove\<close> and \<open>insert\<close> also
  report which session and tab they touched, so that only those lists are sorted again.
\<close>

definition removeFrom :: "string \<Rightarrow> string \<Rightarrow> (string, string list) jsmap \<Rightarrow> (string, string list) jsmap" where
  "removeFrom k x m = jset k (filter (\<lambda>i. i \<noteq> x) (idsIn m k)) m"

type_synonym indexes =
  "((string, string list) jsmap \<times> (string, string list) jsmap) \<times> (string list \<times> string list)"

definition removeTerminal :: "mux_store \<Rightarrow> mux_terminal \<Rightarrow> indexes \<Rightarrow> indexes" where
  "removeTerminal st t idx =
     (let ((s, b), (touchedSessions, touchedTabs)) = idx in
      if truthy (trmArchivedAt t) then idx
      else (let s' = removeFrom (trmSessionId t) (trmId t) s in
        case tabIdForTerminal st t of
          None \<Rightarrow> ((s', b), (trmSessionId t # touchedSessions, touchedTabs))
        | Some i \<Rightarrow> ((s', removeFrom i (trmId t) b), (trmSessionId t # touchedSessions, i # touchedTabs))))"

definition insertTerminal :: "mux_store \<Rightarrow> mux_terminal \<Rightarrow> indexes \<Rightarrow> indexes" where
  "insertTerminal st t idx =
     (let ((s, b), (touchedSessions, touchedTabs)) = idx in
      case listedTab st t of
        None \<Rightarrow> idx
      | Some i \<Rightarrow> ((addId (trmSessionId t) (trmId t) s, addId i (trmId t) b),
                   (trmSessionId t # touchedSessions, i # touchedTabs)))"

definition sortTouched ::
  "(string \<Rightarrow> int) \<Rightarrow> string list \<Rightarrow> (string, string list) jsmap \<Rightarrow> (string, string list) jsmap" where
  "sortTouched pos touched m = map (\<lambda>(k, ids). (k, if List.member touched k then sort_key pos ids else ids)) m"

definition updateTerminalIndexes :: "mux_terminal option \<Rightarrow> mux_terminal \<Rightarrow> mux_store \<Rightarrow> mux_store" where
  "updateTerminalIndexes previous next st =
     (let idx0 = ((terminalIdsBySession st, terminalIdsByTab st), ([], []));
          idx1 = (case previous of None \<Rightarrow> idx0 | Some t \<Rightarrow> removeTerminal st t idx0);
          ((s, b), (touchedSessions, touchedTabs)) = insertTerminal st next idx1
      in st\<lparr>terminalIdsBySession := sortTouched (terminalPos st) touchedSessions s,
            terminalIdsByTab := sortTouched (terminalPos st) touchedTabs b\<rparr>)"

definition upsertTerminal :: "mux_terminal \<Rightarrow> mux_store \<Rightarrow> mux_store" where
  "upsertTerminal t st =
     (let previous = jget (terminalsById st) (trmId t);
          st1 = st\<lparr>terminalsById := jset (trmId t) t (terminalsById st)\<rparr>
      in if (case previous of
               None \<Rightarrow> True
             | Some p \<Rightarrow> trmSessionId p \<noteq> trmSessionId t \<or> trmTabId p \<noteq> trmTabId t \<or>
                 trmArchivedAt p \<noteq> trmArchivedAt t \<or> trmPosition p \<noteq> trmPosition t)
         then updateTerminalIndexes previous t st1 else st1)"

fun eventEntity :: "mux_event \<Rightarrow> entity \<times> string" where
  "eventEntity (SessionEvent tag r ts s) = (SessionEntity, sesId s)"
| "eventEntity (TabEvent tag r ts t) = (TabEntity, tabIdOf t)"
| "eventEntity (TerminalEvent tag r ts i t) = (TerminalEntity, i)"
| "eventEntity (TerminalOutputChanged r ts i out) = (TerminalEntity, i)"
| "eventEntity (MuxTerminalArchived r ts i) = (TerminalEntity, i)"

fun currentRevision :: "mux_store \<Rightarrow> entity \<Rightarrow> string \<Rightarrow> int" where
  "currentRevision st SessionEntity i = (case jget (sessionsById st) i of None \<Rightarrow> 0 | Some s \<Rightarrow> sesRev s)"
| "currentRevision st TabEntity i = (case jget (tabsById st) i of None \<Rightarrow> 0 | Some t \<Rightarrow> tabRev t)"
| "currentRevision st TerminalEntity i = (case jget (terminalsById st) i of None \<Rightarrow> 0 | Some t \<Rightarrow> trmRevision t)"

definition knownRevision :: "mux_store \<Rightarrow> entity \<times> string \<Rightarrow> int" where
  "knownRevision st k =
     (case k of (e, i) \<Rightarrow> max (coalesce (jget (revisions st) (entityKey e i)) 0) (currentRevision st e i))"

text \<open>What a session event does to the selection when it concerns the active session.\<close>

definition followSession :: "app_session \<Rightarrow> mux_store \<Rightarrow> mux_store" where
  "followSession s st =
     (let tabIds = idsIn (visibleTabIdsBySession st) (sesId s);
          nextTab = (case activeTabId st of
              Some t \<Rightarrow> if List.member tabIds t then Some t
                else (case sesActiveTabId s of
                    Some u \<Rightarrow> if List.member tabIds u then Some u else selectedTabForSession st (sesId s)
                  | None \<Rightarrow> selectedTabForSession st (sesId s))
            | None \<Rightarrow> (case sesActiveTabId s of
                Some u \<Rightarrow> if List.member tabIds u then Some u else selectedTabForSession st (sesId s)
              | None \<Rightarrow> selectedTabForSession st (sesId s)));
          terminalIds = (case nextTab of None \<Rightarrow> [] | Some t \<Rightarrow> idsIn (terminalIdsByTab st) t);
          keep = (case activeMuxTerminalId st of None \<Rightarrow> False | Some x \<Rightarrow> List.member terminalIds x)
      in st\<lparr>activeTabId := nextTab,
            activeMuxTerminalId := (if keep then activeMuxTerminalId st
              else case nextTab of None \<Rightarrow> None | Some t \<Rightarrow> selectedTerminalForTab st t)\<rparr>)"

definition followTab :: "session_tab \<Rightarrow> mux_store \<Rightarrow> mux_store" where
  "followTab t st =
     (let ids = idsIn (terminalIdsByTab st) (tabIdOf t);
          keep = (case activeMuxTerminalId st of None \<Rightarrow> False | Some x \<Rightarrow> List.member ids x)
      in if keep then st else st\<lparr>activeMuxTerminalId := selectedTerminalForTab st (tabIdOf t)\<rparr>)"

fun applyPayload :: "mux_event \<Rightarrow> mux_store \<Rightarrow> mux_store" where
  "applyPayload (SessionEvent tag r ts s) st =
     (let st1 = rebuildVisibleSessions (st\<lparr>sessionsById := jset (sesId s) s (sessionsById st)\<rparr>)
      in if activeSessionId st1 = Some (sesId s) then followSession s st1 else st1)"
| "applyPayload (TabEvent tag r ts t) st =
     (let st1 = st\<lparr>tabsById := jset (tabIdOf t) t (tabsById st)\<rparr>;
          st2 = (if truthy (tabArchivedAt t)
                 then st1\<lparr>pendingTabCloses := jdelete (tabIdOf t) (pendingTabCloses st1)\<rparr> else st1);
          st3 = rebuildVisibleTabs st2
      in if activeTabId st3 = Some (tabIdOf t) then followTab t st3 else st3)"
| "applyPayload (TerminalEvent tag r ts i t) st =
     (if (case jget (terminalsById st) (trmId t) of
            None \<Rightarrow> False | Some c \<Rightarrow> truthy (trmArchivedAt c)) \<and> \<not> truthy (trmArchivedAt t)
      then st else upsertTerminal t st)"
| "applyPayload (TerminalOutputChanged r ts i out) st =
     (case jget (terminalsById st) i of
        None \<Rightarrow> st
      | Some t \<Rightarrow> upsertTerminal (t\<lparr>trmOutput := out, trmRevision := r, trmUpdatedAt := ts\<rparr>) st)"
| "applyPayload (MuxTerminalArchived r ts i) st =
     (case jget (terminalsById st) i of
        None \<Rightarrow> st
      | Some t \<Rightarrow> upsertTerminal (t\<lparr>trmArchivedAt := Some ts, trmRevision := r, trmUpdatedAt := ts\<rparr>)
          (st\<lparr>pendingTerminalCloses := jdelete i (pendingTerminalCloses st)\<rparr>))"

text \<open>\<open>apply\<close>: the gap handed to the handler, if any, and the new state.\<close>

definition applyEvent :: "mux_event \<Rightarrow> mux_store \<Rightarrow> revision_gap option \<times> mux_store" where
  "applyEvent ev st =
     (let (e, i) = eventEntity ev; known = knownRevision st (e, i); r = eventRevision ev in
      if known \<ge> r then (None, st)
      else (if known > 0 \<and> r > known + 1
            then Some \<lparr>gapEntity = e, gapId = i, expectedRevision = known + 1, actualRevision = r\<rparr> else None,
            reconcileSelection (applyPayload ev (st\<lparr>revisions := jset (entityKey e i) r (revisions st)\<rparr>))))"

section \<open>The selection\<close>

text \<open>
  The selection points at what is shown: a visible session when there is one, one of its visible
  tabs when it has any, and a terminal listed under that tab when there is one.
\<close>

definition selectedIn :: "string list \<Rightarrow> string option \<Rightarrow> bool" where
  "selectedIn ids sel = (case sel of None \<Rightarrow> ids = [] | Some i \<Rightarrow> i \<in> set ids)"

definition idsOpt :: "(string, string list) jsmap \<Rightarrow> string option \<Rightarrow> string list" where
  "idsOpt m k = (case k of None \<Rightarrow> [] | Some i \<Rightarrow> idsIn m i)"

lemma idsOpt_simps [simp]: "idsOpt m None = []" "idsOpt m (Some i) = idsIn m i"
  by (simp_all add: idsOpt_def)

definition selectionOk :: "mux_store \<Rightarrow> bool" where
  "selectionOk st \<longleftrightarrow>
     selectedIn (visibleSessionIds st) (activeSessionId st) \<and>
     selectedIn (idsOpt (visibleTabIdsBySession st) (activeSessionId st)) (activeTabId st) \<and>
     selectedIn (idsOpt (terminalIdsByTab st) (activeTabId st)) (activeMuxTerminalId st)"

lemma pick_selected: "selectedIn ids (pick p ids)"
  by (auto simp: selectedIn_def pick_def split: option.split list.split)

lemma selected_tab: "selectedIn (idsIn (visibleTabIdsBySession st) s) (selectedTabForSession st s)"
  by (simp add: selectedTabForSession_def pick_selected)

lemma selected_terminal: "selectedIn (idsIn (terminalIdsByTab st) t) (selectedTerminalForTab st t)"
  by (simp add: selectedTerminalForTab_def pick_selected)

lemma selectedIn_simps [simp]: "selectedIn [] None" "selectedIn ids (Some i) \<longleftrightarrow> i \<in> set ids"
  by (simp_all add: selectedIn_def)

lemma reconcile_ok: "selectionOk (reconcileSelection st)"
proof -
  obtain s where s: "s = (case activeSessionId st of
            Some i \<Rightarrow> if jhas (sessionsById st) i \<and> List.member (visibleSessionIds st) i then Some i
                      else (case visibleSessionIds st of [] \<Rightarrow> None | j # _ \<Rightarrow> Some j)
          | None \<Rightarrow> (case visibleSessionIds st of [] \<Rightarrow> None | j # _ \<Rightarrow> Some j))" by blast
  then have s_ok: "selectedIn (visibleSessionIds st) s"
    by (auto simp: selectedIn_def split: option.split list.split)
  show ?thesis
  proof (cases s)
    case None
    with s s_ok show ?thesis by (simp add: reconcileSelection_def selectionOk_def Let_def)
  next
    case (Some i)
    let ?tab = "case activeTabId st of
          Some t \<Rightarrow> if List.member (idsIn (visibleTabIdsBySession st) i) t then Some t
                    else selectedTabForSession st i
        | None \<Rightarrow> selectedTabForSession st i"
    let ?terminal = "case ?tab of
          None \<Rightarrow> None
        | Some t \<Rightarrow> (case activeMuxTerminalId st of
            Some x \<Rightarrow> if List.member (idsIn (terminalIdsByTab st) t) x then Some x
                      else selectedTerminalForTab st t
          | None \<Rightarrow> selectedTerminalForTab st t)"
    have r: "reconcileSelection st =
        st\<lparr>activeSessionId := Some i, activeTabId := ?tab, activeMuxTerminalId := ?terminal\<rparr>"
      using Some s by (simp add: reconcileSelection_def Let_def)
    have "selectedIn (idsIn (visibleTabIdsBySession st) i) ?tab"
      using selected_tab [of st i] by (simp split: option.split)
    moreover have "selectedIn (idsOpt (terminalIdsByTab st) ?tab) ?terminal"
      using selected_terminal [of st] by (cases ?tab; cases "activeMuxTerminalId st") simp_all
    ultimately show ?thesis using s_ok Some unfolding r by (simp add: selectionOk_def)
  qed
qed

section \<open>The store as a machine\<close>

datatype mux_op =
    MergeSnapshot "app_session list" "mux_terminal list" "session_tab list" bool revision_snapshot
  | Replace "app_session list" "mux_terminal list" "session_tab list"
  | ReplaceSession app_session "mux_terminal list" "session_tab list option"
  | ReplaceTab session_tab
  | ReplaceTerminal mux_terminal
  | ReplaceTerminalIfNewer mux_terminal
  | StageTerminalClose string
  | StageTabClose string
  | ConfirmClose bool string int
  | RollbackClose bool string int
  | ClearPendingCloses
  | SetConnection connection
  | SelectSession string
  | SelectTab string
  | SelectMuxTerminal string
  | Apply mux_event

fun mux_step :: "mux_op \<Rightarrow> mux_store \<Rightarrow> mux_store" where
  "mux_step (MergeSnapshot ss ts tabs has base) st = mergeSnapshot ss ts tabs has base st"
| "mux_step (Replace ss ts tabs) st = replaceAll ss ts tabs st"
| "mux_step (ReplaceSession s ts tabs) st = replaceSession s ts tabs st"
| "mux_step (ReplaceTab t) st = replaceTab t st"
| "mux_step (ReplaceTerminal t) st = replaceMuxTerminal t st"
| "mux_step (ReplaceTerminalIfNewer t) st = replaceMuxTerminalIfNewer t st"
| "mux_step (StageTerminalClose i) st = snd (stageTerminalClose i st)"
| "mux_step (StageTabClose i) st = snd (stageTabClose i st)"
| "mux_step (ConfirmClose b i m) st = confirmClose b i m st"
| "mux_step (RollbackClose b i m) st = rollbackClose b i m st"
| "mux_step ClearPendingCloses st = clearPendingCloses st"
| "mux_step (SetConnection c) st = setConnection c st"
| "mux_step (SelectSession i) st = selectSession i st"
| "mux_step (SelectTab i) st = selectTab i st"
| "mux_step (SelectMuxTerminal i) st = selectMuxTerminal i st"
| "mux_step (Apply ev) st = snd (applyEvent ev st)"

lemma replaceAll_ok: "selectionOk (replaceAll ss ts tabs st)"
  by (simp add: replaceAll_def Let_def reconcile_ok)

text \<open>
  The three selections set the selection without a reconciliation. They are harmless when they name something that is shown:
  a session that resolves to a visible one, a listed tab of a visible session, a listed terminal of such a tab.
\<close>

fun namesShown :: "mux_op \<Rightarrow> mux_store \<Rightarrow> bool" where
  "namesShown (SelectSession i) st = (case resolveSessionId st i of None \<Rightarrow> True | Some r \<Rightarrow> r \<in> set (visibleSessionIds st))"
| "namesShown (SelectTab i) st =
     (case jget (tabsById st) i of None \<Rightarrow> False
      | Some t \<Rightarrow> tabSessionId t \<in> set (visibleSessionIds st) \<and> i \<in> set (idsIn (visibleTabIdsBySession st) (tabSessionId t)))"
| "namesShown (SelectMuxTerminal i) st =
     (case jget (terminalsById st) i of None \<Rightarrow> False
      | Some t \<Rightarrow> trmSessionId t \<in> set (visibleSessionIds st) \<and> (case tabIdForTerminal st t of None \<Rightarrow> True
          | Some tab \<Rightarrow> tab \<in> set (idsIn (visibleTabIdsBySession st) (trmSessionId t)) \<and> i \<in> set (idsIn (terminalIdsByTab st) tab)))"
| "namesShown _ st = True"

fun selectsShown :: "mux_op list \<Rightarrow> mux_store \<Rightarrow> bool" where
  "selectsShown [] st = True"
| "selectsShown (op # ops) st = (namesShown op st \<and> selectsShown ops (mux_step op st))"

text \<open>The operations that reconcile the selection whatever it was.\<close>

definition reconciles :: "mux_op \<Rightarrow> mux_store \<Rightarrow> bool" where
  "reconciles op st \<longleftrightarrow> (case op of
       MergeSnapshot _ _ _ _ _ \<Rightarrow> True | Replace _ _ _ \<Rightarrow> True | ReplaceSession _ _ _ \<Rightarrow> True
     | Apply ev \<Rightarrow> knownRevision st (eventEntity ev) < eventRevision ev
     | _ \<Rightarrow> False)"

lemma reconciles_ok: "reconciles op st \<Longrightarrow> selectionOk (mux_step op st)"
  by (cases op) (auto simp: reconciles_def mergeSnapshot_def replaceSession_def applyEvent_def Let_def replaceAll_ok reconcile_ok
      split: option.split prod.split)

lemma select_session_ok: "selectionOk st \<Longrightarrow> namesShown (SelectSession i) st \<Longrightarrow> selectionOk (selectSession i st)"
  using selected_tab [of st] selected_terminal [of st]
  by (auto simp: selectSession_def selectionOk_def Let_def split: option.splits)

lemma select_tab_ok: "selectionOk st \<Longrightarrow> namesShown (SelectTab i) st \<Longrightarrow> selectionOk (selectTab i st)"
  using selected_terminal [of st i]
  by (auto simp: selectTab_def findByLocalKey_def selectionOk_def split: option.splits)

lemma select_terminal_ok: "selectionOk st \<Longrightarrow> namesShown (SelectMuxTerminal i) st \<Longrightarrow> selectionOk (selectMuxTerminal i st)"
  by (auto simp: selectMuxTerminal_def findByLocalKey_def selectionOk_def split: option.splits)

lemma mux_step_ok: "selectionOk st \<Longrightarrow> namesShown op st \<Longrightarrow> selectionOk (mux_step op st)"
proof (cases op)
  case (ConfirmClose b i m)
  then show "selectionOk st \<Longrightarrow> ?thesis"
    by (auto simp: confirmClose_def dropPending_def selectionOk_def)
next
  case (SetConnection c)
  then show "selectionOk st \<Longrightarrow> ?thesis" by (simp add: setConnection_def selectionOk_def)
qed (auto simp: mergeSnapshot_def replaceSession_def replaceTab_def replaceMuxTerminal_def
  replaceMuxTerminalIfNewer_def stageTerminalClose_def stageTabClose_def rollbackClose_def
  clearPendingCloses_def applyEvent_def Let_def replaceAll_ok reconcile_ok select_session_ok select_tab_ok select_terminal_ok
  simp del: namesShown.simps split: option.split prod.split)

lemma run_selection_ok: "selectionOk st \<Longrightarrow> selectsShown ops st \<Longrightarrow> selectionOk (fold mux_step ops st)"
  by (induction ops arbitrary: st) (simp_all add: mux_step_ok)

section \<open>Revisions\<close>

definition knownAt :: "mux_store \<Rightarrow> string \<Rightarrow> int" where
  "knownAt st k = coalesce (jget (revisions st) k) 0"

abbreviation revisions_le :: "mux_store \<Rightarrow> mux_store \<Rightarrow> bool" where
  "revisions_le s t \<equiv> \<forall>k. knownAt s k \<le> knownAt t k"

lemma bump_mono: "coalesce (jget m k) 0 \<le> coalesce (jget (bumpRevisions e rs m) k) (0::int)"
proof (induction rs arbitrary: m)
  case (Cons x rs)
  obtain i r where x: "x = (i, r)" by (cases x)
  have "coalesce (jget m k) 0 \<le>
      coalesce (jget (jset (entityKey e i) (max (coalesce (jget m (entityKey e i)) 0) r) m) k) 0"
    by auto
  from order_trans [OF this Cons.IH] show ?case by (simp add: bumpRevisions_def x)
qed (simp add: bumpRevisions_def)

lemma reconcile_fields [simp]:
  "revisions (reconcileSelection st) = revisions st" "sessionsById (reconcileSelection st) = sessionsById st"
  "tabsById (reconcileSelection st) = tabsById st" "terminalsById (reconcileSelection st) = terminalsById st"
  "pendingTerminalCloses (reconcileSelection st) = pendingTerminalCloses st"
  "pendingTabCloses (reconcileSelection st) = pendingTabCloses st"
  "terminalIdsBySession (reconcileSelection st) = terminalIdsBySession st"
  "terminalIdsByTab (reconcileSelection st) = terminalIdsByTab st"
  "visibleTabIdsBySession (reconcileSelection st) = visibleTabIdsBySession st"
  "visibleSessionIds (reconcileSelection st) = visibleSessionIds st"
  "nextCloseMutationId (reconcileSelection st) = nextCloseMutationId st"
  by (auto simp: reconcileSelection_def Let_def split: option.split)

lemma rebuildTerminal_fields [simp]:
  "revisions (rebuildTerminalIndexes st) = revisions st" "sessionsById (rebuildTerminalIndexes st) = sessionsById st"
  "tabsById (rebuildTerminalIndexes st) = tabsById st" "terminalsById (rebuildTerminalIndexes st) = terminalsById st"
  "pendingTerminalCloses (rebuildTerminalIndexes st) = pendingTerminalCloses st"
  "pendingTabCloses (rebuildTerminalIndexes st) = pendingTabCloses st"
  "visibleTabIdsBySession (rebuildTerminalIndexes st) = visibleTabIdsBySession st"
  "visibleSessionIds (rebuildTerminalIndexes st) = visibleSessionIds st"
  by (simp_all add: rebuildTerminalIndexes_def Let_def split: prod.split)

lemma rebuildVisible_fields [simp]:
  "revisions (rebuildVisibleTabs st) = revisions st" "sessionsById (rebuildVisibleTabs st) = sessionsById st"
  "tabsById (rebuildVisibleTabs st) = tabsById st" "terminalsById (rebuildVisibleTabs st) = terminalsById st"
  "pendingTerminalCloses (rebuildVisibleTabs st) = pendingTerminalCloses st"
  "pendingTabCloses (rebuildVisibleTabs st) = pendingTabCloses st"
  "revisions (rebuildVisibleSessions st) = revisions st" "sessionsById (rebuildVisibleSessions st) = sessionsById st"
  "tabsById (rebuildVisibleSessions st) = tabsById st" "terminalsById (rebuildVisibleSessions st) = terminalsById st"
  by (simp_all add: rebuildVisibleTabs_def rebuildVisibleSessions_def)

lemma clear_fields [simp]:
  "revisions (clearAuthoritativelyFinishedCloses st) = revisions st"
  "sessionsById (clearAuthoritativelyFinishedCloses st) = sessionsById st"
  "tabsById (clearAuthoritativelyFinishedCloses st) = tabsById st"
  "terminalsById (clearAuthoritativelyFinishedCloses st) = terminalsById st"
  by (simp_all add: clearAuthoritativelyFinishedCloses_def)

lemma upsert_revisions [simp]: "revisions (upsertTerminal t st) = revisions st"
  by (simp add: upsertTerminal_def updateTerminalIndexes_def Let_def case_prod_beta)

lemma applyPayload_revisions [simp]: "revisions (applyPayload ev st) = revisions st"
  by (cases ev) (simp_all add: Let_def followSession_def followTab_def split: option.split)

lemma replaceAll_le: "revisions_le st (replaceAll ss ts tabs st)"
  unfolding replaceAll_def Let_def knownAt_def
  by (auto intro: order_trans [OF bump_mono order_trans [OF bump_mono bump_mono]])

lemma merge_le: "revisions_le st (mergeSnapshot ss ts tabs has base st)"
  unfolding mergeSnapshot_def Let_def knownAt_def
  by (auto intro: order_trans [OF bump_mono order_trans [OF bump_mono order_trans [OF bump_mono
    order_trans [OF bump_mono order_trans [OF bump_mono bump_mono]]]]])

lemma apply_revisions:
  assumes "eventEntity ev = (e, i)"
  shows "knownAt (snd (applyEvent ev st)) k =
    (if eventRevision ev \<le> knownRevision st (e, i) then knownAt st k
     else if k = entityKey e i then eventRevision ev else knownAt st k)"
  using assms by (simp add: applyEvent_def Let_def knownAt_def)

lemma mux_step_le: "revisions_le st (mux_step op st)"
proof (cases op)
  case (Apply ev)
  obtain e i where ei: "eventEntity ev = (e, i)" by fastforce
  show ?thesis unfolding Apply mux_step.simps apply_revisions [OF ei]
    by (auto simp: knownRevision_def knownAt_def)
qed (use replaceAll_le merge_le in \<open>auto simp: replaceSession_def replaceTab_def replaceMuxTerminal_def
  replaceMuxTerminalIfNewer_def stageTerminalClose_def stageTabClose_def rollbackClose_def confirmClose_def
  dropPending_def setConnection_def clearPendingCloses_def selectSession_def selectTab_def selectMuxTerminal_def
  Let_def knownAt_def split: option.split\<close>)

interpretation mux_machine: monotone_machine mux_step "\<lambda>_. True" revisions_le
  by unfold_locales (use mux_step_le in \<open>auto intro: order_trans\<close>)

section \<open>Merging a snapshot\<close>

lemma jget_fold_map:
  assumes "jwf xs"
  shows "jget (fold (\<lambda>(i, x) m. jset i (f i x) m) xs []) k = map_option (f k) (jget xs k)"
proof -
  have "fold (\<lambda>(i, x) m. jset i (f i x) m) xs [] = jofList (map (\<lambda>(i, x). (i, f i x)) xs)"
  proof -
    have "fold (\<lambda>(i, x) m. jset i (f i x) m) xs m = fold (\<lambda>(k, v) m. jset k v m) (map (\<lambda>(i, x). (i, f i x)) xs) m" for m
      by (induction xs arbitrary: m) auto
    then show ?thesis by (simp add: jofList_def)
  qed
  also have "\<dots> = map (\<lambda>(i, x). (i, f i x)) xs"
    using assms by (intro jofList_distinct) (simp add: comp_def case_prod_beta)
  finally have "jget (fold (\<lambda>(i, x) m. jset i (f i x) m) xs []) k = jget (map (\<lambda>(i, x). (i, f i x)) xs) k"
    by simp
  also have "\<dots> = map_option (f k) (jget xs k)" by (induction xs) auto
  finally show ?thesis .
qed

lemma jget_fold_when:
  assumes "jwf xs"
  shows "jget (fold (\<lambda>(i, x) m. if P i then m else if Q i x then jset i x m else m) xs m) k =
    (case jget xs k of Some x \<Rightarrow> if \<not> P k \<and> Q k x then Some x else jget m k | None \<Rightarrow> jget m k)"
  using assms
proof (induction xs arbitrary: m)
  case (Cons y ys)
  obtain i x where y: "y = (i, x)" by (cases y)
  have "jget ys i = None" using Cons.prems by (simp add: y map_of_eq_None_iff)
  with Cons show ?case by (auto simp: y split: option.split)
qed simp

lemma jget_mergeEntities:
  assumes "jwf current" and "jwf incoming"
  shows "jget (mergeEntities revOf current incoming baseline) k =
    (case jget incoming k of
       Some inc \<Rightarrow> Some (case jget current k of
           Some c \<Rightarrow> if revOf c > revOf inc then c else inc | None \<Rightarrow> inc)
     | None \<Rightarrow> (case jget current k of
         Some c \<Rightarrow> if revOf c > coalesce (jget baseline k) 0 then Some c else None
       | None \<Rightarrow> None))"
  by (auto simp: mergeEntities_def Let_def jget_fold_when [OF assms(1)]
      jget_fold_map [OF assms(2), where f = "\<lambda>i inc. case jget current i of
            Some c \<Rightarrow> if revOf c > revOf inc then c else inc | None \<Rightarrow> inc"]
      jhas_iff split: option.split)

lemma jwf_fold_when: "jwf m \<Longrightarrow> jwf (fold (\<lambda>(i, x) m. if P i then m else if Q i x then jset i x m else m) xs m)"
  by (induction xs arbitrary: m) (auto simp: distinct_update)

lemma jwf_fold_map: "jwf m \<Longrightarrow> jwf (fold (\<lambda>(i, x) m. jset i (f i x) m) xs m)"
  by (induction xs arbitrary: m) (auto simp: distinct_update)

lemma jwf_mergeEntities [simp]: "jwf (mergeEntities revOf current incoming baseline)"
  unfolding mergeEntities_def Let_def by (intro jwf_fold_when jwf_fold_map) simp

text \<open>The keys of the three entity maps are the ids of their values.\<close>

definition keyed :: "('v \<Rightarrow> string) \<Rightarrow> (string, 'v) jsmap \<Rightarrow> bool" where
  "keyed idOf m \<longleftrightarrow> jwf m \<and> list_all (\<lambda>(i, v). idOf v = i) m"

lemma keyed_get: "keyed idOf m \<Longrightarrow> jget m i = Some v \<Longrightarrow> idOf v = i"
  by (auto simp: keyed_def list_all_iff dest: map_of_SomeD)

lemma keyedI: "jwf m \<Longrightarrow> (\<And>i v. jget m i = Some v \<Longrightarrow> idOf v = i) \<Longrightarrow> keyed idOf m"
  by (auto simp: keyed_def list_all_iff map_of_distinct_in)

lemma keyed_jset:
  assumes "keyed idOf m" and "idOf v = k"
  shows "keyed idOf (jset k v m)"
proof (rule keyedI)
  show "jwf (jset k v m)" using assms(1) by (simp add: keyed_def)
  show "idOf w = i" if "jget (jset k v m) i = Some w" for i w
    using that assms(2) keyed_get [OF assms(1)] by (auto split: if_splits)
qed

lemma keyed_jofList: "keyed idOf (jofList (map (\<lambda>v. (idOf v, v)) vs))"
proof (rule keyedI)
  fix i v
  assume "jget (jofList (map (\<lambda>v. (idOf v, v)) vs)) i = Some v"
  then show "idOf v = i" by (auto simp: jget_jofList dest!: map_of_SomeD)
qed simp

lemma keyed_merge:
  assumes "keyed idOf current" and "keyed idOf incoming"
  shows "keyed idOf (mergeEntities revOf current incoming baseline)"
proof (rule keyedI)
  fix i v
  have j: "jwf current" "jwf incoming" using assms by (simp_all add: keyed_def)
  assume "jget (mergeEntities revOf current incoming baseline) i = Some v"
  then show "idOf v = i"
    using keyed_get [OF assms(1)] keyed_get [OF assms(2)]
    by (auto simp: jget_mergeEntities [OF j] split: option.splits if_splits)
qed simp

definition wfStore :: "mux_store \<Rightarrow> bool" where
  "wfStore st \<longleftrightarrow> keyed sesId (sessionsById st) \<and> keyed tabIdOf (tabsById st) \<and> keyed trmId (terminalsById st)"

lemma wfStore_empty: "wfStore emptyMuxStore"
  by (simp add: wfStore_def emptyMuxStore_def keyed_def)

lemma merge_sessions:
  "sessionsById (mergeSnapshot ss ts tabs has base st) =
     mergeEntities sesRev (sessionsById st) (jofList (map (\<lambda>v. (sesId v, v)) ss)) (snapSessions base)"
  by (simp add: mergeSnapshot_def Let_def)

lemma merge_terminals:
  "terminalsById (mergeSnapshot ss ts tabs has base st) =
     mergeEntities trmRevision (terminalsById st) (jofList (map (\<lambda>v. (trmId v, v)) ts)) (snapTerminals base)"
  by (simp add: mergeSnapshot_def Let_def)

lemma merge_tabs:
  "tabsById (mergeSnapshot ss ts tabs has base st) =
     addFallbackTabs (jvalues (sessionsById (mergeSnapshot ss ts tabs has base st)))
       (if has then mergeEntities tabRev (tabsById st) (jofList (map (\<lambda>v. (tabIdOf v, v)) tabs)) (snapTabs base)
        else tabsById st)"
  by (simp add: mergeSnapshot_def Let_def)

lemma keyed_addFallback: "keyed tabIdOf m \<Longrightarrow> keyed tabIdOf (addFallbackTabs ss m)"
  unfolding addFallbackTabs_def by (induction ss arbitrary: m) (auto simp: keyed_jset)

lemma applyPayload_sessions:
  "sessionsById (applyPayload ev st) =
     (case ev of SessionEvent tag r ts s \<Rightarrow> jset (sesId s) s (sessionsById st) | _ \<Rightarrow> sessionsById st)"
  by (cases ev) (simp_all add: Let_def followSession_def followTab_def upsertTerminal_def
      updateTerminalIndexes_def case_prod_beta split: option.split)

lemma applyPayload_tabs:
  "tabsById (applyPayload ev st) =
     (case ev of TabEvent tag r ts t \<Rightarrow> jset (tabIdOf t) t (tabsById st) | _ \<Rightarrow> tabsById st)"
  by (cases ev) (simp_all add: Let_def followSession_def followTab_def upsertTerminal_def
      updateTerminalIndexes_def case_prod_beta split: option.split)

lemma upsert_terminals [simp]: "terminalsById (upsertTerminal t st) = jset (trmId t) t (terminalsById st)"
  by (simp add: upsertTerminal_def updateTerminalIndexes_def Let_def case_prod_beta)

lemma keyed_applyPayload:
  assumes "keyed trmId (terminalsById st)"
  shows "keyed trmId (terminalsById (applyPayload ev st))"
proof -
  have "keyed trmId (terminalsById (upsertTerminal t s))" if "terminalsById s = terminalsById st" for t s
    using assms that by (simp add: keyed_jset)
  with assms show ?thesis
    by (cases ev) (auto simp: Let_def followSession_def followTab_def keyed_jset split: option.split)
qed

lemma replaceAll_wf: "wfStore (replaceAll ss ts tabs st)"
  unfolding wfStore_def replaceAll_def Let_def by (simp add: keyed_jofList)

lemma pending_irrelevant [simp]:
  "wfStore (st\<lparr>pendingTerminalCloses := a\<rparr>) = wfStore st" "wfStore (st\<lparr>pendingTabCloses := b\<rparr>) = wfStore st"
  "wfStore (st\<lparr>nextCloseMutationId := n\<rparr>) = wfStore st" "wfStore (st\<lparr>connection := c\<rparr>) = wfStore st"
  "wfStore (st\<lparr>revisions := r\<rparr>) = wfStore st"
  "wfStore (st\<lparr>activeSessionId := x, activeTabId := y, activeMuxTerminalId := z\<rparr>) = wfStore st"
  "wfStore (reconcileSelection st) = wfStore st" "wfStore (rebuildVisibleTabs st) = wfStore st"
  "wfStore (rebuildTerminalIndexes st) = wfStore st"
  by (simp_all add: wfStore_def)

lemma mux_step_wf: "wfStore st \<Longrightarrow> wfStore (mux_step op st)"
proof (cases op)
  case (MergeSnapshot ss ts tabs has base)
  assume "wfStore st"
  then show ?thesis
    unfolding MergeSnapshot mux_step.simps wfStore_def merge_sessions merge_terminals merge_tabs
    by (simp add: keyed_merge keyed_jofList keyed_addFallback)
next
  case (Apply ev)
  assume "wfStore st"
  moreover have "wfStore (applyPayload ev s)" if "wfStore s" for s
    using that keyed_applyPayload [of s ev]
    by (auto simp: wfStore_def applyPayload_sessions applyPayload_tabs keyed_jset split: mux_event.split)
  ultimately show ?thesis unfolding Apply by (auto simp: applyEvent_def Let_def split: prod.split)
next
  case (ReplaceTab t)
  assume "wfStore st"
  then have "wfStore (st\<lparr>tabsById := jset (tabIdOf t) t (tabsById st)\<rparr>)"
    by (simp add: wfStore_def keyed_jset)
  with \<open>wfStore st\<close> show ?thesis
    unfolding ReplaceTab by (auto simp: replaceTab_def Let_def split: option.split)
qed (auto simp: replaceSession_def replaceMuxTerminal_def replaceMuxTerminalIfNewer_def stageTerminalClose_def
  stageTabClose_def rollbackClose_def confirmClose_def dropPending_def setConnection_def clearPendingCloses_def
  selectSession_def selectTab_def selectMuxTerminal_def Let_def replaceAll_wf split: option.split)

interpretation mux_maps: event_machine mux_step wfStore
  by unfold_locales (rule mux_step_wf)

section \<open>The incremental index update\<close>

text \<open>
  One axis of the indexes (by tab or by session) at a time: \<open>key\<close> says under which id a terminal is
  listed, \<open>indexes\<close> that the lists hold exactly the terminals listed there.
\<close>

definition indexed :: "(mux_terminal \<Rightarrow> string option) \<Rightarrow> mux_terminal list \<Rightarrow> (string, string list) jsmap \<Rightarrow> bool" where
  "indexed key ts m \<longleftrightarrow> (\<forall>k. mset (idsIn m k) = mset (map trmId (filter (\<lambda>t. key t = Some k) ts)))"

definition removeOpt :: "string option \<Rightarrow> string \<Rightarrow> (string, string list) jsmap \<Rightarrow> (string, string list) jsmap" where
  "removeOpt j x m = (case j of None \<Rightarrow> m | Some k \<Rightarrow> removeFrom k x m)"

definition addOpt :: "string option \<Rightarrow> string \<Rightarrow> (string, string list) jsmap \<Rightarrow> (string, string list) jsmap" where
  "addOpt j x m = (case j of None \<Rightarrow> m | Some k \<Rightarrow> addId k x m)"

lemma idsIn_addId [simp]: "idsIn (addId k x m) j = (if j = k then idsIn m k @ [x] else idsIn m j)"
  by (simp add: idsIn_def addId_def)

lemma idsIn_removeFrom [simp]:
  "idsIn (removeFrom k x m) j = (if j = k then filter (\<lambda>i. i \<noteq> x) (idsIn m k) else idsIn m j)"
  by (simp add: idsIn_def removeFrom_def)

lemma idsIn_map: "idsIn (map (\<lambda>(k, ids). (k, f k ids)) m) j = (if jhas m j then f j (idsIn m j) else [])"
  by (induction m) (auto simp: idsIn_def jhas_def)

lemma idsIn_absent: "\<not> jhas m j \<Longrightarrow> idsIn m j = []"
  by (simp add: idsIn_def jhas_iff)

lemma idsIn_sortIds [simp]: "idsIn (sortIds pos m) j = sort_key pos (idsIn m j)"
  by (cases "jhas m j") (simp_all add: sortIds_def idsIn_map [of "\<lambda>k. sort_key pos"] idsIn_absent)

lemma idsIn_sortTouched [simp]:
  "idsIn (sortTouched pos touched m) j = (if j \<in> set touched then sort_key pos (idsIn m j) else idsIn m j)"
proof -
  have "sortTouched pos touched m =
      map (\<lambda>(k, ids). (k, (\<lambda>k ids. if k \<in> set touched then sort_key pos ids else ids) k ids)) m"
    by (simp add: sortTouched_def)
  then show ?thesis by (simp only: idsIn_map) (simp add: idsIn_absent)
qed

lemma idsIn_empties: "idsIn (jofList (map (\<lambda>i. (f i, [])) xs)) k = []"
  by (auto simp: idsIn_def jget_jofList coalesce_def dest!: map_of_SomeD split: option.split)

lemma idsIn_fold:
  "idsIn (fold (\<lambda>t m. addOpt (key t) (trmId t) m) ts m) k =
     idsIn m k @ map trmId (filter (\<lambda>t. key t = Some k) ts)"
  by (induction ts arbitrary: m) (auto simp: addOpt_def split: option.split)

definition sessionKey :: "mux_store \<Rightarrow> mux_terminal \<Rightarrow> string option" where
  "sessionKey st t = (if listedTab st t = None then None else Some (trmSessionId t))"

lemma rebuild_fold:
  "fold (\<lambda>t (s, b). case listedTab st t of
        None \<Rightarrow> (s, b)
      | Some i \<Rightarrow> (addId (trmSessionId t) (trmId t) s, addId i (trmId t) b)) ts (s, b) =
     (fold (\<lambda>t m. addOpt (sessionKey st t) (trmId t) m) ts s,
      fold (\<lambda>t m. addOpt (listedTab st t) (trmId t) m) ts b)"
  by (induction ts arbitrary: s b) (auto simp: addOpt_def sessionKey_def split: option.split)

lemma rebuild_ids:
  "idsIn (terminalIdsByTab (rebuildTerminalIndexes st)) k =
     sort_key (terminalPos st) (map trmId (filter (\<lambda>t. listedTab st t = Some k) (jvalues (terminalsById st))))"
  "idsIn (terminalIdsBySession (rebuildTerminalIndexes st)) k =
     sort_key (terminalPos st) (map trmId (filter (\<lambda>t. sessionKey st t = Some k) (jvalues (terminalsById st))))"
  by (simp_all add: rebuildTerminalIndexes_def rebuild_fold idsIn_fold idsIn_empties)

text \<open>The state's indexes hold what a rebuild would give, in an order by position.\<close>

definition axisAgrees :: "(string \<Rightarrow> int) \<Rightarrow> (string, string list) jsmap \<Rightarrow> (string, string list) jsmap \<Rightarrow> string \<Rightarrow> bool" where
  "axisAgrees pos m m' k \<longleftrightarrow> mset (idsIn m k) = mset (idsIn m' k) \<and> sorted (map pos (idsIn m k))"

definition indexAgrees :: "mux_store \<Rightarrow> string \<Rightarrow> bool" where
  "indexAgrees st k \<longleftrightarrow>
     axisAgrees (terminalPos st) (terminalIdsByTab st) (terminalIdsByTab (rebuildTerminalIndexes st)) k \<and>
     axisAgrees (terminalPos st) (terminalIdsBySession st) (terminalIdsBySession (rebuildTerminalIndexes st)) k"

lemma axis_update:
  assumes idx: "indexed key ts m" and srt: "\<forall>k. sorted (map pos (idsIn m k))"
    and rm: "\<forall>p \<in> set ts. \<forall>k. trmId p = trmId t \<longrightarrow> key p = Some k \<longrightarrow> rmk = Some k"
    and ts': "mset ts' = mset (filter (\<lambda>u. trmId u \<noteq> trmId t) ts) + {#t#}"
    and pos: "\<forall>i. i \<noteq> trmId t \<longrightarrow> pos' i = pos i"
    and touched: "set touched = set_option rmk \<union> set_option (key t)"
  defines "m' \<equiv> sortTouched pos' touched (addOpt (key t) (trmId t) (removeOpt rmk (trmId t) m))"
  shows "indexed key ts' m'" and "sorted (map pos' (idsIn m' k))"
proof -
  let ?A = "filter (\<lambda>u. trmId u \<noteq> trmId t) ts"
  have removed: "mset (idsIn (removeOpt rmk (trmId t) m) k) = mset (map trmId (filter (\<lambda>u. key u = Some k) ?A))" for k
  proof -
    have old: "mset (idsIn m k) = mset (map trmId (filter (\<lambda>u. key u = Some k) ts))"
      using idx by (simp add: indexed_def)
    have "mset (filter (\<lambda>i. i \<noteq> trmId t) (idsIn m k)) = mset (map trmId (filter (\<lambda>u. key u = Some k) ?A))"
      unfolding mset_filter old by (simp add: filter_mset_image_mset mset_filter filter_filter_mset conj_commute)
    moreover have "filter (\<lambda>i. i \<noteq> trmId t) (idsIn m k) = idsIn m k" if "rmk \<noteq> Some k"
    proof (rule filter_True, rule ballI, rule notI)
      fix i assume "i \<in> set (idsIn m k)" "i = trmId t"
      then have "trmId t \<in> set (map trmId (filter (\<lambda>u. key u = Some k) ts))"
        using old by (metis set_mset_mset)
      then show False using rm that by auto
    qed
    ultimately show ?thesis
      by (cases "rmk = Some k") (auto simp: removeOpt_def split: option.split)
  qed
  have member: "mset (idsIn m' k) = mset (map trmId (filter (\<lambda>u. key u = Some k) ts'))" for k
  proof -
    have "mset (idsIn m' k) = mset (idsIn (addOpt (key t) (trmId t) (removeOpt rmk (trmId t) m)) k)"
      by (simp add: m'_def)
    also have "\<dots> = mset (map trmId (filter (\<lambda>u. key u = Some k) ?A)) + (if key t = Some k then {#trmId t#} else {#})"
      using removed [of k] by (auto simp: addOpt_def split: option.split)
    also have "\<dots> = mset (map trmId (filter (\<lambda>u. key u = Some k) ts'))"
      unfolding mset_map mset_filter ts' by simp
    finally show ?thesis .
  qed
  then show "indexed key ts' m'" by (simp add: indexed_def)
  show "sorted (map pos' (idsIn m' k))"
  proof (cases "k \<in> set touched")
    case True
    then show ?thesis by (simp add: m'_def)
  next
    case False
    then have k: "rmk \<noteq> Some k" "key t \<noteq> Some k" using touched by auto
    then have same: "idsIn m' k = idsIn m k"
      using False by (auto simp: m'_def addOpt_def removeOpt_def split: option.split)
    have "trmId t \<notin> set (idsIn m k)"
    proof
      assume "trmId t \<in> set (idsIn m k)"
      then have "trmId t \<in> set (map trmId (filter (\<lambda>u. key u = Some k) ts))"
        using idx unfolding indexed_def by (metis set_mset_mset)
      then show False using rm k by auto
    qed
    then have "pos' i = pos i" if "i \<in> set (idsIn m k)" for i using that pos by metis
    then have eq: "map pos' (idsIn m k) = map pos (idsIn m k)" by simp
    show ?thesis unfolding same eq by (rule srt [THEN spec])
  qed
qed

lemma indexed_rebuild_iff:
  "indexed (listedTab st) (jvalues (terminalsById st)) m \<longleftrightarrow>
     (\<forall>k. mset (idsIn m k) = mset (idsIn (terminalIdsByTab (rebuildTerminalIndexes st)) k))"
  "indexed (sessionKey st) (jvalues (terminalsById st)) m \<longleftrightarrow>
     (\<forall>k. mset (idsIn m k) = mset (idsIn (terminalIdsBySession (rebuildTerminalIndexes st)) k))"
  by (simp_all add: indexed_def rebuild_ids)

lemma indexAgrees_iff:
  "(\<forall>k. indexAgrees st k) \<longleftrightarrow>
     indexed (listedTab st) (jvalues (terminalsById st)) (terminalIdsByTab st) \<and>
     indexed (sessionKey st) (jvalues (terminalsById st)) (terminalIdsBySession st) \<and>
     (\<forall>k. sorted (map (terminalPos st) (idsIn (terminalIdsByTab st) k)) \<and>
          sorted (map (terminalPos st) (idsIn (terminalIdsBySession st) k)))"
  unfolding indexed_rebuild_iff by (auto simp: indexAgrees_def axisAgrees_def)

lemma tabIdForTerminal_terminals [simp]:
  "tabIdForTerminal (st\<lparr>terminalsById := ts\<rparr>) t = tabIdForTerminal st t"
  by (simp add: tabIdForTerminal_def cong: option.case_cong)

lemma listedTab_terminals [simp]:
  "listedTab (st\<lparr>terminalsById := ts\<rparr>) t = listedTab st t"
  "sessionKey (st\<lparr>terminalsById := ts\<rparr>) t = sessionKey st t"
  by (simp_all add: sessionKey_def listedTab_def tabIdForTerminal_def tabClosed_def cong: option.case_cong)

lemma listedTab_indexes [simp]:
  "listedTab (st\<lparr>terminalIdsBySession := a, terminalIdsByTab := b\<rparr>) t = listedTab st t"
  "sessionKey (st\<lparr>terminalIdsBySession := a, terminalIdsByTab := b\<rparr>) t = sessionKey st t"
  "terminalPos (st\<lparr>terminalIdsBySession := a, terminalIdsByTab := b\<rparr>) = terminalPos st"
  by (simp_all add: sessionKey_def listedTab_def tabIdForTerminal_def tabClosed_def terminalPos_def fun_eq_iff
      cong: option.case_cong)

lemma values_jset:
  assumes "keyed trmId m"
  shows "mset (jvalues (jset (trmId t) t m)) = mset (filter (\<lambda>u. trmId u \<noteq> trmId t) (jvalues m)) + {#t#}"
  using assms
proof (induction m)
  case (Cons x m)
  obtain i v where x: "x = (i, v)" by (cases x)
  have k: "trmId v = i" "keyed trmId m" "i \<notin> fst ` set m"
    using Cons.prems by (auto simp: keyed_def x)
  show ?case
  proof (cases "i = trmId t")
    case True
    have "filter (\<lambda>u. trmId u \<noteq> trmId t) (jvalues m) = jvalues m"
      using k True by (fastforce simp: filter_id_conv jvalues_def keyed_def list_all_iff image_iff)
    with True k show ?thesis by (simp add: x jvalues_def)
  next
    case False
    with Cons.IH [OF k(2)] k(1) show ?thesis by (simp add: x jvalues_def)
  qed
qed (simp add: jvalues_def)

lemma values_ids:
  assumes "keyed trmId m" and "p \<in> set (jvalues m)"
  shows "jget m (trmId p) = Some p"
  using assms by (auto simp: jvalues_def keyed_def list_all_iff)

text \<open>Where the previous version of a terminal is removed from, on each axis.\<close>

definition removedTab :: "mux_store \<Rightarrow> mux_terminal option \<Rightarrow> string option" where
  "removedTab st previous = (case previous of None \<Rightarrow> None
     | Some p \<Rightarrow> if truthy (trmArchivedAt p) then None else tabIdForTerminal st p)"

definition removedSession :: "mux_terminal option \<Rightarrow> string option" where
  "removedSession previous = (case previous of None \<Rightarrow> None
     | Some p \<Rightarrow> if truthy (trmArchivedAt p) then None else Some (trmSessionId p))"

definition optList :: "'a option \<Rightarrow> 'a list" where
  "optList x = (case x of None \<Rightarrow> [] | Some v \<Rightarrow> [v])"

lemma set_optList [simp]: "set (optList x) = set_option x"
  by (cases x) (auto simp: optList_def)

lemma insert_axes:
  "insertTerminal st t ((s, b), (ks, kb)) =
     ((addOpt (sessionKey st t) (trmId t) s, addOpt (listedTab st t) (trmId t) b),
      (optList (sessionKey st t) @ ks, optList (listedTab st t) @ kb))"
  by (cases "listedTab st t") (simp_all add: insertTerminal_def sessionKey_def addOpt_def optList_def)

lemma remove_axes:
  "removeTerminal st p ((s, b), (ks, kb)) =
     ((removeOpt (removedSession (Some p)) (trmId p) s, removeOpt (removedTab st (Some p)) (trmId p) b),
      (optList (removedSession (Some p)) @ ks, optList (removedTab st (Some p)) @ kb))"
  by (cases "truthy (trmArchivedAt p)"; cases "tabIdForTerminal st p")
    (simp_all add: removeTerminal_def removedSession_def removedTab_def removeOpt_def optList_def Let_def)

lemma update_axes:
  assumes "\<And>p. previous = Some p \<Longrightarrow> trmId p = trmId t"
  shows "updateTerminalIndexes previous t st =
    st\<lparr>terminalIdsBySession := sortTouched (terminalPos st)
         (optList (sessionKey st t) @ optList (removedSession previous))
         (addOpt (sessionKey st t) (trmId t) (removeOpt (removedSession previous) (trmId t) (terminalIdsBySession st))),
       terminalIdsByTab := sortTouched (terminalPos st)
         (optList (listedTab st t) @ optList (removedTab st previous))
         (addOpt (listedTab st t) (trmId t) (removeOpt (removedTab st previous) (trmId t) (terminalIdsByTab st)))\<rparr>"
proof (cases previous)
  case None
  then show ?thesis
    by (simp add: updateTerminalIndexes_def insert_axes Let_def removedSession_def removedTab_def removeOpt_def
        optList_def)
next
  case (Some p)
  with assms show ?thesis
    by (simp add: updateTerminalIndexes_def insert_axes remove_axes Let_def)
qed

lemma listedTab_removed:
  "listedTab st p = Some k \<Longrightarrow> removedTab st (Some p) = Some k"
  "sessionKey st p = Some k \<Longrightarrow> removedSession (Some p) = Some k"
  by (auto simp: listedTab_def removedTab_def removedSession_def sessionKey_def split: if_splits option.splits)

lemma upsert_agrees:
  assumes w: "wfStore st" and a: "\<forall>k. indexAgrees st k"
  shows "\<forall>k. indexAgrees (upsertTerminal t st) k"
proof -
  let ?i = "trmId t" and ?p = "jget (terminalsById st) (trmId t)"
  let ?st1 = "st\<lparr>terminalsById := jset ?i t (terminalsById st)\<rparr>"
  let ?ts = "jvalues (terminalsById st)" and ?ts' = "jvalues (jset ?i t (terminalsById st))"
  have k: "keyed trmId (terminalsById st)" using w by (simp add: wfStore_def)
  have prev: "?p = Some p" if "p \<in> set ?ts" "trmId p = ?i" for p
    using values_ids [OF k that(1)] that(2) by simp
  have prev_id: "trmId p = ?i" if "?p = Some p" for p using keyed_get [OF k that] .
  have pos: "\<forall>i. i \<noteq> ?i \<longrightarrow> terminalPos ?st1 i = terminalPos st i"
    by (simp add: terminalPos_def)
  note vals = values_jset [OF k, of t]
  note idx = a [unfolded indexAgrees_iff]
  show ?thesis
  proof (cases "case ?p of
               None \<Rightarrow> True
             | Some p \<Rightarrow> trmSessionId p \<noteq> trmSessionId t \<or> trmTabId p \<noteq> trmTabId t \<or>
                 trmArchivedAt p \<noteq> trmArchivedAt t \<or> trmPosition p \<noteq> trmPosition t")
    case True
    then have u: "upsertTerminal t st = updateTerminalIndexes ?p t ?st1"
      by (simp add: upsertTerminal_def Let_def)
    have sorted: "\<forall>j. sorted (map (terminalPos st) (idsIn (terminalIdsByTab st) j))"
      "\<forall>j. sorted (map (terminalPos st) (idsIn (terminalIdsBySession st) j))"
      using idx by simp_all
    have rm: "\<forall>p \<in> set ?ts. \<forall>j. trmId p = ?i \<longrightarrow> listedTab st p = Some j \<longrightarrow> removedTab st ?p = Some j"
      "\<forall>p \<in> set ?ts. \<forall>j. trmId p = ?i \<longrightarrow> sessionKey st p = Some j \<longrightarrow> removedSession ?p = Some j"
      using listedTab_removed prev by auto
    have touched: "set (optList x @ optList y) = set_option y \<union> set_option x" for x y :: "string option"
      by auto
    note tab = axis_update [OF idx [THEN conjunct1] sorted(1) rm(1) vals pos touched]
    note ses = axis_update [OF idx [THEN conjunct2, THEN conjunct1] sorted(2) rm(2) vals pos touched]
    have rt: "removedTab ?st1 ?p = removedTab st ?p"
      by (cases ?p) (simp_all add: removedTab_def)
    let ?b = "sortTouched (terminalPos ?st1) (optList (listedTab st t) @ optList (removedTab st ?p))
      (addOpt (listedTab st t) ?i (removeOpt (removedTab st ?p) ?i (terminalIdsByTab st)))"
    let ?s = "sortTouched (terminalPos ?st1) (optList (sessionKey st t) @ optList (removedSession ?p))
      (addOpt (sessionKey st t) ?i (removeOpt (removedSession ?p) ?i (terminalIdsBySession st)))"
    have new: "upsertTerminal t st = ?st1\<lparr>terminalIdsBySession := ?s, terminalIdsByTab := ?b\<rparr>"
      using update_axes [of ?p t ?st1, OF prev_id] unfolding u rt listedTab_terminals by simp
    have fields: "terminalIdsByTab (upsertTerminal t st) = ?b" "terminalIdsBySession (upsertTerminal t st) = ?s"
      "terminalPos (upsertTerminal t st) = terminalPos ?st1" "listedTab (upsertTerminal t st) = listedTab st"
      "sessionKey (upsertTerminal t st) = sessionKey st"
      unfolding new listedTab_indexes(3) by (simp_all only: listedTab_indexes listedTab_terminals fun_eq_iff) simp_all
    show ?thesis
      unfolding indexAgrees_iff fields upsert_terminals using tab ses by blast
  next
    case False
    then obtain p where p: "?p = Some p" "trmSessionId p = trmSessionId t" "trmTabId p = trmTabId t"
      "trmArchivedAt p = trmArchivedAt t" "trmPosition p = trmPosition t"
      by (auto split: option.splits)
    have u: "upsertTerminal t st = ?st1" using False by (simp add: upsertTerminal_def Let_def)
    have posn: "terminalPos ?st1 = terminalPos st"
      using p by (auto simp: terminalPos_def fun_eq_iff)
    have same: "listedTab st p = listedTab st t" "sessionKey st p = sessionKey st t"
      using p prev_id [OF p(1)] by (simp_all add: listedTab_def sessionKey_def tabIdForTerminal_def)
    have pin: "p \<in> set ?ts" using p(1) by (auto simp: jvalues_def dest!: map_of_SomeD intro: rev_image_eqI)
    have "mset (map trmId (filter (\<lambda>u. key u = Some j) ?ts')) = mset (map trmId (filter (\<lambda>u. key u = Some j) ?ts))"
      if "key p = key t" for key :: "mux_terminal \<Rightarrow> string option" and j
    proof -
      have "mset ?ts = mset (filter (\<lambda>u. trmId u \<noteq> ?i) ?ts) + {#p#}"
        using values_jset [OF k, of p] prev_id [OF p(1)] p(1) by (simp add: update_triv)
      from arg_cong [OF this, of "\<lambda>M. image_mset trmId (filter_mset (\<lambda>u. key u = Some j) M)"]
        arg_cong [OF vals, of "\<lambda>M. image_mset trmId (filter_mset (\<lambda>u. key u = Some j) M)"]
      show ?thesis
        unfolding mset_map mset_filter using that prev_id [OF p(1)] by (simp only: filter_union_mset image_mset_union) simp
    qed
    then have "indexed (listedTab st) ?ts' m = indexed (listedTab st) ?ts m"
      "indexed (sessionKey st) ?ts' m = indexed (sessionKey st) ?ts m" for m
      using same by (simp_all add: indexed_def)
    moreover have "listedTab ?st1 = listedTab st" "sessionKey ?st1 = sessionKey st"
      by (simp_all add: fun_eq_iff)
    ultimately show ?thesis using idx unfolding u indexAgrees_iff posn by simp
  qed
qed

section \<open>Staged closes\<close>

text \<open>What a rebuild reads of the state.\<close>

definition sameSources :: "mux_store \<Rightarrow> mux_store \<Rightarrow> bool" where
  "sameSources s t \<longleftrightarrow> sessionsById s = sessionsById t \<and> tabsById s = tabsById t \<and>
     terminalsById s = terminalsById t \<and> visibleSessionIds s = visibleSessionIds t \<and>
     pendingTerminalCloses s = pendingTerminalCloses t \<and> pendingTabCloses s = pendingTabCloses t"

lemma rebuildTerminal_cong:
  assumes "sameSources s t" and "visibleTabIdsBySession s = visibleTabIdsBySession t"
  shows "terminalIdsByTab (rebuildTerminalIndexes s) = terminalIdsByTab (rebuildTerminalIndexes t)"
    and "terminalIdsBySession (rebuildTerminalIndexes s) = terminalIdsBySession (rebuildTerminalIndexes t)"
proof -
  have "terminalPos s = terminalPos t" "listedTab s = listedTab t"
    using assms by (auto simp: sameSources_def terminalPos_def listedTab_def tabIdForTerminal_def tabClosed_def
        fun_eq_iff cong: option.case_cong)
  with assms show "terminalIdsByTab (rebuildTerminalIndexes s) = terminalIdsByTab (rebuildTerminalIndexes t)"
    "terminalIdsBySession (rebuildTerminalIndexes s) = terminalIdsBySession (rebuildTerminalIndexes t)"
    by (simp_all add: rebuildTerminalIndexes_def sameSources_def Let_def case_prod_beta)
qed

lemma rebuild_cong:
  assumes "sameSources s t"
  shows "terminalIdsByTab (rebuildVisibleTabs s) = terminalIdsByTab (rebuildVisibleTabs t)"
    and "terminalIdsBySession (rebuildVisibleTabs s) = terminalIdsBySession (rebuildVisibleTabs t)"
    and "visibleTabIdsBySession (rebuildVisibleTabs s) = visibleTabIdsBySession (rebuildVisibleTabs t)"
proof -
  have "tabPos s = tabPos t" using assms by (auto simp: sameSources_def tabPos_def fun_eq_iff)
  with assms have v: "visibleTabs s (jvalues (tabsById s)) = visibleTabs t (jvalues (tabsById t))"
    by (simp add: visibleTabs_def sameSources_def)
  then show "visibleTabIdsBySession (rebuildVisibleTabs s) = visibleTabIdsBySession (rebuildVisibleTabs t)"
    by (simp add: rebuildVisibleTabs_def)
  have "sameSources (s\<lparr>visibleTabIdsBySession := x\<rparr>) (t\<lparr>visibleTabIdsBySession := x\<rparr>)" for x
    using assms by (simp add: sameSources_def)
  from rebuildTerminal_cong [OF this] v
  show "terminalIdsByTab (rebuildVisibleTabs s) = terminalIdsByTab (rebuildVisibleTabs t)"
    "terminalIdsBySession (rebuildVisibleTabs s) = terminalIdsBySession (rebuildVisibleTabs t)"
    by (simp_all add: rebuildVisibleTabs_def)
qed

lemma stage_rollback:
  assumes "stageTerminalClose i st = (Some m, st')"
  shows "sameSources (rollbackClose True i m st') st"
    and "selectionOk (rollbackClose True i m st')"
    and "terminalIdsByTab (rollbackClose True i m st') = terminalIdsByTab (rebuildVisibleTabs st)"
    and "terminalIdsBySession (rollbackClose True i m st') = terminalIdsBySession (rebuildVisibleTabs st)"
proof -
  from assms obtain st0 where st': "st' = reconcileSelection (rebuildTerminalIndexes st0)"
    and st0: "st0 = st\<lparr>nextCloseMutationId := m + 1, pendingTerminalCloses := jset i m (pendingTerminalCloses st)\<rparr>"
    and fresh: "i \<notin> set (map fst (pendingTerminalCloses st))"
    by (auto simp: stageTerminalClose_def Let_def jhas_def split: option.splits if_splits)
  have undo: "jdelete i (jset i m (pendingTerminalCloses st)) = pendingTerminalCloses st"
    using fresh by (simp add: jset_absent jdelete_filter filter_id_conv image_iff) force
  have pend: "pendingTerminalCloses st' = jset i m (pendingTerminalCloses st)" by (simp add: st' st0)
  then have r: "rollbackClose True i m st' = reconcileSelection (rebuildVisibleTabs (dropPending True i st'))"
    by (simp add: rollbackClose_def pendingOf_def)
  have same: "sameSources (dropPending True i st') st"
    using undo by (simp add: sameSources_def dropPending_def pend) (simp add: st' st0)
  have "sameSources (rebuildVisibleTabs (dropPending True i st')) (dropPending True i st')"
    by (simp add: sameSources_def rebuildVisibleTabs_def)
  with same show "sameSources (rollbackClose True i m st') st"
    unfolding r by (simp add: sameSources_def)
  show "selectionOk (rollbackClose True i m st')" unfolding r by (rule reconcile_ok)
  show "terminalIdsByTab (rollbackClose True i m st') = terminalIdsByTab (rebuildVisibleTabs st)"
    "terminalIdsBySession (rollbackClose True i m st') = terminalIdsBySession (rebuildVisibleTabs st)"
    unfolding r using rebuild_cong [OF same] by simp_all
qed

lemma stage_hides:
  assumes "stageTerminalClose i st = (Some m, st')"
  shows "i \<notin> set (idsIn (terminalIdsByTab st') k)" and "i \<notin> set (idsIn (terminalIdsBySession st') k)"
proof -
  from assms obtain st0 where st': "st' = reconcileSelection (rebuildTerminalIndexes st0)"
    and p: "jhas (pendingTerminalCloses st0) i"
    by (auto simp: stageTerminalClose_def Let_def jhas_iff split: option.splits if_splits)
  have "listedTab st0 t = None" if "trmId t = i" for t
    using p that by (simp add: listedTab_def)
  then have "listedTab st0 t \<noteq> Some k \<and> sessionKey st0 t \<noteq> Some k" if "trmId t = i" for t
    using that by (simp add: sessionKey_def)
  then show "i \<notin> set (idsIn (terminalIdsByTab st') k)" "i \<notin> set (idsIn (terminalIdsBySession st') k)"
    by (auto simp: st' rebuild_ids)
qed

section \<open>Properties\<close>

definition demo_session :: app_session where
  "demo_session = \<lparr>sesId = ''ses-a'', sesTitle = ''A'', sesPosition = 0, sesActiveTabId = None,
     sesActiveMuxTerminalId = None, sesRevision = Some 3, sesCreatedAt = ''t0'', sesUpdatedAt = ''t0'',
     sesArchivedAt = None\<rparr>"

definition demo_output :: terminal_output where
  "demo_output = \<lparr>terminalInstanceId = ''i'', ptyId = None, historyId = None, processIdentity = None,
     generation = 1, processState = PRunning, activityState = AIdle, replayAvailable = True, exitCode = None,
     truncated = False\<rparr>"

definition demo_terminal :: mux_terminal where
  "demo_terminal = \<lparr>trmId = ''term-x'', trmSessionId = ''ses-a'', trmTabId = None, trmTitle = ''sh'',
     trmPosition = 0, trmStatus = Running, trmShellArgs = None, trmInputRevision = 0, trmOutput = demo_output,
     trmError = None, trmRevision = 5, trmCreatedAt = ''t0'', trmUpdatedAt = ''t0'', trmStartedAt = None,
     trmFinishedAt = None, trmArchivedAt = None\<rparr>"

definition demo_store :: mux_store where
  "demo_store = replaceAll [demo_session] [demo_terminal] [] emptyMuxStore"

text \<open>
  C24: The selection points at what is shown: a visible session if there is one, a visible tab of it if it has any, a terminal
  listed under that tab if there is one. This holds after any sequence of snapshots, events, replacements, staged closes,
  confirmations, rollbacks and selections, on a new store, provided that what is selected explicitly is shown at that moment;
  and a snapshot, a replacement or a new event makes it hold again whatever was selected before.
\<close>

theorem mux_selection_ok:
  assumes "start = emptyMuxStore \<or> (\<exists>op st. reconciles op st \<and> start = mux_step op st)" and "selectsShown ops start"
  shows "selectionOk (fold mux_step ops start)"
proof -
  have "selectionOk emptyMuxStore" by (simp add: emptyMuxStore_def selectionOk_def)
  then have "selectionOk start" using assms(1) reconciles_ok by blast
  then show ?thesis using assms(2) by (rule run_selection_ok)
qed

theorem mux_selection_ok_witness:
  "selectionOk (fold mux_step [SelectSession ''ses-a'', SelectMuxTerminal ''term-x''] (mux_step (Replace [demo_session] [demo_terminal] []) emptyMuxStore))"
proof (rule mux_selection_ok)
  show "mux_step (Replace [demo_session] [demo_terminal] []) emptyMuxStore = emptyMuxStore \<or>
      (\<exists>op st. reconciles op st \<and> mux_step (Replace [demo_session] [demo_terminal] []) emptyMuxStore = mux_step op st)"
    by (intro disjI2 exI [of _ "Replace [demo_session] [demo_terminal] []"] exI [of _ emptyMuxStore]) (simp add: reconciles_def)
  show "selectsShown [SelectSession ''ses-a'', SelectMuxTerminal ''term-x''] (mux_step (Replace [demo_session] [demo_terminal] []) emptyMuxStore)"
    by code_simp
qed

text \<open>
  Why that proviso is needed: a tab selected by an alias of its id, and a session selected after it was archived, are
  not among those shown.
\<close>

lemma select_alias_hidden:
  "activeTabId (selectTab ''a'' demo_store) = Some ''a'' \<and> \<not> List.member (idsIn (visibleTabIdsBySession (selectTab ''a'' demo_store)) ''ses-a'') ''a''"
  by code_simp

lemma select_archived_hidden:
  "activeSessionId (selectSession ''ses-b'' (replaceAll [demo_session, demo_session\<lparr>sesId := ''ses-b'', sesArchivedAt := Some ''t1''\<rparr>] [] [] emptyMuxStore))
     = Some ''ses-b''
   \<and> visibleSessionIds (selectSession ''ses-b'' (replaceAll [demo_session, demo_session\<lparr>sesId := ''ses-b'', sesArchivedAt := Some ''t1''\<rparr>] [] [] emptyMuxStore))
     = [''ses-a'']"
  by code_simp

text \<open>
  C25: An event that was accepted once is ignored when it is delivered again, whatever snapshots,
  events or local changes came in between: it reports no gap and leaves the store as it is.
\<close>

theorem applyEvent_once:
  fixes ops :: "mux_op list"
  assumes "knownRevision st (eventEntity ev) < eventRevision ev"
  defines "later \<equiv> fold mux_step ops (snd (applyEvent ev st))"
  shows "applyEvent ev later = (None, later)"
proof -
  obtain e i where ei: "eventEntity ev = (e, i)" by fastforce
  from mux_machine.run_le [OF TrueI]
  have "knownAt (snd (applyEvent ev st)) (entityKey e i) \<le> knownAt later (entityKey e i)"
    unfolding later_def by blast
  moreover have "knownAt (snd (applyEvent ev st)) (entityKey e i) = eventRevision ev"
    using assms(1) by (simp add: apply_revisions [OF ei] ei)
  ultimately have "eventRevision ev \<le> knownRevision later (e, i)"
    by (simp add: knownRevision_def knownAt_def)
  then show ?thesis by (simp add: applyEvent_def ei)
qed

theorem applyEvent_once_witness:
  "(let ev = SessionEvent SessionUpdated 9 ''t1'' demo_session;
        later = fold mux_step [ClearPendingCloses, Replace [] [] []] (snd (applyEvent ev emptyMuxStore))
    in applyEvent ev later = (None, later))"
proof -
  have "knownRevision emptyMuxStore (eventEntity (SessionEvent SessionUpdated 9 ''t1'' demo_session))
      < eventRevision (SessionEvent SessionUpdated 9 ''t1'' demo_session)"
    by (simp add: knownRevision_def emptyMuxStore_def)
  then show ?thesis unfolding Let_def by (rule applyEvent_once)
qed

text \<open>
  Merging a snapshot never replaces an entity by an older version, takes every incoming one that
  is not older, keeps an omitted one exactly when it changed after the baseline was captured, and
  drops the rest. This is the whole content of the merged sessions and terminals.
\<close>

theorem mergeSnapshot_entities:
  fixes ss :: "app_session list" and ts :: "mux_terminal list" and tabs :: "session_tab list"
    and has :: bool and base :: revision_snapshot
  assumes "wfStore st"
  defines "r \<equiv> mergeSnapshot ss ts tabs has base st"
  shows "jget (terminalsById r) i =
      (case map_of (rev (map (\<lambda>v. (trmId v, v)) ts)) i of
         Some inc \<Rightarrow> Some (case jget (terminalsById st) i of
             Some c \<Rightarrow> if trmRevision c > trmRevision inc then c else inc | None \<Rightarrow> inc)
       | None \<Rightarrow> (case jget (terminalsById st) i of
             Some c \<Rightarrow> if trmRevision c > coalesce (jget (snapTerminals base) i) 0 then Some c else None
           | None \<Rightarrow> None)) \<and>
    jget (sessionsById r) i =
      (case map_of (rev (map (\<lambda>v. (sesId v, v)) ss)) i of
         Some inc \<Rightarrow> Some (case jget (sessionsById st) i of
             Some c \<Rightarrow> if sesRev c > sesRev inc then c else inc | None \<Rightarrow> inc)
       | None \<Rightarrow> (case jget (sessionsById st) i of
             Some c \<Rightarrow> if sesRev c > coalesce (jget (snapSessions base) i) 0 then Some c else None
           | None \<Rightarrow> None))"
  using assms(1) unfolding r_def wfStore_def keyed_def merge_terminals merge_sessions
  by (simp add: jget_mergeEntities jget_jofList)

lemma demo_store_wf: "wfStore demo_store"
  by (simp add: demo_store_def replaceAll_wf)

lemma demo_store_terminals: "terminalsById demo_store = [(''term-x'', demo_terminal)]"
  by (simp add: demo_store_def replaceAll_def Let_def demo_terminal_def jofList_def)

theorem mergeSnapshot_entities_witness:
  "jget (terminalsById (mergeSnapshot [] [] [] True (captureRevisions demo_store) demo_store)) ''term-x'' = None \<and>
   jget (terminalsById (mergeSnapshot [] [] [] True (captureRevisions emptyMuxStore) demo_store)) ''term-x'' =
     Some demo_terminal"
  using mergeSnapshot_entities [OF demo_store_wf, of "[]" "[]" "[]" True "captureRevisions demo_store" "''term-x''"]
    mergeSnapshot_entities [OF demo_store_wf, of "[]" "[]" "[]" True "captureRevisions emptyMuxStore" "''term-x''"]
  by (simp add: captureRevisions_def demo_store_terminals emptyMuxStore_def jofList_def demo_terminal_def)

text \<open>
  The incremental update of the terminal indexes agrees with a rebuild: when every index list of
  a store holds what a rebuild would list, in order of position, the same is true after a terminal
  is inserted or changed.
\<close>

theorem upsertTerminal_agrees:
  assumes "wfStore st" and "\<forall>k. indexAgrees st k"
  shows "indexAgrees (upsertTerminal t st) k"
  using upsert_agrees [OF assms] by blast

lemma rebuild_agrees: "indexAgrees (reconcileSelection (rebuildTerminalIndexes st)) k"
proof -
  have s: "sameSources (reconcileSelection (rebuildTerminalIndexes st)) st"
    "visibleTabIdsBySession (reconcileSelection (rebuildTerminalIndexes st)) = visibleTabIdsBySession st"
    by (simp_all add: sameSources_def)
  have "terminalPos (reconcileSelection (rebuildTerminalIndexes st)) = terminalPos st"
    by (simp add: terminalPos_def fun_eq_iff)
  then show ?thesis
    unfolding indexAgrees_def axisAgrees_def rebuildTerminal_cong [OF s] by (simp add: rebuild_ids)
qed

theorem upsertTerminal_agrees_witness:
  "indexAgrees (upsertTerminal (demo_terminal\<lparr>trmPosition := 4\<rparr>) demo_store) ''tab-a''"
  by (rule upsertTerminal_agrees [OF demo_store_wf])
    (simp add: demo_store_def replaceAll_def Let_def rebuild_agrees)

text \<open>
  Staging the close of a terminal hides it in every index, and rolling back restores the store's
  entities, visible sessions and pending closes and every index to what a rebuild of the store
  before the staging gives.
\<close>

theorem stageTerminalClose_rollback:
  assumes "stageTerminalClose i st = (Some m, st')"
  shows "i \<notin> set (idsIn (terminalIdsByTab st') k) \<and> i \<notin> set (idsIn (terminalIdsBySession st') k) \<and>
    sameSources (rollbackClose True i m st') st \<and>
    terminalIdsByTab (rollbackClose True i m st') = terminalIdsByTab (rebuildVisibleTabs st) \<and>
    terminalIdsBySession (rollbackClose True i m st') = terminalIdsBySession (rebuildVisibleTabs st)"
  using stage_hides [OF assms] stage_rollback [OF assms] by blast

theorem stageTerminalClose_rollback_witness:
  "\<exists>st'. stageTerminalClose ''term-x'' demo_store = (Some 1, st') \<and>
     sameSources (rollbackClose True ''term-x'' 1 st') demo_store"
proof -
  have "nextCloseMutationId demo_store = 1" "pendingTerminalCloses demo_store = []"
    by (simp_all add: demo_store_def replaceAll_def Let_def rebuildTerminalIndexes_def
        clearAuthoritativelyFinishedCloses_def emptyMuxStore_def case_prod_beta)
  then obtain st' where s: "stageTerminalClose ''term-x'' demo_store = (Some 1, st')"
    by (simp add: stageTerminalClose_def demo_store_terminals demo_terminal_def jhas_def Let_def)
  from stageTerminalClose_rollback [OF s] s show ?thesis by blast
qed

end
