(* ===== verification/FairScheduler.thy ===== *)
theory FairScheduler
  imports Prelude "HOL-Library.Sublist"
begin

text \<open>
  The weighted deficit round-robin scheduler of the terminal worker pool,
  \<open>packages/ghostty-react/src/worker/fair-scheduler.ts\<close>. Dispatching is an output: \<open>pump\<close> returns
  the commands it hands to the worker, in order. The lemmas show that the byte, command and in-flight
  counters are exactly what the lanes hold and stay within their limits, that each terminal's commands
  are dispatched in the order they were accepted, and that a pump over a lane whose head fits the
  budget of its rounds dispatches something.
\<close>

section \<open>State\<close>

record worker_priority =
  visible :: bool
  focused :: bool

datatype completion_key = KeyString string | KeyNumber int

record 'v pending_command =
  pvalue :: 'v
  pbytes :: int
  pkey :: completion_key

record 'v lane =
  queue :: "'v pending_command list"
  priority :: worker_priority
  deficit :: int
  inFlightKey :: "completion_key option"

record 'v fair_scheduler =
  lanes :: "(string, 'v lane) jsmap"
  order :: "string list"
  cursor :: nat
  bytes :: int
  commands :: int
  inFlight :: int
  scheduled :: bool

definition maxBytes :: int where
  "maxBytes = 32 * 1024 * 1024"

definition maxCommands :: int where
  "maxCommands = 8192"

definition maxInFlight :: int where
  "maxInFlight = 8"

definition quantumBytes :: int where
  "quantumBytes = 64 * 1024"

definition weight :: "worker_priority \<Rightarrow> int" where
  "weight p = (if visible p \<and> focused p then 8 else if visible p then 4 else 1)"

definition emptyScheduler :: "'v fair_scheduler" where
  "emptyScheduler = \<lparr>lanes = [], order = [], cursor = 0, bytes = 0, commands = 0, inFlight = 0, scheduled = False\<rparr>"

section \<open>Operations\<close>

text \<open>\<open>schedule\<close> queues a microtask once; running it is \<open>runMicrotask\<close>.\<close>

definition schedule :: "'v fair_scheduler \<Rightarrow> 'v fair_scheduler" where
  "schedule s = (if scheduled s then s else s\<lparr>scheduled := True\<rparr>)"

datatype scheduler_error = SchedulerFull

definition enqueue :: "string \<Rightarrow> 'v \<Rightarrow> int \<Rightarrow> worker_priority \<Rightarrow> completion_key \<Rightarrow> 'v fair_scheduler
    \<Rightarrow> scheduler_error + 'v fair_scheduler" where
  "enqueue terminalId v nbytes p key s =
     (let cost = max 1 nbytes in
      if bytes s + cost > maxBytes \<or> commands s + 1 > maxCommands then Inl SchedulerFull
      else (let (l, ord) = (case jget (lanes s) terminalId of
              Some l \<Rightarrow> (l, order s)
            | None \<Rightarrow> (\<lparr>queue = [], priority = p, deficit = 0, inFlightKey = None\<rparr>, order s @ [terminalId]));
          l' = l\<lparr>priority := p, queue := queue l @ [\<lparr>pvalue = v, pbytes = cost, pkey = key\<rparr>]\<rparr>
        in Inr (schedule (s\<lparr>lanes := jset terminalId l' (lanes s), order := ord,
             bytes := bytes s + cost, commands := commands s + 1\<rparr>))))"

definition setPriority :: "string \<Rightarrow> worker_priority \<Rightarrow> 'v fair_scheduler \<Rightarrow> 'v fair_scheduler" where
  "setPriority terminalId p s =
     (case jget (lanes s) terminalId of
        None \<Rightarrow> s
      | Some l \<Rightarrow> s\<lparr>lanes := jset terminalId (l\<lparr>priority := p\<rparr>) (lanes s)\<rparr>)"

definition dropLane :: "string \<Rightarrow> 'v fair_scheduler \<Rightarrow> 'v fair_scheduler" where
  "dropLane terminalId s =
     (let ord = filter (\<lambda>i. i \<noteq> terminalId) (order s)
      in s\<lparr>lanes := jdelete terminalId (lanes s), order := ord, cursor := cursor s mod max 1 (length ord)\<rparr>)"

definition cleanup :: "string \<Rightarrow> 'v lane \<Rightarrow> 'v fair_scheduler \<Rightarrow> 'v fair_scheduler" where
  "cleanup terminalId l s = (if inFlightKey l \<noteq> None \<or> queue l \<noteq> [] then s else dropLane terminalId s)"

definition complete :: "string \<Rightarrow> completion_key \<Rightarrow> 'v fair_scheduler \<Rightarrow> 'v fair_scheduler" where
  "complete terminalId key s =
     (case jget (lanes s) terminalId of
        None \<Rightarrow> s
      | Some l \<Rightarrow>
          if inFlightKey l \<noteq> Some key then s
          else (let l' = l\<lparr>inFlightKey := None\<rparr>
                in schedule (cleanup terminalId l'
                     (s\<lparr>lanes := jset terminalId l' (lanes s), inFlight := inFlight s - 1\<rparr>))))"

definition cancel :: "string \<Rightarrow> 'v fair_scheduler \<Rightarrow> 'v fair_scheduler" where
  "cancel terminalId s =
     (case jget (lanes s) terminalId of
        None \<Rightarrow> s
      | Some l \<Rightarrow> dropLane terminalId
          (s\<lparr>bytes := bytes s - sum_list (map pbytes (queue l)),
             commands := commands s - int (length (queue l)),
             inFlight := (if inFlightKey l \<noteq> None then inFlight s - 1 else inFlight s)\<rparr>))"

definition reset :: "'v fair_scheduler \<Rightarrow> 'v fair_scheduler" where
  "reset s = s\<lparr>lanes := [], order := [], cursor := 0, bytes := 0, commands := 0, inFlight := 0\<rparr>"

text \<open>One round of the loop in \<open>pump\<close>: the command dispatched, if any.\<close>

definition pumpStep :: "'v fair_scheduler \<Rightarrow> (string \<times> 'v) list \<times> 'v fair_scheduler" where
  "pumpStep s =
     (let s1 = s\<lparr>cursor := (cursor s + 1) mod length (order s)\<rparr> in
      if \<not> cursor s < length (order s) \<or> order s ! cursor s = [] then ([], s1)
      else (let t = order s ! cursor s in
        case jget (lanes s) t of
          None \<Rightarrow> ([], s1)
        | Some l \<Rightarrow>
            (case queue l of
               [] \<Rightarrow> ([], s1)
             | p # ps \<Rightarrow>
                 if inFlightKey l \<noteq> None then ([], s1)
                 else (let d = deficit l + quantumBytes * weight (priority l) in
                   if pbytes p > d then ([], s1\<lparr>lanes := jset t (l\<lparr>deficit := d\<rparr>) (lanes s)\<rparr>)
                   else ([(t, pvalue p)],
                     s1\<lparr>lanes := jset t (l\<lparr>queue := ps, deficit := d - pbytes p, inFlightKey := Some (pkey p)\<rparr>) (lanes s),
                        bytes := bytes s - pbytes p, commands := commands s - 1, inFlight := inFlight s + 1\<rparr>)))))"

text \<open>The first argument is how many attempts are left.\<close>

fun pumpLoop :: "nat \<Rightarrow> 'v fair_scheduler \<Rightarrow> (string \<times> 'v) list \<times> 'v fair_scheduler" where
  "pumpLoop 0 s = ([], s)"
| "pumpLoop (Suc n) s =
     (if inFlight s < maxInFlight
      then (let (d, s1) = pumpStep s; (ds, s2) = pumpLoop n s1 in (d @ ds, s2))
      else ([], s))"

definition dispatchable :: "'v lane \<Rightarrow> bool" where
  "dispatchable l \<longleftrightarrow> inFlightKey l = None \<and> queue l \<noteq> []"

definition pump :: "'v fair_scheduler \<Rightarrow> (string \<times> 'v) list \<times> 'v fair_scheduler" where
  "pump s =
     (if order s = [] \<or> inFlight s \<ge> maxInFlight then ([], s)
      else (let (ds, s1) = pumpLoop (length (order s) * 32) s
            in (ds, if inFlight s1 < maxInFlight \<and> list_ex dispatchable (jvalues (lanes s1))
                    then schedule s1 else s1)))"

definition runMicrotask :: "'v fair_scheduler \<Rightarrow> (string \<times> 'v) list \<times> 'v fair_scheduler" where
  "runMicrotask s = (if scheduled s then pump (s\<lparr>scheduled := False\<rparr>) else ([], s))"

section \<open>Invariant\<close>

definition laneBytes :: "'v lane \<Rightarrow> int" where
  "laneBytes l = sum_list (map pbytes (queue l))"

definition laneCommands :: "'v lane \<Rightarrow> int" where
  "laneCommands l = int (length (queue l))"

definition laneInFlight :: "'v lane \<Rightarrow> int" where
  "laneInFlight l = (if inFlightKey l = None then 0 else 1)"

definition laneOk :: "'v lane \<Rightarrow> bool" where
  "laneOk l \<longleftrightarrow> list_all (\<lambda>p. 1 \<le> pbytes p) (queue l) \<and> 0 \<le> deficit l"

text \<open>The counters are what the lanes hold, within the limits; the order lists the lanes.\<close>

definition wfScheduler :: "'v fair_scheduler \<Rightarrow> bool" where
  "wfScheduler s \<longleftrightarrow>
     jwf (lanes s) \<and> order s = jkeys (lanes s) \<and> cursor s < max 1 (length (order s)) \<and>
     list_all laneOk (jvalues (lanes s)) \<and>
     bytes s = jsum laneBytes (lanes s) \<and> commands s = jsum laneCommands (lanes s) \<and>
     inFlight s = jsum laneInFlight (lanes s) \<and>
     bytes s \<le> maxBytes \<and> commands s \<le> maxCommands \<and> inFlight s \<le> maxInFlight"

lemmas lane_defs = laneBytes_def laneCommands_def laneInFlight_def laneOk_def

lemma jvalues_jset: "set (jvalues (jset k v m)) \<subseteq> insert v (set (jvalues m))"
  by (induction m) (auto simp: jvalues_def)

lemma laneOk_get: "list_all laneOk (jvalues m) \<Longrightarrow> jget m t = Some l \<Longrightarrow> laneOk l"
  by (force simp: jvalues_def list_all_iff dest: map_of_SomeD)

lemma laneOk_jset: "list_all laneOk (jvalues m) \<Longrightarrow> laneOk l \<Longrightarrow> list_all laneOk (jvalues (jset t l m))"
  using jvalues_jset [of t l m] by (auto simp: list_all_iff)

lemma laneOk_jdelete: "list_all laneOk (jvalues m) \<Longrightarrow> list_all laneOk (jvalues (jdelete t m))"
  by (auto simp: list_all_iff jvalues_def jdelete_filter)

lemma jhas_get: "jget m k = Some v \<Longrightarrow> jhas m k"
  by (simp add: jhas_iff)

text \<open>Replacing a lane that exists.\<close>

lemma wf_update_lane:
  assumes w: "wfScheduler s" and l: "jget (lanes s) t = Some l" and ok: "laneOk l'"
    and s': "lanes s' = jset t l' (lanes s)" "order s' = order s" "cursor s' < max 1 (length (order s))"
    and b: "bytes s' = bytes s - laneBytes l + laneBytes l'" "bytes s' \<le> maxBytes"
    and c: "commands s' = commands s - laneCommands l + laneCommands l'" "commands s' \<le> maxCommands"
    and i: "inFlight s' = inFlight s - laneInFlight l + laneInFlight l'" "inFlight s' \<le> maxInFlight"
  shows "wfScheduler s'"
  using w l ok s' b c i
  by (auto simp: wfScheduler_def jsum_jset jkeys_jset jhas_get laneOk_jset)

lemma jsum_le:
  assumes "jwf m" and "jget m t = Some l" and "\<And>k v. (k, v) \<in> set m \<Longrightarrow> 0 \<le> f v"
  shows "f l \<le> jsum f m"
proof -
  have "0 \<le> jsum f (jdelete t m)"
    using assms(3) by (intro jsum_nonneg) (auto simp: jdelete_filter)
  with assms(1,2) show ?thesis by (simp add: jsum_jdelete)
qed

lemma laneBytes_nonneg: "laneOk l \<Longrightarrow> 0 \<le> laneBytes l"
  unfolding laneBytes_def by (rule sum_list_nonneg) (auto simp: laneOk_def list_all_iff)

lemma wf_dropLane:
  assumes w: "wfScheduler s" and l: "jget (lanes s) t = Some l"
    and s': "lanes s' = lanes s" "order s' = order s"
      "bytes s' = bytes s - laneBytes l" "commands s' = commands s - laneCommands l"
      "inFlight s' = inFlight s - laneInFlight l"
  shows "wfScheduler (dropLane t s')"
proof -
  have ok: "laneOk l" using w l by (auto simp: wfScheduler_def dest: laneOk_get)
  have "0 \<le> laneBytes l" "0 \<le> laneCommands l" "0 \<le> laneInFlight l"
    using laneBytes_nonneg [OF ok] by (auto simp: laneCommands_def laneInFlight_def)
  moreover have "cursor s' mod max 1 k < max 1 k" for k :: nat by (rule mod_less_divisor) simp
  ultimately show ?thesis
    using w l s' by (auto simp: wfScheduler_def dropLane_def Let_def jsum_jdelete jkeys_jdelete laneOk_jdelete)
qed

lemma schedule_wf [simp]: "wfScheduler (schedule s) \<longleftrightarrow> wfScheduler s"
  by (simp add: schedule_def wfScheduler_def)

lemma enqueue_wf:
  assumes "wfScheduler s" and "enqueue t v nbytes p key s = Inr s'"
  shows "wfScheduler s'"
proof -
  let ?c = "max 1 nbytes" and ?q = "\<lparr>pvalue = v, pbytes = max 1 nbytes, pkey = key\<rparr>"
  have room: "bytes s + ?c \<le> maxBytes" "commands s + 1 \<le> maxCommands"
    using assms(2) by (auto simp: enqueue_def Let_def split: if_splits)
  show ?thesis
  proof (cases "jget (lanes s) t")
    case None
    then have "\<not> jhas (lanes s) t" by (simp add: jhas_iff)
    moreover have "laneOk \<lparr>queue = [?q], priority = p, deficit = 0, inFlightKey = None\<rparr>"
      by (simp add: laneOk_def)
    ultimately show ?thesis
      using assms None room
      by (auto simp: enqueue_def Let_def wfScheduler_def schedule_def jsum_jset jkeys_jset laneOk_jset
          laneBytes_def laneCommands_def laneInFlight_def split: if_splits)
  next
    case (Some l)
    have ok: "laneOk l" using assms(1) Some by (auto simp: wfScheduler_def dest: laneOk_get)
    have s': "s' = schedule (s\<lparr>lanes := jset t (l\<lparr>priority := p, queue := queue l @ [?q]\<rparr>) (lanes s),
        order := order s, bytes := bytes s + ?c, commands := commands s + 1\<rparr>)"
      using assms(2) Some room by (simp add: enqueue_def Let_def)
    show ?thesis
      unfolding s' schedule_wf
      by (rule wf_update_lane [OF assms(1) Some, where l' = "l\<lparr>priority := p, queue := queue l @ [?q]\<rparr>"])
        (use ok room assms(1) in \<open>auto simp: lane_defs wfScheduler_def\<close>)
  qed
qed

lemma setPriority_wf: "wfScheduler s \<Longrightarrow> wfScheduler (setPriority t p s)"
proof (cases "jget (lanes s) t")
  case (Some l)
  assume w: "wfScheduler s"
  have "laneOk l" using w Some by (auto simp: wfScheduler_def dest: laneOk_get)
  then have "wfScheduler (s\<lparr>lanes := jset t (l\<lparr>priority := p\<rparr>) (lanes s)\<rparr>)"
    by (intro wf_update_lane [OF w Some, where l' = "l\<lparr>priority := p\<rparr>"]) (use w in \<open>auto simp: lane_defs wfScheduler_def\<close>)
  with Some show ?thesis by (simp add: setPriority_def)
qed (simp add: setPriority_def)

lemma cancel_wf: "wfScheduler s \<Longrightarrow> wfScheduler (cancel t s)"
proof (cases "jget (lanes s) t")
  case (Some l)
  assume w: "wfScheduler s"
  have "wfScheduler (dropLane t (s\<lparr>bytes := bytes s - sum_list (map pbytes (queue l)),
      commands := commands s - int (length (queue l)),
      inFlight := (if inFlightKey l \<noteq> None then inFlight s - 1 else inFlight s)\<rparr>))"
    by (rule wf_dropLane [OF w Some]) (auto simp: lane_defs)
  with Some show ?thesis by (simp add: cancel_def)
qed (simp add: cancel_def)

lemma reset_wf: "wfScheduler (reset s)"
  by (simp add: wfScheduler_def reset_def jkeys_def jvalues_def maxBytes_def maxCommands_def maxInFlight_def)

lemma complete_wf: "wfScheduler s \<Longrightarrow> wfScheduler (complete t key s)"
proof (cases "jget (lanes s) t")
  case (Some l)
  assume w: "wfScheduler s"
  let ?l = "l\<lparr>inFlightKey := None\<rparr>"
  let ?s = "s\<lparr>lanes := jset t ?l (lanes s), inFlight := inFlight s - 1\<rparr>"
  have ok: "laneOk l" using w Some by (auto simp: wfScheduler_def dest: laneOk_get)
  have "wfScheduler (cleanup t ?l ?s)" if k: "inFlightKey l = Some key"
  proof -
    have u: "wfScheduler ?s"
      by (rule wf_update_lane [OF w Some, where l' = ?l]) (use ok w k in \<open>auto simp: lane_defs wfScheduler_def\<close>)
    have "wfScheduler (dropLane t ?s)" if "queue l = []"
      by (rule wf_dropLane [OF u, of t ?l]) (use that in \<open>auto simp: lane_defs\<close>)
    with u show ?thesis by (simp add: cleanup_def)
  qed
  with w Some show ?thesis by (simp add: complete_def Let_def)
qed (simp add: complete_def)

lemma pumpStep_wf:
  assumes w: "wfScheduler s" and o: "order s \<noteq> []" and f: "inFlight s < maxInFlight"
  shows "wfScheduler (snd (pumpStep s)) \<and> order (snd (pumpStep s)) = order s"
proof -
  have cur: "(cursor s + 1) mod length (order s) < max 1 (length (order s))"
    using o by (cases "order s") (auto simp: max_def)
  have skip: "wfScheduler (s\<lparr>cursor := (cursor s + 1) mod length (order s)\<rparr>)"
    using w cur by (simp add: wfScheduler_def)
  let ?t = "order s ! cursor s"
  show ?thesis
  proof (cases "jget (lanes s) ?t")
    case None
    with skip show ?thesis by (simp add: pumpStep_def Let_def)
  next
    case (Some l)
    have ok: "laneOk l" using w Some by (auto simp: wfScheduler_def dest: laneOk_get)
    have wt: "0 \<le> quantumBytes * weight (priority l)" by (simp add: quantumBytes_def weight_def)
    show ?thesis
    proof (cases "queue l")
      case Nil
      with Some skip show ?thesis by (simp add: pumpStep_def Let_def)
    next
      case (Cons p ps)
      let ?d = "deficit l + quantumBytes * weight (priority l)"
      have b: "1 \<le> pbytes p" "list_all (\<lambda>p. 1 \<le> pbytes p) ps" using ok Cons by (auto simp: laneOk_def)
      have "wfScheduler (s\<lparr>cursor := (cursor s + 1) mod length (order s), lanes := jset ?t (l\<lparr>deficit := ?d\<rparr>) (lanes s)\<rparr>)"
        by (rule wf_update_lane [OF w Some, where l' = "l\<lparr>deficit := ?d\<rparr>"]) (use ok w wt cur in \<open>auto simp: lane_defs wfScheduler_def\<close>)
      moreover have "wfScheduler (s\<lparr>cursor := (cursor s + 1) mod length (order s),
          lanes := jset ?t (l\<lparr>queue := ps, deficit := ?d - pbytes p, inFlightKey := Some (pkey p)\<rparr>) (lanes s),
          bytes := bytes s - pbytes p, commands := commands s - 1, inFlight := inFlight s + 1\<rparr>)"
        if "\<not> pbytes p > ?d" "inFlightKey l = None"
        by (rule wf_update_lane [OF w Some, where
            l' = "l\<lparr>queue := ps, deficit := ?d - pbytes p, inFlightKey := Some (pkey p)\<rparr>"])
          (use that ok w wt cur b Cons f in \<open>auto simp: lane_defs wfScheduler_def\<close>)
      ultimately show ?thesis using Some Cons skip by (simp add: pumpStep_def Let_def)
    qed
  qed
qed

lemma pumpLoop_wf: "wfScheduler s \<Longrightarrow> order s \<noteq> [] \<Longrightarrow>
  wfScheduler (snd (pumpLoop n s)) \<and> order (snd (pumpLoop n s)) = order s"
proof (induction n arbitrary: s)
  case (Suc n)
  show ?case
  proof (cases "inFlight s < maxInFlight")
    case True
    from pumpStep_wf [OF Suc.prems True] Suc.IH [of "snd (pumpStep s)"] Suc.prems(2) True
    show ?thesis by (auto simp: case_prod_beta Let_def)
  next
    case False
    with Suc.prems show ?thesis by simp
  qed
qed simp

lemma pump_wf: "wfScheduler s \<Longrightarrow> wfScheduler (snd (pump s))"
  using pumpLoop_wf [of s "length (order s) * 32"] by (auto simp: pump_def case_prod_beta)

lemma runMicrotask_wf: "wfScheduler s \<Longrightarrow> wfScheduler (snd (runMicrotask s))"
  using pump_wf [of "s\<lparr>scheduled := False\<rparr>"] by (auto simp: runMicrotask_def wfScheduler_def)

section \<open>Order of dispatch\<close>

definition queued :: "'v fair_scheduler \<Rightarrow> string \<Rightarrow> 'v list" where
  "queued s t = (case jget (lanes s) t of None \<Rightarrow> [] | Some l \<Rightarrow> map pvalue (queue l))"

definition valuesFor :: "string \<Rightarrow> (string \<times> 'v) list \<Rightarrow> 'v list" where
  "valuesFor t xs = map snd (filter (\<lambda>x. fst x = t) xs)"

lemma valuesFor_simps [simp]:
  "valuesFor t [] = []" "valuesFor t (xs @ ys) = valuesFor t xs @ valuesFor t ys"
  "valuesFor t [(u, v)] = (if u = t then [v] else [])"
  by (simp_all add: valuesFor_def)

lemma queued_schedule [simp]: "queued (schedule s) t = queued s t"
  by (simp add: queued_def schedule_def)

lemma queued_pumpStep: "valuesFor t (fst (pumpStep s)) @ queued (snd (pumpStep s)) t = queued s t"
  by (auto simp: pumpStep_def Let_def queued_def split: option.split list.split)

lemma queued_pumpLoop: "valuesFor t (fst (pumpLoop n s)) @ queued (snd (pumpLoop n s)) t = queued s t"
proof (induction n arbitrary: s)
  case (Suc n)
  from Suc.IH [of "snd (pumpStep s)"] queued_pumpStep [of t s] show ?case
    by (auto simp: case_prod_beta Let_def)
qed simp

lemma queued_pump: "valuesFor t (fst (pump s)) @ queued (snd (pump s)) t = queued s t"
  using queued_pumpLoop [of t "length (order s) * 32" s] by (auto simp: pump_def case_prod_beta)

lemma queued_microtask: "valuesFor t (fst (runMicrotask s)) @ queued (snd (runMicrotask s)) t = queued s t"
  using queued_pump [of t "s\<lparr>scheduled := False\<rparr>"] by (auto simp: runMicrotask_def queued_def)

lemma queued_enqueue:
  "enqueue u v n p key s = Inr s' \<Longrightarrow> queued s' t = queued s t @ (if u = t then [v] else [])"
  by (auto simp: enqueue_def Let_def queued_def schedule_def split: if_splits option.splits)

lemma queued_setPriority: "queued (setPriority u p s) t = queued s t"
  by (auto simp: setPriority_def queued_def split: option.split)

lemma queued_dropLane: "queued (dropLane u s) t = (if u = t then [] else queued s t)"
  by (simp add: dropLane_def queued_def Let_def)

lemma queued_cancel: "queued (cancel u s) t = (if u = t then [] else queued s t)"
  by (auto simp: cancel_def queued_dropLane split: option.split) (simp_all add: queued_def)

lemma queued_complete: "queued (complete u key s) t = queued s t"
  by (auto simp: complete_def cleanup_def queued_dropLane Let_def split: option.split)
    (auto simp: queued_def)

section \<open>Progress\<close>

text \<open>How often \<open>n\<close> attempts from position \<open>c\<close> visit position \<open>i\<close> of a ring of \<open>len\<close>.\<close>

fun visits :: "nat \<Rightarrow> nat \<Rightarrow> nat \<Rightarrow> nat \<Rightarrow> nat" where
  "visits len i 0 c = 0"
| "visits len i (Suc n) c = (if c = i then 1 else 0) + visits len i n ((c + 1) mod len)"

lemma visits_add: "c < len \<Longrightarrow> visits len i (m + n) c = visits len i m c + visits len i n ((c + m) mod len)"
proof (induction m arbitrary: c)
  case (Suc m)
  have "(c + 1) mod len < len" using Suc.prems by simp
  from Suc.IH [OF this] show ?case by (simp add: mod_add_left_eq)
qed simp

lemma visits_ring:
  "n \<le> len \<Longrightarrow> c < len \<Longrightarrow> i < len \<Longrightarrow>
     visits len i n c = (if (if c \<le> i then i - c else i + len - c) < n then 1 else 0)"
proof (induction n arbitrary: c)
  case (Suc n)
  show ?case
  proof (cases "c + 1 = len")
    case True
    with Suc.IH [of 0] Suc.prems show ?thesis by auto
  next
    case False
    with Suc.IH [of "c + 1"] Suc.prems show ?thesis by auto
  qed
qed simp

lemma visits_rounds: "c < len \<Longrightarrow> i < len \<Longrightarrow> visits len i (r * len) c = r"
proof (induction r)
  case (Suc r)
  have "visits len i (len + r * len) c = visits len i len c + visits len i (r * len) ((c + len) mod len)"
    using Suc.prems by (intro visits_add)
  also have "\<dots> = 1 + r" using Suc visits_ring [of len len c i] by auto
  finally show ?case by simp
qed simp

lemma pumpStep_idle:
  assumes "wfScheduler s" and "fst (pumpStep s) = []"
    and l: "jget (lanes s) t = Some l" "dispatchable l" "queue l = p # ps"
    and t: "t \<noteq> []" "order s ! i = t" "i < length (order s)" "cursor s < length (order s)"
  shows "inFlight (snd (pumpStep s)) = inFlight s" and "cursor (snd (pumpStep s)) = (cursor s + 1) mod length (order s)"
    and "\<exists>l'. jget (lanes (snd (pumpStep s))) t = Some l' \<and> dispatchable l' \<and> queue l' = p # ps \<and>
      deficit l + quantumBytes * (if cursor s = i then 1 else 0) \<le> deficit l' \<and> (cursor s = i \<longrightarrow> deficit l' < pbytes p)"
proof -
  have d: "distinct (order s)" using assms(1) by (simp add: wfScheduler_def jkeys_def)
  then have same: "order s ! cursor s = t \<longleftrightarrow> cursor s = i"
    using t nth_eq_iff_index_eq by blast
  have w: "1 \<le> weight q" for q by (simp add: weight_def)
  show "inFlight (snd (pumpStep s)) = inFlight s" "cursor (snd (pumpStep s)) = (cursor s + 1) mod length (order s)"
    using assms(2) by (auto simp: pumpStep_def Let_def split: option.splits list.splits if_splits)
  show "\<exists>l'. jget (lanes (snd (pumpStep s))) t = Some l' \<and> dispatchable l' \<and> queue l' = p # ps \<and>
      deficit l + quantumBytes * (if cursor s = i then 1 else 0) \<le> deficit l' \<and> (cursor s = i \<longrightarrow> deficit l' < pbytes p)"
  proof (cases "cursor s = i")
    case True
    with assms(2) l t have "snd (pumpStep s) = s\<lparr>cursor := (cursor s + 1) mod length (order s),
        lanes := jset t (l\<lparr>deficit := deficit l + quantumBytes * weight (priority l)\<rparr>) (lanes s)\<rparr>"
      "deficit l + quantumBytes * weight (priority l) < pbytes p"
      by (auto simp: pumpStep_def Let_def dispatchable_def split: if_splits)
    with True l w [of "priority l"] show ?thesis
      by (auto simp: dispatchable_def quantumBytes_def)
  next
    case False
    with same have "order s ! cursor s \<noteq> t" by blast
    then have "jget (lanes (snd (pumpStep s))) t = Some l"
      using l(1) by (auto simp: pumpStep_def Let_def split: option.split list.split)
    with False l show ?thesis by auto
  qed
qed

lemma pumpLoop_idle:
  assumes "wfScheduler s" and "fst (pumpLoop n s) = []" and "inFlight s < maxInFlight"
    and "jget (lanes s) t = Some l" "dispatchable l" "queue l = p # ps"
    and "t \<noteq> []" "order s ! i = t" "i < length (order s)" "cursor s < length (order s)"
    and "0 < visits (length (order s)) i n (cursor s)"
  shows "deficit l + quantumBytes * int (visits (length (order s)) i n (cursor s)) < pbytes p"
  using assms
proof (induction n arbitrary: s l)
  case (Suc n)
  let ?s = "snd (pumpStep s)" and ?len = "length (order s)"
  have empty: "fst (pumpStep s) = []" "fst (pumpLoop n ?s) = []"
    using Suc.prems(2,3) by (auto simp: case_prod_beta Let_def)
  have wf: "wfScheduler ?s" "order ?s = order s"
  proof -
    have "order s \<noteq> []" using Suc.prems(9) by auto
    from pumpStep_wf [OF Suc.prems(1) this Suc.prems(3)]
    show "wfScheduler ?s" "order ?s = order s" by auto
  qed
  note idle = pumpStep_idle [OF Suc.prems(1) empty(1) Suc.prems(4-10)]
  obtain l' where l': "jget (lanes ?s) t = Some l'" "dispatchable l'" "queue l' = p # ps"
    "deficit l + quantumBytes * (if cursor s = i then 1 else 0) \<le> deficit l'" "cursor s = i \<longrightarrow> deficit l' < pbytes p"
    using idle(3) by blast
  have cur: "cursor ?s < length (order ?s)" using idle(2) wf(2) Suc.prems(10) by (auto intro: mod_less_divisor)
  show ?case
  proof (cases "visits ?len i n (cursor ?s) = 0")
    case True
    with Suc.prems(11) l' idle(2) show ?thesis by (auto split: if_splits)
  next
    case False
    have "deficit l' + quantumBytes * int (visits (length (order ?s)) i n (cursor ?s)) < pbytes p"
      by (rule Suc.IH [OF wf(1) empty(2) _ l'(1-3) Suc.prems(7)]) (use wf(2) idle Suc.prems cur False in auto)
    with l'(4) idle(2) wf(2) show ?thesis
      by (auto simp: algebra_simps split: if_splits)
  qed
qed simp

lemma pump_progress:
  assumes w: "wfScheduler s" and f: "inFlight s < maxInFlight"
    and l: "jget (lanes s) t = Some l" "dispatchable l" and t: "t \<noteq> []"
    and small: "pbytes (hd (queue l)) \<le> 32 * quantumBytes"
  shows "fst (pump s) \<noteq> []"
proof
  assume none: "fst (pump s) = []"
  obtain p ps where q: "queue l = p # ps" using l(2) by (cases "queue l") (auto simp: dispatchable_def)
  have "t \<in> set (order s)"
    using w l(1) by (force simp: wfScheduler_def jkeys_def dest: map_of_SomeD)
  then obtain i where i: "i < length (order s)" "order s ! i = t" by (auto simp: in_set_conv_nth)
  then have ne: "order s \<noteq> []" by auto
  moreover have "cursor s < max 1 (length (order s))" using w unfolding wfScheduler_def by blast
  ultimately have cur: "cursor s < length (order s)" by (cases "order s") auto
  have v: "visits (length (order s)) i (length (order s) * 32) (cursor s) = 32"
    using visits_rounds [OF cur i(1), of 32] by (simp add: mult.commute)
  have "fst (pumpLoop (length (order s) * 32) s) = []"
    using none ne f by (auto simp: pump_def case_prod_beta split: if_splits)
  from pumpLoop_idle [OF w this f l q t i(2,1) cur] v
  have "deficit l + quantumBytes * 32 < pbytes p" by simp
  moreover have "0 \<le> deficit l" using w l(1) by (auto simp: wfScheduler_def laneOk_def dest: laneOk_get)
  ultimately show False using small q by simp
qed

section \<open>Runs and properties\<close>

datatype 'v sched_op =
    Enqueue string 'v int worker_priority completion_key
  | SetPriority string worker_priority
  | Complete string completion_key
  | Cancel string
  | Reset
  | Microtask

text \<open>A run with what was accepted and what was dispatched so far.\<close>

record 'v sched_run =
  sched :: "'v fair_scheduler"
  accepted :: "(string \<times> 'v) list"
  dispatched :: "(string \<times> 'v) list"

fun sched_step :: "'v sched_op \<Rightarrow> 'v sched_run \<Rightarrow> 'v sched_run" where
  "sched_step (Enqueue t v n p key) r =
     (case enqueue t v n p key (sched r) of
        Inl e \<Rightarrow> r
      | Inr s \<Rightarrow> r\<lparr>sched := s, accepted := accepted r @ [(t, v)]\<rparr>)"
| "sched_step (SetPriority t p) r = r\<lparr>sched := setPriority t p (sched r)\<rparr>"
| "sched_step (Complete t key) r = r\<lparr>sched := complete t key (sched r)\<rparr>"
| "sched_step (Cancel t) r = r\<lparr>sched := cancel t (sched r)\<rparr>"
| "sched_step Reset r = r\<lparr>sched := reset (sched r)\<rparr>"
| "sched_step Microtask r =
     (let (ds, s) = runMicrotask (sched r) in r\<lparr>sched := s, dispatched := dispatched r @ ds\<rparr>)"

definition startRun :: "'v sched_run" where
  "startRun = \<lparr>sched = emptyScheduler, accepted = [], dispatched = []\<rparr>"

text \<open>What a terminal got and still has queued, in order, is part of what was accepted for it.\<close>

definition fifo :: "'v sched_run \<Rightarrow> bool" where
  "fifo r \<longleftrightarrow> (\<forall>t. subseq (valuesFor t (dispatched r) @ queued (sched r) t) (valuesFor t (accepted r)))"

lemma subseq_appendD: "subseq (xs @ ys) zs \<Longrightarrow> subseq xs zs"
  by (meson prefixI prefix_imp_subseq subseq_order.order_trans)

lemma fifo_step: "fifo r \<Longrightarrow> fifo (sched_step op r)"
proof (cases op)
  case (Enqueue t v n p key)
  assume f: "fifo r"
  show ?thesis
  proof (cases "enqueue t v n p key (sched r)")
    case (Inr s)
    from queued_enqueue [OF Inr] f Enqueue Inr show ?thesis
      by (auto simp: fifo_def append_assoc [symmetric] simp del: append_assoc intro!: list_emb_append_mono)
  next
    case (Inl e)
    with f Enqueue show ?thesis by simp
  qed
next
  case (Cancel t)
  assume "fifo r"
  then show ?thesis
    using Cancel by (auto simp: fifo_def queued_cancel dest: subseq_appendD)
next
  case Reset
  assume "fifo r"
  then show ?thesis
    using Reset by (auto simp: fifo_def reset_def queued_def dest: subseq_appendD)
next
  case Microtask
  assume "fifo r"
  then show ?thesis
    using Microtask queued_microtask [of _ "sched r"] by (auto simp: fifo_def case_prod_beta)
qed (auto simp: fifo_def queued_setPriority queued_complete)

lemma sched_step_wf: "wfScheduler (sched r) \<Longrightarrow> wfScheduler (sched (sched_step op r))"
proof (cases op)
  case (Enqueue t v n p key)
  assume "wfScheduler (sched r)"
  with Enqueue enqueue_wf [OF this] show ?thesis by (auto split: sum.split)
qed (auto simp: setPriority_wf complete_wf cancel_wf reset_wf runMicrotask_wf case_prod_beta)

interpretation sched_machine: event_machine sched_step "\<lambda>r. wfScheduler (sched r) \<and> fifo r"
  by unfold_locales (simp add: sched_step_wf fifo_step)

lemma emptyScheduler_wf: "wfScheduler emptyScheduler"
  by (simp add: emptyScheduler_def wfScheduler_def jkeys_def jvalues_def maxBytes_def maxCommands_def maxInFlight_def)

lemma startRun_ok: "wfScheduler (sched startRun) \<and> fifo startRun"
  by (simp add: startRun_def emptyScheduler_wf fifo_def) (simp add: emptyScheduler_def queued_def)

text \<open>
  C26: After any sequence of operations the scheduler's counters are exact (bytes and commands add up
  over the queues, in-flight counts the busy terminals), never exceed 32 MiB, 8192 commands and 8 in
  flight, the ring lists each terminal with a lane once and the cursor stays inside it.
\<close>

theorem scheduler_accounting: "wfScheduler (sched (fold sched_step ops startRun))"
  using sched_machine.run_inv [OF startRun_ok] by blast

text \<open>
  C30: The commands dispatched to a terminal are a subsequence, in order, of those accepted for it, and
  so is what was dispatched followed by what is still queued: nothing is reordered, duplicated or
  invented, whatever is cancelled, completed or reprioritised.
\<close>

theorem scheduler_fifo:
  "subseq (valuesFor t (dispatched (fold sched_step ops startRun)) @ queued (sched (fold sched_step ops startRun)) t)
     (valuesFor t (accepted (fold sched_step ops startRun)))"
  using sched_machine.run_inv [OF startRun_ok, of ops] by (simp add: fifo_def)

text \<open>
  C40: A pump makes progress: with a free slot and a terminal that waits for nothing and whose first
  command fits the 32 rounds of one pump (2 MiB at the lowest weight), something is dispatched.
\<close>

theorem scheduler_progress:
  assumes "wfScheduler s" and "inFlight s < maxInFlight"
    and "jget (lanes s) t = Some l" and "dispatchable l" and "t \<noteq> []"
    and "pbytes (hd (queue l)) \<le> 32 * quantumBytes"
  shows "fst (pump s) \<noteq> []"
  using assms by (rule pump_progress)

theorem scheduler_progress_witness:
  "\<exists>s. enqueue ''a'' (7::nat) 10 \<lparr>visible = True, focused = False\<rparr> (KeyNumber 1) emptyScheduler = Inr s \<and>
     fst (pump s) \<noteq> []"
proof -
  let ?p = "\<lparr>visible = True, focused = False\<rparr>"
  obtain s where s: "enqueue ''a'' (7::nat) 10 ?p (KeyNumber 1) emptyScheduler = Inr s"
    by (simp add: enqueue_def emptyScheduler_def maxBytes_def maxCommands_def)
  have w: "wfScheduler s"
    by (rule enqueue_wf [OF emptyScheduler_wf s])
  have "jget (lanes s) ''a'' = Some \<lparr>queue = [\<lparr>pvalue = 7, pbytes = 10, pkey = KeyNumber 1\<rparr>], priority = ?p,
      deficit = 0, inFlightKey = None\<rparr>" "inFlight s = 0"
    using s by (auto simp: enqueue_def emptyScheduler_def maxBytes_def maxCommands_def schedule_def)
  with scheduler_progress [OF w] s show ?thesis
    by (force simp: dispatchable_def maxInFlight_def quantumBytes_def)
qed

end
