(* ===== verification/FrameScheduler.thy ===== *)
theory FrameScheduler
  imports Prelude
begin

text \<open>
  Accounting for the terminal pipeline, \<open>packages/ghostty-react/src/scheduler/terminal-frame-scheduler.ts\<close>:
  bytes received, posted to the parser, parsed, discarded and presented, with a bounded ring of
  timing records. A token is the sequence number of its record; the clock's reading is an argument of
  each operation. The lemmas show that no byte is lost: received is parsed plus pending plus
  discarded, pending is what the outstanding tokens stand for, and the ring keeps its capacity.
\<close>

section \<open>State\<close>

record pipeline_record =
  sequence :: int
  rbytes :: int
  endOffset :: int
  recPosted :: int
  receivedAt :: rat
  postedAt :: rat
  parsedAt :: rat
  modelAppliedAt :: rat
  renderStartedAt :: rat
  submittedAt :: rat
  nextPaintObservedAt :: rat
  surfaceInstanceId :: int
  runtimeGeneration :: int
  rendererGeneration :: int
  modelFrameId :: int
  geometryGeneration :: int

record presentation_sample =
  smpSurface :: int
  smpRuntime :: int
  smpRenderer :: int
  smpModelFrame :: int
  smpGeometry :: int
  smpModelAppliedAt :: rat
  smpRenderStartedAt :: rat
  smpSubmittedAt :: rat
  smpParsedBytes :: "int option"
  smpNextPaintObservedAt :: rat

record frame_scheduler =
  records :: "pipeline_record list"
  tokens :: "(int, pipeline_record) jsmap"
  sequenceNo :: int
  receivedBytes :: int
  postedBytes :: int
  postedThrough :: int
  parsedBytes :: int
  discardedBytes :: int
  presentedBytes :: int
  submittedParsedBytes :: int
  lastPresentedParsedBytes :: int
  pendingBytes :: int
  maxPendingBytes :: int
  lastSubmittedModelFrame :: int
  lastNextPaintObservedFrame :: int
  capacity :: nat

text \<open>The constructor refuses a capacity that is not a non-negative safe integer.\<close>

definition newFrameScheduler :: "js_num \<Rightarrow> frame_scheduler option" where
  "newFrameScheduler cap =
     (if \<not> isSafeInteger cap \<or> finValue cap < 0 then None
      else Some \<lparr>records = [], tokens = [], sequenceNo = 0, receivedBytes = 0, postedBytes = 0, postedThrough = 0,
        parsedBytes = 0, discardedBytes = 0, presentedBytes = 0, submittedParsedBytes = 0,
        lastPresentedParsedBytes = 0, pendingBytes = 0, maxPendingBytes = 0, lastSubmittedModelFrame = 0,
        lastNextPaintObservedFrame = 0, capacity = nat \<lfloor>finValue cap\<rfloor>\<rparr>)"

text \<open>\<open>Math.trunc\<close>.\<close>

definition jtrunc :: "rat \<Rightarrow> int" where
  "jtrunc q = (if 0 \<le> q then \<lfloor>q\<rfloor> else \<lceil>q\<rceil>)"

section \<open>Operations\<close>

fun removeFirst :: "('a \<Rightarrow> bool) \<Rightarrow> 'a list \<Rightarrow> 'a list" where
  "removeFirst P [] = []"
| "removeFirst P (x # xs) = (if P x then xs else x # removeFirst P xs)"

text \<open>The first parsed record makes room; with none parsed, the oldest does.\<close>

definition evictOne :: "pipeline_record list \<Rightarrow> pipeline_record list" where
  "evictOne rs = (if list_ex (\<lambda>r. parsedAt r \<ge> 0) rs then removeFirst (\<lambda>r. parsedAt r \<ge> 0) rs else tl rs)"

lemma length_removeFirst: "list_ex P xs \<Longrightarrow> Suc (length (removeFirst P xs)) = length xs"
  by (induction xs) auto

lemma length_evictOne: "rs \<noteq> [] \<Longrightarrow> Suc (length (evictOne rs)) = length rs"
  by (auto simp: evictOne_def length_removeFirst)

function trimRecords :: "nat \<Rightarrow> pipeline_record list \<Rightarrow> pipeline_record list" where
  "trimRecords cap rs = (if length rs > cap then trimRecords cap (evictOne rs) else rs)"
  by pat_completeness auto
termination
proof (relation "measure (\<lambda>(cap, rs). length rs)", goal_cases)
  case (2 cap rs)
  then have "rs \<noteq> []" by auto
  from length_evictOne [OF this] show ?case by simp
qed simp

declare trimRecords.simps [simp del]

definition received :: "rat \<Rightarrow> rat \<Rightarrow> frame_scheduler \<Rightarrow> int \<times> frame_scheduler" where
  "received now nbytes s =
     (let n = max 0 (jtrunc nbytes); i = sequenceNo s + 1;
          r = \<lparr>sequence = i, rbytes = n, endOffset = receivedBytes s + n, recPosted = 0, receivedAt = now,
            postedAt = -1, parsedAt = -1, modelAppliedAt = -1, renderStartedAt = -1, submittedAt = -1,
            nextPaintObservedAt = -1, surfaceInstanceId = 0, runtimeGeneration = 0, rendererGeneration = 0,
            modelFrameId = 0, geometryGeneration = 0\<rparr>
      in (i, s\<lparr>sequenceNo := i, records := trimRecords (capacity s) (records s @ [r]),
            receivedBytes := receivedBytes s + n, pendingBytes := pendingBytes s + n,
            maxPendingBytes := max (maxPendingBytes s) (pendingBytes s + n), tokens := jset i r (tokens s)\<rparr>))"

definition posted :: "rat \<Rightarrow> rat \<Rightarrow> frame_scheduler \<Rightarrow> frame_scheduler" where
  "posted now nbytes s =
     (let amount = min (max 0 (jtrunc nbytes)) (receivedBytes s - postedThrough s);
          through = postedThrough s + amount
      in s\<lparr>postedBytes := postedBytes s + amount, postedThrough := through,
           records := map (\<lambda>r.
             let p = max 0 (min (rbytes r) (through - (endOffset r - rbytes r)))
             in if p \<le> recPosted r then r
                else r\<lparr>recPosted := p, postedAt := (if postedAt r < 0 then max (receivedAt r) now else postedAt r)\<rparr>)
             (records s)\<rparr>)"

text \<open>The record a token stands for is the one in the ring, while that is still there.\<close>

definition parsed :: "rat \<Rightarrow> int \<Rightarrow> frame_scheduler \<Rightarrow> frame_scheduler" where
  "parsed now token s =
     (case jget (tokens s) token of
        None \<Rightarrow> s
      | Some t \<Rightarrow> s\<lparr>tokens := jdelete token (tokens s),
          records := map (\<lambda>r. if sequence r = token then r\<lparr>parsedAt := max (receivedAt r) now\<rparr> else r) (records s),
          parsedBytes := parsedBytes s + rbytes t,
          pendingBytes := max 0 (pendingBytes s - rbytes t)\<rparr>)"

definition submitted :: "frame_scheduler \<Rightarrow> int \<times> frame_scheduler" where
  "submitted s = (parsedBytes s, s\<lparr>submittedParsedBytes := parsedBytes s\<rparr>)"

definition presentRecord :: "rat \<Rightarrow> presentation_sample option \<Rightarrow> pipeline_record \<Rightarrow> pipeline_record" where
  "presentRecord now sample r =
     (if parsedAt r < 0 \<or> nextPaintObservedAt r \<ge> 0 then r
      else case sample of
        None \<Rightarrow>
          (let m = max (parsedAt r) now; b = max m now; u = max b now
           in r\<lparr>modelAppliedAt := m, renderStartedAt := b, submittedAt := u, nextPaintObservedAt := max u now\<rparr>)
      | Some p \<Rightarrow>
          if parsedAt r > smpModelAppliedAt p \<or> runtimeGeneration r \<noteq> 0 \<and> runtimeGeneration r \<noteq> smpRuntime p then r
          else (let m = max (parsedAt r) (smpModelAppliedAt p); b = max m (smpRenderStartedAt p);
                    u = max b (smpSubmittedAt p)
                in r\<lparr>surfaceInstanceId := smpSurface p, runtimeGeneration := smpRuntime p,
                     rendererGeneration := smpRenderer p, modelFrameId := smpModelFrame p,
                     geometryGeneration := smpGeometry p, modelAppliedAt := m, renderStartedAt := b,
                     submittedAt := u, nextPaintObservedAt := max u (smpNextPaintObservedAt p)\<rparr>))"

definition presented :: "rat \<Rightarrow> presentation_sample option \<Rightarrow> frame_scheduler \<Rightarrow> frame_scheduler" where
  "presented now sample s =
     (let through = max (lastPresentedParsedBytes s) (case sample of
            None \<Rightarrow> parsedBytes s
          | Some p \<Rightarrow> coalesce (smpParsedBytes p) (submittedParsedBytes s));
          s1 = s\<lparr>records := map (presentRecord now sample) (records s),
            presentedBytes := presentedBytes s + (through - lastPresentedParsedBytes s),
            lastPresentedParsedBytes := through\<rparr>
      in case sample of
           None \<Rightarrow> s1
         | Some p \<Rightarrow> s1\<lparr>lastSubmittedModelFrame := max (lastSubmittedModelFrame s) (smpModelFrame p),
             lastNextPaintObservedFrame := max (lastNextPaintObservedFrame s) (smpModelFrame p)\<rparr>)"

definition resetGeneration :: "frame_scheduler \<Rightarrow> frame_scheduler" where
  "resetGeneration s =
     s\<lparr>records := [], tokens := [], postedThrough := receivedBytes s, submittedParsedBytes := parsedBytes s,
       lastPresentedParsedBytes := parsedBytes s, discardedBytes := discardedBytes s + pendingBytes s,
       pendingBytes := 0\<rparr>"

section \<open>Snapshot\<close>

definition percentile :: "rat list \<Rightarrow> rat \<Rightarrow> rat" where
  "percentile vs fraction =
     (if vs = [] then 0
      else (let i = min (int (length vs) - 1) (\<lceil>of_nat (length vs) * fraction\<rceil> - 1)
            in if 0 \<le> i \<and> i < int (length vs) then vs ! nat i else 0))"

definition parsedDelays :: "pipeline_record list \<Rightarrow> rat list" where
  "parsedDelays rs = sort (map (\<lambda>r. parsedAt r - receivedAt r) (filter (\<lambda>r. parsedAt r \<ge> 0) rs))"

definition submitDelays :: "pipeline_record list \<Rightarrow> rat list" where
  "submitDelays rs = sort (map (\<lambda>r. submittedAt r - parsedAt r) (filter (\<lambda>r. submittedAt r \<ge> 0) rs))"

definition presentDelays :: "pipeline_record list \<Rightarrow> rat list" where
  "presentDelays rs = sort (map (\<lambda>r. nextPaintObservedAt r - receivedAt r) (filter (\<lambda>r. nextPaintObservedAt r \<ge> 0) rs))"

definition frameDelays :: "pipeline_record list \<Rightarrow> rat list" where
  "frameDelays rs = sort (map (\<lambda>r. nextPaintObservedAt r - submittedAt r) (filter (\<lambda>r. nextPaintObservedAt r \<ge> 0) rs))"

record scheduler_snapshot =
  retainedSamples :: nat
  oldestPendingAgeMs :: rat
  receivedToParsed :: "rat \<times> rat \<times> rat"
  parsedToSubmitted :: "rat \<times> rat \<times> rat"
  receivedToPresented :: "rat \<times> rat \<times> rat"
  frameDelay :: "rat \<times> rat \<times> rat"

definition quantiles :: "rat list \<Rightarrow> rat \<times> rat \<times> rat" where
  "quantiles vs = (percentile vs (1/2), percentile vs (95/100), percentile vs (99/100))"

definition snapshot :: "rat \<Rightarrow> frame_scheduler \<Rightarrow> scheduler_snapshot" where
  "snapshot now s =
     \<lparr>retainedSamples = length (records s),
      oldestPendingAgeMs = (case find (\<lambda>r. \<not> parsedAt r \<ge> 0) (records s) of
          None \<Rightarrow> 0 | Some r \<Rightarrow> max 0 (now - receivedAt r)),
      receivedToParsed = quantiles (parsedDelays (records s)),
      parsedToSubmitted = quantiles (submitDelays (records s)),
      receivedToPresented = quantiles (presentDelays (records s)),
      frameDelay = quantiles (frameDelays (records s))\<rparr>"

section \<open>Accounting\<close>

definition wfFrames :: "frame_scheduler \<Rightarrow> bool" where
  "wfFrames s \<longleftrightarrow>
     receivedBytes s = parsedBytes s + pendingBytes s + discardedBytes s \<and>
     pendingBytes s = jsum rbytes (tokens s) \<and> jwf (tokens s) \<and>
     list_all (\<lambda>(i, r). 0 \<le> rbytes r \<and> i \<le> sequenceNo s) (tokens s) \<and>
     pendingBytes s \<le> maxPendingBytes s \<and> postedThrough s \<le> receivedBytes s \<and>
     postedBytes s \<le> postedThrough s \<and> 0 \<le> parsedBytes s \<and> 0 \<le> discardedBytes s \<and>
     length (records s) \<le> capacity s"

lemma length_trim: "length (trimRecords cap rs) \<le> cap"
  by (induction cap rs rule: trimRecords.induct) (subst trimRecords.simps, simp)

lemma received_wf: "wfFrames s \<Longrightarrow> wfFrames (snd (received now n s))"
proof -
  assume w: "wfFrames s"
  let ?n = "max 0 (jtrunc n)"
  obtain r where r: "rbytes r = ?n" "tokens (snd (received now n s)) = jset (sequenceNo s + 1) r (tokens s)"
    "length (records (snd (received now n s))) \<le> capacity s"
    by (rule that) (simp_all add: received_def Let_def length_trim)
  have "sequenceNo s + 1 \<notin> set (map fst (tokens s))"
    using w by (force simp: wfFrames_def list_all_iff)
  then have "tokens (snd (received now n s)) = tokens s @ [(sequenceNo s + 1, r)]"
    unfolding r(2) by (rule jset_absent)
  moreover have "snd (received now n s) = s\<lparr>sequenceNo := sequenceNo s + 1, records := records (snd (received now n s)),
      receivedBytes := receivedBytes s + ?n, pendingBytes := pendingBytes s + ?n,
      maxPendingBytes := max (maxPendingBytes s) (pendingBytes s + ?n), tokens := tokens (snd (received now n s))\<rparr>"
    by (simp add: received_def Let_def)
  moreover have "jsum rbytes (tokens s @ [(sequenceNo s + 1, r)]) = jsum rbytes (tokens s) + ?n"
    by (simp add: jsum_append r(1)) (simp add: jsum_def r(1))
  ultimately obtain rs where e: "snd (received now n s) = s\<lparr>sequenceNo := sequenceNo s + 1, records := rs,
      receivedBytes := receivedBytes s + ?n, pendingBytes := pendingBytes s + ?n,
      maxPendingBytes := max (maxPendingBytes s) (pendingBytes s + ?n),
      tokens := tokens s @ [(sequenceNo s + 1, r)]\<rparr>" "length rs \<le> capacity s"
    "jsum rbytes (tokens s @ [(sequenceNo s + 1, r)]) = jsum rbytes (tokens s) + ?n"
    using r(3) by metis
  show ?thesis
    unfolding e(1) using w e(2,3) r(1) \<open>sequenceNo s + 1 \<notin> _\<close>
    by (auto simp: wfFrames_def list_all_iff)
qed

lemma posted_wf: "wfFrames s \<Longrightarrow> wfFrames (posted now n s)"
  by (auto simp: wfFrames_def posted_def Let_def)

lemma tokens_nonneg: "wfFrames s \<Longrightarrow> jget (tokens s) i = Some t \<Longrightarrow> 0 \<le> rbytes t \<and> rbytes t \<le> pendingBytes s"
proof -
  assume w: "wfFrames s" and t: "jget (tokens s) i = Some t"
  have "0 \<le> jsum rbytes (jdelete i (tokens s))"
    using w by (intro jsum_nonneg) (auto simp: wfFrames_def list_all_iff jdelete_filter)
  with w t show ?thesis
    by (auto simp: wfFrames_def jsum_jdelete list_all_iff dest: map_of_SomeD)
qed

lemma parsed_wf: "wfFrames s \<Longrightarrow> wfFrames (parsed now token s)"
proof (cases "jget (tokens s) token")
  case (Some t)
  assume w: "wfFrames s"
  from tokens_nonneg [OF w Some] w Some show ?thesis
    by (auto simp: wfFrames_def parsed_def jsum_jdelete list_all_iff jdelete_filter)
      (simp_all add: jdelete_filter [symmetric] jsum_jdelete distinct_map_filter)
qed (simp add: parsed_def)

lemma presented_wf: "wfFrames s \<Longrightarrow> wfFrames (presented now sample s)"
  by (cases sample) (auto simp: wfFrames_def presented_def Let_def)

lemma resetGeneration_wf: "wfFrames s \<Longrightarrow> wfFrames (resetGeneration s)"
proof -
  assume w: "wfFrames s"
  have "0 \<le> pendingBytes s"
  proof -
    have "0 \<le> jsum rbytes (tokens s)"
      using w by (intro jsum_nonneg) (auto simp: wfFrames_def list_all_iff)
    with w show ?thesis by (simp add: wfFrames_def)
  qed
  with w show ?thesis by (auto simp: wfFrames_def resetGeneration_def)
qed

datatype frame_op =
    Received rat rat
  | Posted rat rat
  | Parsed rat int
  | Submitted
  | Presented rat "presentation_sample option"
  | ResetGeneration

fun frame_step :: "frame_op \<Rightarrow> frame_scheduler \<Rightarrow> frame_scheduler" where
  "frame_step (Received now n) s = snd (received now n s)"
| "frame_step (Posted now n) s = posted now n s"
| "frame_step (Parsed now token) s = parsed now token s"
| "frame_step Submitted s = snd (submitted s)"
| "frame_step (Presented now sample) s = presented now sample s"
| "frame_step ResetGeneration s = resetGeneration s"

lemma frame_step_wf: "wfFrames s \<Longrightarrow> wfFrames (frame_step op s)"
proof (cases op)
  case Submitted
  assume "wfFrames s"
  with Submitted show ?thesis by (simp add: submitted_def wfFrames_def)
qed (auto simp: received_wf posted_wf parsed_wf presented_wf resetGeneration_wf)

interpretation frame_machine: event_machine frame_step wfFrames
  by unfold_locales (rule frame_step_wf)

lemma newFrameScheduler_wf: "newFrameScheduler cap = Some s \<Longrightarrow> wfFrames s"
  by (auto simp: newFrameScheduler_def wfFrames_def split: if_splits)

text \<open>
  No byte is lost: after any sequence of operations on a new scheduler the bytes received are those
  parsed, pending and discarded together, the pending ones are exactly those of the tokens not yet
  parsed, posting never runs ahead of what was received, and the timing ring keeps its capacity.
\<close>

theorem frame_conservation:
  assumes "newFrameScheduler cap = Some s"
  shows "wfFrames (fold frame_step ops s)"
  by (rule frame_machine.run_inv) (rule newFrameScheduler_wf [OF assms])

theorem frame_conservation_witness:
  "\<exists>s. newFrameScheduler (Fin 2) = Some s \<and>
     wfFrames (fold frame_step [Received 0 10, Received 1 5, Received 2 1, Posted 3 12, Parsed 4 2, ResetGeneration] s)"
proof -
  have "isSafeInteger (Fin (of_int 2))" unfolding isSafeInteger_of_int by (simp add: safe_int_def maxSafeInteger_def)
  then obtain s where s: "newFrameScheduler (Fin 2) = Some s" by (auto simp: newFrameScheduler_def)
  with frame_conservation [OF s] show ?thesis by blast
qed

end
