(* ===== verification/OutputWriter.thy ===== *)
theory OutputWriter
  imports Prelude "HOL-Library.Word" "HOL-Library.Sublist"
begin

text \<open>
  The ordered, bounded dispatch of terminal output to the parser,
  \<open>packages/yaade-ui/src/panels/terminal-output-writer.ts\<close>. What the writer does to the outside (commands
  written, acknowledgements, callbacks) is appended to a trace, which also notes the data each call
  accepted. The parser's completion callback and the task callbacks are operations of their own, and
  the completion runs one callback per step, so that whatever those callbacks call back into the
  writer is interleaved with it. \<open>onPosted\<close>, which the panel uses to count bytes, is an entry of the trace beside the write it
  announces; an \<open>onPosted\<close> that throws or calls back into the writer is outside the model. The lemmas show that in each generation what was written and what is
  queued are together exactly what was accepted, in order, that queues and commands respect their
  bounds, and that one command at most is in flight.
\<close>

section \<open>State\<close>

type_synonym bytes = "8 word list"

text \<open>A callback is a number that identifies it.\<close>

record part =
  pdata :: bytes
  poffset :: nat
  onConsumed :: "nat option"

record writer_options =
  maxPending :: nat
  quantum :: nat
  interactiveMax :: nat
  hasWriteReplay :: bool

datatype writer_effect =
    Accepted nat bool bytes
  | Written nat bool "bytes list"
  | PostedBytes nat
  | Acknowledge nat
  | RefreshAfterPaint
  | Painted
  | CancelTask nat
  | Overflowed

text \<open>What the closure \<open>onParsed\<close> of one command holds.\<close>

record writer_command =
  cgeneration :: nat
  consumed :: "nat list"
  completed :: bool

text \<open>Where a running \<open>onParsed\<close> stands.\<close>

datatype completion_phase = Acknowledging "nat list" | Refreshed | Finishing

record output_writer =
  live :: "part list"
  replay :: "part list"
  liveBytes :: int
  replayBytes :: int
  task :: "nat option"
  microScheduled :: bool
  inFlight :: bool
  disposed :: bool
  desynchronized :: bool
  generation :: nat
  scheduleGeneration :: nat
  completing :: "(nat \<times> completion_phase) option"
  writerCommands :: "writer_command list"
  trace :: "writer_effect list"

definition MAX_REPLAY_BYTES :: nat where
  "MAX_REPLAY_BYTES = 64 * 1024 * 1024"

definition MAX_PENDING_PARTS :: nat where
  "MAX_PENDING_PARTS = 4096"

definition TERMINAL_OUTPUT_MAX_PENDING_BYTES :: nat where
  "TERMINAL_OUTPUT_MAX_PENDING_BYTES = 512 * 1024"

definition TERMINAL_OUTPUT_INTERACTIVE_MAX_BYTES :: nat where
  "TERMINAL_OUTPUT_INTERACTIVE_MAX_BYTES = 256"

definition GHOSTTY_OUTPUT_MAX_BYTES_PER_FLUSH :: nat where
  "GHOSTTY_OUTPUT_MAX_BYTES_PER_FLUSH = 256 * 1024"

definition defaultOptions :: "bool \<Rightarrow> writer_options" where
  "defaultOptions r = \<lparr>maxPending = TERMINAL_OUTPUT_MAX_PENDING_BYTES, quantum = GHOSTTY_OUTPUT_MAX_BYTES_PER_FLUSH,
     interactiveMax = TERMINAL_OUTPUT_INTERACTIVE_MAX_BYTES, hasWriteReplay = r\<rparr>"

text \<open>The bounds are checked to be positive safe integers; a natural number models a checked one.\<close>

definition createTerminalOutputWriter :: "writer_options \<Rightarrow> output_writer option" where
  "createTerminalOutputWriter opts =
     (if quantum opts < 1 \<or> maxPending opts < 1 then None
      else Some \<lparr>live = [], replay = [], liveBytes = 0, replayBytes = 0, task = None, microScheduled = False,
        inFlight = False, disposed = False, desynchronized = False, generation = 0, scheduleGeneration = 0,
        completing = None, writerCommands = [], trace = []\<rparr>)"

section \<open>Operations\<close>

definition emit :: "writer_effect list \<Rightarrow> output_writer \<Rightarrow> output_writer" where
  "emit es s = s\<lparr>trace := trace s @ es\<rparr>"

text \<open>The handle of a scheduled task is the schedule generation it was created with.\<close>

definition cancelScheduled :: "output_writer \<Rightarrow> output_writer" where
  "cancelScheduled s =
     (emit (case task s of None \<Rightarrow> [] | Some h \<Rightarrow> [CancelTask h]) s)
       \<lparr>scheduleGeneration := scheduleGeneration s + 1, task := None, microScheduled := False\<rparr>"

definition discard :: "output_writer \<Rightarrow> output_writer" where
  "discard s =
     (cancelScheduled (s\<lparr>generation := generation s + 1\<rparr>))
       \<lparr>live := [], replay := [], liveBytes := 0, replayBytes := 0, inFlight := False\<rparr>"

definition overflow :: "output_writer \<Rightarrow> output_writer" where
  "overflow s = emit [Overflowed] ((discard s)\<lparr>desynchronized := True\<rparr>)"

text \<open>\<open>admit\<close> says whether the task scheduler takes the task; it throws otherwise.\<close>

definition scheduleNext :: "writer_options \<Rightarrow> bool \<Rightarrow> bool \<Rightarrow> output_writer \<Rightarrow> output_writer" where
  "scheduleNext opts admit interactive s =
     (if disposed s \<or> desynchronized s \<or> inFlight s \<or> task s \<noteq> None \<or> microScheduled s
          \<or> liveBytes s + replayBytes s = 0 then s
      else (let g = scheduleGeneration s + 1; s1 = s\<lparr>scheduleGeneration := g\<rparr> in
        if interactive \<and> completing s = None \<and> replayBytes s = 0 \<and> liveBytes s \<le> int (interactiveMax opts)
        then s1\<lparr>microScheduled := True\<rparr>
        else if admit then s1\<lparr>task := Some g\<rparr>
        else overflow s1))"

text \<open>
  The loop that fills one command: chunks, finished callbacks, bytes and what stays queued. The test
  for \<open>count = 0\<close> only ends the recursion for an offset beyond the data, which no part has.
\<close>

function takeParts :: "nat \<Rightarrow> nat \<Rightarrow> part list \<Rightarrow> bytes list \<times> nat list \<times> nat \<times> part list" where
  "takeParts q b [] = ([], [], b, [])"
| "takeParts q b (p # ps) =
     (if b < q then
        (let count = min (length (pdata p) - poffset p) (q - b);
             chunk = take count (drop (poffset p) (pdata p));
             p' = p\<lparr>poffset := poffset p + count\<rparr>
         in if poffset p' = length (pdata p') then
              (let (cs, ks, b', rest) = takeParts q (b + count) ps
               in (chunk # cs, (case onConsumed p of None \<Rightarrow> ks | Some k \<Rightarrow> k # ks), b', rest))
            else if count = 0 then ([], [], b, p # ps)
            else (let (cs, ks, b', rest) = takeParts q (b + count) (p' # ps)
                  in (chunk # cs, ks, b', rest)))
      else ([], [], b, p # ps))"
  by pat_completeness auto
termination
  by (relation "measure (\<lambda>(q, b, ps). (q - b) + length ps)") auto

definition flushNow :: "writer_options \<Rightarrow> output_writer \<Rightarrow> output_writer" where
  "flushNow opts s =
     (if disposed s \<or> desynchronized s \<or> inFlight s \<or> completing s \<noteq> None then s
      else (let isReplay = (replayBytes s > 0); qu = (if isReplay then replay s else live s) in
        if qu = [] then s
        else (let (chunks, ks, n, rest) = takeParts (quantum opts) 0 qu;
                  s1 = (if isReplay then s\<lparr>replay := rest, replayBytes := replayBytes s - int n\<rparr>
                        else s\<lparr>live := rest, liveBytes := liveBytes s - int n\<rparr>)
              in emit [PostedBytes n,
                   Written (generation s) isReplay (if isReplay \<and> hasWriteReplay opts then chunks else [concat chunks])]
                 (s1\<lparr>inFlight := True,
                    writerCommands := writerCommands s @ [\<lparr>cgeneration = generation s, consumed = ks, completed = False\<rparr>]\<rparr>))))"

text \<open>The parser's callback for command \<open>i\<close>; its body runs by \<open>completionStep\<close>.\<close>

definition onParsed :: "nat \<Rightarrow> output_writer \<Rightarrow> output_writer" where
  "onParsed i s =
     (if \<not> i < length (writerCommands s) then s
      else (let c = writerCommands s ! i in
        if completed c \<or> disposed s \<or> cgeneration c \<noteq> generation s then s
        else s\<lparr>writerCommands := (writerCommands s)[i := c\<lparr>completed := True\<rparr>], inFlight := False,
               completing := Some (cgeneration c, Acknowledging (consumed c))\<rparr>))"

text \<open>One callback of the body of \<open>onParsed\<close>, or its \<open>finally\<close> block.\<close>

definition completionStep :: "writer_options \<Rightarrow> bool \<Rightarrow> output_writer \<Rightarrow> output_writer" where
  "completionStep opts admit s =
     (case completing s of
        None \<Rightarrow> s
      | Some (g, Acknowledging ks) \<Rightarrow>
          if disposed s \<or> g \<noteq> generation s then s\<lparr>completing := Some (g, Finishing)\<rparr>
          else (case ks of
             k # ks' \<Rightarrow> emit [Acknowledge k] (s\<lparr>completing := Some (g, Acknowledging ks')\<rparr>)
           | [] \<Rightarrow> emit [RefreshAfterPaint] (s\<lparr>completing := Some (g, Refreshed)\<rparr>))
      | Some (g, Refreshed) \<Rightarrow> emit [Painted] (s\<lparr>completing := Some (g, Finishing)\<rparr>)
      | Some (g, Finishing) \<Rightarrow>
          (let s1 = s\<lparr>completing := None\<rparr>
           in if g = generation s then scheduleNext opts admit False s1 else s1))"

text \<open>A callback that throws goes straight to the \<open>finally\<close> block.\<close>

definition callbackThrew :: "output_writer \<Rightarrow> output_writer" where
  "callbackThrew s =
     (case completing s of None \<Rightarrow> s | Some (g, ph) \<Rightarrow> s\<lparr>completing := Some (g, Finishing)\<rparr>)"

text \<open>The parser refuses command \<open>i\<close>: the \<open>catch\<close> clause of \<open>flushNow\<close>.\<close>

definition writeFailed :: "nat \<Rightarrow> output_writer \<Rightarrow> output_writer" where
  "writeFailed i s =
     (if \<not> i < length (writerCommands s) then s
      else if disposed s \<or> cgeneration (writerCommands s ! i) \<noteq> generation s then s
      else overflow s)"

definition runTask :: "writer_options \<Rightarrow> nat \<Rightarrow> output_writer \<Rightarrow> output_writer" where
  "runTask opts g s =
     (if task s = None \<or> g \<noteq> scheduleGeneration s then s else flushNow opts (s\<lparr>task := None\<rparr>))"

definition runMicrotask :: "writer_options \<Rightarrow> nat \<Rightarrow> output_writer \<Rightarrow> output_writer" where
  "runMicrotask opts g s =
     (if \<not> microScheduled s \<or> g \<noteq> scheduleGeneration s then s
      else flushNow opts (s\<lparr>microScheduled := False\<rparr>))"

definition enqueue :: "writer_options \<Rightarrow> bool \<Rightarrow> bytes \<Rightarrow> nat option \<Rightarrow> output_writer \<Rightarrow> output_writer" where
  "enqueue opts admit d k s =
     (if disposed s \<or> desynchronized s \<or> length d = 0 then s
      else if liveBytes s + int (length d) > int (maxPending opts) \<or> length (live s) \<ge> MAX_PENDING_PARTS then overflow s
      else scheduleNext opts admit True
        (emit [Accepted (generation s) False d]
          (s\<lparr>live := live s @ [\<lparr>pdata = d, poffset = 0, onConsumed = k\<rparr>],
             liveBytes := liveBytes s + int (length d)\<rparr>)))"

definition enqueueReplay :: "bytes \<Rightarrow> nat option \<Rightarrow> output_writer \<Rightarrow> output_writer" where
  "enqueueReplay d k s =
     (if disposed s \<or> desynchronized s \<or> length d = 0 then s
      else if replayBytes s + int (length d) > int MAX_REPLAY_BYTES \<or> length (replay s) \<ge> MAX_PENDING_PARTS then overflow s
      else emit [Accepted (generation s) True d]
        (s\<lparr>replay := replay s @ [\<lparr>pdata = d, poffset = 0, onConsumed = k\<rparr>],
           replayBytes := replayBytes s + int (length d)\<rparr>))"

definition discardPending :: "output_writer \<Rightarrow> output_writer" where
  "discardPending s = (discard s)\<lparr>desynchronized := False\<rparr>"

definition suspend :: "output_writer \<Rightarrow> output_writer" where
  "suspend s = (discard s)\<lparr>desynchronized := True\<rparr>"

definition flush :: "writer_options \<Rightarrow> output_writer \<Rightarrow> output_writer" where
  "flush opts s = flushNow opts (cancelScheduled s)"

definition dispose :: "output_writer \<Rightarrow> output_writer" where
  "dispose s = discard (s\<lparr>disposed := True\<rparr>)"

section \<open>What a generation accepted and wrote\<close>

definition acceptedIn :: "nat \<Rightarrow> bool \<Rightarrow> writer_effect list \<Rightarrow> bytes" where
  "acceptedIn g r tr = concat (map (\<lambda>e. case e of Accepted g' r' d \<Rightarrow> if g' = g \<and> r' = r then d else [] | _ \<Rightarrow> []) tr)"

definition writtenIn :: "nat \<Rightarrow> bool \<Rightarrow> writer_effect list \<Rightarrow> bytes" where
  "writtenIn g r tr =
     concat (map (\<lambda>e. case e of Written g' r' cs \<Rightarrow> if g' = g \<and> r' = r then concat cs else [] | _ \<Rightarrow> []) tr)"

lemma traced_simps [simp]:
  "acceptedIn g r [] = []" "writtenIn g r [] = []"
  "acceptedIn g r (tr @ tr') = acceptedIn g r tr @ acceptedIn g r tr'"
  "writtenIn g r (tr @ tr') = writtenIn g r tr @ writtenIn g r tr'"
  "acceptedIn g r (Accepted g' r' d # tr) = (if g' = g \<and> r' = r then d else []) @ acceptedIn g r tr"
  "writtenIn g r (Accepted g' r' d # tr) = writtenIn g r tr"
  "acceptedIn g r (Written g' r' cs # tr) = acceptedIn g r tr"
  "writtenIn g r (Written g' r' cs # tr) = (if g' = g \<and> r' = r then concat cs else []) @ writtenIn g r tr"
  "acceptedIn g r (PostedBytes n # tr) = acceptedIn g r tr" "writtenIn g r (PostedBytes n # tr) = writtenIn g r tr"
  "acceptedIn g r (Acknowledge n # tr) = acceptedIn g r tr" "writtenIn g r (Acknowledge n # tr) = writtenIn g r tr"
  "acceptedIn g r (CancelTask n # tr) = acceptedIn g r tr" "writtenIn g r (CancelTask n # tr) = writtenIn g r tr"
  "acceptedIn g r (RefreshAfterPaint # tr) = acceptedIn g r tr" "writtenIn g r (RefreshAfterPaint # tr) = writtenIn g r tr"
  "acceptedIn g r (Painted # tr) = acceptedIn g r tr" "writtenIn g r (Painted # tr) = writtenIn g r tr"
  "acceptedIn g r (Overflowed # tr) = acceptedIn g r tr" "writtenIn g r (Overflowed # tr) = writtenIn g r tr"
  by (simp_all add: acceptedIn_def writtenIn_def)

definition queueOf :: "bool \<Rightarrow> output_writer \<Rightarrow> part list" where
  "queueOf r s = (if r then replay s else live s)"

definition remaining :: "part list \<Rightarrow> bytes" where
  "remaining ps = concat (map (\<lambda>p. drop (poffset p) (pdata p)) ps)"

definition partsOk :: "part list \<Rightarrow> bool" where
  "partsOk ps = list_all (\<lambda>p. poffset p < length (pdata p)) ps"

lemma remaining_simps [simp]:
  "remaining [] = []" "remaining (p # ps) = drop (poffset p) (pdata p) @ remaining ps"
  "remaining (ps @ ps') = remaining ps @ remaining ps'"
  by (simp_all add: remaining_def)

lemma partsOk_simps [simp]:
  "partsOk []" "partsOk (p # ps) \<longleftrightarrow> poffset p < length (pdata p) \<and> partsOk ps"
  "partsOk (ps @ ps') \<longleftrightarrow> partsOk ps \<and> partsOk ps'"
  by (simp_all add: partsOk_def)

text \<open>A step of the trace belongs to a generation already begun, and a command is within the quantum.\<close>

fun effectOk :: "writer_options \<Rightarrow> nat \<Rightarrow> writer_effect \<Rightarrow> bool" where
  "effectOk opts g (Accepted g' r d) = (g' \<le> g)"
| "effectOk opts g (Written g' r cs) = (g' \<le> g \<and> 0 < length (concat cs) \<and> length (concat cs) \<le> quantum opts)"
| "effectOk opts g _ = True"

lemma effectOk_mono: "effectOk opts g e \<Longrightarrow> g \<le> g' \<Longrightarrow> effectOk opts g' e"
  by (cases e) auto

lemma fresh_generation:
  "list_all (effectOk opts g) tr \<Longrightarrow> g < g' \<Longrightarrow> acceptedIn g' r tr = [] \<and> writtenIn g' r tr = []"
  by (induction tr) (auto simp: acceptedIn_def writtenIn_def split: writer_effect.split)

definition ledgerOk :: "output_writer \<Rightarrow> bool" where
  "ledgerOk s \<longleftrightarrow>
     (\<forall>r. writtenIn (generation s) r (trace s) @ remaining (queueOf r s) = acceptedIn (generation s) r (trace s)) \<and>
     (\<forall>g r. prefix (writtenIn g r (trace s)) (acceptedIn g r (trace s)))"

definition boundsOk :: "writer_options \<Rightarrow> output_writer \<Rightarrow> bool" where
  "boundsOk opts s \<longleftrightarrow>
     list_all (effectOk opts (generation s)) (trace s) \<and> partsOk (live s) \<and> partsOk (replay s) \<and>
     liveBytes s = int (length (remaining (live s))) \<and> replayBytes s = int (length (remaining (replay s))) \<and>
     liveBytes s \<le> int (maxPending opts) \<and> replayBytes s \<le> int MAX_REPLAY_BYTES \<and>
     length (live s) \<le> MAX_PENDING_PARTS \<and> length (replay s) \<le> MAX_PENDING_PARTS"

text \<open>The commands of the current generation that are not acknowledged: one when in flight.\<close>

definition openCommands :: "output_writer \<Rightarrow> writer_command list" where
  "openCommands s = filter (\<lambda>c. cgeneration c = generation s \<and> \<not> completed c) (writerCommands s)"

definition commandsOk :: "output_writer \<Rightarrow> bool" where
  "commandsOk s \<longleftrightarrow> length (openCommands s) = (if inFlight s then 1 else 0) \<and>
     list_all (\<lambda>c. cgeneration c \<le> generation s) (writerCommands s)"

definition wfWriter :: "writer_options \<Rightarrow> output_writer \<Rightarrow> bool" where
  "wfWriter opts s \<longleftrightarrow> 0 < quantum opts \<and> ledgerOk s \<and> boundsOk opts s \<and> commandsOk s"

lemmas writer_inv = wfWriter_def ledgerOk_def boundsOk_def commandsOk_def openCommands_def queueOf_def

lemma takeParts_ok:
  assumes "takeParts q b ps = (cs, ks, b', rest)" and "partsOk ps" and "b \<le> q"
  shows "concat cs @ remaining rest = remaining ps \<and> b' = b + length (concat cs) \<and> b' \<le> q \<and> partsOk rest
    \<and> length rest \<le> length ps \<and> (ps \<noteq> [] \<and> b < q \<longrightarrow> b < b')"
  using assms
proof (induction q b ps arbitrary: cs ks b' rest rule: takeParts.induct)
  case (1 q b)
  then show ?case by simp
next
  case (2 q b p ps)
  let ?count = "min (length (pdata p) - poffset p) (q - b)"
  let ?p = "p\<lparr>poffset := poffset p + ?count\<rparr>"
  have split: "take ?count (drop (poffset p) (pdata p)) @ drop (poffset p + ?count) (pdata p) = drop (poffset p) (pdata p)"
    by (metis append_take_drop_id drop_drop add.commute)
  show ?case
  proof (cases "b < q")
    case False
    with "2.prems" show ?thesis by simp
  next
    case b: True
    then have pos: "0 < ?count" and le: "b + ?count \<le> q" using "2.prems"(2) by simp_all
    show ?thesis
    proof (cases "poffset ?p = length (pdata ?p)")
      case True
      obtain cs1 ks1 b1 r1 where r: "takeParts q (b + ?count) ps = (cs1, ks1, b1, r1)" by (metis prod_cases4)
      have ok: "partsOk ps" using "2.prems"(2) by simp
      from "2.IH"(1) [OF b refl refl refl True r ok le] have
        "concat cs1 @ remaining r1 = remaining ps" "b1 = b + ?count + length (concat cs1)" "b1 \<le> q" "partsOk r1"
        "length r1 \<le> length ps" by auto
      moreover have "cs = take ?count (drop (poffset p) (pdata p)) # cs1" "b' = b1" "rest = r1"
        using "2.prems"(1) b True r by (auto simp: Let_def)
      ultimately show ?thesis using split pos True by auto
    next
      case False
      obtain cs1 ks1 b1 r1 where r: "takeParts q (b + ?count) (?p # ps) = (cs1, ks1, b1, r1)" by (metis prod_cases4)
      have ok: "partsOk (?p # ps)" using "2.prems"(2) False by auto
      from "2.IH"(2) [OF b refl refl refl False _ r ok le] pos have
        "concat cs1 @ remaining r1 = remaining (?p # ps)" "b1 = b + ?count + length (concat cs1)" "b1 \<le> q" "partsOk r1"
        "length r1 \<le> length (?p # ps)" by auto
      moreover have "cs = take ?count (drop (poffset p) (pdata p)) # cs1" "b' = b1" "rest = r1"
        using "2.prems"(1) unfolding takeParts.simps(2) [of q b p ps] Let_def if_P [OF b] if_not_P [OF False] r
        using pos by simp_all
      ultimately show ?thesis using split pos by auto
    qed
  qed
qed

section \<open>Every operation keeps the invariant\<close>

text \<open>An effect that neither accepts nor writes leaves the ledger as it is.\<close>

definition silent :: "writer_effect \<Rightarrow> bool" where
  "silent e = (case e of Accepted _ _ _ \<Rightarrow> False | Written _ _ _ \<Rightarrow> False | _ \<Rightarrow> True)"

lemma silent_traced: "list_all silent es \<Longrightarrow> acceptedIn g r es = [] \<and> writtenIn g r es = [] \<and> list_all (effectOk opts i) es"
  by (induction es) (auto simp: silent_def acceptedIn_def writtenIn_def split: writer_effect.split)

lemma wf_emit: "wfWriter opts s \<Longrightarrow> list_all silent es \<Longrightarrow> wfWriter opts (emit es s)"
proof -
  assume w: "wfWriter opts s" and e: "list_all silent es"
  have [simp]: "acceptedIn g r es = []" "writtenIn g r es = []" "list_all (effectOk opts i) es" for g r i
    using silent_traced [OF e] by blast+
  have [simp]: "queueOf r (emit es s) = queueOf r s" for r by (simp add: queueOf_def emit_def)
  from w show ?thesis by (simp add: wfWriter_def ledgerOk_def boundsOk_def commandsOk_def openCommands_def)
      (simp add: emit_def split: if_splits)
qed

text \<open>Fields that the invariant does not read.\<close>

lemma wf_frame [simp]:
  "wfWriter opts (s\<lparr>task := t\<rparr>) = wfWriter opts s"
  "wfWriter opts (s\<lparr>microScheduled := b\<rparr>) = wfWriter opts s"
  "wfWriter opts (s\<lparr>disposed := b\<rparr>) = wfWriter opts s"
  "wfWriter opts (s\<lparr>desynchronized := b\<rparr>) = wfWriter opts s"
  "wfWriter opts (s\<lparr>scheduleGeneration := n\<rparr>) = wfWriter opts s"
  "wfWriter opts (s\<lparr>completing := c\<rparr>) = wfWriter opts s"
  by (simp_all add: writer_inv)

lemma cancelScheduled_wf: "wfWriter opts s \<Longrightarrow> wfWriter opts (cancelScheduled s)"
  by (auto simp: cancelScheduled_def silent_def split: option.split intro!: wf_emit)

lemma effects_mono: "list_all (effectOk opts g) tr \<Longrightarrow> g \<le> g' \<Longrightarrow> list_all (effectOk opts g') tr"
  by (auto simp: list_all_iff intro: effectOk_mono)

lemma wf_new_generation:
  assumes "wfWriter opts s"
  shows "wfWriter opts (s\<lparr>generation := generation s + 1, live := [], replay := [], liveBytes := 0, replayBytes := 0,
    inFlight := False\<rparr>)"
proof -
  have e: "list_all (effectOk opts (generation s)) (trace s)" using assms by (simp add: writer_inv)
  have "filter (\<lambda>c. cgeneration c = Suc (generation s) \<and> \<not> completed c) (writerCommands s) = []"
    using assms by (fastforce simp: writer_inv filter_empty_conv list_all_iff)
  with assms fresh_generation [OF e, of "Suc (generation s)"] effects_mono [OF e, of "Suc (generation s)"]
  show ?thesis by (auto simp: writer_inv list_all_iff)
qed

lemma discard_wf: "wfWriter opts s \<Longrightarrow> wfWriter opts (discard s)"
proof -
  assume w: "wfWriter opts s"
  let ?s = "s\<lparr>generation := generation s + 1, live := [], replay := [], liveBytes := 0, replayBytes := 0, inFlight := False\<rparr>"
  have "discard s = cancelScheduled ?s"
    by (simp add: discard_def cancelScheduled_def emit_def split: option.split)
  with cancelScheduled_wf [OF wf_new_generation [OF w]] show ?thesis by simp
qed

lemma overflow_wf: "wfWriter opts s \<Longrightarrow> wfWriter opts (overflow s)"
  by (auto simp: overflow_def discard_wf silent_def intro!: wf_emit)

lemma scheduleNext_wf: "wfWriter opts s \<Longrightarrow> wfWriter opts (scheduleNext opts admit i s)"
  by (auto simp: scheduleNext_def Let_def intro!: overflow_wf)

lemma flushNow_ledger:
  assumes w: "wfWriter opts s" and idle: "\<not> inFlight s" and q: "queueOf r s \<noteq> []"
    and take: "takeParts (quantum opts) 0 (queueOf r s) = (cs, ks, n, rest)"
  shows "wfWriter opts (emit [PostedBytes n, Written (generation s) r (if b then cs else [concat cs])]
      ((if r then s\<lparr>replay := rest, replayBytes := replayBytes s - int n\<rparr>
        else s\<lparr>live := rest, liveBytes := liveBytes s - int n\<rparr>)
       \<lparr>inFlight := True, writerCommands := writerCommands s @ [\<lparr>cgeneration = generation s, consumed = ks, completed = False\<rparr>]\<rparr>))"
    (is "wfWriter opts ?s")
proof -
  have ok: "partsOk (queueOf r s)" using w by (simp add: writer_inv)
  have t: "concat cs @ remaining rest = remaining (queueOf r s)" "n = length (concat cs)" "n \<le> quantum opts"
    "partsOk rest" "length rest \<le> length (queueOf r s)" "0 < n"
    using takeParts_ok [OF take ok] q w by (auto simp: wfWriter_def)
  have c: "concat (if b then cs else [concat cs]) = concat cs" by simp
  have other: "queueOf r' ?s = (if r' = r then rest else queueOf r' s)" for r'
    by (simp add: queueOf_def emit_def)
  have led: "writtenIn (generation s) r' (trace s) @ remaining (queueOf r' s) = acceptedIn (generation s) r' (trace s)" for r'
    using w by (simp add: wfWriter_def ledgerOk_def)
  let ?es = "[PostedBytes n, Written (generation s) r (if b then cs else [concat cs])]"
  have tr: "trace ?s = trace s @ ?es" "generation ?s = generation s" by (simp_all add: emit_def)
  have es: "acceptedIn g r' ?es = []" "writtenIn g r' ?es = (if g = generation s \<and> r' = r then concat cs else [])"
    for g r' by (auto simp: acceptedIn_def writtenIn_def)
  have fields: "generation ?s = generation s" "acceptedIn g r' (trace ?s) = acceptedIn g r' (trace s)"
    "writtenIn g r' (trace ?s) = writtenIn g r' (trace s) @ (if g = generation s \<and> r' = r then concat cs else [])"
    for g r' unfolding tr traced_simps(3,4) es by simp_all
  have "ledgerOk ?s"
    unfolding ledgerOk_def fields other
  proof (intro conjI allI)
    show "(writtenIn (generation s) r' (trace s) @ (if generation s = generation s \<and> r' = r then concat cs else [])) @
        remaining (if r' = r then rest else queueOf r' s) = acceptedIn (generation s) r' (trace s)" for r'
      using led [of r'] t(1) by (cases "r' = r") simp_all
    show "prefix (writtenIn g r' (trace s) @ (if g = generation s \<and> r' = r then concat cs else [])) (acceptedIn g r' (trace s))"
      for g r'
    proof (cases "g = generation s \<and> r' = r")
      case True
      from led [of r] t(1) have "acceptedIn (generation s) r (trace s) =
          (writtenIn (generation s) r (trace s) @ concat cs) @ remaining rest" by simp
      with True show ?thesis by simp
    next
      case False
      with w show ?thesis by (auto simp: wfWriter_def ledgerOk_def)
    qed
  qed
  moreover have "boundsOk opts ?s"
  proof -
    have len: "length (remaining (queueOf r s)) = n + length (remaining rest)"
      unfolding t(1) [symmetric] t(2) by simp
    have eff: "effectOk opts (generation s) (Written (generation s) r (if b then cs else [concat cs]))"
      using t(2,3,6) by (simp add: c)
    show ?thesis
    proof (cases r)
      case True
      with w t(4,5) len eff show ?thesis by (simp add: boundsOk_def wfWriter_def emit_def queueOf_def)
    next
      case False
      with w t(4,5) len eff show ?thesis by (simp add: boundsOk_def wfWriter_def emit_def queueOf_def)
    qed
  qed
  moreover have "commandsOk ?s"
    using w idle by (simp add: commandsOk_def openCommands_def wfWriter_def emit_def)
  ultimately show ?thesis using w by (simp add: wfWriter_def)
qed

lemma flushNow_wf: "wfWriter opts s \<Longrightarrow> wfWriter opts (flushNow opts s)"
proof (cases "disposed s \<or> desynchronized s \<or> inFlight s \<or> completing s \<noteq> None \<or> queueOf (replayBytes s > 0) s = []")
  case True
  assume "wfWriter opts s"
  with True show ?thesis by (auto simp: flushNow_def queueOf_def Let_def)
next
  case False
  assume w: "wfWriter opts s"
  let ?r = "replayBytes s > 0"
  obtain cs ks n rest where t: "takeParts (quantum opts) 0 (queueOf ?r s) = (cs, ks, n, rest)" by (metis prod_cases4)
  from False have f: "\<not> inFlight s" "queueOf ?r s \<noteq> []" by auto
  from flushNow_ledger [OF w f t, of "?r \<and> hasWriteReplay opts"] show ?thesis
    using False t by (simp add: flushNow_def Let_def queueOf_def split del: if_split)
qed

lemma onParsed_wf: "wfWriter opts s \<Longrightarrow> wfWriter opts (onParsed i s)"
proof -
  assume w: "wfWriter opts s"
  let ?c = "writerCommands s ! i"
  let ?s = "s\<lparr>writerCommands := (writerCommands s)[i := ?c\<lparr>completed := True\<rparr>], inFlight := False\<rparr>"
  show ?thesis
  proof (cases "i < length (writerCommands s) \<and> \<not> completed ?c \<and> \<not> disposed s \<and> cgeneration ?c = generation s")
    case False
    with w show ?thesis by (auto simp: onParsed_def Let_def)
  next
    case True
    then have i: "i < length (writerCommands s)" by simp
    let ?P = "\<lambda>c. cgeneration c = generation s \<and> \<not> completed c"
    let ?pre = "take i (writerCommands s)" and ?post = "drop (Suc i) (writerCommands s)"
    have split: "writerCommands s = ?pre @ ?c # ?post" using i by (simp add: id_take_nth_drop)
    have "length (filter ?P (?pre @ ?c # ?post)) \<le> 1"
      unfolding split [symmetric] using w by (simp add: wfWriter_def commandsOk_def openCommands_def split: if_splits)
    then have none: "filter ?P ?pre = []" "filter ?P ?post = []" using True by auto
    have upd: "(writerCommands s)[i := ?c\<lparr>completed := True\<rparr>] = ?pre @ ?c\<lparr>completed := True\<rparr> # ?post"
      using i by (rule upd_conv_take_nth_drop)
    have "list_all (\<lambda>c. cgeneration c \<le> generation s) (?pre @ ?c # ?post)"
      unfolding split [symmetric] using w by (simp add: wfWriter_def commandsOk_def)
    then have "commandsOk ?s"
      unfolding upd using none by (simp add: commandsOk_def openCommands_def)
    moreover have "queueOf r ?s = queueOf r s" for r by (simp add: queueOf_def)
    ultimately have "wfWriter opts ?s" using w by (simp add: wfWriter_def ledgerOk_def boundsOk_def)
    then have "wfWriter opts (?s\<lparr>completing := Some (cgeneration ?c, Acknowledging (consumed ?c))\<rparr>)" by simp
    with True show ?thesis by (simp add: onParsed_def Let_def)
  qed
qed

lemma completionStep_wf: "wfWriter opts s \<Longrightarrow> wfWriter opts (completionStep opts admit s)"
  by (auto simp: completionStep_def Let_def silent_def split: option.split completion_phase.split list.split
      intro!: wf_emit scheduleNext_wf)

lemma callbackThrew_wf: "wfWriter opts s \<Longrightarrow> wfWriter opts (callbackThrew s)"
  by (simp add: callbackThrew_def split: option.split)

lemma writeFailed_wf: "wfWriter opts s \<Longrightarrow> wfWriter opts (writeFailed i s)"
  by (simp add: writeFailed_def overflow_wf)

lemma enqueue_part_wf:
  assumes w: "wfWriter opts s" and d: "d \<noteq> []"
  shows "liveBytes s + int (length d) \<le> int (maxPending opts) \<Longrightarrow> length (live s) < MAX_PENDING_PARTS \<Longrightarrow>
      wfWriter opts (emit [Accepted (generation s) False d] (s\<lparr>live := live s @ [\<lparr>pdata = d, poffset = 0, onConsumed = k\<rparr>],
        liveBytes := liveBytes s + int (length d)\<rparr>))" (is "_ \<Longrightarrow> _ \<Longrightarrow> wfWriter opts ?l")
    and "replayBytes s + int (length d) \<le> int MAX_REPLAY_BYTES \<Longrightarrow> length (replay s) < MAX_PENDING_PARTS \<Longrightarrow>
      wfWriter opts (emit [Accepted (generation s) True d] (s\<lparr>replay := replay s @ [\<lparr>pdata = d, poffset = 0, onConsumed = k\<rparr>],
        replayBytes := replayBytes s + int (length d)\<rparr>))" (is "_ \<Longrightarrow> _ \<Longrightarrow> wfWriter opts ?r")
proof -
  have led: "writtenIn (generation s) r (trace s) @ remaining (queueOf r s) = acceptedIn (generation s) r (trace s)"
    "prefix (writtenIn g r (trace s)) (acceptedIn g r (trace s))" for g r
    using w by (simp_all add: wfWriter_def ledgerOk_def)
  have grow: "prefix (writtenIn g r (trace s)) (acceptedIn g r (trace s) @ xs)" for g r xs
    using led(2) by (rule prefix_prefix)
  have lg: "ledgerOk ?l" "ledgerOk ?r"
    unfolding ledgerOk_def using led(1) [of True] led(1) [of False] grow
    by (auto simp: emit_def queueOf_def simp del: append_assoc simp add: append_assoc [symmetric])
  show "wfWriter opts ?l" if "liveBytes s + int (length d) \<le> int (maxPending opts)" "length (live s) < MAX_PENDING_PARTS"
    using w d lg(1) that by (simp add: wfWriter_def boundsOk_def commandsOk_def openCommands_def) (simp add: emit_def split: if_splits)
  show "wfWriter opts ?r" if "replayBytes s + int (length d) \<le> int MAX_REPLAY_BYTES" "length (replay s) < MAX_PENDING_PARTS"
    using w d lg(2) that by (simp add: wfWriter_def boundsOk_def commandsOk_def openCommands_def) (simp add: emit_def split: if_splits)
qed

lemma output_enqueue_wf: "wfWriter opts s \<Longrightarrow> wfWriter opts (enqueue opts admit d k s)"
  by (auto simp: enqueue_def overflow_wf intro!: scheduleNext_wf enqueue_part_wf(1))

lemma enqueueReplay_wf: "wfWriter opts s \<Longrightarrow> wfWriter opts (enqueueReplay d k s)"
  by (auto simp: enqueueReplay_def overflow_wf intro!: enqueue_part_wf(2))

section \<open>Runs\<close>

datatype writer_op =
    Enqueue bool bytes "nat option"
  | EnqueueReplay bytes "nat option"
  | DiscardPending
  | Suspend
  | Flush
  | Dispose
  | RunTask nat
  | RunMicrotask nat
  | OnParsed nat
  | CompletionStep bool
  | CallbackThrew
  | WriteFailed nat

fun writer_step :: "writer_options \<Rightarrow> writer_op \<Rightarrow> output_writer \<Rightarrow> output_writer" where
  "writer_step opts (Enqueue admit d k) s = enqueue opts admit d k s"
| "writer_step opts (EnqueueReplay d k) s = enqueueReplay d k s"
| "writer_step opts DiscardPending s = discardPending s"
| "writer_step opts Suspend s = suspend s"
| "writer_step opts Flush s = flush opts s"
| "writer_step opts Dispose s = dispose s"
| "writer_step opts (RunTask g) s = runTask opts g s"
| "writer_step opts (RunMicrotask g) s = runMicrotask opts g s"
| "writer_step opts (OnParsed i) s = onParsed i s"
| "writer_step opts (CompletionStep admit) s = completionStep opts admit s"
| "writer_step opts CallbackThrew s = callbackThrew s"
| "writer_step opts (WriteFailed i) s = writeFailed i s"

lemma writer_step_wf: "wfWriter opts s \<Longrightarrow> wfWriter opts (writer_step opts e s)"
  by (cases e) (auto simp: output_enqueue_wf enqueueReplay_wf discardPending_def suspend_def discard_wf flush_def flushNow_wf
      cancelScheduled_wf dispose_def runTask_def runMicrotask_def onParsed_wf completionStep_wf callbackThrew_wf writeFailed_wf)

interpretation writer_machine: event_machine "writer_step opts" "wfWriter opts" for opts
  by unfold_locales (rule writer_step_wf)

lemma newWriter_wf: "createTerminalOutputWriter opts = Some s \<Longrightarrow> wfWriter opts s"
  by (auto simp: createTerminalOutputWriter_def writer_inv split: if_splits)

section \<open>No stall\<close>

definition scheduledOrBusy :: "output_writer \<Rightarrow> bool" where
  "scheduledOrBusy s \<longleftrightarrow> task s \<noteq> None \<or> microScheduled s \<or> inFlight s \<or> (\<exists>ph. completing s = Some (generation s, ph))"

text \<open>Live bytes of a working writer always have something that will move them.\<close>

definition driven :: "output_writer \<Rightarrow> bool" where
  "driven s \<longleftrightarrow> (\<not> disposed s \<and> \<not> desynchronized s \<and> 0 < liveBytes s \<longrightarrow> scheduledOrBusy s)"

text \<open>
  Tasks and microtasks do not run inside a callback, and a callback that has discarded the queue does
  not call \<open>flush\<close> before it returns.
\<close>

fun stepAllowed :: "output_writer \<Rightarrow> writer_op \<Rightarrow> bool" where
  "stepAllowed s (RunTask g) = (completing s = None)"
| "stepAllowed s (RunMicrotask g) = (completing s = None)"
| "stepAllowed s Flush = (case completing s of None \<Rightarrow> True | Some (g, ph) \<Rightarrow> g = generation s)"
| "stepAllowed s _ = True"

fun runAllowed :: "writer_options \<Rightarrow> output_writer \<Rightarrow> writer_op list \<Rightarrow> bool" where
  "runAllowed opts s [] = True"
| "runAllowed opts s (e # es) = (stepAllowed s e \<and> runAllowed opts (writer_step opts e s) es)"

lemma driven_overflow: "driven (overflow s)"
  by (simp add: driven_def overflow_def emit_def)

lemma scheduleNext_driven:
  assumes "0 \<le> replayBytes s"
  shows "driven (scheduleNext opts admit i s)"
proof (cases "disposed s \<or> desynchronized s \<or> inFlight s \<or> task s \<noteq> None \<or> microScheduled s \<or> liveBytes s + replayBytes s = 0")
  case True
  with assms show ?thesis by (auto simp: scheduleNext_def driven_def scheduledOrBusy_def)
next
  case False
  then show ?thesis
    by (simp add: scheduleNext_def Let_def driven_overflow) (simp add: driven_def scheduledOrBusy_def)
qed

lemma flushNow_driven:
  assumes w: "wfWriter opts s" and c: "completing s = None \<or> driven (s\<lparr>task := None, microScheduled := False\<rparr>)"
  shows "driven (flushNow opts s)"
proof (cases "disposed s \<or> desynchronized s \<or> inFlight s \<or> completing s \<noteq> None")
  case True
  then have "flushNow opts s = s" by (auto simp: flushNow_def)
  with True c show ?thesis by (auto simp: driven_def scheduledOrBusy_def)
next
  case False
  show ?thesis
  proof (cases "queueOf (replayBytes s > 0) s = []")
    case True
    then have "liveBytes s = 0 \<or> replay s = [] \<and> replayBytes s > 0"
      using w by (auto simp: queueOf_def wfWriter_def boundsOk_def split: if_splits)
    moreover have "replay s = [] \<Longrightarrow> replayBytes s = 0" using w by (simp add: wfWriter_def boundsOk_def)
    ultimately have "liveBytes s = 0" by auto
    with True False show ?thesis by (auto simp: flushNow_def driven_def queueOf_def Let_def)
  next
    case nonempty: False
    with False have "inFlight (flushNow opts s)"
      by (auto simp: flushNow_def queueOf_def Let_def emit_def split: prod.split)
    then show ?thesis by (simp add: driven_def scheduledOrBusy_def)
  qed
qed

lemma cancelScheduled_fields:
  "generation (cancelScheduled s) = generation s" "completing (cancelScheduled s) = completing s"
  "liveBytes (cancelScheduled s) = liveBytes s" "disposed (cancelScheduled s) = disposed s"
  "desynchronized (cancelScheduled s) = desynchronized s" "inFlight (cancelScheduled s) = inFlight s"
  by (simp_all add: cancelScheduled_def emit_def)

lemma discard_driven: "liveBytes (discard s) = 0" "liveBytes (discard s\<lparr>desynchronized := b\<rparr>) = 0"
  by (simp_all add: discard_def)

lemma driven_step:
  assumes w: "wfWriter opts s" and d: "driven s" and a: "stepAllowed s e"
  shows "driven (writer_step opts e s)"
proof -
  have pos: "0 \<le> replayBytes s" using w by (simp add: wfWriter_def boundsOk_def)
  show ?thesis
  proof (cases e)
    case (Enqueue admit x k)
    then show ?thesis
      using d pos by (auto simp: enqueue_def driven_overflow emit_def intro!: scheduleNext_driven)
  next
    case (EnqueueReplay x k)
    then show ?thesis
      using d by (auto simp: enqueueReplay_def driven_overflow) (simp add: driven_def scheduledOrBusy_def emit_def)
  next
    case Flush
    have "completing s = None \<or> (\<exists>ph. completing s = Some (generation s, ph))"
      using a Flush by (auto split: option.splits)
    then have "completing (cancelScheduled s) = None \<or>
        driven (cancelScheduled s\<lparr>task := None, microScheduled := False\<rparr>)"
      by (auto simp: driven_def scheduledOrBusy_def cancelScheduled_fields)
    then show ?thesis
      using Flush flushNow_driven [OF cancelScheduled_wf [OF w]] by (simp add: flush_def)
  next
    case (RunTask g)
    have "wfWriter opts (s\<lparr>task := None\<rparr>)" using w by simp
    from flushNow_driven [OF this] RunTask a d show ?thesis by (simp add: runTask_def)
  next
    case (RunMicrotask g)
    have "wfWriter opts (s\<lparr>microScheduled := False\<rparr>)" using w by simp
    from flushNow_driven [OF this] RunMicrotask a d show ?thesis by (simp add: runMicrotask_def)
  next
    case (OnParsed i)
    then show ?thesis using d by (auto simp: onParsed_def Let_def driven_def scheduledOrBusy_def)
  next
    case (CompletionStep admit)
    show ?thesis
    proof (cases "completing s")
      case None
      with CompletionStep d show ?thesis by (simp add: completionStep_def)
    next
      case (Some gp)
      obtain g ph where gp: "gp = (g, ph)" by (cases gp)
      have keep: "driven (s\<lparr>completing := Some (g, ph')\<rparr>)" for ph'
        using d Some gp by (auto simp: driven_def scheduledOrBusy_def)
      then have keep': "driven (emit es (s\<lparr>completing := Some (g, ph')\<rparr>))" for es ph'
        by (simp add: driven_def scheduledOrBusy_def emit_def)
      have stale: "g \<noteq> generation s \<Longrightarrow> driven (s\<lparr>completing := None\<rparr>)"
        using d Some gp by (auto simp: driven_def scheduledOrBusy_def)
      have sched: "driven (scheduleNext opts admit False (s\<lparr>completing := None\<rparr>))"
        by (rule scheduleNext_driven) (simp add: pos)
      show ?thesis
        using CompletionStep Some gp keep keep' stale sched
        by (auto simp: completionStep_def Let_def split: completion_phase.split list.split)
    qed
  next
    case CallbackThrew
    then show ?thesis using d by (auto simp: callbackThrew_def driven_def scheduledOrBusy_def split: option.splits)
  next
    case (WriteFailed i)
    then show ?thesis using d by (simp add: writeFailed_def driven_overflow)
  qed (simp_all add: discardPending_def suspend_def dispose_def driven_def discard_driven)
qed

lemma driven_run:
  "wfWriter opts s \<Longrightarrow> driven s \<Longrightarrow> runAllowed opts s es \<Longrightarrow> driven (fold (writer_step opts) es s)"
  by (induction es arbitrary: s) (auto intro: driven_step writer_step_wf)

section \<open>Properties\<close>

text \<open>
  C31: Whatever the callers, the task scheduler, the parser and the callbacks do, in every generation the
  bytes written to the parser, for live output and for the replay, are a prefix of the bytes accepted;
  and in the current generation what is queued is exactly the rest: no byte is lost, repeated or moved.
\<close>

theorem output_order:
  assumes "createTerminalOutputWriter opts = Some s0"
  shows "let s = fold (writer_step opts) es s0 in
    prefix (writtenIn g r (trace s)) (acceptedIn g r (trace s)) \<and>
    writtenIn (generation s) r (trace s) @ remaining (queueOf r s) = acceptedIn (generation s) r (trace s)"
  using writer_machine.run_inv [OF newWriter_wf [OF assms], of es] by (simp add: Let_def wfWriter_def ledgerOk_def)

theorem output_order_witness:
  "let opts = \<lparr>maxPending = 8, quantum = 2, interactiveMax = 4, hasWriteReplay = False\<rparr> in
   \<exists>s0. createTerminalOutputWriter opts = Some s0 \<and>
    (let s = fold (writer_step opts) [Enqueue True [1, 2, 3] (Some 0), Flush, OnParsed 0] s0 in
      prefix (writtenIn 0 False (trace s)) (acceptedIn 0 False (trace s)) \<and>
      writtenIn (generation s) False (trace s) @ remaining (queueOf False s) = acceptedIn (generation s) False (trace s))"
proof -
  let ?o = "\<lparr>maxPending = 8, quantum = 2, interactiveMax = 4, hasWriteReplay = False\<rparr>"
  obtain s0 where s: "createTerminalOutputWriter ?o = Some s0" by (simp add: createTerminalOutputWriter_def)
  from output_order [OF s] s show ?thesis unfolding Let_def by blast
qed

text \<open>
  Backpressure: the byte counters are the lengths of what is queued, the queues stay within their
  byte and part limits, each command carries at least one byte and at most one quantum, and the command
  in flight is the only one of the current generation that is not acknowledged.
\<close>

theorem output_bounded:
  assumes "createTerminalOutputWriter opts = Some s0"
  shows "let s = fold (writer_step opts) es s0 in
    boundsOk opts s \<and> length (openCommands s) = (if inFlight s then 1 else 0)"
  using writer_machine.run_inv [OF newWriter_wf [OF assms], of es] by (simp add: Let_def wfWriter_def commandsOk_def)

theorem output_bounded_witness:
  "let opts = \<lparr>maxPending = 8, quantum = 2, interactiveMax = 4, hasWriteReplay = True\<rparr> in
   \<exists>s0. createTerminalOutputWriter opts = Some s0 \<and>
    (let s = fold (writer_step opts) [EnqueueReplay [1, 2, 3] None, Flush, Enqueue True (replicate 9 0) None] s0 in
      boundsOk opts s \<and> length (openCommands s) = (if inFlight s then 1 else 0))"
proof -
  let ?o = "\<lparr>maxPending = 8, quantum = 2, interactiveMax = 4, hasWriteReplay = True\<rparr>"
  obtain s0 where s: "createTerminalOutputWriter ?o = Some s0" by (simp add: createTerminalOutputWriter_def)
  from output_bounded [OF s] s show ?thesis unfolding Let_def by blast
qed

text \<open>
  C32: Live output does not stall: as long as no callback flushes after it has discarded the queue, a
  writer that is neither disposed nor desynchronized and has live bytes has a task or microtask
  scheduled, a command in flight, or a completion running that will schedule the next one.
\<close>

theorem output_driven:
  assumes "createTerminalOutputWriter opts = Some s0" and "runAllowed opts s0 es"
  shows "driven (fold (writer_step opts) es s0)"
proof (rule driven_run [OF newWriter_wf [OF assms(1)] _ assms(2)])
  show "driven s0"
    using assms(1) by (auto simp: createTerminalOutputWriter_def driven_def split: if_splits)
qed

theorem output_driven_witness:
  "let opts = \<lparr>maxPending = 8, quantum = 2, interactiveMax = 4, hasWriteReplay = False\<rparr> in
   \<exists>s0. createTerminalOutputWriter opts = Some s0 \<and> 0 < liveBytes (writer_step opts (Enqueue True [1, 2, 3] None) s0) \<and>
    driven (fold (writer_step opts) [Enqueue True [1, 2, 3] None, Flush, OnParsed 0] s0)"
proof -
  let ?o = "\<lparr>maxPending = 8, quantum = 2, interactiveMax = 4, hasWriteReplay = False\<rparr>"
  obtain s0 where s: "createTerminalOutputWriter ?o = Some s0" by (simp add: createTerminalOutputWriter_def)
  then have e: "s0 = \<lparr>live = [], replay = [], liveBytes = 0, replayBytes = 0, task = None, microScheduled = False,
      inFlight = False, disposed = False, desynchronized = False, generation = 0, scheduleGeneration = 0,
      completing = None, writerCommands = [], trace = []\<rparr>" by (simp add: createTerminalOutputWriter_def)
  have "runAllowed ?o s0 [Enqueue True [1, 2, 3] None, Flush, OnParsed 0]"
    unfolding e by (simp add: enqueue_def scheduleNext_def emit_def MAX_PENDING_PARTS_def)
  from output_driven [OF s this] s show ?thesis
    unfolding e Let_def by (auto simp: enqueue_def scheduleNext_def emit_def MAX_PENDING_PARTS_def)
qed

end
