(* ===== verification/ByteCodec.thy ===== *)
theory ByteCodec
  imports Prelude "HOL-Library.Word"
begin

text \<open>
  Fixed-width big-endian fields, as \<open>DataView\<close> reads and writes them, and the locale
  \<open>fixed_codec\<close> by which a frame's lemmas read back a field from between its neighbours.
\<close>

type_synonym octets = "8 word list"

section \<open>Big-endian naturals\<close>

text \<open>\<open>setUint16\<close>, \<open>setUint32\<close> and \<open>setBigUint64\<close>: the low \<open>k\<close> bytes, the most significant first.\<close>

fun be :: "nat \<Rightarrow> nat \<Rightarrow> octets" where
  "be 0 n = []"
| "be (Suc k) n = be k (n div 256) @ [of_nat (n mod 256)]"

text \<open>\<open>getUint16\<close>, \<open>getUint32\<close> and \<open>getBigUint64\<close>.\<close>

definition ofBe :: "octets \<Rightarrow> nat" where
  "ofBe bs = foldl (\<lambda>a b. a * 256 + unat b) 0 bs"

definition getAt :: "nat \<Rightarrow> nat \<Rightarrow> octets \<Rightarrow> nat" where
  "getAt k off bs = ofBe (take k (drop off bs))"

lemma length_be [simp]: "length (be k n) = k"
  by (induction k n rule: be.induct) auto

lemma ofBe_snoc: "ofBe (bs @ [b]) = ofBe bs * 256 + unat b"
  by (simp add: ofBe_def)

lemma ofBe_be: "ofBe (be k n) = n mod 256 ^ k"
proof (induction k n rule: be.induct)
  case (1 n)
  show ?case by (simp add: ofBe_def)
next
  case (2 k n)
  have "unat (of_nat (n mod 256) :: 8 word) = n mod 256" by (simp add: unat_of_nat)
  with 2 show ?case by (simp add: ofBe_snoc mod_mult2_eq)
qed

lemma be_ofBe: "be (length bs) (ofBe bs) = bs"
proof (induction bs rule: rev_induct)
  case Nil
  show ?case by simp
next
  case (snoc b bs)
  have lt: "unat b < 256" using unsigned_less [of b] by simp
  then have "(ofBe bs * 256 + unat b) div 256 = ofBe bs" "(ofBe bs * 256 + unat b) mod 256 = unat b" by simp_all
  with snoc show ?case by (simp add: ofBe_snoc)
qed

lemma ofBe_bound: "ofBe bs < 256 ^ length bs"
proof -
  have "ofBe bs = ofBe (be (length bs) (ofBe bs))" by (simp add: be_ofBe)
  also have "\<dots> < 256 ^ length bs" unfolding ofBe_be by simp
  finally show ?thesis .
qed

lemma take_drop_nth: "i < length bs \<Longrightarrow> take 1 (drop i bs) = [bs ! i]"
  by (metis One_nat_def take_Suc_Cons take_0 Cons_nth_drop_Suc)

section \<open>Fields\<close>

locale fixed_codec =
  fixes enc :: "'a \<Rightarrow> octets"
    and dec :: "octets \<Rightarrow> 'a"
    and len :: nat
    and valid :: "'a \<Rightarrow> bool"
  assumes enc_len: "length (enc x) = len"
    and dec_enc: "valid x \<Longrightarrow> dec (enc x) = x"
    and enc_dec: "length bs = len \<Longrightarrow> enc (dec bs) = bs \<and> valid (dec bs)"
begin

text \<open>Read back from between the bytes before it and the bytes after it.\<close>

lemma read_back:
  assumes "valid x" and "length pre = off"
  shows "dec (take len (drop off (pre @ enc x @ post))) = x"
proof -
  have "take len (enc x @ post) = enc x" using enc_len [of x] by simp
  with assms show ?thesis by (simp add: dec_enc)
qed

text \<open>The bytes at an offset are the encoding of what is read there.\<close>

lemma reencode:
  assumes "off + len \<le> length bs"
  shows "take off bs @ enc (dec (take len (drop off bs))) @ drop (off + len) bs = bs"
proof -
  have "length (take len (drop off bs)) = len" using assms by simp
  from enc_dec [OF this] have "enc (dec (take len (drop off bs))) = take len (drop off bs)" by blast
  then show ?thesis by (metis append_take_drop_id drop_drop add.commute)
qed

lemma enc_inj: "valid x \<Longrightarrow> valid y \<Longrightarrow> enc x = enc y \<Longrightarrow> x = y"
  by (metis dec_enc)

end

interpretation be_field: fixed_codec "be k" ofBe k "\<lambda>n. n < 256 ^ k" for k
proof unfold_locales
  show "be k (ofBe bs) = bs \<and> ofBe bs < 256 ^ k" if "length bs = k" for bs
    using be_ofBe [of bs] ofBe_bound [of bs] that by simp
qed (simp_all add: ofBe_be)

end
