(* ===== verification/TerminalWs.thy ===== *)
theory TerminalWs
  imports ByteCodec
begin

text \<open>
  The binary terminal protocol of the WebSocket, \<open>packages/yaade-rpc/src/terminal-ws.ts\<close>: the frames a
  client sends, the decoder for what the host sends (protocol 4 and the older data frames 2 and 1) and
  the JSON helpers. \<open>TextEncoder\<close> and \<open>TextDecoder\<close>, which the code looks up on \<open>globalThis\<close>, and
  \<open>JSON.stringify\<close> are parameters. The lemmas show that every frame reads back as what was encoded and
  that a protocol frame is accepted only when it is exactly the encoding of what it decodes to.
\<close>

section \<open>Constants and values\<close>

datatype protocol_frame =
    Hello | Attach | AttachAck | Snapshot | Ready | PtyData | Input | Resize
  | ScrollbackBegin | ScrollbackChunk | ScrollbackEnd | ResyncRequest | ResyncBegin
  | SessionExit | ErrorFrame | Ping | Pong | Detach | ControlAck

fun protocolCode :: "protocol_frame \<Rightarrow> 8 word" where
  "protocolCode Hello = 1"
| "protocolCode Attach = 2"
| "protocolCode AttachAck = 3"
| "protocolCode Snapshot = 4"
| "protocolCode Ready = 5"
| "protocolCode PtyData = 6"
| "protocolCode Input = 7"
| "protocolCode Resize = 8"
| "protocolCode ScrollbackBegin = 9"
| "protocolCode ScrollbackChunk = 10"
| "protocolCode ScrollbackEnd = 11"
| "protocolCode ResyncRequest = 12"
| "protocolCode ResyncBegin = 13"
| "protocolCode SessionExit = 14"
| "protocolCode ErrorFrame = 15"
| "protocolCode Ping = 16"
| "protocolCode Pong = 17"
| "protocolCode Detach = 18"
| "protocolCode ControlAck = 19"

definition TERMINAL_DATA_FRAME_TYPE_V1 :: "8 word" where "TERMINAL_DATA_FRAME_TYPE_V1 = 1"
definition TERMINAL_DATA_FRAME_TYPE :: "8 word" where "TERMINAL_DATA_FRAME_TYPE = 2"
definition TERMINAL_PROTOCOL_VERSION :: "8 word" where "TERMINAL_PROTOCOL_VERSION = 4"
definition TERMINAL_PROTOCOL_HEADER_BYTES :: nat where "TERMINAL_PROTOCOL_HEADER_BYTES = 36"
definition TERMINAL_PROTOCOL_MAGIC_0 :: "8 word" where "TERMINAL_PROTOCOL_MAGIC_0 = 0x50"
definition TERMINAL_PROTOCOL_MAGIC_1 :: "8 word" where "TERMINAL_PROTOCOL_MAGIC_1 = 0x44"

datatype frame_error =
    IdTooLong | UnsafePosition | EmptyInput | InvalidCursor | InvalidByteLimit | InvalidResize

text \<open>A step that may throw, followed by the rest.\<close>

fun andThen :: "'e + 'a \<Rightarrow> ('a \<Rightarrow> 'e + 'b) \<Rightarrow> 'e + 'b" where
  "andThen (Inl e) f = Inl e"
| "andThen (Inr x) f = f x"

lemma andThen_Inr: "andThen m f = Inr y \<longleftrightarrow> (\<exists>x. m = Inr x \<and> f x = Inr y)"
  by (cases m) auto

definition toU64 :: "js_num \<Rightarrow> frame_error + nat" where
  "toU64 v = (if \<not> isSafeInteger v \<or> finValue v < 0 then Inl UnsafePosition else Inr (nat \<lfloor>finValue v\<rfloor>))"

definition fromU64 :: "nat \<Rightarrow> nat option" where
  "fromU64 n = (if int n > maxSafeInteger then None else Some n)"

definition isIntegerNum :: "js_num \<Rightarrow> bool" where
  "isIntegerNum v = (case v of Fin q \<Rightarrow> of_int \<lfloor>q\<rfloor> = q | _ \<Rightarrow> False)"

section \<open>Encoding\<close>

definition encodeTerminalDataFrame :: "(string \<Rightarrow> octets) \<Rightarrow> js_num \<Rightarrow> js_num \<Rightarrow> string \<Rightarrow> octets \<Rightarrow> frame_error + octets" where
  "encodeTerminalDataFrame utf8Encode eventSequence terminalSequence i payload =
     (let idBytes = utf8Encode i in
      if length idBytes > 0xffff then Inl IdTooLong
      else andThen (toU64 eventSequence) (\<lambda>es. andThen (toU64 terminalSequence) (\<lambda>ts.
        Inr ([TERMINAL_DATA_FRAME_TYPE] @ be 8 es @ be 8 ts @ be 2 (length idBytes) @ idBytes @ payload))))"

text \<open>The 36 bytes of a header; bytes 4 and 5 keep the zeros of the fresh buffer.\<close>

definition protocolHeader :: "8 word \<Rightarrow> js_num \<Rightarrow> js_num \<Rightarrow> js_num \<Rightarrow> nat \<Rightarrow> frame_error + octets" where
  "protocolHeader code streamId streamEpoch seqNo payloadLength =
     andThen (toU64 streamId) (\<lambda>i. andThen (toU64 streamEpoch) (\<lambda>e. andThen (toU64 seqNo) (\<lambda>q.
       Inr ([TERMINAL_PROTOCOL_MAGIC_0, TERMINAL_PROTOCOL_MAGIC_1, TERMINAL_PROTOCOL_VERSION, code] @ [0, 0]
         @ be 2 TERMINAL_PROTOCOL_HEADER_BYTES @ be 8 i @ be 8 e @ be 8 q @ be 4 payloadLength))))"

definition encodeProtocolFrame :: "8 word \<Rightarrow> js_num \<Rightarrow> js_num \<Rightarrow> js_num \<Rightarrow> octets \<Rightarrow> frame_error + octets" where
  "encodeProtocolFrame code streamId streamEpoch seqNo payload =
     andThen (protocolHeader code streamId streamEpoch seqNo (length payload)) (\<lambda>h. Inr (h @ payload))"

text \<open>\<open>text\<close> stands for \<open>utf8Encode(JSON.stringify(value))\<close>.\<close>

definition encodeStructuredControl :: "(json \<Rightarrow> octets) \<Rightarrow> 8 word \<Rightarrow> js_num \<Rightarrow> js_num \<Rightarrow> js_num \<Rightarrow> json \<Rightarrow> frame_error + octets" where
  "encodeStructuredControl jsonBytes code streamId streamEpoch seqNo v =
     encodeProtocolFrame code streamId streamEpoch seqNo (jsonBytes v)"

definition controlRequest :: "string \<Rightarrow> string \<Rightarrow> json list \<Rightarrow> json" where
  "controlRequest requestId op args = JObj [(''requestId'', JStr requestId), (''op'', JStr op), (''args'', JArr args)]"

definition encodeTerminalAttachFrame ::
  "(json \<Rightarrow> octets) \<Rightarrow> js_num \<Rightarrow> string \<Rightarrow> string \<Rightarrow> js_num \<Rightarrow> string \<Rightarrow> frame_error + octets" where
  "encodeTerminalAttachFrame jsonBytes seqNo requestId terminalId afterSequence mode =
     encodeStructuredControl jsonBytes (protocolCode Attach) (Fin 0) (Fin 0) seqNo
       (controlRequest requestId ''terminal:attach'' [JStr terminalId, JNum afterSequence, JStr mode])"

definition encodeTerminalReadyFrame ::
  "(json \<Rightarrow> octets) \<Rightarrow> js_num \<Rightarrow> js_num \<Rightarrow> js_num \<Rightarrow> string \<Rightarrow> frame_error + octets" where
  "encodeTerminalReadyFrame jsonBytes streamId streamEpoch seqNo requestId =
     encodeStructuredControl jsonBytes (protocolCode Ready) streamId streamEpoch seqNo
       (controlRequest requestId ''terminal:ready'' [])"

definition encodeTerminalDetachFrame ::
  "(json \<Rightarrow> octets) \<Rightarrow> js_num \<Rightarrow> js_num \<Rightarrow> js_num \<Rightarrow> string \<Rightarrow> frame_error + octets" where
  "encodeTerminalDetachFrame jsonBytes streamId streamEpoch seqNo requestId =
     encodeStructuredControl jsonBytes (protocolCode Detach) streamId streamEpoch seqNo
       (controlRequest requestId ''terminal:detach'' [])"

definition encodeTerminalAckFrame :: "js_num \<Rightarrow> js_num \<Rightarrow> js_num \<Rightarrow> frame_error + octets" where
  "encodeTerminalAckFrame streamId streamEpoch seqNo = encodeProtocolFrame (protocolCode Pong) streamId streamEpoch seqNo []"

definition encodeTerminalPingFrame :: "js_num \<Rightarrow> frame_error + octets" where
  "encodeTerminalPingFrame seqNo = encodeProtocolFrame (protocolCode Ping) (Fin 0) (Fin 0) seqNo []"

definition encodeTerminalResyncRequest :: "js_num \<Rightarrow> js_num \<Rightarrow> js_num \<Rightarrow> frame_error + octets" where
  "encodeTerminalResyncRequest streamId streamEpoch seqNo =
     encodeProtocolFrame (protocolCode ResyncRequest) streamId streamEpoch seqNo []"

definition encodeTerminalInputFrame :: "js_num \<Rightarrow> js_num \<Rightarrow> js_num \<Rightarrow> octets \<Rightarrow> frame_error + octets" where
  "encodeTerminalInputFrame streamId streamEpoch seqNo payload =
     (if length payload = 0 then Inl EmptyInput
      else andThen (protocolHeader (protocolCode Input) streamId streamEpoch seqNo (length payload)) (\<lambda>h. Inr (h @ payload)))"

definition encodeTerminalScrollbackRequest ::
  "js_num \<Rightarrow> js_num \<Rightarrow> js_num \<Rightarrow> js_num \<Rightarrow> js_num \<Rightarrow> bool \<Rightarrow> frame_error + octets" where
  "encodeTerminalScrollbackRequest streamId streamEpoch seqNo cursor maxBytes backwards =
     (if \<not> isSafeInteger cursor \<or> finValue cursor < 0 then Inl InvalidCursor
      else if \<not> isSafeInteger maxBytes \<or> finValue maxBytes < 1 \<or> finValue maxBytes > 8 * 1024 * 1024 then Inl InvalidByteLimit
      else andThen (protocolHeader (protocolCode ScrollbackBegin) streamId streamEpoch seqNo 13) (\<lambda>h.
        andThen (toU64 cursor) (\<lambda>c.
          Inr (h @ be 8 c @ be 4 (nat \<lfloor>finValue maxBytes\<rfloor>) @ [if backwards then 1 else 0]))))"

definition encodeTerminalResizeFrame ::
  "js_num \<Rightarrow> js_num \<Rightarrow> js_num \<Rightarrow> js_num \<Rightarrow> js_num \<Rightarrow> frame_error + octets" where
  "encodeTerminalResizeFrame streamId streamEpoch seqNo cols rows =
     (if \<not> isIntegerNum cols \<or> \<not> isIntegerNum rows \<or> finValue cols < 1 \<or> finValue rows < 1
          \<or> finValue cols > 0xffff \<or> finValue rows > 0xffff then Inl InvalidResize
      else andThen (protocolHeader (protocolCode Resize) streamId streamEpoch seqNo 4) (\<lambda>h.
        Inr (h @ be 2 (nat \<lfloor>finValue cols\<rfloor>) @ be 2 (nat \<lfloor>finValue rows\<rfloor>))))"

section \<open>Decoding\<close>

record decoded_frame =
  eventSequence :: nat
  terminalSequence :: nat
  frameTerminal :: "string option"
  streamId :: "nat option"
  streamEpoch :: "nat option"
  frameType :: "protocol_frame option"
  payload :: octets

text \<open>The conditional chain over byte 3, in its order: the frames a host sends.\<close>

definition hostFrames :: "protocol_frame list" where
  "hostFrames = [Hello, AttachAck, Snapshot, Ready, PtyData, ScrollbackBegin, ScrollbackChunk, ScrollbackEnd,
     ResyncBegin, SessionExit, ErrorFrame, Pong, ControlAck]"

definition hostFrameType :: "8 word \<Rightarrow> protocol_frame option" where
  "hostFrameType b = find (\<lambda>k. b = protocolCode k) hostFrames"

definition decodeProtocolFrame :: "octets \<Rightarrow> decoded_frame option" where
  "decodeProtocolFrame buf =
     (case hostFrameType (buf ! 3) of
        None \<Rightarrow> None
      | Some k \<Rightarrow>
          if buf ! 2 \<noteq> TERMINAL_PROTOCOL_VERSION then None
          else if getAt 2 4 buf \<noteq> 0 \<or> getAt 2 6 buf \<noteq> TERMINAL_PROTOCOL_HEADER_BYTES then None
          else (let payloadLength = getAt 4 32 buf in
            if k \<in> {Snapshot, PtyData, ScrollbackChunk} \<and> payloadLength = 0 then None
            else if length buf \<noteq> TERMINAL_PROTOCOL_HEADER_BYTES + payloadLength then None
            else (case (fromU64 (getAt 8 8 buf), fromU64 (getAt 8 16 buf), fromU64 (getAt 8 24 buf)) of
                (Some i, Some e, Some q) \<Rightarrow>
                  if k = PtyData \<and> q < payloadLength then None
                  else Some \<lparr>eventSequence = 0, terminalSequence = q, frameTerminal = None, streamId = Some i,
                    streamEpoch = Some e, frameType = Some k, payload = drop TERMINAL_PROTOCOL_HEADER_BYTES buf\<rparr>
              | _ \<Rightarrow> None)))"

definition decodeDataV2 :: "(octets \<Rightarrow> string) \<Rightarrow> octets \<Rightarrow> decoded_frame option" where
  "decodeDataV2 utf8Decode buf =
     (if length buf < 19 then None
      else (case (fromU64 (getAt 8 1 buf), fromU64 (getAt 8 9 buf)) of
          (Some es, Some ts) \<Rightarrow>
            (let idLen = getAt 2 17 buf in
             if 19 + idLen > length buf then None
             else Some \<lparr>eventSequence = es, terminalSequence = ts,
               frameTerminal = Some (utf8Decode (take idLen (drop 19 buf))), streamId = None, streamEpoch = None,
               frameType = None, payload = drop (19 + idLen) buf\<rparr>)
        | _ \<Rightarrow> None))"

definition decodeDataV1 :: "(octets \<Rightarrow> string) \<Rightarrow> octets \<Rightarrow> decoded_frame option" where
  "decodeDataV1 utf8Decode buf =
     (let idLen = getAt 2 9 buf in
      if 11 + idLen > length buf then None
      else Some \<lparr>eventSequence = getAt 4 1 buf, terminalSequence = getAt 4 5 buf,
        frameTerminal = Some (utf8Decode (take idLen (drop 11 buf))), streamId = None, streamEpoch = None,
        frameType = None, payload = drop (11 + idLen) buf\<rparr>)"

definition decodeTerminalDataFrame :: "(octets \<Rightarrow> string) \<Rightarrow> octets \<Rightarrow> decoded_frame option" where
  "decodeTerminalDataFrame utf8Decode buf =
     (if length buf < 11 then None
      else if length buf \<ge> TERMINAL_PROTOCOL_HEADER_BYTES \<and> buf ! 0 = TERMINAL_PROTOCOL_MAGIC_0
          \<and> buf ! 1 = TERMINAL_PROTOCOL_MAGIC_1 then decodeProtocolFrame buf
      else if buf ! 0 = TERMINAL_DATA_FRAME_TYPE then decodeDataV2 utf8Decode buf
      else if buf ! 0 \<noteq> TERMINAL_DATA_FRAME_TYPE_V1 then None
      else decodeDataV1 utf8Decode buf)"

section \<open>JSON helpers\<close>

definition jmember :: "json \<Rightarrow> string \<Rightarrow> json option" where
  "jmember v k = (case v of JObj kvs \<Rightarrow> map_of kvs k | _ \<Rightarrow> None)"

fun isObject :: "json \<Rightarrow> bool" where
  "isObject (JObj _) = True"
| "isObject (JArr _) = True"
| "isObject _ = False"

fun isArray :: "json \<Rightarrow> bool" where
  "isArray (JArr _) = True"
| "isArray _ = False"

text \<open>An acknowledged position: the terminal and the sequence number.\<close>

record terminal_position =
  posTerminal :: string
  posSequence :: nat

definition ackJson :: "string \<Rightarrow> js_num \<Rightarrow> json" where
  "ackJson terminalId seqNo =
     JObj [(''type'', JStr ''terminal:ack''), (''terminalId'', JStr terminalId), (''sequence'', JNum seqNo)]"

definition decodePosition :: "string \<Rightarrow> json \<Rightarrow> terminal_position option" where
  "decodePosition tag raw =
     (if \<not> isObject raw \<or> isArray raw then None
      else (case (jmember raw ''type'', jmember raw ''terminalId'', jmember raw ''sequence'') of
          (Some (JStr t), Some (JStr i), Some (JNum n)) \<Rightarrow>
            if t \<noteq> tag \<or> length i = 0 \<or> \<not> isSafeInteger n \<or> finValue n < 0 then None
            else Some \<lparr>posTerminal = i, posSequence = nat \<lfloor>finValue n\<rfloor>\<rparr>
        | _ \<Rightarrow> None))"

definition tryDecodeTerminalWsAck :: "json \<Rightarrow> terminal_position option" where
  "tryDecodeTerminalWsAck raw = decodePosition ''terminal:ack'' raw"

definition tryDecodeTerminalReplayRequired :: "json \<Rightarrow> terminal_position option" where
  "tryDecodeTerminalReplayRequired raw = decodePosition ''terminal:replay-required'' raw"

text \<open>The channels of the route registry whose routes are marked \<open>realtime\<close>, in its order.\<close>

definition realtimeRoutes :: "string list" where
  "realtimeRoutes = [''terminal:write'', ''terminal:writeBinary'', ''terminal:resize'', ''terminal:ready'',
     ''terminal:detach'', ''terminal:attach'']"

fun isTerminalWsHotOp :: "json \<Rightarrow> bool" where
  "isTerminalWsHotOp (JStr s) = (take 9 s = ''terminal:'' \<and> s \<in> set realtimeRoutes)"
| "isTerminalWsHotOp _ = False"

record terminal_command =
  cmdRequest :: string
  cmdOp :: string
  cmdArgs :: "json list"

definition tryDecodeTerminalWsCommand :: "json \<Rightarrow> terminal_command option" where
  "tryDecodeTerminalWsCommand raw =
     (if \<not> isObject raw then None
      else (case (jmember raw ''requestId'', jmember raw ''op'', jmember raw ''args'') of
          (Some (JStr r), Some (JStr op), Some (JArr args)) \<Rightarrow>
            if length r = 0 \<or> \<not> isTerminalWsHotOp (JStr op) then None
            else Some \<lparr>cmdRequest = r, cmdOp = op, cmdArgs = args\<rparr>
        | _ \<Rightarrow> None))"

datatype terminal_result = ResultOk string "json option" | ResultError string string "string option"

definition tryDecodeTerminalWsResult :: "json \<Rightarrow> terminal_result option" where
  "tryDecodeTerminalWsResult raw =
     (if \<not> isObject raw then None
      else (case (jmember raw ''type'', jmember raw ''requestId'', jmember raw ''ok'') of
          (Some (JStr t), Some (JStr r), Some (JBool ok)) \<Rightarrow>
            if t \<noteq> ''terminal:result'' then None
            else if ok then Some (ResultOk r (jmember raw ''value''))
            else (case jmember raw ''error'' of
                Some err \<Rightarrow>
                  if \<not> isObject err then None
                  else (case jmember err ''message'' of
                      Some (JStr msg) \<Rightarrow> Some (ResultError r msg
                        (case jmember err ''code'' of Some (JStr c) \<Rightarrow> Some c | _ \<Rightarrow> None))
                    | _ \<Rightarrow> None)
              | None \<Rightarrow> None)
        | _ \<Rightarrow> None))"

section \<open>Reading a header back\<close>

definition headerBytes :: "8 word \<Rightarrow> nat \<Rightarrow> nat \<Rightarrow> nat \<Rightarrow> nat \<Rightarrow> octets" where
  "headerBytes code i e q n =
     [TERMINAL_PROTOCOL_MAGIC_0, TERMINAL_PROTOCOL_MAGIC_1, TERMINAL_PROTOCOL_VERSION, code] @ be 2 0
       @ be 2 TERMINAL_PROTOCOL_HEADER_BYTES @ be 8 i @ be 8 e @ be 8 q @ be 4 n"

lemmas frame_consts = TERMINAL_DATA_FRAME_TYPE_V1_def TERMINAL_DATA_FRAME_TYPE_def TERMINAL_PROTOCOL_VERSION_def
  TERMINAL_PROTOCOL_HEADER_BYTES_def TERMINAL_PROTOCOL_MAGIC_0_def TERMINAL_PROTOCOL_MAGIC_1_def

lemma be_2_0: "be 2 0 = [0, 0]"
  by (simp add: numeral_2_eq_2)

lemma protocolHeader_Inr:
  "protocolHeader code s e q n = Inr h \<longleftrightarrow>
     (\<exists>s' e' q'. toU64 s = Inr s' \<and> toU64 e = Inr e' \<and> toU64 q = Inr q' \<and> h = headerBytes code s' e' q' n)"
  by (auto simp: protocolHeader_def andThen_Inr headerBytes_def be_2_0)

lemma encodeProtocolFrame_Inr:
  "encodeProtocolFrame code s e q p = Inr bs \<longleftrightarrow>
     (\<exists>s' e' q'. toU64 s = Inr s' \<and> toU64 e = Inr e' \<and> toU64 q = Inr q' \<and> bs = headerBytes code s' e' q' (length p) @ p)"
  by (auto simp: encodeProtocolFrame_def andThen_Inr protocolHeader_Inr)

lemma length_headerBytes [simp]: "length (headerBytes code i e q n) = 36"
  by (simp add: headerBytes_def)

lemma toU64_bound: "toU64 v = Inr n \<Longrightarrow> int n \<le> maxSafeInteger"
proof -
  assume "toU64 v = Inr n"
  then obtain r where r: "v = Fin r" "of_int \<lfloor>r\<rfloor> = r" "\<bar>r\<bar> \<le> of_int maxSafeInteger" "0 \<le> r" "n = nat \<lfloor>r\<rfloor>"
    by (cases v) (auto simp: toU64_def split: if_splits)
  from r(3,4) have "r \<le> of_int maxSafeInteger" by simp
  from floor_mono [OF this] have "\<lfloor>r\<rfloor> \<le> maxSafeInteger" by simp
  with r(4,5) show ?thesis by simp
qed

lemma toU64_nat: "int n \<le> maxSafeInteger \<Longrightarrow> toU64 (Fin (of_nat n)) = Inr n"
proof -
  assume n: "int n \<le> maxSafeInteger"
  have e: "(of_nat n :: rat) = of_int (int n)" by simp
  have "safe_int (int n)" using n by (simp add: safe_int_def)
  then show ?thesis unfolding toU64_def e isSafeInteger_of_int by simp
qed

lemma safe_u64: "int n \<le> maxSafeInteger \<Longrightarrow> n < 256 ^ 8"
  by (simp add: maxSafeInteger_def)

lemma fromU64_Some: "fromU64 n = Some m \<longleftrightarrow> m = n \<and> int n \<le> maxSafeInteger"
  by (auto simp: fromU64_def)

lemma header_fields:
  assumes "i < 256 ^ 8" "e < 256 ^ 8" "q < 256 ^ 8" "n < 256 ^ 4"
  shows "getAt 2 4 (headerBytes code i e q n @ p) = 0"
    and "getAt 2 6 (headerBytes code i e q n @ p) = TERMINAL_PROTOCOL_HEADER_BYTES"
    and "getAt 8 8 (headerBytes code i e q n @ p) = i"
    and "getAt 8 16 (headerBytes code i e q n @ p) = e"
    and "getAt 8 24 (headerBytes code i e q n @ p) = q"
    and "getAt 4 32 (headerBytes code i e q n @ p) = n"
proof -
  let ?m = "[TERMINAL_PROTOCOL_MAGIC_0, TERMINAL_PROTOCOL_MAGIC_1, TERMINAL_PROTOCOL_VERSION, code]"
  let ?l = "be 2 TERMINAL_PROTOCOL_HEADER_BYTES"
  show "getAt 2 4 (headerBytes code i e q n @ p) = 0"
    using be_field.read_back [of 0 2 ?m 4 "?l @ be 8 i @ be 8 e @ be 8 q @ be 4 n @ p"] by (simp add: getAt_def headerBytes_def)
  show "getAt 2 6 (headerBytes code i e q n @ p) = TERMINAL_PROTOCOL_HEADER_BYTES"
    using be_field.read_back [of TERMINAL_PROTOCOL_HEADER_BYTES 2 "?m @ be 2 0" 6 "be 8 i @ be 8 e @ be 8 q @ be 4 n @ p"]
    by (simp add: getAt_def headerBytes_def TERMINAL_PROTOCOL_HEADER_BYTES_def)
  show "getAt 8 8 (headerBytes code i e q n @ p) = i"
    using be_field.read_back [of i 8 "?m @ be 2 0 @ ?l" 8 "be 8 e @ be 8 q @ be 4 n @ p"] assms
    by (simp add: getAt_def headerBytes_def)
  show "getAt 8 16 (headerBytes code i e q n @ p) = e"
    using be_field.read_back [of e 8 "?m @ be 2 0 @ ?l @ be 8 i" 16 "be 8 q @ be 4 n @ p"] assms
    by (simp add: getAt_def headerBytes_def)
  show "getAt 8 24 (headerBytes code i e q n @ p) = q"
    using be_field.read_back [of q 8 "?m @ be 2 0 @ ?l @ be 8 i @ be 8 e" 24 "be 4 n @ p"] assms
    by (simp add: getAt_def headerBytes_def)
  show "getAt 4 32 (headerBytes code i e q n @ p) = n"
    using be_field.read_back [of n 4 "?m @ be 2 0 @ ?l @ be 8 i @ be 8 e @ be 8 q" 32 p] assms
    by (simp add: getAt_def headerBytes_def)
qed

lemma header_nth:
  "(headerBytes code i e q n @ p) ! 0 = TERMINAL_PROTOCOL_MAGIC_0"
  "(headerBytes code i e q n @ p) ! 1 = TERMINAL_PROTOCOL_MAGIC_1"
  "(headerBytes code i e q n @ p) ! 2 = TERMINAL_PROTOCOL_VERSION"
  "(headerBytes code i e q n @ p) ! 3 = code"
  by (simp_all add: headerBytes_def)

text \<open>A buffer is its first 36 bytes, field by field, and the rest.\<close>

lemma header_split:
  assumes "36 \<le> length bs"
  shows "bs = [bs ! 0, bs ! 1, bs ! 2, bs ! 3] @ be 2 (getAt 2 4 bs) @ be 2 (getAt 2 6 bs) @ be 8 (getAt 8 8 bs)
    @ be 8 (getAt 8 16 bs) @ be 8 (getAt 8 24 bs) @ be 4 (getAt 4 32 bs) @ drop 36 bs"
proof -
  have field: "be k (getAt k off bs) = take k (drop off bs)" if "off + k \<le> 36" for k off
    using be_field.enc_dec [of "take k (drop off bs)" k] that assms by (simp add: getAt_def)
  have next_take: "take k (drop off bs) @ drop (off + k) bs = drop off bs" for k off
    by (metis add.commute append_take_drop_id drop_drop)
  obtain b0 b1 b2 b3 rest where four: "bs = b0 # b1 # b2 # b3 # rest"
    using assms by (auto simp: Suc_le_length_iff numeral_eq_Suc)
  have "drop 4 bs = take 2 (drop 4 bs) @ take 2 (drop 6 bs) @ take 8 (drop 8 bs) @ take 8 (drop 16 bs)
      @ take 8 (drop 24 bs) @ take 4 (drop 32 bs) @ drop 36 bs"
    using next_take [of 2 4] next_take [of 2 6] next_take [of 8 8] next_take [of 8 16] next_take [of 8 24]
      next_take [of 4 32] by simp
  then have "drop 4 bs = be 2 (getAt 2 4 bs) @ be 2 (getAt 2 6 bs) @ be 8 (getAt 8 8 bs)
      @ be 8 (getAt 8 16 bs) @ be 8 (getAt 8 24 bs) @ be 4 (getAt 4 32 bs) @ drop 36 bs"
    by (simp add: field)
  moreover have "bs = [bs ! 0, bs ! 1, bs ! 2, bs ! 3] @ drop 4 bs" unfolding four by simp
  ultimately show ?thesis by metis
qed

section \<open>Round trips\<close>

lemma hostFrameType_code: "k \<in> set hostFrames \<Longrightarrow> hostFrameType (protocolCode k) = Some k"
  by (auto simp: hostFrames_def hostFrameType_def)

lemma hostFrameType_Some: "hostFrameType b = Some k \<Longrightarrow> b = protocolCode k \<and> k \<in> set hostFrames"
  unfolding hostFrameType_def by (drule find_SomeD) simp

text \<open>What the host may put into a frame of a kind, for a payload and a position.\<close>

definition payloadOk :: "protocol_frame \<Rightarrow> nat \<Rightarrow> octets \<Rightarrow> bool" where
  "payloadOk k q p \<longleftrightarrow> length p < 256 ^ 4 \<and>
     \<not> (k \<in> {Snapshot, PtyData, ScrollbackChunk} \<and> p = []) \<and> \<not> (k = PtyData \<and> q < length p)"

definition protocolFrame :: "protocol_frame \<Rightarrow> nat \<Rightarrow> nat \<Rightarrow> nat \<Rightarrow> octets \<Rightarrow> decoded_frame" where
  "protocolFrame k i e q p = \<lparr>eventSequence = 0, terminalSequence = q, frameTerminal = None, streamId = Some i,
     streamEpoch = Some e, frameType = Some k, payload = p\<rparr>"

lemma decode_headerBytes:
  assumes k: "k \<in> set hostFrames" and p: "payloadOk k q p"
    and safe: "int i \<le> maxSafeInteger" "int e \<le> maxSafeInteger" "int q \<le> maxSafeInteger"
  shows "decodeTerminalDataFrame utf8Decode (headerBytes (protocolCode k) i e q (length p) @ p) = Some (protocolFrame k i e q p)"
proof -
  let ?b = "headerBytes (protocolCode k) i e q (length p) @ p"
  have len: "length p < 256 ^ 4" using p by (simp add: payloadOk_def)
  note f = header_fields [OF safe_u64 [OF safe(1)] safe_u64 [OF safe(2)] safe_u64 [OF safe(3)] len, of "protocolCode k" p]
  have "decodeProtocolFrame ?b = Some (protocolFrame k i e q p)"
    unfolding decodeProtocolFrame_def header_nth f Let_def
    using p safe by (simp add: hostFrameType_code [OF k] fromU64_def protocolFrame_def payloadOk_def
        TERMINAL_PROTOCOL_HEADER_BYTES_def)
  then show ?thesis
    unfolding decodeTerminalDataFrame_def header_nth by (simp add: TERMINAL_PROTOCOL_HEADER_BYTES_def)
qed

lemma protocolFrame_cases:
  assumes d: "decodeTerminalDataFrame utf8Decode bs = Some f" and t: "frameType f \<noteq> None"
  obtains k i e q p where "f = protocolFrame k i e q p" "k \<in> set hostFrames" "payloadOk k q p"
    "int i \<le> maxSafeInteger" "int e \<le> maxSafeInteger" "int q \<le> maxSafeInteger"
    "bs = headerBytes (protocolCode k) i e q (length p) @ p"
proof -
  have data: "decodeDataV2 utf8Decode bs \<noteq> Some f" "decodeDataV1 utf8Decode bs \<noteq> Some f"
    using t by (auto simp: decodeDataV2_def decodeDataV1_def Let_def split: option.splits if_splits)
  with d have g: "36 \<le> length bs" "bs ! 0 = TERMINAL_PROTOCOL_MAGIC_0" "bs ! 1 = TERMINAL_PROTOCOL_MAGIC_1"
    and p: "decodeProtocolFrame bs = Some f"
    by (auto simp: decodeTerminalDataFrame_def TERMINAL_PROTOCOL_HEADER_BYTES_def split: if_splits)
  from p obtain k i e q where k: "hostFrameType (bs ! 3) = Some k" "bs ! 2 = TERMINAL_PROTOCOL_VERSION"
    "getAt 2 4 bs = 0" "getAt 2 6 bs = TERMINAL_PROTOCOL_HEADER_BYTES"
    "length bs = TERMINAL_PROTOCOL_HEADER_BYTES + getAt 4 32 bs"
    "\<not> (k \<in> {Snapshot, PtyData, ScrollbackChunk} \<and> getAt 4 32 bs = 0)"
    "fromU64 (getAt 8 8 bs) = Some i" "fromU64 (getAt 8 16 bs) = Some e" "fromU64 (getAt 8 24 bs) = Some q"
    "\<not> (k = PtyData \<and> q < getAt 4 32 bs)" "f = protocolFrame k i e q (drop 36 bs)"
    by (auto simp: decodeProtocolFrame_def Let_def protocolFrame_def TERMINAL_PROTOCOL_HEADER_BYTES_def
        split: option.splits if_splits)
  have n: "length (drop 36 bs) = getAt 4 32 bs" using k(5) by (simp add: TERMINAL_PROTOCOL_HEADER_BYTES_def)
  have "getAt 4 32 bs < 256 ^ 4"
    unfolding getAt_def using ofBe_bound [of "take 4 (drop 32 bs)"] g(1) by simp
  then have "payloadOk k q (drop 36 bs)" using k(6,10) n by (auto simp: payloadOk_def)
  moreover have "bs = headerBytes (protocolCode k) i e q (length (drop 36 bs)) @ drop 36 bs"
    using header_split [OF g(1)] unfolding n headerBytes_def
    using hostFrameType_Some [OF k(1)] k(2-4,7-9) g(2,3) by (simp add: fromU64_Some)
  moreover have "k \<in> set hostFrames" "int i \<le> maxSafeInteger" "int e \<le> maxSafeInteger" "int q \<le> maxSafeInteger"
    using hostFrameType_Some [OF k(1)] k(7-9) by (auto simp: fromU64_Some)
  ultimately show thesis using that [OF k(11)] by blast
qed

text \<open>
  C35: What the host sends as a protocol frame is read back: for each frame kind of the host, positions
  that are safe integers and a payload the kind allows, decoding the encoded frame gives the kind, the
  positions and the payload.
\<close>

theorem protocolFrame_roundtrip:
  assumes "encodeProtocolFrame (protocolCode k) i e q p = Inr bs" and "k \<in> set hostFrames"
    and "toU64 i = Inr i'" and "toU64 e = Inr e'" and "toU64 q = Inr q'" and "payloadOk k q' p"
  shows "decodeTerminalDataFrame utf8Decode bs =
    Some \<lparr>eventSequence = 0, terminalSequence = q', frameTerminal = None, streamId = Some i', streamEpoch = Some e',
      frameType = Some k, payload = p\<rparr>"
proof -
  have "bs = headerBytes (protocolCode k) i' e' q' (length p) @ p"
    using assms by (auto simp: encodeProtocolFrame_Inr)
  with decode_headerBytes [OF assms(2,6) toU64_bound [OF assms(3)] toU64_bound [OF assms(4)] toU64_bound [OF assms(5)]]
  show ?thesis by (simp add: protocolFrame_def)
qed

theorem protocolFrame_roundtrip_witness:
  "\<exists>bs. encodeProtocolFrame (protocolCode PtyData) (Fin 3) (Fin 1) (Fin 2) [104, 105] = Inr bs \<and>
     decodeTerminalDataFrame (\<lambda>_. []) bs = Some \<lparr>eventSequence = 0, terminalSequence = 2, frameTerminal = None,
       streamId = Some 3, streamEpoch = Some 1, frameType = Some PtyData, payload = [104, 105]\<rparr>"
proof -
  have n: "toU64 (Fin 3) = Inr 3" "toU64 (Fin 1) = Inr 1" "toU64 (Fin 2) = Inr 2"
    using toU64_nat [of 3] toU64_nat [of 1] toU64_nat [of 2] by (simp_all add: maxSafeInteger_def)
  obtain bs where bs: "encodeProtocolFrame (protocolCode PtyData) (Fin 3) (Fin 1) (Fin 2) [104, 105] = Inr bs"
    using n by (auto simp: encodeProtocolFrame_Inr)
  have "PtyData \<in> set hostFrames" "payloadOk PtyData 2 [104, 105]" by (simp_all add: hostFrames_def payloadOk_def)
  with bs protocolFrame_roundtrip [OF bs _ n] show ?thesis by blast
qed

text \<open>
  C33: The decoder is canonical: a buffer it accepts as a protocol frame is, byte for byte, the encoding
  of what it decodes to, and that is a frame of the host with a payload its kind allows. No two buffers
  decode to the same frame, and nothing is read past the declared length.
\<close>

theorem protocolFrame_canonical:
  assumes "decodeTerminalDataFrame utf8Decode bs = Some f" and "frameType f \<noteq> None"
  shows "\<exists>k i e. frameType f = Some k \<and> streamId f = Some i \<and> streamEpoch f = Some e \<and> k \<in> set hostFrames \<and>
    payloadOk k (terminalSequence f) (payload f) \<and>
    encodeProtocolFrame (protocolCode k) (Fin (of_nat i)) (Fin (of_nat e)) (Fin (of_nat (terminalSequence f))) (payload f) = Inr bs"
proof -
  obtain k i e q p where "f = protocolFrame k i e q p" "k \<in> set hostFrames" "payloadOk k q p"
    "int i \<le> maxSafeInteger" "int e \<le> maxSafeInteger" "int q \<le> maxSafeInteger"
    "bs = headerBytes (protocolCode k) i e q (length p) @ p"
    by (rule protocolFrame_cases [OF assms])
  then show ?thesis by (simp add: protocolFrame_def encodeProtocolFrame_Inr toU64_nat)
qed

theorem protocolFrame_canonical_witness:
  "\<exists>f k. decodeTerminalDataFrame (\<lambda>_. []) (headerBytes (protocolCode Pong) 1 2 3 0) = Some f \<and> frameType f = Some k \<and>
     encodeProtocolFrame (protocolCode k) (Fin (of_nat 1)) (Fin (of_nat 2)) (Fin (of_nat (terminalSequence f))) (payload f)
       = Inr (headerBytes (protocolCode Pong) 1 2 3 0)"
proof -
  have "Pong \<in> set hostFrames" "payloadOk Pong 3 []" by (simp_all add: hostFrames_def payloadOk_def)
  from decode_headerBytes [OF this, of 1 2 "\<lambda>_. []"]
  have d: "decodeTerminalDataFrame (\<lambda>_. []) (headerBytes (protocolCode Pong) 1 2 3 0) = Some (protocolFrame Pong 1 2 3 [])"
    by (simp add: maxSafeInteger_def)
  from protocolFrame_canonical [OF d] d show ?thesis by (auto simp: protocolFrame_def)
qed

text \<open>
  A data frame of version 2 reads back: the two sequence numbers, the terminal id and the payload,
  for an id whose UTF-8 bytes decode to it.
\<close>

theorem dataFrame_roundtrip:
  assumes "encodeTerminalDataFrame utf8Encode es ts i p = Inr bs" and "utf8Decode (utf8Encode i) = i"
    and "toU64 es = Inr es'" and "toU64 ts = Inr ts'"
  shows "decodeTerminalDataFrame utf8Decode bs =
    Some \<lparr>eventSequence = es', terminalSequence = ts', frameTerminal = Some i, streamId = None, streamEpoch = None,
      frameType = None, payload = p\<rparr>"
proof -
  let ?n = "utf8Encode i"
  have bs: "bs = [TERMINAL_DATA_FRAME_TYPE] @ be 8 es' @ be 8 ts' @ be 2 (length ?n) @ ?n @ p"
    and len: "length ?n < 256 ^ 2"
    using assms(1,3,4) by (auto simp: encodeTerminalDataFrame_def Let_def andThen_Inr split: if_splits)
  have safe: "int es' \<le> maxSafeInteger" "int ts' \<le> maxSafeInteger" using toU64_bound assms(3,4) by blast+
  have e: "getAt 8 1 bs = es'"
    using be_field.read_back [OF safe_u64 [OF safe(1)], of "[TERMINAL_DATA_FRAME_TYPE]" 1] by (simp add: getAt_def bs)
  have t: "getAt 8 9 bs = ts'"
    using be_field.read_back [OF safe_u64 [OF safe(2)], of "TERMINAL_DATA_FRAME_TYPE # be 8 es'" 9 "be 2 (length ?n) @ ?n @ p"]
    by (simp add: getAt_def bs)
  have n: "getAt 2 17 bs = length ?n"
    using be_field.read_back [OF len, of "TERMINAL_DATA_FRAME_TYPE # be 8 es' @ be 8 ts'" 17 "?n @ p"]
    by (simp add: getAt_def bs)
  let ?h = "TERMINAL_DATA_FRAME_TYPE # be 8 es' @ be 8 ts' @ be 2 (length ?n)"
  have h: "length ?h = 19" by simp
  have split: "bs = ?h @ ?n @ p" by (simp add: bs)
  have "drop 19 bs = ?n @ p" unfolding split h [symmetric] append_eq_conv_conj by simp
  moreover have "drop (19 + length ?n) bs = drop (length ?n) (drop 19 bs)" by (simp add: add.commute)
  ultimately have d: "take (length ?n) (drop 19 bs) = ?n" "drop (19 + length ?n) bs = p"
    "length bs = 19 + length ?n + length p" by (simp_all add: bs)
  have "decodeDataV2 utf8Decode bs = Some \<lparr>eventSequence = es', terminalSequence = ts', frameTerminal = Some i,
      streamId = None, streamEpoch = None, frameType = None, payload = p\<rparr>"
    unfolding decodeDataV2_def e t n Let_def d using safe assms(2) by (simp add: fromU64_def)
  moreover have "bs ! 0 = TERMINAL_DATA_FRAME_TYPE" by (simp add: bs)
  ultimately show ?thesis using d(3) by (simp add: decodeTerminalDataFrame_def frame_consts)
qed

theorem dataFrame_roundtrip_witness:
  "let enc = map (\<lambda>c. of_nat (of_char c)); dec = map (\<lambda>b. char_of (unat b)) in
   \<exists>bs. encodeTerminalDataFrame enc (Fin 7) (Fin 9) ''t1'' [1] = Inr bs \<and>
     decodeTerminalDataFrame dec bs = Some \<lparr>eventSequence = 7, terminalSequence = 9, frameTerminal = Some ''t1'',
       streamId = None, streamEpoch = None, frameType = None, payload = [1]\<rparr>"
proof -
  let ?enc = "map (\<lambda>c. of_nat (of_char c)) :: string \<Rightarrow> octets" and ?dec = "map (\<lambda>b. char_of (unat b)) :: octets \<Rightarrow> string"
  have n: "toU64 (Fin 7) = Inr 7" "toU64 (Fin 9) = Inr 9"
    using toU64_nat [of 7] toU64_nat [of 9] by (simp_all add: maxSafeInteger_def)
  then obtain bs where bs: "encodeTerminalDataFrame ?enc (Fin 7) (Fin 9) ''t1'' [1] = Inr bs"
    by (auto simp: encodeTerminalDataFrame_def Let_def)
  have "?dec (?enc s) = s" for s by (induction s) (simp_all add: unat_of_nat)
  from dataFrame_roundtrip [where utf8Decode = ?dec, OF bs this n] bs show ?thesis unfolding Let_def by blast
qed

end
