(* ===== verification/InputWriter.thy ===== *)
theory InputWriter
  imports Prelude "HOL-Library.Sublist"
begin

text \<open>
  Keyboard input on its way to the terminal, \<open>packages/yaade-ui/src/panels/terminal-input-writer.ts\<close>:
  keystrokes of one turn are joined, cut into chunks and appended to a chain of promises that sends one
  chunk after the other. The chain is a queue, and \<open>deliver\<close> is the completion of its first write,
  which may have failed; an \<open>onError\<close> that itself throws, which would break the chain, is outside the model. The lemmas show that what reaches the terminal is what was typed, in order.
\<close>

section \<open>State\<close>

text \<open>A string is a list of UTF-16 code units.\<close>

type_synonym units = "nat list"

datatype input_kind = TextInput | BinaryInput

record pending_input =
  inputKind :: input_kind
  inputData :: units

record input_writer =
  pending :: "pending_input list"
  scheduled :: bool
  disposed :: bool
  writeTail :: "(input_kind \<times> units) list"
  delivered :: "(input_kind \<times> units) list"
  failures :: nat

definition MAX_INPUT_CHUNK :: nat where
  "MAX_INPUT_CHUNK = 64 * 1024"

definition createTerminalInputWriter :: input_writer where
  "createTerminalInputWriter = \<lparr>pending = [], scheduled = False, disposed = False, writeTail = [], delivered = [], failures = 0\<rparr>"

section \<open>Operations\<close>

function chunksOf :: "nat \<Rightarrow> 'a list \<Rightarrow> 'a list list" where
  "chunksOf n xs = (if xs = [] \<or> n = 0 then [] else take n xs # chunksOf n (drop n xs))"
  by pat_completeness auto
termination
  by (relation "measure (\<lambda>(n, xs). length xs)") auto

declare chunksOf.simps [simp del]

text \<open>\<open>send\<close> does nothing without a transport; the text transport is always there.\<close>

definition send :: "bool \<Rightarrow> input_kind \<times> units \<Rightarrow> input_writer \<Rightarrow> input_writer" where
  "send hasBinary c s = (if fst c = BinaryInput \<and> \<not> hasBinary then s else s\<lparr>writeTail := writeTail s @ [c]\<rparr>)"

definition inputChunks :: "pending_input \<Rightarrow> (input_kind \<times> units) list" where
  "inputChunks p = map (Pair (inputKind p))
     (chunksOf (if inputKind p = TextInput then MAX_INPUT_CHUNK else max 1 (length (inputData p))) (inputData p))"

definition flush :: "bool \<Rightarrow> input_writer \<Rightarrow> input_writer" where
  "flush hasBinary s =
     (let s1 = s\<lparr>scheduled := False\<rparr> in
      if disposed s \<or> length (pending s) = 0 then s1
      else fold (send hasBinary) (concat (map inputChunks (pending s))) (s1\<lparr>pending := []\<rparr>))"

definition schedule :: "input_writer \<Rightarrow> input_writer" where
  "schedule s = (if scheduled s then s else s\<lparr>scheduled := True\<rparr>)"

definition enqueue :: "units \<Rightarrow> input_writer \<Rightarrow> input_writer" where
  "enqueue d s =
     (if disposed s \<or> length d = 0 then s
      else schedule (s\<lparr>pending :=
        (if pending s \<noteq> [] \<and> inputKind (last (pending s)) = TextInput
         then butlast (pending s) @ [(last (pending s))\<lparr>inputData := inputData (last (pending s)) @ d\<rparr>]
         else pending s @ [\<lparr>inputKind = TextInput, inputData = d\<rparr>])\<rparr>))"

definition enqueueBinary :: "bool \<Rightarrow> units \<Rightarrow> input_writer \<Rightarrow> input_writer" where
  "enqueueBinary hasBinary d s =
     (if disposed s \<or> length d = 0 \<or> \<not> hasBinary then s
      else schedule (s\<lparr>pending := pending s @ [\<lparr>inputKind = BinaryInput, inputData = d\<rparr>]\<rparr>))"

definition dispose :: "input_writer \<Rightarrow> input_writer" where
  "dispose s = s\<lparr>disposed := True, pending := []\<rparr>"

text \<open>The first write of the chain settles; a rejection goes to \<open>onError\<close> and the chain goes on.\<close>

definition deliver :: "bool \<Rightarrow> input_writer \<Rightarrow> input_writer" where
  "deliver failed s =
     (case writeTail s of
        [] \<Rightarrow> s
      | c # cs \<Rightarrow> s\<lparr>writeTail := cs, delivered := delivered s @ [c], failures := failures s + (if failed then 1 else 0)\<rparr>)"

section \<open>Order\<close>

text \<open>The units of chunks and of pending inputs, each with its kind.\<close>

definition tagged :: "(input_kind \<times> units) list \<Rightarrow> (input_kind \<times> nat) list" where
  "tagged cs = concat (map (\<lambda>(k, us). map (Pair k) us) cs)"

lemma tagged_simps [simp]:
  "tagged [] = []" "tagged ((k, us) # cs) = map (Pair k) us @ tagged cs" "tagged (cs @ cs') = tagged cs @ tagged cs'"
  by (simp_all add: tagged_def)

definition pendingUnits :: "pending_input list \<Rightarrow> (input_kind \<times> nat) list" where
  "pendingUnits ps = tagged (map (\<lambda>p. (inputKind p, inputData p)) ps)"

lemma concat_chunksOf: "0 < n \<Longrightarrow> concat (chunksOf n xs) = xs"
proof (induction n xs rule: chunksOf.induct)
  case (1 n xs)
  then show ?case by (subst chunksOf.simps) simp
qed

lemma chunksOf_bounds: "c \<in> set (chunksOf n xs) \<Longrightarrow> c \<noteq> [] \<and> length c \<le> n"
proof (induction n xs rule: chunksOf.induct)
  case (1 n xs)
  from "1.prems" have "xs \<noteq> [] \<and> 0 < n" "c = take n xs \<or> c \<in> set (chunksOf n (drop n xs))"
    by (subst (asm) chunksOf.simps, simp split: if_splits)+
  with "1.IH" show ?case by auto
qed

lemma tagged_inputChunks: "tagged (inputChunks p) = map (Pair (inputKind p)) (inputData p)"
proof -
  let ?n = "if inputKind p = TextInput then MAX_INPUT_CHUNK else max 1 (length (inputData p))"
  have "tagged (inputChunks p) = map (Pair (inputKind p)) (concat (chunksOf ?n (inputData p)))"
    by (simp add: inputChunks_def tagged_def map_concat comp_def)
  also have "\<dots> = map (Pair (inputKind p)) (inputData p)"
    by (simp add: concat_chunksOf MAX_INPUT_CHUNK_def)
  finally show ?thesis .
qed

lemma tagged_chunks: "tagged (concat (map inputChunks ps)) = pendingUnits ps"
  by (induction ps) (simp_all add: tagged_inputChunks pendingUnits_def)

lemma fold_send:
  assumes "hasBinary \<or> (\<forall>c\<in>set cs. fst c = TextInput)"
  shows "fold (send hasBinary) cs s = s\<lparr>writeTail := writeTail s @ cs\<rparr>"
  using assms
proof (induction cs arbitrary: s)
  case (Cons c cs)
  then have "send hasBinary c s = s\<lparr>writeTail := writeTail s @ [c]\<rparr>" by (auto simp: send_def)
  moreover have "hasBinary \<or> (\<forall>c\<in>set cs. fst c = TextInput)" using Cons.prems by auto
  ultimately show ?case using Cons.IH by simp
qed simp

datatype input_op = Enqueue units | EnqueueBinary units | Flush | Dispose | Deliver bool

record input_run =
  writer :: input_writer
  typed :: "(input_kind \<times> nat) list"

text \<open>A run remembers what was typed while the writer accepted it.\<close>

fun input_step :: "bool \<Rightarrow> input_op \<Rightarrow> input_run \<Rightarrow> input_run" where
  "input_step hb (Enqueue d) r = r\<lparr>writer := enqueue d (writer r),
     typed := typed r @ (if disposed (writer r) then [] else map (Pair TextInput) d)\<rparr>"
| "input_step hb (EnqueueBinary d) r = r\<lparr>writer := enqueueBinary hb d (writer r),
     typed := typed r @ (if disposed (writer r) \<or> \<not> hb then [] else map (Pair BinaryInput) d)\<rparr>"
| "input_step hb Flush r = r\<lparr>writer := flush hb (writer r)\<rparr>"
| "input_step hb Dispose r = r\<lparr>writer := dispose (writer r)\<rparr>"
| "input_step hb (Deliver failed) r = r\<lparr>writer := deliver failed (writer r)\<rparr>"

definition chunkOk :: "input_kind \<times> units \<Rightarrow> bool" where
  "chunkOk c \<longleftrightarrow> snd c \<noteq> [] \<and> (fst c = TextInput \<longrightarrow> length (snd c) \<le> MAX_INPUT_CHUNK)"

definition inputOk :: "bool \<Rightarrow> input_run \<Rightarrow> bool" where
  "inputOk hb r \<longleftrightarrow>
     (let s = writer r; out = tagged (delivered s) @ tagged (writeTail s) in
      prefix out (typed r) \<and> (\<not> disposed s \<longrightarrow> out @ pendingUnits (pending s) = typed r) \<and>
      list_all chunkOk (delivered s @ writeTail s) \<and>
      (hb \<or> list_all (\<lambda>p. inputKind p = TextInput) (pending s)) \<and>
      (disposed s \<longrightarrow> pending s = []) \<and> (pending s \<noteq> [] \<longrightarrow> scheduled s))"

lemma pendingUnits_simps [simp]:
  "pendingUnits [] = []" "pendingUnits (ps @ ps') = pendingUnits ps @ pendingUnits ps'"
  "pendingUnits (p # ps) = map (Pair (inputKind p)) (inputData p) @ pendingUnits ps"
  by (simp_all add: pendingUnits_def)

lemma schedule_fields [simp]:
  "writeTail (schedule s) = writeTail s" "delivered (schedule s) = delivered s" "disposed (schedule s) = disposed s"
  "pending (schedule s) = pending s" "scheduled (schedule s)"
  by (simp_all add: schedule_def)

lemma enqueue_pending:
  assumes "\<not> disposed s" and "d \<noteq> []"
  shows "pendingUnits (pending (enqueue d s)) = pendingUnits (pending s) @ map (Pair TextInput) d"
    and "list_all (\<lambda>p. inputKind p = TextInput) (pending (enqueue d s)) = list_all (\<lambda>p. inputKind p = TextInput) (pending s)"
    and "writeTail (enqueue d s) = writeTail s" "delivered (enqueue d s) = delivered s" "\<not> disposed (enqueue d s)"
    and "scheduled (enqueue d s)"
  using assms by (cases "pending s" rule: rev_cases; simp add: enqueue_def)+

lemma flush_chunks_ok:
  assumes "c \<in> set (inputChunks p)"
  shows "chunkOk c" and "fst c = inputKind p"
  using assms by (auto simp: inputChunks_def chunkOk_def MAX_INPUT_CHUNK_def dest: chunksOf_bounds)

lemma flush_ok:
  assumes "inputOk hb r"
  shows "inputOk hb (r\<lparr>writer := flush hb (writer r)\<rparr>)"
proof (cases "disposed (writer r) \<or> pending (writer r) = []")
  case True
  with assms show ?thesis by (auto simp: inputOk_def flush_def Let_def)
next
  case False
  let ?cs = "concat (map inputChunks (pending (writer r)))"
  have "hb \<or> (\<forall>c\<in>set ?cs. fst c = TextInput)"
    using assms flush_chunks_ok(2) by (fastforce simp: inputOk_def Let_def list_all_iff)
  from fold_send [OF this] False
  have f: "flush hb (writer r) = writer r\<lparr>scheduled := False, pending := [], writeTail := writeTail (writer r) @ ?cs\<rparr>"
    by (simp add: flush_def Let_def)
  have "list_all chunkOk ?cs" by (auto simp: list_all_iff intro: flush_chunks_ok(1))
  with assms False show ?thesis by (simp add: f inputOk_def Let_def tagged_chunks)
qed

lemma input_step_ok: "inputOk hb r \<Longrightarrow> inputOk hb (input_step hb e r)"
proof (cases e)
  case (Enqueue d)
  assume ok: "inputOk hb r"
  show ?thesis
  proof (cases "disposed (writer r) \<or> d = []")
    case True
    with ok Enqueue show ?thesis by (auto simp: inputOk_def Let_def enqueue_def)
  next
    case False
    then have f: "\<not> disposed (writer r)" "d \<noteq> []" by auto
    from ok f(1) have "tagged (delivered (writer r)) @ tagged (writeTail (writer r)) @ pendingUnits (pending (writer r)) = typed r"
      by (simp add: inputOk_def Let_def)
    then show ?thesis
      using ok Enqueue f(1) enqueue_pending [OF f] by (auto simp: inputOk_def Let_def)
  qed
next
  case (EnqueueBinary d)
  assume ok: "inputOk hb r"
  show ?thesis
  proof (cases "disposed (writer r) \<or> d = [] \<or> \<not> hb")
    case True
    with ok EnqueueBinary show ?thesis by (auto simp: inputOk_def Let_def enqueueBinary_def)
  next
    case False
    with ok have "tagged (delivered (writer r)) @ tagged (writeTail (writer r)) @ pendingUnits (pending (writer r)) = typed r"
      by (simp add: inputOk_def Let_def)
    with ok EnqueueBinary False show ?thesis by (auto simp: inputOk_def Let_def enqueueBinary_def)
  qed
next
  case Flush
  assume "inputOk hb r"
  with flush_ok Flush show ?thesis by simp
next
  case Dispose
  assume "inputOk hb r"
  with Dispose show ?thesis by (auto simp: inputOk_def Let_def dispose_def)
next
  case (Deliver failed)
  assume "inputOk hb r"
  with Deliver show ?thesis by (auto simp: inputOk_def Let_def deliver_def split: list.split)
qed

interpretation input_machine: event_machine "input_step hb" "inputOk hb" for hb
  by unfold_locales (rule input_step_ok)

definition startInput :: input_run where
  "startInput = \<lparr>writer = createTerminalInputWriter, typed = []\<rparr>"

lemma startInput_ok: "inputOk hb startInput"
  by (simp add: inputOk_def startInput_def createTerminalInputWriter_def)

text \<open>
  C36: What has been sent or waits to be sent is always a prefix of what was typed, units in order, text
  and binary interleaved as they came, whatever writes fail; until the writer is disposed the pending
  input is exactly the rest. No chunk is empty, no text chunk exceeds 64 Ki units, and pending input
  always has a flush scheduled.
\<close>

theorem input_order: "inputOk hb (fold (input_step hb) es startInput)"
  by (rule input_machine.run_inv [OF startInput_ok])

end
