(* ===== verification/DispatchTasks.thy ===== *)
theory DispatchTasks
  imports Prelude
begin

text \<open>
  The task lane all terminal writers share, \<open>packages/yaade-ui/src/panels/terminal-dispatch-tasks.ts\<close>:
  callbacks wait in a map by id, one turn of the event loop runs the oldest. A callback is a value;
  running one is \<open>runStart\<close>, then whatever it calls on the lane, then \<open>runEnd\<close>. The lemmas show that
  the lane is bounded, first in first out, and that a waiting callback always has a turn requested.
\<close>

section \<open>State and operations\<close>

record 'c dispatch_tasks =
  waiting :: "(nat, 'c) jsmap"
  nextId :: nat
  wakePending :: bool
  running :: nat

definition maxTasks :: nat where
  "maxTasks = 1024"

definition createTerminalDispatchTasks :: "'c dispatch_tasks" where
  "createTerminalDispatchTasks = \<lparr>waiting = [], nextId = 0, wakePending = False, running = 0\<rparr>"

text \<open>\<open>turn\<close> says whether \<open>requestTurn\<close> takes the request; it throws otherwise, and so does \<open>wake\<close>.\<close>

definition wake :: "bool \<Rightarrow> 'c dispatch_tasks \<Rightarrow> bool \<times> 'c dispatch_tasks" where
  "wake turn s =
     (if wakePending s \<or> length (waiting s) = 0 then (True, s)
      else if turn then (True, s\<lparr>wakePending := True\<rparr>)
      else (False, s\<lparr>wakePending := False\<rparr>))"

text \<open>The first part of \<open>run\<close>: the oldest callback, if any. \<open>running\<close> counts the bodies that run.\<close>

definition runStart :: "'c dispatch_tasks \<Rightarrow> 'c option \<times> 'c dispatch_tasks" where
  "runStart s =
     (let s1 = s\<lparr>wakePending := False\<rparr> in
      case waiting s of
        [] \<Rightarrow> (None, s1)
      | (i, c) # _ \<Rightarrow> (Some c, s1\<lparr>waiting := jdelete i (waiting s), running := running s + 1\<rparr>))"

text \<open>The \<open>finally\<close> block of \<open>run\<close>.\<close>

definition runEnd :: "bool \<Rightarrow> 'c dispatch_tasks \<Rightarrow> bool \<times> 'c dispatch_tasks" where
  "runEnd turn s = wake turn (s\<lparr>running := running s - 1\<rparr>)"

datatype schedule_error = CapacityExceeded | TurnRefused

definition schedule :: "bool \<Rightarrow> 'c \<Rightarrow> 'c dispatch_tasks \<Rightarrow> (schedule_error + nat) \<times> 'c dispatch_tasks" where
  "schedule turn c s =
     (if length (waiting s) \<ge> maxTasks then (Inl CapacityExceeded, s)
      else (let i = nextId s + 1;
                (ok, s1) = wake turn (s\<lparr>nextId := i, waiting := jset i c (waiting s)\<rparr>)
            in if ok then (Inr i, s1) else (Inl TurnRefused, s1\<lparr>waiting := jdelete i (waiting s1)\<rparr>)))"

definition cancel :: "nat \<Rightarrow> 'c dispatch_tasks \<Rightarrow> 'c dispatch_tasks" where
  "cancel i s = s\<lparr>waiting := jdelete i (waiting s)\<rparr>"

section \<open>Runs\<close>

datatype 'c lane_op = Schedule bool 'c | Cancel nat | RunStart | RunEnd bool

record 'c lane_run =
  lane :: "'c dispatch_tasks"
  admitted :: "'c list"
  started :: "'c list"
  cancelled :: bool

fun lane_step :: "'c lane_op \<Rightarrow> 'c lane_run \<Rightarrow> 'c lane_run" where
  "lane_step (Schedule turn c) r =
     (let (res, s) = schedule turn c (lane r)
      in r\<lparr>lane := s, admitted := admitted r @ (case res of Inl e \<Rightarrow> [] | Inr i \<Rightarrow> [c])\<rparr>)"
| "lane_step (Cancel i) r = r\<lparr>lane := cancel i (lane r), cancelled := cancelled r \<or> jhas (waiting (lane r)) i\<rparr>"
| "lane_step RunStart r =
     (let (res, s) = runStart (lane r)
      in r\<lparr>lane := s, started := started r @ (case res of None \<Rightarrow> [] | Some c \<Rightarrow> [c])\<rparr>)"
| "lane_step (RunEnd turn) r = (if running (lane r) = 0 then r else r\<lparr>lane := snd (runEnd turn (lane r))\<rparr>)"

definition startLane :: "'c lane_run" where
  "startLane = \<lparr>lane = createTerminalDispatchTasks, admitted = [], started = [], cancelled = False\<rparr>"

definition wfLane :: "'c lane_run \<Rightarrow> bool" where
  "wfLane r \<longleftrightarrow>
     jwf (waiting (lane r)) \<and> (\<forall>i\<in>set (jkeys (waiting (lane r))). i \<le> nextId (lane r)) \<and>
     length (waiting (lane r)) \<le> maxTasks \<and>
     (\<not> cancelled r \<longrightarrow> started r @ jvalues (waiting (lane r)) = admitted r)"

lemma wake_fields:
  "waiting (snd (wake turn s)) = waiting s" "nextId (snd (wake turn s)) = nextId s" "running (snd (wake turn s)) = running s"
  "fst (wake turn s) \<Longrightarrow> waiting s \<noteq> [] \<Longrightarrow> wakePending (snd (wake turn s))"
  by (auto simp: wake_def split: if_splits)

lemma delete_snoc: "i \<notin> set (map fst m) \<Longrightarrow> jdelete i (m @ [(i, c)]) = m"
  by (auto simp: jdelete_filter filter_id_conv)

lemma delete_head: "jwf ((i, c) # m) \<Longrightarrow> jdelete i ((i, c) # m) = m"
  by (auto simp: jdelete_filter filter_id_conv)

lemma schedule_cases:
  assumes "wfLane r" and "length (waiting (lane r)) < maxTasks"
  obtains (admitted) "fst (schedule turn c (lane r)) = Inr (nextId (lane r) + 1)"
      "waiting (snd (schedule turn c (lane r))) = waiting (lane r) @ [(nextId (lane r) + 1, c)]"
      "nextId (snd (schedule turn c (lane r))) = nextId (lane r) + 1" "wakePending (snd (schedule turn c (lane r)))"
      "running (snd (schedule turn c (lane r))) = running (lane r)"
    | (refused) "fst (schedule turn c (lane r)) = Inl TurnRefused"
      "waiting (snd (schedule turn c (lane r))) = waiting (lane r)"
      "nextId (snd (schedule turn c (lane r))) = nextId (lane r) + 1" "\<not> turn"
      "running (snd (schedule turn c (lane r))) = running (lane r)"
proof -
  have new: "nextId (lane r) + 1 \<notin> set (map fst (waiting (lane r)))"
    using assms(1) by (fastforce simp: wfLane_def jkeys_def)
  let ?s = "lane r\<lparr>nextId := nextId (lane r) + 1, waiting := jset (nextId (lane r) + 1) c (waiting (lane r))\<rparr>"
  have w: "waiting ?s = waiting (lane r) @ [(nextId (lane r) + 1, c)]" using jset_absent [OF new] by simp
  show thesis
  proof (cases "fst (wake turn ?s)")
    case True
    then have "wakePending (snd (wake turn ?s))" using wake_fields(4) [of turn ?s] w by simp
    then show thesis
      using True w assms(2) admitted by (simp add: schedule_def Let_def case_prod_beta wake_fields)
  next
    case False
    then have "\<not> turn" by (auto simp: wake_def split: if_splits)
    with False w assms(2) delete_snoc [OF new] show thesis
      using refused by (simp add: schedule_def Let_def case_prod_beta wake_fields)
  qed
qed

lemma lane_step_wf: "wfLane r \<Longrightarrow> wfLane (lane_step e r)"
proof (cases e)
  case (Schedule turn c)
  assume w: "wfLane r"
  show ?thesis
  proof (cases "length (waiting (lane r)) < maxTasks")
    case False
    then have "schedule turn c (lane r) = (Inl CapacityExceeded, lane r)" by (simp add: schedule_def)
    with w Schedule show ?thesis by (simp add: wfLane_def)
  next
    case True
    show ?thesis
    proof (cases rule: schedule_cases [OF w True, of turn c, case_names admitted refused])
      case admitted
      with w True Schedule show ?thesis
        by (fastforce simp: wfLane_def case_prod_beta jkeys_def jvalues_def)
    next
      case refused
      with w Schedule show ?thesis by (fastforce simp: wfLane_def case_prod_beta jkeys_def jvalues_def)
    qed
  qed
next
  case (Cancel i)
  assume w: "wfLane r"
  have "length (jdelete i (waiting (lane r))) \<le> length (waiting (lane r))" by (simp add: jdelete_filter)
  moreover have "\<not> jhas (waiting (lane r)) i \<Longrightarrow> jdelete i (waiting (lane r)) = waiting (lane r)"
    by (auto simp: jhas_def jdelete_filter filter_id_conv)
  ultimately show ?thesis using w Cancel by (auto simp: wfLane_def cancel_def jkeys_jdelete)
next
  case RunStart
  assume w: "wfLane r"
  show ?thesis
  proof (cases "waiting (lane r)")
    case Nil
    with w RunStart show ?thesis by (simp add: wfLane_def runStart_def Let_def)
  next
    case (Cons e m)
    obtain i c where e: "e = (i, c)" by (cases e)
    have d: "jdelete i ((i, c) # m) = m" using w Cons e by (intro delete_head) (simp add: wfLane_def)
    have "runStart (lane r) = (Some c, lane r\<lparr>wakePending := False, waiting := m, running := running (lane r) + 1\<rparr>)"
      unfolding runStart_def Let_def Cons e list.case prod.case d by simp
    with w RunStart Cons e show ?thesis by (auto simp: wfLane_def jkeys_def jvalues_def)
  qed
next
  case (RunEnd turn)
  assume "wfLane r"
  with RunEnd show ?thesis by (auto simp: wfLane_def runEnd_def wake_fields)
qed

text \<open>Nothing waits without a turn requested, when every request is taken.\<close>

definition awake :: "'c lane_run \<Rightarrow> bool" where
  "awake r \<longleftrightarrow> (waiting (lane r) \<noteq> [] \<longrightarrow> wakePending (lane r) \<or> 0 < running (lane r))"

fun turnTaken :: "'c lane_op \<Rightarrow> bool" where
  "turnTaken (Schedule turn c) = turn"
| "turnTaken (RunEnd turn) = turn"
| "turnTaken _ = True"

lemma awake_step: "wfLane r \<Longrightarrow> awake r \<Longrightarrow> turnTaken e \<Longrightarrow> awake (lane_step e r)"
proof (cases e)
  case (Schedule turn c)
  assume a: "wfLane r" "awake r" "turnTaken e"
  show ?thesis
  proof (cases "length (waiting (lane r)) < maxTasks")
    case False
    then have "schedule turn c (lane r) = (Inl CapacityExceeded, lane r)" by (simp add: schedule_def)
    with a Schedule show ?thesis by (simp add: awake_def)
  next
    case True
    show ?thesis
      by (cases rule: schedule_cases [OF a(1) True, of turn c]) (use a Schedule in \<open>auto simp: awake_def case_prod_beta\<close>)
  qed
next
  case (RunEnd turn)
  assume a: "awake r" "turnTaken e"
  then have "fst (wake turn (lane r\<lparr>running := running (lane r) - 1\<rparr>))" using RunEnd by (simp add: wake_def)
  from wake_fields(4) [OF this] a RunEnd show ?thesis by (auto simp: awake_def runEnd_def wake_fields)
next
  case (Cancel i)
  assume "awake r"
  with Cancel show ?thesis by (auto simp: awake_def cancel_def)
next
  case RunStart
  then show ?thesis by (auto simp: awake_def runStart_def Let_def split: list.split)
qed

interpretation lane_machine: event_machine lane_step wfLane
  by unfold_locales (rule lane_step_wf)

lemma startLane_wf: "wfLane startLane"
  by (simp add: wfLane_def startLane_def createTerminalDispatchTasks_def jvalues_def jkeys_def)

lemma awake_run: "wfLane r \<Longrightarrow> awake r \<Longrightarrow> list_all turnTaken es \<Longrightarrow> awake (fold lane_step es r)"
  by (induction es arbitrary: r) (auto intro: awake_step lane_step_wf)

text \<open>
  C37: The shared lane never strands a writer: as long as turns can be requested, after any sequence of
  scheduling, cancelling and running, callbacks that throw or schedule more included, a waiting callback
  has a turn requested or runs behind one that will request it; at most 1024 wait; and when none is
  cancelled they start in the order in which they were admitted.
\<close>

theorem dispatch_lane:
  assumes "list_all turnTaken es"
  shows "let r = fold lane_step es startLane in
    awake r \<and> length (waiting (lane r)) \<le> maxTasks \<and>
    (\<not> cancelled r \<longrightarrow> started r @ jvalues (waiting (lane r)) = admitted r)"
proof -
  have "awake startLane" by (simp add: awake_def startLane_def createTerminalDispatchTasks_def)
  from awake_run [OF startLane_wf this assms] lane_machine.run_inv [OF startLane_wf, of es]
  show ?thesis by (simp add: Let_def wfLane_def)
qed

theorem dispatch_lane_witness:
  "let r = fold lane_step [Schedule True ''a'', Schedule True ''b'', RunStart, Schedule True ''c'', RunEnd True] startLane in
    awake r \<and> length (waiting (lane r)) \<le> maxTasks \<and>
    (\<not> cancelled r \<longrightarrow> started r @ jvalues (waiting (lane r)) = admitted r)"
  by (rule dispatch_lane) simp

end
