(* ===== verification/GeometryCoordinator.thy ===== *)
theory GeometryCoordinator
  imports Prelude
begin

text \<open>
  From observed sizes to grid dimensions,
  \<open>packages/ghostty-react/src/geometry/terminal-geometry-coordinator.ts\<close>: samples are collapsed to the
  latest and committed at most once per display frame. The display clock is outside: the handle that
  \<open>requestFrame\<close> returns is an argument of \<open>observe\<close>, and a frame that fires is the operation
  \<open>frameFired\<close>. What \<open>onCommit\<close> receives is collected in order.
\<close>

section \<open>State\<close>

record geometry_sample =
  cssWidth :: js_num
  cssHeight :: js_num
  pixelRatio :: js_num
  cellWidth :: js_num
  cellHeight :: js_num

record geometry_commit =
  csample :: geometry_sample
  cgeneration :: nat
  cols :: int
  rows :: int

record geometry_coordinator =
  padding :: rat
  pending :: "geometry_sample option"
  committed :: "geometry_sample option"
  frame :: nat
  generation :: nat
  disposed :: bool
  commits :: "geometry_commit list"

definition newCoordinator :: "rat \<Rightarrow> geometry_coordinator" where
  "newCoordinator p = \<lparr>padding = p, pending = None, committed = None, frame = 0, generation = 0, disposed = False, commits = []\<rparr>"

section \<open>Operations\<close>

definition finitePositive :: "js_num \<Rightarrow> bool" where
  "finitePositive v \<longleftrightarrow> isFinite v \<and> finValue v > 0"

text \<open>\<open>===\<close> on numbers: \<open>NaN\<close> is not equal to itself.\<close>

definition sameNumber :: "js_num \<Rightarrow> js_num \<Rightarrow> bool" where
  "sameNumber a b \<longleftrightarrow> a \<noteq> NaN \<and> a = b"

definition sameSample :: "geometry_sample \<Rightarrow> geometry_sample \<Rightarrow> bool" where
  "sameSample l r \<longleftrightarrow> sameNumber (cssWidth l) (cssWidth r) \<and> sameNumber (cssHeight l) (cssHeight r) \<and>
     sameNumber (pixelRatio l) (pixelRatio r) \<and> sameNumber (cellWidth l) (cellWidth r) \<and>
     sameNumber (cellHeight l) (cellHeight r)"

definition validSample :: "geometry_sample \<Rightarrow> bool" where
  "validSample s \<longleftrightarrow> finitePositive (cssWidth s) \<and> finitePositive (cssHeight s) \<and>
     finitePositive (pixelRatio s) \<and> finitePositive (cellWidth s) \<and> finitePositive (cellHeight s)"

text \<open>Columns or rows: whole cells in the size less its padding, and at least one.\<close>

definition cells :: "rat \<Rightarrow> js_num \<Rightarrow> js_num \<Rightarrow> int" where
  "cells p extent cell = max 1 \<lfloor>max 0 (finValue extent - p * 2) / finValue cell\<rfloor>"

definition flush :: "geometry_coordinator \<Rightarrow> bool \<times> geometry_coordinator" where
  "flush s =
     (let s1 = s\<lparr>pending := None\<rparr> in
      case pending s of
        None \<Rightarrow> (False, s1)
      | Some smp \<Rightarrow>
          if disposed s then (False, s1)
          else if (case committed s of None \<Rightarrow> False | Some c \<Rightarrow> sameSample c smp) then (False, s1)
          else (True, s1\<lparr>generation := generation s + 1, committed := Some smp,
            commits := commits s @ [\<lparr>csample = smp, cgeneration = generation s + 1,
              cols = cells (padding s) (cssWidth smp) (cellWidth smp),
              rows = cells (padding s) (cssHeight smp) (cellHeight smp)\<rparr>]\<rparr>))"

definition observe :: "nat \<Rightarrow> geometry_sample \<Rightarrow> geometry_coordinator \<Rightarrow> bool \<times> geometry_coordinator" where
  "observe handle smp s =
     (if disposed s \<or> \<not> validSample smp then (False, s)
      else if (case pending s of None \<Rightarrow> False | Some p \<Rightarrow> sameSample p smp) then (False, s)
      else if pending s = None \<and> (case committed s of None \<Rightarrow> False | Some c \<Rightarrow> sameSample c smp) then (False, s)
      else (True, s\<lparr>pending := Some smp, frame := (if frame s = 0 then handle else frame s)\<rparr>))"

definition frameFired :: "geometry_coordinator \<Rightarrow> geometry_coordinator" where
  "frameFired s = (if frame s = 0 then s else snd (flush (s\<lparr>frame := 0\<rparr>)))"

definition commitNow :: "geometry_sample \<Rightarrow> geometry_coordinator \<Rightarrow> bool \<times> geometry_coordinator" where
  "commitNow smp s =
     (if disposed s \<or> \<not> validSample smp then (False, s)
      else flush (s\<lparr>pending := Some smp, frame := 0\<rparr>))"

definition dispose :: "geometry_coordinator \<Rightarrow> geometry_coordinator" where
  "dispose s = (if disposed s then s else s\<lparr>disposed := True, pending := None, frame := 0\<rparr>)"

section \<open>Runs\<close>

datatype geometry_op = Observe nat geometry_sample | FrameFired | CommitNow geometry_sample | Flush | Dispose

fun geometry_step :: "geometry_op \<Rightarrow> geometry_coordinator \<Rightarrow> geometry_coordinator" where
  "geometry_step (Observe h smp) s = (if h = 0 then s else snd (observe h smp s))"
| "geometry_step FrameFired s = frameFired s"
| "geometry_step (CommitNow smp) s = snd (commitNow smp s)"
| "geometry_step Flush s = snd (flush s)"
| "geometry_step Dispose s = dispose s"

text \<open>The cells fit the padded extent, unless there is room for less than one.\<close>

definition fits :: "rat \<Rightarrow> js_num \<Rightarrow> js_num \<Rightarrow> int \<Rightarrow> bool" where
  "fits p extent cell n \<longleftrightarrow> 1 \<le> n \<and> finValue extent - p * 2 < of_int (n + 1) * finValue cell \<and>
     (1 < n \<longrightarrow> of_int n * finValue cell \<le> finValue extent - p * 2)"

definition commitOk :: "rat \<Rightarrow> geometry_commit \<Rightarrow> bool" where
  "commitOk p c \<longleftrightarrow> validSample (csample c) \<and> fits p (cssWidth (csample c)) (cellWidth (csample c)) (cols c) \<and>
     fits p (cssHeight (csample c)) (cellHeight (csample c)) (rows c)"

definition wfGeometry :: "geometry_coordinator \<Rightarrow> bool" where
  "wfGeometry s \<longleftrightarrow>
     map cgeneration (commits s) = [1..<Suc (generation s)] \<and> list_all (commitOk (padding s)) (commits s) \<and>
     successively (\<lambda>a b. csample a \<noteq> csample b) (commits s) \<and>
     committed s = (if commits s = [] then None else Some (csample (last (commits s)))) \<and>
     (case pending s of None \<Rightarrow> True | Some smp \<Rightarrow> validSample smp \<and> frame s \<noteq> 0 \<and> \<not> disposed s)"

lemma whole_cells:
  fixes w c :: rat and f :: int
  assumes c: "0 < c" and a: "of_int f * c \<le> max 0 w" and b: "max 0 w < (of_int f + 1) * c"
  shows "w < of_int (max 1 f + 1) * c" and "1 < max 1 f \<Longrightarrow> of_int (max 1 f) * c \<le> w"
proof -
  have "of_int f + 1 \<le> (of_int (max 1 f + 1) :: rat)" by simp
  then have "(of_int f + 1) * c \<le> of_int (max 1 f + 1) * c" using c by (intro mult_right_mono) simp_all
  with b have "max 0 w < of_int (max 1 f + 1) * c" by (rule less_le_trans)
  then show "w < of_int (max 1 f + 1) * c" by (rule le_less_trans [OF max.cobounded2])
  show "of_int (max 1 f) * c \<le> w" if f: "1 < max 1 f"
  proof -
    from f have m: "max 1 f = f" by (simp add: max_def split: if_splits)
    with f have "0 < (of_int f :: rat)" by simp
    then have "0 < of_int f * c" using c by (rule mult_pos_pos)
    with a show ?thesis unfolding m by (cases "0 \<le> w") simp_all
  qed
qed

lemma cells_fits:
  assumes "finitePositive cell"
  shows "fits p extent cell (cells p extent cell)"
proof -
  let ?c = "finValue cell" and ?w = "finValue extent - p * 2"
  have c: "0 < ?c" using assms by (simp add: finitePositive_def)
  have "of_int \<lfloor>max 0 ?w / ?c\<rfloor> * ?c \<le> max 0 ?w"
    using of_int_floor_le [of "max 0 ?w / ?c"] unfolding pos_le_divide_eq [OF c] .
  moreover have "max 0 ?w < (of_int \<lfloor>max 0 ?w / ?c\<rfloor> + 1) * ?c"
    using floor_correct [of "max 0 ?w / ?c"] unfolding of_int_add of_int_1 pos_divide_less_eq [OF c] by blast
  ultimately show ?thesis
    using whole_cells [OF c] unfolding fits_def cells_def by (metis max.cobounded1)
qed

lemma sameSample_valid: "validSample s \<Longrightarrow> sameSample c s \<longleftrightarrow> c = s"
proof -
  assume "validSample s"
  then have "cssWidth s \<noteq> NaN" "cssHeight s \<noteq> NaN" "pixelRatio s \<noteq> NaN" "cellWidth s \<noteq> NaN" "cellHeight s \<noteq> NaN"
    by (auto simp: validSample_def finitePositive_def)
  then show ?thesis by (auto simp: sameSample_def sameNumber_def)
qed

lemma successively_snoc: "successively R (xs @ [x]) \<longleftrightarrow> successively R xs \<and> (xs \<noteq> [] \<longrightarrow> R (last xs) x)"
  by (auto simp: successively_append_iff)

lemma flush_wf:
  assumes w: "wfGeometry (s\<lparr>pending := None\<rparr>)" and v: "\<And>smp. pending s = Some smp \<Longrightarrow> validSample smp"
  shows "wfGeometry (snd (flush s))"
proof (cases "pending s")
  case None
  with w show ?thesis by (simp add: flush_def Let_def)
next
  case (Some smp)
  note ok = v [OF Some]
  show ?thesis
  proof (cases "disposed s \<or> (case committed s of None \<Rightarrow> False | Some c \<Rightarrow> sameSample c smp)")
    case True
    with Some w show ?thesis by (auto simp: flush_def Let_def)
  next
    case False
    let ?c = "\<lparr>csample = smp, cgeneration = generation s + 1, cols = cells (padding s) (cssWidth smp) (cellWidth smp),
      rows = cells (padding s) (cssHeight smp) (cellHeight smp)\<rparr>"
    have f: "snd (flush s) = s\<lparr>pending := None, generation := generation s + 1, committed := Some smp, commits := commits s @ [?c]\<rparr>"
      using Some False by (auto simp: flush_def Let_def split: option.splits)
    have "commits s \<noteq> [] \<Longrightarrow> csample (last (commits s)) \<noteq> smp"
      using False w sameSample_valid [OF ok] by (auto simp: wfGeometry_def)
    moreover have "commitOk (padding s) ?c" using ok by (simp add: commitOk_def cells_fits validSample_def)
    ultimately show ?thesis using w unfolding f by (simp add: wfGeometry_def successively_snoc)
  qed
qed

lemma observe_wf:
  assumes "wfGeometry s" and "0 < h"
  shows "wfGeometry (snd (observe h smp s))"
proof -
  have "wfGeometry (s\<lparr>pending := Some smp, frame := (if frame s = 0 then h else frame s)\<rparr>)"
    if "validSample smp" "\<not> disposed s"
    using assms that by (simp add: wfGeometry_def)
  with assms(1) show ?thesis by (simp add: observe_def)
qed

lemma geometry_step_wf: "wfGeometry s \<Longrightarrow> wfGeometry (geometry_step e s)"
proof (cases e)
  case (Observe h smp)
  assume "wfGeometry s"
  with Observe observe_wf show ?thesis by simp
next
  case FrameFired
  assume "wfGeometry s"
  then have "wfGeometry (s\<lparr>frame := 0, pending := None\<rparr>)" "\<And>smp. pending s = Some smp \<Longrightarrow> validSample smp"
    by (auto simp: wfGeometry_def)
  with flush_wf [of "s\<lparr>frame := 0\<rparr>"] FrameFired \<open>wfGeometry s\<close> show ?thesis by (simp add: frameFired_def)
next
  case (CommitNow smp)
  assume w: "wfGeometry s"
  then have "wfGeometry (s\<lparr>frame := 0, pending := None\<rparr>)" by (simp add: wfGeometry_def)
  with flush_wf [of "s\<lparr>pending := Some smp, frame := 0\<rparr>"] CommitNow w show ?thesis by (simp add: commitNow_def)
next
  case Flush
  assume "wfGeometry s"
  then have "wfGeometry (s\<lparr>pending := None\<rparr>)" "\<And>smp. pending s = Some smp \<Longrightarrow> validSample smp"
    by (auto simp: wfGeometry_def)
  with flush_wf [of s] Flush show ?thesis by simp
next
  case Dispose
  assume "wfGeometry s"
  with Dispose show ?thesis by (simp add: dispose_def wfGeometry_def del: upt_Suc)
qed

interpretation geometry_machine: event_machine geometry_step wfGeometry
  by unfold_locales (rule geometry_step_wf)

lemma newCoordinator_wf: "wfGeometry (newCoordinator p)"
  by (simp add: newCoordinator_def wfGeometry_def)

text \<open>
  C38: Whatever is observed, committed at once, flushed or disposed, the commits are numbered 1, 2, 3
  and so on, no two consecutive ones have the same sample, each comes from a valid sample and has the
  greatest number of whole cells that fit the padded size, but at least one, and a sample that is still
  pending has a display frame requested.
\<close>

theorem geometry_commits: "wfGeometry (fold geometry_step es (newCoordinator p))"
  by (rule geometry_machine.run_inv [OF newCoordinator_wf])

end
