(* ===== verification/ViewportActivity.thy ===== *)
theory ViewportActivity
  imports Prelude
begin

text \<open>
  Whether the reader follows the output, \<open>packages/ghostty-react/src/viewport-activity.ts\<close>: live,
  inspecting the scrollback or paused, and how many rows arrived unseen, when that is known. What
  listeners are told is collected in order. The lemmas show that the count is exact while the facts are
  comparable and that it is given up, never guessed, otherwise.
\<close>

section \<open>State\<close>

datatype activity_mode = Live | Inspecting | Paused

record viewport_activity =
  mode :: activity_mode
  unseenRows :: "int option"

record viewport_facts =
  viewportActive :: bool
  totalRows :: "js_num option"
  viewportOffset :: "js_num option"
  geometryGeneration :: int
  contentGeneration :: int
  alternateScreen :: bool

text \<open>The facts with their counts normalised.\<close>

record known_facts =
  kTotal :: "int option"
  kOffset :: "int option"
  kGeometry :: int
  kContent :: int

record activity_policy =
  activity :: viewport_activity
  previousFacts :: "known_facts option"
  published :: "viewport_activity list"

definition LIVE_ACTIVITY :: viewport_activity where
  "LIVE_ACTIVITY = \<lparr>mode = Live, unseenRows = Some 0\<rparr>"

definition newPolicy :: activity_policy where
  "newPolicy = \<lparr>activity = LIVE_ACTIVITY, previousFacts = None, published = []\<rparr>"

section \<open>Operations\<close>

definition normalizedCount :: "js_num option \<Rightarrow> int option" where
  "normalizedCount v =
     (case v of None \<Rightarrow> None
      | Some n \<Rightarrow> if \<not> isSafeInteger n \<or> finValue n < 0 then None else Some \<lfloor>finValue n\<rfloor>)"

definition saturatedAdd :: "int \<Rightarrow> int \<Rightarrow> int" where
  "saturatedAdd l r = min maxSafeInteger (l + r)"

definition sameActivity :: "viewport_activity \<Rightarrow> viewport_activity \<Rightarrow> bool" where
  "sameActivity l r \<longleftrightarrow> mode l = mode r \<and> unseenRows l = unseenRows r"

definition publish :: "viewport_activity \<Rightarrow> activity_policy \<Rightarrow> activity_policy" where
  "publish a s = (if sameActivity (activity s) a then s else s\<lparr>activity := a, published := published s @ [a]\<rparr>)"

definition knownFacts :: "viewport_facts \<Rightarrow> known_facts" where
  "knownFacts f = \<lparr>kTotal = normalizedCount (totalRows f), kOffset = normalizedCount (viewportOffset f),
     kGeometry = geometryGeneration f, kContent = contentGeneration f\<rparr>"

text \<open>The rows appended since the previous facts, or evidence that the count is lost.\<close>

definition compareFacts :: "known_facts \<Rightarrow> known_facts \<Rightarrow> viewport_activity \<Rightarrow> viewport_activity" where
  "compareFacts prev f a =
     (if kGeometry f \<noteq> kGeometry prev then a\<lparr>unseenRows := None\<rparr>
      else (case (kTotal prev, kTotal f) of
          (Some before, Some after) \<Rightarrow>
            if after - before > 0 then
              a\<lparr>unseenRows := (case unseenRows a of None \<Rightarrow> None | Some u \<Rightarrow> Some (saturatedAdd u (after - before)))\<rparr>
            else if after - before < 0 then a\<lparr>unseenRows := None\<rparr>
            else if kContent f \<noteq> kContent prev \<and>
                (case (kOffset f, kOffset prev) of (Some o1, Some o0) \<Rightarrow> o1 < o0 \<or> o1 = 0 \<and> o0 = 0 | _ \<Rightarrow> False)
              then a\<lparr>unseenRows := None\<rparr>
            else a
        | _ \<Rightarrow> if kContent f \<noteq> kContent prev then a\<lparr>unseenRows := None\<rparr> else a))"

definition observe :: "viewport_facts \<Rightarrow> activity_policy \<Rightarrow> activity_policy" where
  "observe facts s =
     (let f = knownFacts facts; s1 = s\<lparr>previousFacts := Some f\<rparr> in
      if alternateScreen facts \<or> viewportActive facts then publish LIVE_ACTIVITY s1
      else if mode (activity s) = Live then publish \<lparr>mode = Inspecting, unseenRows = Some 0\<rparr> s1
      else (case previousFacts s of
          None \<Rightarrow> s1
        | Some prev \<Rightarrow> publish (compareFacts prev f (activity s)) s1))"

definition pause :: "activity_policy \<Rightarrow> activity_policy" where
  "pause s = (if mode (activity s) = Live then s else publish ((activity s)\<lparr>mode := Paused\<rparr>) s)"

definition resume :: "activity_policy \<Rightarrow> activity_policy" where
  "resume s = (if mode (activity s) \<noteq> Paused then s else publish ((activity s)\<lparr>mode := Inspecting\<rparr>) s)"

definition jumpToLive :: "activity_policy \<Rightarrow> activity_policy" where
  "jumpToLive s = publish LIVE_ACTIVITY s"

section \<open>Runs\<close>

datatype activity_op = Observe viewport_facts | Pause | Resume | JumpToLive

fun activity_step :: "activity_op \<Rightarrow> activity_policy \<Rightarrow> activity_policy" where
  "activity_step (Observe f) s = observe f s"
| "activity_step Pause s = pause s"
| "activity_step Resume s = resume s"
| "activity_step JumpToLive s = jumpToLive s"

definition activityOk :: "viewport_activity \<Rightarrow> bool" where
  "activityOk a \<longleftrightarrow> (mode a = Live \<longrightarrow> unseenRows a = Some 0) \<and>
     (case unseenRows a of None \<Rightarrow> True | Some u \<Rightarrow> 0 \<le> u \<and> u \<le> maxSafeInteger)"

definition wfPolicy :: "activity_policy \<Rightarrow> bool" where
  "wfPolicy s \<longleftrightarrow> activityOk (activity s) \<and> list_all activityOk (published s) \<and>
     successively (\<noteq>) (LIVE_ACTIVITY # published s) \<and> activity s = last (LIVE_ACTIVITY # published s)"

lemma live_ok [simp]: "activityOk LIVE_ACTIVITY"
  by (simp add: activityOk_def LIVE_ACTIVITY_def maxSafeInteger_def)

lemma sameActivity_eq: "sameActivity a b \<longleftrightarrow> a = b"
  by (auto simp: sameActivity_def)

lemma publish_fields [simp]: "activity (publish a s) = a" "previousFacts (publish a s) = previousFacts s"
  by (auto simp: publish_def sameActivity_eq)

lemma publish_wf: "wfPolicy s \<Longrightarrow> activityOk a \<Longrightarrow> wfPolicy (publish a s)"
proof -
  assume w: "wfPolicy s" and a: "activityOk a"
  have "successively (\<noteq>) (xs @ [x]) = (successively (\<noteq>) xs \<and> (xs \<noteq> [] \<longrightarrow> last xs \<noteq> x))" for xs and x :: viewport_activity
    by (auto simp: successively_append_iff)
  from this [of "LIVE_ACTIVITY # published s" a] w a show ?thesis
    by (simp add: publish_def sameActivity_eq wfPolicy_def)
qed

lemma wf_previous [simp]: "wfPolicy (s\<lparr>previousFacts := p\<rparr>) = wfPolicy s"
  by (simp add: wfPolicy_def)

lemma unseen_None_ok: "mode a \<noteq> Live \<Longrightarrow> activityOk (a\<lparr>unseenRows := None\<rparr>)"
  by (simp add: activityOk_def)

lemma unseen_add_ok:
  "activityOk a \<Longrightarrow> mode a \<noteq> Live \<Longrightarrow> 0 < n \<Longrightarrow>
    activityOk (a\<lparr>unseenRows := (case unseenRows a of None \<Rightarrow> None | Some u \<Rightarrow> Some (saturatedAdd u n))\<rparr>)"
  by (auto simp: activityOk_def saturatedAdd_def maxSafeInteger_def split: option.splits)

lemma compareFacts_ok: "activityOk a \<Longrightarrow> mode a \<noteq> Live \<Longrightarrow> activityOk (compareFacts p f a)"
  by (simp add: compareFacts_def unseen_None_ok unseen_add_ok split: option.split)

lemma current_ok: "wfPolicy s \<Longrightarrow> activityOk (activity s)"
  unfolding wfPolicy_def by blast

lemma observe_facts_wf: "wfPolicy s \<Longrightarrow> wfPolicy (observe f s)"
proof -
  assume w: "wfPolicy s"
  note a = current_ok [OF w]
  have i: "activityOk \<lparr>mode = Inspecting, unseenRows = Some 0\<rparr>" by (simp add: activityOk_def maxSafeInteger_def)
  show ?thesis
    using w compareFacts_ok [OF a] i by (auto simp: observe_def Let_def intro!: publish_wf split: option.split)
qed

lemma activity_step_wf: "wfPolicy s \<Longrightarrow> wfPolicy (activity_step e s)"
proof (cases e)
  case (Observe f)
  assume "wfPolicy s"
  with Observe observe_facts_wf show ?thesis by simp
next
  case Pause
  assume w: "wfPolicy s"
  then have "mode (activity s) \<noteq> Live \<Longrightarrow> activityOk ((activity s)\<lparr>mode := Paused\<rparr>)"
    using current_ok [OF w] by (simp add: activityOk_def)
  with w Pause show ?thesis by (auto simp: pause_def intro!: publish_wf)
next
  case Resume
  assume w: "wfPolicy s"
  then have "mode (activity s) = Paused \<Longrightarrow> activityOk ((activity s)\<lparr>mode := Inspecting\<rparr>)"
    using current_ok [OF w] by (simp add: activityOk_def)
  with w Resume show ?thesis by (auto simp: resume_def intro!: publish_wf)
next
  case JumpToLive
  assume "wfPolicy s"
  with JumpToLive show ?thesis by (simp add: jumpToLive_def publish_wf)
qed

interpretation activity_machine: event_machine activity_step wfPolicy
  by unfold_locales (rule activity_step_wf)

section \<open>The count is exact\<close>

text \<open>Facts of a reader who stays in the scrollback while rows are only appended.\<close>

definition scrolledBack :: "int \<Rightarrow> int \<Rightarrow> viewport_facts \<Rightarrow> bool" where
  "scrolledBack g n f \<longleftrightarrow> \<not> alternateScreen f \<and> \<not> viewportActive f \<and> geometryGeneration f = g \<and>
     normalizedCount (totalRows f) = Some n"

fun growing :: "int \<Rightarrow> int \<Rightarrow> viewport_facts list \<Rightarrow> bool" where
  "growing g n [] = True"
| "growing g n (f # fs) = (\<exists>m>n. scrolledBack g m f \<and> growing g m fs)"

fun finalCount :: "int \<Rightarrow> viewport_facts list \<Rightarrow> int" where
  "finalCount n [] = n"
| "finalCount n (f # fs) = finalCount (case normalizedCount (totalRows f) of None \<Rightarrow> n | Some m \<Rightarrow> m) fs"

lemma observe_growing:
  assumes "growing g n fs" and "mode (activity s) \<noteq> Live" and "unseenRows (activity s) = Some u"
    and "map_option kGeometry (previousFacts s) = Some g" and "map_option kTotal (previousFacts s) = Some (Some n)"
    and "0 \<le> u" "u \<le> maxSafeInteger"
  shows "unseenRows (activity (fold observe fs s)) = Some (min maxSafeInteger (u + (finalCount n fs - n)))
    \<and> mode (activity (fold observe fs s)) = mode (activity s) \<and> n \<le> finalCount n fs"
  using assms
proof (induction fs arbitrary: n s u)
  case Nil
  then show ?case by simp
next
  case (Cons f fs)
  then obtain m where m: "n < m" "scrolledBack g m f" "growing g m fs" by auto
  from Cons.prems(4,5) obtain p where p: "previousFacts s = Some p" "kGeometry p = g" "kTotal p = Some n" by auto
  let ?s = "observe f s"
  have k: "kGeometry (knownFacts f) = g" "kTotal (knownFacts f) = Some m" "\<not> alternateScreen f" "\<not> viewportActive f"
    "normalizedCount (totalRows f) = Some m"
    using m(2) by (simp_all add: scrolledBack_def knownFacts_def)
  have s: "activity ?s = (activity s)\<lparr>unseenRows := Some (saturatedAdd u (m - n))\<rparr>" "previousFacts ?s = Some (knownFacts f)"
    using Cons.prems(2,3) p k m(1) by (simp_all add: observe_def Let_def compareFacts_def)
  have "unseenRows (activity (fold observe fs ?s)) = Some (min maxSafeInteger (saturatedAdd u (m - n) + (finalCount m fs - m)))
    \<and> mode (activity (fold observe fs ?s)) = mode (activity ?s) \<and> m \<le> finalCount m fs"
    by (rule Cons.IH [OF m(3)])
      (use Cons.prems s k m(1) in \<open>simp_all add: saturatedAdd_def maxSafeInteger_def\<close>)
  with s k m(1) show ?case by (auto simp: saturatedAdd_def)
qed

text \<open>
  The unseen count is exact: a reader of live output who scrolls back at n rows and stays there,
  while the screen keeps its geometry and only grows, sees as many unseen rows as were appended since
  (up to the greatest safe integer), and is told to be inspecting.
\<close>

theorem unseen_exact:
  assumes "mode (activity s) = Live" and "scrolledBack g n f" and "growing g n fs"
  shows "unseenRows (activity (fold observe (f # fs) s)) = Some (min maxSafeInteger (finalCount n fs - n)) \<and>
    mode (activity (fold observe (f # fs) s)) = Inspecting"
proof -
  let ?s = "observe f s"
  have s: "activity ?s = \<lparr>mode = Inspecting, unseenRows = Some 0\<rparr>" "previousFacts ?s = Some (knownFacts f)"
    using assms(1,2) by (simp_all add: observe_def Let_def scrolledBack_def)
  have "unseenRows (activity (fold observe fs ?s)) = Some (min maxSafeInteger (0 + (finalCount n fs - n)))
    \<and> mode (activity (fold observe fs ?s)) = mode (activity ?s) \<and> n \<le> finalCount n fs"
    by (rule observe_growing [OF assms(3)])
      (use s assms(2) in \<open>simp_all add: scrolledBack_def knownFacts_def maxSafeInteger_def\<close>)
  with s show ?thesis by simp
qed

theorem unseen_exact_witness:
  "let f = \<lambda>n. \<lparr>viewportActive = False, totalRows = Some (Fin (of_int n)), viewportOffset = None,
     geometryGeneration = 1, contentGeneration = n, alternateScreen = False\<rparr> in
   unseenRows (activity (fold observe [f 10, f 15] newPolicy)) = Some 5 \<and>
   mode (activity (fold observe [f 10, f 15] newPolicy)) = Inspecting"
proof -
  let ?f = "\<lambda>n. \<lparr>viewportActive = False, totalRows = Some (Fin (of_int n)), viewportOffset = None,
     geometryGeneration = 1, contentGeneration = n, alternateScreen = False\<rparr>"
  have c: "normalizedCount (Some (Fin (of_int n))) = Some n" if "safe_int n" "0 \<le> n" for n
    using that unfolding normalizedCount_def option.case isSafeInteger_of_int by simp
  have s: "scrolledBack 1 10 (?f 10)" "scrolledBack 1 15 (?f 15)"
    unfolding scrolledBack_def using c [of 10] c [of 15] by (simp_all add: safe_int_def maxSafeInteger_def)
  have live: "mode (activity newPolicy) = Live" by (simp add: newPolicy_def LIVE_ACTIVITY_def)
  have "growing 1 10 [?f 15]" using s(2) by (auto intro!: exI [of _ 15])
  moreover have "finalCount 10 [?f 15] = 15" using s(2) by (simp add: scrolledBack_def)
  ultimately show ?thesis
    unfolding Let_def using unseen_exact [OF live s(1), of "[?f 15]"] by (simp add: maxSafeInteger_def)
qed

end
