(* ===== verification/FocusHistory.thy ===== *)
theory FocusHistory
  imports Prelude
begin

text \<open>
  The recently focused terminals, \<open>packages/yaade-app/src/mux/terminal-focus-history.ts\<close>: a bounded
  list, most recent first, the ranking of the available terminals by it, and its profile in session
  storage. The size of a profile's JSON, the schema decoders and the storage are parameters.
\<close>

section \<open>State\<close>

record focus_identity =
  serverId :: string
  sessionId :: string
  tabId :: string
  terminalId :: string
  focusGeneration :: nat

type_synonym focus_history = "focus_identity list"

definition TERMINAL_FOCUS_HISTORY_VERSION :: nat where
  "TERMINAL_FOCUS_HISTORY_VERSION = 1"

definition MAX_TERMINAL_FOCUS_ENTRIES :: nat where
  "MAX_TERMINAL_FOCUS_ENTRIES = 128"

definition MAX_TERMINAL_FOCUS_BYTES :: nat where
  "MAX_TERMINAL_FOCUS_BYTES = 32 * 1024"

text \<open>
  The code joins the five fields with a separator that no valid field contains, so that the key
  determines the identity; the model uses the tuple of the fields.
\<close>

definition terminalFocusIdentityKey :: "focus_identity \<Rightarrow> string \<times> string \<times> string \<times> string \<times> nat" where
  "terminalFocusIdentityKey i = (serverId i, sessionId i, tabId i, terminalId i, focusGeneration i)"

section \<open>Operations\<close>

text \<open>
  \<open>bytesOf\<close> is the number of bytes of the profile of a list of entries. The profile without entries is
  far below the bound, so the loop stops at the empty list at the latest.
\<close>

function fitEntries :: "(focus_identity list \<Rightarrow> nat) \<Rightarrow> focus_identity list \<Rightarrow> focus_identity list" where
  "fitEntries bytesOf xs =
     (if xs \<noteq> [] \<and> (length xs > MAX_TERMINAL_FOCUS_ENTRIES \<or> bytesOf xs > MAX_TERMINAL_FOCUS_BYTES)
      then fitEntries bytesOf (butlast xs) else xs)"
  by pat_completeness auto
termination
  by (relation "measure (\<lambda>(b, xs). length xs)") auto

declare fitEntries.simps [simp del]

definition recordFocus :: "(focus_identity list \<Rightarrow> nat) \<Rightarrow> focus_identity \<Rightarrow> focus_history \<Rightarrow> bool \<times> focus_history" where
  "recordFocus bytesOf i h =
     (let key = terminalFocusIdentityKey i;
          next = fitEntries bytesOf (i # filter (\<lambda>x. terminalFocusIdentityKey x \<noteq> key) h)
      in if length next = length h \<and> list_all2 (\<lambda>x y. terminalFocusIdentityKey x = terminalFocusIdentityKey y) next h
         then (False, h) else (True, next))"

definition newHistory :: "(focus_identity list \<Rightarrow> nat) \<Rightarrow> focus_identity list \<Rightarrow> focus_history" where
  "newHistory bytesOf entries = fold (\<lambda>i h. snd (recordFocus bytesOf i h)) (rev entries) []"

text \<open>One pass of \<open>rank\<close>: the candidates whose key is not used yet.\<close>

definition addUnused :: "focus_identity \<Rightarrow> focus_identity list \<Rightarrow> focus_identity list" where
  "addUnused i ranked =
     (if terminalFocusIdentityKey i \<in> terminalFocusIdentityKey ` set ranked then ranked else ranked @ [i])"

definition rank :: "focus_identity list \<Rightarrow> focus_history \<Rightarrow> focus_identity list" where
  "rank available h =
     (let byKey = map_of (map (\<lambda>i. (terminalFocusIdentityKey i, i)) (rev available));
          known = fold (\<lambda>saved ranked. case byKey (terminalFocusIdentityKey saved) of
              None \<Rightarrow> ranked | Some current \<Rightarrow> addUnused current ranked) h []
      in fold addUnused available known)"

definition previous :: "focus_identity option \<Rightarrow> focus_identity list \<Rightarrow> focus_history \<Rightarrow> focus_identity option" where
  "previous current available h =
     find (\<lambda>i. current = None \<or> terminalFocusIdentityKey i \<noteq> terminalFocusIdentityKey (the current)) (rank available h)"

definition prune :: "focus_identity list \<Rightarrow> focus_history \<Rightarrow> bool \<times> focus_history" where
  "prune available h =
     (let next = filter (\<lambda>i. terminalFocusIdentityKey i \<in> terminalFocusIdentityKey ` set available) h
      in if length next = length h then (False, h) else (True, next))"

definition hasFocus :: "focus_identity \<Rightarrow> focus_history \<Rightarrow> bool" where
  "hasFocus i h = list_ex (\<lambda>x. terminalFocusIdentityKey x = terminalFocusIdentityKey i) h"

record focus_profile =
  profileVersion :: nat
  entries :: "focus_identity list"

definition toProfile :: "focus_history \<Rightarrow> focus_profile" where
  "toProfile h = \<lparr>profileVersion = TERMINAL_FOCUS_HISTORY_VERSION, entries = h\<rparr>"

datatype diagnostic = Absent | Corrupt | Oversized | NewerVersion | StorageDenied

text \<open>\<open>rawSize\<close>, \<open>decode\<close> and \<open>probe\<close>: the bytes of a text and the schema decoders.\<close>

definition decodeTerminalFocusHistory ::
  "(focus_identity list \<Rightarrow> nat) \<Rightarrow> ('t \<Rightarrow> nat) \<Rightarrow> ('t \<Rightarrow> focus_profile option) \<Rightarrow> ('t \<Rightarrow> rat option) \<Rightarrow> 't option
     \<Rightarrow> focus_history \<times> diagnostic option" where
  "decodeTerminalFocusHistory bytesOf rawSize decode probe raw =
     (case raw of
        None \<Rightarrow> ([], Some Absent)
      | Some t \<Rightarrow>
          if rawSize t > MAX_TERMINAL_FOCUS_BYTES then ([], Some Oversized)
          else if (case decode t of None \<Rightarrow> False | Some p \<Rightarrow> length (entries p) \<le> MAX_TERMINAL_FOCUS_ENTRIES)
            then (newHistory bytesOf (entries (the (decode t))), None)
          else ([], Some (if (case probe t of None \<Rightarrow> False | Some v \<Rightarrow> v > of_nat TERMINAL_FOCUS_HISTORY_VERSION)
            then NewerVersion else Corrupt)))"

text \<open>A storage reads a text, or throws; there may be none.\<close>

datatype 'a storage_result = Threw | Got 'a

definition loadTerminalFocusHistory ::
  "(focus_identity list \<Rightarrow> nat) \<Rightarrow> ('t \<Rightarrow> nat) \<Rightarrow> ('t \<Rightarrow> focus_profile option) \<Rightarrow> ('t \<Rightarrow> rat option)
     \<Rightarrow> 't option storage_result option \<Rightarrow> focus_history \<times> diagnostic option" where
  "loadTerminalFocusHistory bytesOf rawSize decode probe storage =
     (case storage of
        None \<Rightarrow> ([], Some StorageDenied)
      | Some Threw \<Rightarrow> ([], Some StorageDenied)
      | Some (Got raw) \<Rightarrow> decodeTerminalFocusHistory bytesOf rawSize decode probe raw)"

text \<open>\<open>setItem\<close> gives the new storage, or throws.\<close>

definition saveTerminalFocusHistory ::
  "(focus_profile \<Rightarrow> 't) \<Rightarrow> ('t \<Rightarrow> 's storage_result) option \<Rightarrow> focus_history \<Rightarrow> bool \<times> 's option" where
  "saveTerminalFocusHistory encode setItem h =
     (case setItem of
        None \<Rightarrow> (False, None)
      | Some put \<Rightarrow> (case put (encode (toProfile h)) of Threw \<Rightarrow> (False, None) | Got s \<Rightarrow> (True, Some s)))"

section \<open>The history is bounded and has no duplicates\<close>

definition keysOf :: "focus_identity list \<Rightarrow> (string \<times> string \<times> string \<times> string \<times> nat) list" where
  "keysOf h = map terminalFocusIdentityKey h"

definition wfHistory :: "(focus_identity list \<Rightarrow> nat) \<Rightarrow> focus_history \<Rightarrow> bool" where
  "wfHistory bytesOf h \<longleftrightarrow> distinct (keysOf h) \<and> length h \<le> MAX_TERMINAL_FOCUS_ENTRIES \<and>
     (h \<noteq> [] \<longrightarrow> bytesOf h \<le> MAX_TERMINAL_FOCUS_BYTES)"

lemma key_inj: "terminalFocusIdentityKey a = terminalFocusIdentityKey b \<Longrightarrow> a = b"
  by (cases a, cases b) (simp add: terminalFocusIdentityKey_def)

lemma key_eq [simp]: "terminalFocusIdentityKey a = terminalFocusIdentityKey b \<longleftrightarrow> a = b"
  using key_inj by blast

lemma key_mem [simp]: "terminalFocusIdentityKey a \<in> terminalFocusIdentityKey ` set xs \<longleftrightarrow> a \<in> set xs"
  by auto

lemma distinct_focusKeys [simp]: "distinct (keysOf h) \<longleftrightarrow> distinct h"
  by (simp add: keysOf_def distinct_map inj_on_def)

lemma fitEntries_take: "\<exists>n. fitEntries b xs = take n xs"
proof (induction b xs rule: fitEntries.induct)
  case (1 b xs)
  show ?case
  proof (cases "xs \<noteq> [] \<and> (length xs > MAX_TERMINAL_FOCUS_ENTRIES \<or> b xs > MAX_TERMINAL_FOCUS_BYTES)")
    case True
    with 1 obtain n where "fitEntries b (butlast xs) = take n (butlast xs)" by blast
    with True have "fitEntries b xs = take (min n (length xs - 1)) xs"
      by (subst fitEntries.simps) (simp add: butlast_conv_take)
    then show ?thesis by blast
  next
    case False
    then have "fitEntries b xs = take (length xs) xs" by (subst fitEntries.simps) auto
    then show ?thesis by blast
  qed
qed

lemma fitEntries_fits:
  "fitEntries b xs = [] \<or> length (fitEntries b xs) \<le> MAX_TERMINAL_FOCUS_ENTRIES \<and> b (fitEntries b xs) \<le> MAX_TERMINAL_FOCUS_BYTES"
proof (induction b xs rule: fitEntries.induct)
  case (1 b xs)
  then show ?case by (subst (1 2 3) fitEntries.simps) (auto split: if_splits)
qed

lemma list_all2_key: "list_all2 (\<lambda>x y. terminalFocusIdentityKey x = terminalFocusIdentityKey y) xs ys \<longleftrightarrow> xs = ys"
  by (simp add: list.rel_eq)

lemma list_all2_eq: "list_all2 (=) xs ys \<longleftrightarrow> xs = ys"
  by (simp add: list.rel_eq)

lemma recordFocus_snd:
  "snd (recordFocus b i h) = fitEntries b (i # filter (\<lambda>x. x \<noteq> i) h)"
  "fst (recordFocus b i h) = (snd (recordFocus b i h) \<noteq> h)"
  by (auto simp: recordFocus_def Let_def list_all2_eq)

lemma recordFocus_wf: "wfHistory b h \<Longrightarrow> wfHistory b (snd (recordFocus b i h))"
proof -
  assume "wfHistory b h"
  then have d: "distinct (i # filter (\<lambda>x. x \<noteq> i) h)" by (simp add: wfHistory_def)
  obtain n where n: "fitEntries b (i # filter (\<lambda>x. x \<noteq> i) h) = take n (i # filter (\<lambda>x. x \<noteq> i) h)"
    using fitEntries_take by blast
  have "distinct (fitEntries b (i # filter (\<lambda>x. x \<noteq> i) h))" unfolding n using d by (rule distinct_take)
  with fitEntries_fits [of b "i # filter (\<lambda>x. x \<noteq> i) h"] show ?thesis
    by (auto simp: wfHistory_def recordFocus_snd)
qed

lemma prune_snd: "snd (prune available h) = filter (\<lambda>i. i \<in> set available) h"
proof (cases "length (filter (\<lambda>i. i \<in> set available) h) = length h")
  case True
  then have "filter (\<lambda>i. i \<in> set available) h = h" by (metis filter_id_conv length_filter_less less_irrefl)
  with True show ?thesis by (simp add: prune_def Let_def)
qed (simp add: prune_def Let_def)

section \<open>Ranking\<close>

lemma addUnused_eq: "addUnused i ranked = (if i \<in> set ranked then ranked else ranked @ [i])"
  by (simp add: addUnused_def)

text \<open>Adding what is not there yet: the list without its repetitions, in order of first occurrence.\<close>

definition firstOccurrences :: "'a list \<Rightarrow> 'a list" where
  "firstOccurrences xs = rev (remdups (rev xs))"

lemma fold_addUnused: "distinct ranked \<Longrightarrow> fold addUnused xs ranked = firstOccurrences (ranked @ xs)"
proof (induction xs rule: rev_induct)
  case Nil
  then show ?case by (simp add: firstOccurrences_def distinct_remdups_id)
next
  case (snoc x xs)
  then have ih: "fold addUnused xs ranked = firstOccurrences (ranked @ xs)" by simp
  have "fold addUnused (xs @ [x]) ranked = addUnused x (firstOccurrences (ranked @ xs))" by (simp add: ih)
  also have "\<dots> = firstOccurrences (ranked @ xs @ [x])"
    by (auto simp: addUnused_eq firstOccurrences_def)
  finally show ?case .
qed

lemma byKey_available:
  "map_of (map (\<lambda>i. (terminalFocusIdentityKey i, i)) (rev available)) (terminalFocusIdentityKey i) =
     (if i \<in> set available then Some i else None)"
proof -
  have "map_of (map (\<lambda>i. (terminalFocusIdentityKey i, i)) xs) (terminalFocusIdentityKey i) = (if i \<in> set xs then Some i else None)" for xs
    by (induction xs) auto
  then show ?thesis by (simp del: rev_map)
qed

lemma rank_eq: "distinct h \<Longrightarrow> rank available h = firstOccurrences (filter (\<lambda>i. i \<in> set available) h @ available)"
proof -
  assume d: "distinct h"
  have "fold (\<lambda>saved ranked. case map_of (map (\<lambda>i. (terminalFocusIdentityKey i, i)) (rev available)) (terminalFocusIdentityKey saved) of
      None \<Rightarrow> ranked | Some current \<Rightarrow> addUnused current ranked) h r = fold addUnused (filter (\<lambda>i. i \<in> set available) h) r" for r
    unfolding byKey_available by (induction h arbitrary: r) auto
  moreover have "fold addUnused (filter (\<lambda>i. i \<in> set available) h) [] = filter (\<lambda>i. i \<in> set available) h"
    using d by (simp add: fold_addUnused firstOccurrences_def distinct_remdups_id)
  ultimately show ?thesis
    using d by (simp add: rank_def Let_def fold_addUnused)
qed

lemma rank_set: "distinct h \<Longrightarrow> distinct (rank available h) \<and> set (rank available h) = set available"
  by (auto simp: rank_eq firstOccurrences_def)

text \<open>
  Ranking reorders and invents nothing: the ranked terminals are exactly those available, each once;
  those in the history come first, most recently focused first, and the others keep their given order.
\<close>

theorem rank_permutes:
  assumes "wfHistory bytesOf h" and "distinct available"
  shows "rank available h = filter (\<lambda>i. i \<in> set available) h @ filter (\<lambda>i. i \<notin> set h) available"
proof -
  have d: "distinct h" using assms(1) by (simp add: wfHistory_def)
  have fo: "firstOccurrences (xs @ ys) = xs @ filter (\<lambda>i. i \<notin> set xs) ys" if "distinct xs" "distinct ys"
    for xs ys :: "focus_identity list"
  proof -
    have "fold addUnused ys xs = xs @ filter (\<lambda>i. i \<notin> set xs) ys"
      using that
    proof (induction ys rule: rev_induct)
      case (snoc y ys)
      then show ?case by (auto simp: addUnused_eq)
    qed simp
    with fold_addUnused [OF that(1), of ys] show ?thesis by simp
  qed
  have "filter (\<lambda>i. i \<notin> set (filter (\<lambda>i. i \<in> set available) h)) available = filter (\<lambda>i. i \<notin> set h) available"
    by (rule filter_cong) auto
  with fo [of "filter (\<lambda>i. i \<in> set available) h" available] d assms(2) show ?thesis
    by (simp add: rank_eq)
qed

datatype focus_op = Record focus_identity | Prune "focus_identity list"

fun focus_step :: "(focus_identity list \<Rightarrow> nat) \<Rightarrow> focus_op \<Rightarrow> focus_history \<Rightarrow> focus_history" where
  "focus_step b (Record i) h = snd (recordFocus b i h)"
| "focus_step b (Prune available) h = snd (prune available h)"

text \<open>Pruning removes entries, so it keeps the bound when fewer entries never take more bytes.\<close>

definition shrinks :: "(focus_identity list \<Rightarrow> nat) \<Rightarrow> bool" where
  "shrinks b \<longleftrightarrow> (\<forall>P xs. b (filter P xs) \<le> b xs)"

lemma focus_step_wf: "shrinks b \<Longrightarrow> wfHistory b h \<Longrightarrow> wfHistory b (focus_step b e h)"
proof (cases e)
  case (Record i)
  assume "wfHistory b h"
  with Record recordFocus_wf show ?thesis by simp
next
  case (Prune available)
  assume s: "shrinks b" and w: "wfHistory b h"
  let ?n = "filter (\<lambda>i. i \<in> set available) h"
  have "b ?n \<le> b h" using s by (simp add: shrinks_def)
  moreover have "length ?n \<le> length h" by simp
  moreover have "?n \<noteq> [] \<longrightarrow> h \<noteq> []" by auto
  ultimately show ?thesis
    using w Prune by (auto simp: wfHistory_def prune_snd intro: le_trans [OF length_filter_le])
qed

locale shrinking_profile =
  fixes bytesOf :: "focus_identity list \<Rightarrow> nat"
  assumes shrinking: "shrinks bytesOf"
begin

lemma history_run: "wfHistory bytesOf h \<Longrightarrow> wfHistory bytesOf (fold (focus_step bytesOf) es h)"
  by (induction es arbitrary: h) (auto intro: focus_step_wf [OF shrinking])

end

text \<open>A size that adds up over the entries, as that of a JSON array does.\<close>

definition additiveSize :: "nat \<Rightarrow> (focus_identity \<Rightarrow> nat) \<Rightarrow> focus_identity list \<Rightarrow> nat" where
  "additiveSize base entrySize xs = base + sum_list (map entrySize xs)"

lemma additive_shrinks: "shrinks (additiveSize base entrySize)"
proof -
  have "sum_list (map entrySize (filter P xs)) \<le> sum_list (map entrySize xs)" for P xs
    by (induction xs) auto
  then show ?thesis by (simp add: shrinks_def additiveSize_def)
qed

interpretation json_profile: shrinking_profile "additiveSize base entrySize" for base entrySize
  by unfold_locales (rule additive_shrinks)

lemma fitEntries_keeps:
  assumes "bytesOf (take n xs) \<le> MAX_TERMINAL_FOCUS_BYTES" and "n \<le> MAX_TERMINAL_FOCUS_ENTRIES"
  shows "take n (fitEntries bytesOf xs) = take n xs"
  using assms
proof (induction bytesOf xs rule: fitEntries.induct)
  case (1 b xs)
  show ?case
  proof (cases "xs \<noteq> [] \<and> (length xs > MAX_TERMINAL_FOCUS_ENTRIES \<or> b xs > MAX_TERMINAL_FOCUS_BYTES)")
    case False
    then show ?thesis by (subst fitEntries.simps) auto
  next
    case True
    then have "n < length xs"
      using "1.prems" by (metis linorder_not_less order.trans take_all)
    then have t: "take n (butlast xs) = take n xs" by (simp add: butlast_conv_take)
    then have "take n (fitEntries b (butlast xs)) = take n (butlast xs)"
      using 1 True by simp
    with True t show ?thesis by (subst fitEntries.simps) simp
  qed
qed

text \<open>
  Going back works: when a terminal was focused, then another one, and both are available, the
  previous terminal of the second is the first, whatever else the history holds and however much of it
  the storage bound cuts off, provided the two entries alone fit the bound.
\<close>

theorem previous_toggles:
  assumes "i \<noteq> j" and "i \<in> set available" and "j \<in> set available" and "wfHistory bytesOf h"
    and "bytesOf [i] \<le> MAX_TERMINAL_FOCUS_BYTES" and "bytesOf [j, i] \<le> MAX_TERMINAL_FOCUS_BYTES"
  shows "previous (Some j) available (snd (recordFocus bytesOf j (snd (recordFocus bytesOf i h)))) = Some i"
proof -
  let ?h1 = "snd (recordFocus bytesOf i h)"
  let ?h2 = "snd (recordFocus bytesOf j ?h1)"
  have "take 1 ?h1 = [i]"
    using fitEntries_keeps [of bytesOf 1 "i # filter (\<lambda>x. x \<noteq> i) h"] assms(5)
    by (simp add: recordFocus_snd MAX_TERMINAL_FOCUS_ENTRIES_def)
  then obtain t where h1: "?h1 = i # t" by (cases ?h1) auto
  have "take 2 (j # filter (\<lambda>x. x \<noteq> j) ?h1) = [j, i]"
    unfolding h1 using assms(1) by simp
  then have "take 2 ?h2 = [j, i]"
    using fitEntries_keeps [of bytesOf 2 "j # filter (\<lambda>x. x \<noteq> j) ?h1"] assms(6)
    by (simp add: recordFocus_snd MAX_TERMINAL_FOCUS_ENTRIES_def)
  then obtain u where h2: "?h2 = j # i # u" by (cases ?h2; cases "tl ?h2") auto
  have "wfHistory bytesOf ?h2" by (intro recordFocus_wf assms(4))
  then have "distinct ?h2" by (simp add: wfHistory_def)
  from rank_eq [OF this, of available] obtain v where "rank available ?h2 = firstOccurrences ([j, i] @ v)"
    using assms(2,3) unfolding h2 by auto
  also have "firstOccurrences ([j, i] @ v) = fold addUnused v [j, i]"
    using assms(1) by (intro fold_addUnused [symmetric]) auto
  also obtain w where "\<dots> = [j, i] @ w"
  proof -
    have "\<exists>w. fold addUnused v xs = xs @ w" for xs
      by (induction v arbitrary: xs) (auto simp: addUnused_eq, metis append.assoc)
    then show thesis using that by blast
  qed
  finally show ?thesis using assms(1) by (simp add: previous_def)
qed

theorem previous_toggles_witness:
  "let i = \<lambda>t. \<lparr>serverId = ''s'', sessionId = ''ses-1'', tabId = ''tab-1'', terminalId = t, focusGeneration = 0\<rparr>;
     size = additiveSize 25 (\<lambda>_. 200) in
   previous (Some (i ''term-2'')) [i ''term-1'', i ''term-2'']
     (snd (recordFocus size (i ''term-2'') (snd (recordFocus size (i ''term-1'') [])))) = Some (i ''term-1'')"
  unfolding Let_def
  by (rule previous_toggles) (simp_all add: wfHistory_def additiveSize_def MAX_TERMINAL_FOCUS_BYTES_def keysOf_def)

theorem rank_permutes_witness:
  "let i = \<lambda>t. \<lparr>serverId = ''s'', sessionId = ''ses-1'', tabId = ''tab-1'', terminalId = t, focusGeneration = 0\<rparr> in
   rank [i ''a'', i ''b''] [i ''b'', i ''c''] = [i ''b'', i ''a'']"
proof -
  let ?i = "\<lambda>t. \<lparr>serverId = ''s'', sessionId = ''ses-1'', tabId = ''tab-1'', terminalId = t, focusGeneration = 0\<rparr>"
  have "wfHistory (\<lambda>_. 0) [?i ''b'', ?i ''c'']" "distinct [?i ''a'', ?i ''b'']"
    by (simp_all add: wfHistory_def MAX_TERMINAL_FOCUS_ENTRIES_def MAX_TERMINAL_FOCUS_BYTES_def)
  from rank_permutes [OF this] show ?thesis by simp
qed

end
