(* ===== verification/Utf8.thy ===== *)
theory Utf8
  imports Prelude ByteCodec
begin

text \<open>
  \<open>TextEncoder\<close> and \<open>TextDecoder\<close> of the language's library, as the terminal's text goes through them.
  A string is the list of its code points; a surrogate in it is unpaired. The encoder writes the
  replacement character for those, the decoder drops a leading byte order mark and writes the
  replacement character for every malformed sequence.
\<close>

type_synonym js_text = "nat list"

definition scalar :: "nat \<Rightarrow> bool" where
  "scalar n \<longleftrightarrow> n < 0x110000 \<and> \<not> (0xD800 \<le> n \<and> n \<le> 0xDFFF)"

definition byte :: "nat \<Rightarrow> 8 word" where
  "byte n = of_nat n"

definition scalarBytes :: "nat \<Rightarrow> octets" where
  "scalarBytes n = map byte
     (if n < 0x80 then [n]
      else if n < 0x800 then [0xC0 + n div 64, 0x80 + n mod 64]
      else if n < 0x10000 then [0xE0 + n div 4096, 0x80 + n div 64 mod 64, 0x80 + n mod 64]
      else [0xF0 + n div 262144, 0x80 + n div 4096 mod 64, 0x80 + n div 64 mod 64, 0x80 + n mod 64])"

definition utf8Encode :: "js_text \<Rightarrow> octets" where
  "utf8Encode t = concat (map (\<lambda>n. scalarBytes (if scalar n then n else 0xFFFD)) t)"

text \<open>\<open>length\<close> of a string: its UTF-16 code units.\<close>

definition unitsOf :: "js_text \<Rightarrow> nat" where
  "unitsOf t = sum_list (map (\<lambda>n. if n < 0x10000 then 1 else 2) t)"

text \<open>The decoder has read a part of a sequence: the value so far, the bytes to come, the next byte's range.\<close>

datatype utf8_state = Start | Need nat nat nat nat

function utf8Run :: "utf8_state \<Rightarrow> octets \<Rightarrow> js_text" where
  "utf8Run Start [] = []"
| "utf8Run (Need cp k lo hi) [] = [0xFFFD]"
| "utf8Run Start (b # bs) =
     (let n = unat b in
      if n < 0x80 then n # utf8Run Start bs
      else if 0xC2 \<le> n \<and> n \<le> 0xDF then utf8Run (Need (n - 0xC0) 1 0x80 0xBF) bs
      else if 0xE0 \<le> n \<and> n \<le> 0xEF then
        utf8Run (Need (n - 0xE0) 2 (if n = 0xE0 then 0xA0 else 0x80) (if n = 0xED then 0x9F else 0xBF)) bs
      else if 0xF0 \<le> n \<and> n \<le> 0xF4 then
        utf8Run (Need (n - 0xF0) 3 (if n = 0xF0 then 0x90 else 0x80) (if n = 0xF4 then 0x8F else 0xBF)) bs
      else 0xFFFD # utf8Run Start bs)"
| "utf8Run (Need cp k lo hi) (b # bs) =
     (let n = unat b in
      if lo \<le> n \<and> n \<le> hi then
        (let cp' = cp * 64 + (n - 0x80) in
         if k \<le> 1 then cp' # utf8Run Start bs else utf8Run (Need cp' (k - 1) 0x80 0xBF) bs)
      else 0xFFFD # utf8Run Start (b # bs))"
  by pat_completeness auto
termination
  by (relation "measure (\<lambda>(st, bs). 2 * length bs + (case st of Start \<Rightarrow> 0 | Need _ _ _ _ \<Rightarrow> 1))") auto

definition utf8Decode :: "octets \<Rightarrow> js_text" where
  "utf8Decode bs = utf8Run Start (if take 3 bs = [0xEF, 0xBB, 0xBF] then drop 3 bs else bs)"

lemma unat_byte: "n < 256 \<Longrightarrow> unat (byte n) = n"
  by (simp add: byte_def unat_of_nat)

lemma digits3: "(n::nat) = (n div 4096 * 64 + n div 64 mod 64) * 64 + n mod 64"
  using div_mult_mod_eq [of "n div 64" 64] div_mult_mod_eq [of n 64] by (simp add: div_mult2_eq [symmetric])

lemma digits4: "(n::nat) = ((n div 262144 * 64 + n div 4096 mod 64) * 64 + n div 64 mod 64) * 64 + n mod 64"
  using div_mult_mod_eq [of "n div 4096" 64] digits3 [of n] by (simp add: div_mult2_eq [symmetric])

lemma low3: "(n::nat) = (a * 64 + b) * 64 + c \<Longrightarrow> c < 64 \<Longrightarrow> 0x800 \<le> n \<Longrightarrow> a = 0 \<Longrightarrow> 32 \<le> b"
  by simp

lemma surrogate3:
  "(n::nat) = (a * 64 + b) * 64 + c \<Longrightarrow> b < 64 \<Longrightarrow> c < 64 \<Longrightarrow> a = 13 \<Longrightarrow> 32 \<le> b \<Longrightarrow> 0xD800 \<le> n \<and> n \<le> 0xDFFF"
  by simp

lemma low4:
  "(n::nat) = ((z * 64 + a) * 64 + b) * 64 + c \<Longrightarrow> b < 64 \<Longrightarrow> c < 64 \<Longrightarrow> 0x10000 \<le> n \<Longrightarrow> z = 0 \<Longrightarrow> 16 \<le> a"
  by simp

lemma high4: "(n::nat) = ((z * 64 + a) * 64 + b) * 64 + c \<Longrightarrow> n < 0x110000 \<Longrightarrow> z = 4 \<Longrightarrow> a < 16"
  by simp

lemma run2:
  "2 \<le> a \<Longrightarrow> a \<le> 31 \<Longrightarrow> b \<le> 63 \<Longrightarrow>
    utf8Run Start (byte (0xC0 + a) # byte (0x80 + b) # bs) = (a * 64 + b) # utf8Run Start bs"
  by (simp add: unat_byte Let_def)

lemma run3:
  "a < 16 \<Longrightarrow> b < 64 \<Longrightarrow> c < 64 \<Longrightarrow> (a = 0 \<Longrightarrow> 32 \<le> b) \<Longrightarrow> (a = 13 \<Longrightarrow> b < 32) \<Longrightarrow>
    utf8Run Start (byte (0xE0 + a) # byte (0x80 + b) # byte (0x80 + c) # bs) = ((a * 64 + b) * 64 + c) # utf8Run Start bs"
  by (simp add: unat_byte Let_def) auto

lemma run4:
  "z < 5 \<Longrightarrow> a < 64 \<Longrightarrow> b < 64 \<Longrightarrow> c < 64 \<Longrightarrow> (z = 0 \<Longrightarrow> 16 \<le> a) \<Longrightarrow> (z = 4 \<Longrightarrow> a < 16) \<Longrightarrow>
    utf8Run Start (byte (0xF0 + z) # byte (0x80 + a) # byte (0x80 + b) # byte (0x80 + c) # bs) =
      (((z * 64 + a) * 64 + b) * 64 + c) # utf8Run Start bs"
  by (simp add: unat_byte Let_def) auto

lemma utf8Run_scalar: "scalar n \<Longrightarrow> utf8Run Start (scalarBytes n @ bs) = n # utf8Run Start bs"
proof -
  assume s: "scalar n"
  consider (one) "n < 0x80" | (two) "0x80 \<le> n" "n < 0x800" | (three) "0x800 \<le> n" "n < 0x10000"
    | (four) "0x10000 \<le> n" "n < 0x110000"
    using s by (fastforce simp: scalar_def)
  then show ?thesis
  proof cases
    case one
    then show ?thesis by (simp add: scalarBytes_def unat_byte)
  next
    case two
    have "2 \<le> n div 64" "n div 64 \<le> 31" "n mod 64 \<le> 63" using two by auto
    note run2 [OF this]
    moreover have "n div 64 * 64 + n mod 64 = n" by simp
    ultimately show ?thesis using two by (simp add: scalarBytes_def)
  next
    case three
    let ?a = "n div 4096" and ?b = "n div 64 mod 64" and ?c = "n mod 64"
    have n: "n = (?a * 64 + ?b) * 64 + ?c" by (rule digits3)
    have r: "?a < 16" "?b < 64" "?c < 64" using three by auto
    have high: "?a = 13 \<Longrightarrow> ?b < 32"
    proof (rule ccontr)
      assume "?a = 13" "\<not> ?b < 32"
      then have "0xD800 \<le> n \<and> n \<le> 0xDFFF" by (intro surrogate3 [OF n r(2,3)]) simp_all
      with s show False by (simp add: scalar_def)
    qed
    have "scalarBytes n @ bs = byte (0xE0 + ?a) # byte (0x80 + ?b) # byte (0x80 + ?c) # bs"
      using three by (simp add: scalarBytes_def)
    with run3 [OF r low3 [OF n r(3) three(1)] high] n show ?thesis by metis
  next
    case four
    let ?z = "n div 262144" and ?a = "n div 4096 mod 64" and ?b = "n div 64 mod 64" and ?c = "n mod 64"
    have n: "n = ((?z * 64 + ?a) * 64 + ?b) * 64 + ?c" by (rule digits4)
    have r: "?z < 5" "?a < 64" "?b < 64" "?c < 64" using four by auto
    have "scalarBytes n @ bs = byte (0xF0 + ?z) # byte (0x80 + ?a) # byte (0x80 + ?b) # byte (0x80 + ?c) # bs"
      using four by (simp add: scalarBytes_def)
    with run4 [OF r low4 [OF n r(3,4) four(1)] high4 [OF n four(2)]] n show ?thesis by metis
  qed
qed

lemma utf8Run_encode: "list_all scalar t \<Longrightarrow> utf8Run Start (utf8Encode t) = t"
  by (induction t) (simp_all add: utf8Encode_def utf8Run_scalar)

lemma bom_bytes: "take 3 (scalarBytes n @ bs) = [0xEF, 0xBB, 0xBF] \<Longrightarrow> scalar n \<Longrightarrow> n = 0xFEFF"
proof -
  assume t: "take 3 (scalarBytes n @ bs) = [0xEF, 0xBB, 0xBF]" and s: "scalar n"
  have "utf8Run Start (scalarBytes n @ bs) = utf8Run Start ([0xEF, 0xBB, 0xBF] @ drop 3 (scalarBytes n @ bs))"
    unfolding t [symmetric] by (simp only: append_take_drop_id)
  also have "\<dots> = 0xFEFF # utf8Run Start (drop 3 (scalarBytes n @ bs))"
    using utf8Run_scalar [of "0xFEFF"] by (simp add: scalarBytes_def scalar_def byte_def)
  finally show ?thesis using utf8Run_scalar [OF s] by simp
qed

text \<open>Well-formed text that does not begin with a byte order mark.\<close>

definition plainText :: "js_text \<Rightarrow> bool" where
  "plainText t \<longleftrightarrow> list_all scalar t \<and> (t = [] \<or> hd t \<noteq> 0xFEFF)"

lemma utf8_roundtrip: "plainText t \<Longrightarrow> utf8Decode (utf8Encode t) = t"
proof (cases t)
  case (Cons n t')
  assume p: "plainText t"
  have e: "utf8Encode t = scalarBytes n @ utf8Encode t'" using p Cons by (simp add: utf8Encode_def plainText_def)
  have "take 3 (utf8Encode t) \<noteq> [0xEF, 0xBB, 0xBF]"
    unfolding e using bom_bytes p Cons by (auto simp: plainText_def)
  then show ?thesis using p by (simp add: utf8Decode_def utf8Run_encode plainText_def)
qed (simp add: utf8Decode_def utf8Encode_def)

lemma scalarBytes_bounds: "0 < length (scalarBytes n)" "length (scalarBytes n) \<le> 3 * (if n < 0x10000 then 1 else 2)"
  by (simp_all add: scalarBytes_def)

lemma utf8_length: "length (utf8Encode t) \<le> 3 * unitsOf t"
proof (induction t)
  case (Cons n t)
  have "length (scalarBytes (if scalar n then n else 0xFFFD)) \<le> 3 * (if n < 0x10000 then 1 else 2)"
    by (simp add: scalarBytes_def)
  with Cons show ?case by (simp add: utf8Encode_def unitsOf_def)
qed (simp add: utf8Encode_def)

lemma utf8_empty: "utf8Encode t = [] \<longleftrightarrow> t = []"
proof (cases t)
  case (Cons n t')
  then show ?thesis using scalarBytes_bounds(1) [of "if scalar n then n else 0xFFFD"] by (auto simp: utf8Encode_def)
qed (simp add: utf8Encode_def)

text \<open>\<open>encodeInto\<close> writes the code points that fit the room, and stops at the first that does not.\<close>

fun encodeInto :: "js_text \<Rightarrow> nat \<Rightarrow> octets" where
  "encodeInto [] room = []"
| "encodeInto (n # t) room =
     (let bs = utf8Encode [n] in
      if length bs \<le> room then bs @ encodeInto t (room - length bs) else [])"

lemma encodeInto_fits: "length (utf8Encode t) \<le> room \<Longrightarrow> encodeInto t room = utf8Encode t"
  by (induction t room rule: encodeInto.induct) (simp_all add: utf8Encode_def Let_def)

section \<open>White space\<close>

text \<open>The white space that \<open>trimEnd\<close> removes.\<close>

definition jsSpace :: "nat \<Rightarrow> bool" where
  "jsSpace n \<longleftrightarrow> n \<in> {9, 10, 11, 12, 13, 32, 0xA0, 0x1680, 0x2028, 0x2029, 0x202F, 0x205F, 0x3000, 0xFEFF} \<or>
     (0x2000 \<le> n \<and> n \<le> 0x200A)"

definition trimEnd :: "js_text \<Rightarrow> js_text" where
  "trimEnd t = rev (dropWhile jsSpace (rev t))"

definition trim :: "js_text \<Rightarrow> js_text" where
  "trim t = trimEnd (dropWhile jsSpace t)"

end
