(* ===== verification/RenderUpdate.thy ===== *)
theory RenderUpdate
  imports Utf8
begin

text \<open>
  Packed render updates, \<open>packages/ghostty-core/src/render-update.ts\<close> with its policy in
  \<open>idle-reclaim.ts\<close>: a snapshot's rows are packed into flat arrays that belong to one of three slots
  until they are returned. An array of the slots is its capacity; the update holds the contents, which
  nothing but \<open>tryBuild\<close> on a free slot writes. The lemmas show that an update built from a well-formed
  snapshot is valid and holds exactly the cells of its rows, and that no slot is lent twice.
\<close>

unbundle bit_operations_syntax

section \<open>Snapshots\<close>

record color =
  cr :: "8 word"
  cg :: "8 word"
  cb :: "8 word"

record cell =
  ctext :: js_text
  wide :: "8 word"
  cforeground :: color
  cbackground :: color
  bold :: bool
  italic :: bool
  invisible :: bool
  strikethrough :: bool
  overline :: bool
  underline :: "8 word"
  selected :: bool

record grid_row =
  rcells :: "cell list"
  rtext :: js_text
  isWrapContinuation :: bool
  wrapsToNext :: bool

record ghostty_snapshot =
  scols :: nat
  srows :: nat
  sforeground :: color
  sbackground :: color
  scursor :: color
  scursorX :: int
  scursorY :: int
  scursorVisible :: bool
  scursorBlinking :: bool
  scursorStyle :: int
  sdirtyRows :: "nat list"
  srowData :: "grid_row list"

text \<open>An indexed read that may be out of range.\<close>

definition nthOpt :: "'a list \<Rightarrow> nat \<Rightarrow> 'a option" where
  "nthOpt xs i = (if i < length xs then Some (xs ! i) else None)"

section \<open>Packing\<close>

definition widthMask :: "16 word" where "widthMask = 0b11"
definition boldBit :: "16 word" where "boldBit = push_bit 2 1"
definition italicBit :: "16 word" where "italicBit = push_bit 3 1"
definition invisibleBit :: "16 word" where "invisibleBit = push_bit 4 1"
definition strikethroughBit :: "16 word" where "strikethroughBit = push_bit 5 1"
definition overlineBit :: "16 word" where "overlineBit = push_bit 6 1"
definition selectedBit :: "16 word" where "selectedBit = push_bit 7 1"
definition underlineShift :: nat where "underlineShift = 8"
definition underlineMask :: "16 word" where "underlineMask = push_bit 8 0b111"
definition wrapContinuationBit :: "8 word" where "wrapContinuationBit = push_bit 0 1"
definition wrapsToNextBit :: "8 word" where "wrapsToNextBit = push_bit 1 1"

definition packGhosttyColor :: "color \<Rightarrow> 32 word" where
  "packGhosttyColor c = push_bit 16 (ucast (cr c AND 0xff)) OR push_bit 8 (ucast (cg c AND 0xff)) OR ucast (cb c AND 0xff)"

definition unpackGhosttyColor :: "32 word \<Rightarrow> color" where
  "unpackGhosttyColor w = \<lparr>cr = ucast (drop_bit 16 w AND 0xff), cg = ucast (drop_bit 8 w AND 0xff), cb = ucast (w AND 0xff)\<rparr>"

definition packGhosttyCellStyle :: "cell \<Rightarrow> 16 word" where
  "packGhosttyCellStyle c =
     (ucast (wide c) AND widthMask) OR (if bold c then boldBit else 0) OR (if italic c then italicBit else 0)
     OR (if invisible c then invisibleBit else 0) OR (if strikethrough c then strikethroughBit else 0)
     OR (if overline c then overlineBit else 0) OR (if selected c then selectedBit else 0)
     OR push_bit underlineShift (ucast (underline c) AND 0b111)"

definition packRowFlags :: "grid_row option \<Rightarrow> 8 word" where
  "packRowFlags r = (case r of None \<Rightarrow> 0
     | Some x \<Rightarrow> (if isWrapContinuation x then wrapContinuationBit else 0) OR (if wrapsToNext x then wrapsToNextBit else 0))"

section \<open>Updates\<close>

record render_update =
  version :: int
  frameId :: int
  generation :: int
  ucols :: nat
  urows :: nat
  full :: bool
  uforeground :: "32 word"
  ubackground :: "32 word"
  ucursor :: "32 word"
  ucursorX :: int
  ucursorY :: int
  ucursorVisible :: bool
  ucursorBlinking :: bool
  ucursorStyle :: int
  dirtyRows :: "32 word list"
  rowFlags :: "8 word list"
  graphemeOffsets :: "32 word list"
  graphemeLengths :: "32 word list"
  foregrounds :: "32 word list"
  backgrounds :: "32 word list"
  styles :: "16 word list"
  graphemes :: octets

definition GHOSTTY_RENDER_UPDATE_VERSION :: int where
  "GHOSTTY_RENDER_UPDATE_VERSION = 1"

text \<open>What the loop over the cells has written so far.\<close>

record packing =
  pOffset :: nat
  pOffsets :: "32 word list"
  pLengths :: "32 word list"
  pForegrounds :: "32 word list"
  pBackgrounds :: "32 word list"
  pStyles :: "16 word list"
  pBytes :: octets

definition emptyPacking :: packing where
  "emptyPacking = \<lparr>pOffset = 0, pOffsets = [], pLengths = [], pForegrounds = [], pBackgrounds = [], pStyles = [], pBytes = []\<rparr>"

definition cellText :: "cell option \<Rightarrow> js_text" where
  "cellText c = (case c of None \<Rightarrow> [] | Some x \<Rightarrow> ctext x)"

definition packCell :: "nat \<Rightarrow> ghostty_snapshot \<Rightarrow> cell option \<Rightarrow> packing \<Rightarrow> packing" where
  "packCell room snap c p =
     (let t = cellText c; bs = (if unitsOf t = 0 then [] else encodeInto t (room - pOffset p)) in
      p\<lparr>pOffset := pOffset p + length bs,
        pOffsets := pOffsets p @ [of_nat (pOffset p)],
        pLengths := pLengths p @ [of_nat (length bs)],
        pForegrounds := pForegrounds p @ [packGhosttyColor (case c of None \<Rightarrow> sforeground snap | Some x \<Rightarrow> cforeground x)],
        pBackgrounds := pBackgrounds p @ [packGhosttyColor (case c of None \<Rightarrow> sbackground snap | Some x \<Rightarrow> cbackground x)],
        pStyles := pStyles p @ [case c of None \<Rightarrow> 0 | Some x \<Rightarrow> packGhosttyCellStyle x],
        pBytes := pBytes p @ bs\<rparr>)"

definition rowCells :: "ghostty_snapshot \<Rightarrow> nat \<Rightarrow> cell option list" where
  "rowCells snap r = map (\<lambda>c. case nthOpt (srowData snap) r of None \<Rightarrow> None | Some x \<Rightarrow> nthOpt (rcells x) c) [0..<scols snap]"

definition packRows :: "nat \<Rightarrow> ghostty_snapshot \<Rightarrow> nat list \<Rightarrow> packing" where
  "packRows room snap rs = fold (\<lambda>r p. fold (packCell room snap) (rowCells snap r) p) rs emptyPacking"

definition includedRows :: "ghostty_snapshot \<Rightarrow> bool \<Rightarrow> nat list" where
  "includedRows snap f = (if f then [0..<srows snap] else sort (sdirtyRows snap))"

definition graphemeCapacity :: "ghostty_snapshot \<Rightarrow> nat list \<Rightarrow> nat" where
  "graphemeCapacity snap rs = sum_list (map (\<lambda>r. sum_list (map (\<lambda>c. unitsOf (cellText c) * 3) (rowCells snap r))) rs)"

definition packUpdate :: "nat \<Rightarrow> ghostty_snapshot \<Rightarrow> int \<Rightarrow> int \<Rightarrow> bool \<Rightarrow> render_update" where
  "packUpdate room snap frame gen f =
     (let rs = includedRows snap f; p = packRows room snap rs in
      \<lparr>version = GHOSTTY_RENDER_UPDATE_VERSION, frameId = frame, generation = gen, ucols = scols snap, urows = srows snap,
       full = f, uforeground = packGhosttyColor (sforeground snap), ubackground = packGhosttyColor (sbackground snap),
       ucursor = packGhosttyColor (scursor snap), ucursorX = scursorX snap, ucursorY = scursorY snap,
       ucursorVisible = scursorVisible snap, ucursorBlinking = scursorBlinking snap, ucursorStyle = scursorStyle snap,
       dirtyRows = map of_nat rs, rowFlags = map (\<lambda>r. packRowFlags (nthOpt (srowData snap) r)) rs,
       graphemeOffsets = pOffsets p, graphemeLengths = pLengths p, foregrounds = pForegrounds p,
       backgrounds = pBackgrounds p, styles = pStyles p, graphemes = pBytes p\<rparr>)"

section \<open>Validation\<close>

definition isColor :: "32 word \<Rightarrow> bool" where
  "isColor w \<longleftrightarrow> unat w \<le> 0xffffff"

fun ascending :: "int \<Rightarrow> nat \<Rightarrow> 32 word list \<Rightarrow> bool" where
  "ascending prev n [] = True"
| "ascending prev n (r # rs) = (if int (unat r) \<le> prev \<or> unat r \<ge> n then False else ascending (int (unat r)) n rs)"

text \<open>The tests of types and of the presence of fields are the record type; numbers are integers.\<close>

definition validateGhosttyRenderUpdate :: "render_update \<Rightarrow> bool" where
  "validateGhosttyRenderUpdate u \<longleftrightarrow>
     (let rowCount = length (dirtyRows u); cellCount = rowCount * ucols u in
      version u = GHOSTTY_RENDER_UPDATE_VERSION \<and> safe_int (frameId u) \<and> 1 \<le> frameId u \<and>
      safe_int (generation u) \<and> 1 \<le> generation u \<and> 1 \<le> ucols u \<and> ucols u \<le> 65535 \<and>
      1 \<le> urows u \<and> urows u \<le> 65535 \<and> isColor (uforeground u) \<and> isColor (ubackground u) \<and> isColor (ucursor u) \<and>
      safe_int (ucursorX u) \<and> safe_int (ucursorY u) \<and> safe_int (ucursorStyle u) \<and>
      length (rowFlags u) = rowCount \<and> length (graphemeOffsets u) = cellCount \<and>
      length (graphemeLengths u) = cellCount \<and> length (foregrounds u) = cellCount \<and>
      length (backgrounds u) = cellCount \<and> length (styles u) = cellCount \<and>
      \<not> (full u \<and> rowCount \<noteq> urows u) \<and> ascending (-1) (urows u) (dirtyRows u) \<and>
      list_all (\<lambda>i. unat (graphemeOffsets u ! i) + unat (graphemeLengths u ! i) \<le> length (graphemes u) \<and>
        isColor (foregrounds u ! i) \<and> isColor (backgrounds u ! i)) [0..<cellCount])"

section \<open>Slots\<close>

text \<open>The arrays of a slot by their lengths, and what the last update needed.\<close>

record builder_slot =
  slotInFlight :: bool
  leaseToken :: nat
  capDirtyRows :: nat
  capRowFlags :: nat
  capOffsets :: nat
  capLengths :: nat
  capForegrounds :: nat
  capBackgrounds :: nat
  capStyles :: nat
  capGraphemes :: nat
  targetRows :: nat
  targetCells :: nat
  targetGraphemes :: nat

record builder_diagnostics =
  slotsCreated :: nat
  backingBuffersAllocated :: nat
  backingBytesAllocated :: int
  leasesBuilt :: nat
  leasesReclaimed :: nat
  reclaimRejected :: nat
  noFreeSlot :: nat
  maxInFlight :: nat
  idleTrims :: nat
  idleBytesReclaimed :: int
  idleRegrows :: nat

text \<open>An update is identified by its slot and lease token; \<open>owners\<close> is the weak map of those not released.\<close>

record update_builder =
  slots :: "builder_slot list"
  owners :: "(nat \<times> nat) list"
  diag :: builder_diagnostics
  lastCapacityChangeAt :: rat
  trimmedSinceGrowth :: bool

definition nextCapacity :: "nat \<Rightarrow> nat" where
  "nextCapacity required = growCapacity 1 required"

text \<open>\<open>ensureU8\<close>, \<open>ensureU16\<close> and \<open>ensureU32\<close>: a detached array has length 0.\<close>

definition ensureCap :: "nat \<Rightarrow> nat \<Rightarrow> nat" where
  "ensureCap cap required = (if cap > 0 \<and> cap \<ge> required then cap else nextCapacity required)"

definition reallocates :: "nat \<Rightarrow> nat \<Rightarrow> bool" where
  "reallocates cap required \<longleftrightarrow> \<not> (cap > 0 \<and> cap \<ge> required)"

definition createSlot :: builder_slot where
  "createSlot = \<lparr>slotInFlight = False, leaseToken = 0, capDirtyRows = 1, capRowFlags = 1, capOffsets = 1, capLengths = 1,
     capForegrounds = 1, capBackgrounds = 1, capStyles = 1, capGraphemes = 1, targetRows = 1, targetCells = 1,
     targetGraphemes = 1\<rparr>"

definition slotBytes :: "builder_slot \<Rightarrow> nat" where
  "slotBytes s = 4 * capDirtyRows s + capRowFlags s + 4 * capOffsets s + 4 * capLengths s + 4 * capForegrounds s
     + 4 * capBackgrounds s + 2 * capStyles s + capGraphemes s"

definition usedSlotBytes :: "builder_slot \<Rightarrow> nat" where
  "usedSlotBytes s = targetRows s * 5 + targetCells s * 18 + targetGraphemes s"

definition targetSlotBytes :: "builder_slot \<Rightarrow> nat" where
  "targetSlotBytes s = nextCapacity (targetRows s * 2) * 5 + nextCapacity (targetCells s * 2) * 18
     + nextCapacity (targetGraphemes s * 2)"

definition trimSlot :: "builder_slot \<Rightarrow> builder_slot" where
  "trimSlot s =
     (let rs = nextCapacity (targetRows s * 2); cs = nextCapacity (targetCells s * 2);
          gs = nextCapacity (targetGraphemes s * 2)
      in s\<lparr>capDirtyRows := rs, capRowFlags := rs, capOffsets := cs, capLengths := cs, capForegrounds := cs,
           capBackgrounds := cs, capStyles := cs, capGraphemes := gs\<rparr>)"

definition newBuilder :: "int \<Rightarrow> update_builder" where
  "newBuilder slotCount =
     (let n = nat (max 1 (min 3 slotCount)) in
      \<lparr>slots = replicate n createSlot, owners = [],
       diag = \<lparr>slotsCreated = n, backingBuffersAllocated = n * 8,
         backingBytesAllocated = int (sum_list (map slotBytes (replicate n createSlot))), leasesBuilt = 0,
         leasesReclaimed = 0, reclaimRejected = 0, noFreeSlot = 0, maxInFlight = 0, idleTrims = 0,
         idleBytesReclaimed = 0, idleRegrows = 0\<rparr>,
       lastCapacityChangeAt = 0, trimmedSinceGrowth = False\<rparr>)"

definition hasFreeSlot :: "update_builder \<Rightarrow> bool" where
  "hasFreeSlot b = list_ex (\<lambda>s. \<not> slotInFlight s) (slots b)"

definition inFlightCount :: "builder_slot list \<Rightarrow> nat" where
  "inFlightCount ss = length (filter slotInFlight ss)"

definition backingBytesUsed :: "update_builder \<Rightarrow> nat" where
  "backingBytesUsed b = sum_list (map usedSlotBytes (slots b))"

text \<open>The slot after the arrays have been grown for an update, and how many of them were replaced.\<close>

definition growSlot :: "nat \<Rightarrow> nat \<Rightarrow> nat \<Rightarrow> builder_slot \<Rightarrow> builder_slot" where
  "growSlot rs cs gs s =
     s\<lparr>slotInFlight := True, leaseToken := leaseToken s + 1, capDirtyRows := ensureCap (capDirtyRows s) rs,
       capRowFlags := ensureCap (capRowFlags s) rs, capOffsets := ensureCap (capOffsets s) cs,
       capLengths := ensureCap (capLengths s) cs, capForegrounds := ensureCap (capForegrounds s) cs,
       capBackgrounds := ensureCap (capBackgrounds s) cs, capStyles := ensureCap (capStyles s) cs,
       capGraphemes := ensureCap (capGraphemes s) gs\<rparr>"

definition replacedBuffers :: "nat \<Rightarrow> nat \<Rightarrow> nat \<Rightarrow> builder_slot \<Rightarrow> nat" where
  "replacedBuffers rs cs gs s = length (filter id
     [reallocates (capDirtyRows s) rs, reallocates (capRowFlags s) rs, reallocates (capOffsets s) cs,
      reallocates (capLengths s) cs, reallocates (capForegrounds s) cs, reallocates (capBackgrounds s) cs,
      reallocates (capStyles s) cs, reallocates (capGraphemes s) gs])"

fun findFree :: "nat \<Rightarrow> builder_slot list \<Rightarrow> nat option" where
  "findFree i [] = None"
| "findFree i (s # ss) = (if slotInFlight s then findFree (i + 1) ss else Some i)"

record update_lease =
  slotId :: nat
  lease :: nat
  leasedUpdate :: render_update

definition tryBuild :: "rat \<Rightarrow> ghostty_snapshot \<Rightarrow> int \<Rightarrow> int \<Rightarrow> bool \<Rightarrow> update_builder \<Rightarrow> update_lease option \<times> update_builder" where
  "tryBuild now snap frame gen f b =
     (case findFree 0 (slots b) of
        None \<Rightarrow> (None, b\<lparr>diag := (diag b)\<lparr>noFreeSlot := noFreeSlot (diag b) + 1\<rparr>\<rparr>)
      | Some i \<Rightarrow>
          (let rs = includedRows snap f; cellCount = length rs * scols snap; gc = graphemeCapacity snap rs;
               s = slots b ! i; s1 = growSlot (length rs) cellCount gc s;
               growth = int (slotBytes s1) - int (slotBytes s);
               d = (diag b)\<lparr>backingBuffersAllocated := backingBuffersAllocated (diag b) + replacedBuffers (length rs) cellCount gc s,
                     backingBytesAllocated := backingBytesAllocated (diag b) + growth,
                     idleRegrows := idleRegrows (diag b) + (if growth > 0 \<and> trimmedSinceGrowth b then 1 else 0)\<rparr>;
               u = packUpdate (capGraphemes s1) snap frame gen f;
               s2 = s1\<lparr>targetRows := max 1 (length rs), targetCells := max 1 cellCount,
                      targetGraphemes := max 1 (length (graphemes u))\<rparr>;
               ss = (slots b)[i := s2]
           in (Some \<lparr>slotId = i, lease = leaseToken s2, leasedUpdate = u\<rparr>,
               b\<lparr>slots := ss, owners := owners b @ [(i, leaseToken s2)],
                 diag := d\<lparr>leasesBuilt := leasesBuilt d + 1, maxInFlight := max (maxInFlight d) (inFlightCount ss)\<rparr>,
                 lastCapacityChangeAt := (if growth > 0 then now else lastCapacityChangeAt b),
                 trimmedSinceGrowth := trimmedSinceGrowth b \<and> \<not> growth > 0\<rparr>)))"

text \<open>\<open>build\<close> throws when the ring is full.\<close>

definition build :: "rat \<Rightarrow> ghostty_snapshot \<Rightarrow> int \<Rightarrow> int \<Rightarrow> bool \<Rightarrow> update_builder \<Rightarrow> render_update option \<times> update_builder" where
  "build now snap frame gen f b = apfst (map_option leasedUpdate) (tryBuild now snap frame gen f b)"

record reclaim_input =
  rnow :: rat
  allocatedBytes :: nat
  targetBytes :: nat
  rinFlight :: nat
  queued :: nat
  lastActivityAt :: rat
  lastResizeAt :: rat

record reclaim_policy =
  idleMs :: rat
  cooldownMs :: rat
  minimumReclaimBytes :: nat
  shrinkRatio :: nat

definition IDLE_RECLAIM_POLICY :: reclaim_policy where
  "IDLE_RECLAIM_POLICY = \<lparr>idleMs = 30000, cooldownMs = 60000, minimumReclaimBytes = 1024 * 1024, shrinkRatio = 4\<rparr>"

definition shouldReclaimIdleCapacity :: "reclaim_policy \<Rightarrow> reclaim_input \<Rightarrow> bool" where
  "shouldReclaimIdleCapacity policy i =
     (if rinFlight i > 0 \<or> queued i > 0 then False
      else if allocatedBytes i \<le> targetBytes i then False
      else if rnow i - lastActivityAt i < idleMs policy then False
      else if rnow i - lastResizeAt i < cooldownMs policy then False
      else if allocatedBytes i < targetBytes i * shrinkRatio policy then False
      else allocatedBytes i - targetBytes i \<ge> minimumReclaimBytes policy)"

definition trimIdle :: "rat \<Rightarrow> rat \<Rightarrow> update_builder \<Rightarrow> bool \<times> update_builder" where
  "trimIdle activity now b =
     (let allocated = sum_list (map slotBytes (slots b)) in
      if \<not> shouldReclaimIdleCapacity IDLE_RECLAIM_POLICY
           \<lparr>rnow = now, allocatedBytes = allocated, targetBytes = sum_list (map targetSlotBytes (slots b)),
            rinFlight = inFlightCount (slots b), queued = 0, lastActivityAt = activity,
            lastResizeAt = lastCapacityChangeAt b\<rparr> then (False, b)
      else (let ss = map trimSlot (slots b); saved = int allocated - int (sum_list (map slotBytes ss))
            in (True, b\<lparr>slots := ss,
                 diag := (diag b)\<lparr>backingBytesAllocated := backingBytesAllocated (diag b) - saved,
                   backingBuffersAllocated := backingBuffersAllocated (diag b) + length (slots b) * 8,
                   idleTrims := idleTrims (diag b) + 1, idleBytesReclaimed := idleBytesReclaimed (diag b) + saved\<rparr>,
                 lastCapacityChangeAt := now, trimmedSinceGrowth := True\<rparr>)))"

text \<open>Returned buffers by their byte lengths, in the order of the fields; detached ones have length 0.\<close>

record returned_buffers =
  bDirtyRows :: nat
  bRowFlags :: nat
  bOffsets :: nat
  bLengths :: nat
  bForegrounds :: nat
  bBackgrounds :: nat
  bStyles :: nat
  bGraphemes :: nat

definition validReturnedBuffers :: "returned_buffers \<Rightarrow> bool" where
  "validReturnedBuffers r \<longleftrightarrow>
     0 < bDirtyRows r \<and> 0 < bRowFlags r \<and> 0 < bOffsets r \<and> 0 < bLengths r \<and> 0 < bForegrounds r \<and>
     0 < bBackgrounds r \<and> 0 < bStyles r \<and> 0 < bGraphemes r \<and>
     bDirtyRows r mod 4 = 0 \<and> bOffsets r mod 4 = 0 \<and> bLengths r mod 4 = 0 \<and> bForegrounds r mod 4 = 0 \<and>
     bBackgrounds r mod 4 = 0 \<and> bStyles r mod 2 = 0"

definition reclaim :: "nat \<Rightarrow> nat \<Rightarrow> returned_buffers \<Rightarrow> update_builder \<Rightarrow> bool \<times> update_builder" where
  "reclaim i token r b =
     (if \<not> i < length (slots b) \<or> \<not> slotInFlight (slots b ! i) \<or> leaseToken (slots b ! i) \<noteq> token
          \<or> \<not> validReturnedBuffers r
      then (False, b\<lparr>diag := (diag b)\<lparr>reclaimRejected := reclaimRejected (diag b) + 1\<rparr>\<rparr>)
      else (True, b\<lparr>slots := (slots b)[i := (slots b ! i)\<lparr>slotInFlight := False, capDirtyRows := bDirtyRows r div 4,
             capRowFlags := bRowFlags r, capOffsets := bOffsets r div 4, capLengths := bLengths r div 4,
             capForegrounds := bForegrounds r div 4, capBackgrounds := bBackgrounds r div 4,
             capStyles := bStyles r div 2, capGraphemes := bGraphemes r\<rparr>],
           diag := (diag b)\<lparr>leasesReclaimed := leasesReclaimed (diag b) + 1\<rparr>\<rparr>))"

definition release :: "nat \<times> nat \<Rightarrow> returned_buffers \<Rightarrow> update_builder \<Rightarrow> update_builder" where
  "release owner r b =
     (if owner \<notin> set (owners b) then b
      else snd (reclaim (fst owner) (snd owner) r (b\<lparr>owners := filter (\<lambda>x. x \<noteq> owner) (owners b)\<rparr>)))"

section \<open>Packing is exact\<close>

lemma nthOpt_Some: "nthOpt xs i = Some x \<longleftrightarrow> i < length xs \<and> x = xs ! i"
  by (auto simp: nthOpt_def)

lemma bit_masks:
  "bit (0xff :: int) n \<longleftrightarrow> n < 8" "bit (7 :: int) n \<longleftrightarrow> n < 3" "bit (3 :: int) n \<longleftrightarrow> n < 2"
proof -
  have m: "(0xff :: int) = mask 8" "(7 :: int) = mask 3" "(3 :: int) = mask 2" by (simp_all add: mask_eq_exp_minus_1)
  show "bit (0xff :: int) n \<longleftrightarrow> n < 8" "bit (7 :: int) n \<longleftrightarrow> n < 3" "bit (3 :: int) n \<longleftrightarrow> n < 2"
    unfolding m bit_mask_iff by simp_all
qed

lemma bit_packColor:
  "bit (packGhosttyColor c) n \<longleftrightarrow>
     (if n < 8 then bit (cb c) n else if n < 16 then bit (cg c) (n - 8) else n < 24 \<and> bit (cr c) (n - 16))"
proof -
  have range: "bit (w :: 8 word) k \<Longrightarrow> k < 8" for w k using bit_imp_le_length [of w k] by simp
  show ?thesis
    by (auto simp: packGhosttyColor_def bit_simps bit_masks dest: range)
qed

lemma unpack_pack: "unpackGhosttyColor (packGhosttyColor c) = c"
proof -
  have "ucast (drop_bit 16 (packGhosttyColor c) AND 0xff) = cr c"
    by (rule bit_eqI) (auto simp: bit_simps bit_masks bit_packColor)
  moreover have "ucast (drop_bit 8 (packGhosttyColor c) AND 0xff) = cg c"
    by (rule bit_eqI) (auto simp: bit_simps bit_masks bit_packColor)
  moreover have "ucast (packGhosttyColor c AND 0xff) = cb c"
    by (rule bit_eqI) (auto simp: bit_simps bit_masks bit_packColor)
  ultimately show ?thesis by (simp add: unpackGhosttyColor_def)
qed

lemma isColor_pack: "isColor (packGhosttyColor c)"
proof -
  have "take_bit 24 (packGhosttyColor c) = packGhosttyColor c"
    by (rule bit_eqI) (auto simp: bit_simps bit_packColor)
  then have "unat (packGhosttyColor c) = take_bit 24 (unat (packGhosttyColor c))"
    by (metis unsigned_take_bit_eq)
  moreover have "take_bit 24 (unat (packGhosttyColor c)) < 2 ^ 24" by (rule take_bit_nat_less_exp)
  ultimately show ?thesis by (simp add: isColor_def)
qed

definition cellBytes :: "cell option \<Rightarrow> octets" where
  "cellBytes c = utf8Encode (cellText c)"

definition flatCells :: "ghostty_snapshot \<Rightarrow> nat list \<Rightarrow> cell option list" where
  "flatCells snap rs = concat (map (rowCells snap) rs)"

fun offsetsFrom :: "nat \<Rightarrow> 'a list list \<Rightarrow> nat list" where
  "offsetsFrom n [] = []"
| "offsetsFrom n (x # xs) = n # offsetsFrom (n + length x) xs"

lemma length_offsetsFrom [simp]: "length (offsetsFrom n xs) = length xs"
  by (induction xs arbitrary: n) auto

lemma offsetsFrom_nth: "i < length xs \<Longrightarrow> offsetsFrom n xs ! i = n + length (concat (take i xs))"
proof (induction xs arbitrary: n i)
  case (Cons x xs)
  then show ?case by (cases i) auto
qed simp

lemma slice_concat: "i < length xs \<Longrightarrow> take (length (xs ! i)) (drop (length (concat (take i xs))) (concat xs)) = xs ! i"
proof (induction xs arbitrary: i)
  case (Cons x xs)
  then show ?case by (cases i) auto
qed simp

lemma slice_bound: "i < length xs \<Longrightarrow> length (concat (take i xs)) + length (xs ! i) \<le> length (concat xs)"
proof (induction xs arbitrary: i)
  case (Cons x xs)
  then show ?case by (cases i) auto
qed simp

lemma unitsOf_0: "unitsOf t = 0 \<longleftrightarrow> t = []"
  by (cases t) (auto simp: unitsOf_def)

lemma cellBytes_length: "length (cellBytes c) \<le> unitsOf (cellText c) * 3"
  using utf8_length [of "cellText c"] by (simp add: cellBytes_def mult.commute)

definition packedCells :: "ghostty_snapshot \<Rightarrow> nat \<Rightarrow> cell option list \<Rightarrow> packing" where
  "packedCells snap n cs =
     \<lparr>pOffset = n + length (concat (map cellBytes cs)), pOffsets = map of_nat (offsetsFrom n (map cellBytes cs)),
      pLengths = map (\<lambda>c. of_nat (length (cellBytes c))) cs,
      pForegrounds = map (\<lambda>c. packGhosttyColor (case c of None \<Rightarrow> sforeground snap | Some x \<Rightarrow> cforeground x)) cs,
      pBackgrounds = map (\<lambda>c. packGhosttyColor (case c of None \<Rightarrow> sbackground snap | Some x \<Rightarrow> cbackground x)) cs,
      pStyles = map (\<lambda>c. case c of None \<Rightarrow> 0 | Some x \<Rightarrow> packGhosttyCellStyle x) cs,
      pBytes = concat (map cellBytes cs)\<rparr>"

lemma fold_packCell:
  assumes "pOffset p + length (concat (map cellBytes cs)) \<le> room"
  shows "fold (packCell room snap) cs p =
    (let q = packedCells snap (pOffset p) cs in
     \<lparr>pOffset = pOffset q, pOffsets = pOffsets p @ pOffsets q, pLengths = pLengths p @ pLengths q,
      pForegrounds = pForegrounds p @ pForegrounds q, pBackgrounds = pBackgrounds p @ pBackgrounds q,
      pStyles = pStyles p @ pStyles q, pBytes = pBytes p @ pBytes q\<rparr>)"
  using assms
proof (induction cs arbitrary: p)
  case Nil
  then show ?case by (cases p) (simp add: packedCells_def)
next
  case (Cons c cs)
  have "encodeInto (cellText c) (room - pOffset p) = cellBytes c"
    unfolding cellBytes_def using Cons.prems by (intro encodeInto_fits) (simp add: cellBytes_def)
  moreover have "unitsOf (cellText c) = 0 \<Longrightarrow> cellBytes c = []"
    by (simp add: cellBytes_def unitsOf_0 utf8_empty)
  ultimately have step: "packCell room snap c p = p\<lparr>pOffset := pOffset p + length (cellBytes c),
      pOffsets := pOffsets p @ [of_nat (pOffset p)], pLengths := pLengths p @ [of_nat (length (cellBytes c))],
      pForegrounds := pForegrounds p @ [packGhosttyColor (case c of None \<Rightarrow> sforeground snap | Some x \<Rightarrow> cforeground x)],
      pBackgrounds := pBackgrounds p @ [packGhosttyColor (case c of None \<Rightarrow> sbackground snap | Some x \<Rightarrow> cbackground x)],
      pStyles := pStyles p @ [case c of None \<Rightarrow> 0 | Some x \<Rightarrow> packGhosttyCellStyle x],
      pBytes := pBytes p @ cellBytes c\<rparr>"
    by (simp add: packCell_def Let_def)
  have "pOffset (packCell room snap c p) + length (concat (map cellBytes cs)) \<le> room"
    using Cons.prems by (simp add: step)
  from Cons.IH [OF this] show ?case
    by (simp add: step packedCells_def Let_def add.assoc)
qed

lemma graphemeCapacity_bound: "length (concat (map cellBytes (flatCells snap rs))) \<le> graphemeCapacity snap rs"
proof -
  have row: "length (concat (map cellBytes cs)) \<le> sum_list (map (\<lambda>c. unitsOf (cellText c) * 3) cs)" for cs
  proof (induction cs)
    case (Cons c cs)
    with cellBytes_length [of c] show ?case by simp
  qed simp
  show ?thesis
  proof (induction rs)
    case (Cons r rs)
    with row [of "rowCells snap r"] show ?case by (simp add: flatCells_def graphemeCapacity_def)
  qed (simp add: flatCells_def graphemeCapacity_def)
qed

lemma packRows_flat: "packRows room snap rs = fold (packCell room snap) (flatCells snap rs) emptyPacking"
proof -
  have "fold (\<lambda>r p. fold (packCell room snap) (rowCells snap r) p) rs p = fold (packCell room snap) (flatCells snap rs) p" for p
    by (induction rs arbitrary: p) (simp_all add: flatCells_def)
  then show ?thesis by (simp add: packRows_def)
qed

lemma packRows_eq:
  "graphemeCapacity snap rs \<le> room \<Longrightarrow> packRows room snap rs = packedCells snap 0 (flatCells snap rs)"
  unfolding packRows_flat
  by (subst fold_packCell)
    (use graphemeCapacity_bound [of snap rs] in \<open>simp_all add: emptyPacking_def packedCells_def Let_def\<close>)

lemma length_rowCells [simp]: "length (rowCells snap r) = scols snap"
  by (simp add: rowCells_def)

lemma length_flatCells: "length (flatCells snap rs) = length rs * scols snap"
  by (induction rs) (simp_all add: flatCells_def)

lemma flatCells_nth:
  assumes "i < length rs" and "c < scols snap"
  shows "flatCells snap rs ! (i * scols snap + c) = rowCells snap (rs ! i) ! c"
  using assms
proof (induction rs arbitrary: i)
  case (Cons r rs)
  then show ?case by (cases i) (simp_all add: flatCells_def nth_append)
qed simp

lemma ensureCap_ge: "required \<le> ensureCap cap required"
  by (simp add: ensureCap_def nextCapacity_def growCapacity_ge)

section \<open>A built update is valid\<close>

text \<open>What the wasm core produces: a grid within 16 bits, positions in range, every dirty row of the grid.\<close>

definition wfSnapshot :: "ghostty_snapshot \<Rightarrow> bool" where
  "wfSnapshot s \<longleftrightarrow> 1 \<le> scols s \<and> scols s \<le> 65535 \<and> 1 \<le> srows s \<and> srows s \<le> 65535 \<and>
     safe_int (scursorX s) \<and> safe_int (scursorY s) \<and> safe_int (scursorStyle s) \<and>
     distinct (sdirtyRows s) \<and> (\<forall>r\<in>set (sdirtyRows s). r < srows s)"

lemma includedRows_ok:
  assumes "wfSnapshot s"
  shows "sorted_wrt (<) (includedRows s f)" and "\<forall>r\<in>set (includedRows s f). r < srows s"
    and "f \<Longrightarrow> length (includedRows s f) = srows s"
  using assms by (auto simp: includedRows_def wfSnapshot_def strict_sorted_iff)

lemma unat_row: "r < 65536 \<Longrightarrow> unat (of_nat r :: 32 word) = r"
  by (simp add: unat_of_nat)

lemma ascending_rows:
  "sorted_wrt (<) rs \<Longrightarrow> \<forall>r\<in>set rs. r < n \<and> prev < int r \<Longrightarrow> n \<le> 65535 \<Longrightarrow> ascending prev n (map of_nat rs)"
proof (induction rs arbitrary: prev)
  case (Cons r rs)
  then show ?case by (simp add: unat_row)
qed simp

lemma packUpdate_fields:
  assumes "graphemeCapacity snap (includedRows snap f) \<le> room"
  shows "dirtyRows (packUpdate room snap frame gen f) = map of_nat (includedRows snap f)"
    and "graphemeOffsets (packUpdate room snap frame gen f) =
      map of_nat (offsetsFrom 0 (map cellBytes (flatCells snap (includedRows snap f))))"
    and "graphemeLengths (packUpdate room snap frame gen f) =
      map (\<lambda>c. of_nat (length (cellBytes c))) (flatCells snap (includedRows snap f))"
    and "graphemes (packUpdate room snap frame gen f) = concat (map cellBytes (flatCells snap (includedRows snap f)))"
    and "foregrounds (packUpdate room snap frame gen f) =
      map (\<lambda>c. packGhosttyColor (case c of None \<Rightarrow> sforeground snap | Some x \<Rightarrow> cforeground x)) (flatCells snap (includedRows snap f))"
    and "backgrounds (packUpdate room snap frame gen f) =
      map (\<lambda>c. packGhosttyColor (case c of None \<Rightarrow> sbackground snap | Some x \<Rightarrow> cbackground x)) (flatCells snap (includedRows snap f))"
    and "styles (packUpdate room snap frame gen f) =
      map (\<lambda>c. case c of None \<Rightarrow> 0 | Some x \<Rightarrow> packGhosttyCellStyle x) (flatCells snap (includedRows snap f))"
    and "rowFlags (packUpdate room snap frame gen f) = map (\<lambda>r. packRowFlags (nthOpt (srowData snap) r)) (includedRows snap f)"
    and "ucols (packUpdate room snap frame gen f) = scols snap" "urows (packUpdate room snap frame gen f) = srows snap"
    and "full (packUpdate room snap frame gen f) = f" "frameId (packUpdate room snap frame gen f) = frame"
    and "generation (packUpdate room snap frame gen f) = gen"
  by (simp_all add: packUpdate_def Let_def packRows_eq [OF assms] packedCells_def)

lemma packed_slice:
  assumes cap: "graphemeCapacity snap rs < 2 ^ 32" and i: "i < length (flatCells snap rs)"
  defines "xs \<equiv> map cellBytes (flatCells snap rs)"
  shows "unat (map of_nat (offsetsFrom 0 xs) ! i :: 32 word) = length (concat (take i xs))"
    and "unat (map (\<lambda>c. of_nat (length (cellBytes c))) (flatCells snap rs) ! i :: 32 word) = length (xs ! i)"
    and "length (concat (take i xs)) + length (xs ! i) \<le> length (concat xs)"
proof -
  have len: "i < length xs" using i by (simp add: xs_def)
  have b: "length (concat (take i xs)) + length (xs ! i) \<le> length (concat xs)" by (rule slice_bound [OF len])
  have t: "length (concat xs) < 2 ^ 32"
    using graphemeCapacity_bound [of snap rs] cap unfolding xs_def by (rule le_less_trans)
  show "length (concat (take i xs)) + length (xs ! i) \<le> length (concat xs)" by (rule b)
  show "unat (map of_nat (offsetsFrom 0 xs) ! i :: 32 word) = length (concat (take i xs))"
    using b t len by (simp add: offsetsFrom_nth unat_of_nat)
  show "unat (map (\<lambda>c. of_nat (length (cellBytes c))) (flatCells snap rs) ! i :: 32 word) = length (xs ! i)"
    using b t i by (simp add: xs_def unat_of_nat)
qed

lemma packUpdate_valid:
  assumes w: "wfSnapshot snap" and f: "1 \<le> frame" "safe_int frame" and g: "1 \<le> gen" "safe_int gen"
    and cap: "graphemeCapacity snap (includedRows snap fl) < 2 ^ 32" "graphemeCapacity snap (includedRows snap fl) \<le> room"
  shows "validateGhosttyRenderUpdate (packUpdate room snap frame gen fl)"
proof -
  let ?rs = "includedRows snap fl" and ?u = "packUpdate room snap frame gen fl"
  note fields = packUpdate_fields [OF cap(2), of frame gen]
  have asc: "ascending (-1) (srows snap) (map of_nat ?rs)"
    using includedRows_ok(1,2) [OF w, of fl] w by (intro ascending_rows) (auto simp: wfSnapshot_def)
  have cells: "list_all (\<lambda>i. unat (graphemeOffsets ?u ! i) + unat (graphemeLengths ?u ! i) \<le> length (graphemes ?u) \<and>
      isColor (foregrounds ?u ! i) \<and> isColor (backgrounds ?u ! i)) [0..<length ?rs * scols snap]"
  proof (simp only: list_all_iff set_upt, rule ballI)
    fix i assume "i \<in> {0..<length ?rs * scols snap}"
    then have i: "i < length (flatCells snap ?rs)" by (simp add: length_flatCells)
    show "unat (graphemeOffsets ?u ! i) + unat (graphemeLengths ?u ! i) \<le> length (graphemes ?u) \<and>
        isColor (foregrounds ?u ! i) \<and> isColor (backgrounds ?u ! i)"
      unfolding fields packed_slice(1,2) [OF cap(1) i]
      using packed_slice(3) [OF cap(1) i] i by (simp add: isColor_pack)
  qed
  have other: "version ?u = GHOSTTY_RENDER_UPDATE_VERSION" "isColor (uforeground ?u)" "isColor (ubackground ?u)"
    "isColor (ucursor ?u)" "ucursorX ?u = scursorX snap" "ucursorY ?u = scursorY snap" "ucursorStyle ?u = scursorStyle snap"
    by (simp_all add: packUpdate_def Let_def isColor_pack)
  have lens: "length (dirtyRows ?u) = length ?rs" "length (rowFlags ?u) = length ?rs"
    "length (graphemeOffsets ?u) = length ?rs * scols snap" "length (graphemeLengths ?u) = length ?rs * scols snap"
    "length (foregrounds ?u) = length ?rs * scols snap" "length (backgrounds ?u) = length ?rs * scols snap"
    "length (styles ?u) = length ?rs * scols snap"
    by (simp_all add: fields length_flatCells)
  show ?thesis
    unfolding validateGhosttyRenderUpdate_def Let_def lens fields(9-13) other
    using w f g cells asc fields(1) other includedRows_ok(3) [OF w, of fl]
    by (simp add: wfSnapshot_def)
qed

section \<open>Leases\<close>

datatype builder_op =
    TryBuild rat ghostty_snapshot int int bool
  | TrimIdle rat rat
  | Reclaim nat nat returned_buffers
  | Release "nat \<times> nat" returned_buffers

text \<open>A run with the leases handed out and not taken back.\<close>

record builder_run =
  builder :: update_builder
  outstanding :: "(nat \<times> nat) list"

fun builder_step :: "builder_op \<Rightarrow> builder_run \<Rightarrow> builder_run" where
  "builder_step (TryBuild now snap frame gen f) r =
     (let (l, b) = tryBuild now snap frame gen f (builder r)
      in r\<lparr>builder := b, outstanding := outstanding r @ (case l of None \<Rightarrow> [] | Some x \<Rightarrow> [(slotId x, lease x)])\<rparr>)"
| "builder_step (TrimIdle activity now) r = r\<lparr>builder := snd (trimIdle activity now (builder r))\<rparr>"
| "builder_step (Reclaim i token bufs) r =
     (let (ok, b) = reclaim i token bufs (builder r)
      in r\<lparr>builder := b, outstanding := (if ok then filter (\<lambda>x. x \<noteq> (i, token)) (outstanding r) else outstanding r)\<rparr>)"
| "builder_step (Release owner bufs) r =
     (let b = builder r; b0 = b\<lparr>owners := filter (\<lambda>x. x \<noteq> owner) (owners b)\<rparr>
      in r\<lparr>builder := release owner bufs b,
           outstanding := (if owner \<in> set (owners b) \<and> fst (reclaim (fst owner) (snd owner) bufs b0)
             then filter (\<lambda>x. x \<noteq> owner) (outstanding r) else outstanding r)\<rparr>)"

text \<open>The lent slots with their tokens.\<close>

definition lent :: "builder_slot list \<Rightarrow> (nat \<times> nat) set" where
  "lent ss = {(i, leaseToken (ss ! i)) | i. i < length ss \<and> slotInFlight (ss ! i)}"

definition wfRun :: "builder_run \<Rightarrow> bool" where
  "wfRun r \<longleftrightarrow>
     (let ss = slots (builder r); d = diag (builder r) in
      1 \<le> length ss \<and> length ss \<le> 3 \<and> distinct (map fst (outstanding r)) \<and> set (outstanding r) = lent ss \<and>
      length (outstanding r) + leasesReclaimed d = leasesBuilt d)"

lemma findFree_Some: "findFree i ss = Some k \<Longrightarrow> i \<le> k \<and> k < i + length ss \<and> \<not> slotInFlight (ss ! (k - i))"
proof (induction i ss rule: findFree.induct)
  case (2 i s ss)
  show ?case
  proof (cases "slotInFlight s")
    case True
    with 2 have "i + 1 \<le> k \<and> k < i + 1 + length ss \<and> \<not> slotInFlight (ss ! (k - (i + 1)))" by simp
    moreover from this have "k - i = Suc (k - (i + 1))" by arith
    ultimately show ?thesis by simp
  qed (use "2.prems" in simp)
qed simp

lemma findFree_None: "findFree i ss = None \<longleftrightarrow> list_all slotInFlight ss"
  by (induction i ss rule: findFree.induct) auto

lemma lent_lend:
  assumes "i < length ss" "\<not> slotInFlight (ss ! i)" "slotInFlight s"
  shows "lent (ss[i := s]) = insert (i, leaseToken s) (lent ss)" and "i \<notin> fst ` lent ss"
  using assms by (force simp: lent_def nth_list_update)+

lemma lent_return:
  assumes "i < length ss" "\<not> slotInFlight s"
  shows "lent (ss[i := s]) = lent ss - {(i, leaseToken (ss ! i))}"
  using assms by (force simp: lent_def nth_list_update)

lemma lent_map: "(\<And>s. slotInFlight (f s) = slotInFlight s \<and> leaseToken (f s) = leaseToken s) \<Longrightarrow> lent (map f ss) = lent ss"
  by (force simp: lent_def)

lemma distinct_fst_filter: "distinct (map fst xs) \<Longrightarrow> x \<in> set xs \<Longrightarrow> Suc (length (filter (\<lambda>y. y \<noteq> x) xs)) = length xs"
proof (induction xs)
  case (Cons a xs)
  then show ?case
  proof (cases "a = x")
    case True
    with Cons.prems have "x \<notin> set xs" by force
    then have "filter (\<lambda>y. y \<noteq> x) xs = xs" by (auto simp: filter_id_conv)
    with True show ?thesis by simp
  qed auto
qed simp

lemma tryBuild_Some:
  assumes "tryBuild now snap frame gen f b = (Some l, b')"
  shows "slotId l < length (slots b)" and "\<not> slotInFlight (slots b ! slotId l)"
    and "\<exists>s. slots b' = (slots b)[slotId l := s] \<and> slotInFlight s \<and> leaseToken s = lease l"
    and "leasesBuilt (diag b') = leasesBuilt (diag b) + 1" "leasesReclaimed (diag b') = leasesReclaimed (diag b)"
    and "\<exists>room. graphemeCapacity snap (includedRows snap f) \<le> room \<and> leasedUpdate l = packUpdate room snap frame gen f"
proof -
  from assms obtain i where i: "findFree 0 (slots b) = Some i" by (auto simp: tryBuild_def split: option.splits)
  from findFree_Some [OF this] have "i < length (slots b)" "\<not> slotInFlight (slots b ! i)" by auto
  moreover have "slotId l = i" using assms i by (auto simp: tryBuild_def Let_def)
  ultimately show "slotId l < length (slots b)" "\<not> slotInFlight (slots b ! slotId l)" by auto
  show "\<exists>s. slots b' = (slots b)[slotId l := s] \<and> slotInFlight s \<and> leaseToken s = lease l"
    "leasesBuilt (diag b') = leasesBuilt (diag b) + 1" "leasesReclaimed (diag b') = leasesReclaimed (diag b)"
    using assms i by (auto simp: tryBuild_def Let_def growSlot_def)
  show "\<exists>room. graphemeCapacity snap (includedRows snap f) \<le> room \<and> leasedUpdate l = packUpdate room snap frame gen f"
    using assms i ensureCap_ge by (fastforce simp: tryBuild_def Let_def growSlot_def)
qed

lemma tryBuild_None:
  assumes "tryBuild now snap frame gen f b = (None, b')"
  shows "slots b' = slots b" and "leasesBuilt (diag b') = leasesBuilt (diag b)"
    and "leasesReclaimed (diag b') = leasesReclaimed (diag b)" and "list_all slotInFlight (slots b)"
  using assms findFree_None [of 0 "slots b"] by (auto simp: tryBuild_def Let_def split: option.splits)

lemma reclaim_wf:
  assumes "wfRun (r\<lparr>builder := b\<rparr>)"
  shows "wfRun (r\<lparr>builder := snd (reclaim i t bufs b),
    outstanding := (if fst (reclaim i t bufs b) then filter (\<lambda>x. x \<noteq> (i, t)) (outstanding r) else outstanding r)\<rparr>)"
proof (cases "fst (reclaim i t bufs b)")
  case True
  then have c: "i < length (slots b)" "slotInFlight (slots b ! i)" "leaseToken (slots b ! i) = t"
    by (auto simp: reclaim_def split: if_splits)
  obtain s where s: "slots (snd (reclaim i t bufs b)) = (slots b)[i := s]" "\<not> slotInFlight s"
    "leasesReclaimed (diag (snd (reclaim i t bufs b))) = leasesReclaimed (diag b) + 1"
    "leasesBuilt (diag (snd (reclaim i t bufs b))) = leasesBuilt (diag b)"
    using True by (auto simp: reclaim_def split: if_splits)
  have mem: "(i, t) \<in> set (outstanding r)" using assms c by (auto simp: wfRun_def Let_def lent_def)
  have d: "distinct (map fst (filter (\<lambda>x. x \<noteq> (i, t)) (outstanding r)))"
    using assms by (auto simp: wfRun_def Let_def distinct_map_filter)
  have l: "Suc (length (filter (\<lambda>x. x \<noteq> (i, t)) (outstanding r))) = length (outstanding r)"
    by (rule distinct_fst_filter [OF _ mem]) (use assms in \<open>simp add: wfRun_def Let_def\<close>)
  have st: "set (filter (\<lambda>x. x \<noteq> (i, t)) (outstanding r)) = lent ((slots b)[i := s])"
    unfolding lent_return [OF c(1) s(2)] c(3) using assms by (auto simp: wfRun_def Let_def)
  show ?thesis using assms True s d l st by (simp add: wfRun_def Let_def)
next
  case False
  then show ?thesis using assms by (auto simp: wfRun_def Let_def reclaim_def split: if_splits)
qed

lemma builder_step_wf: "wfRun r \<Longrightarrow> wfRun (builder_step e r)"
proof (cases e)
  case (TryBuild now snap frame gen f)
  assume w: "wfRun r"
  obtain l b' where t: "tryBuild now snap frame gen f (builder r) = (l, b')" by fastforce
  show ?thesis
  proof (cases l)
    case None
    with w TryBuild t tryBuild_None [OF t [unfolded None]] show ?thesis by (simp add: wfRun_def Let_def)
  next
    case (Some x)
    note p = tryBuild_Some [OF t [unfolded Some]]
    obtain s where s: "slots b' = (slots (builder r))[slotId x := s]" "slotInFlight s" "leaseToken s = lease x"
      using p(3) by blast
    note ll = lent_lend [OF p(1,2) s(2)]
    have "slotId x \<notin> fst ` set (outstanding r)" using w ll(2) by (simp add: wfRun_def Let_def)
    then show ?thesis
      using w TryBuild t Some s p(4,5) ll(1) by (simp add: wfRun_def Let_def)
  qed
next
  case (TrimIdle activity now)
  assume "wfRun r"
  moreover have "lent (map trimSlot ss) = lent ss" for ss by (rule lent_map) (simp add: trimSlot_def Let_def)
  ultimately show ?thesis using TrimIdle by (auto simp: wfRun_def Let_def trimIdle_def)
next
  case (Reclaim i t bufs)
  assume "wfRun r"
  with reclaim_wf [where r = r and b = "builder r" and i = i and t = t and bufs = bufs] Reclaim show ?thesis by (simp add: case_prod_beta)
next
  case (Release owner bufs)
  assume w: "wfRun r"
  let ?b0 = "(builder r)\<lparr>owners := filter (\<lambda>x. x \<noteq> owner) (owners (builder r))\<rparr>"
  have "wfRun (r\<lparr>builder := ?b0\<rparr>)" using w by (simp add: wfRun_def Let_def)
  note returned = reclaim_wf [OF this, where i = "fst owner" and t = "snd owner" and bufs = bufs]
  show ?thesis
  proof (cases "fst (reclaim (fst owner) (snd owner) bufs ?b0)")
    case True
    with returned w Release show ?thesis by (simp add: release_def Let_def)
  next
    case False
    with returned w Release show ?thesis by (simp add: release_def Let_def)
  qed
qed

interpretation builder_machine: event_machine builder_step wfRun
  by unfold_locales (rule builder_step_wf)

definition startBuilder :: "int \<Rightarrow> builder_run" where
  "startBuilder n = \<lparr>builder = newBuilder n, outstanding = []\<rparr>"

lemma startBuilder_wf: "wfRun (startBuilder n)"
proof -
  have "lent (replicate k createSlot) = {}" for k by (auto simp: lent_def createSlot_def)
  then show ?thesis by (auto simp: wfRun_def startBuilder_def newBuilder_def Let_def)
qed

section \<open>Properties\<close>

text \<open>
  C6: Whatever is built, returned, released twice or trimmed, no slot belongs to two outstanding
  updates: the outstanding leases are exactly the slots in flight with their current tokens, one each,
  at most three, and their number is that of the leases built less those reclaimed. The arrays of an
  update are therefore never overwritten before it is returned.
\<close>

theorem update_leases: "wfRun (fold builder_step es (startBuilder n))"
  by (rule builder_machine.run_inv [OF startBuilder_wf])

text \<open>
  C7: What the builder hands out is well formed: from a snapshot whose grid fits 16 bits, with positions
  in range, an update with a positive safe frame and generation passes the validation that guards the
  viewport model and the renderers.
\<close>

theorem tryBuild_valid:
  assumes "tryBuild now snap frame gen f b = (Some l, b')" and "wfSnapshot snap"
    and "1 \<le> frame" and "safe_int frame" and "1 \<le> gen" and "safe_int gen"
    and "graphemeCapacity snap (includedRows snap f) < 2 ^ 32"
  shows "validateGhosttyRenderUpdate (leasedUpdate l)"
  using tryBuild_Some(6) [OF assms(1)] packUpdate_valid [OF assms(2-7)] by metis

text \<open>One bold cell on a grid of one, packed by a fresh builder.\<close>

definition sampleSnapshot :: ghostty_snapshot where
  "sampleSnapshot =
     (let black = \<lparr>cr = 0, cg = 0, cb = 0\<rparr>; white = \<lparr>cr = 255, cg = 255, cb = 255\<rparr> in
      \<lparr>scols = 1, srows = 1, sforeground = white, sbackground = black, scursor = white, scursorX = 0, scursorY = 0,
       scursorVisible = True, scursorBlinking = False, scursorStyle = 1, sdirtyRows = [0],
       srowData = [\<lparr>rcells = [\<lparr>ctext = [65], wide = 0, cforeground = white, cbackground = black, bold = True,
         italic = False, invisible = False, strikethrough = False, overline = False, underline = 1, selected = False\<rparr>],
         rtext = [65], isWrapContinuation = False, wrapsToNext = True\<rparr>]\<rparr>)"

lemma sampleSnapshot_ok: "wfSnapshot sampleSnapshot" "graphemeCapacity sampleSnapshot (includedRows sampleSnapshot f) < 2 ^ 32"
  by (simp_all add: sampleSnapshot_def wfSnapshot_def safe_int_def maxSafeInteger_def Let_def includedRows_def
    graphemeCapacity_def rowCells_def nthOpt_def cellText_def unitsOf_def)

lemma sample_lease:
  "tryBuild now snap frame gen f (newBuilder 1) =
     (Some (the (fst (tryBuild now snap frame gen f (newBuilder 1)))), snd (tryBuild now snap frame gen f (newBuilder 1)))"
  by (simp add: tryBuild_def newBuilder_def createSlot_def Let_def)

theorem tryBuild_valid_witness:
  "validateGhosttyRenderUpdate (leasedUpdate (the (fst (tryBuild 0 sampleSnapshot 1 1 True (newBuilder 1)))))"
  by (rule tryBuild_valid [OF sample_lease sampleSnapshot_ok(1) _ _ _ _ sampleSnapshot_ok(2)])
    (simp_all add: safe_int_def maxSafeInteger_def)

text \<open>
  The loop that grows an array ends, with the least power of two that holds what is required.
\<close>

theorem nextCapacity_least:
  "\<exists>k. nextCapacity required = 2 ^ k \<and> required \<le> 2 ^ k \<and> (k = 0 \<or> 2 ^ (k - 1) < required)"
proof -
  have "\<exists>k\<ge>j. growCapacity (2 ^ j) r = 2 ^ k \<and> r \<le> 2 ^ k \<and> (k > j \<longrightarrow> 2 ^ (k - 1) < r)" for j r
  proof (induction "2 ^ j :: nat" r arbitrary: j rule: growCapacity.induct)
    case (1 r)
    show ?case
    proof (cases "2 ^ j < r")
      case False
      then have "growCapacity (2 ^ j) r = 2 ^ j" by (subst growCapacity.simps) simp
      with False show ?thesis by (intro exI [of _ j]) simp
    next
      case True
      have e: "2 ^ j * 2 = (2 ^ (j + 1) :: nat)" by simp
      from True have g: "growCapacity (2 ^ j) r = growCapacity (2 ^ (j + 1)) r"
        by (subst growCapacity.simps) (simp add: mult.commute)
      from "1.hyps" [OF _ e] True obtain k where k: "j + 1 \<le> k" "growCapacity (2 ^ (j + 1)) r = 2 ^ k" "r \<le> 2 ^ k"
        "k > j + 1 \<longrightarrow> 2 ^ (k - 1) < r" by auto
      have "2 ^ (k - 1) < r" using k(1,4) True by (cases "k = j + 1") auto
      with k g show ?thesis by (intro exI [of _ k]) simp
    qed
  qed
  from this [of 0 required] show ?thesis by (simp add: nextCapacity_def) blast
qed

end
