(* ===== verification/ViewportModel.thy ===== *)
theory ViewportModel
  imports RenderUpdate
begin

text \<open>
  The packed viewport of the main thread, \<open>packages/ghostty-core/src/viewport-model.ts\<close>: updates replace
  whole rows of flat arrays, text and compatibility rows are decoded on demand and cached. Reads that
  fill a cache return the model. The lemmas show that a valid update is applied completely, that the
  caches never show anything but the arrays, and that a snapshot packed by the builder and applied here
  is shown cell by cell.
\<close>

section \<open>State\<close>

record viewport_model =
  mframe :: int
  mgeneration :: int
  mcols :: nat
  mrows :: nat
  mforeground :: "32 word"
  mbackground :: "32 word"
  mcursor :: "32 word"
  mcursorX :: int
  mcursorY :: int
  mcursorVisible :: bool
  mcursorBlinking :: bool
  mcursorStyle :: int
  mstyles :: "16 word list"
  mforegrounds :: "32 word list"
  mbackgrounds :: "32 word list"
  moffsets :: "32 word list"
  mlengths :: "32 word list"
  mrowFlags :: "8 word list"
  rowVersions :: "32 word list"
  rowGraphemes :: "octets list"
  decodedRows :: "js_text option list option list"
  compatibilityRows :: "grid_row option list"
  compatibilityVersions :: "32 word list"
  mdirtyRows :: "nat list"
  compatibilitySnapshotBuilds :: nat
  decodedGraphemes :: nat

definition allocate :: "nat \<Rightarrow> nat \<Rightarrow> viewport_model \<Rightarrow> viewport_model" where
  "allocate c r m =
     m\<lparr>mcols := c, mrows := r, mstyles := replicate (c * r) 0, mforegrounds := replicate (c * r) 0,
       mbackgrounds := replicate (c * r) 0, moffsets := replicate (c * r) 0, mlengths := replicate (c * r) 0,
       mrowFlags := replicate r 0, rowVersions := replicate r 0, rowGraphemes := replicate r [],
       decodedRows := replicate r None, compatibilityRows := replicate r None,
       compatibilityVersions := replicate r 0\<rparr>"

definition newModel :: viewport_model where
  "newModel =
     \<lparr>mframe = 0, mgeneration = 0, mcols = 0, mrows = 0, mforeground = 0xe5e7eb, mbackground = 0, mcursor = 0xe5e7eb,
      mcursorX = -1, mcursorY = -1, mcursorVisible = False, mcursorBlinking = False, mcursorStyle = 0, mstyles = [],
      mforegrounds = [], mbackgrounds = [], moffsets = [], mlengths = [], mrowFlags = [], rowVersions = [],
      rowGraphemes = [], decodedRows = [], compatibilityRows = [], compatibilityVersions = [], mdirtyRows = [],
      compatibilitySnapshotBuilds = 0, decodedGraphemes = 0\<rparr>"

definition resetModel :: "viewport_model \<Rightarrow> viewport_model" where
  "resetModel m = allocate 0 0
     (m\<lparr>mframe := 0, mgeneration := 0, mcursorX := -1, mcursorY := -1, mcursorVisible := False,
        mcursorBlinking := False, mcursorStyle := 0, mdirtyRows := []\<rparr>)"

text \<open>An indexed read with a default.\<close>

definition nthOr :: "'a \<Rightarrow> 'a list \<Rightarrow> nat \<Rightarrow> 'a" where
  "nthOr d xs i = coalesce (nthOpt xs i) d"

text \<open>\<open>set(values, offset)\<close> of a typed array.\<close>

definition setSlab :: "nat \<Rightarrow> 'a list \<Rightarrow> 'a list \<Rightarrow> 'a list" where
  "setSlab off vs xs = take off xs @ vs @ drop (off + length vs) xs"

definition subarray :: "nat \<Rightarrow> nat \<Rightarrow> 'a list \<Rightarrow> 'a list" where
  "subarray a b xs = take (b - a) (drop a xs)"

section \<open>Applying an update\<close>

text \<open>The bytes of the cell at an index of the update.\<close>

definition updateBytes :: "render_update \<Rightarrow> nat \<Rightarrow> octets" where
  "updateBytes u i =
     subarray (unat (nthOr 0 (graphemeOffsets u) i)) (unat (nthOr 0 (graphemeOffsets u) i) + unat (nthOr 0 (graphemeLengths u) i))
       (graphemes u)"

text \<open>One cell of the loop that copies a row's text: the bytes so far and the two index arrays.\<close>

definition copyCell :: "render_update \<Rightarrow> nat \<Rightarrow> nat \<Rightarrow> nat \<Rightarrow> octets \<times> 32 word list \<times> 32 word list
    \<Rightarrow> octets \<times> 32 word list \<times> 32 word list" where
  "copyCell u packedStart targetStart c st =
     (let (bytes, offs, lens) = st; b = updateBytes u (packedStart + c)
      in (bytes @ b, offs[targetStart + c := of_nat (length bytes)],
          lens[targetStart + c := nthOr 0 (graphemeLengths u) (packedStart + c)]))"

definition applyRow :: "render_update \<Rightarrow> nat \<Rightarrow> viewport_model \<Rightarrow> viewport_model option" where
  "applyRow u i m =
     (case nthOpt (dirtyRows u) i of
        None \<Rightarrow> None
      | Some w \<Rightarrow>
          (let row = unat w; packedStart = i * ucols u; packedEnd = packedStart + ucols u; targetStart = row * ucols u;
               m1 = m\<lparr>mstyles := setSlab targetStart (subarray packedStart packedEnd (styles u)) (mstyles m),
                     mforegrounds := setSlab targetStart (subarray packedStart packedEnd (foregrounds u)) (mforegrounds m),
                     mbackgrounds := setSlab targetStart (subarray packedStart packedEnd (backgrounds u)) (mbackgrounds m)\<rparr>
           in if row \<ge> mrows m then None
              else if list_ex (\<lambda>c. unat (nthOr 0 (graphemeOffsets u) (packedStart + c))
                  + unat (nthOr 0 (graphemeLengths u) (packedStart + c)) > length (graphemes u)) [0..<ucols u] then None
              else (let (bytes, offs, lens) = fold (copyCell u packedStart targetStart) [0..<ucols u] ([], moffsets m, mlengths m)
                    in Some (m1\<lparr>rowGraphemes := (rowGraphemes m)[row := bytes], moffsets := offs, mlengths := lens,
                         mrowFlags := (mrowFlags m)[row := nthOr 0 (rowFlags u) i],
                         rowVersions := (rowVersions m)[row := nthOr 0 (rowVersions m) row + 1],
                         decodedRows := (viewport_model.decodedRows m)[row := None],
                         compatibilityRows := (compatibilityRows m)[row := None]\<rparr>))))"

text \<open>The loop over the included rows; \<open>None\<close> is the return of \<open>false\<close> from inside.\<close>

fun applyRows :: "render_update \<Rightarrow> nat list \<Rightarrow> viewport_model \<Rightarrow> viewport_model option" where
  "applyRows u [] m = Some m"
| "applyRows u (i # is) m = (case applyRow u i m of None \<Rightarrow> None | Some m' \<Rightarrow> applyRows u is m')"

definition acceptsUpdate :: "render_update \<Rightarrow> viewport_model \<Rightarrow> bool" where
  "acceptsUpdate u m \<longleftrightarrow>
     validateGhosttyRenderUpdate u \<and> \<not> generation u < mgeneration m \<and>
     \<not> (generation u = mgeneration m \<and> frameId u \<le> mframe m) \<and>
     \<not> (generation u > mgeneration m \<and> \<not> full u) \<and>
     \<not> ((full u \<or> ucols u \<noteq> mcols m \<or> urows u \<noteq> mrows m) \<and> \<not> full u)"

definition updateHeader :: "render_update \<Rightarrow> viewport_model \<Rightarrow> viewport_model" where
  "updateHeader u m =
     m\<lparr>mframe := frameId u, mgeneration := generation u, mforeground := uforeground u, mbackground := ubackground u,
       mcursor := ucursor u, mcursorX := ucursorX u, mcursorY := ucursorY u, mcursorVisible := ucursorVisible u,
       mcursorBlinking := ucursorBlinking u, mcursorStyle := ucursorStyle u\<rparr>"

text \<open>
  \<open>None\<close>: refused before anything changed. An update that passes validation is never refused later
  (\<open>applyRows_Some\<close> below), so what an interrupted loop leaves behind is not modelled.
\<close>

definition applyUpdate :: "render_update \<Rightarrow> viewport_model \<Rightarrow> viewport_model option" where
  "applyUpdate u m =
     (if \<not> acceptsUpdate u m then None
      else (let m1 = (if full u \<or> ucols u \<noteq> mcols m \<or> urows u \<noteq> mrows m then allocate (ucols u) (urows u) m else m)
            in case applyRows u [0..<length (dirtyRows u)] (updateHeader u m1) of
                 None \<Rightarrow> None
               | Some m2 \<Rightarrow> Some (m2\<lparr>mdirtyRows := map unat (dirtyRows u)\<rparr>)))"

section \<open>Reading\<close>

definition styleAt :: "viewport_model \<Rightarrow> nat \<Rightarrow> nat \<Rightarrow> 16 word" where
  "styleAt m r c = nthOr 0 (mstyles m) (r * mcols m + c)"

definition foregroundAt :: "viewport_model \<Rightarrow> nat \<Rightarrow> nat \<Rightarrow> 32 word" where
  "foregroundAt m r c = nthOr (mforeground m) (mforegrounds m) (r * mcols m + c)"

definition backgroundAt :: "viewport_model \<Rightarrow> nat \<Rightarrow> nat \<Rightarrow> 32 word" where
  "backgroundAt m r c = nthOr (mbackground m) (mbackgrounds m) (r * mcols m + c)"

definition decodeAt :: "viewport_model \<Rightarrow> nat \<Rightarrow> nat \<Rightarrow> js_text" where
  "decodeAt m r c =
     (let i = r * mcols m + c; off = unat (nthOr 0 (moffsets m) i); len = unat (nthOr 0 (mlengths m) i);
          bytes = nthOr [] (rowGraphemes m) r
      in if len = 0 then [] else utf8Decode (subarray off (off + len) bytes))"

definition textAt :: "nat \<Rightarrow> nat \<Rightarrow> viewport_model \<Rightarrow> js_text \<times> viewport_model" where
  "textAt r c m =
     (if r \<ge> mrows m \<or> c \<ge> mcols m then ([], m)
      else (let cache = (case nthOr None (viewport_model.decodedRows m) r of None \<Rightarrow> replicate (mcols m) None | Some x \<Rightarrow> x);
                m1 = m\<lparr>decodedRows := (viewport_model.decodedRows m)[r := Some cache]\<rparr>
            in case nthOr None cache c of
                 Some t \<Rightarrow> (t, m1)
               | None \<Rightarrow> (decodeAt m r c, m1\<lparr>decodedRows := (viewport_model.decodedRows m)[r := Some (cache[c := Some (decodeAt m r c)])],
                   decodedGraphemes := decodedGraphemes m + 1\<rparr>)))"

definition orSpace :: "js_text \<Rightarrow> js_text" where
  "orSpace t = (if t = [] then [32] else t)"

text \<open>The text of each listed column, in order.\<close>

fun textsAt :: "nat \<Rightarrow> nat list \<Rightarrow> viewport_model \<Rightarrow> js_text list \<times> viewport_model" where
  "textsAt r [] m = ([], m)"
| "textsAt r (c # cs) m = (let (t, m1) = textAt r c m; (ts, m2) = textsAt r cs m1 in (t # ts, m2))"

definition rowText :: "nat \<Rightarrow> bool \<Rightarrow> viewport_model \<Rightarrow> js_text \<times> viewport_model" where
  "rowText r trimRight m =
     (if r \<ge> mrows m then ([], m)
      else (let (ts, m1) = textsAt r [0..<mcols m] m; v = concat (map orSpace ts)
            in (if trimRight then trimEnd v else v, m1)))"

text \<open>The cell a style, two colours and a text stand for.\<close>

definition unpackCell :: "js_text \<Rightarrow> 16 word \<Rightarrow> 32 word \<Rightarrow> 32 word \<Rightarrow> cell" where
  "unpackCell t st f b =
     \<lparr>ctext = t, wide = ucast (st AND widthMask), cforeground = unpackGhosttyColor f, cbackground = unpackGhosttyColor b,
      bold = (st AND boldBit \<noteq> 0), italic = (st AND italicBit \<noteq> 0), invisible = (st AND invisibleBit \<noteq> 0),
      strikethrough = (st AND strikethroughBit \<noteq> 0), overline = (st AND overlineBit \<noteq> 0),
      underline = ucast (drop_bit underlineShift (st AND underlineMask)), selected = (st AND selectedBit \<noteq> 0)\<rparr>"

definition materializeRow :: "nat \<Rightarrow> viewport_model \<Rightarrow> grid_row \<times> viewport_model" where
  "materializeRow r m =
     (let v = nthOr 0 (rowVersions m) r; cached = nthOr None (compatibilityRows m) r in
      if cached \<noteq> None \<and> nthOpt (compatibilityVersions m) r = Some v then (the cached, m)
      else
        (let (ts, m1) = textsAt r [0..<mcols m] m; (t, m2) = rowText r True m1; fl = nthOr 0 (mrowFlags m) r;
             row = \<lparr>rcells = map (\<lambda>c. unpackCell (ts ! c) (styleAt m r c) (foregroundAt m r c) (backgroundAt m r c)) [0..<mcols m],
               rtext = t, isWrapContinuation = (fl AND wrapContinuationBit \<noteq> 0), wrapsToNext = (fl AND wrapsToNextBit \<noteq> 0)\<rparr>
         in (row, m2\<lparr>compatibilityRows := (compatibilityRows m2)[r := Some row],
              compatibilityVersions := (compatibilityVersions m2)[r := v]\<rparr>)))"

fun materializeRows :: "nat list \<Rightarrow> viewport_model \<Rightarrow> grid_row list \<times> viewport_model" where
  "materializeRows [] m = ([], m)"
| "materializeRows (r # rs) m = (let (x, m1) = materializeRow r m; (xs, m2) = materializeRows rs m1 in (x # xs, m2))"

definition snapshotModel :: "viewport_model \<Rightarrow> ghostty_snapshot \<times> viewport_model" where
  "snapshotModel m =
     (let (rs, m1) = materializeRows [0..<mrows m] (m\<lparr>compatibilitySnapshotBuilds := compatibilitySnapshotBuilds m + 1\<rparr>)
      in (\<lparr>scols = mcols m, srows = mrows m, sforeground = unpackGhosttyColor (mforeground m),
           sbackground = unpackGhosttyColor (mbackground m), scursor = unpackGhosttyColor (mcursor m),
           scursorX = mcursorX m, scursorY = mcursorY m, scursorVisible = mcursorVisible m,
           scursorBlinking = mcursorBlinking m, scursorStyle = mcursorStyle m, sdirtyRows = mdirtyRows m, srowData = rs\<rparr>, m1))"

definition spacerTail :: "16 word" where "spacerTail = 2"

fun bufferRows :: "nat list \<Rightarrow> viewport_model \<Rightarrow> js_text list \<times> viewport_model" where
  "bufferRows [] m = ([], m)"
| "bufferRows (r # rs) m =
     (let (ts, m1) = textsAt r (filter (\<lambda>c. styleAt m r c AND widthMask \<noteq> spacerTail) [0..<mcols m]) m;
          (xs, m2) = bufferRows rs m1
      in (trimEnd (concat (map orSpace ts)) # xs, m2))"

text \<open>Rows joined by a line feed.\<close>

fun joinLines :: "js_text list \<Rightarrow> js_text" where
  "joinLines [] = []"
| "joinLines [x] = x"
| "joinLines (x # xs) = x @ [10] @ joinLines xs"

definition bufferText :: "viewport_model \<Rightarrow> js_text \<times> viewport_model" where
  "bufferText m = (let (rs, m1) = bufferRows [0..<mrows m] m in (joinLines rs, m1))"

section \<open>Reads show the arrays\<close>

lemma nthOr_nth: "i < length xs \<Longrightarrow> nthOr d xs i = xs ! i"
  by (simp add: nthOr_def nthOpt_def)

lemma cell_index: "r < rs \<Longrightarrow> c < cs \<Longrightarrow> r * cs + c < rs * (cs :: nat)"
proof -
  assume "r < rs" "c < cs"
  then have "r * cs + c < (r + 1) * cs" by simp
  also have "\<dots> \<le> rs * cs" using \<open>r < rs\<close> by (intro mult_le_mono1) simp
  finally show ?thesis .
qed

text \<open>What the arrays stand for, without any cache.\<close>

definition cellView :: "viewport_model \<Rightarrow> nat \<Rightarrow> nat \<Rightarrow> cell" where
  "cellView m r c = unpackCell (decodeAt m r c) (styleAt m r c) (foregroundAt m r c) (backgroundAt m r c)"

definition rowOf :: "cell list \<Rightarrow> 8 word \<Rightarrow> grid_row" where
  "rowOf cs fl = \<lparr>rcells = cs, rtext = trimEnd (concat (map (\<lambda>c. orSpace (ctext c)) cs)),
     isWrapContinuation = (fl AND wrapContinuationBit \<noteq> 0), wrapsToNext = (fl AND wrapsToNextBit \<noteq> 0)\<rparr>"

definition rowView :: "viewport_model \<Rightarrow> nat \<Rightarrow> grid_row" where
  "rowView m r = rowOf (map (cellView m r) [0..<mcols m]) (nthOr 0 (mrowFlags m) r)"

definition gridView :: "viewport_model \<Rightarrow> grid_row list" where
  "gridView m = map (rowView m) [0..<mrows m]"

text \<open>The model without its caches and counters.\<close>

definition arrays :: "viewport_model \<Rightarrow> viewport_model" where
  "arrays m = m\<lparr>decodedRows := [], compatibilityRows := [], compatibilityVersions := [],
     compatibilitySnapshotBuilds := 0, decodedGraphemes := 0\<rparr>"

lemma arrays_sel [simp]:
  "mcols (arrays m) = mcols m" "mrows (arrays m) = mrows m" "moffsets (arrays m) = moffsets m"
  "mlengths (arrays m) = mlengths m" "rowGraphemes (arrays m) = rowGraphemes m" "mstyles (arrays m) = mstyles m"
  "mforegrounds (arrays m) = mforegrounds m" "mbackgrounds (arrays m) = mbackgrounds m"
  "mforeground (arrays m) = mforeground m" "mbackground (arrays m) = mbackground m"
  by (cases m; simp add: arrays_def)+

lemma arrays_reads: "decodeAt (arrays m) = decodeAt m" "styleAt (arrays m) = styleAt m"
  "foregroundAt (arrays m) = foregroundAt m" "backgroundAt (arrays m) = backgroundAt m"
  by (intro ext; simp add: decodeAt_def styleAt_def foregroundAt_def backgroundAt_def)+

lemma view_arrays:
  assumes "arrays m = arrays m'"
  shows "mcols m = mcols m'" "mrows m = mrows m'" "cellView m = cellView m'" "rowView m = rowView m'"
    "gridView m = gridView m'" "decodeAt m = decodeAt m'" "styleAt m = styleAt m'" "foregroundAt m = foregroundAt m'"
    "backgroundAt m = backgroundAt m'" "rowVersions m = rowVersions m'" "mrowFlags m = mrowFlags m'"
    "mforeground m = mforeground m'" "mbackground m = mbackground m'" "mcursor m = mcursor m'"
    "mcursorX m = mcursorX m'" "mcursorY m = mcursorY m'" "mcursorVisible m = mcursorVisible m'"
    "mcursorBlinking m = mcursorBlinking m'" "mcursorStyle m = mcursorStyle m'" "mdirtyRows m = mdirtyRows m'"
proof -
  have f: "f (arrays m) = f (arrays m')" for f :: "viewport_model \<Rightarrow> 'a" using assms by simp
  show base: "mcols m = mcols m'" "mrows m = mrows m'" "rowVersions m = rowVersions m'" "mrowFlags m = mrowFlags m'"
    "mforeground m = mforeground m'" "mbackground m = mbackground m'" "mcursor m = mcursor m'"
    "mcursorX m = mcursorX m'" "mcursorY m = mcursorY m'" "mcursorVisible m = mcursorVisible m'"
    "mcursorBlinking m = mcursorBlinking m'" "mcursorStyle m = mcursorStyle m'" "mdirtyRows m = mdirtyRows m'"
    using assms by (cases m; cases m'; simp add: arrays_def)+
  show d: "decodeAt m = decodeAt m'" "styleAt m = styleAt m'" "foregroundAt m = foregroundAt m'"
    "backgroundAt m = backgroundAt m'"
    using f [of decodeAt] f [of styleAt] f [of foregroundAt] f [of backgroundAt] by (simp_all add: arrays_reads)
  show c: "cellView m = cellView m'" by (simp add: cellView_def [abs_def] d)
  show r: "rowView m = rowView m'" by (simp add: rowView_def [abs_def] c base)
  show "gridView m = gridView m'" by (simp add: gridView_def r base)
qed

text \<open>The arrays fit the grid, and a cache holds only what the arrays stand for.\<close>

definition fits :: "viewport_model \<Rightarrow> bool" where
  "fits m \<longleftrightarrow> length (mstyles m) = mrows m * mcols m \<and> length (mforegrounds m) = mrows m * mcols m \<and>
     length (mbackgrounds m) = mrows m * mcols m \<and> length (moffsets m) = mrows m * mcols m \<and>
     length (mlengths m) = mrows m * mcols m \<and> length (mrowFlags m) = mrows m \<and> length (rowVersions m) = mrows m \<and>
     length (rowGraphemes m) = mrows m \<and> length (viewport_model.decodedRows m) = mrows m \<and>
     length (compatibilityRows m) = mrows m \<and> length (compatibilityVersions m) = mrows m"

definition coherent :: "viewport_model \<Rightarrow> bool" where
  "coherent m \<longleftrightarrow>
     (\<forall>r<mrows m. \<forall>cache. viewport_model.decodedRows m ! r = Some cache \<longrightarrow>
        length cache = mcols m \<and> (\<forall>c<mcols m. \<forall>t. cache ! c = Some t \<longrightarrow> t = decodeAt m r c)) \<and>
     (\<forall>r<mrows m. \<forall>x. compatibilityRows m ! r = Some x \<longrightarrow> x = rowView m r)"

definition wfModel :: "viewport_model \<Rightarrow> bool" where
  "wfModel m \<longleftrightarrow> fits m \<and> coherent m"

lemma arrays_updates [simp]:
  "arrays (m\<lparr>decodedRows := d\<rparr>) = arrays m" "arrays (m\<lparr>decodedGraphemes := n\<rparr>) = arrays m"
  "arrays (m\<lparr>compatibilityRows := xs\<rparr>) = arrays m" "arrays (m\<lparr>compatibilityVersions := vs\<rparr>) = arrays m"
  "arrays (m\<lparr>compatibilitySnapshotBuilds := n\<rparr>) = arrays m"
  by (simp_all add: arrays_def)

text \<open>What a read may do to the model: fill caches, with what the arrays stand for.\<close>

definition reads :: "viewport_model \<Rightarrow> viewport_model \<Rightarrow> bool" where
  "reads m m' \<longleftrightarrow> wfModel m' \<and> arrays m' = arrays m"

lemma reads_trans: "reads m m' \<Longrightarrow> reads m' m'' \<Longrightarrow> reads m m''"
  by (simp add: reads_def)

lemma reads_refl: "wfModel m \<Longrightarrow> reads m m"
  by (simp add: reads_def)

lemma reads_cacheRow:
  assumes w: "wfModel m" and r: "r < mrows m" and l: "length cache = mcols m"
    and c: "\<And>c t. c < mcols m \<Longrightarrow> cache ! c = Some t \<Longrightarrow> t = decodeAt m r c"
  shows "reads m (m\<lparr>decodedRows := (viewport_model.decodedRows m)[r := Some cache]\<rparr>)"
proof -
  let ?m = "m\<lparr>decodedRows := (viewport_model.decodedRows m)[r := Some cache]\<rparr>"
  have a: "arrays ?m = arrays m" by simp
  have "fits ?m" using w by (simp add: wfModel_def fits_def)
  moreover have "coherent ?m"
    using w r l c unfolding wfModel_def coherent_def view_arrays [OF a]
    by (simp add: nth_list_update fits_def)
  ultimately show ?thesis by (simp add: reads_def wfModel_def)
qed

lemma reads_compat:
  assumes w: "wfModel m" and r: "r < mrows m"
  shows "reads m (m\<lparr>compatibilityRows := (compatibilityRows m)[r := Some (rowView m r)],
    compatibilityVersions := (compatibilityVersions m)[r := v]\<rparr>)"
proof -
  let ?m = "m\<lparr>compatibilityRows := (compatibilityRows m)[r := Some (rowView m r)],
    compatibilityVersions := (compatibilityVersions m)[r := v]\<rparr>"
  have a: "arrays ?m = arrays m" by simp
  have "fits ?m" using w by (simp add: wfModel_def fits_def)
  moreover have "coherent ?m"
    using w r unfolding wfModel_def coherent_def view_arrays [OF a]
    by (simp add: nth_list_update fits_def)
  ultimately show ?thesis by (simp add: reads_def wfModel_def)
qed

lemma reads_count: "wfModel m \<Longrightarrow> reads m (m\<lparr>decodedGraphemes := n\<rparr>)" "wfModel m \<Longrightarrow> reads m (m\<lparr>compatibilitySnapshotBuilds := n\<rparr>)"
proof -
  assume w: "wfModel m"
  have a: "arrays (m\<lparr>decodedGraphemes := n\<rparr>) = arrays m" "arrays (m\<lparr>compatibilitySnapshotBuilds := n\<rparr>) = arrays m" by simp_all
  show "reads m (m\<lparr>decodedGraphemes := n\<rparr>)" "reads m (m\<lparr>compatibilitySnapshotBuilds := n\<rparr>)"
    using w unfolding reads_def wfModel_def coherent_def fits_def view_arrays [OF a(1)] view_arrays [OF a(2)] by simp_all
qed

lemma textAt_reads:
  assumes w: "wfModel m" and r: "r < mrows m" and c: "c < mcols m" and t: "textAt r c m = (t, m')"
  shows "t = decodeAt m r c" and "reads m m'"
proof -
  let ?rows = "viewport_model.decodedRows m"
  define cache where "cache = (case nthOr None ?rows r of None \<Rightarrow> replicate (mcols m) None | Some x \<Rightarrow> x)"
  have rows: "r < length ?rows" using w r by (simp add: wfModel_def fits_def)
  have ok: "length cache = mcols m" "\<And>c t. c < mcols m \<Longrightarrow> cache ! c = Some t \<Longrightarrow> t = decodeAt m r c"
    using w r by (auto simp: cache_def nthOr_nth [OF rows] wfModel_def coherent_def split: option.splits)
  have filled: "\<And>d t. d < mcols m \<Longrightarrow> (cache[c := Some (decodeAt m r c)]) ! d = Some t \<Longrightarrow> t = decodeAt m r d"
    using ok c by (auto simp: nth_list_update split: if_splits)
  have step: "reads m (m\<lparr>decodedRows := ?rows[r := Some cache]\<rparr>)" by (rule reads_cacheRow [OF w r ok])
  have fill: "reads m (m\<lparr>decodedRows := ?rows[r := Some (cache[c := Some (decodeAt m r c)])]\<rparr>)" (is "reads m ?m")
    by (rule reads_cacheRow [OF w r _ filled]) (simp_all add: ok(1))
  then have "wfModel ?m" by (simp add: reads_def)
  from reads_trans [OF fill reads_count(1) [OF this]]
  have step': "reads m (m\<lparr>decodedRows := ?rows[r := Some (cache[c := Some (decodeAt m r c)])],
      decodedGraphemes := decodedGraphemes m + 1\<rparr>)" by this
  have hit: "cache ! c = Some t \<Longrightarrow> t = decodeAt m r c" using ok c by simp
  show "t = decodeAt m r c" "reads m m'"
    using t r c step step' hit ok(1)
    by (auto simp: textAt_def Let_def cache_def [symmetric] nthOr_nth split: option.splits)
qed

lemma reads_views: "reads m m' \<Longrightarrow> wfModel m'" "reads m m' \<Longrightarrow> arrays m' = arrays m"
  by (simp_all add: reads_def)

lemma textsAt_reads:
  "wfModel m \<Longrightarrow> r < mrows m \<Longrightarrow> \<forall>c\<in>set cs. c < mcols m \<Longrightarrow> textsAt r cs m = (ts, m') \<Longrightarrow>
    ts = map (decodeAt m r) cs \<and> reads m m'"
proof (induction cs arbitrary: m ts m')
  case Nil
  then show ?case by (simp add: reads_refl)
next
  case (Cons c cs)
  obtain t m1 where t: "textAt r c m = (t, m1)" by fastforce
  obtain us m2 where u: "textsAt r cs m1 = (us, m2)" by fastforce
  have "c < mcols m" using Cons.prems by simp
  note one = textAt_reads [OF Cons.prems(1,2) this t]
  note same = view_arrays [OF reads_views(2) [OF one(2)]]
  have "us = map (decodeAt m r) cs \<and> reads m1 m2"
    using Cons.IH [OF reads_views(1) [OF one(2)] _ _ u] Cons.prems by (simp add: same)
  with one t u Cons.prems(4) show ?case by (auto intro: reads_trans)
qed

lemma rowText_reads:
  assumes "wfModel m" and "r < mrows m" and "rowText r True m = (t, m')"
  shows "t = rtext (rowView m r)" and "reads m m'"
proof -
  obtain ts m1 where t: "textsAt r [0..<mcols m] m = (ts, m1)" by fastforce
  have "ts = map (decodeAt m r) [0..<mcols m] \<and> reads m m1"
    by (rule textsAt_reads [OF assms(1,2) _ t]) simp
  with assms t show "t = rtext (rowView m r)" "reads m m'"
    by (auto simp: rowText_def rowView_def rowOf_def cellView_def unpackCell_def comp_def)
qed

lemma materializeRow_reads:
  assumes w: "wfModel m" and r: "r < mrows m" and t: "materializeRow r m = (x, m')"
  shows "x = rowView m r" and "reads m m'"
proof -
  let ?cached = "nthOr None (compatibilityRows m) r" and ?v = "nthOr 0 (rowVersions m) r"
  have len: "r < length (compatibilityRows m)" using w r by (simp add: wfModel_def fits_def)
  have "x = rowView m r \<and> reads m m'"
  proof (cases "?cached \<noteq> None \<and> nthOpt (compatibilityVersions m) r = Some ?v")
    case True
    then have "?cached = Some x" "m' = m" using t by (auto simp: materializeRow_def Let_def)
    then show ?thesis using w r len by (auto simp: wfModel_def coherent_def nthOr_nth reads_refl)
  next
    case False
    obtain ts m1 where ts: "textsAt r [0..<mcols m] m = (ts, m1)" by fastforce
    obtain s m2 where s: "rowText r True m1 = (s, m2)" by fastforce
    have one: "ts = map (decodeAt m r) [0..<mcols m] \<and> reads m m1"
      by (rule textsAt_reads [OF w r _ ts]) simp
    then have r1: "wfModel m1" "arrays m1 = arrays m" by (simp_all add: reads_def)
    note same1 = view_arrays [OF r1(2)]
    have two: "s = rtext (rowView m r)" "reads m1 m2"
      using rowText_reads [OF r1(1) _ s] r by (simp_all add: same1)
    then have r2: "wfModel m2" "arrays m2 = arrays m" using r1 by (simp_all add: reads_def)
    note same2 = view_arrays [OF r2(2)]
    have x: "x = rowView m r" and m': "m' = m2\<lparr>compatibilityRows := (compatibilityRows m2)[r := Some x],
        compatibilityVersions := (compatibilityVersions m2)[r := ?v]\<rparr>"
      using t False ts s one two(1)
      by (auto simp: materializeRow_def Let_def rowView_def rowOf_def cellView_def [abs_def] unpackCell_def)
    have "r < mrows m2" "x = rowView m2 r" using r x by (simp_all add: same2)
    then have "reads m2 m'" unfolding m' using reads_compat [OF r2(1)] by simp
    with r2 x show ?thesis by (simp add: reads_def)
  qed
  then show "x = rowView m r" "reads m m'" by simp_all
qed

lemma materializeRows_reads:
  "wfModel m \<Longrightarrow> \<forall>r\<in>set rs. r < mrows m \<Longrightarrow> materializeRows rs m = (xs, m') \<Longrightarrow> xs = map (rowView m) rs \<and> reads m m'"
proof (induction rs arbitrary: m xs m')
  case Nil
  then show ?case by (simp add: reads_refl)
next
  case (Cons r rs)
  obtain x m1 where x: "materializeRow r m = (x, m1)" by fastforce
  obtain ys m2 where y: "materializeRows rs m1 = (ys, m2)" by fastforce
  have "r < mrows m" using Cons.prems by simp
  note one = materializeRow_reads [OF Cons.prems(1) this x]
  note same = view_arrays [OF reads_views(2) [OF one(2)]]
  have "ys = map (rowView m) rs \<and> reads m1 m2"
    using Cons.IH [OF reads_views(1) [OF one(2)] _ y] Cons.prems by (simp add: same)
  with one x y Cons.prems(3) show ?case by (auto intro: reads_trans)
qed

definition snapshotView :: "viewport_model \<Rightarrow> ghostty_snapshot" where
  "snapshotView m =
     \<lparr>scols = mcols m, srows = mrows m, sforeground = unpackGhosttyColor (mforeground m),
      sbackground = unpackGhosttyColor (mbackground m), scursor = unpackGhosttyColor (mcursor m),
      scursorX = mcursorX m, scursorY = mcursorY m, scursorVisible = mcursorVisible m,
      scursorBlinking = mcursorBlinking m, scursorStyle = mcursorStyle m, sdirtyRows = mdirtyRows m, srowData = gridView m\<rparr>"

definition bufferView :: "viewport_model \<Rightarrow> js_text" where
  "bufferView m = joinLines (map (\<lambda>r. trimEnd (concat (map (\<lambda>c. orSpace (decodeAt m r c))
     (filter (\<lambda>c. styleAt m r c AND widthMask \<noteq> spacerTail) [0..<mcols m])))) [0..<mrows m])"

lemma snapshot_reads:
  assumes "wfModel m" and "snapshotModel m = (s, m')"
  shows "s = snapshotView m" and "reads m m'"
proof -
  let ?m = "m\<lparr>compatibilitySnapshotBuilds := Suc (compatibilitySnapshotBuilds m)\<rparr>"
  obtain rs m1 where rs: "materializeRows [0..<mrows m] ?m = (rs, m1)" by fastforce
  have rd: "reads m ?m" by (rule reads_count(2) [OF assms(1)])
  note same = view_arrays(2,4) [OF reads_views(2) [OF rd]]
  have "rs = map (rowView m) [0..<mrows m] \<and> reads ?m m1"
    using materializeRows_reads [OF reads_views(1) [OF rd] _ rs] by (simp add: same)
  with rd rs assms(2) show "s = snapshotView m" "reads m m'"
    by (auto simp: snapshotModel_def snapshotView_def gridView_def intro: reads_trans)
qed

lemma bufferRows_reads:
  "wfModel m \<Longrightarrow> \<forall>r\<in>set rs. r < mrows m \<Longrightarrow> bufferRows rs m = (xs, m') \<Longrightarrow>
    xs = map (\<lambda>r. trimEnd (concat (map (\<lambda>c. orSpace (decodeAt m r c))
      (filter (\<lambda>c. styleAt m r c AND widthMask \<noteq> spacerTail) [0..<mcols m])))) rs \<and> reads m m'"
proof (induction rs arbitrary: m xs m')
  case Nil
  then show ?case by (simp add: reads_refl)
next
  case (Cons r rs)
  let ?cs = "filter (\<lambda>c. styleAt m r c AND widthMask \<noteq> spacerTail) [0..<mcols m]"
  obtain ts m1 where t: "textsAt r ?cs m = (ts, m1)" by fastforce
  obtain ys m2 where y: "bufferRows rs m1 = (ys, m2)" by fastforce
  have one: "ts = map (decodeAt m r) ?cs \<and> reads m m1"
    by (rule textsAt_reads [OF Cons.prems(1) _ _ t]) (use Cons.prems in simp_all)
  then have rd: "reads m m1" by simp
  note same = view_arrays [OF reads_views(2) [OF rd]]
  note two = Cons.IH [OF reads_views(1) [OF rd] _ y, unfolded same]
  show ?case
    using one two t y Cons.prems by (auto simp: Let_def comp_def intro: reads_trans)
qed

lemma bufferText_reads:
  assumes "wfModel m" and "bufferText m = (t, m')"
  shows "t = bufferView m" and "reads m m'"
proof -
  obtain rs m1 where rs: "bufferRows [0..<mrows m] m = (rs, m1)" by fastforce
  with bufferRows_reads [OF assms(1) _ rs] assms(2) show "t = bufferView m" "reads m m'"
    by (simp_all add: bufferText_def bufferView_def)
qed

section \<open>An update replaces rows\<close>

lemma length_setSlab: "off + length vs \<le> length xs \<Longrightarrow> length (setSlab off vs xs) = length xs"
  by (simp add: setSlab_def)

lemma setSlab_nth:
  "off + length vs \<le> length xs \<Longrightarrow> i < length xs \<Longrightarrow>
    setSlab off vs xs ! i = (if off \<le> i \<and> i < off + length vs then vs ! (i - off) else xs ! i)"
  by (auto simp: setSlab_def nth_append min_def not_less)

lemma setSlab_snoc:
  "off + length vs < length xs \<Longrightarrow> (setSlab off vs xs)[off + length vs := v] = setSlab off (vs @ [v]) xs"
  by (rule nth_equalityI) (auto simp: length_setSlab setSlab_nth nth_list_update nth_append)

lemma setSlab_Nil [simp]: "off \<le> length xs \<Longrightarrow> setSlab off [] xs = xs"
  by (simp add: setSlab_def)

lemma slab_cell:
  assumes "r < n" "r0 < n" "c < w" "length vs = w" "length xs = n * w"
  shows "setSlab (r0 * w) vs xs ! (r * w + c) = (if r = r0 then vs ! c else xs ! (r * w + c))"
proof -
  have fit: "r0 * w + length vs \<le> length xs"
    using cell_index [OF assms(2), of "w - 1" w] assms(3,4,5) by (cases w) simp_all
  have inside: "r * w + c < length xs" using cell_index [OF assms(1,3)] assms(5) by simp
  have q: "(r * w + c) div w = r" using assms(3) by simp
  have "r0 * w \<le> r * w + c \<and> r * w + c < r0 * w + w \<longleftrightarrow> r = r0"
  proof
    assume b: "r0 * w \<le> r * w + c \<and> r * w + c < r0 * w + w"
    have "(r * w + c) div w = r0"
      by (rule div_nat_eqI) (use b in \<open>simp_all add: mult.commute add.commute\<close>)
    with q show "r = r0" by simp
  qed (use assms(3) in simp)
  then show ?thesis using setSlab_nth [OF fit inside] assms(4) by auto
qed

lemma length_slab: "r0 < n \<Longrightarrow> length vs = w \<Longrightarrow> length xs = n * w \<Longrightarrow> length (setSlab (r0 * w) vs xs) = n * w"
proof -
  assume "r0 < n" "length vs = w" "length xs = n * w"
  moreover from this have "(r0 + 1) * w \<le> n * w" by (intro mult_le_mono1) simp
  ultimately show ?thesis by (simp add: length_setSlab add.commute)
qed

lemma subarray_nth: "i + w \<le> length xs \<Longrightarrow> c < w \<Longrightarrow> subarray i (i + w) xs ! c = xs ! (i + c)"
  by (simp add: subarray_def)

lemma length_subarray: "b \<le> length xs \<Longrightarrow> length (subarray a b xs) = b - a"
  by (simp add: subarray_def)

lemma copyCell_step:
  "copyCell u ps ts c (bytes, offs, lens) = (bytes @ updateBytes u (ps + c), offs[ts + c := of_nat (length bytes)],
     lens[ts + c := nthOr 0 (graphemeLengths u) (ps + c)])"
  by (simp add: copyCell_def Let_def)

lemma fold_copyCell:
  assumes "ts + n \<le> length offs" and "ts + n \<le> length lens"
  shows "fold (copyCell u ps ts) [0..<n] ([], offs, lens) =
    (concat (map (\<lambda>c. updateBytes u (ps + c)) [0..<n]),
     setSlab ts (map (\<lambda>c. of_nat (length (concat (map (\<lambda>d. updateBytes u (ps + d)) [0..<c])))) [0..<n]) offs,
     setSlab ts (map (\<lambda>c. nthOr 0 (graphemeLengths u) (ps + c)) [0..<n]) lens)"
  using assms
proof (induction n)
  case (Suc n)
  let ?f = "\<lambda>c. of_nat (length (concat (map (\<lambda>d. updateBytes u (ps + d)) [0..<c]))) :: 32 word"
    and ?g = "\<lambda>c. nthOr 0 (graphemeLengths u) (ps + c)"
  have "(setSlab ts (map ?f [0..<n]) offs)[ts + n := ?f n] = setSlab ts (map ?f [0..<Suc n]) offs"
    using setSlab_snoc [where off = ts and vs = "map ?f [0..<n]" and xs = offs] Suc.prems by simp
  moreover have "(setSlab ts (map ?g [0..<n]) lens)[ts + n := ?g n] = setSlab ts (map ?g [0..<Suc n]) lens"
    using setSlab_snoc [where off = ts and vs = "map ?g [0..<n]" and xs = lens] Suc.prems by simp
  moreover have "fold (copyCell u ps ts) [0..<Suc n] ([], offs, lens) =
      copyCell u ps ts n (fold (copyCell u ps ts) [0..<n] ([], offs, lens))" by simp
  moreover have "fold (copyCell u ps ts) [0..<n] ([], offs, lens) =
      (concat (map (\<lambda>c. updateBytes u (ps + c)) [0..<n]), setSlab ts (map ?f [0..<n]) offs, setSlab ts (map ?g [0..<n]) lens)"
    by (rule Suc.IH) (use Suc.prems in simp_all)
  ultimately show ?case by (simp add: copyCell_step)
qed simp

lemma ascending_sound:
  "ascending prev n rs \<Longrightarrow> (\<forall>r\<in>set rs. prev < int (unat r) \<and> unat r < n) \<and> sorted_wrt (<) (map unat rs)"
proof (induction prev n rs rule: ascending.induct)
  case (2 prev n r rs)
  then have "(\<forall>s\<in>set rs. int (unat r) < int (unat s) \<and> unat s < n) \<and> sorted_wrt (<) (map unat rs)"
    and "prev < int (unat r)" "unat r < n" by (auto split: if_splits)
  then have "\<forall>s\<in>set rs. prev < int (unat s) \<and> unat s < n \<and> unat r < unat s"
    by (auto simp del: of_nat_unat simp flip: of_nat_less_iff dest: less_trans)
  with \<open>prev < _\<close> \<open>unat r < n\<close> \<open>_ \<and> sorted_wrt _ _\<close> show ?case by simp
qed simp

lemma valid_update:
  assumes v: "validateGhosttyRenderUpdate u"
  shows "i < length (dirtyRows u) \<Longrightarrow> unat (dirtyRows u ! i) < urows u"
    and "distinct (map unat (dirtyRows u))"
    and "k < length (dirtyRows u) * ucols u \<Longrightarrow>
      unat (graphemeOffsets u ! k) + unat (graphemeLengths u ! k) \<le> length (graphemes u)"
    and "length (rowFlags u) = length (dirtyRows u)" "length (graphemeOffsets u) = length (dirtyRows u) * ucols u"
    and "length (graphemeLengths u) = length (dirtyRows u) * ucols u" "length (foregrounds u) = length (dirtyRows u) * ucols u"
    and "length (backgrounds u) = length (dirtyRows u) * ucols u" "length (styles u) = length (dirtyRows u) * ucols u"
    and "full u \<Longrightarrow> length (dirtyRows u) = urows u"
proof -
  note * = v [unfolded validateGhosttyRenderUpdate_def Let_def]
  have asc: "ascending (-1) (urows u) (dirtyRows u)" using * by simp
  show "i < length (dirtyRows u) \<Longrightarrow> unat (dirtyRows u ! i) < urows u" "distinct (map unat (dirtyRows u))"
    using ascending_sound [OF asc] by (auto simp: strict_sorted_iff)
  have "list_all (\<lambda>i. unat (graphemeOffsets u ! i) + unat (graphemeLengths u ! i) \<le> length (graphemes u) \<and>
        isColor (foregrounds u ! i) \<and> isColor (backgrounds u ! i)) [0..<length (dirtyRows u) * ucols u]"
    using * by simp
  then show "k < length (dirtyRows u) * ucols u \<Longrightarrow>
      unat (graphemeOffsets u ! k) + unat (graphemeLengths u ! k) \<le> length (graphemes u)"
    by (simp add: list_all_iff)
  show "length (rowFlags u) = length (dirtyRows u)" "length (graphemeOffsets u) = length (dirtyRows u) * ucols u"
    "length (graphemeLengths u) = length (dirtyRows u) * ucols u" "length (foregrounds u) = length (dirtyRows u) * ucols u"
    "length (backgrounds u) = length (dirtyRows u) * ucols u" "length (styles u) = length (dirtyRows u) * ucols u"
    "full u \<Longrightarrow> length (dirtyRows u) = urows u"
    using * by simp_all
qed

lemma updateBytes_length:
  assumes "validateGhosttyRenderUpdate u" and "k < length (dirtyRows u) * ucols u"
  shows "length (updateBytes u k) = unat (graphemeLengths u ! k)"
  using valid_update(3) [OF assms] valid_update(5,6) [OF assms(1)] assms(2)
  by (simp add: updateBytes_def subarray_def nthOr_nth)

text \<open>What an update says of its \<open>i\<close>-th row.\<close>

definition updateCell :: "render_update \<Rightarrow> nat \<Rightarrow> nat \<Rightarrow> cell" where
  "updateCell u i c = unpackCell (utf8Decode (updateBytes u (i * ucols u + c))) (styles u ! (i * ucols u + c))
     (foregrounds u ! (i * ucols u + c)) (backgrounds u ! (i * ucols u + c))"

definition updateRow :: "render_update \<Rightarrow> nat \<Rightarrow> grid_row" where
  "updateRow u i = rowOf (map (updateCell u i) [0..<ucols u]) (rowFlags u ! i)"

definition rowBytes :: "render_update \<Rightarrow> nat \<Rightarrow> octets list" where
  "rowBytes u i = map (\<lambda>c. updateBytes u (i * ucols u + c)) [0..<ucols u]"

text \<open>What an update and a model say beside the rows.\<close>

definition heading :: "viewport_model \<Rightarrow> int \<times> int \<times> ghostty_snapshot" where
  "heading m = (mframe m, mgeneration m, (snapshotView m)\<lparr>sdirtyRows := [], srowData := []\<rparr>)"

definition updateHeading :: "render_update \<Rightarrow> int \<times> int \<times> ghostty_snapshot" where
  "updateHeading u = (frameId u, generation u,
     \<lparr>scols = ucols u, srows = urows u, sforeground = unpackGhosttyColor (uforeground u),
      sbackground = unpackGhosttyColor (ubackground u), scursor = unpackGhosttyColor (ucursor u),
      scursorX = ucursorX u, scursorY = ucursorY u, scursorVisible = ucursorVisible u,
      scursorBlinking = ucursorBlinking u, scursorStyle = ucursorStyle u, sdirtyRows = [], srowData = []\<rparr>)"

definition appliedRow :: "render_update \<Rightarrow> nat \<Rightarrow> viewport_model \<Rightarrow> viewport_model" where
  "appliedRow u i m =
     (let row = unat (dirtyRows u ! i); w = ucols u; xs = rowBytes u i in
      m\<lparr>mstyles := setSlab (row * w) (subarray (i * w) (i * w + w) (styles u)) (mstyles m),
        mforegrounds := setSlab (row * w) (subarray (i * w) (i * w + w) (foregrounds u)) (mforegrounds m),
        mbackgrounds := setSlab (row * w) (subarray (i * w) (i * w + w) (backgrounds u)) (mbackgrounds m),
        moffsets := setSlab (row * w) (map (\<lambda>c. of_nat (length (concat (take c xs)))) [0..<w]) (moffsets m),
        mlengths := setSlab (row * w) (map (\<lambda>c. graphemeLengths u ! (i * w + c)) [0..<w]) (mlengths m),
        rowGraphemes := (rowGraphemes m)[row := concat xs], mrowFlags := (mrowFlags m)[row := rowFlags u ! i],
        rowVersions := (rowVersions m)[row := nthOr 0 (rowVersions m) row + 1],
        decodedRows := (viewport_model.decodedRows m)[row := None],
        compatibilityRows := (compatibilityRows m)[row := None]\<rparr>)"

lemma applyRow_eq:
  assumes v: "validateGhosttyRenderUpdate u" and i: "i < length (dirtyRows u)"
    and dims: "mcols m = ucols u" "mrows m = urows u" and f: "fits m"
  shows "applyRow u i m = Some (appliedRow u i m)"
proof -
  let ?row = "unat (dirtyRows u ! i)" and ?w = "ucols u"
  have row: "?row < urows u" by (rule valid_update(1) [OF v i])
  have k: "i * ?w + c < length (dirtyRows u) * ?w" if "c < ?w" for c by (rule cell_index [OF i that])
  have rng: "\<not> list_ex (\<lambda>c. unat (nthOr 0 (graphemeOffsets u) (i * ?w + c))
      + unat (nthOr 0 (graphemeLengths u) (i * ?w + c)) > length (graphemes u)) [0..<?w]"
    using k valid_update(3,5,6) [OF v] by (auto simp: list_ex_iff nthOr_nth not_less)
  have "(?row + 1) * ?w \<le> urows u * ?w" using row by (intro mult_le_mono1) simp
  then have fit: "?row * ?w + ?w \<le> urows u * ?w" by simp
  have pre: "map (\<lambda>d. updateBytes u (i * ?w + d)) [0..<c] = take c (rowBytes u i)" if "c \<le> ?w" for c
    using that by (simp add: rowBytes_def take_map)
  have offs: "map (\<lambda>c. of_nat (length (concat (map (\<lambda>d. updateBytes u (i * ?w + d)) [0..<c])))) [0..<?w] =
      map (\<lambda>c. of_nat (length (concat (take c (rowBytes u i)))) :: 32 word) [0..<?w]"
    by (rule map_cong) (simp_all add: pre)
  have lens: "map (\<lambda>c. nthOr 0 (graphemeLengths u) (i * ?w + c)) [0..<?w] = map (\<lambda>c. graphemeLengths u ! (i * ?w + c)) [0..<?w]"
    by (rule map_cong) (simp_all add: nthOr_nth valid_update(6) [OF v] k)
  have loop: "fold (copyCell u (i * ?w) (?row * ?w)) [0..<?w] ([], moffsets m, mlengths m) =
      (concat (rowBytes u i), setSlab (?row * ?w) (map (\<lambda>c. of_nat (length (concat (take c (rowBytes u i))))) [0..<?w]) (moffsets m),
       setSlab (?row * ?w) (map (\<lambda>c. graphemeLengths u ! (i * ?w + c)) [0..<?w]) (mlengths m))"
    using fold_copyCell [of "?row * ?w" ?w "moffsets m" "mlengths m" u "i * ?w"] fit f dims
    unfolding offs lens by (simp add: fits_def rowBytes_def)
  show ?thesis
    using i row dims rng v
    by (simp add: applyRow_def nthOpt_def Let_def loop appliedRow_def nthOr_nth valid_update(4) [OF v])
qed

lemma appliedRow_sel:
  assumes "row = unat (dirtyRows u ! i)" and "w = ucols u"
  shows "mstyles (appliedRow u i m) = setSlab (row * w) (subarray (i * w) (i * w + w) (styles u)) (mstyles m)"
    and "mforegrounds (appliedRow u i m) = setSlab (row * w) (subarray (i * w) (i * w + w) (foregrounds u)) (mforegrounds m)"
    and "mbackgrounds (appliedRow u i m) = setSlab (row * w) (subarray (i * w) (i * w + w) (backgrounds u)) (mbackgrounds m)"
    and "moffsets (appliedRow u i m) =
      setSlab (row * w) (map (\<lambda>c. of_nat (length (concat (take c (rowBytes u i))))) [0..<w]) (moffsets m)"
    and "mlengths (appliedRow u i m) = setSlab (row * w) (map (\<lambda>c. graphemeLengths u ! (i * w + c)) [0..<w]) (mlengths m)"
    and "rowGraphemes (appliedRow u i m) = (rowGraphemes m)[row := concat (rowBytes u i)]"
    and "mrowFlags (appliedRow u i m) = (mrowFlags m)[row := rowFlags u ! i]"
    and "rowVersions (appliedRow u i m) = (rowVersions m)[row := nthOr 0 (rowVersions m) row + 1]"
    and "viewport_model.decodedRows (appliedRow u i m) = (viewport_model.decodedRows m)[row := None]"
    and "compatibilityRows (appliedRow u i m) = (compatibilityRows m)[row := None]"
    and "compatibilityVersions (appliedRow u i m) = compatibilityVersions m"
    and "mcols (appliedRow u i m) = mcols m" "mrows (appliedRow u i m) = mrows m"
    and "heading (appliedRow u i m) = heading m"
    and "mforeground (appliedRow u i m) = mforeground m" "mbackground (appliedRow u i m) = mbackground m"
  unfolding assms by (simp_all add: appliedRow_def Let_def heading_def snapshotView_def)

lemma length_rowBytes [simp]: "length (rowBytes u i) = ucols u"
  by (simp add: rowBytes_def)

lemma decode_bytes: "decodeAt m r c = utf8Decode (subarray off (off + len) bytes)"
  if "off = unat (nthOr 0 (moffsets m) (r * mcols m + c))" "len = unat (nthOr 0 (mlengths m) (r * mcols m + c))"
    "bytes = nthOr [] (rowGraphemes m) r"
  using that by (auto simp: decodeAt_def Let_def subarray_def utf8Decode_def)

lemma appliedRow_view:
  assumes v: "validateGhosttyRenderUpdate u" and i: "i < length (dirtyRows u)"
    and dims: "mcols m = ucols u" "mrows m = urows u" and f: "fits m"
  shows "fits (appliedRow u i m)"
    and "r < mrows m \<Longrightarrow> c < mcols m \<Longrightarrow> r \<noteq> unat (dirtyRows u ! i) \<Longrightarrow>
      decodeAt (appliedRow u i m) r c = decodeAt m r c \<and> cellView (appliedRow u i m) r c = cellView m r c"
    and "c < mcols m \<Longrightarrow> length (concat (rowBytes u i)) < 2 ^ 32 \<Longrightarrow>
      cellView (appliedRow u i m) (unat (dirtyRows u ! i)) c = updateCell u i c"
proof -
  define row w m' where "row = unat (dirtyRows u ! i)" and "w = ucols u" and "m' = appliedRow u i m"
  note sel = appliedRow_sel [OF row_def w_def, of m, folded m'_def]
  have row: "row < mrows m" using valid_update(1) [OF v i] dims by (simp add: row_def)
  have k: "i * w + c < length (dirtyRows u) * w" if "c < w" for c by (rule cell_index [OF i that])
  have "(i + 1) * w \<le> length (dirtyRows u) * w" using i by (intro mult_le_mono1) simp
  then have e: "i * w + w \<le> length (dirtyRows u) * w" by simp
  have cols: "mcols m = w" using dims by (simp add: w_def)
  have slabs: "length (subarray (i * w) (i * w + w) (styles u)) = w" "length (subarray (i * w) (i * w + w) (foregrounds u)) = w"
    "length (subarray (i * w) (i * w + w) (backgrounds u)) = w"
    using e valid_update(7-9) [OF v] by (simp_all add: length_subarray w_def)
  note lens = f [unfolded fits_def cols]
  have fits: "fits m'"
    unfolding fits_def sel cols using lens by (simp add: length_slab [OF row] slabs)
  then show "fits (appliedRow u i m)" by (simp add: m'_def)
  note lens' = fits [unfolded fits_def sel(12,13) cols]
  have cell: "nthOr d (mstyles m') (r * w + c) = (if r = row then styles u ! (i * w + c) else nthOr d (mstyles m) (r * w + c))"
    "nthOr e (mforegrounds m') (r * w + c) = (if r = row then foregrounds u ! (i * w + c) else nthOr e (mforegrounds m) (r * w + c))"
    "nthOr e (mbackgrounds m') (r * w + c) = (if r = row then backgrounds u ! (i * w + c) else nthOr e (mbackgrounds m) (r * w + c))"
    "nthOr e (moffsets m') (r * w + c) =
      (if r = row then of_nat (length (concat (take c (rowBytes u i)))) else nthOr e (moffsets m) (r * w + c))"
    "nthOr e (mlengths m') (r * w + c) = (if r = row then graphemeLengths u ! (i * w + c) else nthOr e (mlengths m) (r * w + c))"
    if rc: "r < mrows m" "c < w" for r c d and e :: "32 word"
    using cell_index [OF rc] lens lens' slabs e valid_update(7-9) [OF v, folded w_def] rc(2) unfolding sel(1-5)
    by (simp_all add: nthOr_nth slab_cell [OF rc(1) row rc(2)] subarray_nth)
  have bytes: "nthOr [] (rowGraphemes m') r = (if r = row then concat (rowBytes u i) else nthOr [] (rowGraphemes m) r)"
    if "r < mrows m" for r using that lens unfolding sel by (simp add: nthOr_nth)
  have keep: "decodeAt m' r c = decodeAt m r c" if "r < mrows m" "c < w" "r \<noteq> row" for r c
    using that by (simp add: decodeAt_def cell bytes sel(12) cols)
  show "r < mrows m \<Longrightarrow> c < mcols m \<Longrightarrow> r \<noteq> unat (dirtyRows u ! i) \<Longrightarrow>
      decodeAt (appliedRow u i m) r c = decodeAt m r c \<and> cellView (appliedRow u i m) r c = cellView m r c"
    using keep by (simp add: cellView_def styleAt_def foregroundAt_def backgroundAt_def cell cols sel(12,15,16)
      flip: m'_def row_def)
  show "cellView (appliedRow u i m) (unat (dirtyRows u ! i)) c = updateCell u i c"
    if c: "c < mcols m" and t: "length (concat (rowBytes u i)) < 2 ^ 32"
  proof -
    have cw: "c < w" using c cols by simp
    let ?xs = "rowBytes u i"
    have x: "?xs ! c = updateBytes u (i * w + c)" using cw by (simp add: rowBytes_def w_def)
    have ub: "length (updateBytes u (i * w + c)) = unat (graphemeLengths u ! (i * w + c))"
      using updateBytes_length [OF v k [OF cw, unfolded w_def]] by (simp add: w_def)
    have b: "length (concat (take c ?xs)) + length (?xs ! c) \<le> length (concat ?xs)"
      by (rule slice_bound) (use cw in \<open>simp add: w_def\<close>)
    have "decodeAt m' row c = utf8Decode (subarray (length (concat (take c ?xs)))
        (length (concat (take c ?xs)) + length (?xs ! c)) (concat ?xs))"
    proof (rule decode_bytes)
      show "length (concat (take c ?xs)) = unat (nthOr 0 (moffsets m') (row * mcols m' + c))"
        using b t by (simp add: sel(12) cols cell [OF row cw] unat_of_nat)
      show "length (?xs ! c) = unat (nthOr 0 (mlengths m') (row * mcols m' + c))"
        using ub by (simp add: sel(12) cols cell [OF row cw] x)
    qed (simp add: bytes row)
    also have "\<dots> = utf8Decode (updateBytes u (i * w + c))"
      using slice_concat [of c ?xs] cw x by (simp add: subarray_def w_def)
    finally show ?thesis
      using cell [OF row cw] row cw
      by (simp add: cellView_def updateCell_def styleAt_def foregroundAt_def backgroundAt_def sel(12,15,16) cols
        flip: m'_def row_def w_def)
  qed
qed

lemma gridView_nth: "r < mrows m \<Longrightarrow> gridView m ! r = rowView m r"
  by (simp add: gridView_def)

lemma appliedRow_grid:
  assumes v: "validateGhosttyRenderUpdate u" and i: "i < length (dirtyRows u)"
    and dims: "mcols m = ucols u" "mrows m = urows u" and w: "wfModel m"
  shows "wfModel (appliedRow u i m)"
    and "length (concat (rowBytes u i)) < 2 ^ 32 \<Longrightarrow>
      gridView (appliedRow u i m) = (gridView m)[unat (dirtyRows u ! i) := updateRow u i]"
proof -
  define row m' where "row = unat (dirtyRows u ! i)" and "m' = appliedRow u i m"
  have f: "fits m" using w by (simp add: wfModel_def)
  note sel = appliedRow_sel [OF row_def refl, of m, folded m'_def]
  note view = appliedRow_view [OF v i dims f, folded m'_def row_def]
  have row: "row < mrows m" using valid_update(1) [OF v i] dims by (simp add: row_def)
  have other: "rowView m' r = rowView m r" if "r < mrows m" "r \<noteq> row" for r
  proof -
    have "map (cellView m' r) [0..<mcols m] = map (cellView m r) [0..<mcols m]"
      using view(2) that by (intro map_cong) auto
    moreover have "nthOr 0 (mrowFlags m') r = nthOr 0 (mrowFlags m) r"
      using that f by (simp add: sel nthOr_nth fits_def)
    ultimately show ?thesis by (simp only: rowView_def sel(12))
  qed
  have "coherent m'"
    using w row view(2) other
    unfolding coherent_def wfModel_def fits_def sel by (simp add: nth_list_update)
  with view(1) show "wfModel (appliedRow u i m)" by (simp add: wfModel_def m'_def)
  show "gridView (appliedRow u i m) = (gridView m)[unat (dirtyRows u ! i) := updateRow u i]"
    if t: "length (concat (rowBytes u i)) < 2 ^ 32"
  proof -
    have "rowView m' row = updateRow u i"
    proof -
      have "map (cellView m' row) [0..<mcols m] = map (updateCell u i) [0..<mcols m]"
        using view(3) t by (intro map_cong) auto
      moreover have "nthOr 0 (mrowFlags m') row = rowFlags u ! i"
        using row f by (simp add: sel nthOr_nth fits_def)
      ultimately show ?thesis by (simp only: rowView_def updateRow_def sel(12) dims(1))
    qed
    with other row have "gridView m' = (gridView m)[row := updateRow u i]"
      by (intro nth_equalityI) (auto simp: gridView_def sel nth_list_update)
    then show ?thesis by (simp add: m'_def row_def)
  qed
qed

text \<open>The abstract effect of an update on a grid: its rows are written at their places.\<close>

definition patchGrid :: "render_update \<Rightarrow> nat list \<Rightarrow> grid_row list \<Rightarrow> grid_row list" where
  "patchGrid u is g = fold (\<lambda>i g. g[unat (dirtyRows u ! i) := updateRow u i]) is g"

lemma applyRows_grid:
  assumes v: "validateGhosttyRenderUpdate u"
  shows "wfModel m \<Longrightarrow> mcols m = ucols u \<Longrightarrow> mrows m = urows u \<Longrightarrow> \<forall>i\<in>set is. i < length (dirtyRows u) \<Longrightarrow>
    \<exists>m'. applyRows u is m = Some m' \<and> wfModel m' \<and> heading m' = heading m \<and>
      ((\<forall>i\<in>set is. length (concat (rowBytes u i)) < 2 ^ 32) \<longrightarrow> gridView m' = patchGrid u is (gridView m))"
proof (induction "is" arbitrary: m)
  case (Cons i "is")
  have i: "i < length (dirtyRows u)" using Cons.prems by simp
  note one = appliedRow_grid [OF v i Cons.prems(2,3,1)]
  have eq: "applyRow u i m = Some (appliedRow u i m)"
    using applyRow_eq [OF v i Cons.prems(2,3)] Cons.prems(1) by (simp add: wfModel_def)
  have dims: "mcols (appliedRow u i m) = ucols u" "mrows (appliedRow u i m) = urows u"
    using Cons.prems(2,3) by (simp_all add: appliedRow_def Let_def)
  have "\<forall>i\<in>set is. i < length (dirtyRows u)" using Cons.prems by simp
  from Cons.IH [OF one(1) dims this] obtain m' where m': "applyRows u is (appliedRow u i m) = Some m'" "wfModel m'"
    "heading m' = heading (appliedRow u i m)"
    "(\<forall>i\<in>set is. length (concat (rowBytes u i)) < 2 ^ 32) \<longrightarrow> gridView m' = patchGrid u is (gridView (appliedRow u i m))"
    by blast
  then show ?case using one(2) eq by (auto simp: appliedRow_sel(14) [OF refl refl] patchGrid_def)
qed (simp add: patchGrid_def)

lemma patchGrid_nth:
  assumes v: "validateGhosttyRenderUpdate u"
  shows "n \<le> length (dirtyRows u) \<Longrightarrow> length g = urows u \<Longrightarrow> length (patchGrid u [0..<n] g) = urows u \<and>
    (\<forall>i<n. patchGrid u [0..<n] g ! unat (dirtyRows u ! i) = updateRow u i) \<and>
    (\<forall>r<urows u. r \<notin> set (map unat (take n (dirtyRows u))) \<longrightarrow> patchGrid u [0..<n] g ! r = g ! r)"
proof (induction n)
  case (Suc n)
  note IH = Suc.IH [OF _ Suc.prems(2)]
  have n: "n < length (dirtyRows u)" using Suc.prems by simp
  have ne: "unat (dirtyRows u ! i) \<noteq> unat (dirtyRows u ! n)" if "i < n" for i
    using valid_update(2) [OF v] n that nth_eq_iff_index_eq [of "map unat (dirtyRows u)" i n] by simp
  have step: "patchGrid u [0..<Suc n] g = (patchGrid u [0..<n] g)[unat (dirtyRows u ! n) := updateRow u n]"
    by (simp add: patchGrid_def)
  have "patchGrid u [0..<Suc n] g ! unat (dirtyRows u ! i) = updateRow u i" if "i < Suc n" for i
    using IH n ne [of i] that valid_update(1) [OF v n] by (cases "i = n") (simp_all add: step del: upt_Suc)
  then show ?case
    using IH n valid_update(1) [OF v n] by (auto simp: step take_Suc_conv_app_nth nth_list_update simp del: upt_Suc)
qed (simp add: patchGrid_def)

lemma allocate_wf: "wfModel (allocate c r m)"
  by (simp add: wfModel_def fits_def coherent_def allocate_def)

lemma newModel_wf: "wfModel newModel"
  by (simp add: wfModel_def fits_def coherent_def newModel_def)

lemma resetModel_wf: "wfModel (resetModel m)"
  by (simp add: resetModel_def allocate_wf)

lemma updateHeader_sel: "mcols (updateHeader u m) = mcols m" "mrowFlags (updateHeader u m) = mrowFlags m"
  by (simp_all add: updateHeader_def)

lemma updateHeader_wf: "wfModel m \<Longrightarrow> mcols m = ucols u \<Longrightarrow> wfModel (updateHeader u m) \<and> gridView (updateHeader u m) = gridView m"
proof -
  assume w: "wfModel m"
  let ?m = "updateHeader u m"
  have f: "fits ?m" using w by (simp add: wfModel_def fits_def updateHeader_def)
  have d: "decodeAt ?m r c = decodeAt m r c" for r c by (simp add: decodeAt_def updateHeader_def)
  have "cellView ?m r c = cellView m r c" if "r < mrows m" "c < mcols m" for r c
    using w cell_index [OF that] unfolding cellView_def d
    by (simp add: styleAt_def foregroundAt_def backgroundAt_def updateHeader_def nthOr_nth wfModel_def fits_def)
  then have "map (cellView ?m r) [0..<mcols m] = map (cellView m r) [0..<mcols m]" if "r < mrows m" for r
    using that by simp
  then have r: "rowView ?m r = rowView m r" if "r < mrows m" for r
    unfolding rowView_def using that by (metis updateHeader_sel)
  then have "gridView ?m = gridView m" by (simp add: gridView_def updateHeader_def)
  moreover have "coherent ?m"
    using w r d by (simp add: wfModel_def coherent_def updateHeader_def)
  ultimately show ?thesis using f by (simp add: wfModel_def)
qed

text \<open>An accepted update is applied completely.\<close>

lemma applyUpdate_grid:
  assumes a: "acceptsUpdate u m" and w: "wfModel m"
  shows "\<exists>m'. applyUpdate u m = Some m' \<and> wfModel m' \<and> mdirtyRows m' = map unat (dirtyRows u) \<and>
    heading m' = updateHeading u \<and>
    ((\<forall>i<length (dirtyRows u). length (concat (rowBytes u i)) < 2 ^ 32) \<longrightarrow>
      gridView m' = patchGrid u [0..<length (dirtyRows u)] (gridView (if full u then allocate (ucols u) (urows u) m else m)))"
proof -
  have v: "validateGhosttyRenderUpdate u" using a by (simp add: acceptsUpdate_def)
  let ?base = "if full u then allocate (ucols u) (urows u) m else m" and ?n = "length (dirtyRows u)"
  have m1: "(if full u \<or> ucols u \<noteq> mcols m \<or> urows u \<noteq> mrows m then allocate (ucols u) (urows u) m else m) = ?base"
    using a by (auto simp: acceptsUpdate_def)
  have dims: "mcols ?base = ucols u" "mrows ?base = urows u" using a by (auto simp: acceptsUpdate_def allocate_def)
  have "wfModel ?base" using w by (simp add: allocate_wf)
  note h = updateHeader_wf [OF this dims(1)]
  have hd: "mcols (updateHeader u ?base) = ucols u" "mrows (updateHeader u ?base) = urows u"
    using dims by (simp_all add: updateHeader_def)
  obtain m2 where m2: "applyRows u [0..<?n] (updateHeader u ?base) = Some m2" "wfModel m2" "heading m2 = heading (updateHeader u ?base)"
    "(\<forall>i\<in>set [0..<?n]. length (concat (rowBytes u i)) < 2 ^ 32) \<longrightarrow>
      gridView m2 = patchGrid u [0..<?n] (gridView (updateHeader u ?base))"
    using applyRows_grid [OF v conjunct1 [OF h] hd, of "[0..<?n]"] by auto
  let ?m = "m2\<lparr>mdirtyRows := map unat (dirtyRows u)\<rparr>"
  have d: "decodeAt ?m = decodeAt m2" "cellView ?m = cellView m2"
    by (intro ext, simp add: cellView_def decodeAt_def styleAt_def foregroundAt_def backgroundAt_def)+
  have rv: "rowView ?m = rowView m2" by (intro ext) (simp add: rowView_def d)
  have "wfModel ?m" using m2(2) by (simp add: wfModel_def fits_def coherent_def d rv)
  moreover have "gridView ?m = gridView m2" by (simp add: gridView_def rv)
  moreover have "heading ?m = heading m2" by (simp add: heading_def snapshotView_def)
  moreover have "heading (updateHeader u ?base) = updateHeading u"
    using hd by (simp add: heading_def snapshotView_def updateHeader_def updateHeading_def)
  moreover have "applyUpdate u m = Some ?m"
    unfolding applyUpdate_def Let_def m1 m2(1) using a by simp
  ultimately show ?thesis using m2(3,4) h by (intro exI [of _ ?m]) auto
qed

section \<open>A packed snapshot is shown as it was\<close>

lemma bit_shifted:
  "bit (push_bit k (1 :: 16 word)) n \<longleftrightarrow> n = k \<and> k < 16"
  "bit (push_bit k (x AND 0b111 :: 16 word)) n \<longleftrightarrow> k \<le> n \<and> n < 16 \<and> n - k < 3 \<and> bit x (n - k)"
  "bit (push_bit k (0b111 :: 16 word)) n \<longleftrightarrow> k \<le> n \<and> n < 16 \<and> n - k < 3"
  "bit (0b11 :: 16 word) n \<longleftrightarrow> n < 2"
  by (auto simp: bit_simps bit_masks)

lemma bit_flags:
  "bit widthMask n \<longleftrightarrow> n < 2" "bit boldBit n \<longleftrightarrow> n = 2" "bit italicBit n \<longleftrightarrow> n = 3" "bit invisibleBit n \<longleftrightarrow> n = 4"
  "bit strikethroughBit n \<longleftrightarrow> n = 5" "bit overlineBit n \<longleftrightarrow> n = 6" "bit selectedBit n \<longleftrightarrow> n = 7"
  "bit (push_bit underlineShift (x AND 0b111 :: 16 word)) n \<longleftrightarrow> 8 \<le> n \<and> n < 11 \<and> bit x (n - 8)"
  "bit underlineMask n \<longleftrightarrow> 8 \<le> n \<and> n < 11"
  unfolding widthMask_def boldBit_def italicBit_def invisibleBit_def strikethroughBit_def overlineBit_def
    selectedBit_def underlineShift_def underlineMask_def bit_shifted
  by auto

lemma bit_if: "bit (if b then x else 0 :: 'a::len word) n \<longleftrightarrow> b \<and> bit x n"
  by simp

lemma bit_packStyle:
  "bit (packGhosttyCellStyle c) n \<longleftrightarrow>
     n < 2 \<and> bit (wide c) n \<or> n = 2 \<and> bold c \<or> n = 3 \<and> italic c \<or> n = 4 \<and> invisible c \<or>
     n = 5 \<and> strikethrough c \<or> n = 6 \<and> overline c \<or> n = 7 \<and> selected c \<or> 8 \<le> n \<and> n < 11 \<and> bit (underline c) (n - 8)"
proof -
  have w: "bit (ucast (wide c) :: 16 word) n \<longleftrightarrow> bit (wide c) n" if "n < 2" using that by (simp add: bit_simps)
  have u: "bit (ucast (underline c) :: 16 word) (n - 8) \<longleftrightarrow> bit (underline c) (n - 8)" if "n < 11"
    using that by (auto simp: bit_simps)
  show ?thesis
    unfolding packGhosttyCellStyle_def bit_or_iff bit_and_iff bit_if bit_flags using w u by blast
qed

lemma flag_tests:
  "s AND boldBit \<noteq> 0 \<longleftrightarrow> bit s 2" "s AND italicBit \<noteq> 0 \<longleftrightarrow> bit s 3" "s AND invisibleBit \<noteq> 0 \<longleftrightarrow> bit s 4"
  "s AND strikethroughBit \<noteq> 0 \<longleftrightarrow> bit s 5" "s AND overlineBit \<noteq> 0 \<longleftrightarrow> bit s 6" "s AND selectedBit \<noteq> 0 \<longleftrightarrow> bit s 7"
  unfolding boldBit_def italicBit_def invisibleBit_def strikethroughBit_def overlineBit_def selectedBit_def
    bit_iff_and_push_bit_not_eq_0 by (rule refl)+

lemma small_bits: "unat w < 2 ^ k \<Longrightarrow> bit w n \<Longrightarrow> n < k" for w :: "8 word"
proof -
  assume s: "unat w < 2 ^ k" "bit w n"
  then have "take_bit k (unat w) = unat w" by (simp add: take_bit_nat_eq_self_iff)
  moreover have "bit (unat w) n" using s(2) bit_imp_le_length [of w n] by (simp add: bit_unsigned_iff)
  ultimately show "n < k" by (metis bit_take_bit_iff)
qed

text \<open>The cells the core produces: a width of two bits, an underline of three, text that decodes to itself.\<close>

definition properCell :: "cell \<Rightarrow> bool" where
  "properCell x \<longleftrightarrow> unat (wide x) < 2 ^ 2 \<and> unat (underline x) < 2 ^ 3 \<and> plainText (ctext x)"

lemma unpack_style:
  assumes "properCell x"
  shows "unpackCell (ctext x) (packGhosttyCellStyle x) (packGhosttyColor (cforeground x)) (packGhosttyColor (cbackground x)) = x"
proof -
  have small: "bit (wide x) n \<Longrightarrow> n < 2" "bit (underline x) n \<Longrightarrow> n < 3" for n
    using assms small_bits unfolding properCell_def by blast+
  have "ucast (packGhosttyCellStyle x AND widthMask) = wide x"
    by (rule bit_eqI) (use small(1) in \<open>auto simp: bit_simps bit_packStyle bit_flags\<close>)
  moreover have "ucast (drop_bit underlineShift (packGhosttyCellStyle x AND underlineMask)) = underline x"
    by (rule bit_eqI) (use small(2) in \<open>auto simp: bit_simps bit_packStyle bit_flags underlineShift_def\<close>)
  ultimately show ?thesis
    by (cases x) (simp add: unpackCell_def unpack_pack flag_tests bit_packStyle)
qed

text \<open>A cell the snapshot does not have is packed as a blank in the default colours.\<close>

definition shownCell :: "ghostty_snapshot \<Rightarrow> cell option \<Rightarrow> cell" where
  "shownCell snap c = (case c of Some x \<Rightarrow> x
     | None \<Rightarrow> \<lparr>ctext = [], wide = 0, cforeground = sforeground snap, cbackground = sbackground snap, bold = False,
         italic = False, invisible = False, strikethrough = False, overline = False, underline = 0, selected = False\<rparr>)"

definition shownRow :: "ghostty_snapshot \<Rightarrow> nat \<Rightarrow> grid_row" where
  "shownRow snap r = rowOf (map (shownCell snap) (rowCells snap r)) (packRowFlags (nthOpt (srowData snap) r))"

definition properSnapshot :: "ghostty_snapshot \<Rightarrow> bool" where
  "properSnapshot snap \<longleftrightarrow> list_all (\<lambda>r. list_all properCell (rcells r)) (srowData snap)"

lemma rowCells_proper: "properSnapshot snap \<Longrightarrow> Some x \<in> set (rowCells snap r) \<Longrightarrow> properCell x"
  by (auto simp: properSnapshot_def rowCells_def nthOpt_def list_all_length split: option.splits if_splits)

lemma unpack_blank: "unpackCell [] 0 (packGhosttyColor f) (packGhosttyColor b) =
    \<lparr>ctext = [], wide = 0, cforeground = f, cbackground = b, bold = False, italic = False, invisible = False,
     strikethrough = False, overline = False, underline = 0, selected = False\<rparr>"
  by (simp add: unpackCell_def unpack_pack)

lemma packed_cell:
  assumes cap: "graphemeCapacity snap (includedRows snap f) < 2 ^ 32" "graphemeCapacity snap (includedRows snap f) \<le> room"
    and p: "properSnapshot snap" and i: "i < length (includedRows snap f)" and c: "c < scols snap"
    and u: "u = packUpdate room snap frame gen f"
  shows "updateBytes u (i * scols snap + c) = cellBytes (rowCells snap (includedRows snap f ! i) ! c)"
    and "updateCell u i c = shownCell snap (rowCells snap (includedRows snap f ! i) ! c)"
proof -
  let ?rs = "includedRows snap f" and ?k = "i * scols snap + c"
  let ?x = "rowCells snap (?rs ! i) ! c" and ?xs = "map cellBytes (flatCells snap ?rs)"
  have k: "?k < length (flatCells snap ?rs)" using cell_index [OF i c] by (simp add: length_flatCells)
  have x: "flatCells snap ?rs ! ?k = ?x" by (rule flatCells_nth [OF i c])
  note fields = packUpdate_fields [OF cap(2), of frame gen, folded u]
  note slice = packed_slice [OF cap(1) k]
  show bytes: "updateBytes u ?k = cellBytes ?x"
    using slice(1,2) slice_concat [of ?k ?xs] k
    by (simp add: updateBytes_def fields nthOr_nth subarray_def x)
  have "utf8Decode (cellBytes ?x) = ctext (shownCell snap ?x)"
  proof (cases ?x)
    case (Some y)
    have "?x \<in> set (rowCells snap (?rs ! i))" using c by (intro nth_mem) simp
    with Some p have "properCell y" using rowCells_proper by metis
    with Some show ?thesis by (simp add: cellBytes_def cellText_def shownCell_def utf8_roundtrip properCell_def)
  qed (simp add: cellBytes_def cellText_def shownCell_def utf8Encode_def utf8Decode_def)
  moreover have "properCell y" if "?x = Some y" for y
    using rowCells_proper [OF p, of y "?rs ! i"] that c by (metis length_rowCells nth_mem)
  ultimately show "updateCell u i c = shownCell snap ?x"
    using k by (cases ?x) (simp_all add: updateCell_def bytes fields x unpack_style unpack_blank shownCell_def)
qed

lemma packed_row:
  assumes cap: "graphemeCapacity snap (includedRows snap f) < 2 ^ 32" "graphemeCapacity snap (includedRows snap f) \<le> room"
    and p: "properSnapshot snap" and i: "i < length (includedRows snap f)"
    and u: "u = packUpdate room snap frame gen f"
  shows "updateRow u i = shownRow snap (includedRows snap f ! i)" and "length (concat (rowBytes u i)) < 2 ^ 32"
proof -
  let ?rs = "includedRows snap f"
  let ?cs = "rowCells snap (?rs ! i)"
  note fields = packUpdate_fields [OF cap(2), of frame gen, folded u]
  note cell = packed_cell [OF cap p i, OF _ u]
  have "map (updateCell u i) [0..<scols snap] = map (shownCell snap) ?cs"
    by (rule nth_equalityI) (simp_all add: cell)
  then show "updateRow u i = shownRow snap (?rs ! i)" using i by (simp only: updateRow_def shownRow_def fields nth_map)
  have bytes: "rowBytes u i = map cellBytes ?cs"
    by (rule nth_equalityI) (simp_all add: rowBytes_def fields cell)
  have "length (concat (map cellBytes (rowCells snap r))) \<le> graphemeCapacity snap [r]" for r
    using graphemeCapacity_bound [of snap "[r]"] by (simp add: flatCells_def)
  also have "graphemeCapacity snap [?rs ! i] \<le> graphemeCapacity snap ?rs"
    unfolding graphemeCapacity_def using i by (simp add: member_le_sum_list)
  finally show "length (concat (rowBytes u i)) < 2 ^ 32" using cap(1) bytes by simp
qed

section \<open>Runs\<close>

datatype viewport_op =
    ApplyUpdate render_update
  | ResetModel
  | ReadText nat nat
  | ReadRow nat bool
  | ReadSnapshot
  | ReadBuffer

text \<open>A refused update changes nothing.\<close>

fun viewport_step :: "viewport_op \<Rightarrow> viewport_model \<Rightarrow> viewport_model" where
  "viewport_step (ApplyUpdate u) m = (case applyUpdate u m of None \<Rightarrow> m | Some m' \<Rightarrow> m')"
| "viewport_step ResetModel m = resetModel m"
| "viewport_step (ReadText r c) m = snd (textAt r c m)"
| "viewport_step (ReadRow r trimRight) m = snd (rowText r trimRight m)"
| "viewport_step ReadSnapshot m = snd (snapshotModel m)"
| "viewport_step ReadBuffer m = snd (bufferText m)"

lemma rowText_state: "snd (rowText r trimRight m) = snd (rowText r True m)"
  by (simp add: rowText_def case_prod_beta Let_def)

lemma viewport_step_wf: "wfModel m \<Longrightarrow> wfModel (viewport_step e m)"
proof (cases e)
  case (ApplyUpdate u)
  assume w: "wfModel m"
  show ?thesis
  proof (cases "acceptsUpdate u m")
    case True
    from applyUpdate_grid [OF this w] ApplyUpdate show ?thesis by auto
  next
    case False
    with w ApplyUpdate show ?thesis by (simp add: applyUpdate_def)
  qed
next
  case (ReadText r c)
  assume w: "wfModel m"
  show ?thesis
  proof (cases "r < mrows m \<and> c < mcols m")
    case True
    with textAt_reads(2) [OF w _ _ prod.collapse [symmetric]] ReadText show ?thesis by (simp add: reads_def)
  next
    case False
    then show ?thesis using w ReadText by (auto simp: textAt_def)
  qed
next
  case (ReadRow r t)
  assume w: "wfModel m"
  show ?thesis
  proof (cases "r < mrows m")
    case True
    with rowText_reads(2) [OF w _ prod.collapse [symmetric]] ReadRow show ?thesis
      by (simp add: reads_def rowText_state [of r t])
  next
    case False
    then show ?thesis using w ReadRow by (simp add: rowText_def)
  qed
next
  case ReadSnapshot
  assume "wfModel m"
  from snapshot_reads(2) [OF this prod.collapse [symmetric]] ReadSnapshot show ?thesis by (simp add: reads_def)
next
  case ReadBuffer
  assume "wfModel m"
  from bufferText_reads(2) [OF this prod.collapse [symmetric]] ReadBuffer show ?thesis by (simp add: reads_def)
qed (simp add: resetModel_wf)

interpretation viewport_machine: event_machine viewport_step wfModel
  by unfold_locales (rule viewport_step_wf)

lemma run_wf: "wfModel (fold viewport_step es newModel)"
  by (rule viewport_machine.run_inv [OF newModel_wf])

section \<open>Properties\<close>

text \<open>
  C8: A read never shows anything stale: after any sequence of updates, resets and reads, the text of a
  cell, the compatibility snapshot and the buffer text that go through the two caches are those decoded
  afresh from the packed arrays, and a position outside the grid reads as the empty text.
\<close>

theorem cached_reads:
  "fst (textAt r c (fold viewport_step es newModel)) =
     (if r < mrows (fold viewport_step es newModel) \<and> c < mcols (fold viewport_step es newModel)
      then decodeAt (fold viewport_step es newModel) r c else []) \<and>
   fst (snapshotModel (fold viewport_step es newModel)) = snapshotView (fold viewport_step es newModel) \<and>
   fst (bufferText (fold viewport_step es newModel)) = bufferView (fold viewport_step es newModel)"
proof -
  define m where "m = fold viewport_step es newModel"
  have w: "wfModel m" unfolding m_def by (rule run_wf)
  have "fst (textAt r c m) = (if r < mrows m \<and> c < mcols m then decodeAt m r c else [])"
    using textAt_reads(1) [OF w _ _ prod.collapse [symmetric]] by (auto simp: textAt_def)
  with snapshot_reads(1) [OF w prod.collapse [symmetric]] bufferText_reads(1) [OF w prod.collapse [symmetric]]
  show ?thesis by (simp add: m_def)
qed

text \<open>The grid after an update: the included rows are the snapshot's, the others stay.\<close>

definition shownGrid :: "ghostty_snapshot \<Rightarrow> bool \<Rightarrow> grid_row list \<Rightarrow> grid_row list" where
  "shownGrid snap f g = map (\<lambda>r. if r \<in> set (includedRows snap f) then shownRow snap r else g ! r) [0..<srows snap]"

lemma included_unat: "wfSnapshot snap \<Longrightarrow> map unat (map of_nat (includedRows snap f) :: 32 word list) = includedRows snap f"
proof -
  assume w: "wfSnapshot snap"
  then have "r < 65536" if "r \<in> set (includedRows snap f)" for r
    using includedRows_ok(2) [OF w, of f] that by (fastforce simp: wfSnapshot_def)
  then show ?thesis by (simp add: unat_row map_idI)
qed

lemma packed_grid:
  assumes cap: "graphemeCapacity snap (includedRows snap f) < 2 ^ 32" "graphemeCapacity snap (includedRows snap f) \<le> room"
    and p: "properSnapshot snap" and w: "wfSnapshot snap" and u: "u = packUpdate room snap frame gen f"
    and v: "validateGhosttyRenderUpdate u" and g: "length g = srows snap"
  shows "patchGrid u [0..<length (dirtyRows u)] g = shownGrid snap f g"
proof -
  let ?rs = "includedRows snap f"
  note fields = packUpdate_fields [OF cap(2), of frame gen, folded u]
  note row = packed_row [OF cap p _ u]
  have d: "map unat (dirtyRows u) = ?rs" unfolding fields by (rule included_unat [OF w])
  have di: "unat (dirtyRows u ! i) = ?rs ! i" if "i < length ?rs" for i using d that by (metis length_map nth_map)
  have n: "length (dirtyRows u) = length ?rs" by (simp add: fields)
  note patch = patchGrid_nth [OF v order_refl, of g, unfolded fields(10), OF g]
  show ?thesis
  proof (rule nth_equalityI)
    show "length (patchGrid u [0..<length (dirtyRows u)] g) = length (shownGrid snap f g)"
      using patch by (simp add: shownGrid_def)
    fix r assume "r < length (patchGrid u [0..<length (dirtyRows u)] g)"
    then have r: "r < srows snap" using patch by simp
    show "patchGrid u [0..<length (dirtyRows u)] g ! r = shownGrid snap f g ! r"
    proof (cases "r \<in> set ?rs")
      case True
      then obtain i where i: "i < length ?rs" "r = ?rs ! i" by (auto simp: in_set_conv_nth)
      with patch row(1) [OF i(1)] di n r True show ?thesis by (simp add: shownGrid_def)
    next
      case False
      with patch r d show ?thesis by (simp add: shownGrid_def)
    qed
  qed
qed

text \<open>
  C5: The viewport shows what was packed: an update the builder made from a snapshot of the core, newer
  than what the viewport has and full where the generation or the grid changed, is applied completely,
  whatever updates and reads came before. The snapshot read back afterwards has the size, colours and
  cursor of the original; the rows that were included are cell for cell those of the original, text,
  style and colours, and the other rows are unchanged.
\<close>

theorem viewport_shows_snapshot:
  assumes "tryBuild now snap frame gen f b = (Some l, b')"
    and "wfSnapshot snap" and "properSnapshot snap" and "graphemeCapacity snap (includedRows snap f) < 2 ^ 32"
    and "1 \<le> frame" and "safe_int frame" and "1 \<le> gen" and "safe_int gen"
    and m: "m = fold viewport_step es newModel"
    and newer: "mgeneration m < gen \<and> f \<or>
      mgeneration m = gen \<and> mframe m < frame \<and> (f \<or> mcols m = scols snap \<and> mrows m = srows snap)"
  shows "\<exists>m'. applyUpdate (leasedUpdate l) m = Some m' \<and>
    fst (snapshotModel m') = snap\<lparr>sdirtyRows := includedRows snap f, srowData := shownGrid snap f (srowData (snapshotView m))\<rparr>"
proof -
  obtain room where room: "graphemeCapacity snap (includedRows snap f) \<le> room" "leasedUpdate l = packUpdate room snap frame gen f"
    using tryBuild_Some(6) [OF assms(1)] by blast
  define u where "u = packUpdate room snap frame gen f"
  note fields = packUpdate_fields [OF room(1), of frame gen, folded u_def]
  have v: "validateGhosttyRenderUpdate u"
    unfolding u_def by (rule packUpdate_valid [OF assms(2,5,6,7,8,4) room(1)])
  have w: "wfModel m" unfolding m by (rule run_wf)
  have acc: "acceptsUpdate u m" using v newer by (auto simp: acceptsUpdate_def fields)
  let ?base = "if full u then allocate (ucols u) (urows u) m else m"
  have all: "\<forall>i<length (dirtyRows u). length (concat (rowBytes u i)) < 2 ^ 32"
    using packed_row(2) [OF assms(4) room(1) assms(3) _ u_def] by (simp add: fields)
  obtain m' where m': "applyUpdate u m = Some m'" "wfModel m'" "mdirtyRows m' = map unat (dirtyRows u)"
    "heading m' = updateHeading u" "gridView m' = patchGrid u [0..<length (dirtyRows u)] (gridView ?base)"
    using applyUpdate_grid [OF acc w] all by blast
  have len: "length (gridView ?base) = srows snap"
    using acc by (auto simp: gridView_def allocate_def fields acceptsUpdate_def)
  have grid: "gridView m' = shownGrid snap f (gridView ?base)"
    unfolding m'(5) by (rule packed_grid [OF assms(4) room(1) assms(3,2) u_def v len])
  have "shownGrid snap f (gridView ?base) = shownGrid snap f (gridView m)"
    by (cases f) (auto simp: shownGrid_def includedRows_def fields)
  moreover have "map unat (dirtyRows u) = includedRows snap f"
    unfolding fields by (rule included_unat [OF assms(2)])
  moreover have "updateHeading u = (frame, gen, snap\<lparr>sdirtyRows := [], srowData := []\<rparr>)"
    by (simp add: updateHeading_def u_def packUpdate_def Let_def unpack_pack)
  ultimately have "snapshotView m' = snap\<lparr>sdirtyRows := includedRows snap f, srowData := shownGrid snap f (gridView m)\<rparr>"
    using m'(3,4) grid by (cases snap) (simp add: heading_def snapshotView_def)
  then show ?thesis
    using m'(1) snapshot_reads(1) [OF m'(2) prod.collapse [symmetric]] room(2)
    by (simp add: u_def snapshotView_def)
qed

theorem viewport_shows_snapshot_witness:
  "\<exists>m'. applyUpdate (leasedUpdate (the (fst (tryBuild 0 sampleSnapshot 1 1 True (newBuilder 1))))) newModel = Some m' \<and>
    fst (snapshotModel m') = sampleSnapshot\<lparr>sdirtyRows := [0], srowData := [shownRow sampleSnapshot 0]\<rparr>"
proof -
  have "properSnapshot sampleSnapshot"
    by (simp add: properSnapshot_def sampleSnapshot_def Let_def properCell_def plainText_def scalar_def)

  moreover have "mgeneration newModel < 1" by (simp add: newModel_def)
  ultimately have "\<exists>m'. applyUpdate (leasedUpdate (the (fst (tryBuild 0 sampleSnapshot 1 1 True (newBuilder 1))))) newModel = Some m' \<and>
      fst (snapshotModel m') = sampleSnapshot\<lparr>sdirtyRows := includedRows sampleSnapshot True,
        srowData := shownGrid sampleSnapshot True (srowData (snapshotView newModel))\<rparr>"
    by (intro viewport_shows_snapshot [where es = "[]", OF sample_lease sampleSnapshot_ok(1) _ sampleSnapshot_ok(2)])
      (simp_all add: safe_int_def maxSafeInteger_def)
  moreover have "includedRows sampleSnapshot True = [0]" by (simp add: includedRows_def sampleSnapshot_def Let_def)
  moreover have "shownGrid sampleSnapshot True g = [shownRow sampleSnapshot 0]" for g
    by (simp add: shownGrid_def includedRows_def) (simp add: sampleSnapshot_def Let_def)
  ultimately show ?thesis by simp
qed

end
