(* ===== verification/TerminalStreamV3.thy ===== *)
theory TerminalStreamV3
  imports Utf8
begin

text \<open>
  The semantic terminal stream: messages and patches (\<open>packages/yaade-rpc/src/terminal-stream-v3.ts\<close>), their
  frames (\<open>terminal-stream-v3-codec.ts\<close>) and the client's projection
  (\<open>packages/yaade-host-client/src/terminal-v3-store.ts\<close>). Numbers are finite, as in JSON. \<open>JSON.stringify\<close>,
  \<open>JSON.parse\<close> and the schema decoders are parameters of the codec. The lemmas show that the projection
  holds what the host held, whatever messages are lost, repeated or reordered, and that frames read back.
\<close>

section \<open>Messages\<close>

record v3_color =
  red :: rat
  green :: rat
  blue :: rat
  alpha :: "rat option"

record v3_cell =
  vtext :: string
  vwide :: rat
  vforeground :: v3_color
  vbackground :: v3_color
  vunderlineColor :: "v3_color option"
  vbold :: bool
  vfaint :: bool
  vitalic :: bool
  vblink :: bool
  vinverse :: bool
  vinvisible :: bool
  vstrikethrough :: bool
  voverline :: bool
  vunderline :: rat
  vhyperlinkId :: "string option"

record v3_row =
  rowId :: string
  vcells :: "v3_cell list"
  vwrapContinuation :: bool
  vwrapsToNext :: bool

record v3_cursor =
  cursorAtX :: rat
  cursorAtY :: rat
  cursorShown :: bool
  cursorBlinks :: bool
  cursorShape :: rat

record v3_modes =
  bracketedPaste :: bool
  applicationCursorKeys :: bool
  focusReporting :: bool
  mouseTracking :: bool
  mouseSgr :: bool
  mouseSgrPixels :: bool
  synchronizedOutput :: bool
  kittyKeyboard :: bool

record v3_scrollback =
  firstRowId :: "string option"
  lastRowId :: "string option"
  scrollbackRows :: rat

record v3_hyperlink =
  linkId :: string
  linkUri :: string

datatype v3_screen = Primary | Alternate

record v3_snapshot =
  vcols :: rat
  vrows :: rat
  activeScreen :: v3_screen
  revision :: rat
  cursor :: v3_cursor
  screenRows :: "v3_row list"
  scrollback :: v3_scrollback
  modes :: v3_modes
  title :: "string option"
  palette :: "v3_color list"
  hyperlinks :: "v3_hyperlink list"

text \<open>An absent field is \<open>None\<close>; a title that is present may still be \<open>null\<close>.\<close>

record v3_patch =
  patchEpoch :: string
  patchBase :: rat
  patchRevision :: rat
  changedRows :: "v3_row list"
  deletedRowIds :: "string list"
  newCursor :: "v3_cursor option"
  newCols :: "rat option"
  newRows :: "rat option"
  newScreen :: "v3_screen option"
  newScrollback :: "v3_scrollback option"
  newModes :: "v3_modes option"
  newTitle :: "string option option"
  newPalette :: "v3_color list option"
  newHyperlinks :: "v3_hyperlink list option"
  fullReset :: "bool option"

record snapshot_message =
  snapshotTerminal :: string
  snapshotOwner :: string
  snapshotEpoch :: string
  snapshotRevision :: rat
  snapshotOf :: v3_snapshot

record patch_message =
  patchTerminal :: string
  patchOwner :: string
  messageEpoch :: string
  baseRevision :: rat
  messageRevision :: rat
  patchOf :: v3_patch

record resync_message =
  resyncTerminal :: string
  resyncEpoch :: string
  latestRevision :: rat

datatype v3_message =
    SnapshotMessage snapshot_message
  | PatchMessage patch_message
  | ResyncMessage resync_message

section \<open>Patches\<close>

definition safeNumber :: "rat \<Rightarrow> bool" where
  "safeNumber q = isSafeInteger (Fin q)"

text \<open>The screen after a patch: deleted rows go, changed ones are replaced where they stand, new ones follow.\<close>

definition patchScreen :: "string list \<Rightarrow> v3_row list \<Rightarrow> v3_row list \<Rightarrow> v3_row list" where
  "patchScreen deleted changed rows =
     (let changedById = jofList (map (\<lambda>r. (rowId r, r)) changed);
          kept = map (\<lambda>r. coalesce (jget changedById (rowId r)) r) (filter (\<lambda>r. rowId r \<notin> set deleted) rows);
          existing = set (map rowId kept)
      in kept @ filter (\<lambda>r. rowId r \<notin> existing) changed)"

definition applyTerminalSemanticPatch :: "v3_snapshot \<Rightarrow> string \<Rightarrow> v3_patch \<Rightarrow> v3_snapshot option" where
  "applyTerminalSemanticPatch s epoch p =
     (if patchEpoch p \<noteq> epoch \<or> patchBase p \<noteq> revision s \<or> \<not> safeNumber (patchBase p) \<or>
         \<not> safeNumber (patchRevision p) \<or> patchRevision p \<le> patchBase p then None
      else Some (s\<lparr>vcols := coalesce (newCols p) (vcols s), vrows := coalesce (newRows p) (vrows s),
        activeScreen := coalesce (newScreen p) (activeScreen s), cursor := coalesce (newCursor p) (cursor s),
        scrollback := coalesce (newScrollback p) (scrollback s), modes := coalesce (newModes p) (modes s),
        title := coalesce (newTitle p) (title s), palette := coalesce (newPalette p) (palette s),
        hyperlinks := coalesce (newHyperlinks p) (hyperlinks s), revision := patchRevision p,
        screenRows := (if fullReset p = Some True then changedRows p
          else patchScreen (deletedRowIds p) (changedRows p) (screenRows s))\<rparr>))"

section \<open>Frames\<close>

definition TERMINAL_STREAM_V3_VERSION :: "8 word" where "TERMINAL_STREAM_V3_VERSION = 3"
definition MAX_TERMINAL_STREAM_V3_BYTES :: nat where "MAX_TERMINAL_STREAM_V3_BYTES = 8 * 1024 * 1024"
definition KIND_SNAPSHOT :: "8 word" where "KIND_SNAPSHOT = 1"
definition KIND_PATCH :: "8 word" where "KIND_PATCH = 2"
definition KIND_RESYNC :: "8 word" where "KIND_RESYNC = 3"

fun kindFor :: "v3_message \<Rightarrow> 8 word" where
  "kindFor (SnapshotMessage _) = KIND_SNAPSHOT"
| "kindFor (PatchMessage _) = KIND_PATCH"
| "kindFor (ResyncMessage _) = KIND_RESYNC"

datatype stream_error = PayloadTooLarge

definition encodeTerminalStreamV3 :: "(v3_message \<Rightarrow> js_text) \<Rightarrow> v3_message \<Rightarrow> stream_error + octets" where
  "encodeTerminalStreamV3 stringify m =
     (let payload = utf8Encode (stringify m) in
      if length payload > MAX_TERMINAL_STREAM_V3_BYTES then Inl PayloadTooLarge
      else Inr ([TERMINAL_STREAM_V3_VERSION, kindFor m] @ be 4 (length payload) @ payload))"

text \<open>A parser and three decoders that throw are functions to options.\<close>

record 'j v3_decoders =
  parseJson :: "js_text \<Rightarrow> 'j option"
  decodeSnapshot :: "'j \<Rightarrow> snapshot_message option"
  decodePatch :: "'j \<Rightarrow> patch_message option"
  decodeResync :: "'j \<Rightarrow> resync_message option"

definition decodeTerminalStreamV3 :: "'j v3_decoders \<Rightarrow> octets \<Rightarrow> v3_message option" where
  "decodeTerminalStreamV3 D bytes =
     (if length bytes < 6 \<or> bytes ! 0 \<noteq> TERMINAL_STREAM_V3_VERSION then None
      else (let size = getAt 4 2 bytes in
        if size > MAX_TERMINAL_STREAM_V3_BYTES \<or> length bytes \<noteq> size + 6 then None
        else (case parseJson D (utf8Decode (drop 6 bytes)) of
          None \<Rightarrow> None
        | Some raw \<Rightarrow>
            if bytes ! 1 = KIND_SNAPSHOT then map_option SnapshotMessage (decodeSnapshot D raw)
            else if bytes ! 1 = KIND_PATCH then map_option PatchMessage (decodePatch D raw)
            else if bytes ! 1 = KIND_RESYNC then map_option ResyncMessage (decodeResync D raw)
            else None)))"

section \<open>The projection\<close>

datatype apply_result = Applied | Ignored | ResyncRequired

text \<open>\<open>told\<close> is what each listener has been called with.\<close>

record v3_store =
  storeTerminal :: "string option"
  storeOwner :: "string option"
  storeEpoch :: "string option"
  storeRevision :: rat
  current :: "v3_snapshot option"
  told :: "(v3_snapshot option \<times> apply_result) list"

definition newV3Store :: v3_store where
  "newV3Store = \<lparr>storeTerminal = None, storeOwner = None, storeEpoch = None, storeRevision = 0, current = None, told = []\<rparr>"

definition notify :: "apply_result \<Rightarrow> v3_store \<Rightarrow> v3_store" where
  "notify r st = st\<lparr>told := told st @ [(current st, r)]\<rparr>"

definition applySnapshotMessage :: "snapshot_message \<Rightarrow> v3_store \<Rightarrow> apply_result \<times> v3_store" where
  "applySnapshotMessage m st =
     (if storeTerminal st \<noteq> None \<and> storeTerminal st \<noteq> Some (snapshotTerminal m) then (Ignored, st)
      else if storeOwner st = Some (snapshotOwner m) \<and> storeEpoch st = Some (snapshotEpoch m) \<and>
              snapshotRevision m \<le> storeRevision st then (Ignored, st)
      else if revision (snapshotOf m) \<noteq> snapshotRevision m \<or> \<not> safeNumber (snapshotRevision m) \<or> snapshotRevision m < 0
        then (ResyncRequired, st)
      else (Applied, notify Applied (st\<lparr>storeTerminal := Some (snapshotTerminal m), storeOwner := Some (snapshotOwner m),
        storeEpoch := Some (snapshotEpoch m), storeRevision := snapshotRevision m, current := Some (snapshotOf m)\<rparr>)))"

definition applyPatchMessage :: "patch_message \<Rightarrow> v3_store \<Rightarrow> apply_result \<times> v3_store" where
  "applyPatchMessage m st =
     (if storeTerminal st \<noteq> Some (patchTerminal m) \<or> storeOwner st \<noteq> Some (patchOwner m) \<or>
         storeEpoch st \<noteq> Some (messageEpoch m) \<or> current st = None then (ResyncRequired, st)
      else if messageRevision m \<noteq> patchRevision (patchOf m) \<or> \<not> safeNumber (messageRevision m) then (ResyncRequired, st)
      else if messageRevision m \<le> storeRevision st then (Ignored, st)
      else if baseRevision m \<noteq> storeRevision st then (ResyncRequired, st)
      else (case applyTerminalSemanticPatch (the (current st)) (messageEpoch m) (patchOf m) of
              None \<Rightarrow> (ResyncRequired, st)
            | Some next \<Rightarrow> (Applied, notify Applied (st\<lparr>current := Some next, storeRevision := messageRevision m\<rparr>))))"

definition resetV3 :: "v3_store \<Rightarrow> v3_store" where
  "resetV3 st = notify Ignored (st\<lparr>storeTerminal := None, storeOwner := None, storeEpoch := None, storeRevision := 0, current := None\<rparr>)"

section \<open>What the projection shows\<close>

text \<open>The host's state of a terminal, by owner, epoch and revision; a message of the host tells of it truthfully.\<close>

type_synonym v3_host = "string \<Rightarrow> string \<Rightarrow> string \<Rightarrow> rat \<Rightarrow> v3_snapshot"

fun genuine :: "v3_host \<Rightarrow> v3_message \<Rightarrow> bool" where
  "genuine host (SnapshotMessage m) \<longleftrightarrow>
     snapshotOf m = host (snapshotTerminal m) (snapshotOwner m) (snapshotEpoch m) (snapshotRevision m)"
| "genuine host (PatchMessage m) \<longleftrightarrow>
     applyTerminalSemanticPatch (host (patchTerminal m) (patchOwner m) (messageEpoch m) (patchBase (patchOf m)))
       (messageEpoch m) (patchOf m) =
     Some (host (patchTerminal m) (patchOwner m) (messageEpoch m) (patchRevision (patchOf m)))"
| "genuine host (ResyncMessage m) \<longleftrightarrow> True"

datatype store_op = DeliverV3 v3_message | ResetV3

text \<open>A resync request is for the code that asks for a new snapshot; the projection does not see it.\<close>

fun v3_step :: "store_op \<Rightarrow> v3_store \<Rightarrow> v3_store" where
  "v3_step (DeliverV3 (SnapshotMessage m)) st = snd (applySnapshotMessage m st)"
| "v3_step (DeliverV3 (PatchMessage m)) st = snd (applyPatchMessage m st)"
| "v3_step (DeliverV3 (ResyncMessage m)) st = st"
| "v3_step ResetV3 st = resetV3 st"

fun genuineOp :: "v3_host \<Rightarrow> store_op \<Rightarrow> bool" where
  "genuineOp host (DeliverV3 m) = genuine host m"
| "genuineOp host ResetV3 = True"

text \<open>A snapshot shown is the host's at the revision the projection names, and so was every one told.\<close>

definition mirrors :: "v3_host \<Rightarrow> v3_store \<Rightarrow> bool" where
  "mirrors host st \<longleftrightarrow>
     (case current st of
        None \<Rightarrow> storeTerminal st = None \<and> storeOwner st = None \<and> storeEpoch st = None \<and> storeRevision st = 0
      | Some s \<Rightarrow> storeTerminal st \<noteq> None \<and> storeOwner st \<noteq> None \<and> storeEpoch st \<noteq> None \<and> revision s = storeRevision st \<and>
          s = host (the (storeTerminal st)) (the (storeOwner st)) (the (storeEpoch st)) (storeRevision st)) \<and>
     list_all (\<lambda>(s, _). case s of None \<Rightarrow> True | Some s \<Rightarrow> \<exists>t own e. s = host t own e (revision s)) (told st)"

lemma applyPatch_Some:
  assumes "applyTerminalSemanticPatch s e p = Some s'"
  shows "patchEpoch p = e" "patchBase p = revision s" "patchRevision p > revision s" "revision s' = patchRevision p"
    "safeNumber (patchRevision p)"
  using assms by (auto simp: applyTerminalSemanticPatch_def split: if_splits)

lemma snapshot_mirrors:
  assumes "mirrors host st" and "genuine host (SnapshotMessage m)"
  shows "mirrors host (snd (applySnapshotMessage m st))"
proof (cases "fst (applySnapshotMessage m st) = Applied")
  case True
  then have "revision (snapshotOf m) = snapshotRevision m" "snd (applySnapshotMessage m st) =
      notify Applied (st\<lparr>storeTerminal := Some (snapshotTerminal m), storeOwner := Some (snapshotOwner m),
        storeEpoch := Some (snapshotEpoch m), storeRevision := snapshotRevision m, current := Some (snapshotOf m)\<rparr>)"
    by (auto simp: applySnapshotMessage_def split: if_splits)
  with assms show ?thesis by (auto simp: mirrors_def notify_def)
next
  case False
  then have "snd (applySnapshotMessage m st) = st" by (auto simp: applySnapshotMessage_def split: if_splits)
  with assms show ?thesis by simp
qed

lemma patch_mirrors:
  assumes st: "mirrors host st" and g: "genuine host (PatchMessage m)"
  shows "mirrors host (snd (applyPatchMessage m st))"
proof (cases "fst (applyPatchMessage m st) = Applied")
  case True
  then obtain s s' where s: "current st = Some s" "applyTerminalSemanticPatch s (messageEpoch m) (patchOf m) = Some s'"
    and addr: "storeTerminal st = Some (patchTerminal m)" "storeOwner st = Some (patchOwner m)"
      "storeEpoch st = Some (messageEpoch m)"
    and rev: "messageRevision m = patchRevision (patchOf m)" "baseRevision m = storeRevision st"
    and st': "snd (applyPatchMessage m st) = notify Applied (st\<lparr>current := Some s', storeRevision := messageRevision m\<rparr>)"
    by (auto simp: applyPatchMessage_def split: if_splits option.splits)
  note p = applyPatch_Some [OF s(2)]
  have "s = host (patchTerminal m) (patchOwner m) (messageEpoch m) (patchBase (patchOf m))"
    unfolding p(2) using st s(1) addr unfolding mirrors_def by simp metis
  with g s(2) have "s' = host (patchTerminal m) (patchOwner m) (messageEpoch m) (patchRevision (patchOf m))" by simp
  with st s(1) addr rev p(4) show ?thesis unfolding st' by (auto simp: mirrors_def notify_def)
next
  case False
  then have "snd (applyPatchMessage m st) = st"
    by (auto simp: applyPatchMessage_def split: option.splits)
  with st show ?thesis by simp
qed

lemma v3_step_mirrors: "mirrors host st \<Longrightarrow> genuineOp host e \<Longrightarrow> mirrors host (v3_step e st)"
proof (cases e)
  case (DeliverV3 m)
  assume "mirrors host st" "genuineOp host e"
  with DeliverV3 show ?thesis by (cases m) (simp_all add: snapshot_mirrors patch_mirrors del: genuine.simps)
qed (auto simp: resetV3_def mirrors_def notify_def split: option.splits)

text \<open>A step by an operation that is not the host's is none, so the machine of the prelude applies.\<close>

definition genuine_step :: "v3_host \<Rightarrow> store_op \<Rightarrow> v3_store \<Rightarrow> v3_store" where
  "genuine_step host e st = (if genuineOp host e then v3_step e st else st)"

interpretation v3_machine: event_machine "genuine_step host" "mirrors host" for host
  by unfold_locales (simp add: genuine_step_def v3_step_mirrors)

lemma fold_genuine: "list_all (genuineOp host) es \<Longrightarrow> fold (genuine_step host) es st = fold v3_step es st"
  by (induction es arbitrary: st) (auto simp: genuine_step_def)

lemma newV3Store_mirrors: "mirrors host newV3Store"
  by (simp add: mirrors_def newV3Store_def)

lemma run_mirrors: "list_all (genuineOp host) es \<Longrightarrow> mirrors host (fold v3_step es newV3Store)"
  using v3_machine.run_inv [OF newV3Store_mirrors, of host es] by (simp add: fold_genuine)

section \<open>Recovery\<close>

text \<open>Patches that continue a revision one after the other.\<close>

fun consecutive :: "string \<Rightarrow> string \<Rightarrow> string \<Rightarrow> rat \<Rightarrow> patch_message list \<Rightarrow> bool" where
  "consecutive t own e r [] = True"
| "consecutive t own e r (m # ms) =
     (patchTerminal m = t \<and> patchOwner m = own \<and> messageEpoch m = e \<and> patchEpoch (patchOf m) = e \<and>
      baseRevision m = r \<and> patchBase (patchOf m) = r \<and> messageRevision m = patchRevision (patchOf m) \<and>
      consecutive t own e (messageRevision m) ms)"

definition lastRevision :: "rat \<Rightarrow> patch_message list \<Rightarrow> rat" where
  "lastRevision r ms = (if ms = [] then r else messageRevision (last ms))"

definition showsAt :: "v3_host \<Rightarrow> string \<Rightarrow> string \<Rightarrow> string \<Rightarrow> rat \<Rightarrow> v3_store \<Rightarrow> bool" where
  "showsAt host t own e r st \<longleftrightarrow> storeTerminal st = Some t \<and> storeOwner st = Some own \<and> storeEpoch st = Some e \<and>
     storeRevision st = r \<and> current st = Some (host t own e r)"

lemma patch_follows:
  assumes st: "showsAt host t own e r st" and c: "consecutive t own e r (m # ms)" and g: "genuine host (PatchMessage m)"
  shows "fst (applyPatchMessage m st) = Applied"
    and "showsAt host t own e (messageRevision m) (snd (applyPatchMessage m st))"
proof -
  have a: "applyTerminalSemanticPatch (host t own e r) e (patchOf m) = Some (host t own e (messageRevision m))"
    using c g by simp
  note p = applyPatch_Some [OF a]
  have "revision (host t own e r) = r" using p(2) c by simp
  then have r: "\<not> messageRevision m \<le> storeRevision st" "safeNumber (messageRevision m)" using p c st by (simp_all add: showsAt_def)
  show "fst (applyPatchMessage m st) = Applied" "showsAt host t own e (messageRevision m) (snd (applyPatchMessage m st))"
    using st c a r by (simp_all add: applyPatchMessage_def showsAt_def notify_def)
qed

fun deliverAll :: "patch_message list \<Rightarrow> v3_store \<Rightarrow> apply_result list \<times> v3_store" where
  "deliverAll [] st = ([], st)"
| "deliverAll (m # ms) st = (let (x, st1) = applyPatchMessage m st; (xs, st2) = deliverAll ms st1 in (x # xs, st2))"

lemma patches_follow:
  assumes "showsAt host t own e r st" and "consecutive t own e r ms" and "list_all (\<lambda>m. genuine host (PatchMessage m)) ms"
  shows "fst (deliverAll ms st) = replicate (length ms) Applied \<and>
    showsAt host t own e (lastRevision r ms) (snd (deliverAll ms st))"
  using assms
proof (induction ms arbitrary: r st)
  case Nil
  then show ?case by (simp add: lastRevision_def)
next
  case (Cons m ms)
  have g: "genuine host (PatchMessage m)" "list_all (\<lambda>m. genuine host (PatchMessage m)) ms"
    using Cons.prems(3) by (simp_all del: genuine.simps)
  have c: "consecutive t own e (messageRevision m) ms" using Cons.prems(2) consecutive.simps(2) by blast
  note step = patch_follows [OF Cons.prems(1,2) g(1)]
  from Cons.IH [OF step(2) c g(2)] step(1) show ?case
    by (cases "ms = []") (simp_all add: lastRevision_def case_prod_beta Let_def)
qed

lemma snapshot_applied:
  assumes "storeTerminal st = None \<or> storeTerminal st = Some (snapshotTerminal m)"
    and "storeOwner st \<noteq> Some (snapshotOwner m) \<or> storeEpoch st \<noteq> Some (snapshotEpoch m) \<or> storeRevision st < snapshotRevision m"
    and "revision (snapshotOf m) = snapshotRevision m" "safeNumber (snapshotRevision m)" "0 \<le> snapshotRevision m"
    and "genuine host (SnapshotMessage m)"
  shows "fst (applySnapshotMessage m st) = Applied"
    and "showsAt host (snapshotTerminal m) (snapshotOwner m) (snapshotEpoch m) (snapshotRevision m) (snd (applySnapshotMessage m st))"
  using assms by (auto simp: applySnapshotMessage_def showsAt_def notify_def)

section \<open>Frames read back\<close>

lemma frame_parts:
  "length payload \<le> MAX_TERMINAL_STREAM_V3_BYTES \<Longrightarrow>
    getAt 4 2 ([v, k] @ be 4 (length payload) @ payload) = length payload \<and> drop 6 ([v, k] @ be 4 (length payload) @ payload) = payload"
proof -
  assume "length payload \<le> MAX_TERMINAL_STREAM_V3_BYTES"
  then have "length payload < 256 ^ 4" by (simp add: MAX_TERMINAL_STREAM_V3_BYTES_def)
  then show ?thesis by (simp add: getAt_def ofBe_be del: be.simps)
qed

section \<open>Diffs\<close>

text \<open>The rows of a screen that another lacks, and the ids that went.\<close>

definition changedBetween :: "v3_row list \<Rightarrow> v3_row list \<Rightarrow> v3_row list" where
  "changedBetween old new = filter (\<lambda>r. r \<notin> set old) new"

definition deletedBetween :: "v3_row list \<Rightarrow> v3_row list \<Rightarrow> string list" where
  "deletedBetween old new = filter (\<lambda>i. i \<notin> set (map rowId new)) (map rowId old)"

text \<open>The rows that stay keep their order, and the new ones follow them.\<close>

definition appendsOnly :: "v3_row list \<Rightarrow> v3_row list \<Rightarrow> bool" where
  "appendsOnly old new \<longleftrightarrow>
     map rowId new = filter (\<lambda>i. i \<in> set (map rowId new)) (map rowId old) @ filter (\<lambda>i. i \<notin> set (map rowId old)) (map rowId new)"

lemma map_of_rows: "distinct (map rowId rs) \<Longrightarrow> map_of (map (\<lambda>r. (rowId r, r)) rs) i = Some r \<longleftrightarrow> r \<in> set rs \<and> rowId r = i"
  by (subst map_of_distinct_in) (auto simp: comp_def)

lemma same_row: "distinct (map rowId rs) \<Longrightarrow> x \<in> set rs \<Longrightarrow> y \<in> set rs \<Longrightarrow> rowId x = rowId y \<Longrightarrow> x = y"
  by (auto simp: distinct_map inj_on_def)

lemma patchScreen_diff:
  assumes d: "distinct (map rowId old)" "distinct (map rowId new)" and a: "appendsOnly old new"
  shows "patchScreen (deletedBetween old new) (changedBetween old new) old = new"
proof -
  let ?changed = "changedBetween old new" and ?gone = "deletedBetween old new"
  let ?byId = "jofList (map (\<lambda>r. (rowId r, r)) ?changed)"
  define look where "look i = the (map_of (map (\<lambda>r. (rowId r, r)) new) i)" for i
  have look: "look (rowId r) = r" if "r \<in> set new" for r
    using map_of_rows [OF d(2), of "rowId r" r] that by (simp add: look_def)
  have dc: "distinct (map rowId ?changed)" using d(2) by (simp add: changedBetween_def distinct_map_filter)
  have byId: "jget ?byId i = Some r \<longleftrightarrow> r \<in> set ?changed \<and> rowId r = i" for i r
    using map_of_rows [OF dc] dc by (simp add: jget_jofList_distinct comp_def)
  have kept: "filter (\<lambda>r. rowId r \<notin> set ?gone) old = filter (\<lambda>r. rowId r \<in> set (map rowId new)) old"
    by (rule filter_cong) (auto simp: deletedBetween_def)
  have found: "coalesce (jget ?byId (rowId r)) r = look (rowId r)" if r: "r \<in> set old" "rowId r \<in> set (map rowId new)" for r
  proof -
    obtain n where n: "n \<in> set new" "rowId n = rowId r" using r(2) by force
    show ?thesis
    proof (cases "n \<in> set old")
      case True
      then have nr: "n = r" by (rule same_row [OF d(1) _ r(1) n(2)])
      have "x \<notin> set ?changed" if "rowId x = rowId r" for x
      proof
        assume "x \<in> set ?changed"
        then have "x \<in> set new" "x \<notin> set old" by (simp_all add: changedBetween_def)
        moreover have "x = n" by (rule same_row [OF d(2) \<open>x \<in> set new\<close> n(1)]) (simp only: that n(2))
        ultimately show False using True by simp
      qed
      then have "jget ?byId (rowId r) \<noteq> Some x" for x unfolding byId by blast
      then have "jget ?byId (rowId r) = None" by (cases "jget ?byId (rowId r)") blast+
      then show ?thesis using look [OF n(1)] unfolding nr by (simp only: coalesce_simps)
    next
      case False
      then have "jget ?byId (rowId r) = Some n" unfolding byId using n by (simp add: changedBetween_def)
      then show ?thesis using look [OF n(1)] unfolding n(2) by (simp only: coalesce_simps)
    qed
  qed
  have rows: "map (\<lambda>r. coalesce (jget ?byId (rowId r)) r) (filter (\<lambda>r. rowId r \<in> set (map rowId new)) old) =
      map look (filter (\<lambda>i. i \<in> set (map rowId new)) (map rowId old))"
    using found by (simp add: filter_map comp_def)
  have ids: "map rowId (map look (filter (\<lambda>i. i \<in> set (map rowId new)) (map rowId old))) =
      filter (\<lambda>i. i \<in> set (map rowId new)) (map rowId old)"
    unfolding map_map by (rule map_idI) (use look in auto)
  have fresh: "filter (\<lambda>r. rowId r \<notin> set (filter (\<lambda>i. i \<in> set (map rowId new)) (map rowId old))) ?changed =
      map look (filter (\<lambda>i. i \<notin> set (map rowId old)) (map rowId new))"
  proof -
    have "filter (\<lambda>r. rowId r \<notin> set (filter (\<lambda>i. i \<in> set (map rowId new)) (map rowId old))) ?changed =
        filter (\<lambda>r. rowId r \<notin> set (map rowId old)) new"
      unfolding changedBetween_def filter_filter by (rule filter_cong) auto
    also have "\<dots> = map look (map rowId (filter (\<lambda>r. rowId r \<notin> set (map rowId old)) new))"
      unfolding map_map by (rule map_idI [symmetric]) (use look in auto)
    finally show ?thesis by (simp add: filter_map comp_def)
  qed
  have "patchScreen ?gone ?changed old = map look (map rowId new)"
    unfolding patchScreen_def Let_def kept rows ids fresh using a by (metis appendsOnly_def map_append)
  also have "\<dots> = new" unfolding map_map by (rule map_idI) (use look in auto)
  finally show ?thesis .
qed

section \<open>Properties\<close>

text \<open>
  C1: The client's projection never shows a state the host was not in: whatever messages of the host are
  lost, repeated, reordered or mixed between epochs and owners, and however often the projection is reset,
  the snapshot it holds is the host's at exactly the terminal, owner, epoch and revision it names, it holds
  none before the first snapshot, and its listeners were only ever told such snapshots.
\<close>

theorem v3_mirror:
  assumes "list_all (genuineOp host) es"
  shows "mirrors host (fold v3_step es newV3Store)"
  by (rule run_mirrors [OF assms])

text \<open>
  C2: A projection that has refused messages recovers: whatever it holds, a newer snapshot of the host of the
  same terminal is applied, every one of the patches that continue it in order is applied after it, and
  the projection then shows the host's state at the last revision.
\<close>

theorem v3_recovers:
  assumes "storeTerminal st = None \<or> storeTerminal st = Some (snapshotTerminal m)"
    and "storeOwner st \<noteq> Some (snapshotOwner m) \<or> storeEpoch st \<noteq> Some (snapshotEpoch m) \<or> storeRevision st < snapshotRevision m"
    and "revision (snapshotOf m) = snapshotRevision m" "safeNumber (snapshotRevision m)" "0 \<le> snapshotRevision m"
    and "genuine host (SnapshotMessage m)" and "list_all (\<lambda>m. genuine host (PatchMessage m)) ms"
    and "consecutive (snapshotTerminal m) (snapshotOwner m) (snapshotEpoch m) (snapshotRevision m) ms"
  shows "fst (applySnapshotMessage m st) = Applied \<and>
    fst (deliverAll ms (snd (applySnapshotMessage m st))) = replicate (length ms) Applied \<and>
    showsAt host (snapshotTerminal m) (snapshotOwner m) (snapshotEpoch m) (lastRevision (snapshotRevision m) ms)
      (snd (deliverAll ms (snd (applySnapshotMessage m st))))"
  using snapshot_applied [OF assms(1-6)] patches_follow [OF snapshot_applied(2) [OF assms(1-6)] assms(8,7)] by simp

text \<open>
  A diff rebuilds the screen: when the rows that stay keep their order and the new ones follow them,
  the patch of the rows that are new or different and of the ids that went turns the old screen into the
  new one, row for row.
\<close>

theorem patch_rebuilds:
  assumes "distinct (map rowId (screenRows s))" and "distinct (map rowId new)" and "appendsOnly (screenRows s) new"
    and "fullReset p = None" and "changedRows p = changedBetween (screenRows s) new"
    and "deletedRowIds p = deletedBetween (screenRows s) new"
    and "applyTerminalSemanticPatch s e p = Some s'"
  shows "screenRows s' = new"
  using assms(4-7) patchScreen_diff [OF assms(1-3)] by (auto simp: applyTerminalSemanticPatch_def split: if_splits)

text \<open>
  A frame reads back: what is encoded within the size limit is decoded to the message it was made of,
  where \<open>JSON.stringify\<close> yields well-formed text and the parser and the schema invert it.
\<close>

theorem v3_frame_roundtrip:
  assumes "encodeTerminalStreamV3 stringify m = Inr frame"
    and "plainText (stringify m)" and "parseJson D (stringify m) = Some j"
    and "case m of SnapshotMessage x \<Rightarrow> decodeSnapshot D j = Some x | PatchMessage x \<Rightarrow> decodePatch D j = Some x
      | ResyncMessage x \<Rightarrow> decodeResync D j = Some x"
  shows "decodeTerminalStreamV3 D frame = Some m"
proof -
  define payload where "payload = utf8Encode (stringify m)"
  have len: "length payload \<le> MAX_TERMINAL_STREAM_V3_BYTES" and frame: "frame = [TERMINAL_STREAM_V3_VERSION, kindFor m] @ be 4 (length payload) @ payload"
    using assms(1) by (auto simp: encodeTerminalStreamV3_def payload_def Let_def split: if_splits)
  have kind: "frame ! Suc 0 = kindFor m" "frame ! 0 = TERMINAL_STREAM_V3_VERSION" "length frame = length payload + 6"
    by (simp_all add: frame del: be.simps)
  have parts: "getAt 4 2 frame = length payload" "drop 6 frame = payload" using frame_parts [OF len] by (simp_all add: frame)
  have decoded: "utf8Decode payload = stringify m" unfolding payload_def by (rule utf8_roundtrip [OF assms(2)])
  show ?thesis
    using assms(3,4) len
    by (cases m) (simp_all add: decodeTerminalStreamV3_def Let_def kind parts decoded KIND_SNAPSHOT_def KIND_PATCH_def KIND_RESYNC_def)
qed

text \<open>A terminal with one row, its host, a snapshot at revision 1 and the patch to revision 2.\<close>

definition sampleScreen :: "rat \<Rightarrow> v3_snapshot" where
  "sampleScreen r =
     \<lparr>vcols = 80, vrows = 24, activeScreen = Primary, revision = r,
      cursor = \<lparr>cursorAtX = 0, cursorAtY = 0, cursorShown = True, cursorBlinks = False, cursorShape = 1\<rparr>,
      screenRows = [\<lparr>rowId = ''row'', vcells = [], vwrapContinuation = False, vwrapsToNext = False\<rparr>],
      scrollback = \<lparr>firstRowId = None, lastRowId = None, scrollbackRows = 0\<rparr>,
      modes = \<lparr>bracketedPaste = False, applicationCursorKeys = False, focusReporting = False, mouseTracking = False,
        mouseSgr = False, mouseSgrPixels = False, synchronizedOutput = False, kittyKeyboard = False\<rparr>,
      title = None, palette = [], hyperlinks = []\<rparr>"

definition sampleHost :: v3_host where
  "sampleHost t own e r = sampleScreen r"

definition sampleMessage :: snapshot_message where
  "sampleMessage = \<lparr>snapshotTerminal = ''t'', snapshotOwner = ''o'', snapshotEpoch = ''e'', snapshotRevision = 1,
     snapshotOf = sampleScreen 1\<rparr>"

definition samplePatch :: patch_message where
  "samplePatch = \<lparr>patchTerminal = ''t'', patchOwner = ''o'', messageEpoch = ''e'', baseRevision = 1, messageRevision = 2,
     patchOf = \<lparr>patchEpoch = ''e'', patchBase = 1, patchRevision = 2, changedRows = [], deletedRowIds = [],
       newCursor = None, newCols = None, newRows = None, newScreen = None, newScrollback = None, newModes = None,
       newTitle = None, newPalette = None, newHyperlinks = None, fullReset = None\<rparr>\<rparr>"

lemma safeNumber_small: "safeNumber 0" "safeNumber 1" "safeNumber 2"
  by (simp_all add: safeNumber_def maxSafeInteger_def)

lemma sample_genuine: "genuine sampleHost (SnapshotMessage sampleMessage)" "genuine sampleHost (PatchMessage samplePatch)"
  by (simp_all add: sampleHost_def sampleMessage_def samplePatch_def sampleScreen_def applyTerminalSemanticPatch_def
    safeNumber_small patchScreen_def jofList_def)

theorem v3_mirror_witness:
  "mirrors sampleHost (fold v3_step [DeliverV3 (PatchMessage samplePatch), DeliverV3 (SnapshotMessage sampleMessage),
     DeliverV3 (PatchMessage samplePatch), DeliverV3 (PatchMessage samplePatch)] newV3Store)"
  by (rule v3_mirror) (simp add: sample_genuine del: genuine.simps)

theorem v3_recovers_witness:
  "fst (applySnapshotMessage sampleMessage newV3Store) = Applied \<and>
   fst (deliverAll [samplePatch] (snd (applySnapshotMessage sampleMessage newV3Store))) = [Applied] \<and>
   showsAt sampleHost ''t'' ''o'' ''e'' 2 (snd (deliverAll [samplePatch] (snd (applySnapshotMessage sampleMessage newV3Store))))"
  using v3_recovers [where st = newV3Store and m = sampleMessage and ms = "[samplePatch]" and host = sampleHost]
  by (simp add: sample_genuine newV3Store_def safeNumber_small lastRevision_def del: genuine.simps)
    (simp add: sampleMessage_def samplePatch_def sampleScreen_def safeNumber_small)

theorem patch_rebuilds_witness:
  "screenRows (the (applyTerminalSemanticPatch (sampleScreen 1) ''e'' (patchOf samplePatch))) = screenRows (sampleScreen 1)"
  by (rule patch_rebuilds [where s = "sampleScreen 1" and e = "''e''" and p = "patchOf samplePatch"])
    (simp_all add: sampleScreen_def samplePatch_def appendsOnly_def changedBetween_def deletedBetween_def
      applyTerminalSemanticPatch_def safeNumber_small)

theorem v3_frame_roundtrip_witness:
  "decodeTerminalStreamV3
     \<lparr>parseJson = (\<lambda>t. if t = [123, 125] then Some () else None), decodeSnapshot = (\<lambda>_. Some sampleMessage),
      decodePatch = (\<lambda>_. None), decodeResync = (\<lambda>_. None)\<rparr> [3, 1, 0, 0, 0, 2, 123, 125] = Some (SnapshotMessage sampleMessage)"
proof (rule v3_frame_roundtrip [where stringify = "\<lambda>_. [123, 125]"])
  have k: "be (numeral k) n = be (pred_numeral k) (n div 256) @ [of_nat (n mod 256)]" for k n
    by (subst numeral_eq_Suc) simp
  have b: "be 4 2 = [0, 0, 0, 2]" by (simp add: k)
  have u: "utf8Encode [123, 125] = [123, 125]" by (simp add: utf8Encode_def scalar_def scalarBytes_def byte_def)
  show "encodeTerminalStreamV3 (\<lambda>_. [123, 125]) (SnapshotMessage sampleMessage) = Inr [3, 1, 0, 0, 0, 2, 123, 125]"
    unfolding encodeTerminalStreamV3_def u Let_def MAX_TERMINAL_STREAM_V3_BYTES_def
    by (simp add: b [unfolded numeral_2_eq_2] TERMINAL_STREAM_V3_VERSION_def KIND_SNAPSHOT_def del: be.simps)
qed (simp_all add: plainText_def scalar_def)

end
