(* ===== verification/WorkerPool.thy ===== *)
theory WorkerPool
  imports FairScheduler RenderUpdate
begin

text \<open>
  The pool of terminal workers, \<open>packages/ghostty-react/src/worker/worker-pool.ts\<close>: terminals are assigned to
  workers, each worker has a fair scheduler, a failed worker is replaced. A slot and a channel are objects
  that outlive their removal from the pool, so they are known by their position in a list that only grows.
  A slot carries the run of its scheduler, that is what it accepted and posted. The lemmas lift the
  scheduler's invariants to the pool and show how terminals are spread over the workers.
\<close>

section \<open>Commands\<close>

text \<open>The payloads by what the pool looks at.\<close>

datatype command_payload =
    Create bool bool
  | WriteBytes octets
  | WriteReplayBytes "octets list"
  | ResetAndWriteBytes octets
  | RestoreSnapshot octets
  | RecycleRenderUpdate returned_buffers
  | Paste string
  | InsertText string
  | SetPresentationState bool bool
  | OtherCommand string

record worker_command =
  commandGeneration :: int
  commandSequence :: int
  payload :: command_payload

definition bufferBytes :: "returned_buffers \<Rightarrow> nat" where
  "bufferBytes r = bDirtyRows r + bRowFlags r + bOffsets r + bLengths r + bForegrounds r + bBackgrounds r + bStyles r + bGraphemes r"

fun workerCommandBytes :: "command_payload \<Rightarrow> nat" where
  "workerCommandBytes (WriteBytes d) = length d"
| "workerCommandBytes (ResetAndWriteBytes d) = length d"
| "workerCommandBytes (RestoreSnapshot d) = length d"
| "workerCommandBytes (WriteReplayBytes ds) = sum_list (map length ds)"
| "workerCommandBytes (RecycleRenderUpdate r) = bufferBytes r"
| "workerCommandBytes (Paste t) = length t * 2 + 256"
| "workerCommandBytes (InsertText t) = length t * 2 + 256"
| "workerCommandBytes _ = 256"

text \<open>A safe integer in decimal.\<close>

fun digitsOf :: "nat \<Rightarrow> string" where
  "digitsOf n = (if n < 10 then [char_of (48 + n)] else digitsOf (n div 10) @ [char_of (48 + n mod 10)])"

declare digitsOf.simps [simp del]

definition showInt :: "int \<Rightarrow> string" where
  "showInt i = (if i < 0 then ''-'' @ digitsOf (nat (- i)) else digitsOf (nat i))"

definition completionKey :: "int \<Rightarrow> int \<Rightarrow> completion_key" where
  "completionKey g n = KeyString (showInt g @ '':'' @ showInt n)"

section \<open>The pool\<close>

text \<open>Listeners are known by the channel they belong to; workers of a slot are numbered.\<close>

record worker_slot =
  scheduler :: "worker_command sched_run"
  priorities :: "(string, worker_priority) jsmap"
  terminals :: "(string, nat) jsmap"
  workerNumber :: nat

record worker_channel =
  channelTerminal :: string
  channelSlot :: nat
  released :: bool

record worker_pool =
  poolSlots :: "worker_slot list"
  poolChannels :: "worker_channel list"
  disposed :: bool

definition MAX_TERMINAL_WORKERS :: nat where
  "MAX_TERMINAL_WORKERS = 4"

text \<open>\<open>None\<close>: there is no \<open>navigator\<close>; a count of 0 is as good as none.\<close>

definition workerLimit :: "nat option \<Rightarrow> nat" where
  "workerLimit hardware = (let h = (case hardware of None \<Rightarrow> 2 | Some n \<Rightarrow> if n = 0 then 2 else n)
     in max 1 (min MAX_TERMINAL_WORKERS (h div 2)))"

definition emptyPool :: worker_pool where
  "emptyPool = \<lparr>poolSlots = [], poolChannels = [], disposed = False\<rparr>"

definition createWorkerSlot :: worker_slot where
  "createWorkerSlot = \<lparr>scheduler = startRun, priorities = [], terminals = [], workerNumber = 0\<rparr>"

definition workerCount :: "worker_pool \<Rightarrow> nat" where
  "workerCount p = (if disposed p then 0 else length (poolSlots p))"

definition terminalCount :: "worker_slot list \<Rightarrow> nat" where
  "terminalCount ss = sum_list (map (\<lambda>s. length (terminals s)) ss)"

text \<open>The loop that adds slots.\<close>

function growPool :: "nat \<Rightarrow> worker_slot list \<Rightarrow> worker_slot list" where
  "growPool limit ss =
     (if length ss < limit \<and> length ss \<le> terminalCount ss then growPool limit (ss @ [createWorkerSlot]) else ss)"
  by pat_completeness auto
termination
  by (relation "measure (\<lambda>(limit, ss). limit - length ss)") auto

declare growPool.simps [simp del]

text \<open>The first of the slots with the fewest terminals, by its position.\<close>

fun leastSlot :: "nat \<Rightarrow> (nat \<times> worker_slot) option \<Rightarrow> worker_slot list \<Rightarrow> (nat \<times> worker_slot) option" where
  "leastSlot i least [] = least"
| "leastSlot i least (s # ss) = leastSlot (i + 1)
     (case least of None \<Rightarrow> Some (i, s)
      | Some (j, l) \<Rightarrow> if length (terminals s) < length (terminals l) then Some (i, s) else Some (j, l)) ss"

datatype pool_error = PoolDisposed | NoWorker | QueueFull

definition acquire :: "nat option \<Rightarrow> string \<Rightarrow> worker_pool \<Rightarrow> pool_error + nat \<times> worker_pool" where
  "acquire hardware terminalId p =
     (if disposed p then Inl PoolDisposed
      else (let ss = growPool (workerLimit hardware) (poolSlots p); ch = length (poolChannels p) in
        case leastSlot 0 None ss of
          None \<Rightarrow> Inl NoWorker
        | Some (i, s) \<Rightarrow> Inr (ch, p\<lparr>poolSlots := ss[i := s\<lparr>terminals := jset terminalId ch (terminals s)\<rparr>],
            poolChannels := poolChannels p @ [\<lparr>channelTerminal = terminalId, channelSlot = i, released = False\<rparr>]\<rparr>)))"

definition updateSlot :: "nat \<Rightarrow> (worker_slot \<Rightarrow> worker_slot) \<Rightarrow> worker_pool \<Rightarrow> worker_pool" where
  "updateSlot i f p = p\<lparr>poolSlots := (poolSlots p)[i := f (poolSlots p ! i)]\<rparr>"

definition defaultPriority :: worker_priority where
  "defaultPriority = \<lparr>visible = True, focused = False\<rparr>"

text \<open>\<open>post\<close> throws what the scheduler throws; the priority stays set.\<close>

definition notePriority :: "string \<Rightarrow> command_payload \<Rightarrow> worker_slot \<Rightarrow> worker_slot" where
  "notePriority t c s =
     (case c of
        Create v f \<Rightarrow> s\<lparr>priorities := jset t \<lparr>visible = v, focused = f\<rparr> (priorities s),
          scheduler := sched_step (SetPriority t \<lparr>visible = v, focused = f\<rparr>) (scheduler s)\<rparr>
      | SetPresentationState v f \<Rightarrow> s\<lparr>priorities := jset t \<lparr>visible = v, focused = f\<rparr> (priorities s),
          scheduler := sched_step (SetPriority t \<lparr>visible = v, focused = f\<rparr>) (scheduler s)\<rparr>
      | _ \<Rightarrow> s)"

definition enqueueOp :: "string \<Rightarrow> worker_command \<Rightarrow> worker_slot \<Rightarrow> worker_command sched_op" where
  "enqueueOp t c s = Enqueue t c (int (workerCommandBytes (payload c))) (coalesce (jget (priorities s) t) defaultPriority)
     (completionKey (commandGeneration c) (commandSequence c))"

definition slotFull :: "string \<Rightarrow> worker_command \<Rightarrow> worker_slot \<Rightarrow> bool" where
  "slotFull t c s =
     (case FairScheduler.enqueue t c (int (workerCommandBytes (payload c))) (coalesce (jget (priorities s) t) defaultPriority)
         (completionKey (commandGeneration c) (commandSequence c)) (sched (scheduler s)) of
        Inl _ \<Rightarrow> True
      | Inr _ \<Rightarrow> False)"

definition post :: "nat \<Rightarrow> worker_command \<Rightarrow> worker_pool \<Rightarrow> pool_error option \<times> worker_pool" where
  "post ch c p =
     (let x = poolChannels p ! ch; t = channelTerminal x; i = channelSlot x in
      if released x then (None, p)
      else (let s = notePriority t (payload c) (poolSlots p ! i) in
        (if slotFull t c s then Some QueueFull else None,
         updateSlot i (\<lambda>_. s\<lparr>scheduler := sched_step (enqueueOp t c s) (scheduler s)\<rparr>) p)))"

definition releaseChannel :: "nat \<Rightarrow> worker_pool \<Rightarrow> worker_pool" where
  "releaseChannel ch p =
     (let x = poolChannels p ! ch; t = channelTerminal x in
      if released x then p
      else updateSlot (channelSlot x) (\<lambda>s. s\<lparr>scheduler := sched_step (Cancel t) (scheduler s),
             priorities := jdelete t (priorities s), terminals := jdelete t (terminals s)\<rparr>)
           (p\<lparr>poolChannels := (poolChannels p)[ch := x\<lparr>released := True\<rparr>]\<rparr>))"

definition disposePool :: "worker_pool \<Rightarrow> worker_pool" where
  "disposePool p = p\<lparr>disposed := True\<rparr>"

text \<open>
  A worker's message as far as the pool reads it: whether it is a valid event that ends a command, and of
  which. The listener to call, if any, is returned.
\<close>

record worker_event =
  eventTerminal :: string
  endsCommand :: bool
  eventGeneration :: int
  eventSequence :: int

definition workerMessage :: "nat \<Rightarrow> worker_event \<Rightarrow> worker_pool \<Rightarrow> nat option \<times> worker_pool" where
  "workerMessage i e p =
     (jget (terminals (poolSlots p ! i)) (eventTerminal e),
      if endsCommand e then updateSlot i (\<lambda>s. s\<lparr>scheduler :=
        sched_step (Complete (eventTerminal e) (completionKey (eventGeneration e) (eventSequence e))) (scheduler s)\<rparr>) p
      else p)"

text \<open>A worker that failed is replaced; the listeners to tell are returned.\<close>

definition workerFailed :: "nat \<Rightarrow> nat \<Rightarrow> worker_pool \<Rightarrow> nat list \<times> worker_pool" where
  "workerFailed i number p =
     (let s = poolSlots p ! i in
      if disposed p \<or> workerNumber s \<noteq> number then ([], p)
      else (jvalues (terminals s),
        updateSlot i (\<lambda>s. s\<lparr>scheduler := sched_step Reset (scheduler s), workerNumber := workerNumber s + 1\<rparr>) p))"

text \<open>The microtask of a slot's scheduler; what it posts is in the run.\<close>

definition slotMicrotask :: "nat \<Rightarrow> worker_pool \<Rightarrow> worker_pool" where
  "slotMicrotask i p = updateSlot i (\<lambda>s. s\<lparr>scheduler := sched_step Microtask (scheduler s)\<rparr>) p"

section \<open>Runs of the pool\<close>

datatype pool_op =
    Acquire "nat option" string
  | Post nat worker_command
  | ReleaseChannel nat
  | DisposePool
  | WorkerMessage nat worker_event
  | WorkerFailed nat nat
  | SlotMicrotask nat

text \<open>Operations name channels and slots that exist; the others are none.\<close>

fun pool_step :: "pool_op \<Rightarrow> worker_pool \<Rightarrow> worker_pool" where
  "pool_step (Acquire hardware t) p = (case acquire hardware t p of Inl e \<Rightarrow> p | Inr (ch, p') \<Rightarrow> p')"
| "pool_step (Post ch c) p = (if ch < length (poolChannels p) then snd (post ch c p) else p)"
| "pool_step (ReleaseChannel ch) p = (if ch < length (poolChannels p) then releaseChannel ch p else p)"
| "pool_step DisposePool p = disposePool p"
| "pool_step (WorkerMessage i e) p = (if i < length (poolSlots p) then snd (workerMessage i e p) else p)"
| "pool_step (WorkerFailed i n) p = (if i < length (poolSlots p) then snd (workerFailed i n p) else p)"
| "pool_step (SlotMicrotask i) p = (if i < length (poolSlots p) then slotMicrotask i p else p)"

definition slotOk :: "worker_slot \<Rightarrow> bool" where
  "slotOk s \<longleftrightarrow> wfScheduler (sched (scheduler s)) \<and> fifo (scheduler s) \<and> jwf (terminals s)"

text \<open>A listener belongs to a channel of its terminal and slot that is still held.\<close>

definition listenerOk :: "worker_channel list \<Rightarrow> nat \<Rightarrow> string \<Rightarrow> nat \<Rightarrow> bool" where
  "listenerOk cs i t ch \<longleftrightarrow> ch < length cs \<and> channelTerminal (cs ! ch) = t \<and> channelSlot (cs ! ch) = i \<and> \<not> released (cs ! ch)"

definition poolOk :: "worker_pool \<Rightarrow> bool" where
  "poolOk p \<longleftrightarrow> length (poolSlots p) \<le> MAX_TERMINAL_WORKERS \<and> list_all slotOk (poolSlots p) \<and>
     list_all (\<lambda>c. channelSlot c < length (poolSlots p)) (poolChannels p) \<and>
     (\<forall>i<length (poolSlots p). \<forall>t ch. jget (terminals (poolSlots p ! i)) t = Some ch \<longrightarrow> listenerOk (poolChannels p) i t ch)"

lemma workerLimit_bounds: "1 \<le> workerLimit h" "workerLimit h \<le> MAX_TERMINAL_WORKERS"
  by (auto simp: workerLimit_def MAX_TERMINAL_WORKERS_def Let_def split: option.split)

text \<open>The slots that were there stay, at most the limit is reached, the new ones are empty.\<close>

lemma growPool_ok:
  "\<exists>k. growPool limit ss = ss @ replicate k createWorkerSlot \<and> (k = 0 \<or> length ss + k \<le> limit) \<and>
    (length ss + k < limit \<longrightarrow> terminalCount ss < length ss + k)"
proof (induction limit ss rule: growPool.induct)
  case (1 limit ss)
  show ?case
  proof (cases "length ss < limit \<and> length ss \<le> terminalCount ss")
    case True
    have c: "terminalCount (ss @ [createWorkerSlot]) = terminalCount ss" by (simp add: terminalCount_def createWorkerSlot_def)
    obtain k where k: "growPool limit (ss @ [createWorkerSlot]) = ss @ [createWorkerSlot] @ replicate k createWorkerSlot"
      "k = 0 \<or> length ss + 1 + k \<le> limit" "length ss + 1 + k < limit \<longrightarrow> terminalCount ss < length ss + 1 + k"
      using "1.IH" [OF True] unfolding c by auto
    with True show ?thesis by (intro exI [of _ "Suc k"]) (auto simp: growPool.simps [of limit ss])
  next
    case False
    then have "growPool limit ss = ss" by (subst growPool.simps) (simp only: if_False)
    with False show ?thesis by (intro exI [of _ 0]) auto
  qed
qed

lemma leastSlot_ok:
  "leastSlot i least ss = Some (k, s) \<Longrightarrow>
    (least = Some (k, s) \<or> i \<le> k \<and> k < i + length ss \<and> ss ! (k - i) = s) \<and>
    (\<forall>x\<in>set ss. length (terminals s) \<le> length (terminals x)) \<and>
    (case least of None \<Rightarrow> True | Some (_, l) \<Rightarrow> length (terminals s) \<le> length (terminals l))"
proof (induction i least ss rule: leastSlot.induct)
  case (2 i least s' ss)
  have shift: "k - i = Suc (k - (i + 1))" if "i + 1 \<le> k" using that by arith
  show ?case
    using "2.IH" "2.prems" shift
    by (cases least) (auto split: if_splits)
qed auto

lemma leastSlot_None: "leastSlot i least ss = None \<longleftrightarrow> least = None \<and> ss = []"
  by (induction i least ss rule: leastSlot.induct) (auto split: option.splits)

text \<open>Every change of a slot's scheduler is a step of its run.\<close>

lemma slotOk_step: "slotOk s \<Longrightarrow> slotOk (s\<lparr>scheduler := sched_step e (scheduler s)\<rparr>)"
  by (simp add: slotOk_def sched_step_wf fifo_step)

lemma slotOk_fields [simp]: "slotOk (s\<lparr>priorities := m\<rparr>) = slotOk s" "slotOk (s\<lparr>workerNumber := n\<rparr>) = slotOk s"
  by (simp_all add: slotOk_def)

lemma createWorkerSlot_ok: "slotOk createWorkerSlot"
  using startRun_ok by (simp add: slotOk_def createWorkerSlot_def)

text \<open>A slot may be replaced by one with the same or fewer listeners.\<close>

lemma updateSlot_ok:
  assumes p: "poolOk p" and i: "i < length (poolSlots p)" and f: "slotOk (f (poolSlots p ! i))"
    and t: "\<And>t ch. jget (terminals (f (poolSlots p ! i))) t = Some ch \<Longrightarrow> jget (terminals (poolSlots p ! i)) t = Some ch"
  shows "poolOk (updateSlot i f p)"
  using p i f t by (auto simp: poolOk_def updateSlot_def list_all_length nth_list_update)

lemma acquire_ok:
  assumes p: "poolOk p" and a: "acquire hardware t p = Inr (ch, p')"
  shows "poolOk p'"
proof -
  obtain k where ss: "growPool (workerLimit hardware) (poolSlots p) = poolSlots p @ replicate k createWorkerSlot"
    "k = 0 \<or> length (poolSlots p) + k \<le> workerLimit hardware"
    using growPool_ok by blast
  define ss where "ss = poolSlots p @ replicate k createWorkerSlot"
  obtain i s where i: "leastSlot 0 None ss = Some (i, s)"
    "ch = length (poolChannels p)"
    "p' = p\<lparr>poolSlots := ss[i := s\<lparr>terminals := jset t ch (terminals s)\<rparr>],
       poolChannels := poolChannels p @ [\<lparr>channelTerminal = t, channelSlot = i, released = False\<rparr>]\<rparr>"
    using a ss by (auto simp: acquire_def Let_def ss_def split: if_splits option.splits)
  have s: "i < length ss" "s = ss ! i" using leastSlot_ok [OF i(1)] by auto
  have limit: "length ss \<le> MAX_TERMINAL_WORKERS"
    using ss(2) p workerLimit_bounds(2) [of hardware] by (auto simp: poolOk_def ss_def)
  have old: "list_all slotOk ss" using p by (auto simp: poolOk_def ss_def createWorkerSlot_ok list_all_iff)
  have grown: "length (poolSlots p) \<le> length ss" by (simp add: ss_def)
  have listeners: "listenerOk (poolChannels p) j u c" if "j < length ss" "jget (terminals (ss ! j)) u = Some c" for j u c
    using that p by (auto simp: poolOk_def ss_def nth_append createWorkerSlot_def split: if_splits)
  have ok: "slotOk (s\<lparr>terminals := jset t ch (terminals s)\<rparr>)"
    using old s by (simp add: list_all_length slotOk_def)
  have "listenerOk (poolChannels p @ [\<lparr>channelTerminal = t, channelSlot = i, released = False\<rparr>]) j u c"
    if "j < length ss" "jget (terminals (ss[i := s\<lparr>terminals := jset t ch (terminals s)\<rparr>] ! j)) u = Some c" for j u c
    using that listeners [of j u c] s i(2) by (auto simp: listenerOk_def nth_append nth_list_update split: if_splits)
  then show ?thesis
    using p limit old ok grown s i(3) unfolding poolOk_def
    by (auto simp: list_all_length nth_list_update nth_append intro: less_le_trans)
qed

lemma notePriority_ok: "slotOk s \<Longrightarrow> slotOk (notePriority t c s)" "terminals (notePriority t c s) = terminals s"
proof -
  have "slotOk (s\<lparr>priorities := m, scheduler := sched_step e (scheduler s)\<rparr>)" if "slotOk s" for m e
    using slotOk_step [OF that, of e] by (simp add: slotOk_def)
  then show "slotOk s \<Longrightarrow> slotOk (notePriority t c s)" "terminals (notePriority t c s) = terminals s"
    by (auto simp: notePriority_def split: command_payload.split simp del: sched_step.simps)
qed

lemma channel_slot: "poolOk p \<Longrightarrow> ch < length (poolChannels p) \<Longrightarrow> channelSlot (poolChannels p ! ch) < length (poolSlots p)"
  by (simp add: poolOk_def list_all_length)

lemma slot_ok: "poolOk p \<Longrightarrow> i < length (poolSlots p) \<Longrightarrow> slotOk (poolSlots p ! i)"
  by (simp add: poolOk_def list_all_length)

lemma releaseChannel_ok:
  assumes p: "poolOk p" and c: "ch < length (poolChannels p)"
  shows "poolOk (releaseChannel ch p)"
proof (cases "released (poolChannels p ! ch)")
  case False
  define x i t where "x = poolChannels p ! ch" and "i = channelSlot x" and "t = channelTerminal x"
  define s where "s = (poolSlots p ! i)\<lparr>scheduler := sched_step (Cancel t) (scheduler (poolSlots p ! i)),
    priorities := jdelete t (priorities (poolSlots p ! i)), terminals := jdelete t (terminals (poolSlots p ! i))\<rparr>"
  have i: "i < length (poolSlots p)" using channel_slot [OF p c] by (simp add: i_def x_def)
  have r: "releaseChannel ch p = p\<lparr>poolChannels := (poolChannels p)[ch := x\<lparr>released := True\<rparr>], poolSlots := (poolSlots p)[i := s]\<rparr>"
    using False by (simp add: releaseChannel_def updateSlot_def s_def x_def i_def t_def Let_def)
  have s: "slotOk s"
    using slotOk_step [OF slot_ok [OF p i], of "Cancel t"] by (simp add: slotOk_def s_def)
  have "listenerOk ((poolChannels p)[ch := x\<lparr>released := True\<rparr>]) j u d"
    if "j < length (poolSlots p)" "jget (terminals ((poolSlots p)[i := s] ! j)) u = Some d" for j u d
  proof -
    have "jget (terminals (poolSlots p ! j)) u = Some d" "j = i \<longrightarrow> u \<noteq> t"
      using that i by (auto simp: s_def nth_list_update split: if_splits)
    moreover from this have "listenerOk (poolChannels p) j u d" using p that by (simp add: poolOk_def)
    ultimately show ?thesis by (cases "d = ch") (auto simp: listenerOk_def x_def i_def t_def)
  qed
  then show ?thesis
    using p s i c unfolding r poolOk_def by (auto simp: list_all_length nth_list_update x_def)
qed (use p in \<open>simp add: releaseChannel_def\<close>)

lemma slot_step_ok: "poolOk p \<Longrightarrow> i < length (poolSlots p) \<Longrightarrow>
    poolOk (updateSlot i (\<lambda>s. s\<lparr>scheduler := sched_step e (scheduler s)\<rparr>) p)"
  by (rule updateSlot_ok) (simp_all add: slotOk_step slot_ok del: sched_step.simps)

lemma pool_step_ok: "poolOk p \<Longrightarrow> poolOk (pool_step e p)"
proof (cases e)
  case (Acquire hardware t)
  assume "poolOk p"
  with Acquire acquire_ok show ?thesis by (auto split: sum.split)
next
  case (Post ch c)
  assume p: "poolOk p"
  show ?thesis
  proof (cases "ch < length (poolChannels p) \<and> \<not> released (poolChannels p ! ch)")
    case True
    note i = channel_slot [OF p conjunct1 [OF True]]
    let ?t = "channelTerminal (poolChannels p ! ch)" and ?i = "channelSlot (poolChannels p ! ch)"
    let ?s = "notePriority ?t (payload c) (poolSlots p ! ?i)"
    have "poolOk (updateSlot ?i (\<lambda>_. ?s\<lparr>scheduler := sched_step (enqueueOp ?t c ?s) (scheduler ?s)\<rparr>) p)"
      by (rule updateSlot_ok [OF p i]) (simp_all add: slotOk_step notePriority_ok slot_ok [OF p i] del: sched_step.simps)
    with True Post show ?thesis by (simp add: post_def Let_def del: sched_step.simps)
  qed (use p Post in \<open>auto simp: post_def Let_def\<close>)
next
  case (ReleaseChannel ch)
  assume "poolOk p"
  with ReleaseChannel releaseChannel_ok show ?thesis by simp
next
  case DisposePool
  assume "poolOk p"
  with DisposePool show ?thesis by (simp add: disposePool_def poolOk_def)
next
  case (WorkerMessage i ev)
  assume p: "poolOk p"
  with WorkerMessage show ?thesis
    by (simp add: workerMessage_def slot_step_ok del: sched_step.simps)
next
  case (WorkerFailed i n)
  assume p: "poolOk p"
  let ?f = "\<lambda>s. s\<lparr>scheduler := sched_step Reset (scheduler s), workerNumber := workerNumber s + 1\<rparr>"
  have "poolOk (updateSlot i ?f p)" if i: "i < length (poolSlots p)"
    by (rule updateSlot_ok [OF p i])
      (use slotOk_step [OF slot_ok [OF p i], of Reset] in \<open>simp_all add: slotOk_def del: sched_step.simps\<close>)
  with p WorkerFailed show ?thesis
    by (simp add: workerFailed_def Let_def del: sched_step.simps)
next
  case (SlotMicrotask i)
  assume p: "poolOk p"
  with SlotMicrotask show ?thesis
    by (simp add: slotMicrotask_def slot_step_ok del: sched_step.simps)
qed

interpretation pool_machine: event_machine pool_step poolOk
  by unfold_locales (rule pool_step_ok)

lemma emptyPool_ok: "poolOk emptyPool"
  by (simp add: poolOk_def emptyPool_def)

section \<open>Properties\<close>

text \<open>
  C12: The pool keeps what its schedulers promise: after any interleaving of acquisitions, posts, releases,
  worker messages, failures and microtasks there are at most four workers; the counters of each worker's
  scheduler are exact and within their limits; the commands posted to a worker for a terminal are, in
  order and without repetition, among those its channels posted there; and every listener belongs to a
  channel of that terminal on that worker that has not been released.
\<close>

theorem pool_run_ok: "poolOk (fold pool_step es emptyPool)"
  by (rule pool_machine.run_inv [OF emptyPool_ok])

text \<open>
  Terminals are spread over the workers: an acquired terminal goes to a worker with the fewest
  terminals, the number of workers never passes the limit of the hardware, and while it is below that
  limit the terminal gets a worker of its own.
\<close>

theorem acquire_spreads:
  assumes "acquire hardware t p = Inr (ch, p')"
  shows "\<exists>ss i. ss = growPool (workerLimit hardware) (poolSlots p) \<and> i < length ss \<and>
    poolChannels p' = poolChannels p @ [\<lparr>channelTerminal = t, channelSlot = i, released = False\<rparr>] \<and>
    length (poolSlots p') \<le> max (length (poolSlots p)) (workerLimit hardware) \<and>
    list_all (\<lambda>s. length (terminals (ss ! i)) \<le> length (terminals s)) ss \<and>
    (workerLimit hardware \<le> length (poolSlots p') \<or> terminals (ss ! i) = [])"
proof -
  define ss where "ss = growPool (workerLimit hardware) (poolSlots p)"
  obtain k where k: "ss = poolSlots p @ replicate k createWorkerSlot" "k = 0 \<or> length (poolSlots p) + k \<le> workerLimit hardware"
    "length (poolSlots p) + k < workerLimit hardware \<longrightarrow> terminalCount (poolSlots p) < length (poolSlots p) + k"
    using growPool_ok ss_def by blast
  obtain i s where i: "leastSlot 0 None ss = Some (i, s)" "poolSlots p' = ss[i := s\<lparr>terminals := jset t ch (terminals s)\<rparr>]"
    "poolChannels p' = poolChannels p @ [\<lparr>channelTerminal = t, channelSlot = i, released = False\<rparr>]"
    using assms by (auto simp: acquire_def Let_def ss_def split: if_splits option.splits)
  note least = leastSlot_ok [OF i(1)]
  have s: "i < length ss" "s = ss ! i" using least by auto
  have "terminals (ss ! i) = []" if below: "length ss < workerLimit hardware"
  proof (rule ccontr)
    assume "terminals (ss ! i) \<noteq> []"
    then have pos: "0 < length (terminals s)" by (simp add: s)
    have le: "length (terminals s) \<le> length (terminals x)" if "x \<in> set ss" for x using least that by blast
    have "1 \<le> length (terminals x)" if "x \<in> set ss" for x using pos le [OF that] by arith
    then have "sum_list (map (\<lambda>_. 1) ss) \<le> terminalCount ss"
      unfolding terminalCount_def by (intro sum_list_mono) simp
    then have "length ss \<le> terminalCount ss" by (simp add: sum_list_triv)
    moreover have "terminalCount ss = terminalCount (poolSlots p)"
      by (simp add: k(1) terminalCount_def createWorkerSlot_def sum_list_replicate)
    ultimately show False using k(1,3) below by simp
  qed
  then have "workerLimit hardware \<le> length ss \<or> terminals (ss ! i) = []" by (meson not_le)
  moreover have "length (poolSlots p') = length ss" using i(2) by simp
  ultimately show ?thesis
    using k(1,2) least s i(3) by (intro exI [of _ ss] exI [of _ i]) (auto simp: ss_def list_all_iff)
qed

theorem acquire_spreads_witness:
  "\<exists>ss i. ss = growPool (workerLimit (Some 8)) [] \<and> i < length ss \<and>
    poolChannels (snd (projr (acquire (Some 8) ''a'' emptyPool))) = [\<lparr>channelTerminal = ''a'', channelSlot = i, released = False\<rparr>] \<and>
    terminals (ss ! i) = []"
proof -
  have "growPool 4 [] = [createWorkerSlot]"
    by (simp add: growPool.simps terminalCount_def createWorkerSlot_def)
  then have g: "growPool (workerLimit (Some 8)) [] = [createWorkerSlot]" by (simp add: workerLimit_def MAX_TERMINAL_WORKERS_def)
  then have a: "acquire (Some 8) ''a'' emptyPool =
      Inr (fst (projr (acquire (Some 8) ''a'' emptyPool)), snd (projr (acquire (Some 8) ''a'' emptyPool)))"
    by (simp add: acquire_def emptyPool_def Let_def)
  have n: "\<not> workerLimit (Some 8) \<le> length (poolSlots (snd (projr (acquire (Some 8) ''a'' emptyPool))))"
    using g by (simp add: acquire_def emptyPool_def Let_def workerLimit_def MAX_TERMINAL_WORKERS_def)
  from acquire_spreads [OF a] n show ?thesis by (auto simp: emptyPool_def)
qed

end
