(* ===== verification/KeyStrings.thy ===== *)
theory KeyStrings
  imports Utf8
begin

text \<open>
  Strings as the key grammar sees them: lists of UTF-16 code units, so that \<open>length\<close> and \<open>split\<close> are exact.
  White space is of the basic plane. The case mappings of Unicode are parameters; \<open>asciiCasing\<close> is the
  part of them that the catalog of the program stays within.
\<close>

type_synonym jstr = "nat list"

named_theorems key_eval \<open>what evaluates strings and keys\<close>

text \<open>A literal of the source.\<close>

definition js :: "string \<Rightarrow> jstr" where
  "js s = map of_char s"

record casing =
  toLowerCase :: "jstr \<Rightarrow> jstr"
  toUpperCase :: "jstr \<Rightarrow> jstr"

definition asciiCasing :: casing where
  "asciiCasing = \<lparr>toLowerCase = map (\<lambda>n. if 65 \<le> n \<and> n \<le> 90 then n + 32 else n),
     toUpperCase = map (\<lambda>n. if 97 \<le> n \<and> n \<le> 122 then n - 32 else n)\<rparr>"

definition isLower :: "nat \<Rightarrow> bool" where "isLower n \<longleftrightarrow> 97 \<le> n \<and> n \<le> 122"
definition isUpper :: "nat \<Rightarrow> bool" where "isUpper n \<longleftrightarrow> 65 \<le> n \<and> n \<le> 90"
definition isDigit :: "nat \<Rightarrow> bool" where "isDigit n \<longleftrightarrow> 48 \<le> n \<and> n \<le> 57"

text \<open>\<open>split\<close> and \<open>join\<close> by one code unit, and \<open>split\<close> by runs of white space.\<close>

fun splitOn :: "nat \<Rightarrow> jstr \<Rightarrow> jstr list" where
  "splitOn d [] = [[]]"
| "splitOn d (c # cs) =
     (if c = d then [] # splitOn d cs
      else (case splitOn d cs of [] \<Rightarrow> [[c]] | s # ss \<Rightarrow> (c # s) # ss))"

fun joinOn :: "nat \<Rightarrow> jstr list \<Rightarrow> jstr" where
  "joinOn d [] = []"
| "joinOn d [s] = s"
| "joinOn d (s # ss) = s @ d # joinOn d ss"

function splitWhite :: "jstr \<Rightarrow> jstr list" where
  "splitWhite t =
     (let rest = dropWhile (\<lambda>c. \<not> jsSpace c) t in
      if rest = [] then [takeWhile (\<lambda>c. \<not> jsSpace c) t]
      else takeWhile (\<lambda>c. \<not> jsSpace c) t # splitWhite (dropWhile jsSpace rest))"
  by pat_completeness auto
termination
proof (relation "measure length")
  fix t :: jstr and rest
  assume r: "rest = dropWhile (\<lambda>c. \<not> jsSpace c) t" and ne: "rest \<noteq> []"
  then have "jsSpace (hd rest)" using hd_dropWhile [of "\<lambda>c. \<not> jsSpace c" t] by simp
  with ne have "length (dropWhile jsSpace rest) < length rest"
    by (cases rest) (auto intro: le_imp_less_Suc length_dropWhile_le)
  also have "length rest \<le> length t" unfolding r by (rule length_dropWhile_le)
  finally show "(dropWhile jsSpace rest, t) \<in> measure length" by simp
qed simp

declare splitWhite.simps [simp del]

text \<open>\<open>Boolean\<close> of a string.\<close>

definition nonEmpty :: "jstr list \<Rightarrow> jstr list" where
  "nonEmpty ss = filter (\<lambda>s. s \<noteq> []) ss"

definition endsWith :: "jstr \<Rightarrow> jstr \<Rightarrow> bool" where
  "endsWith t suffix \<longleftrightarrow> length suffix \<le> length t \<and> drop (length t - length suffix) t = suffix"

definition startsWithText :: "jstr \<Rightarrow> jstr \<Rightarrow> bool" where
  "startsWithText t prefix \<longleftrightarrow> take (length prefix) t = prefix"

abbreviation hyphen :: nat where "hyphen \<equiv> 45"
abbreviation space :: nat where "space \<equiv> 32"

text \<open>The code points of a string; an unpaired surrogate stands for itself.\<close>

fun codePoints :: "jstr \<Rightarrow> js_text" where
  "codePoints (a # b # t) =
     (if 0xD800 \<le> a \<and> a \<le> 0xDBFF \<and> 0xDC00 \<le> b \<and> b \<le> 0xDFFF
      then (0x10000 + (a - 0xD800) * 1024 + (b - 0xDC00)) # codePoints t
      else a # codePoints (b # t))"
| "codePoints t = t"

definition byteLength :: "jstr \<Rightarrow> nat" where
  "byteLength t = length (utf8Encode (codePoints t))"

lemma splitOn_nonempty [simp]: "splitOn d t \<noteq> []"
  by (induction d t rule: splitOn.induct) (auto split: list.splits)

lemma js_text [key_eval]: "js [] = []" "js (c # s) = of_char c # js s"
  by (simp_all add: js_def)

lemmas [key_eval] = trim_def trimEnd_def jsSpace_def endsWith_def startsWithText_def nonEmpty_def asciiCasing_def
  splitWhite.simps isLower_def isUpper_def isDigit_def

lemma splitOn_free: "d \<notin> set t \<Longrightarrow> splitOn d t = [t]"
  by (induction t) auto

lemma splitOn_append: "d \<notin> set t \<Longrightarrow> splitOn d (t @ d # u) = t # splitOn d u"
  by (induction t) auto

text \<open>\<open>split\<close> undoes \<open>join\<close> when no part holds the separator.\<close>

lemma splitOn_joinOn: "ss \<noteq> [] \<Longrightarrow> \<forall>s \<in> set ss. d \<notin> set s \<Longrightarrow> splitOn d (joinOn d ss) = ss"
  by (induction d ss rule: joinOn.induct) (auto simp: splitOn_free splitOn_append)

lemma set_joinOn: "set (joinOn d ss) \<subseteq> insert d (\<Union> (set ` set ss))"
  by (induction d ss rule: joinOn.induct) auto

end
