(* ===== verification/CommandCatalog.thy ===== *)
theory CommandCatalog
  imports KeyStrings
begin

text \<open>
  The commands of the application, \<open>packages/yaade-app/src/commands/catalog.ts\<close>: their identifiers, the
  catalog of descriptors and its validation. The lemmas show that the catalog is complete.
\<close>

datatype command_id =
    CommandPaletteShow
  | TerminalNewTerminal
  | TerminalNext
  | TerminalPrevious
  | TabNext
  | TabPrevious
  | PaneZoom
  | PaneSplitRight
  | PaneSplitDown
  | TerminalSwitch
  | TerminalSwitchPrevious
  | SidebarToggle
  | SessionSwitch
  | TerminalJump
  | TerminalJumpLive
  | TerminalToggleInspectionPause
  | SessionNew
  | TabNew
  | TabClose
  | TerminalClose
  | SessionClose
  | SettingsShow
  | KeymapReset

text \<open>The list of all identifiers, in the order of the source, and their text.\<close>

definition COMMAND_IDS :: "command_id list" where
  "COMMAND_IDS =
     [CommandPaletteShow, TerminalNewTerminal, TerminalNext, TerminalPrevious, TabNext,
      TabPrevious, PaneZoom, PaneSplitRight, PaneSplitDown, TerminalSwitch,
      TerminalSwitchPrevious, SidebarToggle, SessionSwitch, TerminalJump, TerminalJumpLive,
      TerminalToggleInspectionPause, SessionNew, TabNew, TabClose, TerminalClose,
      SessionClose, SettingsShow, KeymapReset]"

fun commandText :: "command_id \<Rightarrow> string" where
  "commandText CommandPaletteShow = ''commandPalette.show''"
| "commandText TerminalNewTerminal = ''terminal.newTerminal''"
| "commandText TerminalNext = ''terminal.next''"
| "commandText TerminalPrevious = ''terminal.previous''"
| "commandText TabNext = ''tab.next''"
| "commandText TabPrevious = ''tab.previous''"
| "commandText PaneZoom = ''pane.zoom''"
| "commandText PaneSplitRight = ''pane.splitRight''"
| "commandText PaneSplitDown = ''pane.splitDown''"
| "commandText TerminalSwitch = ''terminal.switch''"
| "commandText TerminalSwitchPrevious = ''terminal.switchPrevious''"
| "commandText SidebarToggle = ''sidebar.toggle''"
| "commandText SessionSwitch = ''session.switch''"
| "commandText TerminalJump = ''terminal.jump''"
| "commandText TerminalJumpLive = ''terminal.jumpLive''"
| "commandText TerminalToggleInspectionPause = ''terminal.toggleInspectionPause''"
| "commandText SessionNew = ''session.new''"
| "commandText TabNew = ''tab.new''"
| "commandText TabClose = ''tab.close''"
| "commandText TerminalClose = ''terminal.close''"
| "commandText SessionClose = ''session.close''"
| "commandText SettingsShow = ''settings.show''"
| "commandText KeymapReset = ''keymap.reset''"

datatype command_category = CategoryNavigation | CategoryTerminal | CategoryWindow | CategorySession | CategoryWorkspace

datatype command_icon =
    IconCommand | IconTerminal | IconArrowRight | IconArrowLeft | IconArrowDown | IconPause
  | IconWindowNext | IconWindowPrevious | IconMaximize | IconSplitRight | IconSplitDown | IconSearch
  | IconSidebar | IconSessions | IconPlus | IconClose | IconSettings

datatype command_availability =
    WhenAlways | WhenActiveSession | WhenActiveTab | WhenActiveTerminal | WhenAnyTerminal
  | WhenMultipleTabs | WhenMultipleTerminals | WhenMultipleAvailableTerminals | WhenSidebarLayout | WhenViewportNotLive | WhenViewportPausable

datatype command_repeat = RepeatAllow | RepeatSuppress

record command_descriptor =
  commandId :: command_id
  commandTitle :: string
  category :: command_category
  aliases :: "string list"
  icon :: command_icon
  availability :: command_availability
  repeatPolicy :: command_repeat
  bindingId :: "string option"
  inPalette :: "bool option"

definition descriptor :: "command_id \<Rightarrow> string \<Rightarrow> command_category \<Rightarrow> string list \<Rightarrow> command_icon \<Rightarrow> command_availability
    \<Rightarrow> command_repeat \<Rightarrow> string option \<Rightarrow> bool option \<Rightarrow> command_descriptor" where
  "descriptor i t c as ic av r b p =
     \<lparr>commandId = i, commandTitle = t, category = c, aliases = as, icon = ic, availability = av, repeatPolicy = r,
      bindingId = b, inPalette = p\<rparr>"

definition COMMAND_CATALOG :: "command_descriptor list" where
  "COMMAND_CATALOG = [
    descriptor CommandPaletteShow ''Show commands'' CategoryNavigation
      [''command palette'', ''actions'', ''find command''] IconCommand WhenAlways RepeatSuppress (Some ''prefix.commands'') (Some False),
    descriptor TerminalSwitch ''Switch terminal'' CategoryNavigation
      [''find terminal'', ''jump terminal'', ''terminal palette''] IconSearch WhenAnyTerminal RepeatSuppress (Some ''prefix.terminal.switch'') None,
    descriptor TerminalSwitchPrevious ''Switch to previous terminal'' CategoryNavigation
      [''last terminal'', ''toggle terminal'', ''back terminal''] IconWindowPrevious WhenMultipleAvailableTerminals RepeatSuppress (Some ''prefix.terminal.switchPrevious'') None,
    descriptor SessionSwitch ''Switch session'' CategoryNavigation
      [''find session'', ''session palette'', ''workspace''] IconSessions WhenAlways RepeatSuppress (Some ''prefix.session.switch'') None,
    descriptor TerminalNext ''Next terminal'' CategoryNavigation
      [''cycle terminal'', ''forward''] IconArrowRight WhenMultipleTerminals RepeatAllow (Some ''prefix.terminal.next'') None,
    descriptor TerminalPrevious ''Previous terminal'' CategoryNavigation
      [''cycle terminal'', ''back''] IconArrowLeft WhenMultipleTerminals RepeatAllow (Some ''prefix.terminal.previous'') None,
    descriptor TabNext ''Next Window'' CategoryNavigation
      [''cycle window'', ''next tab''] IconWindowNext WhenMultipleTabs RepeatAllow (Some ''prefix.tab.next'') None,
    descriptor TabPrevious ''Previous Window'' CategoryNavigation
      [''cycle window'', ''previous tab''] IconWindowPrevious WhenMultipleTabs RepeatAllow (Some ''prefix.tab.previous'') None,
    descriptor TerminalJump ''Jump to terminal by position'' CategoryNavigation
      [''terminal number'', ''terminal index''] IconTerminal WhenAnyTerminal RepeatSuppress (Some ''prefix.terminal.jump'') (Some False),
    descriptor TerminalJumpLive ''Jump to live output'' CategoryNavigation
      [''scroll bottom'', ''latest output'', ''resume terminal''] IconArrowDown WhenViewportNotLive RepeatSuppress (Some ''prefix.terminal.jumpLive'') None,
    descriptor TerminalToggleInspectionPause ''Toggle output inspection pause'' CategoryTerminal
      [''pause output'', ''resume inspection'', ''freeze viewport''] IconPause WhenViewportPausable RepeatSuppress (Some ''prefix.terminal.toggleInspectionPause'') None,
    descriptor TerminalNewTerminal ''New terminal'' CategoryTerminal
      [''create terminal'', ''shell''] IconTerminal WhenActiveSession RepeatSuppress (Some ''prefix.terminal.new'') None,
    descriptor TerminalClose ''Close terminal'' CategoryTerminal
      [''archive terminal'', ''stop terminal''] IconClose WhenActiveTerminal RepeatSuppress (Some ''prefix.terminal.close'') None,
    descriptor PaneZoom ''Toggle pane zoom'' CategoryTerminal
      [''maximize pane'', ''restore pane''] IconMaximize WhenActiveTerminal RepeatSuppress (Some ''prefix.pane.zoom'') None,
    descriptor PaneSplitRight ''Split right'' CategoryTerminal
      [''split pane horizontal'', ''new pane right''] IconSplitRight WhenActiveTab RepeatSuppress (Some ''direct.pane.splitRight'') None,
    descriptor PaneSplitDown ''Split down'' CategoryTerminal
      [''split pane vertical'', ''new pane below''] IconSplitDown WhenActiveTab RepeatSuppress (Some ''direct.pane.splitDown'') None,
    descriptor TabNew ''New Window'' CategoryWindow
      [''create window'', ''new tab''] IconPlus WhenActiveSession RepeatSuppress (Some ''prefix.tab.new'') None,
    descriptor TabClose ''Close Window'' CategoryWindow
      [''archive window'', ''close tab''] IconClose WhenActiveTab RepeatSuppress (Some ''prefix.tab.close'') None,
    descriptor SessionNew ''New session'' CategorySession
      [''create session'', ''workspace''] IconPlus WhenAlways RepeatSuppress (Some ''prefix.session.new'') None,
    descriptor SessionClose ''Close session'' CategorySession
      [''archive session'', ''stop session''] IconClose WhenActiveSession RepeatSuppress (Some ''prefix.session.close'') None,
    descriptor SidebarToggle ''Toggle sidebar'' CategoryWorkspace
      [''show sidebar'', ''hide sidebar'', ''navigation''] IconSidebar WhenSidebarLayout RepeatSuppress (Some ''direct.sidebar.toggle'') None,
    descriptor SettingsShow ''Open settings'' CategoryWorkspace
      [''preferences'', ''appearance'', ''servers''] IconSettings WhenAlways RepeatSuppress (Some ''direct.settings.show'') None,
    descriptor KeymapReset ''Reset keyboard shortcuts'' CategoryWorkspace
      [''restore keymap'', ''default bindings'', ''keyboard recovery''] IconSettings WhenAlways RepeatSuppress (Some ''prefix.keymap.reset'') None]"

definition COMMAND_CATEGORIES :: "(command_category \<times> string) list" where
  "COMMAND_CATEGORIES =
     [(CategoryNavigation, ''Navigation''), (CategoryTerminal, ''Terminal''), (CategoryWindow, ''Window''),
      (CategorySession, ''Session''), (CategoryWorkspace, ''Workspace'')]"

fun categoryText :: "command_category \<Rightarrow> string" where
  "categoryText CategoryNavigation = ''navigation''"
| "categoryText CategoryTerminal = ''terminal''"
| "categoryText CategoryWindow = ''window''"
| "categoryText CategorySession = ''session''"
| "categoryText CategoryWorkspace = ''workspace''"

definition commandCategoryLabel :: "command_category \<Rightarrow> string" where
  "commandCategoryLabel i = (case map_of COMMAND_CATEGORIES i of Some label \<Rightarrow> label | None \<Rightarrow> categoryText i)"

text \<open>\<open>None\<close>: there is no such descriptor, and the code throws.\<close>

definition findDescriptor :: "command_id \<Rightarrow> command_descriptor option" where
  "findDescriptor i = find (\<lambda>d. commandId d = i) COMMAND_CATALOG"

definition paletteCommandDescriptors :: "command_descriptor list" where
  "paletteCommandDescriptors = filter (\<lambda>d. inPalette d \<noteq> Some False) COMMAND_CATALOG"

definition commandDescriptor :: "command_id \<Rightarrow> command_descriptor" where
  "commandDescriptor i = the (findDescriptor i)"

datatype catalog_issue =
    DuplicateCommand command_id
  | MissingTitle command_id
  | EmptyAlias command_id
  | MissingDescriptor command_id
  | UnknownDescriptor command_id

fun validateDescriptors :: "command_id list \<Rightarrow> command_descriptor list \<Rightarrow> catalog_issue list \<times> command_id list" where
  "validateDescriptors ids [] = ([], ids)"
| "validateDescriptors ids (d # ds) =
     (let i = commandId d; (issues, all) = validateDescriptors (List.insert i ids) ds in
      ((if i \<in> set ids then [DuplicateCommand i] else []) @ (if trim (js (commandTitle d)) = [] then [MissingTitle i] else [])
       @ (if list_ex (\<lambda>a. trim (js a) = []) (aliases d) then [EmptyAlias i] else []) @ issues, all))"

definition validateCommandCatalog :: "command_descriptor list \<Rightarrow> command_id list \<Rightarrow> catalog_issue list" where
  "validateCommandCatalog catalog commandIds =
     (let (issues, ids) = validateDescriptors [] catalog in
      issues @ map MissingDescriptor (filter (\<lambda>i. i \<notin> set ids) commandIds)
      @ map UnknownDescriptor (filter (\<lambda>i. i \<notin> set commandIds) (rev ids)))"

lemma COMMAND_IDS_all: "set COMMAND_IDS = UNIV"
proof -
  have "i \<in> set COMMAND_IDS" for i by (cases i) (simp_all add: COMMAND_IDS_def)
  then show ?thesis by blast
qed

lemma findDescriptor_total: "\<exists>d. findDescriptor i = Some d \<and> commandId d = i"
  by (cases i) (simp_all add: findDescriptor_def COMMAND_CATALOG_def descriptor_def)

lemma commandDescriptor_id: "commandId (commandDescriptor i) = i"
  using findDescriptor_total [of i] by (auto simp: commandDescriptor_def)

end
