(* ===== verification/ContextKeys.thy ===== *)
theory ContextKeys
  imports KeyStrings
begin

text \<open>
  The matching of key events against chords, \<open>packages/yaade-workspace/src/context-keys.ts\<close>, and the state of
  a pending chord. \<open>mac\<close> is the answer of \<open>isMacPlatform\<close>, which reads the browser; \<open>cs\<close> holds the case mappings.
  Times are in milliseconds. The lemmas say which modifiers a chord accepts and when a chord expires.
\<close>

record key_event =
  eventKey :: jstr
  eventCode :: jstr
  metaKey :: bool
  ctrlKey :: bool
  altKey :: bool
  shiftKey :: bool

record parsed_key_part =
  partModifiers :: "jstr set"
  partKey :: jstr

definition MODIFIERS :: "jstr set" where
  "MODIFIERS = {js ''Mod'', js ''Cmd'', js ''Ctrl'', js ''Alt'', js ''Shift''}"

fun readSegments :: "jstr list \<Rightarrow> parsed_key_part \<Rightarrow> parsed_key_part" where
  "readSegments [] p = p"
| "readSegments (s # ss) p =
     readSegments ss
       (if s \<in> MODIFIERS then p\<lparr>partModifiers := insert s (partModifiers p)\<rparr> else p\<lparr>partKey := s\<rparr>)"

definition parseKeyPart :: "jstr \<Rightarrow> parsed_key_part" where
  "parseKeyPart part =
     (let p = readSegments (nonEmpty (splitOn hyphen part)) \<lparr>partModifiers = {}, partKey = []\<rparr>
      in if partKey p = [] \<and> endsWith part (js ''-'') then p\<lparr>partKey := js ''-''\<rparr> else p)"

definition parseBindingKey :: "jstr \<Rightarrow> jstr list" where
  "parseBindingKey key = nonEmpty (splitWhite (trim key))"

definition normalizeBindingKey :: "casing \<Rightarrow> jstr \<Rightarrow> jstr" where
  "normalizeBindingKey cs key =
     (if key = js ''Backquote'' then js ''`'' else if length key = 1 then toLowerCase cs key else key)"

definition keyFromCode :: "casing \<Rightarrow> jstr \<Rightarrow> jstr option" where
  "keyFromCode cs code =
     (if length code = 4 \<and> startsWithText code (js ''Key'') \<and> isUpper (last code) then Some (toLowerCase cs [last code])
      else if length code = 6 \<and> startsWithText code (js ''Digit'') \<and> isDigit (last code) then Some [last code]
      else if code = js ''Backquote'' then Some (js ''`'')
      else if code = js ''Minus'' then Some (js ''-'')
      else if code = js ''Equal'' then Some (js ''='')
      else if code = js ''BracketLeft'' then Some (js ''['')
      else if code = js ''BracketRight'' then Some (js '']'')
      else if code = js ''Backslash'' then Some [92]
      else if code = js ''Semicolon'' then Some (js '';'')
      else if code = js ''Quote'' then Some [39]
      else if code = js ''Comma'' then Some (js '','')
      else if code = js ''Period'' then Some (js ''.'')
      else if code = js ''Slash'' then Some (js ''/'')
      else None)"

definition eventKeyMatches :: "casing \<Rightarrow> jstr \<Rightarrow> 'a key_event_scheme \<Rightarrow> bool" where
  "eventKeyMatches cs expected e =
     (let want = normalizeBindingKey cs expected;
          fromKey = normalizeBindingKey cs (eventKey e)
      in if fromKey = want then True
         else (case (if eventCode e \<noteq> [] then keyFromCode cs (eventCode e) else None) of
                 Some fromCode \<Rightarrow> normalizeBindingKey cs fromCode = want
               | None \<Rightarrow> False))"

definition keyEventMatchesBindingPart :: "bool \<Rightarrow> casing \<Rightarrow> 'a key_event_scheme \<Rightarrow> jstr \<Rightarrow> bool" where
  "keyEventMatchesBindingPart mac cs e part =
     (let p = parseKeyPart part;
          needsShift = js ''Shift'' \<in> partModifiers p;
          needsAlt = js ''Alt'' \<in> partModifiers p;
          needsMod = js ''Mod'' \<in> partModifiers p;
          needsCmd = js ''Cmd'' \<in> partModifiers p;
          needsCtrl = js ''Ctrl'' \<in> partModifiers p;
          wantMeta = (needsCmd \<or> needsMod \<and> mac);
          wantCtrl = (needsCtrl \<or> needsMod \<and> \<not> mac)
      in if needsShift \<noteq> shiftKey e then False
         else if needsAlt \<noteq> altKey e then False
         else if wantMeta \<and> wantCtrl \<and> (\<not> metaKey e \<or> \<not> ctrlKey e) then False
         else if \<not> (wantMeta \<and> wantCtrl) \<and> wantMeta \<and> \<not> metaKey e then False
         else if \<not> wantMeta \<and> wantCtrl \<and> (\<not> ctrlKey e \<or> metaKey e) then False
         else if \<not> wantMeta \<and> \<not> wantCtrl \<and> (metaKey e \<or> ctrlKey e) then False
         else eventKeyMatches cs (partKey p) e)"

definition keyEventMatchesBinding :: "bool \<Rightarrow> casing \<Rightarrow> 'a key_event_scheme \<Rightarrow> jstr \<Rightarrow> bool" where
  "keyEventMatchesBinding mac cs e key =
     (case parseBindingKey key of [part] \<Rightarrow> keyEventMatchesBindingPart mac cs e part | _ \<Rightarrow> False)"

subsection \<open>A pending chord\<close>

record chord_state =
  prefix :: "jstr option"
  expiresAt :: int

definition CHORD_TIMEOUT_MS :: int where
  "CHORD_TIMEOUT_MS = 2500"

definition createChordState :: chord_state where
  "createChordState = \<lparr>prefix = None, expiresAt = 0\<rparr>"

definition chordIsActive :: "chord_state \<Rightarrow> int \<Rightarrow> bool" where
  "chordIsActive st now \<longleftrightarrow> prefix st \<noteq> None \<and> now < expiresAt st"

definition startChord :: "jstr \<Rightarrow> int \<Rightarrow> chord_state \<Rightarrow> chord_state" where
  "startChord p now st = st\<lparr>prefix := Some p, expiresAt := now + CHORD_TIMEOUT_MS\<rparr>"

definition clearChord :: "chord_state \<Rightarrow> chord_state" where
  "clearChord st = st\<lparr>prefix := None, expiresAt := 0\<rparr>"

subsection \<open>Facts\<close>

lemma clearChord_create [simp]: "clearChord st = createChordState"
  by (cases st) (simp add: clearChord_def createChordState_def)

lemma inactive_create [simp]: "\<not> chordIsActive createChordState now"
  by (simp add: chordIsActive_def createChordState_def)

lemma startChord_window:
  "chordIsActive (startChord p now st) later \<longleftrightarrow> later < now + CHORD_TIMEOUT_MS"
  by (simp add: chordIsActive_def startChord_def)

text \<open>The modifiers of the event are those of the chord; the Meta key alone may stand beside Control when Meta is wanted.\<close>

lemma part_modifiers:
  assumes "keyEventMatchesBindingPart mac cs e part"
  shows "shiftKey e \<longleftrightarrow> js ''Shift'' \<in> partModifiers (parseKeyPart part)"
    and "altKey e \<longleftrightarrow> js ''Alt'' \<in> partModifiers (parseKeyPart part)"
    and "metaKey e \<longleftrightarrow> js ''Cmd'' \<in> partModifiers (parseKeyPart part) \<or> mac \<and> js ''Mod'' \<in> partModifiers (parseKeyPart part)"
  using assms unfolding keyEventMatchesBindingPart_def Let_def by (auto split: if_splits)

lemma plain_key_no_chord:
  assumes "keyEventMatchesBinding mac cs e key" "\<not> metaKey e" "\<not> ctrlKey e"
  shows "\<exists>part. parseBindingKey key = [part] \<and> js ''Mod'' \<notin> partModifiers (parseKeyPart part)"
  using assms unfolding keyEventMatchesBinding_def keyEventMatchesBindingPart_def Let_def
  by (auto split: if_splits list.splits)

lemmas [key_eval] = parseKeyPart_def parseBindingKey_def MODIFIERS_def normalizeBindingKey_def keyFromCode_def
  eventKeyMatches_def keyEventMatchesBindingPart_def keyEventMatchesBinding_def

end
