(* ===== verification/KeymapProfile.thy ===== *)
theory KeymapProfile
  imports CommandCatalog ContextKeys
begin

text \<open>
  Keymap profiles, \<open>packages/yaade-app/src/keymap-profile.ts\<close>: the grammar of chords and sequences, their
  risk, and the compilation of a user's profile over the default catalog. The records of bindings are those
  of \<open>packages/yaade-app/src/keybindings.ts\<close>. The case mappings (\<open>cs\<close>), the length of \<open>JSON.stringify\<close> and the
  schema decoders are parameters. The lemmas show what an accepted profile guarantees.
\<close>

definition KEYMAP_PROFILE_VERSION :: int where "KEYMAP_PROFILE_VERSION = 1"
definition MAX_KEYMAP_BINDINGS :: nat where "MAX_KEYMAP_BINDINGS = 128"
definition MAX_KEYMAP_JSON_BYTES :: nat where "MAX_KEYMAP_JSON_BYTES = 32 * 1024"
definition MAX_KEY_BINDING_LENGTH :: nat where "MAX_KEY_BINDING_LENGTH = 64"

datatype keymap_platform = PlatformMac | PlatformWindows | PlatformLinux
datatype binding_context = GlobalContext

record keymap_override =
  overrideCommand :: command_id
  overrideBinding :: "jstr option"
  overrideContext :: binding_context
  confirmedRisky :: "bool option"

record keymap_profile =
  profileVersion :: int
  profileLeader :: jstr
  profileBindings :: "keymap_override list"
  confirmedLeaderRisky :: "bool option"

definition DEFAULT_KEYMAP_PROFILE :: keymap_profile where
  "DEFAULT_KEYMAP_PROFILE =
     \<lparr>profileVersion = KEYMAP_PROFILE_VERSION, profileLeader = js ''Mod-k'', profileBindings = [],
      confirmedLeaderRisky = None\<rparr>"

datatype prefix_group = GroupOpen | GroupNavigate | GroupActions
datatype key_range = TerminalPosition

record prefix_binding =
  pId :: string
  pKey :: jstr
  pCommand :: command_id
  pDesc :: string
  pGroup :: prefix_group
  pHud :: "bool option"
  pKeyRange :: "key_range option"
  pRepeatable :: "bool option"

record direct_binding =
  dId :: string
  dKey :: jstr
  dCommand :: command_id
  dDesc :: string
  dRepeatable :: "bool option"
  dRiskyReason :: "jstr option"

text \<open>There is no context kind: the list \<open>when\<close> of a context binding is empty.\<close>

record context_binding =
  cId :: string
  cKey :: jstr
  cCommand :: command_id
  cDesc :: string
  cRiskyReason :: "jstr option"
  cRepeatable :: "bool option"

record keymap_catalog =
  leader :: jstr
  prefixBindings :: "prefix_binding list"
  directBindings :: "direct_binding list"
  contextBindings :: "context_binding list"

record effective_keymap = keymap_catalog +
  keymapSource :: keymap_profile

datatype keymap_risk = RiskSafe | BrowserRisky | TerminalReserved | WidgetLocal | OsUnavailable | Banned

record risk_classification =
  risk :: keymap_risk
  reason :: "jstr option"

datatype conflict_code =
    BindingLimit | BindingTooLong | InvalidLeader | InvalidBinding | ImmutableRecoveryBinding | DuplicateCommandOverride
  | DuplicateBinding | PrefixAmbiguity | ReservedBinding | RiskyConfirmationRequired
  | RequiredCommandUnreachable | UnsupportedDynamicCommand

record keymap_conflict =
  conflictCode :: conflict_code
  conflictMessage :: jstr
  conflictCommand :: "command_id option"
  conflictBinding :: "jstr option"
  conflictRisk :: "keymap_risk option"

type_synonym compile_result = "keymap_conflict list + effective_keymap"

datatype decode_diagnostic = DiagnosticEmpty | DiagnosticOversized | DiagnosticInvalid | DiagnosticNewerVersion

section \<open>The grammar of chords\<close>

definition MODIFIER_ORDER :: "jstr list" where
  "MODIFIER_ORDER = [js ''Mod'', js ''Cmd'', js ''Ctrl'', js ''Alt'', js ''Shift'']"

text \<open>A later entry of a \<open>Map\<close> replaces an earlier one.\<close>

definition MODIFIER_NAMES :: "casing \<Rightarrow> jstr \<Rightarrow> jstr option" where
  "MODIFIER_NAMES cs =
     map_of (rev (concat (map (\<lambda>modifier.
       [(toLowerCase cs modifier, modifier),
        (if modifier = js ''Cmd'' then js ''meta'' else toLowerCase cs modifier, modifier)]) MODIFIER_ORDER)))"

definition NAMED_KEYS :: "jstr \<Rightarrow> jstr option" where
  "NAMED_KEYS = map_of
     [(js ''esc'', js ''Escape''), (js ''escape'', js ''Escape''), (js ''enter'', js ''Enter''),
      (js ''return'', js ''Enter''), (js ''space'', js ''Space''), (js ''tab'', js ''Tab''),
      (js ''backspace'', js ''Backspace''), (js ''delete'', js ''Delete''), (js ''home'', js ''Home''),
      (js ''end'', js ''End''), (js ''arrowup'', js ''ArrowUp''), (js ''arrowdown'', js ''ArrowDown''),
      (js ''arrowleft'', js ''ArrowLeft''), (js ''arrowright'', js ''ArrowRight''),
      (js ''pageup'', js ''PageUp''), (js ''pagedown'', js ''PageDown'')]"

definition WIDGET_LOCAL_KEYS :: "jstr list" where
  "WIDGET_LOCAL_KEYS =
     [js ''Escape'', js ''Enter'', js ''Space'', js ''Tab'', js ''Home'', js ''End'', js ''ArrowUp'',
      js ''ArrowDown'', js ''ArrowLeft'', js ''ArrowRight'', js ''PageUp'', js ''PageDown'']"

definition PRIMARY_UNAVAILABLE_KEYS :: "jstr list" where
  "PRIMARY_UNAVAILABLE_KEYS =
     [js ''0'', js ''1'', js ''2'', js ''3'', js ''4'', js ''5'', js ''6'', js ''7'', js ''8'', js ''9'',
      js ''='', js ''-'', js ''f'', js ''l'', js ''n'', js ''p'', js ''q'', js ''r'', js ''t'', js ''w'']"

text \<open>The keys \<open>F1\<close> to \<open>F12\<close>, in either case.\<close>

definition functionKey :: "jstr \<Rightarrow> bool" where
  "functionKey t \<longleftrightarrow>
     (case t of
        [f, d] \<Rightarrow> (f = 70 \<or> f = 102) \<and> 49 \<le> d \<and> d \<le> 57
      | [f, d, d'] \<Rightarrow> (f = 70 \<or> f = 102) \<and> d = 49 \<and> 48 \<le> d' \<and> d' \<le> 50
      | _ \<Rightarrow> False)"

definition normalizedKey :: "casing \<Rightarrow> jstr \<Rightarrow> jstr option" where
  "normalizedKey cs v =
     (let trimmed = trim v in
      if length trimmed = 1 \<and> trimmed \<noteq> js '' '' then Some (toLowerCase cs trimmed)
      else case NAMED_KEYS (toLowerCase cs trimmed) of
             Some named \<Rightarrow> Some named
           | None \<Rightarrow> if functionKey trimmed then Some (toUpperCase cs trimmed) else None)"

fun readModifiers :: "casing \<Rightarrow> jstr list \<Rightarrow> jstr list \<Rightarrow> jstr list option" where
  "readModifiers cs [] modifiers = Some modifiers"
| "readModifiers cs (raw # rest) modifiers =
     (case MODIFIER_NAMES cs (toLowerCase cs raw) of
        None \<Rightarrow> None
      | Some modifier \<Rightarrow>
          if modifier \<in> set modifiers then None else readModifiers cs rest (modifiers @ [modifier]))"

text \<open>A normalised key is never empty as long as \<open>toLowerCase\<close> keeps a character; \<open>!key\<close> is written out.\<close>

definition normalizeKeyChord :: "casing \<Rightarrow> jstr \<Rightarrow> jstr option" where
  "normalizeKeyChord cs v =
     (let trimmed = trim v in
      if trimmed = [] \<or> MAX_KEY_BINDING_LENGTH < length trimmed \<or> list_ex jsSpace trimmed then None
      else let raw = splitOn hyphen trimmed;
               hyphenated = endsWith trimmed (js ''-'');
               rawKey = (if hyphenated then js ''-'' else last raw);
               modifierSegments = (if hyphenated then nonEmpty raw else butlast raw)
           in if rawKey = [] then None
              else case readModifiers cs modifierSegments [] of
                None \<Rightarrow> None
              | Some modifiers \<Rightarrow>
                  if js ''Mod'' \<in> set modifiers \<and> (js ''Cmd'' \<in> set modifiers \<or> js ''Ctrl'' \<in> set modifiers)
                  then None
                  else case normalizedKey cs rawKey of
                    None \<Rightarrow> None
                  | Some key \<Rightarrow>
                      if key = [] then None
                      else Some (joinOn hyphen
                             (filter (\<lambda>modifier. modifier \<in> set modifiers) MODIFIER_ORDER @ [key])))"

definition normalizePrefixKey :: "casing \<Rightarrow> jstr \<Rightarrow> jstr option" where
  "normalizePrefixKey cs v =
     (case normalizeKeyChord cs v of
        None \<Rightarrow> None
      | Some chord \<Rightarrow>
          if chord = [] then None
          else let segments = splitOn hyphen chord; key = last segments; modifiers = butlast segments
               in if key = [] \<or> list_ex (\<lambda>modifier. modifier \<noteq> js ''Shift'') modifiers then None
                  else if key \<in> set WIDGET_LOCAL_KEYS \<or> length key \<noteq> 1 then None
                  else if modifiers = [] then Some key
                  else Some (js ''Shift-'' @ toUpperCase cs key))"

definition normalizeKeySequence :: "casing \<Rightarrow> jstr \<Rightarrow> jstr option" where
  "normalizeKeySequence cs v =
     (let trimmed = trim v in
      if trimmed = [] \<or> MAX_KEY_BINDING_LENGTH < length trimmed then None
      else case splitWhite trimmed of
        [part] \<Rightarrow> normalizeKeyChord cs part
      | [lead, part] \<Rightarrow>
          if toLowerCase cs lead \<noteq> js ''leader'' then None
          else (case normalizePrefixKey cs part of
                  None \<Rightarrow> None
                | Some key \<Rightarrow> Some (js ''Leader '' @ key))
      | _ \<Rightarrow> None)"

definition chordParts :: "jstr \<Rightarrow> jstr list \<times> jstr" where
  "chordParts binding = (let segments = splitOn hyphen binding in (butlast segments, last segments))"

definition canonicalChordForPlatform :: "jstr \<Rightarrow> keymap_platform \<Rightarrow> jstr" where
  "canonicalChordForPlatform binding platform =
     (let (modifiers, key) = chordParts binding;
          resolved = map (\<lambda>modifier.
            if modifier \<noteq> js ''Mod'' then modifier
            else if platform = PlatformMac then js ''Cmd'' else js ''Ctrl'') modifiers
      in joinOn hyphen (resolved @ [key]))"

definition isPrimaryModifier :: "jstr list \<Rightarrow> keymap_platform \<Rightarrow> bool" where
  "isPrimaryModifier modifiers platform \<longleftrightarrow>
     js ''Mod'' \<in> set modifiers \<or>
     (if platform = PlatformMac then js ''Cmd'' \<in> set modifiers else js ''Ctrl'' \<in> set modifiers)"

section \<open>The risk of a binding\<close>

datatype binding_kind = LeaderBinding | DirectBinding | PrefixBinding

definition safeBinding :: risk_classification where
  "safeBinding = \<lparr>risk = RiskSafe, reason = None\<rparr>"

definition risky :: "keymap_risk \<Rightarrow> jstr \<Rightarrow> risk_classification" where
  "risky r t = \<lparr>risk = r, reason = Some t\<rparr>"

text \<open>The chords \<open>Mod-letter\<close> and \<open>Ctrl-letter\<close> that may lead.\<close>

definition leaderChord :: "jstr \<Rightarrow> bool" where
  "leaderChord t \<longleftrightarrow>
     (case rev t of
        letter # rest \<Rightarrow> isLower letter \<and> (rev rest = js ''Mod-'' \<or> rev rest = js ''Ctrl-'')
      | [] \<Rightarrow> False)"

text \<open>What leaders and direct chords have in common once their own rules have passed.\<close>

definition classifyChord :: "binding_kind \<Rightarrow> jstr \<Rightarrow> keymap_platform \<Rightarrow> risk_classification" where
  "classifyChord kind normalized platform =
     (let (modifiers, key) = chordParts normalized in
      if js ''Cmd'' \<in> set modifiers \<and> platform \<noteq> PlatformMac then
        risky OsUnavailable (js ''Cmd bindings are unavailable on this platform.'')
      else if isPrimaryModifier modifiers platform \<and> key \<in> set PRIMARY_UNAVAILABLE_KEYS then
        risky OsUnavailable (normalized @ js '' is reserved by the browser or operating system.'')
      else if kind = LeaderBinding \<and> (normalized = js ''Mod-k'' \<or> startsWithText normalized (js ''Ctrl-'')) then safeBinding
      else if normalized = js ''Mod-,'' then safeBinding
      else risky BrowserRisky (normalized @ js '' may replace a browser shortcut and needs explicit confirmation.''))"

definition classifyKeyBinding :: "casing \<Rightarrow> jstr \<Rightarrow> binding_kind \<Rightarrow> keymap_platform \<Rightarrow> risk_classification" where
  "classifyKeyBinding cs binding kind platform =
     (if kind = PrefixBinding then
        (case normalizePrefixKey cs binding of
           None \<Rightarrow> risky WidgetLocal (js ''Leader keys must be one printable key.'')
         | Some normalized \<Rightarrow>
             if toLowerCase cs normalized = js ''p'' then
               risky Banned (js ''Prefix p is a removed alias and stays reserved.'')
             else safeBinding)
      else case normalizeKeyChord cs binding of
        None \<Rightarrow> risky WidgetLocal (js ''The chord is outside the key grammar.'')
      | Some normalized \<Rightarrow>
          (let (modifiers, key) = chordParts normalized in
           if key \<in> set WIDGET_LOCAL_KEYS then
             risky WidgetLocal (key @ js '' remains local to terminal and list widgets.'')
           else if kind = LeaderBinding then
             (if \<not> leaderChord normalized then
                risky TerminalReserved (js ''Leaders must be Mod-letter or Ctrl-letter chords with an exact control byte.'')
              else classifyChord kind normalized platform)
           else if normalized = js ''Mod-k'' \<or> normalized = js ''Mod-Shift-p'' then
             risky Banned (normalized @ js '' is a removed direct alias.'')
           else if \<not> isPrimaryModifier modifiers platform \<or> js ''Alt'' \<in> set modifiers
                 \<or> js ''Ctrl'' \<in> set modifiers \<and> js ''Mod'' \<notin> set modifiers then
             risky TerminalReserved (js ''Plain, Alt, and explicit terminal Ctrl chords pass through to the PTY.'')
           else classifyChord kind normalized platform))"

definition groupFor :: "command_id \<Rightarrow> prefix_group" where
  "groupFor command =
     (case category (commandDescriptor command) of
        CategoryNavigation \<Rightarrow> GroupNavigate
      | CategorySession \<Rightarrow> GroupOpen
      | _ \<Rightarrow> GroupActions)"

section \<open>The compilation of a profile\<close>

definition conflict :: "conflict_code \<Rightarrow> jstr \<Rightarrow> command_id option \<Rightarrow> jstr option \<Rightarrow> keymap_risk option \<Rightarrow> keymap_conflict" where
  "conflict code message command binding r =
     \<lparr>conflictCode = code, conflictMessage = message, conflictCommand = command, conflictBinding = binding,
      conflictRisk = r\<rparr>"

abbreviation titleOf :: "command_id \<Rightarrow> jstr" where
  "titleOf command \<equiv> js (commandTitle (commandDescriptor command))"

definition limitConflicts :: "(keymap_profile \<Rightarrow> nat) \<Rightarrow> keymap_profile \<Rightarrow> keymap_conflict list" where
  "limitConflicts jsonLength profile =
     (if MAX_KEYMAP_BINDINGS < length (profileBindings profile)
      then [conflict BindingLimit (js ''Profiles may contain at most 128 overrides.'') None None None] else [])
     @ (if MAX_KEYMAP_JSON_BYTES < jsonLength profile
        then [conflict BindingLimit (js ''The keymap profile exceeds the 32 KiB limit.'') None None None] else [])"

definition leaderConflicts :: "casing \<Rightarrow> keymap_profile \<Rightarrow> keymap_platform \<Rightarrow> keymap_conflict list" where
  "leaderConflicts cs profile platform =
     (case normalizeKeyChord cs (profileLeader profile) of
        None \<Rightarrow> [conflict InvalidLeader (js ''The leader is not a valid key chord.'') None (Some (profileLeader profile)) None]
      | Some lead \<Rightarrow>
          (let c = classifyKeyBinding cs lead LeaderBinding platform in
           if risk c = BrowserRisky \<and> confirmedLeaderRisky profile \<noteq> Some True then
             [conflict RiskyConfirmationRequired
               (case reason c of Some t \<Rightarrow> t | None \<Rightarrow> js ''The leader needs confirmation.'')
               None (Some lead) (Some (risk c))]
           else if risk c \<noteq> RiskSafe \<and> risk c \<noteq> BrowserRisky then
             [conflict ReservedBinding (case reason c of Some t \<Rightarrow> t | None \<Rightarrow> js ''The leader is reserved.'')
               None (Some lead) (Some (risk c))]
           else []))"

text \<open>
  The first override of each command, in the order of the profile, and a conflict for each further one. The
  first argument holds the overrides kept so far.
\<close>

fun collectOverrides :: "keymap_override list \<Rightarrow> keymap_override list \<Rightarrow> keymap_override list \<times> keymap_conflict list" where
  "collectOverrides kept [] = (kept, [])"
| "collectOverrides kept (v # vs) =
     (if overrideCommand v \<in> overrideCommand ` set kept then
        (let (kept', cs) = collectOverrides kept vs in
         (kept', conflict DuplicateCommandOverride (titleOf (overrideCommand v) @ js '' has more than one override.'')
                   (Some (overrideCommand v)) None None # cs))
      else collectOverrides (kept @ [v]) vs)"

record placement =
  placedPrefix :: "prefix_binding list"
  placedDirect :: "direct_binding list"
  placedConflicts :: "keymap_conflict list"

definition reject :: "conflict_code \<Rightarrow> jstr \<Rightarrow> keymap_override \<Rightarrow> jstr option \<Rightarrow> keymap_risk option \<Rightarrow> placement \<Rightarrow> placement" where
  "reject code message v binding r p =
     p\<lparr>placedConflicts := placedConflicts p @ [conflict code message (Some (overrideCommand v)) binding r]\<rparr>"

definition overrideId :: "command_id \<Rightarrow> string" where
  "overrideId command = ''override.'' @ commandText command"

definition placePrefix :: "casing \<Rightarrow> keymap_platform \<Rightarrow> keymap_override \<Rightarrow> jstr \<Rightarrow> placement \<Rightarrow> placement" where
  "placePrefix cs platform v sequence p =
     (let key = drop (length (js ''Leader '')) sequence;
          c = classifyKeyBinding cs key PrefixBinding platform
      in if risk c \<noteq> RiskSafe then
           reject ReservedBinding (case reason c of Some t \<Rightarrow> t | None \<Rightarrow> js ''The leader key is reserved.'')
             v (Some sequence) (Some (risk c)) p
         else p\<lparr>placedPrefix := placedPrefix p @
                  [\<lparr>pId = overrideId (overrideCommand v), pKey = key, pCommand = overrideCommand v,
                    pDesc = commandTitle (commandDescriptor (overrideCommand v)),
                    pGroup = groupFor (overrideCommand v), pHud = None, pKeyRange = None, pRepeatable = None\<rparr>]\<rparr>)"

definition placeDirect :: "casing \<Rightarrow> keymap_platform \<Rightarrow> keymap_override \<Rightarrow> jstr \<Rightarrow> placement \<Rightarrow> placement" where
  "placeDirect cs platform v sequence p =
     (let c = classifyKeyBinding cs sequence DirectBinding platform in
      if risk c = BrowserRisky \<and> confirmedRisky v \<noteq> Some True then
        reject RiskyConfirmationRequired (case reason c of Some t \<Rightarrow> t | None \<Rightarrow> js ''The binding needs confirmation.'')
          v (Some sequence) (Some (risk c)) p
      else if risk c \<noteq> RiskSafe \<and> risk c \<noteq> BrowserRisky then
        reject ReservedBinding (case reason c of Some t \<Rightarrow> t | None \<Rightarrow> js ''The binding is reserved.'')
          v (Some sequence) (Some (risk c)) p
      else p\<lparr>placedDirect := placedDirect p @
               [\<lparr>dId = overrideId (overrideCommand v), dKey = sequence, dCommand = overrideCommand v,
                 dDesc = commandTitle (commandDescriptor (overrideCommand v)), dRepeatable = None,
                 dRiskyReason = (if risk c = BrowserRisky then reason c else None)\<rparr>]\<rparr>)"

definition placeOverride :: "casing \<Rightarrow> keymap_platform \<Rightarrow> keymap_override \<Rightarrow> placement \<Rightarrow> placement" where
  "placeOverride cs platform v p =
     (if overrideCommand v = SettingsShow then
        reject ImmutableRecoveryBinding (js ''Open settings keeps Mod-, as an immutable keyboard recovery path.'')
          v (overrideBinding v) None p
      else case overrideBinding v of
        None \<Rightarrow> p
      | Some binding \<Rightarrow>
          if overrideCommand v = TerminalJump then
            reject UnsupportedDynamicCommand (js ''Terminal position jump keeps its 1'' @ 0x2013 # js ''9 range binding.'')
              v (Some binding) None p
          else if MAX_KEY_BINDING_LENGTH < length binding then
            reject BindingTooLong (js ''Bindings may be at most 64 characters.'') v (Some binding) None p
          else case normalizeKeySequence cs binding of
            None \<Rightarrow> reject InvalidBinding (titleOf (overrideCommand v) @ js '' has an invalid binding.'')
                      v (Some binding) None p
          | Some sequence \<Rightarrow>
              if startsWithText sequence (js ''Leader '') then placePrefix cs platform v sequence p
              else placeDirect cs platform v sequence p)"

definition prefixKeyOf :: "casing \<Rightarrow> jstr \<Rightarrow> jstr" where
  "prefixKeyOf cs key = (case normalizePrefixKey cs key of Some k \<Rightarrow> k | None \<Rightarrow> key)"

definition directKeyOf :: "casing \<Rightarrow> keymap_platform \<Rightarrow> jstr \<Rightarrow> jstr" where
  "directKeyOf cs platform key =
     canonicalChordForPlatform (case normalizeKeyChord cs key of Some k \<Rightarrow> k | None \<Rightarrow> key) platform"

text \<open>
  One pass over bindings, given as their map key, key and command: the map from keys to commands, and a conflict
  for each key that is taken.
\<close>

fun assignKeys :: "(jstr \<rightharpoonup> command_id) \<Rightarrow> (jstr \<times> jstr \<times> command_id) list \<Rightarrow> (jstr \<rightharpoonup> command_id) \<times> keymap_conflict list" where
  "assignKeys m [] = (m, [])"
| "assignKeys m ((mapKey, key, command) # bs) =
     (case m mapKey of
        Some previous \<Rightarrow>
          (let (m', cs) = assignKeys m bs in
           (m', conflict DuplicateBinding (key @ js '' is already assigned to '' @ titleOf previous @ js ''.'')
                  (Some command) (Some key) None # cs))
      | None \<Rightarrow> assignKeys (m(mapKey \<mapsto> command)) bs)"

definition prefixEntries :: "casing \<Rightarrow> prefix_binding list \<Rightarrow> (jstr \<times> jstr \<times> command_id) list" where
  "prefixEntries cs bs = map (\<lambda>b. (prefixKeyOf cs (pKey b), pKey b, pCommand b)) bs"

definition directEntries :: "casing \<Rightarrow> keymap_platform \<Rightarrow> direct_binding list \<Rightarrow> (jstr \<times> jstr \<times> command_id) list" where
  "directEntries cs platform bs = map (\<lambda>b. (directKeyOf cs platform (dKey b), dKey b, dCommand b)) bs"

definition ambiguityConflicts :: "casing \<Rightarrow> keymap_profile \<Rightarrow> keymap_platform \<Rightarrow> (jstr \<rightharpoonup> command_id) \<Rightarrow> keymap_conflict list" where
  "ambiguityConflicts cs profile platform directKeys =
     (case normalizeKeyChord cs (profileLeader profile) of
        None \<Rightarrow> []
      | Some lead \<Rightarrow>
          (case directKeys (canonicalChordForPlatform lead platform) of
             None \<Rightarrow> []
           | Some ambiguous \<Rightarrow>
               [conflict PrefixAmbiguity
                  (lead @ js '' cannot be both the leader and '' @ titleOf ambiguous @ js ''.'')
                  (Some ambiguous) (Some lead) None]))"

definition requiredCommands :: "command_id list" where
  "requiredCommands = [CommandPaletteShow, SettingsShow, KeymapReset]"

definition requiredConflicts :: "placement \<Rightarrow> keymap_conflict list" where
  "requiredConflicts p =
     map (\<lambda>required. conflict RequiredCommandUnreachable
            (titleOf required @ js '' must keep a keyboard recovery path.'') (Some required) None None)
       (filter (\<lambda>required. \<not> (list_ex (\<lambda>b. pCommand b = required) (placedPrefix p) \<or>
                               list_ex (\<lambda>b. dCommand b = required) (placedDirect p))) requiredCommands)"

definition overridden :: "keymap_override list \<Rightarrow> command_id \<Rightarrow> bool" where
  "overridden kept command \<longleftrightarrow> list_ex (\<lambda>v. overrideCommand v = command) kept"

definition placeOverrides :: "casing \<Rightarrow> 'a keymap_catalog_scheme \<Rightarrow> keymap_override list \<Rightarrow> keymap_platform \<Rightarrow> placement" where
  "placeOverrides cs defaults kept platform =
     fold (placeOverride cs platform) kept
       \<lparr>placedPrefix = filter (\<lambda>b. \<not> overridden kept (pCommand b)) (prefixBindings defaults),
        placedDirect = filter (\<lambda>b. \<not> overridden kept (dCommand b)) (directBindings defaults),
        placedConflicts = []\<rparr>"

definition compileKeymap :: "casing \<Rightarrow> (keymap_profile \<Rightarrow> nat) \<Rightarrow> 'a keymap_catalog_scheme \<Rightarrow> keymap_profile \<Rightarrow> keymap_platform \<Rightarrow> compile_result" where
  "compileKeymap cs jsonLength defaults profile platform =
     (let (kept, duplicates) = collectOverrides [] (profileBindings profile);
          p = placeOverrides cs defaults kept platform;
          (prefixKeys, prefixConflicts) = assignKeys Map.empty (prefixEntries cs (placedPrefix p));
          (directKeys, directConflicts) = assignKeys Map.empty (directEntries cs platform (placedDirect p));
          conflicts = limitConflicts jsonLength profile @ leaderConflicts cs profile platform @ duplicates
            @ placedConflicts p @ prefixConflicts @ directConflicts
            @ ambiguityConflicts cs profile platform directKeys @ requiredConflicts p
      in case normalizeKeyChord cs (profileLeader profile) of
           None \<Rightarrow> Inl conflicts
         | Some lead \<Rightarrow>
             if conflicts \<noteq> [] then Inl conflicts
             else Inr \<lparr>leader = lead, prefixBindings = placedPrefix p, directBindings = placedDirect p,
               contextBindings = filter (\<lambda>b. \<not> overridden kept (cCommand b)) (contextBindings defaults),
               keymapSource = profile\<rparr>)"


section \<open>Profiles as JSON, platforms and the recorder\<close>

text \<open>
  \<open>decode\<close> is the schema decoder of profiles over \<open>JSON.parse\<close>; \<open>versionProbe\<close> reads the number in the field
  \<open>version\<close>.
\<close>

definition decodeKeymapProfileJson ::
  "(jstr \<Rightarrow> keymap_profile option) \<Rightarrow> (jstr \<Rightarrow> rat option) \<Rightarrow> jstr option \<Rightarrow> decode_diagnostic + keymap_profile" where
  "decodeKeymapProfileJson decode versionProbe raw =
     (case raw of
        None \<Rightarrow> Inl DiagnosticEmpty
      | Some t \<Rightarrow>
          if MAX_KEYMAP_JSON_BYTES < byteLength t then Inl DiagnosticOversized
          else if trim t = [] then Inl DiagnosticEmpty
          else case decode t of
            Some profile \<Rightarrow> Inr profile
          | None \<Rightarrow>
              (case versionProbe t of
                 Some v \<Rightarrow> if v > of_int KEYMAP_PROFILE_VERSION then Inl DiagnosticNewerVersion else Inl DiagnosticInvalid
               | None \<Rightarrow> Inl DiagnosticInvalid))"

text \<open>\<open>containsText\<close> is the test of an unanchored regular expression without special characters.\<close>

fun containsText :: "jstr \<Rightarrow> jstr \<Rightarrow> bool" where
  "containsText pattern [] = (pattern = [])"
| "containsText pattern (c # t) = (startsWithText (c # t) pattern \<or> containsText pattern t)"

definition foldCase :: "jstr \<Rightarrow> jstr" where
  "foldCase t = map (\<lambda>n. if isUpper n then n + 32 else n) t"

definition keymapPlatform :: "jstr \<Rightarrow> jstr \<Rightarrow> keymap_platform" where
  "keymapPlatform navigatorPlatform processPlatform =
     (if list_ex (\<lambda>p. containsText (foldCase p) (foldCase navigatorPlatform))
           [js ''Mac'', js ''iPhone'', js ''iPad'', js ''iPod''] \<or> processPlatform = js ''darwin'' then PlatformMac
      else if containsText (foldCase (js ''Win'')) (foldCase navigatorPlatform) \<or> processPlatform = js ''win32''
      then PlatformWindows else PlatformLinux)"

definition recordedModifiers :: "'a key_event_scheme \<Rightarrow> keymap_platform \<Rightarrow> jstr list" where
  "recordedModifiers e platform =
     (if (if platform = PlatformMac then metaKey e else ctrlKey e) then [js ''Mod''] else [])
     @ (if platform = PlatformMac \<and> ctrlKey e then [js ''Ctrl''] else [])
     @ (if platform \<noteq> PlatformMac \<and> metaKey e then [js ''Cmd''] else [])
     @ (if altKey e then [js ''Alt''] else [])
     @ (if shiftKey e then [js ''Shift''] else [])"

definition bindingFromKeyboardEvent :: "casing \<Rightarrow> 'a key_event_scheme \<Rightarrow> keymap_platform \<Rightarrow> jstr option" where
  "bindingFromKeyboardEvent cs e platform =
     (case (if eventKey e = js '' '' then Some (js ''Space'') else normalizedKey cs (eventKey e)) of
        None \<Rightarrow> None
      | Some key \<Rightarrow>
          if key = [] \<or> key = js ''Escape'' then None
          else normalizeKeyChord cs (joinOn hyphen (recordedModifiers e platform @ [key])))"


section \<open>What an accepted profile guarantees\<close>

lemma collectOverrides_clean:
  assumes "collectOverrides kept vs = (kept', [])" "distinct (map overrideCommand kept)"
  shows "kept' = kept @ vs \<and> distinct (map overrideCommand (kept @ vs))"
  using assms
proof (induction vs arbitrary: kept)
  case (Cons v vs)
  have new: "overrideCommand v \<notin> overrideCommand ` set kept"
    using Cons.prems(1) by (auto split: if_splits prod.splits)
  then have "collectOverrides (kept @ [v]) vs = (kept', [])" "distinct (map overrideCommand (kept @ [v]))"
    using Cons.prems by auto
  from Cons.IH [OF this] show ?case by simp
qed simp

lemma reject_fields [simp]:
  "placedPrefix (reject code t v b r p) = placedPrefix p"
  "placedDirect (reject code t v b r p) = placedDirect p"
  "placedConflicts (reject code t v b r p) = placedConflicts p @ [conflict code t (Some (overrideCommand v)) b r]"
  by (simp_all add: reject_def)

text \<open>What one override does when it raises no conflict.\<close>

inductive placed :: "casing \<Rightarrow> keymap_override \<Rightarrow> placement \<Rightarrow> placement \<Rightarrow> bool" for cs v p where
  unbound: "overrideBinding v = None \<Longrightarrow> placed cs v p p"
| onPrefix: "\<lbrakk>overrideBinding v = Some binding; normalizeKeySequence cs binding = Some sequence;
     startsWithText sequence (js ''Leader ''); pCommand b = overrideCommand v;
     pKey b = drop (length (js ''Leader '')) sequence; pKeyRange b = None\<rbrakk>
   \<Longrightarrow> placed cs v p (p\<lparr>placedPrefix := placedPrefix p @ [b]\<rparr>)"
| onDirect: "\<lbrakk>overrideBinding v = Some binding; normalizeKeySequence cs binding = Some sequence;
     \<not> startsWithText sequence (js ''Leader ''); dCommand b = overrideCommand v; dKey b = sequence\<rbrakk>
   \<Longrightarrow> placed cs v p (p\<lparr>placedDirect := placedDirect p @ [b]\<rparr>)"

lemma placePrefix_cases:
  "(\<exists>code t s r. placePrefix cs platform v sequence p = reject code t v s r p) \<or>
   (\<exists>b. placePrefix cs platform v sequence p = p\<lparr>placedPrefix := placedPrefix p @ [b]\<rparr> \<and>
      pCommand b = overrideCommand v \<and> pKey b = drop (length (js ''Leader '')) sequence \<and> pKeyRange b = None)"
proof (cases "risk (classifyKeyBinding cs (drop (length (js ''Leader '')) sequence) PrefixBinding platform) = RiskSafe")
  case True
  then show ?thesis unfolding placePrefix_def Let_def
    by (intro disjI2 exI conjI) (simp_all only: if_False not_True_eq_False True simp_thms, simp_all)
next
  case False
  then show ?thesis unfolding placePrefix_def Let_def if_P [OF False] by blast
qed

lemma placeDirect_cases:
  "(\<exists>code t s r. placeDirect cs platform v sequence p = reject code t v s r p) \<or>
   (\<exists>b. placeDirect cs platform v sequence p = p\<lparr>placedDirect := placedDirect p @ [b]\<rparr> \<and>
      dCommand b = overrideCommand v \<and> dKey b = sequence)"
proof -
  let ?c = "classifyKeyBinding cs sequence DirectBinding platform"
  consider (a) "risk ?c = BrowserRisky \<and> confirmedRisky v \<noteq> Some True"
    | (b) "\<not> (risk ?c = BrowserRisky \<and> confirmedRisky v \<noteq> Some True)" "risk ?c \<noteq> RiskSafe \<and> risk ?c \<noteq> BrowserRisky"
    | (c) "\<not> (risk ?c = BrowserRisky \<and> confirmedRisky v \<noteq> Some True)" "\<not> (risk ?c \<noteq> RiskSafe \<and> risk ?c \<noteq> BrowserRisky)"
    by blast
  then show ?thesis
  proof cases
    case a
    then show ?thesis unfolding placeDirect_def Let_def if_P [OF a] by blast
  next
    case b
    then show ?thesis unfolding placeDirect_def Let_def if_not_P [OF b(1)] if_P [OF b(2)] by blast
  next
    case c
    then show ?thesis unfolding placeDirect_def Let_def if_not_P [OF c(1)] if_not_P [OF c(2)]
      by (intro disjI2 exI conjI) (rule refl | simp only: direct_binding.select_convs)+
  qed
qed

lemma placeOverride_cases:
  obtains (rejected) code t s r where "placeOverride cs platform v p = reject code t v s r p"
  | (accepted) "placed cs v p (placeOverride cs platform v p)" "overrideCommand v \<noteq> SettingsShow"
proof (cases "overrideBinding v")
  case None
  show ?thesis
  proof (cases "overrideCommand v = SettingsShow")
    case True
    then show ?thesis using that(1) by (simp add: placeOverride_def)
  next
    case False
    then have "placeOverride cs platform v p = p" using None by (simp add: placeOverride_def)
    with that(2) False placed.unbound [OF None, of cs p] show ?thesis by simp
  qed
next
  case (Some binding)
  let ?long = "MAX_KEY_BINDING_LENGTH < length binding"
  show ?thesis
  proof (cases "overrideCommand v \<in> {SettingsShow, TerminalJump} \<or> ?long \<or> normalizeKeySequence cs binding = None")
    case True
    then consider "overrideCommand v = SettingsShow" | "overrideCommand v = TerminalJump"
      | "overrideCommand v \<noteq> SettingsShow" "overrideCommand v \<noteq> TerminalJump" ?long
      | "overrideCommand v \<noteq> SettingsShow" "overrideCommand v \<noteq> TerminalJump" "\<not> ?long" "normalizeKeySequence cs binding = None"
      by auto
    then have "\<exists>code t s r. placeOverride cs platform v p = reject code t v s r p"
      by cases (simp add: placeOverride_def Some, blast)+
    then show ?thesis using that(1) by blast
  next
    case False
    then obtain sequence where s: "normalizeKeySequence cs binding = Some sequence" by auto
    show ?thesis
    proof (cases "startsWithText sequence (js ''Leader '')")
      case True
      then have eq: "placeOverride cs platform v p = placePrefix cs platform v sequence p"
        using False s Some by (simp add: placeOverride_def)
      show ?thesis
        using placePrefix_cases [of cs platform v sequence p] that eq False True s Some placed.onPrefix [of v binding cs sequence]
        by (metis insertCI)
    next
      case direct: False
      then have eq: "placeOverride cs platform v p = placeDirect cs platform v sequence p"
        using False s Some by (simp add: placeOverride_def)
      show ?thesis
        using placeDirect_cases [of cs platform v sequence p] that eq False direct s Some placed.onDirect [of v binding cs sequence]
        by (metis insertCI)
    qed
  qed
qed

lemma placed_conflicts: "placed cs v p p' \<Longrightarrow> placedConflicts p' = placedConflicts p"
  by (induction rule: placed.induct) auto

lemma placeOverride_monotone: "length (placedConflicts p) \<le> length (placedConflicts (placeOverride cs platform v p))"
  by (rule placeOverride_cases [of cs platform v p]) (auto simp: placed_conflicts)

lemma placeOverride_clean:
  assumes "placedConflicts (placeOverride cs platform v p) = []"
  shows "placed cs v p (placeOverride cs platform v p) \<and> overrideCommand v \<noteq> SettingsShow \<and> placedConflicts p = []"
  by (rule placeOverride_cases [of cs platform v p]) (use assms in \<open>auto simp: placed_conflicts\<close>)

lemma fold_place_conflicts:
  "placedConflicts (fold (placeOverride cs platform) vs p) = [] \<Longrightarrow> placedConflicts p = []"
  by (induction vs arbitrary: p) (auto dest: placeOverride_clean)

text \<open>The bindings of one command.\<close>

definition prefixOf :: "command_id \<Rightarrow> prefix_binding list \<Rightarrow> prefix_binding list" where
  "prefixOf c bs = filter (\<lambda>b. pCommand b = c) bs"

definition directOf :: "command_id \<Rightarrow> direct_binding list \<Rightarrow> direct_binding list" where
  "directOf c bs = filter (\<lambda>b. dCommand b = c) bs"

lemma placed_other:
  assumes "placed cs v p p'" "overrideCommand v \<noteq> c"
  shows "prefixOf c (placedPrefix p') = prefixOf c (placedPrefix p) \<and> directOf c (placedDirect p') = directOf c (placedDirect p)"
  using assms by (induction rule: placed.induct) (auto simp: prefixOf_def directOf_def)

lemma fold_place_other:
  assumes "placedConflicts (fold (placeOverride cs platform) vs p) = []" "c \<notin> overrideCommand ` set vs"
  shows "prefixOf c (placedPrefix (fold (placeOverride cs platform) vs p)) = prefixOf c (placedPrefix p) \<and>
    directOf c (placedDirect (fold (placeOverride cs platform) vs p)) = directOf c (placedDirect p)"
  using assms
proof (induction vs arbitrary: p)
  case (Cons v vs)
  have "placedConflicts (placeOverride cs platform v p) = []"
    using Cons.prems(1) by (auto dest: fold_place_conflicts)
  then have "placed cs v p (placeOverride cs platform v p)" by (simp add: placeOverride_clean)
  with placed_other [OF this, of c] Cons show ?case by auto
qed simp

definition overrideHonoured :: "casing \<Rightarrow> keymap_override \<Rightarrow> prefix_binding list \<Rightarrow> direct_binding list \<Rightarrow> bool" where
  "overrideHonoured cs v ps ds \<longleftrightarrow>
     (case overrideBinding v of
        None \<Rightarrow> ps = [] \<and> ds = []
      | Some binding \<Rightarrow>
          (case normalizeKeySequence cs binding of
             None \<Rightarrow> False
           | Some sequence \<Rightarrow>
               if startsWithText sequence (js ''Leader '')
               then map pKey ps = [drop (length (js ''Leader '')) sequence] \<and> map pKeyRange ps = [None] \<and> ds = []
               else map dKey ds = [sequence] \<and> ps = []))"

lemma placed_honoured:
  assumes "placed cs v p p'" "prefixOf (overrideCommand v) (placedPrefix p) = []"
    "directOf (overrideCommand v) (placedDirect p) = []"
  shows "overrideHonoured cs v (prefixOf (overrideCommand v) (placedPrefix p')) (directOf (overrideCommand v) (placedDirect p'))"
  using assms by (induction rule: placed.induct) (auto simp: overrideHonoured_def prefixOf_def directOf_def)

lemma fold_place_honoured:
  assumes "placedConflicts (fold (placeOverride cs platform) vs p) = []" "distinct (map overrideCommand vs)" "v \<in> set vs"
    "\<And>v. v \<in> set vs \<Longrightarrow> prefixOf (overrideCommand v) (placedPrefix p) = [] \<and> directOf (overrideCommand v) (placedDirect p) = []"
  shows "overrideCommand v \<noteq> SettingsShow \<and>
    overrideHonoured cs v (prefixOf (overrideCommand v) (placedPrefix (fold (placeOverride cs platform) vs p)))
      (directOf (overrideCommand v) (placedDirect (fold (placeOverride cs platform) vs p)))"
  using assms
proof (induction vs arbitrary: p)
  case (Cons w vs)
  let ?q = "placeOverride cs platform w p"
  have clean: "placedConflicts (fold (placeOverride cs platform) vs ?q) = []" using Cons.prems(1) by simp
  then have w: "placed cs w p ?q" "overrideCommand w \<noteq> SettingsShow"
    using fold_place_conflicts placeOverride_clean by blast+
  show ?case
  proof (cases "v = w")
    case True
    then have "overrideCommand v \<notin> overrideCommand ` set vs" using Cons.prems(2) by simp
    with fold_place_other [OF clean this] placed_honoured [OF w(1)] Cons.prems(4) [of w] w(2) True
    show ?thesis by simp
  next
    case False
    have "prefixOf (overrideCommand u) (placedPrefix ?q) = [] \<and> directOf (overrideCommand u) (placedDirect ?q) = []"
      if "u \<in> set vs" for u
    proof -
      have "overrideCommand w \<noteq> overrideCommand u" using Cons.prems(2) that by (auto simp: rev_image_eqI)
      with placed_other [OF w(1) this] Cons.prems(4) [of u] that show ?thesis by simp
    qed
    with Cons.IH [OF clean] Cons.prems(2, 3) False show ?thesis by simp
  qed
qed simp

lemma assignKeys_clean:
  assumes "assignKeys m bs = (m', [])"
  shows "distinct (map fst bs) \<and> dom m \<inter> set (map fst bs) = {} \<and> dom m' = dom m \<union> set (map fst bs)"
  using assms
proof (induction bs arbitrary: m)
  case (Cons b bs)
  obtain k t c where b: "b = (k, t, c)" by (cases b)
  show ?case
  proof (cases "m k")
    case None
    with Cons b have "assignKeys (m(k \<mapsto> c)) bs = (m', [])" by simp
    note ih = Cons.IH [OF this]
    have "dom (m(k \<mapsto> c)) = insert k (dom m)" by (auto simp: dom_def)
    note ih [unfolded this]
    then have "distinct (map fst bs)" "insert k (dom m) \<inter> set (map fst bs) = {}"
      "dom m' = insert k (dom m) \<union> set (map fst bs)" by blast+
    moreover have "k \<notin> dom m" using None by auto
    ultimately show ?thesis using b by auto
  next
    case (Some x)
    with Cons.prems b show ?thesis by (auto split: prod.splits)
  qed
qed simp


text \<open>What has to hold for a profile to compile, and what it compiles to.\<close>

lemma compile_accepted:
  assumes "compileKeymap cs jsonLength defaults profile platform = Inr k"
  obtains p where
    "p = placeOverrides cs defaults (profileBindings profile) platform"
    "placedConflicts p = []" "distinct (map overrideCommand (profileBindings profile))"
    "prefixBindings k = placedPrefix p" "directBindings k = placedDirect p" "keymapSource k = profile"
    "normalizeKeyChord cs (profileLeader profile) = Some (leader k)"
    "distinct (map (prefixKeyOf cs \<circ> pKey) (placedPrefix p))"
    "distinct (map (directKeyOf cs platform \<circ> dKey) (placedDirect p))"
    "canonicalChordForPlatform (leader k) platform \<notin> set (map (directKeyOf cs platform \<circ> dKey) (placedDirect p))"
    "limitConflicts jsonLength profile = []" "leaderConflicts cs profile platform = []" "requiredConflicts p = []"
proof -
  obtain kept dups where c: "collectOverrides [] (profileBindings profile) = (kept, dups)" by fastforce
  define p where "p = placeOverrides cs defaults kept platform"
  obtain pk pc where pa: "assignKeys Map.empty (prefixEntries cs (placedPrefix p)) = (pk, pc)" by fastforce
  obtain dk dc where da: "assignKeys Map.empty (directEntries cs platform (placedDirect p)) = (dk, dc)" by fastforce
  from assms obtain lead where lead: "normalizeKeyChord cs (profileLeader profile) = Some lead"
    and none: "limitConflicts jsonLength profile = []" "leaderConflicts cs profile platform = []" "dups = []"
      "placedConflicts p = []" "pc = []" "dc = []" "ambiguityConflicts cs profile platform dk = []" "requiredConflicts p = []"
    and k: "k = \<lparr>leader = lead, prefixBindings = placedPrefix p, directBindings = placedDirect p,
       contextBindings = filter (\<lambda>b. \<not> overridden kept (cCommand b)) (contextBindings defaults), keymapSource = profile\<rparr>"
    unfolding compileKeymap_def Let_def c prod.case p_def [symmetric] pa da
    by (auto split: option.splits if_splits)
  have kept: "kept = profileBindings profile" "distinct (map overrideCommand (profileBindings profile))"
    using collectOverrides_clean [of "[]" "profileBindings profile" kept] c none(3) by auto
  have amb: "canonicalChordForPlatform lead platform \<notin> dom dk"
    using none(7) lead by (auto simp: ambiguityConflicts_def split: option.splits)
  note pk = assignKeys_clean [OF pa [unfolded none(5)]]
  note dk = assignKeys_clean [OF da [unfolded none(6)]]
  have fsts: "map fst (prefixEntries cs bs) = map (prefixKeyOf cs \<circ> pKey) bs"
    "map fst (directEntries cs platform ds) = map (directKeyOf cs platform \<circ> dKey) ds" for bs ds
    by (simp_all add: prefixEntries_def directEntries_def)
  show ?thesis
  proof (rule that [of p])
    show "canonicalChordForPlatform (leader k) platform \<notin> set (map (directKeyOf cs platform \<circ> dKey) (placedDirect p))"
      using amb dk unfolding fsts by (simp add: k)
  qed (use p_def kept none lead k pk dk in \<open>simp_all only: fsts effective_keymap.simps keymap_catalog.simps\<close>)
qed

lemma placeOverrides_start:
  assumes "v \<in> set kept"
  shows "prefixOf (overrideCommand v) (filter (\<lambda>b. \<not> overridden kept (pCommand b)) ps) = []"
    and "directOf (overrideCommand v) (filter (\<lambda>b. \<not> overridden kept (dCommand b)) ds) = []"
  using assms by (auto simp: prefixOf_def directOf_def overridden_def list_ex_iff filter_empty_conv)

lemma prefixOf_kept:
  assumes "c \<notin> overrideCommand ` set kept"
  shows "prefixOf c (filter (\<lambda>b. \<not> overridden kept (pCommand b)) ps) = prefixOf c ps"
    and "directOf c (filter (\<lambda>b. \<not> overridden kept (dCommand b)) ds) = directOf c ds"
  using assms by (auto simp: prefixOf_def directOf_def overridden_def list_ex_iff image_iff intro!: filter_cong)

lemma requiredConflicts_none:
  "requiredConflicts p = [] \<longleftrightarrow>
   (\<forall>c \<in> set requiredCommands. c \<in> pCommand ` set (placedPrefix p) \<union> dCommand ` set (placedDirect p))"
  unfolding requiredConflicts_def by (auto simp: filter_empty_conv list_ex_iff image_iff)

lemmas [key_eval] = MAX_KEY_BINDING_LENGTH_def MODIFIER_NAMES_def MODIFIER_ORDER_def NAMED_KEYS_def WIDGET_LOCAL_KEYS_def
  PRIMARY_UNAVAILABLE_KEYS_def functionKey_def normalizedKey_def normalizeKeyChord_def normalizePrefixKey_def
  normalizeKeySequence_def chordParts_def canonicalChordForPlatform_def isPrimaryModifier_def
  classifyKeyBinding_def classifyChord_def leaderChord_def safeBinding_def risky_def

lemmas compile_eval = compileKeymap_def placeOverrides_def placeOverride_def placePrefix_def placeDirect_def
  limitConflicts_def leaderConflicts_def ambiguityConflicts_def requiredConflicts_def requiredCommands_def
  overridden_def prefixEntries_def directEntries_def prefixKeyOf_def directKeyOf_def MAX_KEYMAP_BINDINGS_def
  MAX_KEYMAP_JSON_BYTES_def

end
