(* ===== verification/KeymapCanon.thy ===== *)
theory KeymapCanon
  imports KeymapProfile
begin

text \<open>
  The canonical form of chords (\<open>normalizeKeyChord\<close> and \<open>bindingFromKeyboardEvent\<close> of \<open>keymap-profile.ts\<close>, the
  matcher of \<open>context-keys.ts\<close>): normalisation is a projection, and the chord the recorder stores is one that the
  recorded event matches. The case mappings are those of Unicode, as far as the locale states them; a character whose
  lower case is longer than itself is refused by the second pass of the grammar.
\<close>

section \<open>Case mappings\<close>

text \<open>
  What is relied on of \<open>toLowerCase\<close> and \<open>toUpperCase\<close>: ASCII text is mapped letter by letter; mapping one code unit
  twice is mapping it once, and makes neither white space nor a hyphen of another character; and where one code unit
  becomes several (the capital I with a dot does) they are not all ASCII.
\<close>

definition asciiText :: "jstr \<Rightarrow> bool" where
  "asciiText t \<longleftrightarrow> (\<forall>c \<in> set t. c < 128)"

locale unicode_casing =
  fixes cs :: casing
  assumes ascii_text: "asciiText t \<Longrightarrow> toLowerCase cs t = toLowerCase asciiCasing t \<and> toUpperCase cs t = toUpperCase asciiCasing t"
    and twice: "toLowerCase cs (toLowerCase cs [c]) = toLowerCase cs [c]"
    and solid: "\<not> jsSpace c \<Longrightarrow> d \<in> set (toLowerCase cs [c]) \<Longrightarrow> \<not> jsSpace d \<and> (d = hyphen \<longrightarrow> c = hyphen)"
    and longer: "(\<exists>d. toLowerCase cs [c] = [d]) \<or> \<not> asciiText (toLowerCase cs [c])"

text \<open>
  Two instances: the letters of ASCII, which the catalog of the program stays within, and those of Latin-1 with the two
  characters whose lower case leaves it, the Kelvin sign and the capital I with a dot.
\<close>

interpretation ascii_casing: unicode_casing asciiCasing
  by unfold_locales (auto simp: asciiCasing_def asciiText_def jsSpace_def)

definition latinLower :: "nat \<Rightarrow> jstr" where
  "latinLower c =
     (if 65 \<le> c \<and> c \<le> 90 \<or> 192 \<le> c \<and> c \<le> 222 \<and> c \<noteq> 215 then [c + 32]
      else if c = 8490 then [107] else if c = 304 then [105, 775] else [c])"

definition latinCasing :: casing where
  "latinCasing = \<lparr>toLowerCase = (\<lambda>t. concat (map latinLower t)),
     toUpperCase = map (\<lambda>c. if 97 \<le> c \<and> c \<le> 122 \<or> 224 \<le> c \<and> c \<le> 254 \<and> c \<noteq> 247 then c - 32 else c)\<rparr>"

lemma latinLower_ascii: "asciiText t \<Longrightarrow> concat (map latinLower t) = map (\<lambda>c. if 65 \<le> c \<and> c \<le> 90 then c + 32 else c) t"
  by (induction t) (auto simp: asciiText_def latinLower_def)

interpretation latin_casing: unicode_casing latinCasing
proof unfold_locales
  fix t
  assume t: "asciiText t"
  then have "map (\<lambda>c. if 97 \<le> c \<and> c \<le> 122 \<or> 224 \<le> c \<and> c \<le> 254 \<and> c \<noteq> 247 then c - 32 else c) t
      = map (\<lambda>c. if 97 \<le> c \<and> c \<le> 122 then c - 32 else c) t" by (auto simp: asciiText_def)
  with latinLower_ascii [OF t]
  show "toLowerCase latinCasing t = toLowerCase asciiCasing t \<and> toUpperCase latinCasing t = toUpperCase asciiCasing t"
    by (simp add: latinCasing_def asciiCasing_def)
qed (auto simp: latinCasing_def latinLower_def asciiText_def jsSpace_def split: if_splits)

section \<open>Canonical keys and chords\<close>

definition namedKeyList :: "jstr list" where
  "namedKeyList = [js ''Escape'', js ''Enter'', js ''Space'', js ''Tab'', js ''Backspace'', js ''Delete'', js ''Home'', js ''End'',
     js ''ArrowUp'', js ''ArrowDown'', js ''ArrowLeft'', js ''ArrowRight'', js ''PageUp'', js ''PageDown'']"

definition canonKey :: "casing \<Rightarrow> jstr \<Rightarrow> bool" where
  "canonKey cs key \<longleftrightarrow> (\<exists>c. key = [c] \<and> \<not> jsSpace c \<and> toLowerCase cs [c] = [c]) \<or> key \<in> set namedKeyList \<or> functionKey key \<and> hd key = 70"

text \<open>A character that its lower case replaces by several: the grammar accepts it once, and not again.\<close>

definition oddKey :: "casing \<Rightarrow> jstr \<Rightarrow> bool" where
  "oddKey cs key \<longleftrightarrow> (\<exists>c. key = toLowerCase cs [c] \<and> \<not> jsSpace c) \<and> length key \<noteq> 1"

text \<open>The modifiers of a canonical chord: in the order of \<open>MODIFIER_ORDER\<close>.\<close>

definition ordered :: "jstr list \<Rightarrow> bool" where
  "ordered ms \<longleftrightarrow> ms = filter (\<lambda>x. x \<in> set ms) MODIFIER_ORDER"

definition compatible :: "jstr list \<Rightarrow> bool" where
  "compatible ms \<longleftrightarrow> \<not> (js ''Mod'' \<in> set ms \<and> (js ''Cmd'' \<in> set ms \<or> js ''Ctrl'' \<in> set ms))"

lemma ordered_filter: "ordered (filter P MODIFIER_ORDER)"
  unfolding ordered_def by (rule filter_cong) auto

lemma distinct_order: "distinct MODIFIER_ORDER"
  by (simp add: key_eval)

lemma ordered_facts:
  assumes "ordered ms"
  shows "distinct ms" "set ms \<subseteq> set MODIFIER_ORDER"
proof -
  obtain P where "ms = filter P MODIFIER_ORDER" using assms unfolding ordered_def by blast
  then show "distinct ms" "set ms \<subseteq> set MODIFIER_ORDER" using distinct_order by auto
qed

lemma modifier_shape: "m \<in> set MODIFIER_ORDER \<Longrightarrow> m \<noteq> [] \<and> hyphen \<notin> set m \<and> length m \<le> 5 \<and> (\<forall>c \<in> set m. \<not> jsSpace c) \<and> m \<in> MODIFIERS"
  by (auto simp: key_eval)

lemma modifiers_ascii: "m \<in> set MODIFIER_ORDER \<Longrightarrow> asciiText m \<and> MODIFIER_NAMES asciiCasing (toLowerCase asciiCasing m) = Some m"
  by (auto simp: key_eval asciiText_def)

lemma functionKey_shape:
  "functionKey key \<Longrightarrow> (\<exists>f d. key = [f, d] \<and> (f = 70 \<or> f = 102) \<and> 49 \<le> d \<and> d \<le> 57) \<or>
     (\<exists>f d. key = [f, 49, d] \<and> (f = 70 \<or> f = 102) \<and> 48 \<le> d \<and> d \<le> 50)"
  by (auto simp: functionKey_def split: list.splits)

lemma digit_no_space: "48 \<le> d \<Longrightarrow> d \<le> 57 \<Longrightarrow> \<not> jsSpace d"
  by (auto simp: jsSpace_def)

lemma named_facts:
  "\<forall>key \<in> set namedKeyList. hyphen \<notin> set key \<and> length key \<le> 10 \<and> 1 < length key"
  "\<forall>key \<in> set namedKeyList. \<forall>c \<in> set key. 64 < c \<and> c < 127"
  "\<forall>key \<in> set namedKeyList. key \<notin> MODIFIERS \<and> key \<noteq> js ''Backquote''"
  "\<forall>key \<in> set namedKeyList. NAMED_KEYS (toLowerCase asciiCasing key) = Some key"
  by (simp_all add: namedKeyList_def MODIFIERS_def NAMED_KEYS_def js_text asciiCasing_def)

lemma named_shape:
  assumes "key \<in> set namedKeyList"
  shows "hyphen \<notin> set key \<and> length key \<le> 10 \<and> 1 < length key \<and> (\<forall>c \<in> set key. \<not> jsSpace c)
    \<and> key \<notin> MODIFIERS \<and> key \<noteq> js ''Backquote'' \<and> NAMED_KEYS (toLowerCase asciiCasing key) = Some key"
proof -
  have "\<not> jsSpace c" if "64 < c" "c < 127" for c using that by (auto simp: jsSpace_def)
  then show ?thesis using named_facts assms by blast
qed

lemma function_shape:
  assumes "functionKey key" "hd key = 70"
  shows "hyphen \<notin> set key \<and> length key \<le> 10 \<and> 1 < length key \<and> (\<forall>c \<in> set key. \<not> jsSpace c)
    \<and> key \<notin> MODIFIERS \<and> key \<noteq> js ''Backquote'' \<and> NAMED_KEYS (toLowerCase asciiCasing key) = None \<and> toUpperCase asciiCasing key = key"
  using functionKey_shape [OF assms(1)] assms(2) digit_no_space
  by (auto simp: MODIFIERS_def NAMED_KEYS_def js_text asciiCasing_def) (simp_all add: jsSpace_def)

lemma trim_free: "\<forall>c \<in> set t. \<not> jsSpace c \<Longrightarrow> trim t = t"
proof -
  assume f: "\<forall>c \<in> set t. \<not> jsSpace c"
  have d: "dropWhile jsSpace u = u" if "\<forall>c \<in> set u. \<not> jsSpace c" for u
    using that by (cases u) auto
  show ?thesis using f by (simp add: trim_def trimEnd_def d)
qed

lemma named_ascii: "key \<in> set namedKeyList \<Longrightarrow> asciiText key"
proof -
  assume "key \<in> set namedKeyList"
  then have "\<forall>c \<in> set key. c < 127" using named_facts(2) by blast
  then show ?thesis by (auto simp: asciiText_def)
qed

lemma function_ascii: "functionKey key \<Longrightarrow> asciiText key"
  by (drule functionKey_shape) (auto simp: asciiText_def)

lemma trim_single: "trim t = [c] \<Longrightarrow> \<not> jsSpace c"
proof -
  assume "trim t = [c]"
  then have "dropWhile jsSpace (rev (dropWhile jsSpace t)) = [c]" by (simp add: trim_def trimEnd_def)
  then show ?thesis using hd_dropWhile [of jsSpace "rev (dropWhile jsSpace t)"] by simp
qed

section \<open>Chords as text\<close>

abbreviation chord :: "jstr list \<Rightarrow> jstr \<Rightarrow> jstr" where
  "chord ms key \<equiv> joinOn hyphen (ms @ [key])"

lemma joinOn_Cons: "ss \<noteq> [] \<Longrightarrow> joinOn d (s # ss) = s @ d # joinOn d ss"
  by (cases ss) auto

lemma chord_Cons: "chord (m # ms) key = m @ hyphen # chord ms key"
  by (simp add: joinOn_Cons)

lemma chord_last: "key \<noteq> [] \<Longrightarrow> last (chord ms key) = last key \<and> chord ms key \<noteq> []"
  by (induction ms) (auto simp: joinOn_Cons)

lemma chord_length:
  assumes "set ms \<subseteq> set MODIFIER_ORDER"
  shows "length (chord ms key) \<le> 6 * length ms + length key"
  using assms
proof (induction ms)
  case (Cons m ms)
  then have "length m \<le> 5" using modifier_shape [of m] by auto
  with Cons show ?case by (simp add: joinOn_Cons)
qed simp

lemma chord_no_space:
  assumes "set ms \<subseteq> set MODIFIER_ORDER" "\<forall>c \<in> set key. \<not> jsSpace c"
  shows "\<forall>c \<in> set (chord ms key). \<not> jsSpace c"
  using assms(1)
proof (induction ms)
  case Nil
  then show ?case using assms(2) by simp
next
  case (Cons m ms)
  then have "\<forall>c \<in> set m. \<not> jsSpace c" using modifier_shape [of m] by auto
  with Cons show ?case by (auto simp: joinOn_Cons jsSpace_def [of hyphen])
qed

lemma splitOn_chord:
  assumes "set ms \<subseteq> set MODIFIER_ORDER"
  shows "splitOn hyphen (chord ms key) = ms @ splitOn hyphen key"
  using assms
proof (induction ms)
  case (Cons m ms)
  then have "hyphen \<notin> set m" using modifier_shape [of m] by auto
  with Cons show ?case by (simp add: joinOn_Cons splitOn_append)
qed simp

lemma chord_ends:
  assumes "key \<noteq> []" "key \<noteq> [hyphen] \<Longrightarrow> hyphen \<notin> set key"
  shows "endsWith (chord ms key) (js ''-'') \<longleftrightarrow> key = [hyphen]"
proof -
  have e: "endsWith t (js ''-'') \<longleftrightarrow> t \<noteq> [] \<and> last t = hyphen" for t
    by (cases t rule: rev_cases) (auto simp: endsWith_def js_text)
  have "last key = hyphen \<longleftrightarrow> key = [hyphen]"
    using assms by (cases "key = [hyphen]") (auto dest: last_in_set)
  with chord_last [OF assms(1)] show ?thesis by (simp add: e)
qed

lemma nonEmpty_modifiers: "set ms \<subseteq> set MODIFIER_ORDER \<Longrightarrow> nonEmpty (ms @ ss) = ms @ nonEmpty ss"
  using modifier_shape by (auto simp: nonEmpty_def intro!: filter_True)

section \<open>Normalisation is a projection\<close>

context unicode_casing
begin

lemma modifier_names: "m \<in> set MODIFIER_ORDER \<Longrightarrow> MODIFIER_NAMES cs (toLowerCase cs m) = Some m"
proof -
  assume m: "m \<in> set MODIFIER_ORDER"
  have a: "\<forall>m \<in> set MODIFIER_ORDER. toLowerCase cs m = toLowerCase asciiCasing m"
    using modifiers_ascii ascii_text by blast
  then have "MODIFIER_NAMES cs = MODIFIER_NAMES asciiCasing"
    unfolding MODIFIER_NAMES_def MODIFIER_ORDER_def by simp
  with a m modifiers_ascii show ?thesis by simp
qed

lemma named_lower: "key \<in> set namedKeyList \<Longrightarrow> NAMED_KEYS (toLowerCase cs key) = Some key"
  using named_shape ascii_text [OF named_ascii] by simp

lemma function_cases: "functionKey key \<Longrightarrow> hd key = 70 \<Longrightarrow> NAMED_KEYS (toLowerCase cs key) = None \<and> toUpperCase cs key = key"
  using function_shape ascii_text [OF function_ascii] by simp

lemma canonKey_shape:
  assumes "canonKey cs key"
  shows "key \<noteq> []" "length key \<le> 10" "\<forall>c \<in> set key. \<not> jsSpace c" "key \<noteq> [hyphen] \<Longrightarrow> hyphen \<notin> set key"
    "key \<notin> MODIFIERS" "key \<noteq> js ''Backquote''"
  using assms named_shape [of key] function_shape [of key] unfolding canonKey_def
  by (auto simp: MODIFIERS_def js_text)

lemma canonKey_cases:
  assumes "canonKey cs key"
  obtains (char) c where "key = [c]" "\<not> jsSpace c" "toLowerCase cs [c] = [c]"
  | (named) "key \<in> set namedKeyList"
  | (fkey) "functionKey key" "hd key = 70"
  using assms unfolding canonKey_def by blast

lemma canonKey_lower:
  assumes "canonKey cs key" "length key = 1"
  shows "toLowerCase cs key = key"
  using assms(1)
proof (cases rule: canonKey_cases)
  case (char c)
  then show ?thesis by simp
next
  case named
  then show ?thesis using named_shape assms(2) by fastforce
next
  case fkey
  then show ?thesis using function_shape assms(2) by fastforce
qed

lemma canonKey_fixed:
  assumes "canonKey cs key"
  shows "normalizedKey cs key = Some key"
proof -
  have t: "trim key = key" using canonKey_shape(3) [OF assms] by (rule trim_free)
  show ?thesis using assms
  proof (cases rule: canonKey_cases)
    case (char c)
    then have "[c] \<noteq> js '' ''" by (auto simp: js_text jsSpace_def)
    then show ?thesis using t char by (simp add: normalizedKey_def)
  next
    case named
    then show ?thesis using t named_shape [OF named] named_lower [OF named] by (simp add: normalizedKey_def)
  next
    case fkey
    then show ?thesis using t function_shape [OF fkey] function_cases [OF fkey] by (simp add: normalizedKey_def)
  qed
qed

lemma canon_ends: "canonKey cs key \<Longrightarrow> endsWith (chord ms key) (js ''-'') \<longleftrightarrow> key = [hyphen]"
  by (rule chord_ends) (rule canonKey_shape; assumption)+

text \<open>Every key that the grammar accepts is canonical afterwards, or odd.\<close>

lemma normalizedKey_canon:
  assumes "normalizedKey cs v = Some key"
  shows "canonKey cs key \<or> oddKey cs key \<and> length (trim v) = 1"
proof -
  have f: "functionKey u \<Longrightarrow> functionKey (toUpperCase cs u) \<and> hd (toUpperCase cs u) = 70" for u
  proof -
    assume u: "functionKey u"
    then have "toUpperCase cs u = toUpperCase asciiCasing u" using ascii_text [OF function_ascii] by simp
    with functionKey_shape [OF u] show ?thesis by (auto simp: functionKey_def asciiCasing_def)
  qed
  have n: "NAMED_KEYS u = Some w \<Longrightarrow> w \<in> set namedKeyList" for u w
    by (auto simp: NAMED_KEYS_def namedKeyList_def split: if_splits)
  show ?thesis
  proof (cases "length (trim v) = 1 \<and> trim v \<noteq> js '' ''")
    case True
    then obtain c where c: "trim v = [c]" by (auto simp: length_Suc_conv)
    with True assms have key: "key = toLowerCase cs [c]" by (simp add: normalizedKey_def)
    show ?thesis
    proof (cases "length key = 1")
      case True
      then obtain d where d: "key = [d]" by (auto simp: length_Suc_conv)
      then have "toLowerCase cs [d] = [d]" using key twice [of c] by simp
      moreover have "\<not> jsSpace d" using solid [OF trim_single [OF c], of d] key [symmetric] d by simp
      ultimately show ?thesis using d unfolding canonKey_def by blast
    next
      case False
      then show ?thesis using key trim_single [OF c] c unfolding oddKey_def by auto
    qed
  next
    case False
    with assms f [of "trim v"] n show ?thesis
      unfolding canonKey_def normalizedKey_def Let_def by (auto split: option.splits if_splits)
  qed
qed

lemma oddKey_shape:
  assumes "oddKey cs key"
  shows "key \<noteq> []" "\<forall>c \<in> set key. \<not> jsSpace c" "hyphen \<notin> set key" "normalizedKey cs key = None"
proof -
  obtain c where c: "key = toLowerCase cs [c]" "\<not> jsSpace c" "length key \<noteq> 1" using assms unfolding oddKey_def by blast
  then have odd: "\<not> asciiText key" using longer [of c] by auto
  then show "key \<noteq> []" by (auto simp: asciiText_def)
  show free: "\<forall>c \<in> set key. \<not> jsSpace c" using solid c by blast
  have "toLowerCase cs [hyphen] = [hyphen]" using ascii_text [of "[hyphen]"] by (simp add: asciiText_def asciiCasing_def)
  then show "hyphen \<notin> set key" using solid [of c hyphen] c by auto
  have "NAMED_KEYS key = None"
  proof (cases "NAMED_KEYS key")
    case (Some w)
    then have "asciiText key" by (auto simp: NAMED_KEYS_def asciiText_def js_text split: if_splits)
    with odd show ?thesis ..
  qed
  moreover have "toLowerCase cs key = key" "\<not> functionKey key" using c twice [of c] odd function_ascii by auto
  ultimately show "normalizedKey cs key = None" using c(3) by (simp add: normalizedKey_def trim_free [OF free])
qed

lemma readModifiers_ordered:
  assumes "set ms \<subseteq> set MODIFIER_ORDER" "distinct (acc @ ms)"
  shows "readModifiers cs ms acc = Some (acc @ ms)"
  using assms
proof (induction ms arbitrary: acc)
  case (Cons m ms)
  then show ?case using modifier_names [of m] by simp
qed simp

text \<open>Rewriting a canonical chord: it is kept when its modifiers go together, and refused otherwise.\<close>

lemma normalize_chord:
  assumes "ordered ms" "canonKey cs key"
  shows "normalizeKeyChord cs (chord ms key) = (if compatible ms then Some (chord ms key) else None)"
proof -
  note ms = ordered_facts [OF assms(1)]
  have free: "\<forall>c \<in> set (chord ms key). \<not> jsSpace c" by (rule chord_no_space [OF ms(2) canonKey_shape(3) [OF assms(2)]])
  have "length ms \<le> length MODIFIER_ORDER" using ms by (metis card_mono distinct_card distinct_order finite_set)
  then have "length (chord ms key) \<le> 64"
    using chord_length [OF ms(2), of key] canonKey_shape(2) [OF assms(2)] by (simp add: MODIFIER_ORDER_def)
  then have accepted: "\<not> (chord ms key = [] \<or> MAX_KEY_BINDING_LENGTH < length (chord ms key) \<or> list_ex jsSpace (chord ms key))"
    using chord_last [OF canonKey_shape(1) [OF assms(2)]] free by (auto simp: MAX_KEY_BINDING_LENGTH_def list_ex_iff)
  have read: "readModifiers cs ms [] = Some ms" using readModifiers_ordered [of ms "[]"] ms by simp
  have raw: "(if key = [hyphen] then js ''-'' else last (ms @ splitOn hyphen key)) = key"
    using splitOn_free canonKey_shape(4) [OF assms(2)] by (auto simp: js_text)
  have seg: "(if key = [hyphen] then nonEmpty (ms @ splitOn hyphen key) else butlast (ms @ splitOn hyphen key)) = ms"
  proof (cases "key = [hyphen]")
    case True
    then show ?thesis using nonEmpty_modifiers [OF ms(2)] by (simp add: nonEmpty_def)
  next
    case False
    then show ?thesis using splitOn_free canonKey_shape(4) [OF assms(2)] by simp
  qed
  have ord: "filter (\<lambda>x. x \<in> set ms) MODIFIER_ORDER = ms" using assms(1) unfolding ordered_def by simp
  show ?thesis
    unfolding normalizeKeyChord_def Let_def trim_free [OF free] if_not_P [OF accepted] splitOn_chord [OF ms(2)]
      canon_ends [OF assms(2)] raw seg read
    using canonKey_fixed [OF assms(2)] canonKey_shape(1) [OF assms(2)] ord by (simp add: compatible_def)
qed

lemma normalize_odd:
  assumes "set ms \<subseteq> set MODIFIER_ORDER" "oddKey cs key"
  shows "normalizeKeyChord cs (chord ms key) = None"
proof -
  note odd = oddKey_shape [OF assms(2)]
  have free: "\<forall>c \<in> set (chord ms key). \<not> jsSpace c" by (rule chord_no_space [OF assms(1) odd(2)])
  have "\<not> endsWith (chord ms key) (js ''-'')" using chord_ends [OF odd(1), of ms] odd(3) by auto
  then show ?thesis
    unfolding normalizeKeyChord_def Let_def trim_free [OF free] splitOn_chord [OF assms(1)]
    using odd(3, 4) by (simp add: splitOn_free split: option.split)
qed

lemma normalizeKeyChord_canon:
  assumes "normalizeKeyChord cs v = Some t"
  obtains ms key where "t = chord ms key" "ordered ms" "compatible ms" "canonKey cs key \<or> oddKey cs key"
proof -
  from assms obtain modifiers rawKey key where "normalizedKey cs rawKey = Some key"
    "\<not> (js ''Mod'' \<in> set modifiers \<and> (js ''Cmd'' \<in> set modifiers \<or> js ''Ctrl'' \<in> set modifiers))"
    "t = chord (filter (\<lambda>x. x \<in> set modifiers) MODIFIER_ORDER) key"
    unfolding normalizeKeyChord_def Let_def by (auto split: if_splits option.splits)
  then show ?thesis
    using that [of "filter (\<lambda>x. x \<in> set modifiers) MODIFIER_ORDER" key] normalizedKey_canon ordered_filter
    by (auto simp: compatible_def)
qed

text \<open>What a second pass accepts it leaves as it is.\<close>

lemma normalize_again:
  assumes "normalizeKeyChord cs v = Some t"
  shows "normalizeKeyChord cs t \<in> {Some t, None}"
  by (rule normalizeKeyChord_canon [OF assms]) (auto simp: normalize_chord normalize_odd ordered_facts)

end

text \<open>
  The normal form of a chord is its own normal form, so what is stored, compared and shown is stable under every
  further normalisation. (Beyond ASCII the capital I with a dot is accepted once and refused the second time.)
\<close>

theorem normalizeKeyChord_projection:
  assumes "normalizeKeyChord asciiCasing v = Some t"
  shows "normalizeKeyChord asciiCasing t = Some t"
proof (rule ascii_casing.normalizeKeyChord_canon [OF assms])
  fix ms key
  assume "t = chord ms key" "ordered ms" "compatible ms" "canonKey asciiCasing key \<or> oddKey asciiCasing key"
  moreover have "\<not> oddKey asciiCasing key" by (auto simp: oddKey_def asciiCasing_def)
  ultimately show ?thesis by (simp add: ascii_casing.normalize_chord)
qed

lemma dotted_capital_refused:
  "normalizeKeyChord latinCasing (js ''Mod-'' @ [304]) = Some (js ''Mod-'' @ [105, 775])"
  "normalizeKeyChord latinCasing (js ''Mod-'' @ [105, 775]) = None"
  by (simp_all add: key_eval latinCasing_def latinLower_def)

theorem normalizeKeyChord_projection_witness:
  "normalizeKeyChord asciiCasing (js ''Cmd-Shift-F11'') = Some (js ''Cmd-Shift-F11'')"
proof (rule normalizeKeyChord_projection)
  show "normalizeKeyChord asciiCasing (js '' shift-META-f11 '') = Some (js ''Cmd-Shift-F11'')"
    by (simp add: key_eval)
qed

section \<open>The recorder\<close>

lemma recorded_ordered: "ordered (recordedModifiers e platform)"
  unfolding ordered_def recordedModifiers_def by (simp add: MODIFIER_ORDER_def js_text)

lemma recorded_members:
  "js ''Shift'' \<in> set (recordedModifiers e platform) \<longleftrightarrow> shiftKey e"
  "js ''Alt'' \<in> set (recordedModifiers e platform) \<longleftrightarrow> altKey e"
  "js ''Mod'' \<in> set (recordedModifiers e platform) \<longleftrightarrow> (if platform = PlatformMac then metaKey e else ctrlKey e)"
  "js ''Cmd'' \<in> set (recordedModifiers e platform) \<longleftrightarrow> platform \<noteq> PlatformMac \<and> metaKey e"
  "js ''Ctrl'' \<in> set (recordedModifiers e platform) \<longleftrightarrow> platform = PlatformMac \<and> ctrlKey e"
  unfolding recordedModifiers_def by (simp_all add: js_text)

context unicode_casing
begin

lemma parseKeyPart_chord:
  assumes "ordered ms" "canonKey cs key"
  shows "parseKeyPart (chord ms key) = \<lparr>partModifiers = set ms, partKey = key\<rparr>"
proof -
  note ms = ordered_facts [OF assms(1)]
  have read: "readSegments (ms @ ss) p = readSegments ss (p\<lparr>partModifiers := set ms \<union> partModifiers p\<rparr>)" for ss p
    using ms(2)
  proof (induction ms arbitrary: p)
    case (Cons m ms)
    then show ?case using modifier_shape [of m] by simp
  qed simp
  show ?thesis
  proof (cases "key = [hyphen]")
    case True
    then show ?thesis unfolding parseKeyPart_def Let_def splitOn_chord [OF ms(2)] nonEmpty_modifiers [OF ms(2)] read
        canon_ends [OF assms(2)] by (simp add: nonEmpty_def js_text)
  next
    case False
    then have "nonEmpty (splitOn hyphen key) = [key]"
      using splitOn_free canonKey_shape(1, 4) [OF assms(2)] by (simp add: nonEmpty_def)
    then show ?thesis using canonKey_shape(1, 5) [OF assms(2)]
      unfolding parseKeyPart_def Let_def splitOn_chord [OF ms(2)] nonEmpty_modifiers [OF ms(2)] read by simp
  qed
qed

lemma parseBindingKey_chord:
  assumes "ordered ms" "canonKey cs key"
  shows "parseBindingKey (chord ms key) = [chord ms key]"
proof -
  have free: "\<forall>c \<in> set (chord ms key). \<not> jsSpace c" by (rule chord_no_space [OF ordered_facts(2) [OF assms(1)] canonKey_shape(3) [OF assms(2)]])
  then have "dropWhile (\<lambda>c. \<not> jsSpace c) (chord ms key) = []" "takeWhile (\<lambda>c. \<not> jsSpace c) (chord ms key) = chord ms key"
    by auto
  then have "splitWhite (chord ms key) = [chord ms key]" by (simp add: splitWhite.simps Let_def)
  with trim_free [OF free] show ?thesis
    using chord_last [OF canonKey_shape(1) [OF assms(2)]] by (simp add: parseBindingKey_def nonEmpty_def)
qed

lemma lower_space: "toLowerCase cs [32] = [32]"
  using ascii_text [of "[32]"] by (simp add: asciiText_def asciiCasing_def)

text \<open>A key that the recorder takes is matched by its event; the name of the space bar is matched by no event of it.\<close>

lemma eventKeyMatches_recorded:
  assumes "normalizedKey cs (eventKey e) = Some key" "canonKey cs key"
    "length (eventKey e) = 1 \<or> normalizedKey cs (eventKey e) = Some (eventKey e)"
  shows "eventKeyMatches cs key e"
proof -
  have want: "normalizeBindingKey cs key = key"
    using canonKey_lower [OF assms(2)] canonKey_shape(6) [OF assms(2)] by (simp add: normalizeBindingKey_def)
  have "normalizeBindingKey cs (eventKey e) = key"
  proof (cases "length (eventKey e) = 1")
    case True
    then obtain c where c: "eventKey e = [c]" by (auto simp: length_Suc_conv)
    have "\<not> jsSpace c"
    proof
      assume "jsSpace c"
      moreover have "toLowerCase cs [] = []" using ascii_text [of "[]"] by (simp add: asciiText_def asciiCasing_def)
      ultimately show False using assms(1) c
        by (simp add: normalizedKey_def trim_def trimEnd_def NAMED_KEYS_def js_text functionKey_def)
    qed
    then have "trim [c] = [c]" "[c] \<noteq> js '' ''" by (auto simp: trim_def trimEnd_def js_text jsSpace_def)
    then have "toLowerCase cs [c] = key" using assms(1) c by (simp add: normalizedKey_def)
    then show ?thesis using c by (simp add: normalizeBindingKey_def js_text)
  next
    case False
    with assms have "eventKey e = key" by simp
    with want show ?thesis by simp
  qed
  with want show ?thesis by (simp add: eventKeyMatches_def)
qed

lemma keyFromCode_single: "keyFromCode cs code = Some k \<Longrightarrow> \<exists>c. k = [c] \<and> c < 128"
proof -
  assume k: "keyFromCode cs code = Some k"
  have "isUpper c \<Longrightarrow> toLowerCase cs [c] = [c + 32] \<and> c + 32 < 128" for c
    using ascii_text [of "[c]"] by (simp add: asciiText_def asciiCasing_def isUpper_def)
  with k show ?thesis by (auto simp: keyFromCode_def js_text isDigit_def split: if_splits)
qed

lemma space_never_matches:
  assumes "eventKey e = js '' ''"
  shows "\<not> eventKeyMatches cs (js ''Space'') e"
proof -
  have one: "\<exists>d. toLowerCase cs [c] = [d]" if "c < 128" for c
    using ascii_text [of "[c]"] that by (simp add: asciiText_def asciiCasing_def)
  have "normalizeBindingKey cs k \<noteq> js ''Space''" if "keyFromCode cs code = Some k" for code k
    using keyFromCode_single [OF that] one by (fastforce simp: normalizeBindingKey_def js_text)
  then show ?thesis using assms lower_space
    by (auto simp: eventKeyMatches_def normalizeBindingKey_def js_text split: option.splits if_splits)
qed

text \<open>The chord that the recorder stores: its modifiers in order, and a canonical key.\<close>

lemma recorded_chord:
  assumes "bindingFromKeyboardEvent cs e platform = Some b"
  obtains key where "b = chord (recordedModifiers e platform) key" "canonKey cs key" "compatible (recordedModifiers e platform)"
    "if eventKey e = js '' '' then key = js ''Space'' else normalizedKey cs (eventKey e) = Some key"
proof -
  let ?ms = "recordedModifiers e platform"
  from assms obtain key where key: "if eventKey e = js '' '' then key = js ''Space'' else normalizedKey cs (eventKey e) = Some key"
    and b: "normalizeKeyChord cs (chord ?ms key) = Some b"
    unfolding bindingFromKeyboardEvent_def by (auto split: option.splits if_splits)
  have "canonKey cs (js ''Space'')" by (simp add: canonKey_def namedKeyList_def)
  then have "canonKey cs key \<or> oddKey cs key" using key normalizedKey_canon by (auto split: if_splits)
  moreover have "\<not> oddKey cs key" using b normalize_odd [OF ordered_facts(2) [OF recorded_ordered]] by (metis option.distinct(1))
  ultimately have canon: "canonKey cs key" by blast
  with b have "compatible ?ms" "b = chord ?ms key"
    unfolding normalize_chord [OF recorded_ordered canon] by (auto split: if_splits)
  with that canon key show ?thesis by blast
qed

lemma recorded_matches_iff:
  assumes "canonKey cs key" "compatible (recordedModifiers e platform)"
  shows "keyEventMatchesBinding (platform = PlatformMac) cs e (chord (recordedModifiers e platform) key) \<longleftrightarrow> eventKeyMatches cs key e"
proof -
  let ?ms = "recordedModifiers e platform"
  have "\<not> (metaKey e \<and> ctrlKey e)" using assms(2) by (auto simp: compatible_def recorded_members split: if_splits)
  moreover have "keyEventMatchesBinding (platform = PlatformMac) cs e (chord ?ms key)
      = keyEventMatchesBindingPart (platform = PlatformMac) cs e (chord ?ms key)"
    by (simp add: keyEventMatchesBinding_def parseBindingKey_chord [OF recorded_ordered assms(1)])
  ultimately show ?thesis
    unfolding keyEventMatchesBindingPart_def parseKeyPart_chord [OF recorded_ordered assms(1)] Let_def
      parsed_key_part.select_convs recorded_members
    by (cases "platform = PlatformMac"; cases "metaKey e"; cases "ctrlKey e") simp_all
qed

lemma recorded_iff:
  assumes "bindingFromKeyboardEvent cs e platform = Some b"
    "length (eventKey e) = 1 \<or> normalizedKey cs (eventKey e) = Some (eventKey e)"
  shows "keyEventMatchesBinding (platform = PlatformMac) cs e b \<longleftrightarrow> eventKey e \<noteq> js '' ''"
proof (rule recorded_chord [OF assms(1)])
  fix key
  assume r: "b = chord (recordedModifiers e platform) key" "canonKey cs key" "compatible (recordedModifiers e platform)"
    "if eventKey e = js '' '' then key = js ''Space'' else normalizedKey cs (eventKey e) = Some key"
  show ?thesis
  proof (cases "eventKey e = js '' ''")
    case True
    then show ?thesis using r space_never_matches by (simp add: recorded_matches_iff)
  next
    case False
    then have "eventKeyMatches cs key e" using r(2, 4) eventKeyMatches_recorded [OF _ _ assms(2)] by simp
    then show ?thesis using r(1 - 3) False by (simp add: recorded_matches_iff)
  qed
qed

end

text \<open>
  C13: a recorded shortcut is the one that was pressed, for every key but the space bar. The chord that the recorder
  stores for a key event is matched by that event exactly when the key is not the space, on every platform and whatever
  the modifiers, for every key that is one character and every key whose browser name is the grammar's own. The case
  mappings are any that agree with ASCII on ASCII text and treat other single characters as Unicode does. The space
  bar fails: it is recorded as \<open>Space\<close>, and the matcher compares that name with a single character.
\<close>

theorem recorded_chord_matches:
  assumes "unicode_casing cs" "bindingFromKeyboardEvent cs e platform = Some b"
    "length (eventKey e) = 1 \<or> normalizedKey cs (eventKey e) = Some (eventKey e)"
  shows "keyEventMatchesBinding (platform = PlatformMac) cs e b \<longleftrightarrow> eventKey e \<noteq> js '' ''"
  using assms by (rule unicode_casing.recorded_iff)

theorem recorded_chord_matches_witness:
  "keyEventMatchesBinding False latinCasing
     \<lparr>eventKey = [201], eventCode = [], metaKey = False, ctrlKey = True, altKey = True, shiftKey = True\<rparr> (js ''Mod-Alt-Shift-'' @ [233])
   \<and> \<not> keyEventMatchesBinding False latinCasing
     \<lparr>eventKey = js '' '', eventCode = js ''Space'', metaKey = False, ctrlKey = True, altKey = False, shiftKey = False\<rparr> (js ''Mod-Space'')"
proof
  let ?e = "\<lparr>eventKey = [201], eventCode = [], metaKey = False, ctrlKey = True, altKey = True, shiftKey = True\<rparr>"
  have "bindingFromKeyboardEvent latinCasing ?e PlatformLinux = Some (js ''Mod-Alt-Shift-'' @ [233])"
    by (simp add: bindingFromKeyboardEvent_def recordedModifiers_def key_eval latinCasing_def latinLower_def)
  from recorded_chord_matches [OF latin_casing.unicode_casing_axioms this]
  show "keyEventMatchesBinding False latinCasing ?e (js ''Mod-Alt-Shift-'' @ [233])" by (simp add: js_text)
next
  let ?e = "\<lparr>eventKey = js '' '', eventCode = js ''Space'', metaKey = False, ctrlKey = True, altKey = False, shiftKey = False\<rparr>"
  have "bindingFromKeyboardEvent latinCasing ?e PlatformLinux = Some (js ''Mod-Space'')"
    by (simp add: bindingFromKeyboardEvent_def recordedModifiers_def key_eval latinCasing_def latinLower_def)
  from recorded_chord_matches [OF latin_casing.unicode_casing_axioms this]
  show "\<not> keyEventMatchesBinding False latinCasing ?e (js ''Mod-Space'')" by (simp add: js_text)
qed

end
