(* ===== verification/Keybindings.thy ===== *)
theory Keybindings
  imports KeymapProfile
begin

text \<open>
  The key bindings of the application, \<open>packages/yaade-app/src/keybindings.ts\<close>: the default catalog, the look-ups
  and the resolution of a keydown, a state machine over the pending chord. \<open>mac\<close> and \<open>cs\<close> are as in
  \<open>ContextKeys\<close>. The effective keymap is shared state of another module: \<open>currentKeymap\<close> receives it, and every
  look-up takes the keymap \<open>currentKeymap\<close> has chosen. The lemmas show that a pending chord never lets a key
  through, when it ends, and that every binding of a compiled keymap is dispatched, save the ones on digits.
\<close>

section \<open>The default catalog\<close>

definition SHELL_PREFIX :: jstr where
  "SHELL_PREFIX = js ''Mod-k''"

definition prefixBinding :: "string \<Rightarrow> jstr \<Rightarrow> command_id \<Rightarrow> prefix_group \<Rightarrow> key_range option \<Rightarrow> prefix_binding" where
  "prefixBinding i key command g keyRange =
     \<lparr>pId = i, pKey = key, pCommand = command, pDesc = commandTitle (commandDescriptor command), pGroup = g,
      pHud = None, pKeyRange = keyRange, pRepeatable = None\<rparr>"

definition directBinding :: "string \<Rightarrow> jstr \<Rightarrow> command_id \<Rightarrow> jstr option \<Rightarrow> direct_binding" where
  "directBinding i key command riskyReason =
     \<lparr>dId = i, dKey = key, dCommand = command, dDesc = commandTitle (commandDescriptor command),
      dRepeatable = None, dRiskyReason = riskyReason\<rparr>"

definition MUX_SESSION_PREFIX_GROUPS :: "(prefix_group \<times> string) list" where
  "MUX_SESSION_PREFIX_GROUPS = [(GroupOpen, ''Open''), (GroupNavigate, ''Navigate''), (GroupActions, ''Actions'')]"

definition MUX_SESSION_PREFIX_BINDINGS :: "prefix_binding list" where
  "MUX_SESSION_PREFIX_BINDINGS = [
     prefixBinding ''prefix.commands'' (js ''c'') CommandPaletteShow GroupOpen None,
     prefixBinding ''prefix.terminal.new'' (js ''t'') TerminalNewTerminal GroupOpen None,
     prefixBinding ''prefix.terminal.switch'' (js ''u'') TerminalSwitch GroupOpen None,
     prefixBinding ''prefix.terminal.switchPrevious'' (js ''b'') TerminalSwitchPrevious GroupNavigate None,
     prefixBinding ''prefix.session.switch'' (js ''/'') SessionSwitch GroupOpen None,
     prefixBinding ''prefix.session.new'' (js ''s'') SessionNew GroupOpen None,
     prefixBinding ''prefix.tab.new'' (js ''w'') TabNew GroupOpen None,
     prefixBinding ''prefix.settings.show'' (js '','') SettingsShow GroupOpen None,
     prefixBinding ''prefix.keymap.reset'' (js ''Shift-R'') KeymapReset GroupActions None,
     prefixBinding ''prefix.terminal.next'' (js ''n'') TerminalNext GroupNavigate None,
     prefixBinding ''prefix.terminal.previous'' (js ''Shift-N'') TerminalPrevious GroupNavigate None,
     prefixBinding ''prefix.tab.next'' (js '']'') TabNext GroupNavigate None,
     prefixBinding ''prefix.tab.previous'' (js ''['') TabPrevious GroupNavigate None,
     prefixBinding ''prefix.terminal.jump'' (js ''1'' @ 0x2013 # js ''9'') TerminalJump GroupNavigate (Some TerminalPosition),
     prefixBinding ''prefix.terminal.jumpLive'' (js ''g'') TerminalJumpLive GroupNavigate None,
     prefixBinding ''prefix.terminal.toggleInspectionPause'' (js ''Shift-G'') TerminalToggleInspectionPause GroupActions None,
     prefixBinding ''prefix.pane.zoom'' (js ''z'') PaneZoom GroupActions None,
     prefixBinding ''prefix.terminal.close'' (js ''x'') TerminalClose GroupActions None,
     prefixBinding ''prefix.tab.close'' (js ''q'') TabClose GroupActions None,
     prefixBinding ''prefix.session.close'' (js ''Shift-X'') SessionClose GroupActions None]"

definition MUX_SESSION_DIRECT_BINDINGS :: "direct_binding list" where
  "MUX_SESSION_DIRECT_BINDINGS = [
     directBinding ''direct.pane.splitRight'' (js ''Mod-d'') PaneSplitRight
       (Some (js ''Mod-d is the terminal multiplexer split chord.'')),
     directBinding ''direct.pane.splitDown'' (js ''Mod-Shift-d'') PaneSplitDown
       (Some (js ''Mod-Shift-d is the terminal multiplexer split chord.'')),
     directBinding ''direct.sidebar.toggle'' (js ''Mod-b'') SidebarToggle
       (Some (js ''Mod-b is the terminal multiplexer sidebar toggle chord.'')),
     directBinding ''direct.settings.show'' (js ''Mod-,'') SettingsShow None]"

definition MUX_SESSION_CONTEXT_BINDINGS :: "context_binding list" where
  "MUX_SESSION_CONTEXT_BINDINGS = []"

definition DEFAULT_KEYMAP_CATALOG :: keymap_catalog where
  "DEFAULT_KEYMAP_CATALOG =
     \<lparr>leader = SHELL_PREFIX, prefixBindings = MUX_SESSION_PREFIX_BINDINGS,
      directBindings = MUX_SESSION_DIRECT_BINDINGS, contextBindings = MUX_SESSION_CONTEXT_BINDINGS\<rparr>"

definition MUX_SESSION_DUAL_PATH_COMMANDS :: "command_id list" where
  "MUX_SESSION_DUAL_PATH_COMMANDS = [SettingsShow]"

definition currentKeymap :: "keymap_catalog option \<Rightarrow> keymap_catalog option \<Rightarrow> keymap_catalog" where
  "currentKeymap keymap effective =
     (case keymap of Some k \<Rightarrow> k
      | None \<Rightarrow> (case effective of Some k \<Rightarrow> k | None \<Rightarrow> DEFAULT_KEYMAP_CATALOG))"

section \<open>Look-ups\<close>

definition muxSessionLeader :: "'a keymap_catalog_scheme \<Rightarrow> jstr" where
  "muxSessionLeader km = leader km"

definition muxSessionPrefixBindingKey :: "jstr \<Rightarrow> jstr option \<Rightarrow> 'a keymap_catalog_scheme \<Rightarrow> jstr" where
  "muxSessionPrefixBindingKey key p km =
     (case p of Some t \<Rightarrow> t | None \<Rightarrow> muxSessionLeader km) @ js '' '' @ key"

definition muxSessionShortcutFor :: "command_id \<Rightarrow> 'a keymap_catalog_scheme \<Rightarrow> jstr option" where
  "muxSessionShortcutFor command km =
     (case find (\<lambda>b. pCommand b = command \<and> pHud b \<noteq> Some False) (prefixBindings km) of
        None \<Rightarrow> None
      | Some b \<Rightarrow> Some (muxSessionPrefixBindingKey (pKey b) (Some (leader km)) km))"

definition muxSessionDirectShortcutFor :: "command_id \<Rightarrow> 'a keymap_catalog_scheme \<Rightarrow> jstr option" where
  "muxSessionDirectShortcutFor command km = map_option dKey (find (\<lambda>b. dCommand b = command) (directBindings km))"

text \<open>An empty binding id is falsy.\<close>

definition muxSessionPrimaryShortcutFor :: "command_id \<Rightarrow> 'a keymap_catalog_scheme \<Rightarrow> jstr option" where
  "muxSessionPrimaryShortcutFor command km =
     (let fallback = (case muxSessionShortcutFor command km of
                        Some s \<Rightarrow> Some s | None \<Rightarrow> muxSessionDirectShortcutFor command km) in
      case bindingId (commandDescriptor command) of
        None \<Rightarrow> fallback
      | Some i \<Rightarrow>
          if i = [] then fallback
          else case find (\<lambda>b. dId b = i) (directBindings km) of
            Some b \<Rightarrow> Some (dKey b)
          | None \<Rightarrow>
              (case find (\<lambda>b. pId b = i) (prefixBindings km) of
                 Some b \<Rightarrow> Some (muxSessionPrefixBindingKey (pKey b) (Some (leader km)) km)
               | None \<Rightarrow> fallback))"

definition muxSessionHudBindings :: "'a keymap_catalog_scheme \<Rightarrow> prefix_binding list" where
  "muxSessionHudBindings km = filter (\<lambda>b. pHud b \<noteq> Some False) (prefixBindings km)"

definition serializeMuxSessionPrefixKey :: "casing \<Rightarrow> 'a key_event_scheme \<Rightarrow> jstr" where
  "serializeMuxSessionPrefixKey cs e =
     (if shiftKey e \<and> length (eventKey e) = 1 then js ''Shift-'' @ toUpperCase cs (eventKey e)
      else if length (eventKey e) = 1 then toLowerCase cs (eventKey e)
      else eventKey e)"

definition isMuxSessionJumpKey :: "jstr \<Rightarrow> bool" where
  "isMuxSessionJumpKey key \<longleftrightarrow> (case key of [d] \<Rightarrow> 49 \<le> d \<and> d \<le> 57 | _ \<Rightarrow> False)"

definition matchMuxSessionPrefixBinding :: "jstr \<Rightarrow> 'a keymap_catalog_scheme \<Rightarrow> prefix_binding option" where
  "matchMuxSessionPrefixBinding key km =
     (if isMuxSessionJumpKey key then find (\<lambda>b. pKeyRange b = Some TerminalPosition) (prefixBindings km)
      else find (\<lambda>b. pKeyRange b = None \<and> pKey b = key) (prefixBindings km))"

definition matchMuxSessionDirectBinding :: "bool \<Rightarrow> casing \<Rightarrow> 'b key_event_scheme \<Rightarrow> 'a keymap_catalog_scheme \<Rightarrow> direct_binding option" where
  "matchMuxSessionDirectBinding mac cs e km =
     find (\<lambda>b. keyEventMatchesBinding mac cs e (dKey b)) (directBindings km)"

section \<open>Resolving a keydown\<close>

record mux_key_event = key_event +
  keyRepeat :: bool
  isComposing :: bool

record keydown_context =
  overlayOpen :: bool
  inEditable :: bool
  inTerminal :: bool
  inPrefixButton :: bool
  zoomed :: bool
  sidebarLayout :: "bool option"
  contextKind :: "string option"

datatype keydown_result =
    PrefixStarted jstr
  | Command command_id "nat option"
  | PrefixLiteral jstr
  | PrefixCancelled
  | Consume

text \<open>The binding is read through its command and its own repeat policy.\<close>

definition commandResult :: "command_id \<Rightarrow> bool option \<Rightarrow> mux_key_event \<Rightarrow> nat option \<Rightarrow> keydown_result" where
  "commandResult command repeatable e jumpIndex =
     (let mayRepeat = (case repeatable of Some r \<Rightarrow> r
                       | None \<Rightarrow> repeatPolicy (commandDescriptor command) = RepeatAllow)
      in if \<not> mayRepeat \<and> keyRepeat e then Consume else Command command jumpIndex)"

text \<open>
  The control byte of a leader, matched in either case after trimming. A letter whose lower case is empty would
  give \<open>NaN\<close>, which both comparisons let through.
\<close>

definition prefixLiteralByte :: "casing \<Rightarrow> jstr \<Rightarrow> jstr option" where
  "prefixLiteralByte cs p =
     (let t = trim p; folded = foldCase t in
      if (length t = 6 \<and> startsWithText folded (js ''ctrl-'') \<or> length t = 5 \<and> startsWithText folded (js ''mod-''))
         \<and> isLower (last folded)
      then (case toLowerCase cs [last t] of
              [] \<Rightarrow> Some [0]
            | letter # _ \<Rightarrow>
                (let code = int letter - 96 in if code < 1 \<or> code > 26 then None else Some [nat code]))
      else None)"

text \<open>What a pending chord does with a key.\<close>

definition resolvePrefixKey :: "bool \<Rightarrow> casing \<Rightarrow> mux_key_event \<Rightarrow> chord_state \<Rightarrow> keydown_context \<Rightarrow> 'a keymap_catalog_scheme \<Rightarrow> keydown_result \<times> chord_state" where
  "resolvePrefixKey mac cs e st ctx km =
     (if eventKey e \<in> {js ''Meta'', js ''Control'', js ''Alt'', js ''Shift''} then (Consume, st)
      else if eventKey e = js ''Escape'' then (PrefixCancelled, clearChord st)
      else if keyEventMatchesBinding mac cs e (leader km) then
        (if keyRepeat e then (Consume, st)
         else case (if inTerminal ctx then prefixLiteralByte cs (leader km) else None) of
                Some literal \<Rightarrow> (PrefixLiteral literal, clearChord st)
              | None \<Rightarrow> (PrefixCancelled, clearChord st))
      else if metaKey e \<or> ctrlKey e \<or> altKey e then (Consume, clearChord st)
      else let key = serializeMuxSessionPrefixKey cs e in
        (case matchMuxSessionPrefixBinding key km of
           None \<Rightarrow> (Consume, clearChord st)
         | Some b \<Rightarrow>
             (commandResult (pCommand b) (pRepeatable b) e
                (if isMuxSessionJumpKey key then Some (hd key - 48 - 1) else None), clearChord st)))"

text \<open>There are no context bindings to match.\<close>

definition resolveMuxSessionKeydown :: "bool \<Rightarrow> casing \<Rightarrow> mux_key_event \<Rightarrow> chord_state \<Rightarrow> keydown_context \<Rightarrow> int \<Rightarrow> 'a keymap_catalog_scheme \<Rightarrow> keydown_result option \<times> chord_state" where
  "resolveMuxSessionKeydown mac cs e st ctx now km =
     (if isComposing e then (None, clearChord st)
      else if overlayOpen ctx \<or> inEditable ctx \<or> inPrefixButton ctx then (None, clearChord st)
      else if chordIsActive st now then
        (let (r, st') = resolvePrefixKey mac cs e st ctx km in (Some r, st'))
      else let st = (if prefix st \<noteq> None then clearChord st else st) in
        if keyEventMatchesBinding mac cs e (leader km) then
          (if keyRepeat e then (Some Consume, st)
           else (Some (PrefixStarted (leader km)), startChord (leader km) now st))
        else case matchMuxSessionDirectBinding mac cs e km of
          None \<Rightarrow> (None, st)
        | Some b \<Rightarrow>
            if dCommand b = SidebarToggle \<and> sidebarLayout ctx = Some False then (None, st)
            else (Some (commandResult (dCommand b) (dRepeatable b) e None), st))"

section \<open>The validation of the catalog\<close>

datatype binding_issue =
    DuplicateBindingId string
  | DuplicateBindingKey jstr
  | BannedPrefixBinding jstr
  | BannedDirectBinding jstr
  | MissingRiskyReason string
  | UndeclaredDualPath command_id
  | MissingDescriptorBinding command_id string

record binding_audit =
  auditIssues :: "binding_issue list"
  auditIds :: "string set"
  auditPaths :: "command_id list"

definition recordBinding :: "string \<Rightarrow> jstr \<Rightarrow> command_id \<Rightarrow> jstr set \<Rightarrow> binding_audit \<Rightarrow> binding_audit" where
  "recordBinding i key command keys a =
     a\<lparr>auditIssues := auditIssues a @ (if i \<in> auditIds a then [DuplicateBindingId i] else [])
          @ (if key \<in> keys then [DuplicateBindingKey key] else []),
       auditIds := insert i (auditIds a), auditPaths := auditPaths a @ [command]\<rparr>"

definition auditIssue :: "bool \<Rightarrow> binding_issue \<Rightarrow> binding_audit \<Rightarrow> binding_audit" where
  "auditIssue c i a = (if c then a\<lparr>auditIssues := auditIssues a @ [i]\<rparr> else a)"

definition auditPrefix :: "prefix_binding \<Rightarrow> binding_audit \<times> jstr set \<Rightarrow> binding_audit \<times> jstr set" where
  "auditPrefix b s =
     (auditIssue (pKey b = js ''p'') (BannedPrefixBinding (pKey b))
        (recordBinding (pId b) (pKey b) (pCommand b) (snd s) (fst s)), insert (pKey b) (snd s))"

definition auditDirect :: "direct_binding \<Rightarrow> binding_audit \<times> jstr set \<Rightarrow> binding_audit \<times> jstr set" where
  "auditDirect b s =
     (auditIssue (case dRiskyReason b of Some t \<Rightarrow> trim t = [] | None \<Rightarrow> False) (MissingRiskyReason (dId b))
        (auditIssue (dKey b = js ''Mod-k'' \<or> dKey b = js ''Mod-Shift-p'') (BannedDirectBinding (dKey b))
          (recordBinding (dId b) (dKey b) (dCommand b) (snd s) (fst s))), insert (dKey b) (snd s))"

definition auditContext :: "context_binding \<Rightarrow> binding_audit \<times> jstr set \<Rightarrow> binding_audit \<times> jstr set" where
  "auditContext b s = (recordBinding (cId b) (cKey b) (cCommand b) (snd s) (fst s), insert (cKey b) (snd s))"

definition validateMuxSessionBindings :: "keymap_catalog \<Rightarrow> command_id list \<Rightarrow> command_descriptor list \<Rightarrow> binding_issue list" where
  "validateMuxSessionBindings km dual catalog =
     (let a = fst (fold auditPrefix (prefixBindings km) (\<lparr>auditIssues = [], auditIds = {}, auditPaths = []\<rparr>, {}));
          a' = fst (fold auditContext (contextBindings km) (fold auditDirect (directBindings km) (a, {})))
      in auditIssues a'
         @ map UndeclaredDualPath (filter (\<lambda>c. 1 < count_list (auditPaths a') c \<and> c \<notin> set dual) (rev (remdups (rev (auditPaths a')))))
         @ concat (map (\<lambda>d. case bindingId d of
             Some i \<Rightarrow> if i \<noteq> [] \<and> i \<notin> auditIds a' then [MissingDescriptorBinding (commandId d) i] else []
           | None \<Rightarrow> []) catalog))"

end
