(* ===== verification/KeymapDispatch.thy ===== *)
theory KeymapDispatch
  imports Keybindings
begin

text \<open>
  What the compilation of keymaps (\<open>KeymapProfile\<close>) and the resolution of keydowns (\<open>Keybindings\<close>) promise
  together: an accepted profile is unambiguous and takes effect, a pending chord seals the terminal and lasts
  no longer than its time, and a compiled binding is what its keys dispatch. The case mappings of the examples
  are those of ASCII.
\<close>

lemmas catalog_eval = DEFAULT_KEYMAP_CATALOG_def MUX_SESSION_PREFIX_BINDINGS_def MUX_SESSION_DIRECT_BINDINGS_def
  MUX_SESSION_CONTEXT_BINDINGS_def prefixBinding_def directBinding_def SHELL_PREFIX_def

section \<open>Compiled keymaps\<close>

definition sampleProfile :: keymap_profile where
  "sampleProfile =
     \<lparr>profileVersion = 1, profileLeader = js ''ctrl-A'',
      profileBindings =
        [\<lparr>overrideCommand = TerminalSwitch, overrideBinding = Some (js ''leader  shift-y''), overrideContext = GlobalContext, confirmedRisky = None\<rparr>,
         \<lparr>overrideCommand = PaneZoom, overrideBinding = None, overrideContext = GlobalContext, confirmedRisky = None\<rparr>,
         \<lparr>overrideCommand = PaneSplitRight, overrideBinding = Some (js ''shift-mod-E''), overrideContext = GlobalContext, confirmedRisky = Some True\<rparr>],
      confirmedLeaderRisky = None\<rparr>"

definition sampleKeymap :: effective_keymap where
  "sampleKeymap = (case compileKeymap asciiCasing (\<lambda>_. 300) DEFAULT_KEYMAP_CATALOG sampleProfile PlatformLinux of
     Inr k \<Rightarrow> k | Inl _ \<Rightarrow> undefined)"

lemma sample_ok: "\<not> isl (compileKeymap asciiCasing (\<lambda>_. 300) DEFAULT_KEYMAP_CATALOG sampleProfile PlatformLinux)"
  by (simp add: compile_eval catalog_eval sampleProfile_def key_eval)

lemma sample_compiles:
  "compileKeymap asciiCasing (\<lambda>_. 300) DEFAULT_KEYMAP_CATALOG sampleProfile PlatformLinux = Inr sampleKeymap"
  using sample_ok unfolding sampleKeymap_def by (auto split: sum.splits)
text \<open>
  C9: a profile that compiles leaves no doubt about any key: no two prefix keys are the same after normalisation,
  no two direct chords are the same on the platform, the leader is no direct chord, each of the three recovery
  commands keeps a binding, and the leader is safe or confirmed.
\<close>

theorem compile_unambiguous:
  assumes "compileKeymap cs jsonLength defaults profile platform = Inr k"
  shows "distinct (map (prefixKeyOf cs \<circ> pKey) (prefixBindings k))
    \<and> distinct (map (directKeyOf cs platform \<circ> dKey) (directBindings k))
    \<and> canonicalChordForPlatform (leader k) platform \<notin> set (map (directKeyOf cs platform \<circ> dKey) (directBindings k))
    \<and> (\<forall>c \<in> {CommandPaletteShow, SettingsShow, KeymapReset}.
         c \<in> pCommand ` set (prefixBindings k) \<union> dCommand ` set (directBindings k))
    \<and> (let r = risk (classifyKeyBinding cs (leader k) LeaderBinding platform) in
         r = RiskSafe \<or> r = BrowserRisky \<and> confirmedLeaderRisky profile = Some True)
    \<and> length (profileBindings profile) \<le> 128"
proof -
  from assms obtain p where p: "prefixBindings k = placedPrefix p" "directBindings k = placedDirect p"
    and lead: "normalizeKeyChord cs (profileLeader profile) = Some (leader k)"
    and keys: "distinct (map (prefixKeyOf cs \<circ> pKey) (placedPrefix p))"
      "distinct (map (directKeyOf cs platform \<circ> dKey) (placedDirect p))"
      "canonicalChordForPlatform (leader k) platform \<notin> set (map (directKeyOf cs platform \<circ> dKey) (placedDirect p))"
    and none: "limitConflicts jsonLength profile = []" "leaderConflicts cs profile platform = []" "requiredConflicts p = []"
    by (rule compile_accepted)
  have "\<forall>c \<in> {CommandPaletteShow, SettingsShow, KeymapReset}.
      c \<in> pCommand ` set (placedPrefix p) \<union> dCommand ` set (placedDirect p)"
    using none(3) unfolding requiredConflicts_none requiredCommands_def by simp
  moreover have "let r = risk (classifyKeyBinding cs (leader k) LeaderBinding platform) in
      r = RiskSafe \<or> r = BrowserRisky \<and> confirmedLeaderRisky profile = Some True"
    using none(2) lead by (auto simp: leaderConflicts_def Let_def split: if_splits)
  moreover have "length (profileBindings profile) \<le> 128"
    using none(1) by (simp add: limitConflicts_def MAX_KEYMAP_BINDINGS_def split: if_splits)
  ultimately show ?thesis using keys unfolding p by blast
qed

text \<open>
  C10: every override of a profile that compiles takes effect and nothing else changes: a command overridden with
  no binding has none left, one overridden with a sequence has exactly that one binding, in normal form, and a
  command without an override keeps the bindings of the catalog.
\<close>

theorem compile_honours:
  assumes "compileKeymap cs jsonLength defaults profile platform = Inr k"
  shows "(\<forall>v \<in> set (profileBindings profile). overrideCommand v \<noteq> SettingsShow \<and>
      overrideHonoured cs v (prefixOf (overrideCommand v) (prefixBindings k)) (directOf (overrideCommand v) (directBindings k)))
    \<and> (\<forall>c. c \<notin> overrideCommand ` set (profileBindings profile) \<longrightarrow>
        prefixOf c (prefixBindings k) = prefixOf c (prefixBindings defaults) \<and>
        directOf c (directBindings k) = directOf c (directBindings defaults))"
proof -
  let ?vs = "profileBindings profile"
  from assms obtain p where p: "p = placeOverrides cs defaults ?vs platform" "prefixBindings k = placedPrefix p"
      "directBindings k = placedDirect p" and d: "distinct (map overrideCommand ?vs)" and none: "placedConflicts p = []"
    by (rule compile_accepted)
  have clean: "placedConflicts (fold (placeOverride cs platform) ?vs
      \<lparr>placedPrefix = filter (\<lambda>b. \<not> overridden ?vs (pCommand b)) (prefixBindings defaults),
       placedDirect = filter (\<lambda>b. \<not> overridden ?vs (dCommand b)) (directBindings defaults), placedConflicts = []\<rparr>) = []"
    using none p(1) by (simp add: placeOverrides_def)
  show ?thesis unfolding p(2, 3) unfolding p(1) placeOverrides_def
    using fold_place_honoured [OF clean d] fold_place_other [OF clean]
    by (simp add: placeOverrides_start prefixOf_kept)
qed


theorem compile_unambiguous_witness:
  "canonicalChordForPlatform (leader sampleKeymap) PlatformLinux
     \<notin> set (map (directKeyOf asciiCasing PlatformLinux \<circ> dKey) (directBindings sampleKeymap))"
  using compile_unambiguous [OF sample_compiles] by blast

theorem compile_honours_witness:
  "prefixOf PaneZoom (prefixBindings sampleKeymap) = [] \<and>
   prefixOf TabNew (prefixBindings sampleKeymap) = prefixOf TabNew (prefixBindings DEFAULT_KEYMAP_CATALOG)"
proof -
  have v: "\<lparr>overrideCommand = PaneZoom, overrideBinding = None, overrideContext = GlobalContext, confirmedRisky = None\<rparr>
      \<in> set (profileBindings sampleProfile)"
    and n: "TabNew \<notin> overrideCommand ` set (profileBindings sampleProfile)"
    by (simp_all add: sampleProfile_def)
  show ?thesis
    using compile_honours [OF sample_compiles, THEN conjunct1, THEN bspec, OF v]
      compile_honours [OF sample_compiles, THEN conjunct2, rule_format, OF n]
    by (simp add: overrideHonoured_def)
qed


section \<open>A pending chord\<close>

text \<open>Every branch of a pending chord keeps the chord or clears it.\<close>

lemma resolvePrefixKey_outcome:
  "(\<exists>r. resolvePrefixKey mac cs e st ctx km = (r, createChordState)) \<or> resolvePrefixKey mac cs e st ctx km = (Consume, st)"
  by (simp add: resolvePrefixKey_def Let_def split: option.split)

text \<open>
  While a chord is pending and the application has the keyboard, no key reaches the terminal: every keydown has
  a result, the chord ends with it unless the key was only swallowed, and the expiry is never put off.
\<close>

theorem pending_chord_seals:
  assumes "chordIsActive st now" "\<not> isComposing e" "\<not> overlayOpen ctx" "\<not> inEditable ctx" "\<not> inPrefixButton ctx"
  shows "case resolveMuxSessionKeydown mac cs e st ctx now km of
    (r, st') \<Rightarrow> r \<noteq> None \<and> (st' = createChordState \<or> st' = st \<and> r = Some Consume)"
  using resolvePrefixKey_outcome [of mac cs e st ctx km] assms
  by (auto simp: resolveMuxSessionKeydown_def)

text \<open>The state after a keydown, by what the keydown did.\<close>

lemma startChord_eq: "startChord p now st = \<lparr>prefix = Some p, expiresAt = now + CHORD_TIMEOUT_MS\<rparr>"
  by (cases st) (simp add: startChord_def)

lemma keydown_state:
  "snd (resolveMuxSessionKeydown mac cs e st ctx now km) = createChordState \<or>
   snd (resolveMuxSessionKeydown mac cs e st ctx now km) = st \<or>
   keyEventMatchesBinding mac cs e (leader km) \<and> \<not> keyRepeat e \<and> \<not> chordIsActive st now \<and>
   snd (resolveMuxSessionKeydown mac cs e st ctx now km) =
     \<lparr>prefix = Some (leader km), expiresAt = now + CHORD_TIMEOUT_MS\<rparr>"
  using resolvePrefixKey_outcome [of mac cs e st ctx km]
  by (auto simp: resolveMuxSessionKeydown_def startChord_eq Let_def split: prod.split option.split)

text \<open>A run of keydowns, each with its context and time.\<close>

fun keydowns :: "bool \<Rightarrow> casing \<Rightarrow> 'a keymap_catalog_scheme \<Rightarrow> (mux_key_event \<times> keydown_context \<times> int) list \<Rightarrow> chord_state \<Rightarrow> chord_state" where
  "keydowns mac cs km [] st = st"
| "keydowns mac cs km ((e, ctx, now) # evs) st =
     keydowns mac cs km evs (snd (resolveMuxSessionKeydown mac cs e st ctx now km))"

lemma keydowns_append: "keydowns mac cs km (evs @ evs') st = keydowns mac cs km evs' (keydowns mac cs km evs st)"
  by (induction evs arbitrary: st) auto

text \<open>
  Whatever the user types, a chord is pending only because of a press of the leader that was not a repeat, and it
  expires 2500 ms after that press.
\<close>

theorem chord_has_cause:
  "case prefix (keydowns mac cs km evs createChordState) of
     None \<Rightarrow> keydowns mac cs km evs createChordState = createChordState
   | Some p \<Rightarrow> p = leader km \<and>
       (\<exists>e ctx t. (e, ctx, t) \<in> set evs \<and> keyEventMatchesBinding mac cs e (leader km) \<and> \<not> keyRepeat e
          \<and> expiresAt (keydowns mac cs km evs createChordState) = t + 2500)"
proof (induction evs rule: rev_induct)
  case Nil
  show ?case by (simp add: createChordState_def)
next
  case (snoc x evs)
  obtain e ctx now where x: "x = (e, ctx, now)" by (cases x)
  let ?st = "keydowns mac cs km evs createChordState"
  have step: "keydowns mac cs km (evs @ [x]) createChordState = snd (resolveMuxSessionKeydown mac cs e ?st ctx now km)"
    by (simp add: keydowns_append x)
  consider "keydowns mac cs km (evs @ [x]) createChordState = createChordState"
    | "keydowns mac cs km (evs @ [x]) createChordState = ?st"
    | "keyEventMatchesBinding mac cs e (leader km)" "\<not> keyRepeat e"
      "keydowns mac cs km (evs @ [x]) createChordState = \<lparr>prefix = Some (leader km), expiresAt = now + CHORD_TIMEOUT_MS\<rparr>"
    using keydown_state [of mac cs e ?st ctx now km] unfolding step by blast
  then show ?case
  proof cases
    case 1
    then show ?thesis by (simp add: createChordState_def)
  next
    case 2
    have "set evs \<subseteq> set (evs @ [x])" by auto
    then show ?thesis unfolding 2 using snoc.IH by (simp split: option.splits) blast
  next
    case 3
    show ?thesis unfolding 3(3) using 3(1, 2) x by (auto simp: CHORD_TIMEOUT_MS_def)
  qed
qed

section \<open>The dispatch of a binding\<close>

definition appKeyboard :: "keydown_context \<Rightarrow> bool" where
  "appKeyboard ctx \<longleftrightarrow> \<not> overlayOpen ctx \<and> \<not> inEditable ctx \<and> \<not> inPrefixButton ctx"






text \<open>A key press without modifiers, and with the Control key.\<close>

definition press :: "string \<Rightarrow> bool \<Rightarrow> mux_key_event" where
  "press key ctrl = \<lparr>eventKey = js key, eventCode = [], metaKey = False, ctrlKey = ctrl, altKey = False, shiftKey = False,
     keyRepeat = False, isComposing = False\<rparr>"

definition terminalContext :: keydown_context where
  "terminalContext = \<lparr>overlayOpen = False, inEditable = False, inTerminal = True, inPrefixButton = False, zoomed = False,
     sidebarLayout = None, contextKind = None\<rparr>"

theorem pending_chord_seals_witness:
  "fst (resolveMuxSessionKeydown False asciiCasing (press ''y'' False) \<lparr>prefix = Some (js ''Mod-k''), expiresAt = 2600\<rparr>
     terminalContext 2599 DEFAULT_KEYMAP_CATALOG) \<noteq> None"
proof -
  have a: "chordIsActive \<lparr>prefix = Some (js ''Mod-k''), expiresAt = 2600\<rparr> 2599" by (simp add: chordIsActive_def)
  have b: "\<not> isComposing (press ''y'' False)" "\<not> overlayOpen terminalContext" "\<not> inEditable terminalContext"
    "\<not> inPrefixButton terminalContext" by (simp_all add: press_def terminalContext_def)
  show ?thesis
    using pending_chord_seals [OF a b, where mac = False and cs = asciiCasing and km = DEFAULT_KEYMAP_CATALOG]
    by (simp split: prod.splits)
qed





section \<open>Where a command comes from\<close>

lemma find_from: "find P xs = Some x \<Longrightarrow> x \<in> set xs \<and> P x"
  by (auto simp: find_Some_iff)

lemma commandResult_command: "commandResult c r e i = Command c' j \<Longrightarrow> c' = c \<and> j = i \<and> (keyRepeat e \<longrightarrow> r = Some True \<or> r = None)"
  by (auto simp: commandResult_def Let_def split: if_splits option.splits)

lemma prefix_command_source:
  assumes "fst (resolvePrefixKey mac cs e st ctx km) = Command c j"
  shows "\<exists>b \<in> set (prefixBindings km). pCommand b = c \<and>
    (if isMuxSessionJumpKey (serializeMuxSessionPrefixKey cs e)
     then pKeyRange b = Some TerminalPosition \<and> j = Some (hd (serializeMuxSessionPrefixKey cs e) - 48 - 1)
     else pKeyRange b = None \<and> pKey b = serializeMuxSessionPrefixKey cs e \<and> j = None)"
proof -
  let ?key = "serializeMuxSessionPrefixKey cs e"
  obtain b where b: "matchMuxSessionPrefixBinding ?key km = Some b"
    and r: "commandResult (pCommand b) (pRepeatable b) e (if isMuxSessionJumpKey ?key then Some (hd ?key - 48 - 1) else None) = Command c j"
    using assms by (auto simp: resolvePrefixKey_def Let_def split: if_splits option.splits)
  from commandResult_command [OF r] have "c = pCommand b" "j = (if isMuxSessionJumpKey ?key then Some (hd ?key - 48 - 1) else None)"
    by simp_all
  with b show ?thesis
    by (auto simp: matchMuxSessionPrefixBinding_def split: if_splits dest!: find_from)
qed

lemma direct_command_source:
  assumes "fst (resolveMuxSessionKeydown mac cs e st ctx now km) = Some (Command c j)" "\<not> chordIsActive st now"
  shows "j = None \<and> (\<exists>b \<in> set (directBindings km). dCommand b = c \<and> keyEventMatchesBinding mac cs e (dKey b))"
proof -
  obtain b where b: "matchMuxSessionDirectBinding mac cs e km = Some b"
    and r: "commandResult (dCommand b) (dRepeatable b) e None = Command c j"
    using assms by (auto simp: resolveMuxSessionKeydown_def Let_def split: if_splits option.splits)
  from commandResult_command [OF r] find_from [OF b [unfolded matchMuxSessionDirectBinding_def]]
  show ?thesis by auto
qed

lemma command_source:
  assumes "fst (resolveMuxSessionKeydown mac cs e st ctx now km) = Some (Command c j)"
  shows "appKeyboard ctx \<and> \<not> isComposing e \<and>
    (if chordIsActive st now then
       \<exists>b \<in> set (prefixBindings km). pCommand b = c \<and>
         (if isMuxSessionJumpKey (serializeMuxSessionPrefixKey cs e)
          then pKeyRange b = Some TerminalPosition \<and> j = Some (hd (serializeMuxSessionPrefixKey cs e) - 48 - 1)
          else pKeyRange b = None \<and> pKey b = serializeMuxSessionPrefixKey cs e \<and> j = None)
     else j = None \<and> (\<exists>b \<in> set (directBindings km). dCommand b = c \<and> keyEventMatchesBinding mac cs e (dKey b)))"
proof -
  have k: "appKeyboard ctx \<and> \<not> isComposing e"
    using assms by (auto simp: resolveMuxSessionKeydown_def appKeyboard_def split: if_splits)
  show ?thesis
  proof (cases "chordIsActive st now")
    case True
    then have "fst (resolvePrefixKey mac cs e st ctx km) = Command c j"
      using assms k by (simp add: resolveMuxSessionKeydown_def appKeyboard_def split: prod.splits)
    then show ?thesis using prefix_command_source k True by (simp only: if_True simp_thms) blast
  next
    case False
    then show ?thesis using direct_command_source [OF assms] k by simp
  qed
qed

text \<open>
  A keydown dispatches a command only by a binding of the keymap: under a pending chord by a prefix binding whose
  key the event reads as (a digit by the position binding, with its index), and otherwise by a direct chord that
  the event matches; never while an overlay or a text field has the keyboard.
\<close>

theorem dispatch_sound:
  assumes "fst (resolveMuxSessionKeydown mac cs e st ctx now km) = Some (Command c j)"
  shows "appKeyboard ctx \<and> \<not> isComposing e \<and>
    (if chordIsActive st now then
       \<exists>b \<in> set (prefixBindings km). pCommand b = c \<and>
         (if isMuxSessionJumpKey (serializeMuxSessionPrefixKey cs e)
          then pKeyRange b = Some TerminalPosition \<and> j = Some (hd (serializeMuxSessionPrefixKey cs e) - 48 - 1)
          else pKeyRange b = None \<and> pKey b = serializeMuxSessionPrefixKey cs e \<and> j = None)
     else j = None \<and> (\<exists>b \<in> set (directBindings km). dCommand b = c \<and> keyEventMatchesBinding mac cs e (dKey b)))"
  using command_source [OF assms] .

theorem dispatch_sound_witness:
  "\<exists>b \<in> set (directBindings DEFAULT_KEYMAP_CATALOG). dCommand b = SidebarToggle"
proof -
  have lead: "\<not> keyEventMatchesBinding False asciiCasing (press ''b'' True) (leader DEFAULT_KEYMAP_CATALOG)"
    by (simp add: DEFAULT_KEYMAP_CATALOG_def SHELL_PREFIX_def press_def key_eval)
  have other: "\<not> keyEventMatchesBinding False asciiCasing (press ''b'' True) (js ''Mod-d'')"
    "\<not> keyEventMatchesBinding False asciiCasing (press ''b'' True) (js ''Mod-Shift-d'')"
    "keyEventMatchesBinding False asciiCasing (press ''b'' True) (js ''Mod-b'')"
    by (simp_all add: press_def key_eval)
  obtain b where b: "matchMuxSessionDirectBinding False asciiCasing (press ''b'' True) DEFAULT_KEYMAP_CATALOG = Some b"
    "dCommand b = SidebarToggle"
    by (simp add: matchMuxSessionDirectBinding_def DEFAULT_KEYMAP_CATALOG_def MUX_SESSION_DIRECT_BINDINGS_def
        directBinding_def other)
  have "fst (resolveMuxSessionKeydown False asciiCasing (press ''b'' True) createChordState terminalContext 0 DEFAULT_KEYMAP_CATALOG)
      = Some (Command SidebarToggle None)"
    using b lead by (simp add: resolveMuxSessionKeydown_def terminalContext_def commandResult_def)
      (simp add: press_def)
  from dispatch_sound [OF this] show ?thesis by simp blast
qed

section \<open>Overrides on digits\<close>

text \<open>A command whose only bindings are prefix bindings on digits is never dispatched.\<close>

lemma digit_bindings_dead:
  assumes "\<And>b. b \<in> set (prefixBindings km) \<Longrightarrow> pCommand b = c \<Longrightarrow> pKeyRange b = None \<and> isMuxSessionJumpKey (pKey b)"
    "\<And>b. b \<in> set (directBindings km) \<Longrightarrow> dCommand b \<noteq> c"
  shows "fst (resolveMuxSessionKeydown mac cs e st ctx now km) \<noteq> Some (Command c j)"
proof
  assume "fst (resolveMuxSessionKeydown mac cs e st ctx now km) = Some (Command c j)"
  note source = command_source [OF this]
  show False
  proof (cases "chordIsActive st now")
    case True
    let ?key = "serializeMuxSessionPrefixKey cs e"
    from source True obtain b where b: "b \<in> set (prefixBindings km)" "pCommand b = c"
        "if isMuxSessionJumpKey ?key then pKeyRange b \<noteq> None else pKey b = ?key"
      by (auto split: if_splits)
    from assms(1) [OF b(1, 2)] b(3) show False by (auto split: if_splits)
  next
    case False
    with source assms(2) show False by auto
  qed
qed

definition digitProfile :: keymap_profile where
  "digitProfile =
     \<lparr>profileVersion = 1, profileLeader = js ''Mod-k'',
      profileBindings =
        [\<lparr>overrideCommand = CommandPaletteShow, overrideBinding = Some (js ''Leader 5''), overrideContext = GlobalContext, confirmedRisky = None\<rparr>],
      confirmedLeaderRisky = None\<rparr>"

definition digitKeymap :: effective_keymap where
  "digitKeymap = (case compileKeymap asciiCasing (\<lambda>_. 300) DEFAULT_KEYMAP_CATALOG digitProfile PlatformLinux of
     Inr k \<Rightarrow> k | Inl _ \<Rightarrow> undefined)"

lemma digit_ok: "\<not> isl (compileKeymap asciiCasing (\<lambda>_. 300) DEFAULT_KEYMAP_CATALOG digitProfile PlatformLinux)"
  by (simp add: compile_eval catalog_eval digitProfile_def key_eval)

lemma digit_compiles:
  "compileKeymap asciiCasing (\<lambda>_. 300) DEFAULT_KEYMAP_CATALOG digitProfile PlatformLinux = Inr digitKeymap"
  using digit_ok unfolding digitKeymap_def by (auto split: sum.splits)

lemma digit_placed:
  "map (\<lambda>b. (pKey b, pKeyRange b)) (prefixOf CommandPaletteShow (placedPrefix
     (placeOverrides asciiCasing DEFAULT_KEYMAP_CATALOG (profileBindings digitProfile) PlatformLinux))) = [([53], None)]"
  "directOf CommandPaletteShow (placedDirect
     (placeOverrides asciiCasing DEFAULT_KEYMAP_CATALOG (profileBindings digitProfile) PlatformLinux)) = []"
  by (simp_all add: compile_eval catalog_eval digitProfile_def key_eval prefixOf_def directOf_def)

text \<open>
  C39: the compiler accepts a profile that moves the command palette, a required recovery command, to \<open>Leader 5\<close>, and
  under the keymap it returns no keydown whatsoever shows the palette: digits belong to the jump by position.
\<close>

theorem digit_override_dead:
  "compileKeymap asciiCasing (\<lambda>_. 300) DEFAULT_KEYMAP_CATALOG digitProfile PlatformLinux = Inr digitKeymap \<and>
   fst (resolveMuxSessionKeydown mac cs e st ctx now digitKeymap) \<noteq> Some (Command CommandPaletteShow j)"
proof
  show c: "compileKeymap asciiCasing (\<lambda>_. 300) DEFAULT_KEYMAP_CATALOG digitProfile PlatformLinux = Inr digitKeymap"
    by (rule digit_compiles)
  from c obtain p where p: "p = placeOverrides asciiCasing DEFAULT_KEYMAP_CATALOG (profileBindings digitProfile) PlatformLinux"
    "prefixBindings digitKeymap = placedPrefix p" "directBindings digitKeymap = placedDirect p"
    by (rule compile_accepted)
  show "fst (resolveMuxSessionKeydown mac cs e st ctx now digitKeymap) \<noteq> Some (Command CommandPaletteShow j)"
  proof (rule digit_bindings_dead)
    fix b assume b: "b \<in> set (prefixBindings digitKeymap)" "pCommand b = CommandPaletteShow"
    then have "(pKey b, pKeyRange b) \<in> set (map (\<lambda>b. (pKey b, pKeyRange b)) (prefixOf CommandPaletteShow (placedPrefix p)))"
      unfolding p(2) prefixOf_def by auto
    then show "pKeyRange b = None \<and> isMuxSessionJumpKey (pKey b)"
      unfolding p(1) digit_placed by (simp add: isMuxSessionJumpKey_def)
  next
    fix b assume "b \<in> set (directBindings digitKeymap)"
    then show "dCommand b \<noteq> CommandPaletteShow"
      using digit_placed(2) unfolding p(3) p(1) by (auto simp: directOf_def filter_empty_conv)
  qed
qed


section \<open>The default catalog\<close>

lemma default_bindings_valid:
  "validateMuxSessionBindings DEFAULT_KEYMAP_CATALOG MUX_SESSION_DUAL_PATH_COMMANDS COMMAND_CATALOG = []"
  by (simp add: validateMuxSessionBindings_def catalog_eval auditPrefix_def auditDirect_def auditIssue_def recordBinding_def
      MUX_SESSION_DUAL_PATH_COMMANDS_def COMMAND_CATALOG_def descriptor_def key_eval)

end
