(* ===== verification/KeymapSettings.thy ===== *)
theory KeymapSettings
  imports KeymapDispatch
begin

text \<open>
  The stored keymap, \<open>packages/yaade-app/src/keymap-storage.ts\<close> and \<open>effective-keymap.ts\<close>, and the execution of
  commands, \<open>packages/yaade-app/src/commands/runtime.ts\<close>. The browser's storage holds one string under the
  key of the keymap, or denies access. The JSON encoder, the schema decoder and the probe for the version are
  parameters; a revision is a number of the schema, hence a rational. The lemmas show that a persisted profile
  is loaded again, newer than before, and that a disabled command has no effect.
\<close>

section \<open>The stored profile\<close>

datatype keymap_diagnostic = InvalidStorage | NewerVersion | Oversized | CompileConflict | StorageDenied

record stored_keymap =
  revision :: rat
  storedProfile :: keymap_profile

record loaded_keymap = stored_keymap +
  effectiveKeymap :: effective_keymap
  diagnostic :: "keymap_diagnostic option"

record keymap_storage =
  readable :: bool
  writable :: bool
  item :: "jstr option"

text \<open>The JSON and schema functions of the environment.\<close>

record keymap_codec =
  jsonLengthOf :: "keymap_profile \<Rightarrow> nat"
  encodeStored :: "stored_keymap \<Rightarrow> jstr"
  decodeStored :: "jstr \<Rightarrow> stored_keymap option"
  storedVersion :: "jstr \<Rightarrow> rat option"

definition safeInteger :: "rat \<Rightarrow> bool" where
  "safeInteger r \<longleftrightarrow> r \<in> range of_int \<and> \<bar>r\<bar> \<le> of_int (2 ^ 53 - 1)"

definition defaultEffectiveKeymap :: "casing \<Rightarrow> keymap_codec \<Rightarrow> keymap_catalog \<Rightarrow> effective_keymap" where
  "defaultEffectiveKeymap cs codec defaults =
     (case compileKeymap cs (jsonLengthOf codec) defaults DEFAULT_KEYMAP_PROFILE PlatformLinux of
        Inr k \<Rightarrow> k
      | Inl _ \<Rightarrow> keymap_catalog.extend defaults (effective_keymap.fields DEFAULT_KEYMAP_PROFILE))"

definition fallbackSettings :: "casing \<Rightarrow> keymap_codec \<Rightarrow> keymap_catalog \<Rightarrow> keymap_diagnostic option \<Rightarrow> loaded_keymap" where
  "fallbackSettings cs codec defaults d =
     \<lparr>revision = 0, storedProfile = DEFAULT_KEYMAP_PROFILE, effectiveKeymap = defaultEffectiveKeymap cs codec defaults,
      diagnostic = d\<rparr>"

definition decodeStoredKeymapJson :: "keymap_codec \<Rightarrow> jstr \<Rightarrow> keymap_diagnostic + stored_keymap" where
  "decodeStoredKeymapJson codec raw =
     (if MAX_KEYMAP_JSON_BYTES < byteLength raw then Inl Oversized
      else case decodeStored codec raw of
        Some stored \<Rightarrow> if safeInteger (revision stored) \<and> 0 \<le> revision stored then Inr stored else Inl InvalidStorage
      | None \<Rightarrow>
          (case storedVersion codec raw of
             Some v \<Rightarrow> if of_int KEYMAP_PROFILE_VERSION < v then Inl NewerVersion else Inl InvalidStorage
           | None \<Rightarrow> Inl InvalidStorage))"

definition loadKeymapSettings :: "casing \<Rightarrow> keymap_codec \<Rightarrow> keymap_storage \<Rightarrow> keymap_catalog \<Rightarrow> keymap_platform \<Rightarrow> loaded_keymap" where
  "loadKeymapSettings cs codec storage defaults platform =
     (if \<not> readable storage then fallbackSettings cs codec defaults (Some StorageDenied)
      else case item storage of
        None \<Rightarrow> fallbackSettings cs codec defaults None
      | Some raw \<Rightarrow>
          (case decodeStoredKeymapJson codec raw of
             Inl d \<Rightarrow> fallbackSettings cs codec defaults (Some d)
           | Inr stored \<Rightarrow>
               (case compileKeymap cs (jsonLengthOf codec) defaults (storedProfile stored) platform of
                  Inl _ \<Rightarrow> fallbackSettings cs codec defaults (Some CompileConflict)
                | Inr k \<Rightarrow> \<lparr>revision = revision stored, storedProfile = storedProfile stored, effectiveKeymap = k,
                            diagnostic = None\<rparr>)))"

definition truncRat :: "rat \<Rightarrow> rat" where
  "truncRat r = (if 0 \<le> r then of_int \<lfloor>r\<rfloor> else of_int \<lceil>r\<rceil>)"

definition persistKeymapSettings :: "keymap_codec \<Rightarrow> keymap_profile \<Rightarrow> rat \<Rightarrow> rat \<Rightarrow> keymap_storage
    \<Rightarrow> (keymap_diagnostic + rat \<times> jstr) \<times> keymap_storage" where
  "persistKeymapSettings codec profile previousRevision now storage =
     (let r = max (previousRevision + 1) (truncRat now);
          serialized = encodeStored codec \<lparr>revision = r, storedProfile = profile\<rparr>
      in if MAX_KEYMAP_JSON_BYTES < byteLength serialized then (Inl Oversized, storage)
         else if writable storage then (Inr (r, serialized), storage\<lparr>item := Some serialized\<rparr>)
         else (Inl StorageDenied, storage))"

definition shouldApplyStoredKeymap :: "rat \<Rightarrow> stored_keymap \<Rightarrow> bool" where
  "shouldApplyStoredKeymap currentRevision incoming \<longleftrightarrow> currentRevision < revision incoming"

text \<open>The keymap in force, one value of the module.\<close>

definition installEffectiveKeymap :: "effective_keymap \<Rightarrow> effective_keymap option \<Rightarrow> effective_keymap option" where
  "installEffectiveKeymap k active = Some k"

definition readEffectiveKeymap :: "effective_keymap option \<Rightarrow> effective_keymap option" where
  "readEffectiveKeymap active = active"

definition resetEffectiveKeymap :: "effective_keymap option \<Rightarrow> effective_keymap option" where
  "resetEffectiveKeymap active = None"

lemma persisted_revision:
  assumes "safeInteger previous" "0 \<le> previous" "previous < of_int (2 ^ 53 - 1)" "now < of_int (2 ^ 53)"
  shows "safeInteger (max (previous + 1) (truncRat now)) \<and> previous < max (previous + 1) (truncRat now)"
proof -
  obtain p where p: "previous = of_int p" using assms(1) by (auto simp: safeInteger_def)
  with assms(2, 3) have pb: "0 \<le> p" "p < 2 ^ 53 - 1" by (simp_all only: of_int_less_iff of_int_0_le_iff)
  define n where "n = (if 0 \<le> now then \<lfloor>now\<rfloor> else \<lceil>now\<rceil>)"
  have n: "truncRat now = of_int n" by (simp add: truncRat_def n_def)
  have nb: "n < 2 ^ 53"
  proof (cases "0 \<le> now")
    case True
    then have "n = \<lfloor>now\<rfloor>" by (simp add: n_def)
    then show ?thesis using assms(4) by (simp only: floor_less_iff)
  next
    case False
    then have "n = \<lceil>now\<rceil>" by (simp add: n_def)
    moreover have "\<lceil>now\<rceil> \<le> 0" using False by (simp add: ceiling_le_iff)
    ultimately show ?thesis by simp
  qed
  have "max (previous + 1) (truncRat now) = of_int (max (p + 1) n)" unfolding p n by (simp add: of_int_max)
  moreover have "\<bar>of_int (max (p + 1) n) :: rat\<bar> \<le> of_int (2 ^ 53 - 1)"
  proof -
    have "\<bar>max (p + 1) n\<bar> \<le> 2 ^ 53 - 1" using pb nb by auto
    then show ?thesis by (metis of_int_abs of_int_le_iff)
  qed
  ultimately have "safeInteger (max (previous + 1) (truncRat now))" unfolding safeInteger_def by simp
  then show ?thesis by (simp add: less_max_iff_disj)
qed

text \<open>
  What is persisted is loaded. If the codec decodes what it encodes for it, a profile that compiles and that the storage
  accepts is the one the next load finds, with its compiled keymap, no diagnostic, and a revision above the
  previous one, so that other windows apply it. Revisions and the clock are below 2^53.
\<close>

theorem persisted_keymap_loads:
  assumes "decodeStored codec (encodeStored codec \<lparr>revision = r, storedProfile = profile\<rparr>)
      = Some \<lparr>revision = r, storedProfile = profile\<rparr>"
    "persistKeymapSettings codec profile previous now storage = (Inr (r, serialized), storage')"
    "compileKeymap cs (jsonLengthOf codec) defaults profile platform = Inr k"
    "safeInteger previous" "0 \<le> previous" "previous < of_int (2 ^ 53 - 1)" "now < of_int (2 ^ 53)" "readable storage"
  shows "loadKeymapSettings cs codec storage' defaults platform =
      \<lparr>revision = r, storedProfile = profile, effectiveKeymap = k, diagnostic = None\<rparr>
    \<and> shouldApplyStoredKeymap previous \<lparr>revision = r, storedProfile = profile\<rparr>"
proof -
  have r: "r = max (previous + 1) (truncRat now)" "storage' = storage\<lparr>item := Some serialized\<rparr>"
    "serialized = encodeStored codec \<lparr>revision = r, storedProfile = profile\<rparr>" "\<not> MAX_KEYMAP_JSON_BYTES < byteLength serialized"
    using assms(2) by (auto simp: persistKeymapSettings_def Let_def split: if_splits)
  have rev: "safeInteger r" "previous < r" using persisted_revision [OF assms(4-7)] unfolding r(1) by blast+
  with assms(5) have "0 \<le> r" by simp
  with rev(1) assms(1) r(3, 4) have "decodeStoredKeymapJson codec serialized = Inr \<lparr>revision = r, storedProfile = profile\<rparr>"
    by (simp add: decodeStoredKeymapJson_def)
  then show ?thesis using assms(3, 8) rev(2) by (simp add: loadKeymapSettings_def shouldApplyStoredKeymap_def r(2))
qed

definition sampleStored :: stored_keymap where
  "sampleStored = \<lparr>revision = 12, storedProfile = sampleProfile\<rparr>"

definition sampleCodec :: keymap_codec where
  "sampleCodec = \<lparr>jsonLengthOf = (\<lambda>_. 300), encodeStored = (\<lambda>_. js ''{}''),
     decodeStored = (\<lambda>_. Some sampleStored), storedVersion = (\<lambda>_. None)\<rparr>"

theorem persisted_keymap_loads_witness:
  "effectiveKeymap (loadKeymapSettings asciiCasing sampleCodec \<lparr>readable = True, writable = True, item = Some (js ''{}'')\<rparr>
     DEFAULT_KEYMAP_CATALOG PlatformLinux) = sampleKeymap"
proof -
  have p: "persistKeymapSettings sampleCodec sampleProfile 11 (7 / 2) \<lparr>readable = True, writable = True, item = None\<rparr>
      = (Inr (12, js ''{}''), \<lparr>readable = True, writable = True, item = Some (js ''{}'')\<rparr>)"
    by (simp add: persistKeymapSettings_def sampleCodec_def truncRat_def MAX_KEYMAP_JSON_BYTES_def byteLength_def
        utf8Encode_def scalar_def scalarBytes_def js_text Let_def)
  have c: "compileKeymap asciiCasing (jsonLengthOf sampleCodec) DEFAULT_KEYMAP_CATALOG sampleProfile PlatformLinux = Inr sampleKeymap"
    using sample_compiles by (simp add: sampleCodec_def)
  have s: "safeInteger 11" unfolding safeInteger_def by (simp add: image_iff)
  show ?thesis
    using persisted_keymap_loads [OF _ p c s] by (simp add: sampleCodec_def sampleStored_def)
qed

section \<open>The execution of commands\<close>

datatype command_status = Enabled | Disabled string

datatype viewport_mode = ModeLive | ModeInspecting | ModePaused | ModeUnavailable

record command_context =
  hasActiveSession :: bool
  hasActiveTab :: bool
  hasActiveTerminal :: bool
  availableTerminalCount :: nat
  activeTabTerminalCount :: nat
  tabCount :: nat
  hasSidebarLayout :: bool
  viewportMode :: viewport_mode
  viewportCanPause :: bool

datatype invocation_source = FromKeyboard | FromPalette | FromPointer | FromNativeMenu | FromWhichKey

record command_invocation =
  invocationSource :: invocation_source
  invocationJumpIndex :: "nat option"

datatype execution_result = Executed | ExecutionDisabled string | ExecutionFailed

definition enabledIf :: "bool \<Rightarrow> string \<Rightarrow> command_status" where
  "enabledIf c why = (if c then Enabled else Disabled why)"

fun availabilityFor :: "command_availability \<Rightarrow> command_context \<Rightarrow> command_status" where
  "availabilityFor WhenAlways c = Enabled"
| "availabilityFor WhenActiveSession c = enabledIf (hasActiveSession c) ''Open or create a session first.''"
| "availabilityFor WhenActiveTab c = enabledIf (hasActiveTab c) ''Open or create a Window first.''"
| "availabilityFor WhenActiveTerminal c = enabledIf (hasActiveTerminal c) ''Focus a terminal first.''"
| "availabilityFor WhenAnyTerminal c = enabledIf (0 < availableTerminalCount c) ''No terminals are available.''"
| "availabilityFor WhenMultipleTabs c = enabledIf (1 < tabCount c) ''No other Window is available.''"
| "availabilityFor WhenMultipleTerminals c =
     enabledIf (1 < activeTabTerminalCount c) ''No other terminal is available in this Window.''"
| "availabilityFor WhenMultipleAvailableTerminals c =
     enabledIf (1 < availableTerminalCount c) ''No other terminal is available.''"
| "availabilityFor WhenSidebarLayout c = enabledIf (hasSidebarLayout c) ''Choose a sidebar layout in Settings first.''"
| "availabilityFor WhenViewportNotLive c =
     enabledIf (viewportMode c = ModeInspecting \<or> viewportMode c = ModePaused)
       ''The focused terminal is already showing live output.''"
| "availabilityFor WhenViewportPausable c =
     enabledIf (viewportCanPause c) ''The focused terminal has no scrollback to pause.''"

definition commandAvailability :: "command_descriptor \<Rightarrow> command_context \<Rightarrow> command_status" where
  "commandAvailability d c = availabilityFor (availability d) c"

text \<open>
  The handlers are the application's: a handler changes its state and settles or rejects, with the error's message.
  \<open>onError\<close> records the message in the state.
\<close>

definition executeCommand :: "('s \<Rightarrow> command_context) \<Rightarrow> (command_id \<Rightarrow> command_invocation \<Rightarrow> 's \<Rightarrow> string option \<times> 's)
    \<Rightarrow> (string \<Rightarrow> 's \<Rightarrow> 's) \<Rightarrow> command_id \<Rightarrow> command_invocation \<Rightarrow> 's \<Rightarrow> execution_result \<times> 's" where
  "executeCommand contextOf handlers onError i request s =
     (case commandAvailability (commandDescriptor i) (contextOf s) of
        Disabled why \<Rightarrow> (ExecutionDisabled why, s)
      | Enabled \<Rightarrow>
          (case handlers i request s of
             (None, s') \<Rightarrow> (Executed, s')
           | (Some message, s') \<Rightarrow> (ExecutionFailed, onError message s')))"

lemma disabled_no_effect:
  "fst (executeCommand contextOf handlers onError i request s) = ExecutionDisabled why \<Longrightarrow>
   snd (executeCommand contextOf handlers onError i request s) = s"
  by (auto simp: executeCommand_def split: command_status.splits prod.splits option.splits)

lemma recovery_always_enabled:
  "i \<in> set requiredCommands \<Longrightarrow> commandAvailability (commandDescriptor i) c = Enabled"
  by (auto simp: requiredCommands_def commandAvailability_def commandDescriptor_def findDescriptor_def COMMAND_CATALOG_def descriptor_def)

end
