(* ===== verification/Transcript.thy ===== *)
theory Transcript
  imports Utf8
begin

text \<open>
  The transcript of an agent, \<open>packages/agents-client/src/lib/transcript.ts\<close>: the merge of event pages into the
  retained window and the mapping of events to what is shown. \<open>upper\<close> stands for \<open>toUpperCase\<close>. The lemmas show
  that the incremental merge equals a batch merge, and that grouping and text accumulation lose nothing.
\<close>

record managed_event =
  agentId :: string
  runId :: "string option"
  sequence :: int
  eventType :: string
  payload :: json
  createdAt :: string

datatype marker_variant = VariantDefault | VariantSeparator | VariantBorder
datatype tone = ToneNeutral | ToneActive | ToneSuccess

record transcript_marker =
  markerLabel :: string
  markerDetail :: "string option"
  markerTone :: tone
  markerVariant :: marker_variant
  shimmer :: "bool option"
  toolCall :: "bool option"
  toolArguments :: "json option"
  filePath :: "string option"

text \<open>A marker, or an error with its label and detail; errors have the variant \<open>border\<close>.\<close>

datatype event_kind = Marker transcript_marker | ErrorEvent string "string option"

record transcript_event =
  eventKind :: event_kind
  eventId :: "string \<times> int"
  eventAt :: string
  eventSequence :: int

text \<open>Identifiers are a prefix and a sequence number, \<open>`event-${sequence}`\<close>.\<close>

datatype transcript_item =
    Assistant (itemId: "string \<times> int") (itemContent: string) (itemAt: string) (itemSequence: int)
  | User "string \<times> int" string string int
  | Event transcript_event
  | EventGroup "string \<times> int" "transcript_event list" string int int int

definition TRANSCRIPT_EVENT_WINDOW :: nat where
  "TRANSCRIPT_EVENT_WINDOW = 1000"

section \<open>Merging\<close>

function searchFrom :: "managed_event list \<Rightarrow> int \<Rightarrow> nat \<Rightarrow> nat \<Rightarrow> nat" where
  "searchFrom events s low high =
     (if low < high then
        let middle = (low + high) div 2 in
        if middle < length events \<and> sequence (events ! middle) < s then searchFrom events s (middle + 1) high
        else searchFrom events s low middle
      else low)"
  by pat_completeness auto
termination by (relation "measure (\<lambda>(_, _, low, high). high - low)") auto

declare searchFrom.simps [simp del]

definition binarySearchSequence :: "managed_event list \<Rightarrow> int \<Rightarrow> nat" where
  "binarySearchSequence events s = searchFrom events s 0 (length events)"

text \<open>\<open>slice(length - limit)\<close> when the window is exceeded.\<close>

definition lastN :: "nat \<Rightarrow> 'a list \<Rightarrow> 'a list" where
  "lastN n xs = (if n < length xs then drop (length xs - n) xs else xs)"

text \<open>Events are compared by value, where the source compares object identity; an equal event leaves the list alone.\<close>

definition mergeEvent :: "nat \<Rightarrow> managed_event \<Rightarrow> managed_event list \<Rightarrow> managed_event list" where
  "mergeEvent limit e next =
     (if next = [] \<or> sequence (last next) < sequence e then lastN limit (next @ [e])
      else let i = binarySearchSequence next (sequence e) in
        if i < length next \<and> sequence (next ! i) = sequence e then
          (if next ! i = e then next else lastN limit (next[i := e]))
        else lastN limit (take i next @ [e] @ drop i next))"

definition mergeTranscriptEvents :: "managed_event list \<Rightarrow> managed_event list \<Rightarrow> nat \<Rightarrow> managed_event list" where
  "mergeTranscriptEvents current incoming limit =
     (if incoming = [] then current else fold (mergeEvent limit) incoming current)"

text \<open>\<open>[...new Map(events by sequence).values()].sort(by sequence)\<close>.\<close>

definition orderedEvents :: "managed_event list \<Rightarrow> managed_event list" where
  "orderedEvents events = sort_key sequence (jvalues (jofList (map (\<lambda>e. (sequence e, e)) events)))"

definition prependTranscriptEvents :: "managed_event list \<Rightarrow> managed_event list \<Rightarrow> nat \<Rightarrow> managed_event list" where
  "prependTranscriptEvents current incoming limit =
     (if incoming = [] then current else take limit (orderedEvents (current @ incoming)))"

section \<open>Mapping\<close>

definition thinkingMarker :: "transcript_event \<Rightarrow> bool" where
  "thinkingMarker e \<longleftrightarrow> (case eventKind e of Marker m \<Rightarrow> markerLabel m = ''Thinking...'' | ErrorEvent _ _ \<Rightarrow> False)"

fun collapseFrom :: "bool \<Rightarrow> transcript_event list \<Rightarrow> transcript_event list" where
  "collapseFrom seen [] = []"
| "collapseFrom seen (e # es) =
     (if thinkingMarker e then (if seen then collapseFrom True es else e # collapseFrom True es)
      else e # collapseFrom seen es)"

definition collapseThinkingMarkers :: "transcript_event list \<Rightarrow> transcript_event list" where
  "collapseThinkingMarkers events = collapseFrom False events"

definition stringOf :: "json option \<Rightarrow> string option" where
  "stringOf v = (case v of Some (JStr s) \<Rightarrow> Some s | _ \<Rightarrow> None)"

definition stringValue :: "json option \<Rightarrow> string option" where
  "stringValue v = (case v of Some (JStr s) \<Rightarrow> (if s \<noteq> [] then Some s else None) | _ \<Rightarrow> None)"

definition payloadOf :: "managed_event \<Rightarrow> string \<Rightarrow> json option" where
  "payloadOf e key = map_of (asRecord (Some (payload e))) key"

text \<open>The scan that pairs the ends of tool runs with their starts, oldest first, per tool name.\<close>

record tool_scan =
  activeStarts :: "(string, int list) jsmap"
  completedStarts :: "int list"

definition toolNameOf :: "managed_event \<Rightarrow> string" where
  "toolNameOf e = coalesce (stringOf (payloadOf e ''toolName'')) ''tool''"

definition scanTool :: "managed_event \<Rightarrow> tool_scan \<Rightarrow> tool_scan" where
  "scanTool e s =
     (let toolName = toolNameOf e in
      if eventType e = ''tool_execution_start'' then
        s\<lparr>activeStarts := jset toolName (coalesce (jget (activeStarts s) toolName) [] @ [sequence e]) (activeStarts s)\<rparr>
      else if eventType e \<noteq> ''tool_execution_end'' then s
      else case jget (activeStarts s) toolName of
        Some (start # rest) \<Rightarrow>
          (let s' = s\<lparr>activeStarts := jset toolName rest (activeStarts s)\<rparr> in
           if payloadOf e ''isError'' \<noteq> Some (JBool True) then s'\<lparr>completedStarts := List.insert start (completedStarts s')\<rparr> else s')
      | _ \<Rightarrow> s)"

definition completedTools :: "managed_event list \<Rightarrow> int list" where
  "completedTools ordered = completedStarts (fold scanTool ordered \<lparr>activeStarts = [], completedStarts = []\<rparr>)"

fun containsString :: "string \<Rightarrow> string \<Rightarrow> bool" where
  "containsString pattern [] = (pattern = [])"
| "containsString pattern (c # t) = (take (length pattern) (c # t) = pattern \<or> containsString pattern t)"

definition humanize :: "(string \<Rightarrow> string) \<Rightarrow> string \<Rightarrow> string" where
  "humanize upper v =
     (let words = map (\<lambda>c. if c = CHR ''.'' \<or> c = CHR ''_'' then CHR '' '' else c) v
      in upper (take 1 words) @ drop 1 words)"

definition lifecycleEvent :: "string \<Rightarrow> (string \<times> tone) option" where
  "lifecycleEvent t = map_of
     [(''agent_start'', ''Agent started'', ToneActive), (''turn_start'', ''Turn started'', ToneActive),
      (''message_start'', ''Response started'', ToneActive), (''message_end'', ''Response finished'', ToneSuccess),
      (''turn_end'', ''Turn finished'', ToneSuccess), (''agent_end'', ''Agent finished'', ToneSuccess),
      (''agent_settled'', ''Agent settled'', ToneSuccess)] t"

definition extractFilePath :: "string option \<Rightarrow> json option \<Rightarrow> string option" where
  "extractFilePath toolName v =
     (if toolName = None \<or> the toolName \<notin> {''read'', ''edit'', ''write''} then None
      else let candidates = map (\<lambda>key. stringOf (map_of (asRecord v) key)) [''path'', ''filePath'', ''fileName'', ''filename'', ''file'']
        in find (\<lambda>c. list_ex (\<lambda>ch. \<not> jsSpace (of_char ch)) c) (somes candidates))"

definition plainMarker :: "string \<Rightarrow> string option \<Rightarrow> tone \<Rightarrow> marker_variant \<Rightarrow> transcript_marker" where
  "plainMarker label detail t v =
     \<lparr>markerLabel = label, markerDetail = detail, markerTone = t, markerVariant = v, shimmer = None, toolCall = None,
      toolArguments = None, filePath = None\<rparr>"

definition toolMarker :: "managed_event \<Rightarrow> string option \<Rightarrow> bool \<Rightarrow> transcript_marker" where
  "toolMarker e toolName toolCompleted =
     (let args = (case payloadOf e ''args'' of Some v \<Rightarrow> Some v | None \<Rightarrow> payloadOf e ''arguments'')
      in \<lparr>markerLabel = (if toolCompleted then ''Ran '' else ''Running '') @ coalesce toolName ''tool'',
          markerDetail = None, markerTone = (if toolCompleted then ToneSuccess else ToneActive),
          markerVariant = (if toolCompleted then VariantBorder else VariantDefault), shimmer = Some (\<not> toolCompleted),
          toolCall = Some True, toolArguments = args, filePath = extractFilePath toolName args\<rparr>)"

definition mapEvent :: "(string \<Rightarrow> string) \<Rightarrow> managed_event \<Rightarrow> bool \<Rightarrow> transcript_item option" where
  "mapEvent upper e toolCompleted =
     (let i = (''event-'', sequence e);
          shown = (\<lambda>k. Some (Event \<lparr>eventKind = k, eventId = i, eventAt = createdAt e, eventSequence = sequence e\<rparr>));
          toolName = stringOf (payloadOf e ''toolName'');
          message = stringValue (payloadOf e ''message'');
          t = eventType e
      in if t = ''supervisor.follow_up_accepted'' \<or> t = ''supervisor.steer_accepted'' then
           map_option (\<lambda>content. User i content (createdAt e) (sequence e)) message
         else if containsString ''failed'' t \<or> containsString ''rejected'' t then
           shown (ErrorEvent (coalesce message (humanize upper t))
             (if truthy toolName then Some (the toolName @ '' failed'') else None))
         else case lifecycleEvent t of
           Some (label, tn) \<Rightarrow> shown (Marker (plainMarker label None tn VariantDefault))
         | None \<Rightarrow>
             if t = ''message_update'' \<or> t = ''tool_execution_update'' then None
             else if t = ''tool_execution_start'' then shown (Marker (toolMarker e toolName toolCompleted))
             else if t = ''tool_execution_end'' then
               (if payloadOf e ''isError'' \<noteq> Some (JBool True) then None
                else shown (Marker (plainMarker (coalesce toolName ''Tool'' @ '' failed'') None ToneNeutral VariantBorder)))
             else if t = ''supervisor.prompt_accepted'' then
               shown (Marker (plainMarker ''Prompt accepted'' None ToneSuccess VariantDefault))
             else if t = ''supervisor.run_completed'' then None
             else shown (Marker (plainMarker (humanize upper t) toolName ToneNeutral VariantDefault)))"

text \<open>The text a message update adds to the answer.\<close>

definition textDelta :: "managed_event \<Rightarrow> string option" where
  "textDelta e =
     (let assistantEvent = asRecord (payloadOf e ''assistantMessageEvent'') in
      if eventType e = ''message_update'' \<and> map_of assistantEvent ''type'' = Some (JStr ''text_delta'')
      then stringOf (map_of assistantEvent ''delta'') else None)"

definition addItem :: "(string \<Rightarrow> string) \<Rightarrow> int list \<Rightarrow> managed_event \<Rightarrow> transcript_item list \<Rightarrow> transcript_item list" where
  "addItem upper completed e items =
     (case textDelta e of
        Some delta \<Rightarrow>
          if items \<noteq> [] \<and> is_Assistant (last items) then
            butlast items @ [Assistant (itemId (last items)) (itemContent (last items) @ delta) (itemAt (last items)) (sequence e)]
          else items @ [Assistant (''assistant-'', sequence e) delta (createdAt e) (sequence e)]
      | None \<Rightarrow>
          (case mapEvent upper e (sequence e \<in> set completed) of Some item \<Rightarrow> items @ [item] | None \<Rightarrow> items))"

definition eventGroup :: "transcript_event list \<Rightarrow> transcript_item list" where
  "eventGroup pending =
     (if pending = [] then []
      else [EventGroup (''event-group-'', eventSequence (hd pending)) pending (eventAt (hd pending))
              (eventSequence (last pending)) (eventSequence (hd pending)) (eventSequence (last pending))])"

fun groupFrom :: "transcript_event list \<Rightarrow> transcript_item list \<Rightarrow> transcript_item list" where
  "groupFrom pending [] = eventGroup pending"
| "groupFrom pending (item # items) =
     (case item of
        Event e \<Rightarrow> groupFrom (pending @ [e]) items
      | _ \<Rightarrow> eventGroup pending @ item # groupFrom [] items)"

definition groupConsecutiveEvents :: "transcript_item list \<Rightarrow> transcript_item list" where
  "groupConsecutiveEvents items = groupFrom [] items"

definition mapPiEvents :: "(string \<Rightarrow> string) \<Rightarrow> managed_event list \<Rightarrow> transcript_item list" where
  "mapPiEvents upper events =
     (let ordered = orderedEvents events
      in groupConsecutiveEvents (fold (addItem upper (completedTools ordered)) ordered []))"


section \<open>The incremental merge is the batch merge\<close>

abbreviation ascending :: "managed_event list \<Rightarrow> bool" where
  "ascending es \<equiv> sorted_wrt (\<lambda>a b. sequence a < sequence b) es"

text \<open>Insertion as a specification: the event replaces the one with its number.\<close>

definition insertBySequence :: "managed_event \<Rightarrow> managed_event list \<Rightarrow> managed_event list" where
  "insertBySequence e es = filter (\<lambda>x. sequence x < sequence e) es @ e # filter (\<lambda>x. sequence e < sequence x) es"

lemma ascending_insert: "ascending es \<Longrightarrow> ascending (insertBySequence e es)"
  by (auto simp: insertBySequence_def sorted_wrt_append sorted_wrt_filter)

lemma set_insert: "set (insertBySequence e es) = insert e {x \<in> set es. sequence x \<noteq> sequence e}"
  by (auto simp: insertBySequence_def)

lemma ascending_unique:
  assumes "ascending xs" "ascending ys" "set xs = set ys"
  shows "xs = ys"
proof (rule map_sorted_distinct_set_unique [where f = sequence])
  have d: "distinct zs \<and> sorted (map sequence zs) \<and> inj_on sequence (set zs)" if "ascending zs" for zs
    using that by (induction zs) (auto simp: less_imp_le inj_on_def)
  show "inj_on sequence (set xs \<union> set ys)" using d [OF assms(1)] assms(3) by simp
  show "sorted (map sequence xs)" "distinct (map sequence xs)" using d [OF assms(1)] by (auto simp: distinct_map)
  show "sorted (map sequence ys)" "distinct (map sequence ys)" using d [OF assms(2)] by (auto simp: distinct_map)
qed (rule assms(3))

subsection \<open>The batch merge\<close>

lemma jofList_snoc: "jofList (kvs @ [(k, v)]) = jset k v (jofList kvs)"
  by (simp add: jofList_def)

lemma jofList_keyed:
  fixes es :: "managed_event list"
  shows "\<forall>(k, e) \<in> set (jofList (map (\<lambda>e. (sequence e, e)) es)). k = sequence e"
proof (induction es rule: rev_induct)
  case (snoc e es)
  have "set (jset k v m) \<subseteq> insert (k, v) (set m)" for k :: int and v :: managed_event and m
    by (induction m) auto
  with snoc show ?case by (fastforce simp: jofList_snoc)
qed (simp add: jofList_def)

lemma jvalues_snoc:
  fixes es :: "managed_event list"
  shows "set (jvalues (jofList (map (\<lambda>e. (sequence e, e)) (es @ [e])))) =
     insert e {x \<in> set (jvalues (jofList (map (\<lambda>e. (sequence e, e)) es))). sequence x \<noteq> sequence e}" (is "_ = insert e {x \<in> set (jvalues ?m). _}")
proof -
  have wf: "jwf ?m" by simp
  have set: "set (jset k v m) = insert (k, v) {p \<in> set m. fst p \<noteq> k}" if "jwf m" for k :: int and v :: managed_event and m
    using that by (induction m) (auto simp: rev_image_eqI)
  have "snd ` {p \<in> set ?m. fst p \<noteq> sequence e} = {x \<in> snd ` set ?m. sequence x \<noteq> sequence e}"
    using jofList_keyed [of es] by force
  then show ?thesis by (simp add: jofList_snoc jvalues_def set [OF wf])
qed

lemma orderedEvents_ascending: "ascending (orderedEvents es)"
proof -
  let ?m = "jofList (map (\<lambda>e. (sequence e, e)) es)"
  have "map sequence (jvalues ?m) = map fst ?m"
    using jofList_keyed [of es] by (auto simp: jvalues_def)
  then have d: "distinct (map sequence (jvalues ?m))"
    using jwf_jofList [of "map (\<lambda>e. (sequence e, e)) es"] by (simp only:)
  have "distinct (map sequence (orderedEvents es))" unfolding orderedEvents_def distinct_map
    using d [unfolded distinct_map] by simp
  moreover have "sorted (map sequence (orderedEvents es))" by (simp add: orderedEvents_def)
  ultimately have "sorted_wrt (<) (map sequence (orderedEvents es))" by (simp add: strict_sorted_iff)
  then show ?thesis by (simp only: sorted_wrt_map)
qed

lemma orderedEvents_snoc: "orderedEvents (es @ [e]) = insertBySequence e (orderedEvents es)"
proof (rule ascending_unique)
  show "set (orderedEvents (es @ [e])) = set (insertBySequence e (orderedEvents es))"
    using jvalues_snoc [of es e] by (simp add: set_insert) (simp add: orderedEvents_def)
qed (simp_all add: orderedEvents_ascending ascending_insert)

lemma insert_last: "ascending es \<Longrightarrow> es = [] \<or> sequence (last es) < sequence e \<Longrightarrow> insertBySequence e es = es @ [e]"
proof -
  assume a: "ascending es" and l: "es = [] \<or> sequence (last es) < sequence e"
  have "\<forall>x \<in> set es. sequence x < sequence e"
    using a l by (cases es rule: rev_cases) (auto simp: sorted_wrt_append)
  then have "filter (\<lambda>x. sequence x < sequence e) es = es" "filter (\<lambda>x. sequence e < sequence x) es = []"
    by (auto simp: filter_empty_conv)
  then show ?thesis by (simp add: insertBySequence_def)
qed

lemma orderedEvents_of_ascending: "ascending es \<Longrightarrow> orderedEvents es = es"
proof (induction es rule: rev_induct)
  case Nil
  then show ?case by (simp add: orderedEvents_def jofList_def jvalues_def)
next
  case (snoc e es)
  then show ?case by (simp add: orderedEvents_snoc insert_last sorted_wrt_append) (cases es rule: rev_cases; simp add: insert_last sorted_wrt_append)
qed

subsection \<open>The binary search\<close>

lemma ascending_less: "ascending es \<Longrightarrow> i < j \<Longrightarrow> j < length es \<Longrightarrow> sequence (es ! i) < sequence (es ! j)"
  by (simp add: sorted_wrt_iff_nth_less)

lemma searchFrom_spec:
  assumes "ascending es" "low \<le> high" "high \<le> length es" "\<And>i. i < low \<Longrightarrow> sequence (es ! i) < s"
    "\<And>i. high \<le> i \<Longrightarrow> i < length es \<Longrightarrow> s \<le> sequence (es ! i)"
  shows "searchFrom es s low high \<le> length es \<and> (\<forall>i < searchFrom es s low high. sequence (es ! i) < s)
    \<and> (\<forall>i. searchFrom es s low high \<le> i \<longrightarrow> i < length es \<longrightarrow> s \<le> sequence (es ! i))"
  using assms
proof (induction es s low high rule: searchFrom.induct)
  case (1 es s low high)
  show ?case
  proof (cases "low < high")
    case True
    let ?m = "(low + high) div 2"
    have m: "low \<le> ?m" "?m < high" "?m < length es" using True 1(5) by auto
    show ?thesis
    proof (cases "sequence (es ! ?m) < s")
      case less: True
      have "sequence (es ! i) < s" if "i < ?m + 1" for i
        using that less ascending_less [OF 1(3), of i ?m] m by (cases "i = ?m") auto
      with 1(1) [OF True refl] less m 1(3-7) True show ?thesis by (simp add: searchFrom.simps [of es s low high] Let_def)
    next
      case geq: False
      have "s \<le> sequence (es ! i)" if "?m \<le> i" "i < length es" for i
        using that geq ascending_less [OF 1(3), of ?m i] by (cases "i = ?m") auto
      with 1(2) [OF True refl] geq m 1(3-7) True show ?thesis by (simp add: searchFrom.simps [of es s low high] Let_def)
    qed
  next
    case False
    then have "searchFrom es s low high = low" by (subst searchFrom.simps) simp
    then show ?thesis using 1(4-7) False by simp
  qed
qed

lemma binarySearch_split:
  fixes s :: int and es :: "managed_event list"
  assumes "ascending es"
  defines "i \<equiv> binarySearchSequence es s"
  shows "i \<le> length es" "take i es = filter (\<lambda>x. sequence x < s) es" "drop i es = filter (\<lambda>x. \<not> sequence x < s) es"
proof -
  have spec: "i \<le> length es" "\<forall>j < i. sequence (es ! j) < s" "\<forall>j. i \<le> j \<longrightarrow> j < length es \<longrightarrow> s \<le> sequence (es ! j)"
    using searchFrom_spec [OF assms(1), of 0 "length es" s] by (auto simp: i_def binarySearchSequence_def)
  show "i \<le> length es" by (rule spec(1))
  have "\<forall>x \<in> set (take i es). sequence x < s" using spec(1, 2) by (auto simp: in_set_conv_nth)
  moreover have "\<forall>x \<in> set (drop i es). \<not> sequence x < s"
    using spec(1, 3) by (auto simp: in_set_conv_nth not_less)
  ultimately have t: "filter (\<lambda>x. sequence x < s) (take i es) = take i es" "filter (\<lambda>x. sequence x < s) (drop i es) = []"
    "filter (\<lambda>x. \<not> sequence x < s) (take i es) = []" "filter (\<lambda>x. \<not> sequence x < s) (drop i es) = drop i es"
    by (auto simp: filter_empty_conv)
  have "filter P es = filter P (take i es) @ filter P (drop i es)" for P
    by (metis append_take_drop_id filter_append)
  then show "take i es = filter (\<lambda>x. sequence x < s) es" "drop i es = filter (\<lambda>x. \<not> sequence x < s) es"
    using t by simp_all
qed


subsection \<open>The window\<close>

lemma lastN_drop: "lastN n xs = drop (length xs - n) xs"
  by (simp add: lastN_def)

lemma length_lastN [simp]: "length (lastN n xs) = min n (length xs)"
  by (simp add: lastN_drop)

lemma lastN_short: "length xs \<le> n \<Longrightarrow> lastN n xs = xs"
  by (simp add: lastN_def)

lemma lastN_append: "n \<le> length ys \<Longrightarrow> lastN n (xs @ ys) = lastN n ys"
  by (simp add: lastN_drop)

lemma mergeEvent_insert:
  assumes "ascending es" "length es \<le> limit"
  shows "mergeEvent limit e es = lastN limit (insertBySequence e es)"
proof (cases "es = [] \<or> sequence (last es) < sequence e")
  case True
  with insert_last [OF assms(1) True] show ?thesis by (simp add: mergeEvent_def)
next
  case False
  let ?i = "binarySearchSequence es (sequence e)"
  note i = binarySearch_split [OF assms(1), of "sequence e"]
  have geq: "filter (\<lambda>x. \<not> sequence x < sequence e) es = drop ?i es" using i(3) by simp
  show ?thesis
  proof (cases "?i < length es \<and> sequence (es ! ?i) = sequence e")
    case True
    then have d: "drop ?i es = es ! ?i # drop (Suc ?i) es" by (simp add: Cons_nth_drop_Suc)
    have "filter (\<lambda>x. sequence e < sequence x) es = filter (\<lambda>x. sequence e < sequence x) (drop ?i es)"
      unfolding i(3) by (simp add: filter_filter) (rule filter_cong; auto)
    also have "\<dots> = drop (Suc ?i) es"
    proof -
      have "\<forall>x \<in> set (drop (Suc ?i) es). sequence (es ! ?i) < sequence x"
      proof
        fix x assume "x \<in> set (drop (Suc ?i) es)"
        then obtain k where "k < length (drop (Suc ?i) es)" "x = drop (Suc ?i) es ! k" by (metis in_set_conv_nth)
        then have "Suc ?i + k < length es" "x = es ! (Suc ?i + k)" by simp_all
        then show "sequence (es ! ?i) < sequence x" using ascending_less [OF assms(1), of ?i "Suc ?i + k"] by simp
      qed
      then show ?thesis using True unfolding d by (auto simp: filter_id_conv)
    qed
    finally have "insertBySequence e es = es[?i := e]"
      using True i(2) by (simp add: insertBySequence_def upd_conv_take_nth_drop)
    moreover have "lastN limit es = es" by (rule lastN_short [OF assms(2)])
    moreover have "es ! ?i = e \<Longrightarrow> es[?i := e] = es" by (metis list_update_id)
    ultimately show ?thesis using False True by (auto simp: mergeEvent_def Let_def)
  next
    case no: False
    have "filter (\<lambda>x. \<not> sequence x < sequence e) es = filter (\<lambda>x. sequence e < sequence x) es"
    proof (rule filter_cong [OF refl])
      fix x assume x: "x \<in> set es"
      have "sequence x \<noteq> sequence e"
      proof
        assume eq: "sequence x = sequence e"
        then have "x \<in> set (drop ?i es)" using x unfolding i(3) by simp
        then obtain k where "k < length (drop ?i es)" "x = drop ?i es ! k" by (metis in_set_conv_nth)
        then have k: "?i + k < length es" "x = es ! (?i + k)" by simp_all
        moreover have "\<not> sequence (es ! ?i) < sequence e"
        proof -
          have "es ! ?i \<in> set (drop ?i es)"
            using k(1) by (metis Cons_nth_drop_Suc add_lessD1 list.set_intros(1))
          then show ?thesis unfolding i(3) by simp
        qed
        ultimately show False using no eq ascending_less [OF assms(1), of ?i "?i + k"] by (cases k) auto
      qed
      then show "(\<not> sequence x < sequence e) = (sequence e < sequence x)" by auto
    qed
    then have "insertBySequence e es = take ?i es @ [e] @ drop ?i es" using i(2, 3) by (simp add: insertBySequence_def)
    with False no show ?thesis by (auto simp: mergeEvent_def Let_def)
  qed
qed

lemma length_insert: "ascending es \<Longrightarrow> length es \<le> length (insertBySequence e es)"
proof (induction es)
  case (Cons x es)
  then have ih: "length es \<le> length (insertBySequence e es)" by simp
  show ?case
  proof (cases "sequence x = sequence e")
    case True
    then have "filter (\<lambda>y. sequence e < sequence y) es = es" using Cons.prems by (auto simp: filter_id_conv)
    then show ?thesis using True by (simp add: insertBySequence_def)
  next
    case False
    then show ?thesis using ih by (auto simp: insertBySequence_def)
  qed
qed (simp add: insertBySequence_def)

text \<open>Trimming before an insertion makes no difference after it.\<close>

lemma lastN_insert:
  assumes "ascending es"
  shows "lastN n (insertBySequence e (lastN n es)) = lastN n (insertBySequence e es)"
proof (cases "length es \<le> n")
  case True
  then show ?thesis by (simp add: lastN_short)
next
  case False
  define ps ls where "ps = take (length es - n) es" and "ls = drop (length es - n) es"
  have es: "es = ps @ ls" "length ls = n" "lastN n es = ls" using False by (simp_all add: ps_def ls_def lastN_drop)
  let ?lo = "filter (\<lambda>x. sequence x < sequence e)" and ?hi = "filter (\<lambda>x. sequence e < sequence x)"
  have order: "\<forall>p \<in> set ps. \<forall>l \<in> set ls. sequence p < sequence l"
    using assms unfolding es(1) sorted_wrt_append by blast
  show ?thesis
  proof (cases "\<forall>p \<in> set ps. sequence p < sequence e")
    case True
    then have "insertBySequence e es = ps @ insertBySequence e ls"
      unfolding insertBySequence_def es(1) by (auto simp: filter_id_conv filter_empty_conv)
    moreover have "n \<le> length (insertBySequence e ls)"
      using length_insert [of ls e] assms es(2) unfolding es(1) sorted_wrt_append by blast
    ultimately show ?thesis by (simp add: es(3) lastN_append)
  next
    case out: False
    then obtain p where p: "p \<in> set ps" "sequence e \<le> sequence p" by (auto simp: not_less)
    have above: "\<forall>l \<in> set ls. sequence e < sequence l" using p order by fastforce
    then have ls: "?hi ls = ls" "?lo ls = []" by (auto simp: filter_id_conv filter_empty_conv)
    have "insertBySequence e es = (?lo ps @ e # ?hi ps) @ ls" "insertBySequence e ls = [e] @ ls"
      using ls unfolding insertBySequence_def es(1) by simp_all
    then show ?thesis by (simp add: es(2, 3) lastN_append del: append.simps append_Cons)
  qed
qed

lemma merge_fold:
  assumes "ascending current" "length current \<le> limit"
  shows "fold (mergeEvent limit) incoming current = lastN limit (orderedEvents (current @ incoming))"
proof (induction incoming rule: rev_induct)
  case Nil
  then show ?case using assms by (simp add: orderedEvents_of_ascending lastN_short)
next
  case (snoc e incoming)
  let ?o = "orderedEvents (current @ incoming)"
  have asc: "ascending (lastN limit ?o)"
    unfolding lastN_drop by (rule sorted_wrt_drop [OF orderedEvents_ascending])
  have "fold (mergeEvent limit) (incoming @ [e]) current = mergeEvent limit e (lastN limit ?o)"
    using snoc.IH by simp
  also have "\<dots> = lastN limit (insertBySequence e (lastN limit ?o))"
    by (rule mergeEvent_insert [OF asc]) simp
  also have "\<dots> = lastN limit (insertBySequence e ?o)"
    by (rule lastN_insert [OF orderedEvents_ascending])
  finally show ?case using orderedEvents_snoc [of "current @ incoming" e] by simp
qed

text \<open>
  C19: live delivery and a reload agree. Merging events one by one into a window in order, by binary search and with
  trimming at every step, gives the newest \<open>limit\<close> events of the batch merge by sequence number; without a limit in
  the way it is exactly what loading the same events as a page gives. Any order and repetition of the
  incoming events is allowed.
\<close>

theorem merge_is_batch:
  assumes "ascending current" "length current \<le> limit"
  shows "mergeTranscriptEvents current incoming limit = lastN limit (orderedEvents (current @ incoming))
    \<and> (length (orderedEvents (current @ incoming)) \<le> limit \<longrightarrow>
        mergeTranscriptEvents current incoming limit = prependTranscriptEvents current incoming limit)"
proof -
  have m: "mergeTranscriptEvents current incoming limit = lastN limit (orderedEvents (current @ incoming))"
    using merge_fold [OF assms, of incoming] orderedEvents_of_ascending [OF assms(1)] assms(2)
    by (simp add: mergeTranscriptEvents_def lastN_short)
  moreover have "orderedEvents current = current" by (rule orderedEvents_of_ascending [OF assms(1)])
  ultimately show ?thesis
    by (auto simp: prependTranscriptEvents_def lastN_short)
qed


definition lateEvent :: managed_event where
  "lateEvent = \<lparr>agentId = ''a'', runId = None, sequence = 2, eventType = ''turn_start'', payload = JNull, createdAt = ''''\<rparr>"

theorem merge_is_batch_witness:
  "mergeTranscriptEvents [lateEvent\<lparr>sequence := 1\<rparr>, lateEvent\<lparr>sequence := 3\<rparr>] [lateEvent] 2
     = lastN 2 (orderedEvents [lateEvent\<lparr>sequence := 1\<rparr>, lateEvent\<lparr>sequence := 3\<rparr>, lateEvent])"
proof -
  let ?c = "[lateEvent\<lparr>sequence := 1\<rparr>, lateEvent\<lparr>sequence := 3\<rparr>]"
  have "ascending ?c" "length ?c \<le> 2" by simp_all
  from merge_is_batch [OF this, of "[lateEvent]", THEN conjunct1] show ?thesis by (simp only: append.simps)
qed

section \<open>Nothing is lost on the way to the screen\<close>

text \<open>The text of the answers, and everything else that is shown, in order.\<close>

fun itemText :: "transcript_item \<Rightarrow> string" where
  "itemText (Assistant _ c _ _) = c"
| "itemText _ = []"

fun itemOthers :: "transcript_item \<Rightarrow> transcript_item list" where
  "itemOthers (Assistant _ _ _ _) = []"
| "itemOthers (EventGroup _ es _ _ _ _) = map Event es"
| "itemOthers item = [item]"

definition answerText :: "transcript_item list \<Rightarrow> string" where
  "answerText items = concat (map itemText items)"

definition otherItems :: "transcript_item list \<Rightarrow> transcript_item list" where
  "otherItems items = concat (map itemOthers items)"

lemma content_simps [simp]:
  "answerText [] = []" "answerText (item # items) = itemText item @ answerText items" "answerText (xs @ ys) = answerText xs @ answerText ys"
  "otherItems [] = []" "otherItems (item # items) = itemOthers item @ otherItems items" "otherItems (xs @ ys) = otherItems xs @ otherItems ys"
  by (simp_all add: answerText_def otherItems_def)

lemma eventGroup_content [simp]: "answerText (eventGroup es) = []" "otherItems (eventGroup es) = map Event es"
  by (simp_all add: eventGroup_def)

lemma groupFrom_content:
  "answerText (groupFrom pending items) = answerText items \<and>
   otherItems (groupFrom pending items) = map Event pending @ otherItems items"
proof (induction items arbitrary: pending)
  case (Cons item items)
  then show ?case by (cases item) simp_all
qed simp

text \<open>One event of the stream.\<close>

definition otherOf :: "(string \<Rightarrow> string) \<Rightarrow> int list \<Rightarrow> managed_event \<Rightarrow> transcript_item option" where
  "otherOf upper completed e = (if textDelta e = None then mapEvent upper e (sequence e \<in> set completed) else None)"

lemma mapEvent_shape: "mapEvent upper e c = Some item \<Longrightarrow> itemText item = [] \<and> itemOthers item = [item]"
  by (auto simp: mapEvent_def Let_def split: if_splits option.splits)

lemma addItem_content:
  "answerText (addItem upper completed e items) = answerText items @ coalesce (textDelta e) []"
  "otherItems (addItem upper completed e items) = otherItems items @ somes [otherOf upper completed e]"
proof -
  have last: "itemText (last items) = itemContent (last items) \<and> itemOthers (last items) = []" if "is_Assistant (last items)"
    using that by (cases "last items") simp_all
  have split: "answerText items = answerText (butlast items) @ itemText (last items)"
    "otherItems items = otherItems (butlast items) @ itemOthers (last items)" if "items \<noteq> []"
  proof -
    have "items = butlast items @ [last items]" using that by simp
    then show "answerText items = answerText (butlast items) @ itemText (last items)"
      "otherItems items = otherItems (butlast items) @ itemOthers (last items)"
      by (metis append_Nil2 content_simps)+
  qed
  show "answerText (addItem upper completed e items) = answerText items @ coalesce (textDelta e) []"
    by (auto simp: addItem_def split last otherOf_def dest: mapEvent_shape split: option.split)
  show "otherItems (addItem upper completed e items) = otherItems items @ somes [otherOf upper completed e]"
    by (auto simp: addItem_def split last otherOf_def dest: mapEvent_shape split: option.split)
qed

lemma fold_addItem_content:
  "answerText (fold (addItem upper completed) es items) = answerText items @ concat (somes (map textDelta es))"
  "otherItems (fold (addItem upper completed) es items) = otherItems items @ somes (map (otherOf upper completed) es)"
  by (induction es arbitrary: items) (auto simp: addItem_content split: option.split)

text \<open>
  C20: the transcript loses nothing. The answers shown add up to exactly the text deltas of the events in the order of
  their numbers, and the other items shown, groups opened, are exactly what each remaining event maps to, in
  that order; each number counts once.
\<close>

theorem transcript_conserves:
  "answerText (mapPiEvents upper events) = concat (somes (map textDelta (orderedEvents events)))
   \<and> otherItems (mapPiEvents upper events) =
     somes (map (otherOf upper (completedTools (orderedEvents events))) (orderedEvents events))"
  by (simp add: mapPiEvents_def Let_def groupConsecutiveEvents_def groupFrom_content fold_addItem_content)

end
