(* ===== verification/RetainedScene.thy ===== *)
theory RetainedScene
  imports Prelude
begin

text \<open>
  The retained scene of the WebGL renderer: instance batches (\<open>batches.ts\<close>), the compact CPU scene and its upload plans
  (\<open>retained-scene.ts\<close>), and the upload to the GPU buffers (\<open>submitPrimitive\<close>, \<open>uploadFull\<close>, \<open>uploadRange\<close> and
  \<open>trimGpuBuffer\<close> of \<open>webgl2-renderer.ts\<close>), all under \<open>packages/ghostty-react/src/renderers/webgl2/\<close>. Floats are
  opaque rationals; array lengths and buffer capacities are counted in floats, four bytes each. \<open>None\<close> is a
  \<open>RangeError\<close>. The lemmas show that the GPU buffers hold the rows of the scene after any run.
\<close>

section \<open>Instance batches\<close>

definition WEBGL_RECT_FLOATS :: nat where "WEBGL_RECT_FLOATS = 8"
definition WEBGL_GLYPH_FLOATS :: nat where "WEBGL_GLYPH_FLOATS = 13"

text \<open>\<open>set\<close> of a typed array and \<open>bufferSubData\<close>.\<close>

definition overwrite :: "nat \<Rightarrow> 'a list \<Rightarrow> 'a list \<Rightarrow> 'a list" where
  "overwrite off xs vs = take off vs @ xs @ drop (off + length xs) vs"

text \<open>The two batch classes differ in the floats of an instance, \<open>k\<close>.\<close>

record float_batch =
  batchValues :: "rat list"
  batchCount :: nat
  maximumInstances :: nat

definition createBatch :: "nat \<Rightarrow> nat \<Rightarrow> float_batch" where
  "createBatch k maximum =
     \<lparr>batchValues = replicate (k * min 64 maximum) 0, batchCount = 0, maximumInstances = maximum\<rparr>"

definition batchCapacity :: "nat \<Rightarrow> nat \<Rightarrow> nat" where
  "batchCapacity required maximum = min (growCapacity (min 64 maximum) (min required maximum)) maximum"

definition batchData :: "nat \<Rightarrow> float_batch \<Rightarrow> rat list" where
  "batchData k b = take (batchCount b * k) (batchValues b)"

definition batchTargetLength :: "nat \<Rightarrow> float_batch \<Rightarrow> nat" where
  "batchTargetLength k b = batchCapacity (batchCount b * 2) (maximumInstances b) * k"

definition clearBatch :: "float_batch \<Rightarrow> float_batch" where
  "clearBatch b = b\<lparr>batchCount := 0\<rparr>"

definition resized :: "nat \<Rightarrow> rat list \<Rightarrow> rat list" where
  "resized n xs = overwrite 0 xs (replicate n 0)"

definition reserve :: "nat \<Rightarrow> nat \<Rightarrow> float_batch \<Rightarrow> float_batch option" where
  "reserve k additional b =
     (let requiredInstances = batchCount b + additional in
      if maximumInstances b < requiredInstances then None
      else if requiredInstances * k \<le> length (batchValues b) then Some b
      else Some (b\<lparr>batchValues := resized (batchCapacity requiredInstances (maximumInstances b) * k) (batchData k b)\<rparr>))"

text \<open>\<open>append\<close> and \<open>push\<close> return \<open>false\<close> without room: the batch is unchanged.\<close>

definition appendData :: "nat \<Rightarrow> nat \<Rightarrow> rat list \<Rightarrow> float_batch \<Rightarrow> bool \<times> float_batch" where
  "appendData k n xs b =
     (case reserve k n b of
        None \<Rightarrow> (False, b)
      | Some b' \<Rightarrow> (True, b'\<lparr>batchValues := overwrite (batchCount b' * k) xs (batchValues b'),
                             batchCount := batchCount b' + n\<rparr>))"

definition appendBatch :: "nat \<Rightarrow> float_batch \<Rightarrow> float_batch \<Rightarrow> bool \<times> float_batch" where
  "appendBatch k other b = appendData k (batchCount other) (batchData k other) b"

definition pushRect :: "rat \<Rightarrow> rat \<Rightarrow> rat \<Rightarrow> rat \<Rightarrow> rat \<Rightarrow> rat \<Rightarrow> rat \<Rightarrow> rat \<Rightarrow> float_batch \<Rightarrow> bool \<times> float_batch" where
  "pushRect x y w h r g b a batch = appendData WEBGL_RECT_FLOATS 1 [x, y, w, h, r, g, b, a] batch"

definition pushGlyph :: "rat \<Rightarrow> rat \<Rightarrow> rat \<Rightarrow> rat \<Rightarrow> rat \<Rightarrow> rat \<Rightarrow> rat \<Rightarrow> rat \<Rightarrow> rat \<Rightarrow> rat \<Rightarrow> rat \<Rightarrow> rat \<Rightarrow> rat \<Rightarrow> float_batch \<Rightarrow> bool \<times> float_batch" where
  "pushGlyph x y w h u0 v0 u1 v1 r g b a colorGlyph batch =
     appendData WEBGL_GLYPH_FLOATS 1 [x, y, w, h, u0, v0, u1, v1, r, g, b, a, colorGlyph] batch"

text \<open>The channels of a packed colour.\<close>

definition channel :: "nat \<Rightarrow> nat \<Rightarrow> rat" where
  "channel shift packed = of_nat (packed div 2 ^ shift mod 256) / 255"

definition pushRectPacked :: "rat \<Rightarrow> rat \<Rightarrow> rat \<Rightarrow> rat \<Rightarrow> nat \<Rightarrow> rat \<Rightarrow> float_batch \<Rightarrow> bool \<times> float_batch" where
  "pushRectPacked x y w h color a batch = pushRect x y w h (channel 16 color) (channel 8 color) (channel 0 color) a batch"

definition pushGlyphPacked :: "rat \<Rightarrow> rat \<Rightarrow> rat \<Rightarrow> rat \<Rightarrow> rat \<Rightarrow> rat \<Rightarrow> rat \<Rightarrow> rat \<Rightarrow> nat \<Rightarrow> rat \<Rightarrow> rat \<Rightarrow> float_batch \<Rightarrow> bool \<times> float_batch" where
  "pushGlyphPacked x y w h u0 v0 u1 v1 color a colorGlyph batch =
     pushGlyph x y w h u0 v0 u1 v1 (channel 16 color) (channel 8 color) (channel 0 color) a colorGlyph batch"

text \<open>The bytes reclaimed and the batch.\<close>

definition trimBatch :: "nat \<Rightarrow> float_batch \<Rightarrow> nat \<times> float_batch" where
  "trimBatch k b =
     (let target = batchTargetLength k b in
      if length (batchValues b) \<le> target then (0, b)
      else (4 * (length (batchValues b) - target), b\<lparr>batchValues := resized target (batchData k b)\<rparr>))"

record retained_row =
  backgrounds :: float_batch
  decorations :: float_batch
  glyphs :: float_batch

record row_change =
  changedRow :: nat
  changedBatches :: retained_row

section \<open>One primitive of the scene\<close>

datatype primitive_plan = PlanNone | PlanPartial "(nat \<times> rat list) list" | PlanFull "rat list"

record primitive_scene =
  sceneValues :: "rat list"
  sceneRanges :: "(nat \<times> nat) list"
  sceneCount :: nat

definition emptyScene :: primitive_scene where
  "emptyScene = \<lparr>sceneValues = [], sceneRanges = [], sceneCount = 0\<rparr>"

definition safeNat :: "nat \<Rightarrow> bool" where
  "safeNat n \<longleftrightarrow> int n \<le> maxSafeInteger"

definition checkedLength :: "nat \<Rightarrow> nat \<Rightarrow> nat option" where
  "checkedLength cnt k =
     (if \<not> safeNat cnt then None else if \<not> safeNat (cnt * k) then None else Some (cnt * k))"

definition sceneData :: "nat \<Rightarrow> primitive_scene \<Rightarrow> rat list" where
  "sceneData k s = take (sceneCount s * k) (sceneValues s)"

definition clearScene :: "primitive_scene \<Rightarrow> primitive_scene" where
  "clearScene s = s\<lparr>sceneRanges := [], sceneCount := 0\<rparr>"

text \<open>The ranges of the rows and the total count, or a range error.\<close>

fun layoutRanges :: "nat \<Rightarrow> nat \<Rightarrow> float_batch list \<Rightarrow> ((nat \<times> nat) list \<times> nat) option" where
  "layoutRanges k cnt [] = Some ([], cnt)"
| "layoutRanges k cnt (b # bs) =
     (if checkedLength (batchCount b) k = None \<or> \<not> safeNat (cnt + batchCount b) then None
      else case layoutRanges k (cnt + batchCount b) bs of
        None \<Rightarrow> None
      | Some (ranges, tot) \<Rightarrow> Some ((cnt, batchCount b) # ranges, tot))"

text \<open>Copying the rows; the flag is false when a batch does not have the length of its count.\<close>

fun copyRows :: "nat \<Rightarrow> (nat \<times> nat) list \<Rightarrow> float_batch list \<Rightarrow> rat list \<Rightarrow> bool \<times> rat list" where
  "copyRows k ((off, cnt) # ranges) (b # bs) vs =
     (if cnt = 0 then copyRows k ranges bs vs
      else if length (batchData k b) \<noteq> batchCount b * k then (False, vs)
      else copyRows k ranges bs (overwrite (off * k) (batchData k b) vs))"
| "copyRows k _ _ vs = (True, vs)"

definition replaceAllPrimitive :: "nat \<Rightarrow> float_batch list \<Rightarrow> primitive_scene \<Rightarrow> primitive_plan option \<times> primitive_scene" where
  "replaceAllPrimitive k rows s =
     (case layoutRanges k 0 rows of
        None \<Rightarrow> (None, s)
      | Some (ranges, cnt) \<Rightarrow>
          (case checkedLength cnt k of
             None \<Rightarrow> (None, s)
           | Some required \<Rightarrow>
               (let values = (if length (sceneValues s) < required
                              then replicate (growCapacity (max (64 * k) (length (sceneValues s))) required) 0
                              else sceneValues s);
                    (ok, values') = copyRows k ranges rows values
                in if \<not> ok then (None, s\<lparr>sceneValues := values'\<rparr>)
                   else (Some (PlanFull (take required values')),
                         \<lparr>sceneValues = values', sceneRanges = ranges, sceneCount = cnt\<rparr>))))"

definition sceneTargetLength :: "nat \<Rightarrow> primitive_scene \<Rightarrow> nat option" where
  "sceneTargetLength k s = map_option (growCapacity (64 * k)) (checkedLength (sceneCount s * 2) k)"

definition trimScene :: "nat \<Rightarrow> primitive_scene \<Rightarrow> nat option \<times> primitive_scene" where
  "trimScene k s =
     (case sceneTargetLength k s of
        None \<Rightarrow> (None, s)
      | Some target \<Rightarrow>
          if length (sceneValues s) \<le> target then (Some 0, s)
          else (Some (4 * (length (sceneValues s) - target)), s\<lparr>sceneValues := resized target (sceneData k s)\<rparr>))"

text \<open>The rows in order, the first change of each row; ranges touched, or \<open>None\<close> with the values written so far.\<close>

fun writeChanges :: "nat \<Rightarrow> (nat \<times> nat) list \<Rightarrow> nat option \<Rightarrow> (nat \<times> float_batch) list \<Rightarrow> rat list \<Rightarrow> (nat \<times> nat) list option \<times> rat list" where
  "writeChanges k ranges previous [] vs = (Some [], vs)"
| "writeChanges k ranges previous ((row, b) # cs) vs =
     (if previous = Some row then writeChanges k ranges previous cs vs
      else let (off, cnt) = ranges ! row in
        if length (batchData k b) \<noteq> cnt * k then (None, vs)
        else if cnt * k = 0 then writeChanges k ranges (Some row) cs vs
        else (case writeChanges k ranges (Some row) cs (overwrite (off * k) (batchData k b) vs) of
                (None, vs') \<Rightarrow> (None, vs')
              | (Some touched, vs') \<Rightarrow> (Some ((off, cnt) # touched), vs')))"

definition addRange :: "nat \<times> nat \<Rightarrow> (nat \<times> nat) list \<Rightarrow> (nat \<times> nat) list" where
  "addRange r merged =
     (if merged \<noteq> [] \<and> fst (last merged) + snd (last merged) = fst r
      then butlast merged @ [(fst (last merged), snd (last merged) + snd r)]
      else merged @ [r])"

definition updateRowsPrimitive ::
  "nat \<Rightarrow> (nat \<times> float_batch) list \<Rightarrow> float_batch list \<Rightarrow> primitive_scene \<Rightarrow> primitive_plan option \<times> primitive_scene" where
  "updateRowsPrimitive k changes rows s =
     (if changes = [] then (Some PlanNone, s)
      else if list_ex (\<lambda>(row, b). length (sceneRanges s) \<le> row \<or> snd (sceneRanges s ! row) \<noteq> batchCount b) changes
      then replaceAllPrimitive k rows s
      else case writeChanges k (sceneRanges s) None (sort_key fst changes) (sceneValues s) of
        (None, vs) \<Rightarrow> (None, s\<lparr>sceneValues := vs\<rparr>)
      | (Some touched, vs) \<Rightarrow>
          (if touched = [] then Some PlanNone
           else Some (PlanPartial (map (\<lambda>(off, cnt). (off * k, take (cnt * k) (drop (off * k) vs))) (fold addRange touched []))),
           s\<lparr>sceneValues := vs\<rparr>))"

section \<open>The GPU buffers\<close>

record gpu_buffer =
  gpuCapacity :: nat
  gpuContents :: "rat list"

definition emptyBuffer :: gpu_buffer where
  "emptyBuffer = \<lparr>gpuCapacity = 0, gpuContents = []\<rparr>"

text \<open>\<open>bufferData\<close> with a size gives a zeroed store; 1024 bytes are 256 floats.\<close>

definition uploadFull :: "rat list \<Rightarrow> gpu_buffer \<Rightarrow> gpu_buffer" where
  "uploadFull xs g =
     (let g' = (if gpuCapacity g < length xs
                then let c = growCapacity 256 (length xs) in \<lparr>gpuCapacity = c, gpuContents = replicate c 0\<rparr> else g)
      in if xs = [] then g' else g'\<lparr>gpuContents := overwrite 0 xs (gpuContents g')\<rparr>)"

definition uploadRange :: "nat \<Rightarrow> rat list \<Rightarrow> gpu_buffer \<Rightarrow> gpu_buffer option" where
  "uploadRange off xs g =
     (if gpuCapacity g < off + length xs then None
      else if xs = [] then Some g
      else Some (g\<lparr>gpuContents := overwrite off xs (gpuContents g)\<rparr>))"

fun uploadRanges :: "(nat \<times> rat list) list \<Rightarrow> gpu_buffer \<Rightarrow> gpu_buffer option" where
  "uploadRanges [] g = Some g"
| "uploadRanges ((off, xs) # rs) g = (case uploadRange off xs g of None \<Rightarrow> None | Some g' \<Rightarrow> uploadRanges rs g')"

fun submitPrimitive :: "primitive_plan \<Rightarrow> gpu_buffer \<Rightarrow> gpu_buffer option" where
  "submitPrimitive PlanNone g = Some g"
| "submitPrimitive (PlanFull xs) g = Some (uploadFull xs g)"
| "submitPrimitive (PlanPartial rs) g = uploadRanges rs g"

definition targetBufferCapacity :: "rat list \<Rightarrow> nat" where
  "targetBufferCapacity xs = (if xs = [] then 0 else growCapacity 256 (length xs * 2))"

definition trimGpuBuffer :: "rat list \<Rightarrow> gpu_buffer \<Rightarrow> gpu_buffer" where
  "trimGpuBuffer xs g =
     (let target = targetBufferCapacity xs in
      if gpuCapacity g \<le> target then g
      else \<lparr>gpuCapacity = target, gpuContents = (if xs = [] then replicate target 0 else overwrite 0 xs (replicate target 0))\<rparr>)"


section \<open>The scene\<close>

record webgl_scene =
  sceneRows :: "retained_row list"
  backgroundScene :: primitive_scene
  decorationScene :: primitive_scene
  glyphScene :: primitive_scene

record scene_plan =
  backgroundPlan :: primitive_plan
  decorationPlan :: primitive_plan
  glyphPlan :: primitive_plan

definition newScene :: webgl_scene where
  "newScene = \<lparr>sceneRows = [], backgroundScene = emptyScene, decorationScene = emptyScene, glyphScene = emptyScene\<rparr>"

text \<open>The three primitives in turn; a range error leaves the later ones as they were.\<close>

definition eachPrimitive ::
  "(nat \<Rightarrow> (retained_row \<Rightarrow> float_batch) \<Rightarrow> primitive_scene \<Rightarrow> primitive_plan option \<times> primitive_scene) \<Rightarrow> webgl_scene \<Rightarrow> scene_plan option \<times> webgl_scene" where
  "eachPrimitive f s =
     (case f WEBGL_RECT_FLOATS backgrounds (backgroundScene s) of
        (None, bs) \<Rightarrow> (None, s\<lparr>backgroundScene := bs\<rparr>)
      | (Some bp, bs) \<Rightarrow>
          (case f WEBGL_RECT_FLOATS decorations (decorationScene s) of
             (None, ds) \<Rightarrow> (None, s\<lparr>backgroundScene := bs, decorationScene := ds\<rparr>)
           | (Some dp, ds) \<Rightarrow>
               (case f WEBGL_GLYPH_FLOATS glyphs (glyphScene s) of
                  (None, gs) \<Rightarrow> (None, s\<lparr>backgroundScene := bs, decorationScene := ds, glyphScene := gs\<rparr>)
                | (Some gp, gs) \<Rightarrow>
                    (Some \<lparr>backgroundPlan = bp, decorationPlan = dp, glyphPlan = gp\<rparr>,
                     s\<lparr>backgroundScene := bs, decorationScene := ds, glyphScene := gs\<rparr>))))"

definition replaceAllRows :: "retained_row list \<Rightarrow> webgl_scene \<Rightarrow> scene_plan option \<times> webgl_scene" where
  "replaceAllRows rows s =
     eachPrimitive (\<lambda>k sel. replaceAllPrimitive k (map sel rows)) (s\<lparr>sceneRows := rows\<rparr>)"

fun putRows :: "row_change list \<Rightarrow> retained_row list \<Rightarrow> bool \<times> retained_row list" where
  "putRows [] rows = (True, rows)"
| "putRows (c # cs) rows =
     (if length rows \<le> changedRow c then (False, rows) else putRows cs (rows[changedRow c := changedBatches c]))"

definition updateSceneRows :: "row_change list \<Rightarrow> webgl_scene \<Rightarrow> scene_plan option \<times> webgl_scene" where
  "updateSceneRows changes s =
     (if changes = [] then (Some \<lparr>backgroundPlan = PlanNone, decorationPlan = PlanNone, glyphPlan = PlanNone\<rparr>, s)
      else let (ok, rows) = putRows changes (sceneRows s); s' = s\<lparr>sceneRows := rows\<rparr> in
        if \<not> ok then (None, s')
        else eachPrimitive (\<lambda>k sel. updateRowsPrimitive k (map (\<lambda>c. (changedRow c, sel (changedBatches c))) changes) (map sel rows)) s')"

definition trimRow :: "retained_row \<Rightarrow> retained_row" where
  "trimRow r = \<lparr>backgrounds = snd (trimBatch WEBGL_RECT_FLOATS (backgrounds r)),
     decorations = snd (trimBatch WEBGL_RECT_FLOATS (decorations r)), glyphs = snd (trimBatch WEBGL_GLYPH_FLOATS (glyphs r))\<rparr>"

definition rowReclaimed :: "retained_row \<Rightarrow> nat" where
  "rowReclaimed r = fst (trimBatch WEBGL_RECT_FLOATS (backgrounds r))
     + fst (trimBatch WEBGL_RECT_FLOATS (decorations r)) + fst (trimBatch WEBGL_GLYPH_FLOATS (glyphs r))"

text \<open>The bytes reclaimed; a range error of a primitive ends the trimming there.\<close>

definition trimCapacity :: "webgl_scene \<Rightarrow> nat option \<times> webgl_scene" where
  "trimCapacity s =
     (case trimScene WEBGL_RECT_FLOATS (backgroundScene s) of
        (None, bs) \<Rightarrow> (None, s\<lparr>backgroundScene := bs\<rparr>)
      | (Some nb, bs) \<Rightarrow>
          (case trimScene WEBGL_RECT_FLOATS (decorationScene s) of
             (None, ds) \<Rightarrow> (None, s\<lparr>backgroundScene := bs, decorationScene := ds\<rparr>)
           | (Some nd, ds) \<Rightarrow>
               (case trimScene WEBGL_GLYPH_FLOATS (glyphScene s) of
                  (None, gs) \<Rightarrow> (None, s\<lparr>backgroundScene := bs, decorationScene := ds, glyphScene := gs\<rparr>)
                | (Some ng, gs) \<Rightarrow>
                    (Some (nb + nd + ng + sum_list (map rowReclaimed (sceneRows s))),
                     \<lparr>sceneRows = map trimRow (sceneRows s), backgroundScene = bs, decorationScene = ds, glyphScene = gs\<rparr>))))"

definition clearWebGlScene :: "webgl_scene \<Rightarrow> webgl_scene" where
  "clearWebGlScene s = \<lparr>sceneRows = [], backgroundScene = clearScene (backgroundScene s),
     decorationScene = clearScene (decorationScene s), glyphScene = clearScene (glyphScene s)\<rparr>"

definition usedBytes :: "webgl_scene \<Rightarrow> nat" where
  "usedBytes s = 4 * (length (sceneData WEBGL_RECT_FLOATS (backgroundScene s))
     + length (sceneData WEBGL_RECT_FLOATS (decorationScene s)) + length (sceneData WEBGL_GLYPH_FLOATS (glyphScene s)))"

definition batchAllocated :: "float_batch \<Rightarrow> nat" where
  "batchAllocated b = 4 * length (batchValues b)"

definition allocatedBytes :: "webgl_scene \<Rightarrow> nat" where
  "allocatedBytes s = 4 * (length (sceneValues (backgroundScene s)) + length (sceneValues (decorationScene s))
     + length (sceneValues (glyphScene s)))
     + sum_list (map (\<lambda>r. batchAllocated (backgrounds r) + batchAllocated (decorations r) + batchAllocated (glyphs r)) (sceneRows s))"

record gpu_scene =
  backgroundBuffer :: gpu_buffer
  decorationBuffer :: gpu_buffer
  glyphBuffer :: gpu_buffer

definition submitScene :: "scene_plan \<Rightarrow> gpu_scene \<Rightarrow> gpu_scene option" where
  "submitScene p g =
     (case submitPrimitive (backgroundPlan p) (backgroundBuffer g) of None \<Rightarrow> None
      | Some b \<Rightarrow>
          (case submitPrimitive (decorationPlan p) (decorationBuffer g) of None \<Rightarrow> None
           | Some d \<Rightarrow>
               (case submitPrimitive (glyphPlan p) (glyphBuffer g) of None \<Rightarrow> None
                | Some gl \<Rightarrow> Some \<lparr>backgroundBuffer = b, decorationBuffer = d, glyphBuffer = gl\<rparr>)))"

definition trimGpu :: "webgl_scene \<Rightarrow> gpu_scene \<Rightarrow> gpu_scene" where
  "trimGpu s g =
     \<lparr>backgroundBuffer = trimGpuBuffer (sceneData WEBGL_RECT_FLOATS (backgroundScene s)) (backgroundBuffer g),
      decorationBuffer = trimGpuBuffer (sceneData WEBGL_RECT_FLOATS (decorationScene s)) (decorationBuffer g),
      glyphBuffer = trimGpuBuffer (sceneData WEBGL_GLYPH_FLOATS (glyphScene s)) (glyphBuffer g)\<rparr>"

section \<open>Batches are well formed\<close>

definition batch_ok :: "nat \<Rightarrow> float_batch \<Rightarrow> bool" where
  "batch_ok k b \<longleftrightarrow> batchCount b * k \<le> length (batchValues b) \<and> batchCount b \<le> maximumInstances b"

lemma length_overwrite [simp]: "off + length xs \<le> length vs \<Longrightarrow> length (overwrite off xs vs) = length vs"
  by (simp add: overwrite_def)

lemma overwrite_nil: "overwrite n [] vs = vs"
  by (simp add: overwrite_def)

lemma overwrite_nth:
  "off + length xs \<le> length vs \<Longrightarrow> j < length vs \<Longrightarrow>
   overwrite off xs vs ! j = (if off \<le> j \<and> j < off + length xs then xs ! (j - off) else vs ! j)"
  by (auto simp: overwrite_def nth_append)

lemma take_overwrite: "off + length xs \<le> length vs \<Longrightarrow> take (off + length xs) (overwrite off xs vs) = take off vs @ xs"
  by (simp add: overwrite_def)

lemma take_overwrite_0 [simp]: "length xs \<le> length vs \<Longrightarrow> take (length xs) (overwrite 0 xs vs) = xs"
  using take_overwrite [of 0 xs vs] by simp

lemma batchData_length: "batch_ok k b \<Longrightarrow> length (batchData k b) = batchCount b * k"
  by (simp add: batch_ok_def batchData_def)

lemma createBatch_ok: "batch_ok k (createBatch k n)"
  by (simp add: batch_ok_def createBatch_def)

lemma batchCapacity_fits: "r \<le> n \<Longrightarrow> r \<le> batchCapacity r n"
  by (cases "n = 0") (auto simp: batchCapacity_def min_def intro: growCapacity_ge [THEN le_trans [rotated]] growCapacity_ge)

lemma length_resized: "length xs \<le> n \<Longrightarrow> length (resized n xs) = n"
  by (simp add: resized_def)

lemma take_resized: "length xs \<le> n \<Longrightarrow> take (length xs) (resized n xs) = xs"
  by (simp add: resized_def)

lemma reserve_spec:
  assumes "batch_ok k b" "reserve k n b = Some b'"
  shows "batchData k b' = batchData k b \<and> batchCount b' = batchCount b \<and> maximumInstances b' = maximumInstances b
    \<and> (batchCount b + n) * k \<le> length (batchValues b') \<and> batchCount b + n \<le> maximumInstances b"
proof -
  let ?r = "batchCount b + n" and ?c = "batchCapacity (batchCount b + n) (maximumInstances b)"
  have m: "?r \<le> maximumInstances b" using assms(2) by (auto simp: reserve_def Let_def split: if_splits)
  then have c: "?r * k \<le> ?c * k" by (intro mult_right_mono batchCapacity_fits) simp_all
  have l: "length (batchData k b) = batchCount b * k" using assms(1) by (rule batchData_length)
  have "batchCount b * k \<le> ?r * k" by (rule mult_right_mono) simp_all
  then have fit: "length (batchData k b) \<le> ?c * k" unfolding l using c by (rule le_trans)
  show ?thesis
    using assms m c fit l take_resized [OF fit] length_resized [OF fit]
    by (auto simp: reserve_def Let_def batchData_def split: if_splits)
qed

lemma appendData_spec:
  assumes "batch_ok k b" "length xs = n * k"
  shows "case appendData k n xs b of
    (True, b') \<Rightarrow> batch_ok k b' \<and> batchCount b' = batchCount b + n \<and> batchData k b' = batchData k b @ xs
  | (False, b') \<Rightarrow> b' = b \<and> maximumInstances b < batchCount b + n"
proof (cases "reserve k n b")
  case None
  then show ?thesis by (auto simp: appendData_def reserve_def Let_def split: if_splits)
next
  case (Some b')
  note r = reserve_spec [OF assms(1) Some]
  have cnt: "batchCount b' = batchCount b" and dat: "take (batchCount b * k) (batchValues b') = batchData k b"
    using r by (metis batchData_def)+
  have f: "batchCount b * k + length xs \<le> length (batchValues b')" using r assms(2) by (simp add: add_mult_distrib)
  have "take ((batchCount b + n) * k) (overwrite (batchCount b * k) xs (batchValues b')) = batchData k b @ xs"
    using take_overwrite [OF f] assms(2) unfolding dat by (simp add: add_mult_distrib)
  then show ?thesis using Some r f cnt by (simp add: appendData_def batch_ok_def batchData_def add_mult_distrib)
qed

lemma trimBatch_spec:
  assumes "batch_ok k b"
  shows "batchData k (snd (trimBatch k b)) = batchData k b \<and> batchCount (snd (trimBatch k b)) = batchCount b \<and> batch_ok k (snd (trimBatch k b))"
proof -
  let ?m = "maximumInstances b"
  have "batchCount b \<le> min (batchCount b * 2) ?m" using assms by (simp add: batch_ok_def)
  also have "\<dots> \<le> batchCapacity (batchCount b * 2) ?m"
    by (cases "?m = 0") (auto simp: batchCapacity_def intro: growCapacity_ge)
  finally have "batchCount b * k \<le> batchTargetLength k b" unfolding batchTargetLength_def by (rule mult_right_mono) simp
  then have fit: "length (batchData k b) \<le> batchTargetLength k b" by (simp add: batchData_length [OF assms])
  show ?thesis
    using assms fit take_resized [OF fit] length_resized [OF fit] batchData_length [OF assms]
    by (auto simp: trimBatch_def Let_def batchData_def batch_ok_def)
qed


section \<open>One primitive\<close>

definition rowsData :: "nat \<Rightarrow> float_batch list \<Rightarrow> rat list" where
  "rowsData k rows = concat (map (batchData k) rows)"

fun offsets :: "nat \<Rightarrow> float_batch list \<Rightarrow> (nat \<times> nat) list" where
  "offsets n [] = []"
| "offsets n (b # bs) = (n, batchCount b) # offsets (n + batchCount b) bs"

abbreviation instances :: "float_batch list \<Rightarrow> nat" where
  "instances rows \<equiv> sum_list (map batchCount rows)"

lemma length_offsets [simp]: "length (offsets n rows) = length rows"
  by (induction rows arbitrary: n) auto

lemma offsets_nth: "i < length rows \<Longrightarrow> offsets n rows ! i = (n + instances (take i rows), batchCount (rows ! i))"
  by (induction rows arbitrary: n i) (auto simp: nth_Cons split: nat.split)

lemma layoutRanges_spec: "layoutRanges k n rows = Some (rs, t) \<Longrightarrow> rs = offsets n rows \<and> t = n + instances rows"
  by (induction rows arbitrary: n rs t) (fastforce split: if_splits option.splits)+

lemma rowsData_length: "\<forall>b \<in> set rows. batch_ok k b \<Longrightarrow> length (rowsData k rows) = instances rows * k"
  by (induction rows) (auto simp: rowsData_def batchData_length add_mult_distrib)

lemma copyRows_spec:
  assumes "\<forall>b \<in> set rows. batch_ok k b" "(n + instances rows) * k \<le> length vs"
  shows "copyRows k (offsets n rows) rows vs = (True, overwrite (n * k) (rowsData k rows) vs)"
  using assms
proof (induction rows arbitrary: n vs)
  case (Cons b rows)
  have len: "length (batchData k b) = batchCount b * k" using Cons.prems(1) by (simp add: batchData_length)
  show ?case
  proof (cases "batchCount b = 0")
    case True
    then show ?thesis using Cons len by (simp add: rowsData_def)
  next
    case False
    let ?vs = "overwrite (n * k) (batchData k b) vs"
    have f: "n * k + length (batchData k b) \<le> length vs" "n * k + batchCount b * k + instances rows * k \<le> length vs"
      using Cons.prems(2) len by (simp_all add: add_mult_distrib)
    have ih: "copyRows k (offsets (n + batchCount b) rows) rows ?vs = (True, overwrite ((n + batchCount b) * k) (rowsData k rows) ?vs)"
      using Cons.prems f by (intro Cons.IH) (simp_all add: add_mult_distrib)
    have "overwrite ((n + batchCount b) * k) (rowsData k rows) ?vs = overwrite (n * k) (rowsData k (b # rows)) vs"
    proof (rule nth_equalityI)
      have r: "length (rowsData k rows) = instances rows * k" "length (rowsData k (b # rows)) = (batchCount b + instances rows) * k"
        using Cons.prems(1) rowsData_length [of rows k] rowsData_length [of "b # rows" k] by auto
      show "length (overwrite ((n + batchCount b) * k) (rowsData k rows) ?vs) = length (overwrite (n * k) (rowsData k (b # rows)) vs)"
        using f r by (simp add: add_mult_distrib)
      fix j assume "j < length (overwrite ((n + batchCount b) * k) (rowsData k rows) ?vs)"
      then have j: "j < length vs" using f r by (simp add: add_mult_distrib)
      have c: "rowsData k (b # rows) = batchData k b @ rowsData k rows" by (simp add: rowsData_def)
      show "overwrite ((n + batchCount b) * k) (rowsData k rows) ?vs ! j = overwrite (n * k) (rowsData k (b # rows)) vs ! j"
        using f j r(1) len by (auto simp: overwrite_nth c nth_append add_mult_distrib)
    qed
    then show ?thesis using False len ih by simp
  qed
qed (simp add: rowsData_def overwrite_def)

text \<open>The scene holds the rows, and the buffer holds the scene.\<close>

definition scene_ok :: "nat \<Rightarrow> float_batch list \<Rightarrow> primitive_scene \<Rightarrow> bool" where
  "scene_ok k rows s \<longleftrightarrow> (\<forall>b \<in> set rows. batch_ok k b) \<and> sceneRanges s = offsets 0 rows \<and> sceneCount s = instances rows
     \<and> sceneCount s * k \<le> length (sceneValues s) \<and> sceneData k s = rowsData k rows"

definition buffer_ok :: "rat list \<Rightarrow> gpu_buffer \<Rightarrow> bool" where
  "buffer_ok xs g \<longleftrightarrow> length (gpuContents g) = gpuCapacity g \<and> length xs \<le> gpuCapacity g \<and> take (length xs) (gpuContents g) = xs"

lemma uploadFull_ok: "length (gpuContents g) = gpuCapacity g \<Longrightarrow> buffer_ok xs (uploadFull xs g)"
  using growCapacity_ge [of 256 "length xs"] by (auto simp: uploadFull_def buffer_ok_def Let_def not_less)

lemma trimGpuBuffer_ok:
  assumes "buffer_ok xs g"
  shows "buffer_ok xs (trimGpuBuffer xs g)"
proof -
  have "length xs * 2 \<le> growCapacity 256 (length xs * 2)" by (rule growCapacity_ge) simp
  then show ?thesis using assms by (auto simp: trimGpuBuffer_def buffer_ok_def targetBufferCapacity_def Let_def)
qed

lemma replacePrimitive_ok:
  assumes "\<forall>b \<in> set rows. batch_ok k b" "replaceAllPrimitive k rows s = (Some p, s')" "length (gpuContents g) = gpuCapacity g" "0 < k"
  shows "scene_ok k rows s' \<and> (\<exists>g'. submitPrimitive p g = Some g' \<and> buffer_ok (rowsData k rows) g')"
proof -
  obtain rs t where l: "layoutRanges k 0 rows = Some (rs, t)"
    using assms(2) by (auto simp: replaceAllPrimitive_def split: option.splits)
  then have rs: "rs = offsets 0 rows" "t = instances rows" using layoutRanges_spec by fastforce+
  obtain required where q: "checkedLength t k = Some required"
    using assms(2) l by (auto simp: replaceAllPrimitive_def split: option.splits)
  then have req: "required = t * k" by (auto simp: checkedLength_def split: if_splits)
  define filled where "filled = (if length (sceneValues s) < required
    then replicate (growCapacity (max (64 * k) (length (sceneValues s))) required) 0 else sceneValues s)"
  have "required \<le> growCapacity (max (64 * k) (length (sceneValues s))) required"
    using assms(4) by (intro growCapacity_ge) (auto simp: max_def)
  then have fit: "required \<le> length filled" by (auto simp: filled_def)
  have len: "length (rowsData k rows) = t * k" using rowsData_length [OF assms(1)] rs(2) by simp
  have "copyRows k rs rows filled = (True, overwrite 0 (rowsData k rows) filled)"
    using copyRows_spec [OF assms(1), of 0 filled] fit req rs by simp
  then have s: "s' = \<lparr>sceneValues = overwrite 0 (rowsData k rows) filled, sceneRanges = rs, sceneCount = t\<rparr>"
    "p = PlanFull (take required (overwrite 0 (rowsData k rows) filled))"
    using assms(2) l q unfolding filled_def by (auto simp: replaceAllPrimitive_def Let_def)
  have d: "take required (overwrite 0 (rowsData k rows) filled) = rowsData k rows"
    using take_overwrite_0 [of "rowsData k rows" filled] fit len req by simp
  show ?thesis
    using assms(1) s d rs fit len req uploadFull_ok [OF assms(3)]
    by (simp add: scene_ok_def sceneData_def)
qed


subsection \<open>Partial updates\<close>

text \<open>The positions that ranges cover.\<close>

definition covers :: "nat \<Rightarrow> (nat \<times> nat) list \<Rightarrow> nat \<Rightarrow> bool" where
  "covers k rs j \<longleftrightarrow> (\<exists>(off, c) \<in> set rs. off * k \<le> j \<and> j < (off + c) * k)"

lemma covers_simps [simp]:
  "\<not> covers k [] j" "covers k ((off, c) # rs) j \<longleftrightarrow> (off * k \<le> j \<and> j < (off + c) * k) \<or> covers k rs j"
  "covers k (rs @ rs') j \<longleftrightarrow> covers k rs j \<or> covers k rs' j"
  by (auto simp: covers_def)

definition inside :: "nat \<Rightarrow> (nat \<times> nat) list \<Rightarrow> bool" where
  "inside n rs \<longleftrightarrow> (\<forall>(off, c) \<in> set rs. off + c \<le> n)"

lemma inside_simps [simp]:
  "inside n []" "inside n ((off, c) # rs) \<longleftrightarrow> off + c \<le> n \<and> inside n rs" "inside n (rs @ rs') \<longleftrightarrow> inside n rs \<and> inside n rs'"
  by (auto simp: inside_def)

lemma addRange_spec:
  "(covers k (addRange (off, c) acc) j \<longleftrightarrow> covers k acc j \<or> (off * k \<le> j \<and> j < (off + c) * k)) \<and>
   (inside n (addRange (off, c) acc) \<longleftrightarrow> inside n acc \<and> off + c \<le> n)"
proof (cases "acc \<noteq> [] \<and> fst (last acc) + snd (last acc) = off")
  case True
  then obtain l c0 where l: "last acc = (l, c0)" "l + c0 = off" by (cases "last acc") auto
  then have acc: "acc = butlast acc @ [(l, c0)]" using True by (metis append_butlast_last_id)
  have "covers k acc j \<longleftrightarrow> covers k (butlast acc) j \<or> (l * k \<le> j \<and> j < (l + c0) * k)"
    by (subst acc) simp
  moreover have "inside n acc \<longleftrightarrow> inside n (butlast acc) \<and> l + c0 \<le> n" by (subst acc) simp
  moreover have "l * k \<le> j \<and> j < (l + (c0 + c)) * k \<longleftrightarrow> (l * k \<le> j \<and> j < (l + c0) * k) \<or> (off * k \<le> j \<and> j < (off + c) * k)"
    unfolding l(2) [symmetric] by (auto simp: add_mult_distrib)
  moreover have "covers k (addRange (off, c) acc) j \<longleftrightarrow> covers k (butlast acc) j \<or> (l * k \<le> j \<and> j < (l + (c0 + c)) * k)"
    "inside n (addRange (off, c) acc) \<longleftrightarrow> inside n (butlast acc) \<and> l + (c0 + c) \<le> n"
    using True l by (simp_all add: addRange_def)
  moreover have "l + (c0 + c) \<le> n \<longleftrightarrow> l + c0 \<le> n \<and> off + c \<le> n" using l(2) by auto
  ultimately show ?thesis by blast
next
  case False
  then show ?thesis by (auto simp: addRange_def)
qed

lemma fold_addRange_spec:
  "(covers k (fold addRange rs acc) j \<longleftrightarrow> covers k acc j \<or> covers k rs j) \<and>
   (inside n (fold addRange rs acc) \<longleftrightarrow> inside n acc \<and> inside n rs)"
proof (induction rs arbitrary: acc)
  case (Cons r rs)
  obtain off c where "r = (off, c)" by (cases r)
  then show ?case using Cons addRange_spec [of k off c acc j n] by auto
qed simp

lemma segment_nth: "off \<le> j \<Longrightarrow> j < off + n \<Longrightarrow> j < length vs \<Longrightarrow> take n (drop off vs) ! (j - off) = vs ! j"
  by simp

lemma uploadRanges_spec:
  assumes "inside n rs" "n * k \<le> length vs" "n * k \<le> gpuCapacity g" "length (gpuContents g) = gpuCapacity g"
  shows "\<exists>g'. uploadRanges (map (\<lambda>(off, c). (off * k, take (c * k) (drop (off * k) vs))) rs) g = Some g' \<and>
    gpuCapacity g' = gpuCapacity g \<and> length (gpuContents g') = gpuCapacity g \<and>
    (\<forall>j < n * k. gpuContents g' ! j = (if covers k rs j then vs ! j else gpuContents g ! j))"
  using assms
proof (induction rs arbitrary: g)
  case (Cons r rs)
  obtain off c where r: "r = (off, c)" by (cases r)
  let ?xs = "take (c * k) (drop (off * k) vs)"
  have b: "(off + c) * k \<le> n * k" using Cons.prems(1) r by (intro mult_right_mono) simp_all
  then have len: "length ?xs = c * k" using Cons.prems(2) by (simp add: add_mult_distrib)
  then have fits: "\<not> gpuCapacity g < off * k + length ?xs" using b Cons.prems(3) by (simp add: add_mult_distrib)
  define h where "h = (if ?xs = [] then g else g\<lparr>gpuContents := overwrite (off * k) ?xs (gpuContents g)\<rparr>)"
  have u: "uploadRange (off * k) ?xs g = Some h" using fits by (simp add: uploadRange_def h_def)
  have h: "gpuCapacity h = gpuCapacity g" "length (gpuContents h) = gpuCapacity h"
    using Cons.prems(4) fits len by (simp_all add: h_def)
  have at: "gpuContents h ! j = (if off * k \<le> j \<and> j < (off + c) * k then vs ! j else gpuContents g ! j)" if "j < n * k" for j
  proof (cases "?xs = []")
    case True
    then have "c * k = 0" using len by (metis list.size(3))
    then show ?thesis using True by (auto simp: h_def add_mult_distrib)
  next
    case False
    then show ?thesis using that fits len Cons.prems b
      by (simp add: h_def overwrite_nth add_mult_distrib segment_nth)
  qed
  from Cons.IH [of h] Cons.prems r h obtain g' where
    g': "uploadRanges (map (\<lambda>(off, c). (off * k, take (c * k) (drop (off * k) vs))) rs) h = Some g'"
    "gpuCapacity g' = gpuCapacity g" "length (gpuContents g') = gpuCapacity g"
    "\<forall>j < n * k. gpuContents g' ! j = (if covers k rs j then vs ! j else gpuContents h ! j)"
    by auto
  then show ?case using u r at by auto
qed auto

text \<open>Values that are the rows' data followed by spare room.\<close>

lemma rowsData_update:
  assumes "\<forall>b \<in> set rows. batch_ok k b" "i < length rows" "batch_ok k b" "batchCount b = batchCount (rows ! i)"
  shows "overwrite (instances (take i rows) * k) (batchData k b) (rowsData k rows @ rest) = rowsData k (rows[i := b]) @ rest"
proof -
  have split: "rows = take i rows @ rows ! i # drop (Suc i) rows" using assms(2) by (rule id_take_nth_drop)
  have l: "length (rowsData k (take i rows)) = instances (take i rows) * k"
    using assms(1) by (intro rowsData_length) (auto dest: in_set_takeD)
  have d: "length (batchData k b) = length (batchData k (rows ! i))"
    using assms by (simp add: batchData_length)
  have "rowsData k rows = rowsData k (take i rows) @ batchData k (rows ! i) @ rowsData k (drop (Suc i) rows)"
    by (subst split) (simp add: rowsData_def)
  moreover have "rowsData k (rows[i := b]) = rowsData k (take i rows) @ batchData k b @ rowsData k (drop (Suc i) rows)"
    using assms(2) by (simp add: upd_conv_take_nth_drop rowsData_def)
  ultimately show ?thesis using l d by (simp add: overwrite_def)
qed

fun putAll :: "(nat \<times> 'b) list \<Rightarrow> 'b list \<Rightarrow> 'b list" where
  "putAll [] rows = rows"
| "putAll ((i, b) # cs) rows = putAll cs (rows[i := b])"

lemma length_putAll [simp]: "length (putAll cs rows) = length rows"
  by (induction cs rows rule: putAll.induct) auto

lemma putAll_nth:
  assumes "\<forall>(i, b) \<in> set cs. b = f i" "j < length rows"
  shows "putAll cs rows ! j = (if j \<in> fst ` set cs then f j else rows ! j)"
  using assms by (induction cs rows rule: putAll.induct) (auto simp: nth_list_update)

lemma offsets_update: "batchCount b = batchCount (rows ! i) \<Longrightarrow> offsets n (rows[i := b]) = offsets n rows"
  by (induction rows arbitrary: n i) (auto split: nat.split)

lemma offsets_cong: "map batchCount xs = map batchCount ys \<Longrightarrow> offsets n xs = offsets n ys"
proof (induction xs arbitrary: n ys)
  case (Cons x xs)
  then obtain y ys' where ys: "ys = y # ys'" "batchCount x = batchCount y" "map batchCount xs = map batchCount ys'"
    by (cases ys) auto
  then show ?case using Cons.IH [OF ys(3)] by simp
qed simp

lemma instances_update: "i < length rows \<Longrightarrow> batchCount b = batchCount (rows ! i) \<Longrightarrow> instances (rows[i := b]) = instances rows"
  by (induction rows arbitrary: i) (auto split: nat.split simp: nth_Cons)

text \<open>
  Writing changes that agree on their rows: \<open>done\<close> is the row written last, which already holds its batch.
\<close>

lemma writeChanges_spec:
  assumes "\<forall>b \<in> set rows. batch_ok k b" "\<forall>(i, b) \<in> set cs. i < length rows \<and> batch_ok k b \<and> batchCount b = batchCount (rows ! i) \<and> b = f i"
    "\<forall>i. prev = Some i \<longrightarrow> i < length rows \<and> rows ! i = f i"
    "writeChanges k (offsets 0 rows) prev cs (rowsData k rows @ rest) = (touched, vs)"
  shows "\<exists>ts. touched = Some ts \<and> vs = rowsData k (putAll cs rows) @ rest \<and> inside (instances rows) ts
    \<and> (\<forall>j < instances rows * k. \<not> covers k ts j \<longrightarrow> vs ! j = (rowsData k rows @ rest) ! j)"
  using assms
proof (induction cs arbitrary: rows prev touched vs)
  case (Cons c cs)
  obtain i b where c: "c = (i, b)" by (cases c)
  have i: "i < length rows" "batch_ok k b" "batchCount b = batchCount (rows ! i)" "b = f i" using Cons.prems(2) c by auto
  show ?case
  proof (cases "prev = Some i")
    case True
    then have "rows[i := b] = rows" using Cons.prems(3) i by (metis list_update_id)
    moreover have "writeChanges k (offsets 0 rows) prev cs (rowsData k rows @ rest) = (touched, vs)"
      using Cons.prems(4) True c by simp
    ultimately show ?thesis using Cons.IH [of rows prev touched vs] Cons.prems c by simp
  next
    case False
    let ?off = "instances (take i rows)" and ?n = "batchCount b" and ?rows = "rows[i := b]"
    have o: "offsets 0 rows ! i = (?off, ?n)" using i by (simp add: offsets_nth)
    have len: "length (batchData k b) = ?n * k" using i by (simp add: batchData_length)
    have up: "overwrite (?off * k) (batchData k b) (rowsData k rows @ rest) = rowsData k ?rows @ rest"
      by (rule rowsData_update [OF Cons.prems(1) i(1-3)])
    have keep: "offsets 0 ?rows = offsets 0 rows" "instances ?rows = instances rows" using i by (simp_all add: offsets_update instances_update)
    have pre: "\<forall>b \<in> set ?rows. batch_ok k b"
      "\<forall>(j, b) \<in> set cs. j < length ?rows \<and> batch_ok k b \<and> batchCount b = batchCount (?rows ! j) \<and> b = f j"
      "\<forall>j. Some i = Some j \<longrightarrow> j < length ?rows \<and> ?rows ! j = f j"
      using Cons.prems(1, 2) i c by (auto dest!: set_update_subset_insert [THEN subsetD] simp: nth_list_update)
    have room: "?off + ?n \<le> instances rows"
    proof -
      have "instances rows = instances (take i rows) + batchCount (rows ! i) + instances (drop (Suc i) rows)"
        using arg_cong [OF id_take_nth_drop [OF i(1)], of instances] by simp
      then show ?thesis using i(3) by simp
    qed
    show ?thesis
    proof (cases "?n * k = 0")
      case True
      then have "batchData k b = []" using len by (metis length_0_conv)
      then have same: "rowsData k ?rows @ rest = rowsData k rows @ rest" 
        using overwrite_nil [of "?off * k" "rowsData k rows @ rest"] up by (simp only:)
      then have "writeChanges k (offsets 0 ?rows) (Some i) cs (rowsData k ?rows @ rest) = (touched, vs)"
        using Cons.prems(4) c o len True False keep by auto
      from Cons.IH [OF pre this] same keep c show ?thesis by auto
    next
      case pos: False
      obtain t' where w: "writeChanges k (offsets 0 ?rows) (Some i) cs (rowsData k ?rows @ rest) = (t', vs)"
        and t: "touched = map_option ((#) (?off, ?n)) t'"
        using Cons.prems(4) c o len False pos keep up by (auto split: prod.splits option.splits)
      from Cons.IH [OF pre w] obtain ts where ts: "t' = Some ts" "vs = rowsData k (putAll cs ?rows) @ rest"
        "inside (instances ?rows) ts" "\<forall>j < instances ?rows * k. \<not> covers k ts j \<longrightarrow> vs ! j = (rowsData k ?rows @ rest) ! j"
        by blast
      have "(rowsData k ?rows @ rest) ! j = (rowsData k rows @ rest) ! j"
        if "j < instances rows * k" "\<not> (?off * k \<le> j \<and> j < (?off + ?n) * k)" for j
      proof -
        have l: "length (rowsData k rows @ rest) = instances rows * k + length rest"
          using rowsData_length [OF Cons.prems(1)] by simp
        have "(?off + ?n) * k \<le> instances rows * k" by (rule mult_right_mono [OF room]) simp
        then have f: "?off * k + length (batchData k b) \<le> length (rowsData k rows @ rest)" "j < length (rowsData k rows @ rest)"
          using that(1) l len by (simp_all add: add_mult_distrib)
        have "\<not> (?off * k \<le> j \<and> j < ?off * k + length (batchData k b))" using that(2) len by (simp add: add_mult_distrib)
        then show ?thesis unfolding up [symmetric] overwrite_nth [OF f] by (rule if_not_P)
      qed
      with ts t c keep room show ?thesis by auto
    qed
  qed
qed auto


text \<open>The values a partial update writes are those of the new rows, and only in the touched ranges.\<close>

lemma partial_writes:
  assumes "scene_ok k rows s" "\<forall>(i, b) \<in> set cs. i < length rows \<and> batch_ok k b \<and> b = f i"
    "\<forall>(i, b) \<in> set cs. batchCount b = batchCount (rows ! i)" "rows' = putAll cs rows"
  obtains ts vs where "writeChanges k (sceneRanges s) None (sort_key fst cs) (sceneValues s) = (Some ts, vs)"
    "inside (instances rows) ts" "length vs = length (sceneValues s)" "take (instances rows * k) vs = rowsData k rows'"
    "\<forall>j < instances rows * k. \<not> covers k ts j \<longrightarrow> vs ! j = rowsData k rows ! j"
    "scene_ok k rows' (s\<lparr>sceneValues := vs\<rparr>)" "instances rows' = instances rows"
proof -
  have ok: "\<forall>b \<in> set rows. batch_ok k b" "sceneRanges s = offsets 0 rows" "sceneCount s = instances rows"
    "sceneCount s * k \<le> length (sceneValues s)" "take (sceneCount s * k) (sceneValues s) = rowsData k rows"
    using assms(1) by (auto simp: scene_ok_def sceneData_def)
  define rest where "rest = drop (sceneCount s * k) (sceneValues s)"
  have vs: "sceneValues s = rowsData k rows @ rest" using ok(5) unfolding rest_def by (metis append_take_drop_id)
  obtain touched vs' where w: "writeChanges k (offsets 0 rows) None (sort_key fst cs) (rowsData k rows @ rest) = (touched, vs')"
    by fastforce
  have sorted: "\<forall>(i, b) \<in> set (sort_key fst cs). i < length rows \<and> batch_ok k b \<and> batchCount b = batchCount (rows ! i) \<and> b = f i"
    using assms(2, 3) by auto
  from writeChanges_spec [OF ok(1) sorted _ w] obtain ts where ts: "touched = Some ts"
    "vs' = rowsData k (putAll (sort_key fst cs) rows) @ rest" "inside (instances rows) ts"
    "\<forall>j < instances rows * k. \<not> covers k ts j \<longrightarrow> vs' ! j = (rowsData k rows @ rest) ! j"
    by auto
  have nth': "putAll cs' rows ! j = (if j \<in> fst ` set cs' then f j else rows ! j)" if "j < length rows" "set cs' = set cs" for j cs'
    by (rule putAll_nth) (use assms(2) that in auto)
  have same: "putAll (sort_key fst cs) rows = rows'"
    by (rule nth_equalityI) (use nth' [of _ cs] nth' [of _ "sort_key fst cs"] in \<open>simp_all add: assms(4)\<close>)
  have counts': "map batchCount rows' = map batchCount rows"
  proof (rule nth_equalityI)
    fix j assume "j < length (map batchCount rows')"
    then have j: "j < length rows" by (simp add: assms(4))
    have "batchCount (rows' ! j) = batchCount (rows ! j)"
      using nth' [OF j refl] assms(2, 3) by (fastforce simp: assms(4) split: if_splits)
    then show "map batchCount rows' ! j = map batchCount rows ! j" using j by (simp add: assms(4))
  qed (simp add: assms(4))
  have offs: "offsets 0 rows' = offsets 0 rows" "instances rows' = instances rows"
    using offsets_cong [OF counts'] counts' by simp_all
  have ok': "\<forall>b \<in> set rows'. batch_ok k b"
  proof
    fix b assume "b \<in> set rows'"
    then obtain j where j: "j < length rows" "b = rows' ! j" by (metis assms(4) in_set_conv_nth length_putAll)
    then show "batch_ok k b" using nth' [OF j(1) refl] ok(1) assms(2, 4) by (auto split: if_splits)
  qed
  have l: "length (rowsData k rows) = instances rows * k" "length (rowsData k rows') = instances rows * k"
    using rowsData_length [OF ok(1)] rowsData_length [OF ok'] offs by simp_all
  show thesis
  proof (rule that)
    show "writeChanges k (sceneRanges s) None (sort_key fst cs) (sceneValues s) = (Some ts, vs')" using w ts(1) vs ok(2) by simp
    show "take (instances rows * k) vs' = rowsData k rows'" using ts(2) same l by simp
    show "length vs' = length (sceneValues s)" using ts(2) same l vs by simp
    show "\<forall>j < instances rows * k. \<not> covers k ts j \<longrightarrow> vs' ! j = rowsData k rows ! j" using ts(4) l by (simp add: nth_append)
    show "scene_ok k rows' (s\<lparr>sceneValues := vs'\<rparr>)"
      using ok(3, 4) ok' l ts(2) same offs vs ok(2) by (simp add: scene_ok_def sceneData_def)
  qed (fact ts(3) offs(2))+
qed

text \<open>Uploading the merged ranges brings the buffer up to date.\<close>

lemma partial_upload:
  assumes "buffer_ok old g" "length old = n * k" "n * k \<le> length vs" "inside n ts"
    "\<forall>j < n * k. \<not> covers k ts j \<longrightarrow> vs ! j = old ! j"
  shows "\<exists>g'. uploadRanges (map (\<lambda>(off, c). (off * k, take (c * k) (drop (off * k) vs))) (fold addRange ts [])) g = Some g'
    \<and> buffer_ok (take (n * k) vs) g'"
proof -
  let ?m = "fold addRange ts []"
  have g: "length (gpuContents g) = gpuCapacity g" "n * k \<le> gpuCapacity g" "take (n * k) (gpuContents g) = old"
    using assms(1, 2) by (simp_all add: buffer_ok_def)
  have "inside n ?m" using assms(4) fold_addRange_spec [of k ts "[]" 0 n] by simp
  then obtain g' where g': "uploadRanges (map (\<lambda>(off, c). (off * k, take (c * k) (drop (off * k) vs))) ?m) g = Some g'"
    "gpuCapacity g' = gpuCapacity g" "length (gpuContents g') = gpuCapacity g"
    "\<forall>j < n * k. gpuContents g' ! j = (if covers k ?m j then vs ! j else gpuContents g ! j)"
    using uploadRanges_spec [of n ?m k vs g] g assms(3) by auto
  have "take (n * k) (gpuContents g') = take (n * k) vs"
  proof (rule nth_equalityI)
    fix j assume "j < length (take (n * k) (gpuContents g'))"
    then have j: "j < n * k" by simp
    have "gpuContents g ! j = old ! j" using g(3) j by (metis nth_take)
    moreover have "covers k ?m j \<longleftrightarrow> covers k ts j" using fold_addRange_spec [of k ts "[]" j 0] by simp
    ultimately show "take (n * k) (gpuContents g') ! j = take (n * k) vs ! j" using g'(4) assms(5) j by auto
  qed (use g' g assms(3) in simp)
  then have "buffer_ok (take (n * k) vs) g'" using g' g assms(3) by (simp add: buffer_ok_def)
  then show ?thesis using g'(1) by blast
qed

lemma putAll_ok:
  assumes "\<forall>(i, b) \<in> set cs. batch_ok k b" "\<forall>b \<in> set rows. batch_ok k b"
  shows "\<forall>b \<in> set (putAll cs rows). batch_ok k b"
  using assms by (induction cs rows rule: putAll.induct) (auto dest!: set_update_subset_insert [THEN subsetD])

definition layoutChanged :: "(nat \<times> float_batch) list \<Rightarrow> primitive_scene \<Rightarrow> bool" where
  "layoutChanged cs s \<longleftrightarrow> list_ex (\<lambda>(row, b). length (sceneRanges s) \<le> row \<or> snd (sceneRanges s ! row) \<noteq> batchCount b) cs"

lemma layout_kept:
  assumes "scene_ok k rows s" "\<forall>(i, b) \<in> set cs. i < length rows" "\<not> layoutChanged cs s"
  shows "\<forall>(i, b) \<in> set cs. batchCount b = batchCount (rows ! i)"
  using assms by (auto simp: layoutChanged_def scene_ok_def list_ex_iff offsets_nth)

lemma updateRows_ok:
  assumes "scene_ok k rows s" "buffer_ok (rowsData k rows) g" "0 < k"
    "\<forall>(i, b) \<in> set cs. i < length rows \<and> batch_ok k b \<and> b = f i" "rows' = putAll cs rows"
    "updateRowsPrimitive k cs rows' s = (Some p, s')"
  shows "scene_ok k rows' s' \<and> (\<exists>g'. submitPrimitive p g = Some g' \<and> buffer_ok (rowsData k rows') g')"
proof (cases "cs = [] \<or> layoutChanged cs s")
  case True
  have "\<forall>b \<in> set rows'. batch_ok k b" unfolding assms(5) by (rule putAll_ok) (use assms(1, 4) in \<open>auto simp: scene_ok_def\<close>)
  then show ?thesis
    using True assms replacePrimitive_ok [of rows' k s p s' g]
    by (auto simp: updateRowsPrimitive_def layoutChanged_def buffer_ok_def split: if_splits)
next
  case False
  then have counts: "\<forall>(i, b) \<in> set cs. batchCount b = batchCount (rows ! i)"
    using layout_kept [OF assms(1)] assms(4) by blast
  from partial_writes [OF assms(1, 4) counts assms(5)] obtain ts vs where
    w: "writeChanges k (sceneRanges s) None (sort_key fst cs) (sceneValues s) = (Some ts, vs)"
    and ts: "inside (instances rows) ts" "\<forall>j < instances rows * k. \<not> covers k ts j \<longrightarrow> vs ! j = rowsData k rows ! j"
    and vs: "length vs = length (sceneValues s)" "take (instances rows * k) vs = rowsData k rows'"
    and sc: "scene_ok k rows' (s\<lparr>sceneValues := vs\<rparr>)" "instances rows' = instances rows"
    by metis
  have p: "p = (if ts = [] then PlanNone else PlanPartial (map (\<lambda>(off, c). (off * k, take (c * k) (drop (off * k) vs))) (fold addRange ts [])))"
    "s' = s\<lparr>sceneValues := vs\<rparr>"
    using assms(6) False w by (auto simp: updateRowsPrimitive_def layoutChanged_def split: if_splits)
  have "length (rowsData k rows) = instances rows * k"
    using assms(1) by (intro rowsData_length) (simp add: scene_ok_def)
  moreover have "instances rows * k \<le> length vs" using sc by (auto simp: scene_ok_def)
  ultimately obtain g' where g': "uploadRanges (map (\<lambda>(off, c). (off * k, take (c * k) (drop (off * k) vs))) (fold addRange ts [])) g = Some g'"
    "buffer_ok (rowsData k rows') g'"
    using partial_upload [OF assms(2) _ _ ts] vs(2) by auto
  show ?thesis
  proof (cases "ts = []")
    case True
    then have "g' = g" using g'(1) by simp
    then show ?thesis using sc g' p True by simp
  next
    case False
    then show ?thesis using sc g' p by simp
  qed
qed

text \<open>No range error while the counts are small.\<close>

definition small_count :: "nat \<Rightarrow> bool" where
  "small_count n \<longleftrightarrow> safeNat (n * 26)"

lemma small_safe: "small_count n \<Longrightarrow> m * c \<le> n * 26 \<Longrightarrow> safeNat (m * c)"
  unfolding small_count_def safeNat_def by (metis of_nat_le_iff order_trans)

lemma layoutRanges_total:
  assumes "small_count (n + instances rows)" "k \<le> 13"
  shows "layoutRanges k n rows = Some (offsets n rows, n + instances rows)"
  using assms
proof (induction rows arbitrary: n)
  case (Cons b rows)
  have "batchCount b * k \<le> batchCount b * 26" using Cons.prems(2) by (intro mult_left_mono) simp_all
  also have "\<dots> \<le> (n + instances (b # rows)) * 26" by simp
  finally have k: "safeNat (batchCount b * k)" using small_safe [OF Cons.prems(1)] by blast
  have "safeNat (m * 1)" if "m \<le> n + instances (b # rows)" for m
    using small_safe [OF Cons.prems(1), of m 1] that by simp
  from this [of "batchCount b"] this [of "n + batchCount b"] k show ?case
    using Cons by (simp add: checkedLength_def add.assoc)
qed simp

lemma replacePrimitive_total:
  assumes "\<forall>b \<in> set rows. batch_ok k b" "small_count (instances rows)" "0 < k" "k \<le> 13"
  shows "fst (replaceAllPrimitive k rows s) \<noteq> None"
proof -
  have l: "layoutRanges k 0 rows = Some (offsets 0 rows, instances rows)" using layoutRanges_total [of 0 rows k] assms by simp
  have "instances rows * k \<le> instances rows * 26" using assms(4) by (intro mult_left_mono) simp_all
  then have q: "checkedLength (instances rows) k = Some (instances rows * k)"
    using small_safe [OF assms(2)] small_safe [OF assms(2), of "instances rows" 1] by (simp add: checkedLength_def)
  define filled where "filled = (if length (sceneValues s) < instances rows * k
    then replicate (growCapacity (max (64 * k) (length (sceneValues s))) (instances rows * k)) 0 else sceneValues s)"
  have "instances rows * k \<le> growCapacity (max (64 * k) (length (sceneValues s))) (instances rows * k)"
    using assms(3) by (intro growCapacity_ge) (auto simp: max_def)
  then have "(0 + instances rows) * k \<le> length filled" by (auto simp: filled_def)
  from copyRows_spec [OF assms(1) this] show ?thesis
    using l q by (simp add: replaceAllPrimitive_def filled_def Let_def)
qed

lemma updateRows_total:
  assumes "scene_ok k rows s" "\<forall>(i, b) \<in> set cs. i < length rows \<and> batch_ok k b \<and> b = f i" "rows' = putAll cs rows"
    "small_count (instances rows')" "0 < k" "k \<le> 13"
  shows "fst (updateRowsPrimitive k cs rows' s) \<noteq> None"
proof (cases "cs = [] \<or> layoutChanged cs s")
  case True
  have "\<forall>b \<in> set rows'. batch_ok k b" unfolding assms(3) by (rule putAll_ok) (use assms(1, 2) in \<open>auto simp: scene_ok_def\<close>)
  then show ?thesis
    using True replacePrimitive_total [OF _ assms(4-6)] by (auto simp: updateRowsPrimitive_def layoutChanged_def)
next
  case False
  then have counts: "\<forall>(i, b) \<in> set cs. batchCount b = batchCount (rows ! i)"
    using layout_kept [OF assms(1)] assms(2) by blast
  from partial_writes [OF assms(1, 2) counts assms(3)] obtain ts vs where
    "writeChanges k (sceneRanges s) None (sort_key fst cs) (sceneValues s) = (Some ts, vs)" by metis
  then show ?thesis using False by (simp add: updateRowsPrimitive_def layoutChanged_def)
qed

lemma trimScene_ok:
  assumes "scene_ok k rows s" "trimScene k s = (Some n, s')" "0 < k"
  shows "scene_ok k rows s'"
proof -
  obtain target where t: "sceneTargetLength k s = Some target"
    using assms(2) by (auto simp: trimScene_def split: option.splits)
  have "sceneCount s * 2 * k \<le> target"
    using t growCapacity_ge [of "64 * k" "sceneCount s * 2 * k"] assms(3)
    by (auto simp: sceneTargetLength_def checkedLength_def split: if_splits)
  moreover have "length (sceneData k s) = sceneCount s * k"
    using assms(1) by (auto simp: scene_ok_def sceneData_def)
  ultimately have fit: "length (sceneData k s) \<le> target" by simp
  show ?thesis
    using assms(1, 2) t take_resized [OF fit] length_resized [OF fit] \<open>length (sceneData k s) = _\<close> fit
    by (auto simp: trimScene_def scene_ok_def sceneData_def split: if_splits)
qed


section \<open>Runs of the renderer\<close>

datatype scene_op = ReplaceRows "retained_row list" | UpdateRows "row_change list" | TrimScene | TrimBuffers | ClearRows

definition submittedScene :: "scene_plan option \<times> webgl_scene \<Rightarrow> gpu_scene \<Rightarrow> (webgl_scene \<times> gpu_scene) option" where
  "submittedScene r g =
     (case r of
        (None, _) \<Rightarrow> None
      | (Some p, s) \<Rightarrow> map_option (\<lambda>g'. (s, g')) (submitScene p g))"

text \<open>\<open>None\<close>: a range error was thrown.\<close>

fun sceneStep :: "scene_op \<Rightarrow> webgl_scene \<times> gpu_scene \<Rightarrow> (webgl_scene \<times> gpu_scene) option" where
  "sceneStep (ReplaceRows rows) (s, g) = submittedScene (replaceAllRows rows s) g"
| "sceneStep (UpdateRows changes) (s, g) = submittedScene (updateSceneRows changes s) g"
| "sceneStep TrimScene (s, g) = (case trimCapacity s of (None, _) \<Rightarrow> None | (Some _, s') \<Rightarrow> Some (s', g))"
| "sceneStep TrimBuffers (s, g) = Some (s, trimGpu s g)"
| "sceneStep ClearRows (s, g) = Some (clearWebGlScene s, g)"

fun sceneRun :: "scene_op list \<Rightarrow> webgl_scene \<times> gpu_scene \<Rightarrow> (webgl_scene \<times> gpu_scene) option" where
  "sceneRun [] st = Some st"
| "sceneRun (op # ops) st = (case sceneStep op st of None \<Rightarrow> None | Some st' \<Rightarrow> sceneRun ops st')"

definition row_ok :: "retained_row \<Rightarrow> bool" where
  "row_ok r \<longleftrightarrow> batch_ok WEBGL_RECT_FLOATS (backgrounds r) \<and> batch_ok WEBGL_RECT_FLOATS (decorations r)
     \<and> batch_ok WEBGL_GLYPH_FLOATS (glyphs r)"

text \<open>Batches come from the batch classes, and two changes of one row carry the same batches.\<close>

fun op_ok :: "scene_op \<Rightarrow> bool" where
  "op_ok (ReplaceRows rows) = list_all row_ok rows"
| "op_ok (UpdateRows changes) = (list_all (row_ok \<circ> changedBatches) changes \<and>
     (\<forall>c \<in> set changes. \<forall>c' \<in> set changes. changedRow c = changedRow c' \<longrightarrow> changedBatches c = changedBatches c'))"
| "op_ok _ = True"

definition shows_rows :: "nat \<Rightarrow> float_batch list \<Rightarrow> primitive_scene \<Rightarrow> gpu_buffer \<Rightarrow> bool" where
  "shows_rows k rows s g \<longleftrightarrow> scene_ok k rows s \<and> buffer_ok (rowsData k rows) g"

definition all_shown :: "webgl_scene \<times> gpu_scene \<Rightarrow> bool" where
  "all_shown st \<longleftrightarrow> (case st of (s, g) \<Rightarrow>
     shows_rows WEBGL_RECT_FLOATS (map backgrounds (sceneRows s)) (backgroundScene s) (backgroundBuffer g) \<and>
     shows_rows WEBGL_RECT_FLOATS (map decorations (sceneRows s)) (decorationScene s) (decorationBuffer g) \<and>
     shows_rows WEBGL_GLYPH_FLOATS (map glyphs (sceneRows s)) (glyphScene s) (glyphBuffer g))"

lemma floats_pos: "0 < WEBGL_RECT_FLOATS" "0 < WEBGL_GLYPH_FLOATS"
  by (simp_all add: WEBGL_RECT_FLOATS_def WEBGL_GLYPH_FLOATS_def)

lemma eachPrimitive_Some:
  assumes "submittedScene (eachPrimitive f s) g = Some (s', g')"
  shows "sceneRows s' = sceneRows s
    \<and> (\<exists>p. f WEBGL_RECT_FLOATS backgrounds (backgroundScene s) = (Some p, backgroundScene s') \<and> submitPrimitive p (backgroundBuffer g) = Some (backgroundBuffer g'))
    \<and> (\<exists>p. f WEBGL_RECT_FLOATS decorations (decorationScene s) = (Some p, decorationScene s') \<and> submitPrimitive p (decorationBuffer g) = Some (decorationBuffer g'))
    \<and> (\<exists>p. f WEBGL_GLYPH_FLOATS glyphs (glyphScene s) = (Some p, glyphScene s') \<and> submitPrimitive p (glyphBuffer g) = Some (glyphBuffer g'))"
proof -
  obtain bp bs where b: "f WEBGL_RECT_FLOATS backgrounds (backgroundScene s) = (Some bp, bs)"
    using assms by (auto simp: eachPrimitive_def submittedScene_def split: prod.splits option.splits)
  obtain dp ds where d: "f WEBGL_RECT_FLOATS decorations (decorationScene s) = (Some dp, ds)"
    using assms b by (auto simp: eachPrimitive_def submittedScene_def split: prod.splits option.splits)
  obtain gp gs where gl: "f WEBGL_GLYPH_FLOATS glyphs (glyphScene s) = (Some gp, gs)"
    using assms b d by (auto simp: eachPrimitive_def submittedScene_def split: prod.splits option.splits)
  have s': "s' = s\<lparr>backgroundScene := bs, decorationScene := ds, glyphScene := gs\<rparr>"
    and g': "submitScene \<lparr>backgroundPlan = bp, decorationPlan = dp, glyphPlan = gp\<rparr> g = Some g'"
    using assms b d gl by (auto simp: eachPrimitive_def submittedScene_def)
  then show ?thesis using b d gl by (auto simp: submitScene_def split: option.splits)
qed

lemma primitive_replace:
  assumes "replaceAllPrimitive k rows sc = (Some p, sc')" "submitPrimitive p g = Some g'" "\<forall>b \<in> set rows. batch_ok k b"
    "shows_rows k old sc g" "0 < k"
  shows "shows_rows k rows sc' g'"
  using replacePrimitive_ok [OF assms(3, 1) _ assms(5), of g] assms(2, 4) by (simp add: shows_rows_def buffer_ok_def)

lemma replaceRows_shown:
  assumes "all_shown (s, g)" "list_all row_ok rows" "submittedScene (replaceAllRows rows s) g = Some (s', g')"
  shows "all_shown (s', g')"
proof -
  from eachPrimitive_Some [OF assms(3) [unfolded replaceAllRows_def]]
  have "sceneRows s' = rows" by simp
  moreover have ok: "\<forall>b \<in> set (map backgrounds rows). batch_ok WEBGL_RECT_FLOATS b"
    "\<forall>b \<in> set (map decorations rows). batch_ok WEBGL_RECT_FLOATS b" "\<forall>b \<in> set (map glyphs rows). batch_ok WEBGL_GLYPH_FLOATS b"
    using assms(2) by (auto simp: list_all_iff row_ok_def)
  ultimately show ?thesis
    using eachPrimitive_Some [OF assms(3) [unfolded replaceAllRows_def]] assms(1)
      primitive_replace [OF _ _ ok(1)] primitive_replace [OF _ _ ok(2)] primitive_replace [OF _ _ ok(3)] floats_pos
    by (simp add: all_shown_def) metis
qed

lemma putRows_spec:
  "putRows cs rows = (True, rows') \<Longrightarrow> rows' = putAll (map (\<lambda>c. (changedRow c, changedBatches c)) cs) rows \<and> (\<forall>c \<in> set cs. changedRow c < length rows)"
  by (induction cs rows rule: putRows.induct) (auto split: if_splits)

lemma map_putAll: "map sel (putAll cs rows) = putAll (map (\<lambda>(i, b). (i, sel b)) cs) (map sel rows)"
  by (induction cs rows rule: putAll.induct) (auto simp: map_update)

text \<open>Changes that agree on their rows are a function of the row.\<close>

lemma changes_facts:
  assumes "\<forall>c \<in> set changes. \<forall>c' \<in> set changes. changedRow c = changedRow c' \<longrightarrow> changedBatches c = changedBatches c'"
    "putRows changes rows = (True, rows')" "\<forall>c \<in> set changes. batch_ok k (sel (changedBatches c))"
  obtains f where "map sel rows' = putAll (map (\<lambda>c. (changedRow c, sel (changedBatches c))) changes) (map sel rows)"
    "\<forall>(i, b) \<in> set (map (\<lambda>c. (changedRow c, sel (changedBatches c))) changes). i < length (map sel rows) \<and> batch_ok k b \<and> b = f i"
proof
  let ?f = "\<lambda>i. sel (changedBatches (SOME c. c \<in> set changes \<and> changedRow c = i))"
  have "sel (changedBatches c) = ?f (changedRow c)" if "c \<in> set changes" for c
  proof -
    have "(SOME d. d \<in> set changes \<and> changedRow d = changedRow c) \<in> set changes
        \<and> changedRow (SOME d. d \<in> set changes \<and> changedRow d = changedRow c) = changedRow c"
      by (rule someI [of _ c]) (use that in simp)
    then show ?thesis using assms(1) that by metis
  qed
  then show "\<forall>(i, b) \<in> set (map (\<lambda>c. (changedRow c, sel (changedBatches c))) changes). i < length (map sel rows) \<and> batch_ok k b \<and> b = ?f i"
    using putRows_spec [OF assms(2)] assms(3) by auto
  show "map sel rows' = putAll (map (\<lambda>c. (changedRow c, sel (changedBatches c))) changes) (map sel rows)"
    using putRows_spec [OF assms(2)] by (simp add: map_putAll comp_def)
qed

lemma primitive_update:
  assumes "updateRowsPrimitive k (map (\<lambda>c. (changedRow c, sel (changedBatches c))) changes) (map sel rows') sc = (Some p, sc')"
    "submitPrimitive p g = Some g'" "shows_rows k (map sel rows) sc g" "0 < k" "\<forall>c \<in> set changes. batch_ok k (sel (changedBatches c))"
    "\<forall>c \<in> set changes. \<forall>c' \<in> set changes. changedRow c = changedRow c' \<longrightarrow> changedBatches c = changedBatches c'"
    "putRows changes rows = (True, rows')"
  shows "shows_rows k (map sel rows') sc' g'"
proof -
  obtain f where f: "map sel rows' = putAll (map (\<lambda>c. (changedRow c, sel (changedBatches c))) changes) (map sel rows)"
    "\<forall>(i, b) \<in> set (map (\<lambda>c. (changedRow c, sel (changedBatches c))) changes). i < length (map sel rows) \<and> batch_ok k b \<and> b = f i"
    by (rule changes_facts [OF assms(6, 7, 5)])
  show ?thesis
    using updateRows_ok [OF _ _ assms(4) f(2, 1) assms(1), of g] assms(2, 3) by (simp add: shows_rows_def)
qed

lemma updateRows_shown:
  assumes "all_shown (s, g)" "op_ok (UpdateRows changes)" "submittedScene (updateSceneRows changes s) g = Some (s', g')"
  shows "all_shown (s', g')"
proof (cases "changes = []")
  case True
  then show ?thesis using assms(1, 3) by (cases g) (auto simp: updateSceneRows_def submittedScene_def submitScene_def)
next
  case False
  obtain ok rows' where put: "putRows changes (sceneRows s) = (ok, rows')" by fastforce
  have ok: "ok" using assms(3) put False by (auto simp: updateSceneRows_def submittedScene_def Let_def split: if_splits)
  then have put': "putRows changes (sceneRows s) = (True, rows')" using put by simp
  have sub: "submittedScene (eachPrimitive (\<lambda>k sel. updateRowsPrimitive k (map (\<lambda>c. (changedRow c, sel (changedBatches c))) changes) (map sel rows'))
      (s\<lparr>sceneRows := rows'\<rparr>)) g = Some (s', g')"
    using assms(3) put' False by (simp add: updateSceneRows_def)
  have b: "\<forall>c \<in> set changes. batch_ok WEBGL_RECT_FLOATS (backgrounds (changedBatches c))"
    "\<forall>c \<in> set changes. batch_ok WEBGL_RECT_FLOATS (decorations (changedBatches c))"
    "\<forall>c \<in> set changes. batch_ok WEBGL_GLYPH_FLOATS (glyphs (changedBatches c))"
    using assms(2) unfolding op_ok.simps list_all_iff row_ok_def comp_def by blast+
  have same: "\<forall>c \<in> set changes. \<forall>c' \<in> set changes. changedRow c = changedRow c' \<longrightarrow> changedBatches c = changedBatches c'"
    using assms(2) unfolding op_ok.simps by blast
  have "sceneRows (s\<lparr>sceneRows := rows'\<rparr>) = rows'" "backgroundScene (s\<lparr>sceneRows := rows'\<rparr>) = backgroundScene s"
    "decorationScene (s\<lparr>sceneRows := rows'\<rparr>) = decorationScene s" "glyphScene (s\<lparr>sceneRows := rows'\<rparr>) = glyphScene s"
    by simp_all
  note each = eachPrimitive_Some [OF sub, unfolded this]
  have rows: "sceneRows s' = rows'" using each by blast
  have old: "shows_rows WEBGL_RECT_FLOATS (map backgrounds (sceneRows s)) (backgroundScene s) (backgroundBuffer g)"
    "shows_rows WEBGL_RECT_FLOATS (map decorations (sceneRows s)) (decorationScene s) (decorationBuffer g)"
    "shows_rows WEBGL_GLYPH_FLOATS (map glyphs (sceneRows s)) (glyphScene s) (glyphBuffer g)"
    using assms(1) by (simp_all add: all_shown_def)
  from each obtain bp dp gp where plans:
    "updateRowsPrimitive WEBGL_RECT_FLOATS (map (\<lambda>c. (changedRow c, backgrounds (changedBatches c))) changes) (map backgrounds rows') (backgroundScene s)
      = (Some bp, backgroundScene s')" "submitPrimitive bp (backgroundBuffer g) = Some (backgroundBuffer g')"
    "updateRowsPrimitive WEBGL_RECT_FLOATS (map (\<lambda>c. (changedRow c, decorations (changedBatches c))) changes) (map decorations rows') (decorationScene s)
      = (Some dp, decorationScene s')" "submitPrimitive dp (decorationBuffer g) = Some (decorationBuffer g')"
    "updateRowsPrimitive WEBGL_GLYPH_FLOATS (map (\<lambda>c. (changedRow c, glyphs (changedBatches c))) changes) (map glyphs rows') (glyphScene s)
      = (Some gp, glyphScene s')" "submitPrimitive gp (glyphBuffer g) = Some (glyphBuffer g')"
    by blast
  show ?thesis
    using primitive_update [OF plans(1, 2) old(1) floats_pos(1) b(1) same put']
      primitive_update [OF plans(3, 4) old(2) floats_pos(1) b(2) same put'] primitive_update [OF plans(5, 6) old(3) floats_pos(2) b(3) same put']
    by (simp add: all_shown_def rows)
qed


lemma trimRow_ok: "row_ok r \<Longrightarrow> row_ok (trimRow r)"
  using trimBatch_spec by (auto simp: row_ok_def trimRow_def)

lemma trimmed_shown:
  assumes "shows_rows k (map sel rows) s g" "trimScene k s = (Some n, s')" "0 < k" "\<And>r. sel (trimRow r) = snd (trimBatch k (sel r))"
  shows "shows_rows k (map sel (map trimRow rows)) s' g"
proof -
  have s': "scene_ok k (map sel rows) s'" using trimScene_ok [OF _ assms(2, 3)] assms(1) by (simp add: shows_rows_def)
  have b: "batch_ok k (sel r)" if "r \<in> set rows" for r using s' that by (simp add: scene_ok_def)
  have "map (batchData k \<circ> sel) (map trimRow rows) = map (batchData k \<circ> sel) rows"
    "map (batchCount \<circ> sel) (map trimRow rows) = map (batchCount \<circ> sel) rows"
    using b trimBatch_spec [of k] by (simp_all add: assms(4))
  then have same: "rowsData k (map sel (map trimRow rows)) = rowsData k (map sel rows)"
    "map batchCount (map sel (map trimRow rows)) = map batchCount (map sel rows)"
    unfolding rowsData_def by (simp_all only: map_map comp_assoc)
  have room: "instances (map sel rows) * k \<le> length (sceneValues s')" using s' by (metis scene_ok_def)
  have "\<forall>b \<in> set (map sel (map trimRow rows)). batch_ok k b" using b trimBatch_spec by (auto simp: assms(4))
  then show ?thesis using s' assms(1) offsets_cong [OF same(2), of 0] room unfolding shows_rows_def scene_ok_def same
    by (simp only: simp_thms)
qed

lemma trimScene_shown:
  assumes "all_shown (s, g)" "trimCapacity s = (Some n, s')"
  shows "all_shown (s', g)"
proof -
  obtain nb bs nd ds ng gs where t: "trimScene WEBGL_RECT_FLOATS (backgroundScene s) = (Some nb, bs)"
    "trimScene WEBGL_RECT_FLOATS (decorationScene s) = (Some nd, ds)" "trimScene WEBGL_GLYPH_FLOATS (glyphScene s) = (Some ng, gs)"
    "s' = \<lparr>sceneRows = map trimRow (sceneRows s), backgroundScene = bs, decorationScene = ds, glyphScene = gs\<rparr>"
    using assms(2) by (auto simp: trimCapacity_def split: prod.splits option.splits)
  show ?thesis
    using assms(1) trimmed_shown [OF _ t(1) floats_pos(1), of backgrounds "sceneRows s" "backgroundBuffer g"]
      trimmed_shown [OF _ t(2) floats_pos(1), of decorations "sceneRows s" "decorationBuffer g"]
      trimmed_shown [OF _ t(3) floats_pos(2), of glyphs "sceneRows s" "glyphBuffer g"]
    by (simp add: all_shown_def t(4) trimRow_def)
qed

lemma trimGpu_shown: "all_shown (s, g) \<Longrightarrow> all_shown (s, trimGpu s g)"
  by (auto simp: all_shown_def trimGpu_def shows_rows_def scene_ok_def intro: trimGpuBuffer_ok)

lemma clear_shown: "all_shown (s, g) \<Longrightarrow> all_shown (clearWebGlScene s, g)"
  by (auto simp: all_shown_def clearWebGlScene_def shows_rows_def scene_ok_def clearScene_def sceneData_def rowsData_def buffer_ok_def)

lemma sceneStep_shown:
  assumes "all_shown st" "op_ok op" "sceneStep op st = Some st'"
  shows "all_shown st'"
proof -
  obtain s g where st: "st = (s, g)" by (cases st)
  obtain s' g' where st': "st' = (s', g')" by (cases st')
  show ?thesis
  proof (cases op)
    case (ReplaceRows rows)
    then show ?thesis using assms replaceRows_shown by (simp add: st st')
  next
    case (UpdateRows changes)
    then show ?thesis using updateRows_shown [of s g changes s' g'] assms unfolding st st' UpdateRows sceneStep.simps by blast
  next
    case TrimScene
    then show ?thesis using assms trimScene_shown by (auto simp: st split: prod.splits option.splits)
  next
    case TrimBuffers
    then show ?thesis using assms trimGpu_shown by (auto simp: st)
  next
    case ClearRows
    then show ?thesis using assms clear_shown by (auto simp: st)
  qed
qed

definition emptyGpu :: gpu_scene where
  "emptyGpu = \<lparr>backgroundBuffer = emptyBuffer, decorationBuffer = emptyBuffer, glyphBuffer = emptyBuffer\<rparr>"

lemma new_shown: "all_shown (newScene, emptyGpu)"
  by (simp add: all_shown_def newScene_def emptyGpu_def shows_rows_def scene_ok_def buffer_ok_def emptyScene_def emptyBuffer_def
      rowsData_def sceneData_def)

lemma sceneRun_shown: "all_shown st \<Longrightarrow> list_all op_ok ops \<Longrightarrow> sceneRun ops st = Some st' \<Longrightarrow> all_shown st'"
  by (induction ops arbitrary: st) (auto split: option.splits dest: sceneStep_shown)

text \<open>Steps whose rows exist and whose counts are small throw no range error.\<close>

definition rows_small :: "retained_row list \<Rightarrow> bool" where
  "rows_small rows \<longleftrightarrow> small_count (instances (map backgrounds rows)) \<and> small_count (instances (map decorations rows))
     \<and> small_count (instances (map glyphs rows))"

fun op_fits :: "scene_op \<Rightarrow> retained_row list \<Rightarrow> bool" where
  "op_fits (ReplaceRows rows) old = rows_small rows"
| "op_fits (UpdateRows changes) old = (fst (putRows changes old) \<and> rows_small (snd (putRows changes old)))"
| "op_fits _ old = rows_small old"

text \<open>The rows alone, and the operations that stay in range of them.\<close>

fun rowsAfter :: "scene_op \<Rightarrow> retained_row list \<Rightarrow> retained_row list" where
  "rowsAfter (ReplaceRows rows) old = rows"
| "rowsAfter (UpdateRows changes) old = snd (putRows changes old)"
| "rowsAfter TrimScene old = map trimRow old"
| "rowsAfter TrimBuffers old = old"
| "rowsAfter ClearRows old = []"

fun run_fits :: "scene_op list \<Rightarrow> retained_row list \<Rightarrow> bool" where
  "run_fits [] old = True"
| "run_fits (op # ops) old = (op_fits op old \<and> run_fits ops (rowsAfter op old))"

lemma eachPrimitive_rows: "sceneRows (snd (eachPrimitive f s)) = sceneRows s"
  by (simp add: eachPrimitive_def split: prod.split option.split)

lemma submitted_rows: "submittedScene r g = Some (s', g') \<Longrightarrow> s' = snd r"
  by (auto simp: submittedScene_def split: prod.splits option.splits)

lemma sceneStep_rows:
  assumes "sceneStep op (s, g) = Some (s', g')"
  shows "sceneRows s' = rowsAfter op (sceneRows s)"
proof (cases op)
  case (ReplaceRows rows)
  then show ?thesis using submitted_rows [of _ g s' g'] assms by (fastforce simp: replaceAllRows_def eachPrimitive_rows)
next
  case (UpdateRows changes)
  then have s': "s' = snd (updateSceneRows changes s)" using submitted_rows [of _ g s' g'] assms by simp
  show ?thesis unfolding s' UpdateRows by (simp add: updateSceneRows_def Let_def eachPrimitive_rows split: prod.split)
next
  case TrimScene
  then show ?thesis using assms by (auto simp: trimCapacity_def split: prod.splits option.splits)
next
  case ClearRows
  then show ?thesis using assms by (auto simp: clearWebGlScene_def)
qed (use assms in simp)

lemma sceneRun_rows: "sceneRun ops (s, g) = Some (s', g') \<Longrightarrow> sceneRows s' = fold rowsAfter ops (sceneRows s)"
  by (induction ops arbitrary: s g) (auto split: option.splits dest: sceneStep_rows)

definition uploads :: "primitive_plan option \<times> primitive_scene \<Rightarrow> gpu_buffer \<Rightarrow> bool" where
  "uploads r g \<longleftrightarrow> (case r of (Some p, _) \<Rightarrow> submitPrimitive p g \<noteq> None | _ \<Rightarrow> False)"

lemma eachPrimitive_uploads:
  assumes "uploads (f WEBGL_RECT_FLOATS backgrounds (backgroundScene s)) (backgroundBuffer g)"
    "uploads (f WEBGL_RECT_FLOATS decorations (decorationScene s)) (decorationBuffer g)"
    "uploads (f WEBGL_GLYPH_FLOATS glyphs (glyphScene s)) (glyphBuffer g)"
  shows "submittedScene (eachPrimitive f s) g \<noteq> None"
  using assms
  by (auto simp: uploads_def eachPrimitive_def submittedScene_def submitScene_def split: prod.splits option.splits)

lemma uploads_replace:
  assumes "\<forall>r \<in> set rows. batch_ok k (sel r)" "small_count (instances (map sel rows))" "0 < k" "k \<le> 13"
    "length (gpuContents g) = gpuCapacity g"
  shows "uploads (replaceAllPrimitive k (map sel rows) s) g"
proof -
  have ok: "\<forall>b \<in> set (map sel rows). batch_ok k b" using assms(1) by simp
  obtain p s' where r: "replaceAllPrimitive k (map sel rows) s = (Some p, s')"
    using replacePrimitive_total [OF ok assms(2-4)] by (metis not_Some_eq prod.collapse)
  then show ?thesis using replacePrimitive_ok [OF ok r assms(5, 3)] by (auto simp: uploads_def)
qed

lemma uploads_update:
  assumes "shows_rows k (map sel rows) s g" "0 < k" "k \<le> 13" "\<forall>c \<in> set changes. batch_ok k (sel (changedBatches c))"
    "\<forall>c \<in> set changes. \<forall>c' \<in> set changes. changedRow c = changedRow c' \<longrightarrow> changedBatches c = changedBatches c'"
    "putRows changes rows = (True, rows')" "small_count (instances (map sel rows'))"
  shows "uploads (updateRowsPrimitive k (map (\<lambda>c. (changedRow c, sel (changedBatches c))) changes) (map sel rows') s) g"
proof -
  let ?cs = "map (\<lambda>c. (changedRow c, sel (changedBatches c))) changes"
  obtain f where rows: "map sel rows' = putAll ?cs (map sel rows)"
    and cs: "\<forall>(i, b) \<in> set ?cs. i < length (map sel rows) \<and> batch_ok k b \<and> b = f i"
    by (rule changes_facts [OF assms(5, 6, 4)])
  have sc: "scene_ok k (map sel rows) s" using assms(1) by (simp add: shows_rows_def)
  obtain p s' where u: "updateRowsPrimitive k ?cs (map sel rows') s = (Some p, s')"
    using updateRows_total [OF sc cs rows assms(7, 2, 3)] by (metis not_Some_eq prod.collapse)
  then show ?thesis
    using updateRows_ok [OF sc _ assms(2) cs rows u, of g] assms(1) by (auto simp: uploads_def shows_rows_def)
qed

lemma shown_buffers:
  assumes "all_shown (s, g)"
  shows "length (gpuContents (backgroundBuffer g)) = gpuCapacity (backgroundBuffer g)"
    "length (gpuContents (decorationBuffer g)) = gpuCapacity (decorationBuffer g)"
    "length (gpuContents (glyphBuffer g)) = gpuCapacity (glyphBuffer g)"
  using assms by (simp_all add: all_shown_def shows_rows_def buffer_ok_def)

lemma floats_small: "WEBGL_RECT_FLOATS \<le> 13" "WEBGL_GLYPH_FLOATS \<le> 13"
  by (simp_all add: WEBGL_RECT_FLOATS_def WEBGL_GLYPH_FLOATS_def)

lemma replaceRows_total:
  assumes "all_shown (s, g)" "list_all row_ok rows" "rows_small rows"
  shows "submittedScene (replaceAllRows rows s) g \<noteq> None"
  unfolding replaceAllRows_def
  by (rule eachPrimitive_uploads; rule uploads_replace)
    (use assms shown_buffers [OF assms(1)] floats_pos floats_small in \<open>simp_all add: list_all_iff row_ok_def rows_small_def\<close>)

lemma updateRows_submits:
  assumes "all_shown (s, g)" "op_ok (UpdateRows changes)" "op_fits (UpdateRows changes) (sceneRows s)"
  shows "submittedScene (updateSceneRows changes s) g \<noteq> None"
proof (cases "changes = []")
  case True
  then show ?thesis by (simp add: updateSceneRows_def submittedScene_def submitScene_def)
next
  case False
  obtain rows' where put: "putRows changes (sceneRows s) = (True, rows')" and small: "rows_small rows'"
    using assms(3) by (cases "putRows changes (sceneRows s)") auto
  have b: "\<forall>c \<in> set changes. batch_ok WEBGL_RECT_FLOATS (backgrounds (changedBatches c))"
    "\<forall>c \<in> set changes. batch_ok WEBGL_RECT_FLOATS (decorations (changedBatches c))"
    "\<forall>c \<in> set changes. batch_ok WEBGL_GLYPH_FLOATS (glyphs (changedBatches c))"
    using assms(2) unfolding op_ok.simps list_all_iff row_ok_def comp_def by blast+
  have same: "\<forall>c \<in> set changes. \<forall>c' \<in> set changes. changedRow c = changedRow c' \<longrightarrow> changedBatches c = changedBatches c'"
    using assms(2) unfolding op_ok.simps by blast
  have "submittedScene (eachPrimitive (\<lambda>k sel. updateRowsPrimitive k (map (\<lambda>c. (changedRow c, sel (changedBatches c))) changes) (map sel rows'))
      (s\<lparr>sceneRows := rows'\<rparr>)) g \<noteq> None"
    using assms(1) small floats_pos floats_small
    by (intro eachPrimitive_uploads uploads_update [OF _ _ _ _ same put] b) (simp_all add: all_shown_def rows_small_def)
  then show ?thesis using False put by (simp add: updateSceneRows_def)
qed

lemma trimScene_total:
  assumes "scene_ok k rows s" "small_count (instances rows)" "k \<le> 13"
  shows "fst (trimScene k s) \<noteq> None"
proof -
  have "sceneCount s * 2 * k \<le> sceneCount s * 26" using assms(3) by simp
  then have "checkedLength (sceneCount s * 2) k \<noteq> None"
    using assms(1) small_safe [OF assms(2), of "sceneCount s * 2" k] small_safe [OF assms(2), of "sceneCount s * 2" 1]
    by (simp add: checkedLength_def scene_ok_def)
  then show ?thesis by (auto simp: trimScene_def sceneTargetLength_def)
qed

lemma trimCapacity_total:
  assumes "all_shown (s, g)" "rows_small (sceneRows s)"
  shows "fst (trimCapacity s) \<noteq> None"
proof -
  have "fst (trimScene WEBGL_RECT_FLOATS (backgroundScene s)) \<noteq> None" "fst (trimScene WEBGL_RECT_FLOATS (decorationScene s)) \<noteq> None"
    "fst (trimScene WEBGL_GLYPH_FLOATS (glyphScene s)) \<noteq> None"
    using assms floats_small trimScene_total unfolding all_shown_def shows_rows_def rows_small_def by blast+
  then show ?thesis by (auto simp: trimCapacity_def split: prod.splits option.splits)
qed

lemma sceneStep_total:
  assumes "all_shown st" "op_ok op" "op_fits op (sceneRows (fst st))"
  shows "sceneStep op st \<noteq> None"
proof -
  obtain s g where st: "st = (s, g)" by (cases st)
  show ?thesis
  proof (cases op)
    case (ReplaceRows rows)
    then show ?thesis using assms replaceRows_total [of s g rows] by (simp add: st)
  next
    case (UpdateRows changes)
    then show ?thesis using assms updateRows_submits [of s g changes] unfolding st UpdateRows fst_conv sceneStep.simps by blast
  next
    case TrimScene
    then show ?thesis using assms trimCapacity_total [of s g] by (auto simp: st split: prod.splits option.splits)
  qed (simp_all add: st)
qed

lemma sceneRun_total: "all_shown (s, g) \<Longrightarrow> list_all op_ok ops \<Longrightarrow> run_fits ops (sceneRows s) \<Longrightarrow> sceneRun ops (s, g) \<noteq> None"
proof (induction ops arbitrary: s g)
  case (Cons op ops)
  then obtain s' g' where st: "sceneStep op (s, g) = Some (s', g')" using sceneStep_total [of "(s, g)" op] by auto
  then show ?case using Cons sceneStep_shown [OF _ _ st] sceneStep_rows [OF st] by simp
qed simp

text \<open>
  C3: whatever the renderer replaces, updates, trims or clears, in any order: while the changed rows exist and the
  instance counts are small no range error is thrown, and whenever none is, the scene keeps the rows that were put, and
  the part of each GPU buffer that is drawn, as many instances as the scene counts, is exactly the batches of those
  rows in order: partial uploads never leave a stale float.
\<close>

theorem gpu_shows_scene:
  assumes "list_all op_ok ops"
  shows "(run_fits ops [] \<longrightarrow> sceneRun ops (newScene, emptyGpu) \<noteq> None)
    \<and> (\<forall>s g. sceneRun ops (newScene, emptyGpu) = Some (s, g) \<longrightarrow>
       sceneRows s = fold rowsAfter ops []
     \<and> take (sceneCount (backgroundScene s) * 8) (gpuContents (backgroundBuffer g)) = concat (map (batchData 8 \<circ> backgrounds) (sceneRows s))
     \<and> take (sceneCount (decorationScene s) * 8) (gpuContents (decorationBuffer g)) = concat (map (batchData 8 \<circ> decorations) (sceneRows s))
     \<and> take (sceneCount (glyphScene s) * 13) (gpuContents (glyphBuffer g)) = concat (map (batchData 13 \<circ> glyphs) (sceneRows s)))"
proof -
  have draw: "take (sceneCount sc * k) (gpuContents b) = concat (map (batchData k \<circ> sel) rows)"
    if "shows_rows k (map sel rows) sc b" for k sc b and sel :: "retained_row \<Rightarrow> float_batch" and rows
  proof -
    have "length (rowsData k (map sel rows)) = sceneCount sc * k"
      using that rowsData_length [of "map sel rows" k] by (auto simp: shows_rows_def scene_ok_def)
    moreover have "rowsData k (map sel rows) = concat (map (batchData k \<circ> sel) rows)" by (simp add: rowsData_def)
    ultimately show ?thesis using that by (simp add: shows_rows_def buffer_ok_def)
  qed
  have "all_shown (s, g)" if "sceneRun ops (newScene, emptyGpu) = Some (s, g)" for s g
    by (rule sceneRun_shown [OF new_shown assms that])
  moreover have "sceneRows newScene = []" by (simp add: newScene_def)
  ultimately show ?thesis
    using draw [of 8] draw [of 13] sceneRun_total [OF new_shown assms] sceneRun_rows [of ops newScene emptyGpu]
    unfolding all_shown_def WEBGL_RECT_FLOATS_def WEBGL_GLYPH_FLOATS_def by auto
qed

definition rectBatch :: "rat \<Rightarrow> float_batch" where
  "rectBatch x = snd (pushRect x 0 1 1 1 1 1 1 (createBatch WEBGL_RECT_FLOATS 1))"

definition sampleRow :: "rat \<Rightarrow> retained_row" where
  "sampleRow x = \<lparr>backgrounds = rectBatch x, decorations = createBatch WEBGL_RECT_FLOATS 1, glyphs = createBatch WEBGL_GLYPH_FLOATS 1\<rparr>"

definition sampleOps :: "scene_op list" where
  "sampleOps = [ReplaceRows [sampleRow 1, sampleRow 2], UpdateRows [\<lparr>changedRow = 1, changedBatches = sampleRow 3\<rparr>], TrimBuffers]"

lemma sampleRow_batches:
  "backgrounds (sampleRow x) = \<lparr>batchValues = [x, 0, 1, 1, 1, 1, 1, 1], batchCount = 1, maximumInstances = 1\<rparr>"
  "batchCount (decorations (sampleRow x)) = 0" "batchCount (glyphs (sampleRow x)) = 0" "row_ok (sampleRow x)"
  by (simp_all add: sampleRow_def rectBatch_def pushRect_def appendData_def reserve_def createBatch_def overwrite_def
      WEBGL_RECT_FLOATS_def WEBGL_GLYPH_FLOATS_def row_ok_def batch_ok_def)

lemma sampleOps_fit: "list_all op_ok sampleOps" "run_fits sampleOps []"
  "fold rowsAfter sampleOps [] = [sampleRow 1, sampleRow 3]"
  by (simp_all add: sampleOps_def sampleRow_batches rows_small_def small_count_def safeNat_def maxSafeInteger_def)

theorem gpu_shows_scene_witness:
  "\<exists>s g. sceneRun sampleOps (newScene, emptyGpu) = Some (s, g)
     \<and> take (sceneCount (backgroundScene s) * 8) (gpuContents (backgroundBuffer g)) = [1, 0, 1, 1, 1, 1, 1, 1, 3, 0, 1, 1, 1, 1, 1, 1]"
  using gpu_shows_scene [OF sampleOps_fit(1)] sampleOps_fit(2, 3) by (fastforce simp: sampleRow_batches batchData_def)

end
