(* ===== verification/GlyphAtlas.thy ===== *)
theory GlyphAtlas
  imports Prelude "HOL-Library.Log_Nat"
begin

text \<open>
  The glyph atlas of the WebGL renderer, \<open>packages/ghostty-react/src/renderers/webgl2/glyph-atlas.ts\<close>: a square texture
  filled shelf by shelf through scratch canvases, grown and emptied under pressure. The texture is a function from pixels to
  what was uploaded there: pixel \<open>(i, j)\<close> of the canvas drawn for a key. The Unicode classes of colour glyphs and whether
  a canvas has a context are parameters. The lemmas show that live entries only ever read their own glyph.
\<close>

section \<open>State\<close>

definition PADDING :: nat where "PADDING = 2"
definition DEFAULT_ATLAS_SIZE :: nat where "DEFAULT_ATLAS_SIZE = 1024"
definition MAX_ATLAS_BYTES :: nat where "MAX_ATLAS_BYTES = 16 * 1024 * 1024"
definition MAX_SCRATCH_CANVASES :: nat where "MAX_SCRATCH_CANVASES = 4"

text \<open>The square root of a quarter of the budget.\<close>

definition budgetSize :: nat where "budgetSize = 2048"

text \<open>Texts are UTF-16 code units; 65038 is the text variation selector.\<close>

definition isColorGlyphCluster :: "(nat list \<Rightarrow> bool) \<Rightarrow> nat list \<Rightarrow> bool" where
  "isColorGlyphCluster colorGlyphClass text \<longleftrightarrow> 65038 \<notin> set text \<and> colorGlyphClass text"

record glyph_request =
  requestText :: "nat list"
  cellSpan :: nat
  metricsWidth :: rat
  metricsHeight :: rat
  fontFamily :: string
  fontSize :: rat
  fontBold :: bool
  fontItalic :: bool
  pixelRatio :: rat

text \<open>The parts of the key, which the code joins with NUL characters.\<close>

datatype glyph_key = GlyphKey string rat bool bool rat nat bool "nat list"

definition glyphKey :: "(nat list \<Rightarrow> bool) \<Rightarrow> glyph_request \<Rightarrow> glyph_key" where
  "glyphKey cls r = GlyphKey (fontFamily r) (fontSize r) (fontBold r) (fontItalic r) (pixelRatio r) (cellSpan r)
     (isColorGlyphCluster cls (requestText r)) (requestText r)"

record atlas_entry =
  entryU0 :: rat
  entryV0 :: rat
  entryU1 :: rat
  entryV1 :: rat
  colorGlyph :: bool

record glyph_atlas =
  maximumSize :: nat
  atlasSize :: nat
  atlasEntries :: "(glyph_key, atlas_entry) jsmap"
  scratchCanvases :: "(nat, nat \<times> nat) jsmap"
  nextX :: nat
  nextY :: nat
  shelfHeight :: nat
  generationValue :: nat
  uploadsValue :: nat
  resetsValue :: nat
  atlasBytes :: nat
  texels :: "nat \<times> nat \<Rightarrow> (glyph_key \<times> nat \<times> nat) option"

section \<open>Operations\<close>

definition allocateTexture :: "glyph_atlas \<Rightarrow> glyph_atlas" where
  "allocateTexture a = a\<lparr>atlasBytes := atlasSize a * atlasSize a * 4, texels := (\<lambda>_. None)\<rparr>"

definition newAtlas :: "nat \<Rightarrow> nat \<Rightarrow> glyph_atlas" where
  "newAtlas maximum maxTexture =
     (let m = max 1 (min (min maximum maxTexture) budgetSize) in
      allocateTexture \<lparr>maximumSize = m, atlasSize = min DEFAULT_ATLAS_SIZE m, atlasEntries = [], scratchCanvases = [],
        nextX = 0, nextY = 0, shelfHeight = 0, generationValue = 1, uploadsValue = 0, resetsValue = 0, atlasBytes = 0,
        texels = (\<lambda>_. None)\<rparr>)"

definition scratchAllocatedBytes :: "glyph_atlas \<Rightarrow> nat" where
  "scratchAllocatedBytes a = sum_list (map (\<lambda>(_, w, h). w * h * 4) (scratchCanvases a))"

definition occupancy :: "glyph_atlas \<Rightarrow> rat" where
  "occupancy a = of_nat (nextY a * atlasSize a + nextX a * max 1 (shelfHeight a)) / of_nat (atlasSize a * atlasSize a)"

definition clearAtlas :: "glyph_atlas \<Rightarrow> glyph_atlas" where
  "clearAtlas a = allocateTexture (a\<lparr>atlasEntries := [], nextX := 0, nextY := 0, shelfHeight := 0,
     generationValue := generationValue a + 1\<rparr>)"

definition resetForPressure :: "glyph_atlas \<Rightarrow> glyph_atlas" where
  "resetForPressure a = clearAtlas (a\<lparr>resetsValue := resetsValue a + 1, atlasSize := min (maximumSize a) (atlasSize a * 2)\<rparr>)"

definition trimScratch :: "glyph_atlas \<Rightarrow> nat \<times> glyph_atlas" where
  "trimScratch a = (scratchAllocatedBytes a, a\<lparr>scratchCanvases := []\<rparr>)"

definition disposeAtlas :: "glyph_atlas \<Rightarrow> glyph_atlas" where
  "disposeAtlas a = a\<lparr>atlasEntries := [], scratchCanvases := [], atlasBytes := 0\<rparr>"

definition scratchBucket :: "nat \<Rightarrow> nat" where
  "scratchBucket width = min (MAX_SCRATCH_CANVASES - 1) (ceillog2 width - 4)"

text \<open>A canvas at least that large, and whether it has a context; a cached canvas is resized in place.\<close>

definition scratchFor :: "bool \<Rightarrow> nat \<Rightarrow> nat \<Rightarrow> glyph_atlas \<Rightarrow> (nat \<times> nat) option \<times> glyph_atlas" where
  "scratchFor contextOk width height a =
     (let bucket = scratchBucket width; cached = jget (scratchCanvases a) bucket in
      case cached of
        Some (w, h) \<Rightarrow>
          if width \<le> w \<and> height \<le> h then (Some (w, h), a)
          else let c = (max width w, max height h); a' = a\<lparr>scratchCanvases := jset bucket c (scratchCanvases a)\<rparr>
               in (if contextOk then Some c else None, a')
      | None \<Rightarrow>
          let c = (max width 0, max height 0)
          in if contextOk then (Some c, a\<lparr>scratchCanvases := jset bucket c (scratchCanvases a)\<rparr>) else (None, a))"

text \<open>\<open>while (atlasWidth > this.size || atlasHeight > this.size) this.resetForPressure()\<close>\<close>

partial_function (option) growFor :: "nat \<Rightarrow> nat \<Rightarrow> glyph_atlas \<Rightarrow> glyph_atlas option" where
  "growFor w h a = (if atlasSize a < w \<or> atlasSize a < h then growFor w h (resetForPressure a) else Some a)"

definition nextShelf :: "nat \<Rightarrow> glyph_atlas \<Rightarrow> glyph_atlas" where
  "nextShelf w a =
     (if atlasSize a < nextX a + w then a\<lparr>nextX := 0, nextY := nextY a + shelfHeight a, shelfHeight := 0\<rparr> else a)"

definition makeRoom :: "nat \<Rightarrow> glyph_atlas \<Rightarrow> glyph_atlas" where
  "makeRoom h a = (if atlasSize a < nextY a + h then resetForPressure a else a)"

definition drawCanvas :: "glyph_key \<Rightarrow> nat \<Rightarrow> nat \<Rightarrow> nat \<Rightarrow> nat \<Rightarrow> glyph_atlas \<Rightarrow> glyph_atlas" where
  "drawCanvas key x y w h a =
     a\<lparr>texels := (\<lambda>(px, py). if x \<le> px \<and> px < x + w \<and> y \<le> py \<and> py < y + h then Some (key, px - x, py - y) else texels a (px, py)),
       uploadsValue := uploadsValue a + 1\<rparr>"

definition entryAt :: "nat \<Rightarrow> nat \<Rightarrow> nat \<Rightarrow> nat \<Rightarrow> nat \<Rightarrow> bool \<Rightarrow> atlas_entry" where
  "entryAt n x y width height color =
     \<lparr>entryU0 = of_nat (x + PADDING) / of_nat n, entryV0 = of_nat (y + PADDING) / of_nat n,
      entryU1 = of_nat (x + PADDING + width) / of_nat n, entryV1 = of_nat (y + PADDING + height) / of_nat n,
      colorGlyph = color\<rparr>"

definition placeGlyph :: "glyph_key \<Rightarrow> bool \<Rightarrow> nat \<Rightarrow> nat \<Rightarrow> nat \<times> nat \<Rightarrow> glyph_atlas \<Rightarrow> atlas_entry \<times> glyph_atlas" where
  "placeGlyph key color width height canvas a =
     (let (cw, ch) = canvas; a1 = makeRoom ch (nextShelf cw a);
          a2 = drawCanvas key (nextX a1) (nextY a1) cw ch a1;
          entry = entryAt (atlasSize a1) (nextX a1) (nextY a1) width height color
      in (entry, a2\<lparr>atlasEntries := jset key entry (atlasEntries a2), nextX := nextX a2 + cw,
            shelfHeight := max (shelfHeight a2) ch\<rparr>))"

datatype atlas_error = GlyphTooLarge | ScratchUnavailable

definition glyphWidth :: "glyph_request \<Rightarrow> nat" where
  "glyphWidth r = max 1 (nat \<lceil>metricsWidth r * of_nat (cellSpan r) * pixelRatio r\<rceil>)"

definition glyphHeight :: "glyph_request \<Rightarrow> nat" where
  "glyphHeight r = max 1 (nat \<lceil>metricsHeight r * pixelRatio r\<rceil>)"

text \<open>\<open>None\<close> when the growing loop does not end.\<close>

definition atlasGet ::
  "(nat list \<Rightarrow> bool) \<Rightarrow> bool \<Rightarrow> glyph_request \<Rightarrow> glyph_atlas \<Rightarrow> ((atlas_error + atlas_entry) \<times> glyph_atlas) option" where
  "atlasGet cls contextOk r a =
     (let key = glyphKey cls r; width = glyphWidth r; height = glyphHeight r;
          atlasWidth = width + PADDING * 2; atlasHeight = height + PADDING * 2
      in case jget (atlasEntries a) key of
        Some cached \<Rightarrow> Some (Inr cached, a\<lparr>atlasEntries := jset key cached (jdelete key (atlasEntries a))\<rparr>)
      | None \<Rightarrow>
          if maximumSize a < atlasWidth \<or> maximumSize a < atlasHeight then Some (Inl GlyphTooLarge, a)
          else case growFor atlasWidth atlasHeight a of
            None \<Rightarrow> None
          | Some a1 \<Rightarrow>
              (case scratchFor contextOk atlasWidth atlasHeight a1 of
                 (None, a2) \<Rightarrow> Some (Inl ScratchUnavailable, a2)
               | (Some canvas, a2) \<Rightarrow>
                   (case placeGlyph key (isColorGlyphCluster cls (requestText r)) width height canvas a2 of
                      (entry, a3) \<Rightarrow> Some (Inr entry, a3))))"

datatype atlas_op = AtlasGet bool glyph_request | AtlasClear | AtlasTrim

fun atlasStep :: "(nat list \<Rightarrow> bool) \<Rightarrow> atlas_op \<Rightarrow> glyph_atlas \<Rightarrow> glyph_atlas option" where
  "atlasStep cls (AtlasGet contextOk r) a = map_option snd (atlasGet cls contextOk r a)"
| "atlasStep cls AtlasClear a = Some (clearAtlas a)"
| "atlasStep cls AtlasTrim a = Some (snd (trimScratch a))"

fun atlasRun :: "(nat list \<Rightarrow> bool) \<Rightarrow> atlas_op list \<Rightarrow> glyph_atlas \<Rightarrow> glyph_atlas option" where
  "atlasRun cls [] a = Some a"
| "atlasRun cls (op # ops) a = (case atlasStep cls op a of None \<Rightarrow> None | Some a' \<Rightarrow> atlasRun cls ops a')"

section \<open>Live entries read their own glyph\<close>

text \<open>An entry at a place of the texture, whose texels with their padding are the canvas of its key.\<close>

definition shownAt :: "glyph_atlas \<Rightarrow> glyph_key \<Rightarrow> atlas_entry \<Rightarrow> nat \<Rightarrow> nat \<Rightarrow> nat \<Rightarrow> nat \<Rightarrow> bool" where
  "shownAt a key e x y width height \<longleftrightarrow>
     entryU0 e = of_nat (x + 2) / of_nat (atlasSize a) \<and> entryV0 e = of_nat (y + 2) / of_nat (atlasSize a) \<and>
     entryU1 e = of_nat (x + 2 + width) / of_nat (atlasSize a) \<and> entryV1 e = of_nat (y + 2 + height) / of_nat (atlasSize a) \<and>
     x + width + 4 \<le> atlasSize a \<and> y + height + 4 \<le> atlasSize a \<and>
     (\<forall>i < width + 4. \<forall>j < height + 4. texels a (x + i, y + j) = Some (key, i, j))"

text \<open>Places that the next upload leaves alone: on a finished shelf, or to the left on this one.\<close>

definition settled :: "glyph_atlas \<Rightarrow> nat \<Rightarrow> nat \<Rightarrow> nat \<Rightarrow> nat \<Rightarrow> bool" where
  "settled a x y width height \<longleftrightarrow>
     y + height + 4 \<le> nextY a \<or> y = nextY a \<and> x + width + 4 \<le> nextX a \<and> height + 4 \<le> shelfHeight a"

definition entry_ok :: "glyph_atlas \<Rightarrow> glyph_key \<Rightarrow> atlas_entry \<Rightarrow> bool" where
  "entry_ok a key e \<longleftrightarrow> (\<exists>x y width height. 0 < width \<and> 0 < height \<and> shownAt a key e x y width height \<and> settled a x y width height)"

definition atlas_ok :: "glyph_atlas \<Rightarrow> bool" where
  "atlas_ok a \<longleftrightarrow> 0 < atlasSize a \<and> atlasSize a \<le> maximumSize a \<and> maximumSize a \<le> 2048 \<and> jwf (atlasEntries a)
     \<and> atlasBytes a = atlasSize a * atlasSize a * 4
     \<and> nextX a \<le> atlasSize a \<and> nextY a + shelfHeight a \<le> atlasSize a
     \<and> (\<forall>b w h. jget (scratchCanvases a) b = Some (w, h) \<longrightarrow> w \<le> atlasSize a \<and> h \<le> atlasSize a)
     \<and> (\<forall>key e. jget (atlasEntries a) key = Some e \<longrightarrow> entry_ok a key e)"

lemma newAtlas_ok: "atlas_ok (newAtlas maximum maxTexture)"
  by (simp add: atlas_ok_def newAtlas_def allocateTexture_def Let_def budgetSize_def DEFAULT_ATLAS_SIZE_def)

lemma clearAtlas_ok: "atlas_ok a \<Longrightarrow> atlas_ok (clearAtlas a)"
  by (simp add: atlas_ok_def clearAtlas_def allocateTexture_def)

lemma resetForPressure_ok: "atlas_ok a \<Longrightarrow> atlas_ok (resetForPressure a)"
  unfolding atlas_ok_def resetForPressure_def clearAtlas_def allocateTexture_def
  by force

lemma resetForPressure_simps [simp]:
  "atlasSize (resetForPressure a) = min (maximumSize a) (atlasSize a * 2)" "maximumSize (resetForPressure a) = maximumSize a"
  "nextX (resetForPressure a) = 0" "nextY (resetForPressure a) = 0" "shelfHeight (resetForPressure a) = 0"
  "generationValue (resetForPressure a) = generationValue a + 1" "scratchCanvases (resetForPressure a) = scratchCanvases a"
  by (simp_all add: resetForPressure_def clearAtlas_def allocateTexture_def)

text \<open>The growing loop ends: the size doubles until the glyph fits.\<close>

lemma growFor_spec:
  assumes "atlas_ok a" "w \<le> maximumSize a" "h \<le> maximumSize a"
  shows "\<exists>a'. growFor w h a = Some a' \<and> atlas_ok a' \<and> w \<le> atlasSize a' \<and> h \<le> atlasSize a' \<and> maximumSize a' = maximumSize a
    \<and> generationValue a \<le> generationValue a' \<and> (generationValue a' = generationValue a \<longrightarrow> a' = a)
    \<and> (a' = a \<or> atlasEntries a' = [])"
  using assms
proof (induction "maximumSize a - atlasSize a" arbitrary: a rule: less_induct)
  case less
  show ?case
  proof (cases "atlasSize a < w \<or> atlasSize a < h")
    case True
    have s: "0 < atlasSize a" "atlasSize a < maximumSize a" using less.prems True by (auto simp: atlas_ok_def)
    then have "maximumSize (resetForPressure a) - atlasSize (resetForPressure a) < maximumSize a - atlasSize a" by simp
    from less.hyps [OF this resetForPressure_ok [OF less.prems(1)]] less.prems(2, 3) obtain a' where
      "growFor w h (resetForPressure a) = Some a'" "atlas_ok a'" "w \<le> atlasSize a'" "h \<le> atlasSize a'"
      "maximumSize a' = maximumSize a" "generationValue a + 1 \<le> generationValue a'" "atlasEntries a' = []"
      by (auto simp: resetForPressure_def clearAtlas_def allocateTexture_def)
    then show ?thesis using True by (subst growFor.simps) simp
  next
    case False
    then show ?thesis using less.prems by (subst growFor.simps) simp
  qed
qed

lemma scratch_ok:
  assumes "atlas_ok a" "\<And>b w h. jget s b = Some (w, h) \<Longrightarrow> w \<le> atlasSize a \<and> h \<le> atlasSize a"
  shows "atlas_ok (a\<lparr>scratchCanvases := s\<rparr>)"
proof -
  have "entry_ok (a\<lparr>scratchCanvases := s\<rparr>) k e = entry_ok a k e" for k e
    by (simp add: entry_ok_def shownAt_def settled_def)
  then show ?thesis using assms by (simp add: atlas_ok_def)
qed

lemma scratchFor_spec:
  assumes "atlas_ok a" "width \<le> atlasSize a" "height \<le> atlasSize a" "scratchFor ok width height a = (r, a')"
  shows "atlas_ok a' \<and> (\<exists>s. a' = a\<lparr>scratchCanvases := s\<rparr>)
    \<and> (\<forall>w h. r = Some (w, h) \<longrightarrow> width \<le> w \<and> w \<le> atlasSize a \<and> height \<le> h \<and> h \<le> atlasSize a)"
proof -
  have old: "w \<le> atlasSize a \<and> h \<le> atlasSize a" if "jget (scratchCanvases a) b = Some (w, h)" for b w h
    using assms(1) that by (simp add: atlas_ok_def)
  have upd: "atlas_ok (a\<lparr>scratchCanvases := jset b (w, h) (scratchCanvases a)\<rparr>)"
    if "w \<le> atlasSize a" "h \<le> atlasSize a" for b w h
    by (rule scratch_ok [OF assms(1)]) (use that old in \<open>auto split: if_splits\<close>)
  have same: "\<exists>s. a = a\<lparr>scratchCanvases := s\<rparr>" by (rule exI [of _ "scratchCanvases a"]) simp
  show ?thesis
    using assms old [of "scratchBucket width"] upd same
    by (auto simp: scratchFor_def Let_def split: option.splits if_splits)
qed

lemma settled_entry:
  assumes "entry_ok a key e" "nextY a + shelfHeight a \<le> nextY a'" "texels a' = texels a" "atlasSize a' = atlasSize a"
  shows "entry_ok a' key e"
proof -
  obtain x y w h where e: "0 < w" "0 < h" "shownAt a key e x y w h" "settled a x y w h"
    using assms(1) unfolding entry_ok_def by blast
  have "settled a' x y w h" using e(4) assms(2) by (auto simp: settled_def)
  moreover have "shownAt a' key e x y w h" using e(3) by (simp add: shownAt_def assms(3, 4))
  ultimately show ?thesis using e(1, 2) unfolding entry_ok_def by blast
qed

lemma nextShelf_spec:
  assumes "atlas_ok a" "w \<le> atlasSize a"
  shows "atlas_ok (nextShelf w a) \<and> nextX (nextShelf w a) + w \<le> atlasSize a"
  using assms settled_entry [of a _ _ "a\<lparr>nextX := 0, nextY := nextY a + shelfHeight a, shelfHeight := 0\<rparr>"]
  by (auto simp: nextShelf_def atlas_ok_def)

lemma nextShelf_keeps [simp]:
  "atlasSize (nextShelf w a) = atlasSize a" "maximumSize (nextShelf w a) = maximumSize a"
  "generationValue (nextShelf w a) = generationValue a" "atlasEntries (nextShelf w a) = atlasEntries a"
  "scratchCanvases (nextShelf w a) = scratchCanvases a"
  by (simp_all add: nextShelf_def)

lemma makeRoom_spec:
  assumes "atlas_ok a" "nextX a + w \<le> atlasSize a" "h \<le> atlasSize a" "w \<le> atlasSize a"
  shows "atlas_ok (makeRoom h a) \<and> nextX (makeRoom h a) + w \<le> atlasSize (makeRoom h a)
    \<and> nextY (makeRoom h a) + h \<le> atlasSize (makeRoom h a)"
  using assms resetForPressure_ok [OF assms(1)] by (auto simp: makeRoom_def atlas_ok_def)

text \<open>The canvas lies outside every settled place.\<close>

lemma drawCanvas_keeps:
  assumes "shownAt a key e x y width height" "settled a x y width height"
  shows "shownAt (drawCanvas k (nextX a) (nextY a) w h a) key e x y width height"
  using assms by (auto simp: shownAt_def settled_def drawCanvas_def)

lemma placeGlyph_spec:
  assumes "atlas_ok a" "placeGlyph key color width height (cw, ch) a = (e, a')" "0 < width" "0 < height"
    "width + 4 \<le> cw" "height + 4 \<le> ch" "cw \<le> atlasSize a" "ch \<le> atlasSize a"
  shows "atlas_ok a'"
proof -
  define b where "b = makeRoom ch (nextShelf cw a)"
  define d where "d = drawCanvas key (nextX b) (nextY b) cw ch b"
  have b: "atlas_ok b" "nextX b + cw \<le> atlasSize b" "nextY b + ch \<le> atlasSize b"
    using nextShelf_spec [OF assms(1, 7)] makeRoom_spec [of "nextShelf cw a" cw ch] assms(7, 8) by (auto simp: b_def)
  have e: "e = entryAt (atlasSize b) (nextX b) (nextY b) width height color"
    and a': "a' = d\<lparr>atlasEntries := jset key e (atlasEntries d), nextX := nextX d + cw, shelfHeight := max (shelfHeight d) ch\<rparr>"
    using assms(2) by (auto simp: placeGlyph_def Let_def b_def d_def)
  have a'_simps: "atlasSize a' = atlasSize b" "nextX a' = nextX b + cw" "nextY a' = nextY b" "shelfHeight a' = max (shelfHeight b) ch"
    "texels a' = texels d" "maximumSize a' = maximumSize b" "atlasBytes a' = atlasBytes b" "scratchCanvases a' = scratchCanvases b"
    "atlasEntries a' = jset key e (atlasEntries b)"
    by (simp_all add: a' d_def drawCanvas_def)
  have "shownAt a' key e (nextX b) (nextY b) width height"
    using b(2, 3) assms(5, 6) by (simp add: shownAt_def a'_simps e entryAt_def PADDING_def d_def drawCanvas_def)
  moreover have "settled a' (nextX b) (nextY b) width height"
    using assms(5, 6) by (simp add: settled_def a'_simps)
  ultimately have new: "entry_ok a' key e" using assms(3, 4) unfolding entry_ok_def by blast
  have old: "entry_ok a' k f" if "jget (atlasEntries b) k = Some f" for k f
  proof -
    from b(1) that obtain x y w h where s: "0 < w" "0 < h" "shownAt b k f x y w h" "settled b x y w h"
      unfolding atlas_ok_def entry_ok_def by blast
    have "shownAt a' k f x y w h"
      using drawCanvas_keeps [OF s(3, 4), of key cw ch] by (simp add: shownAt_def a'_simps d_def drawCanvas_def)
    moreover have "settled a' x y w h" using s(4) by (auto simp: settled_def a'_simps)
    ultimately show ?thesis using s(1, 2) unfolding entry_ok_def by blast
  qed
  show ?thesis using b new old unfolding atlas_ok_def a'_simps by (auto simp: max_def)
qed

text \<open>An operation keeps the entries unless it starts a new generation.\<close>

definition keeps :: "glyph_atlas \<Rightarrow> glyph_atlas \<Rightarrow> bool" where
  "keeps a a' \<longleftrightarrow> maximumSize a' = maximumSize a \<and> generationValue a \<le> generationValue a' \<and>
     (generationValue a' = generationValue a \<longrightarrow> (\<forall>k e. jget (atlasEntries a) k = Some e \<longrightarrow> jget (atlasEntries a') k = Some e))"

lemma keeps_refl [simp]: "keeps a a"
  by (simp add: keeps_def)

lemma keeps_trans: "keeps a b \<Longrightarrow> keeps b c \<Longrightarrow> keeps a c"
  unfolding keeps_def by (metis le_antisym le_trans)

lemma keeps_later: "generationValue a < generationValue a' \<Longrightarrow> maximumSize a' = maximumSize a \<Longrightarrow> keeps a a'"
  by (simp add: keeps_def)

lemma placeGlyph_keeps:
  assumes "placeGlyph key color width height (cw, ch) a = (e, a')" "jget (atlasEntries a) key = None"
  shows "keeps a a' \<and> jget (atlasEntries a') key = Some e"
proof (cases "makeRoom ch (nextShelf cw a) = nextShelf cw a")
  case True
  then show ?thesis using assms by (auto simp: placeGlyph_def Let_def keeps_def drawCanvas_def)
next
  case False
  then have "makeRoom ch (nextShelf cw a) = resetForPressure (nextShelf cw a)" by (simp add: makeRoom_def split: if_splits)
  then show ?thesis using assms(1) by (auto simp: placeGlyph_def Let_def drawCanvas_def intro!: keeps_later)
qed

lemma atlasGet_spec:
  assumes "atlas_ok a"
  shows "\<exists>r a'. atlasGet cls ok req a = Some (r, a') \<and> atlas_ok a' \<and> keeps a a'
    \<and> (\<forall>e. r = Inr e \<longrightarrow> jget (atlasEntries a') (glyphKey cls req) = Some e)"
proof (cases "jget (atlasEntries a) (glyphKey cls req)")
  case (Some e)
  let ?es = "jset (glyphKey cls req) e (jdelete (glyphKey cls req) (atlasEntries a))"
  have "jget ?es k = jget (atlasEntries a) k" for k using Some by (cases "k = glyphKey cls req") simp_all
  then have "atlas_ok (a\<lparr>atlasEntries := ?es\<rparr>)" "keeps a (a\<lparr>atlasEntries := ?es\<rparr>)"
    using assms by (simp_all add: atlas_ok_def keeps_def entry_ok_def shownAt_def settled_def)
  then show ?thesis using Some by (simp add: atlasGet_def Let_def)
next
  case None
  let ?w = "glyphWidth req + PADDING * 2" and ?h = "glyphHeight req + PADDING * 2"
  show ?thesis
  proof (cases "maximumSize a < ?w \<or> maximumSize a < ?h")
    case True
    then show ?thesis using None assms by (auto simp: atlasGet_def Let_def)
  next
    case False
    then obtain a1 where a1: "growFor ?w ?h a = Some a1" "atlas_ok a1" "?w \<le> atlasSize a1" "?h \<le> atlasSize a1"
      "maximumSize a1 = maximumSize a" "generationValue a \<le> generationValue a1" "generationValue a1 = generationValue a \<longrightarrow> a1 = a"
      "a1 = a \<or> atlasEntries a1 = []"
      using growFor_spec [OF assms, of ?w ?h] by auto
    have k1: "keeps a a1" using a1(5-7) by (auto simp: keeps_def)
    have fresh: "jget (atlasEntries a1) (glyphKey cls req) = None" using a1(8) None by auto
    obtain c a2 where s: "scratchFor ok ?w ?h a1 = (c, a2)" by fastforce
    note sc = scratchFor_spec [OF a1(2-4) s]
    then have k2: "keeps a a2" "jget (atlasEntries a2) (glyphKey cls req) = None" "atlasSize a2 = atlasSize a1"
      using k1 fresh by (auto simp: keeps_def)
    show ?thesis
    proof (cases c)
      case c: None
      then show ?thesis using None False a1(1) s sc k2 by (simp add: atlasGet_def Let_def)
    next
      case (Some canvas)
      obtain cw ch where c: "c = Some (cw, ch)" using Some by (cases canvas) simp
      obtain e a3 where p: "placeGlyph (glyphKey cls req) (isColorGlyphCluster cls (requestText req)) (glyphWidth req) (glyphHeight req) (cw, ch) a2 = (e, a3)"
        by fastforce
      have "atlas_ok a3"
        by (rule placeGlyph_spec [OF _ p]) (use sc c k2(3) in \<open>simp_all add: PADDING_def glyphWidth_def glyphHeight_def\<close>)
      then show ?thesis
        using None False a1(1) s c p placeGlyph_keeps [OF p k2(2)] keeps_trans [OF k2(1)] by (simp add: atlasGet_def Let_def)
    qed
  qed
qed

lemma atlasStep_spec:
  assumes "atlas_ok a"
  shows "\<exists>a'. atlasStep cls op a = Some a' \<and> atlas_ok a' \<and> keeps a a'"
proof (cases op)
  case (AtlasGet ok r)
  then show ?thesis using atlasGet_spec [OF assms, of cls ok r] by auto
next
  case AtlasClear
  moreover have "keeps a (clearAtlas a)" by (rule keeps_later) (simp_all add: clearAtlas_def allocateTexture_def)
  ultimately show ?thesis using clearAtlas_ok [OF assms] by simp
next
  case AtlasTrim
  then show ?thesis using scratch_ok [OF assms, of "[]"] by (simp add: trimScratch_def keeps_def)
qed

lemma atlasRun_spec: "atlas_ok a \<Longrightarrow> \<exists>a'. atlasRun cls ops a = Some a' \<and> atlas_ok a' \<and> keeps a a'"
proof (induction ops arbitrary: a)
  case (Cons op ops)
  then obtain b where b: "atlasStep cls op a = Some b" "atlas_ok b" "keeps a b" using atlasStep_spec by blast
  from Cons.IH [OF b(2)] show ?case using b keeps_trans by auto
qed simp

text \<open>
  C4: the atlas always answers, the growing loop included; it never exceeds its budget of 16 MiB; and the texture
  coordinates it returns name texels inside the texture that hold the glyph asked for, padding included, for as long as
  the generation is the same, whatever else is requested, trimmed or drawn meanwhile.
\<close>

theorem atlas_entries_live:
  "\<exists>a. atlasRun cls ops (newAtlas maximum maxTexture) = Some a \<and> atlasBytes a \<le> MAX_ATLAS_BYTES
    \<and> (\<forall>ok r e a1 ops'. atlasGet cls ok r a = Some (Inr e, a1) \<longrightarrow>
        (\<exists>a2. atlasRun cls ops' a1 = Some a2 \<and> (generationValue a2 = generationValue a1 \<longrightarrow>
          (\<exists>x y width height. 0 < width \<and> 0 < height \<and> shownAt a2 (glyphKey cls r) e x y width height))))"
proof -
  obtain a where a: "atlasRun cls ops (newAtlas maximum maxTexture) = Some a" "atlas_ok a"
    using atlasRun_spec [OF newAtlas_ok] by blast
  have "atlasSize a * atlasSize a \<le> 2048 * 2048" using a(2) by (intro mult_mono) (auto simp: atlas_ok_def)
  then have bytes: "atlasBytes a \<le> MAX_ATLAS_BYTES" using a(2) by (simp add: atlas_ok_def MAX_ATLAS_BYTES_def)
  have live: "\<exists>a2. atlasRun cls ops' a1 = Some a2 \<and> (generationValue a2 = generationValue a1 \<longrightarrow>
      (\<exists>x y width height. 0 < width \<and> 0 < height \<and> shownAt a2 (glyphKey cls r) e x y width height))"
    if "atlasGet cls ok r a = Some (Inr e, a1)" for ok r e a1 ops'
  proof -
    have a1: "atlas_ok a1" "jget (atlasEntries a1) (glyphKey cls r) = Some e"
      using atlasGet_spec [OF a(2), of cls ok r] that by auto
    obtain a2 where a2: "atlasRun cls ops' a1 = Some a2" "atlas_ok a2" "keeps a1 a2" using atlasRun_spec [OF a1(1)] by blast
    have "entry_ok a2 (glyphKey cls r) e" if "generationValue a2 = generationValue a1"
      using a1(2) a2(2, 3) that unfolding keeps_def atlas_ok_def by blast
    then show ?thesis using a2(1) unfolding entry_ok_def by blast
  qed
  show ?thesis using a(1) bytes live by blast
qed

definition sampleGlyph :: "nat list \<Rightarrow> glyph_request" where
  "sampleGlyph text = \<lparr>requestText = text, cellSpan = 1, metricsWidth = 8, metricsHeight = 17, fontFamily = ''mono'',
     fontSize = 13, fontBold = False, fontItalic = False, pixelRatio = 3 / 2\<rparr>"

definition noColor :: "nat list \<Rightarrow> bool" where
  "noColor text = False"

lemma growFor_small: "w \<le> atlasSize a \<Longrightarrow> h \<le> atlasSize a \<Longrightarrow> growFor w h a = Some a"
  by (subst growFor.simps) simp

lemma bucket_16: "scratchBucket 16 = 0"
  using ceillog2_2_power [of 4] by (simp add: scratchBucket_def)

lemma sampleGlyph_size: "glyphWidth (sampleGlyph text) = 12" "glyphHeight (sampleGlyph text) = 26"
proof -
  have "\<lceil>51 / 2 :: rat\<rceil> = 26" by (rule ceiling_unique) simp_all
  then show "glyphWidth (sampleGlyph text) = 12" "glyphHeight (sampleGlyph text) = 26"
    by (simp_all add: glyphWidth_def glyphHeight_def sampleGlyph_def)
qed

lemma sampleGlyph_key: "glyphKey cls (sampleGlyph text) = GlyphKey ''mono'' 13 False False (3 / 2) 1 (isColorGlyphCluster cls text) text"
  by (simp add: glyphKey_def sampleGlyph_def)

lemmas atlas_eval = atlasGet_def Let_def sampleGlyph_key sampleGlyph_size PADDING_def growFor_small
  scratchFor_def bucket_16 placeGlyph_def makeRoom_def nextShelf_def drawCanvas_def entryAt_def isColorGlyphCluster_def
  newAtlas_def allocateTexture_def budgetSize_def DEFAULT_ATLAS_SIZE_def noColor_def

theorem atlas_entries_live_witness:
  "\<exists>a1 e a2. atlasGet noColor True (sampleGlyph [97]) (newAtlas 4096 8192) = Some (Inr e, a1)
    \<and> atlasRun noColor [AtlasGet True (sampleGlyph [98])] a1 = Some a2 \<and> nextX a2 = 32
    \<and> (\<exists>x y width height. shownAt a2 (glyphKey noColor (sampleGlyph [97])) e x y width height)"
proof -
  obtain e a1 where g: "atlasGet noColor True (sampleGlyph [97]) (newAtlas 4096 8192) = Some (Inr e, a1)"
    "generationValue a1 = 1" "nextX a1 = 16" "atlasSize a1 = 1024" "maximumSize a1 = 2048" "nextY a1 = 0" "shelfHeight a1 = 30"
    "scratchCanvases a1 = [(0, 16, 30)]" "jget (atlasEntries a1) (glyphKey noColor (sampleGlyph [98])) = None"
    by (simp add: atlas_eval)
  then obtain a2 where a2: "atlasRun noColor [AtlasGet True (sampleGlyph [98])] a1 = Some a2" "generationValue a2 = 1" "nextX a2 = 32"
    by (simp add: atlas_eval)
  obtain a where a: "atlasRun noColor [] (newAtlas 4096 8192) = Some a"
    "\<forall>ok r e a1 ops'. atlasGet noColor ok r a = Some (Inr e, a1) \<longrightarrow>
        (\<exists>a2. atlasRun noColor ops' a1 = Some a2 \<and> (generationValue a2 = generationValue a1 \<longrightarrow>
          (\<exists>x y width height. 0 < width \<and> 0 < height \<and> shownAt a2 (glyphKey noColor r) e x y width height)))"
    using atlas_entries_live [of noColor "[]" 4096 8192] by (elim exE conjE)
  have "newAtlas 4096 8192 = a" using a(1) by simp
  note live = a(2) [folded this, rule_format, OF g(1), of "[AtlasGet True (sampleGlyph [98])]", unfolded a2(1) option.inject]
  have "\<exists>x y width height. shownAt a2 (glyphKey noColor (sampleGlyph [97])) e x y width height"
    using live a2(2) g(2) by (elim exE conjE) (simp, blast)
  then show ?thesis using g(1) a2 by blast
qed

end
