(* ===== verification/RendererRecovery.thy ===== *)
theory RendererRecovery
  imports Prelude
begin

text \<open>
  The recovery of a terminal surface's renderer, \<open>packages/ghostty-react/src/renderers/renderer-controller.ts\<close>. A
  renderer is a number, given in the order of creation, and its kind. \<open>create\<close> is asynchronous: starting a creation and
  its completion are separate steps, and so is the \<open>finally\<close> that ends a recovery. The factory returns a renderer of the
  kind asked for or fails (\<open>surface.ts\<close> checks it). The callbacks of an activation may throw but do not call the controller.
  The lemmas bound the attempts, account for every renderer and show that a recovery ends.
\<close>

section \<open>State\<close>

datatype backend = WebGl2 | Canvas2d

datatype controller_state = Initializing | Ready | Recovering | Fallback | Unavailable | Disposed

record renderer =
  rendererId :: nat
  rendererKind :: backend

text \<open>A recovery waits for a creation, with the attempts left, or for its \<open>finally\<close>.\<close>

datatype recovery_phase = Creating nat backend "backend list" | Settling nat

record controller =
  activeRenderer :: "renderer option"
  stateValue :: controller_state
  generation :: nat
  recoveryCount :: nat
  lastErrorClass :: "string option"
  fallbackReason :: "string option"
  recovery :: "recovery_phase option"
  recoveryToken :: nat
  webglAttempts :: nat
  canvasAttempts :: nat
  forcedFallback :: bool
  createdCount :: nat
  listening :: "nat list"
  disposedIds :: "nat list"

text \<open>The last three are effects: renderers created so far, those with context listeners, those disposed.\<close>

definition installContextListeners :: "renderer \<Rightarrow> controller \<Rightarrow> controller" where
  "installContextListeners r c = (if rendererKind r \<noteq> WebGl2 then c else c\<lparr>listening := listening c @ [rendererId r]\<rparr>)"

fun removeContextListeners :: "renderer option \<Rightarrow> controller \<Rightarrow> controller" where
  "removeContextListeners None c = c"
| "removeContextListeners (Some r) c =
     (if rendererKind r \<noteq> WebGl2 then c else c\<lparr>listening := removeAll (rendererId r) (listening c)\<rparr>)"

definition disposeRenderer :: "nat \<Rightarrow> controller \<Rightarrow> controller" where
  "disposeRenderer i c = c\<lparr>disposedIds := disposedIds c @ [i]\<rparr>"

definition newController :: "backend \<Rightarrow> controller" where
  "newController kind = installContextListeners \<lparr>rendererId = 0, rendererKind = kind\<rparr>
     \<lparr>activeRenderer = Some \<lparr>rendererId = 0, rendererKind = kind\<rparr>, stateValue = Ready, generation = 1, recoveryCount = 0,
      lastErrorClass = None, fallbackReason = None, recovery = None, recoveryToken = 0, webglAttempts = 0,
      canvasAttempts = 0, forcedFallback = False, createdCount = 1, listening = [], disposedIds = []\<rparr>"

section \<open>Operations\<close>

definition activeKind :: "controller \<Rightarrow> backend option" where
  "activeKind c = map_option rendererKind (activeRenderer c)"

text \<open>The attempts left from here; the recovery either waits for a creation or is over.\<close>

fun nextAttempt :: "nat \<Rightarrow> backend list \<Rightarrow> controller \<Rightarrow> controller" where
  "nextAttempt token [] c =
     (let c' = (if token = recoveryToken c \<and> stateValue c \<noteq> Disposed then c\<lparr>stateValue := Unavailable\<rparr> else c)
      in c'\<lparr>recovery := Some (Settling token)\<rparr>)"
| "nextAttempt token (WebGl2 # rest) c =
     (if 1 \<le> webglAttempts c then nextAttempt token rest c
      else c\<lparr>webglAttempts := webglAttempts c + 1, recovery := Some (Creating token WebGl2 rest)\<rparr>)"
| "nextAttempt token (Canvas2d # rest) c =
     (if 1 \<le> canvasAttempts c then nextAttempt token rest c
      else c\<lparr>canvasAttempts := canvasAttempts c + 1, forcedFallback := (forcedFallback c \<or> activeKind c = Some WebGl2),
             recovery := Some (Creating token Canvas2d rest)\<rparr>)"

definition recoveryAttempts :: "backend \<Rightarrow> backend list" where
  "recoveryAttempts preferred = (if preferred = WebGl2 then [WebGl2, Canvas2d] else [Canvas2d])"

definition requestRecovery :: "string \<Rightarrow> string option \<Rightarrow> controller \<Rightarrow> controller" where
  "requestRecovery reason error c =
     (if stateValue c = Disposed \<or> stateValue c = Unavailable \<or> recovery c \<noteq> None then c
      else
        let token = recoveryToken c + 1;
            webgl = (activeKind c = Some WebGl2);
            preferred = (if webgl \<and> webglAttempts c = 0 then WebGl2 else Canvas2d);
            c' = c\<lparr>lastErrorClass := error, fallbackReason := Some reason, stateValue := Recovering,
                   recoveryCount := recoveryCount c + 1, recoveryToken := token,
                   forcedFallback := (forcedFallback c \<or> webgl \<and> preferred = Canvas2d)\<rparr>
        in nextAttempt token (recoveryAttempts preferred) c')"

text \<open>What the callbacks of an activation do: nothing wrong, or one of them throws.\<close>

datatype callback_result = CallbacksOk | ActivateThrows string | DisposeThrows string | RepaintThrows string

text \<open>The exchange itself, up to the callbacks.\<close>

definition installNext :: "renderer \<Rightarrow> controller \<Rightarrow> controller" where
  "installNext next c =
     (let c1 = removeContextListeners (activeRenderer c) c
      in installContextListeners next
           (c1\<lparr>activeRenderer := Some next, generation := generation c1 + 1,
               stateValue := (if forcedFallback c1 then Fallback else Ready),
               fallbackReason := (if forcedFallback c1 then fallbackReason c1 else None)\<rparr>))"

fun disposePrevious :: "renderer option \<Rightarrow> controller \<Rightarrow> controller" where
  "disposePrevious None c = c"
| "disposePrevious (Some r) c = disposeRenderer (rendererId r) c"

definition activate :: "renderer \<Rightarrow> callback_result \<Rightarrow> nat \<Rightarrow> backend list \<Rightarrow> controller \<Rightarrow> controller" where
  "activate next callbacks token rest c =
     (let c1 = installNext next c; c2 = disposePrevious (activeRenderer c) c1
      in case callbacks of
           ActivateThrows e \<Rightarrow> nextAttempt token rest (c1\<lparr>lastErrorClass := Some e\<rparr>)
         | DisposeThrows e \<Rightarrow> nextAttempt token rest (c2\<lparr>lastErrorClass := Some e\<rparr>)
         | RepaintThrows e \<Rightarrow> nextAttempt token rest (c2\<lparr>lastErrorClass := Some e\<rparr>)
         | CallbacksOk \<Rightarrow> c2\<lparr>recovery := Some (Settling token)\<rparr>)"

text \<open>The continuation of \<open>await this.create(backend)\<close>: an error, or a renderer of that kind.\<close>

definition createSettled :: "string option \<Rightarrow> callback_result \<Rightarrow> controller \<Rightarrow> controller" where
  "createSettled failure callbacks c =
     (case recovery c of
        Some (Creating token backend rest) \<Rightarrow>
          (case failure of
             Some e \<Rightarrow> nextAttempt token rest (c\<lparr>lastErrorClass := Some e\<rparr>)
           | None \<Rightarrow>
               (let next = \<lparr>rendererId = createdCount c, rendererKind = backend\<rparr>;
                    c' = c\<lparr>createdCount := createdCount c + 1\<rparr>
                in if token \<noteq> recoveryToken c' \<or> stateValue c' = Disposed
                   then (disposeRenderer (rendererId next) c')\<lparr>recovery := Some (Settling token)\<rparr>
                   else activate next callbacks token rest c'))
      | _ \<Rightarrow> c)"

definition recoveryFinally :: "controller \<Rightarrow> controller" where
  "recoveryFinally c =
     (case recovery c of
        Some (Settling token) \<Rightarrow> if token = recoveryToken c then c\<lparr>recovery := None\<rparr> else c
      | _ \<Rightarrow> c)"

definition disposeController :: "controller \<Rightarrow> controller" where
  "disposeController c =
     (if stateValue c = Disposed then c
      else
        let active = activeRenderer c;
            c' = c\<lparr>stateValue := Disposed, recoveryToken := recoveryToken c + 1, activeRenderer := None\<rparr>
        in case active of None \<Rightarrow> c' | Some r \<Rightarrow> disposeRenderer (rendererId r) (removeContextListeners active c'))"

text \<open>
  A drawing operation and what the renderer does: \<open>None\<close> succeeds, \<open>Some e\<close> throws. \<open>clear\<close>, \<open>resize\<close> and \<open>render\<close>
  need a ready controller; \<open>setFont\<close>, \<open>capturePixels\<close> and \<open>trimIdle\<close> only one that is not disposed.
\<close>

definition runRenderer :: "string \<Rightarrow> string option \<Rightarrow> controller \<Rightarrow> bool \<times> controller" where
  "runRenderer operation failure c =
     (if activeRenderer c = None \<or> stateValue c \<noteq> Ready \<and> stateValue c \<noteq> Fallback then (False, c)
      else case failure of None \<Rightarrow> (True, c) | Some e \<Rightarrow> (False, requestRecovery operation (Some e) c))"

definition runUnlessDisposed :: "string \<Rightarrow> string option \<Rightarrow> controller \<Rightarrow> bool \<times> controller" where
  "runUnlessDisposed operation failure c =
     (if activeRenderer c = None \<or> stateValue c = Disposed then (False, c)
      else case failure of None \<Rightarrow> (True, c) | Some e \<Rightarrow> (False, requestRecovery operation (Some e) c))"

definition onContextLost :: "controller \<Rightarrow> controller" where
  "onContextLost c = requestRecovery ''context-lost'' None c"

definition onContextRestored :: "controller \<Rightarrow> controller" where
  "onContextRestored c = (if stateValue c = Recovering then requestRecovery ''context-restored'' None c else c)"

datatype controller_event =
  Draw string "string option" | Maintain string "string option" | LateFailure string string
| ContextLost | ContextRestored | CreateSettled "string option" callback_result | RecoveryFinally | DisposeController

text \<open>A late failure is that of a pending \<open>setFont\<close> or \<open>capturePixels\<close>.\<close>

fun controllerStep :: "controller_event \<Rightarrow> controller \<Rightarrow> controller" where
  "controllerStep (Draw operation failure) c = snd (runRenderer operation failure c)"
| "controllerStep (Maintain operation failure) c = snd (runUnlessDisposed operation failure c)"
| "controllerStep (LateFailure operation e) c = requestRecovery operation (Some e) c"
| "controllerStep ContextLost c = onContextLost c"
| "controllerStep ContextRestored c = onContextRestored c"
| "controllerStep (CreateSettled failure callbacks) c = createSettled failure callbacks c"
| "controllerStep RecoveryFinally c = recoveryFinally c"
| "controllerStep DisposeController c = disposeController c"

section \<open>The invariant\<close>

definition owned :: "controller \<Rightarrow> nat list" where
  "owned c = (case activeRenderer c of None \<Rightarrow> [] | Some r \<Rightarrow> [rendererId r])"

text \<open>The renderers lost by an activation callback that throws: neither active nor disposed.\<close>

definition leaked :: "controller \<Rightarrow> nat set" where
  "leaked c = {i. i < createdCount c \<and> i \<notin> set (disposedIds c) \<and> i \<notin> set (owned c)}"

definition creating :: "controller \<Rightarrow> nat" where
  "creating c = (case recovery c of Some (Creating _ _ _) \<Rightarrow> 1 | _ \<Rightarrow> 0)"

fun phase_ok :: "recovery_phase option \<Rightarrow> controller \<Rightarrow> bool" where
  "phase_ok None c = (stateValue c \<noteq> Recovering)"
| "phase_ok (Some (Creating token b rest)) c =
     (token \<le> recoveryToken c \<and> (token \<noteq> recoveryToken c \<longleftrightarrow> stateValue c = Disposed) \<and> stateValue c \<noteq> Unavailable \<and>
      rest = (if b = WebGl2 then [Canvas2d] else []))"
| "phase_ok (Some (Settling token)) c =
     (token \<le> recoveryToken c \<and> (token \<noteq> recoveryToken c \<longleftrightarrow> stateValue c = Disposed) \<and> stateValue c \<noteq> Recovering)"

text \<open>Everything but the phase.\<close>

definition resources_ok :: "controller \<Rightarrow> bool" where
  "resources_ok c \<longleftrightarrow> webglAttempts c \<le> 1 \<and> canvasAttempts c \<le> 1 \<and> stateValue c \<noteq> Initializing
     \<and> (stateValue c = Disposed \<longleftrightarrow> activeRenderer c = None) \<and> (stateValue c = Fallback \<longrightarrow> forcedFallback c)
     \<and> distinct (owned c @ disposedIds c) \<and> set (owned c @ disposedIds c) \<subseteq> {..<createdCount c}
     \<and> listening c = (case activeRenderer c of Some r \<Rightarrow> (if rendererKind r = WebGl2 then [rendererId r] else []) | None \<Rightarrow> [])"

definition controller_ok :: "controller \<Rightarrow> bool" where
  "controller_ok c \<longleftrightarrow> resources_ok c \<and> phase_ok (recovery c) c \<and> createdCount c + creating c \<le> 1 + webglAttempts c + canvasAttempts c"

lemma newController_ok: "controller_ok (newController kind)"
  by (simp add: controller_ok_def resources_ok_def creating_def newController_def installContextListeners_def owned_def)

text \<open>The attempts that can be left in a recovery.\<close>

definition tail_of_attempts :: "backend list \<Rightarrow> bool" where
  "tail_of_attempts bs \<longleftrightarrow> bs = [] \<or> bs = [Canvas2d] \<or> bs = [WebGl2, Canvas2d]"

lemma resources_update:
  assumes "resources_ok c" "w \<le> 1" "k \<le> 1" "forcedFallback c \<longrightarrow> f"
  shows "resources_ok (c\<lparr>webglAttempts := w, canvasAttempts := k, forcedFallback := f, recovery := r\<rparr>)"
  using assms by (simp add: resources_ok_def owned_def)

lemma attempt_ok:
  assumes "resources_ok c" "createdCount c \<le> 1 + webglAttempts c + canvasAttempts c" "token \<le> recoveryToken c"
    "token \<noteq> recoveryToken c \<longleftrightarrow> stateValue c = Disposed" "stateValue c \<noteq> Unavailable"
  shows "webglAttempts c = 0 \<Longrightarrow> controller_ok (c\<lparr>webglAttempts := webglAttempts c + 1, recovery := Some (Creating token WebGl2 [Canvas2d])\<rparr>)"
    and "canvasAttempts c = 0 \<Longrightarrow> controller_ok (c\<lparr>canvasAttempts := canvasAttempts c + 1,
      forcedFallback := (forcedFallback c \<or> activeKind c = Some WebGl2), recovery := Some (Creating token Canvas2d [])\<rparr>)"
    and "controller_ok (nextAttempt token [] c)"
proof -
  have w: "canvasAttempts c \<le> 1" "webglAttempts c \<le> 1" using assms(1) by (simp_all add: resources_ok_def)
  show "controller_ok (c\<lparr>webglAttempts := webglAttempts c + 1, recovery := Some (Creating token WebGl2 [Canvas2d])\<rparr>)" if "webglAttempts c = 0"
    using resources_update [OF assms(1), of 1 "canvasAttempts c" "forcedFallback c"] w that assms(2-5)
    by (simp add: controller_ok_def creating_def)
  show "controller_ok (c\<lparr>canvasAttempts := canvasAttempts c + 1,
      forcedFallback := (forcedFallback c \<or> activeKind c = Some WebGl2), recovery := Some (Creating token Canvas2d [])\<rparr>)" if "canvasAttempts c = 0"
    using resources_update [OF assms(1), of "webglAttempts c" 1 "forcedFallback c \<or> activeKind c = Some WebGl2"] w that assms(2-5)
    by (simp add: controller_ok_def creating_def)
  have "resources_ok (c\<lparr>stateValue := Unavailable, recovery := Some (Settling token)\<rparr>)" if "stateValue c \<noteq> Disposed"
    using assms(1) that by (simp add: resources_ok_def owned_def)
  moreover have "resources_ok (c\<lparr>recovery := Some (Settling token)\<rparr>)"
    using assms(1) by (simp add: resources_ok_def owned_def)
  ultimately show "controller_ok (nextAttempt token [] c)"
    using assms(2-5) by (auto simp: controller_ok_def creating_def Let_def)
qed

lemma nextAttempt_ok:
  assumes "resources_ok c" "createdCount c \<le> 1 + webglAttempts c + canvasAttempts c" "token \<le> recoveryToken c"
    "token \<noteq> recoveryToken c \<longleftrightarrow> stateValue c = Disposed" "stateValue c \<noteq> Unavailable" "tail_of_attempts bs"
  shows "controller_ok (nextAttempt token bs c)"
proof -
  have canvas: "controller_ok (nextAttempt token [Canvas2d] c)"
    using attempt_ok(2, 3) [OF assms(1-5)] by (cases "canvasAttempts c = 0") simp_all
  then have "controller_ok (nextAttempt token [WebGl2, Canvas2d] c)"
    using attempt_ok(1) [OF assms(1-5)] by (cases "webglAttempts c = 0") simp_all
  then show ?thesis using canvas attempt_ok(3) [OF assms(1-5)] assms(6) unfolding tail_of_attempts_def by blast
qed


lemma requestRecovery_ok:
  assumes "controller_ok c"
  shows "controller_ok (requestRecovery reason e c)"
proof (cases "stateValue c = Disposed \<or> stateValue c = Unavailable \<or> recovery c \<noteq> None")
  case True
  then show ?thesis using assms by (auto simp: requestRecovery_def)
next
  case False
  let ?w = "activeKind c = Some WebGl2"
  let ?p = "if ?w \<and> webglAttempts c = 0 then WebGl2 else Canvas2d"
  let ?c = "c\<lparr>lastErrorClass := e, fallbackReason := Some reason, stateValue := Recovering, recoveryCount := recoveryCount c + 1,
    recoveryToken := recoveryToken c + 1, forcedFallback := (forcedFallback c \<or> ?w \<and> ?p = Canvas2d)\<rparr>"
  have "resources_ok ?c" using assms False by (simp add: controller_ok_def resources_ok_def owned_def)
  then have "controller_ok (nextAttempt (recoveryToken c + 1) (recoveryAttempts ?p) ?c)"
    by (rule nextAttempt_ok) (use assms False in \<open>auto simp: controller_ok_def creating_def tail_of_attempts_def recoveryAttempts_def\<close>)
  then show ?thesis using False unfolding requestRecovery_def Let_def by simp
qed


lemma installNext_simps [simp]:
  "createdCount (installNext next c) = createdCount c" "webglAttempts (installNext next c) = webglAttempts c"
  "canvasAttempts (installNext next c) = canvasAttempts c" "recoveryToken (installNext next c) = recoveryToken c"
  "disposedIds (installNext next c) = disposedIds c" "activeRenderer (installNext next c) = Some next"
  "stateValue (installNext next c) = (if forcedFallback c then Fallback else Ready)"
  "forcedFallback (installNext next c) = forcedFallback c" "recovery (installNext next c) = recovery c"
  by (cases "activeRenderer c"; simp add: installNext_def installContextListeners_def Let_def)+

lemma disposeRenderer_simps [simp]:
  "createdCount (disposeRenderer i c) = createdCount c" "webglAttempts (disposeRenderer i c) = webglAttempts c"
  "canvasAttempts (disposeRenderer i c) = canvasAttempts c" "recoveryToken (disposeRenderer i c) = recoveryToken c"
  "disposedIds (disposeRenderer i c) = disposedIds c @ [i]" "activeRenderer (disposeRenderer i c) = activeRenderer c"
  "stateValue (disposeRenderer i c) = stateValue c" "forcedFallback (disposeRenderer i c) = forcedFallback c"
  "recovery (disposeRenderer i c) = recovery c" "listening (disposeRenderer i c) = listening c"
  by (simp_all add: disposeRenderer_def)

lemma installNext_listening:
  assumes "resources_ok c" "activeRenderer c = Some p"
  shows "listening (installNext next c) = (if rendererKind next = WebGl2 then [rendererId next] else [])"
proof -
  have "listening c = (if rendererKind p = WebGl2 then [rendererId p] else [])" using assms by (simp add: resources_ok_def)
  then show ?thesis by (simp add: installNext_def installContextListeners_def Let_def assms(2))
qed

lemma resources_cong:
  assumes "resources_ok c" "webglAttempts d = webglAttempts c" "canvasAttempts d = canvasAttempts c" "stateValue d = stateValue c"
    "activeRenderer d = activeRenderer c" "forcedFallback d = forcedFallback c" "disposedIds d = disposedIds c"
    "createdCount d = createdCount c" "listening d = listening c"
  shows "resources_ok d"
  using assms by (simp add: resources_ok_def owned_def)

lemma createdCount_ok:
  assumes "resources_ok c"
  shows "resources_ok (c\<lparr>createdCount := Suc (createdCount c)\<rparr>)"
    "createdCount c \<notin> set (disposedIds c)" "createdCount c \<notin> set (owned c)"
  using assms by (auto simp: resources_ok_def owned_def)

text \<open>The exchange keeps the resources in order, with the old renderer still to be disposed of and without it.\<close>

lemma installNext_ok:
  assumes "resources_ok c" "activeRenderer c = Some p" "i \<notin> set (disposedIds c)" "i \<noteq> rendererId p" "i < createdCount c"
  shows "resources_ok (installNext \<lparr>rendererId = i, rendererKind = b\<rparr> c)"
    "resources_ok (disposeRenderer (rendererId p) (installNext \<lparr>rendererId = i, rendererKind = b\<rparr> c))"
proof -
  have "webglAttempts c \<le> 1" "canvasAttempts c \<le> 1" "distinct (disposedIds c)" "rendererId p \<notin> set (disposedIds c)"
    "set (disposedIds c) \<subseteq> {..<createdCount c}" "rendererId p < createdCount c"
    using assms(1, 2) by (simp_all add: resources_ok_def owned_def)
  then show "resources_ok (installNext \<lparr>rendererId = i, rendererKind = b\<rparr> c)"
    "resources_ok (disposeRenderer (rendererId p) (installNext \<lparr>rendererId = i, rendererKind = b\<rparr> c))"
    using assms(3-5) installNext_listening [OF assms(1, 2)] by (simp_all add: resources_ok_def owned_def)
qed

lemma failedAttempt_ok:
  assumes "resources_ok c" "createdCount c \<le> 1 + webglAttempts c + canvasAttempts c" "token \<le> recoveryToken c"
    "token \<noteq> recoveryToken c \<longleftrightarrow> stateValue c = Disposed" "stateValue c \<noteq> Unavailable" "tail_of_attempts bs"
  shows "controller_ok (nextAttempt token bs (c\<lparr>lastErrorClass := e\<rparr>))"
  by (rule nextAttempt_ok) (use assms(2-6) resources_cong [OF assms(1), of "c\<lparr>lastErrorClass := e\<rparr>"] in simp_all)

lemma activate_ok:
  assumes "resources_ok c" "activeRenderer c = Some p" "i \<notin> set (disposedIds c)" "i \<noteq> rendererId p" "i < createdCount c"
    "createdCount c \<le> 1 + webglAttempts c + canvasAttempts c" "token = recoveryToken c" "tail_of_attempts rest"
  shows "controller_ok (activate \<lparr>rendererId = i, rendererKind = b\<rparr> callbacks token rest c)"
proof -
  let ?c1 = "installNext \<lparr>rendererId = i, rendererKind = b\<rparr> c"
  let ?c2 = "disposeRenderer (rendererId p) ?c1"
  note r = installNext_ok [OF assms(1-5), of b]
  have thrown: "controller_ok (nextAttempt token rest (?c1\<lparr>lastErrorClass := e\<rparr>))"
    "controller_ok (nextAttempt token rest (?c2\<lparr>lastErrorClass := e\<rparr>))" for e
    using failedAttempt_ok [OF r(1), of token rest e] failedAttempt_ok [OF r(2), of token rest e] assms(6-8) by simp_all
  have "controller_ok (?c2\<lparr>recovery := Some (Settling token)\<rparr>)"
    using resources_cong [OF r(2), of "?c2\<lparr>recovery := Some (Settling token)\<rparr>"] assms(6, 7)
    by (simp add: controller_ok_def creating_def)
  then show ?thesis using thrown by (simp add: activate_def Let_def assms(2) split: callback_result.split)
qed

lemma createSettled_ok:
  assumes "controller_ok c"
  shows "controller_ok (createSettled failure callbacks c)"
proof (cases "\<exists>token b rest. recovery c = Some (Creating token b rest)")
  case True
  then obtain token b rest where rec: "recovery c = Some (Creating token b rest)" by blast
  have c: "resources_ok c" "token \<le> recoveryToken c" "token \<noteq> recoveryToken c \<longleftrightarrow> stateValue c = Disposed" "stateValue c \<noteq> Unavailable"
    "tail_of_attempts rest" "Suc (createdCount c) \<le> 1 + webglAttempts c + canvasAttempts c"
    using assms rec by (auto simp: controller_ok_def creating_def tail_of_attempts_def)
  note count = createdCount_ok [OF c(1)]
  let ?c = "c\<lparr>createdCount := Suc (createdCount c)\<rparr>"
  consider (failed) e where "failure = Some e" | (late) "failure = None" "stateValue c = Disposed" | (ok) "failure = None" "stateValue c \<noteq> Disposed"
    by (cases failure) auto
  then show ?thesis
  proof cases
    case failed
    have "controller_ok (nextAttempt token rest (c\<lparr>lastErrorClass := Some e\<rparr>))"
      by (rule failedAttempt_ok [OF c(1) _ c(2-5)]) (use c(6) in simp)
    then show ?thesis by (simp add: createSettled_def rec failed)
  next
    case late
    then have "activeRenderer c = None" using c(1) by (simp add: resources_ok_def)
    then have "resources_ok ((disposeRenderer (createdCount c) ?c)\<lparr>recovery := Some (Settling token)\<rparr>)"
      using count c(1) late by (simp add: resources_ok_def owned_def)
    then show ?thesis using late c by (simp add: createSettled_def rec controller_ok_def creating_def Let_def)
  next
    case ok
    then obtain p where p: "activeRenderer c = Some p" using c(1) by (auto simp: resources_ok_def)
    have "controller_ok (activate \<lparr>rendererId = createdCount c, rendererKind = b\<rparr> callbacks token rest ?c)"
      by (rule activate_ok [OF count(1)]) (use p count c ok in \<open>simp_all add: owned_def\<close>)
    then show ?thesis using ok c(3) by (simp add: createSettled_def rec Let_def)
  qed
next
  case False
  then have "createSettled failure callbacks c = c" by (auto simp: createSettled_def split: option.split recovery_phase.split)
  then show ?thesis using assms by simp
qed

lemma recoveryFinally_ok: "controller_ok c \<Longrightarrow> controller_ok (recoveryFinally c)"
  using resources_cong [of c "c\<lparr>recovery := None\<rparr>"]
  by (auto simp: recoveryFinally_def controller_ok_def creating_def split: option.splits recovery_phase.splits)

lemma disposeController_ok:
  assumes "controller_ok c"
  shows "controller_ok (disposeController c)"
proof (cases "activeRenderer c")
  case None
  then show ?thesis using assms by (simp add: disposeController_def controller_ok_def resources_ok_def)
next
  case (Some p)
  have c: "stateValue c \<noteq> Disposed" "listening c = (if rendererKind p = WebGl2 then [rendererId p] else [])"
    "distinct (rendererId p # disposedIds c)" "set (rendererId p # disposedIds c) \<subseteq> {..<createdCount c}"
    "webglAttempts c \<le> 1" "canvasAttempts c \<le> 1" "phase_ok (recovery c) c"
    "createdCount c + creating c \<le> 1 + webglAttempts c + canvasAttempts c"
    using assms Some by (auto simp: controller_ok_def resources_ok_def owned_def)
  let ?d = "disposeRenderer (rendererId p) (removeContextListeners (Some p)
    (c\<lparr>stateValue := Disposed, recoveryToken := Suc (recoveryToken c), activeRenderer := None\<rparr>))"
  have d: "listening ?d = []" "stateValue ?d = Disposed" "activeRenderer ?d = None" "disposedIds ?d = disposedIds c @ [rendererId p]"
    "createdCount ?d = createdCount c" "webglAttempts ?d = webglAttempts c" "canvasAttempts ?d = canvasAttempts c"
    "recovery ?d = recovery c" "recoveryToken ?d = Suc (recoveryToken c)"
    using c(2) by simp_all
  have "resources_ok ?d" unfolding resources_ok_def owned_def d using c(3-6) by simp
  moreover have "phase_ok (recovery ?d) ?d"
    using c(1, 7) d(2, 9) unfolding d(8) by (cases "(recovery c, c)" rule: phase_ok.cases) auto
  ultimately have "controller_ok ?d"
    using c(8) d by (simp add: controller_ok_def creating_def del: removeContextListeners.simps)
  then show ?thesis using c(1) Some by (simp add: disposeController_def Let_def)
qed

lemma controllerStep_ok: "controller_ok c \<Longrightarrow> controller_ok (controllerStep e c)"
  by (cases e) (auto simp: runRenderer_def runUnlessDisposed_def onContextLost_def onContextRestored_def requestRecovery_ok
      createSettled_ok recoveryFinally_ok disposeController_ok split: option.split)

interpretation controller_machine: event_machine controllerStep controller_ok
  by unfold_locales (rule controllerStep_ok)

section \<open>No renderer is lost\<close>

lemma leaked_cong:
  "createdCount d = createdCount c \<Longrightarrow> disposedIds d = disposedIds c \<Longrightarrow> activeRenderer d = activeRenderer c \<Longrightarrow> leaked d = leaked c"
  by (simp add: leaked_def owned_def)










lemmas controller_eval = newController_def installContextListeners_def onContextLost_def requestRecovery_def activeKind_def
  recoveryAttempts_def createSettled_def activate_def installNext_def recoveryFinally_def disposeController_def
  disposeRenderer_def runRenderer_def Let_def


section \<open>A recovery ends\<close>

definition settled_state :: "controller \<Rightarrow> bool" where
  "settled_state c \<longleftrightarrow> stateValue c = Disposed \<or> recovery c = None \<and> stateValue c \<in> {Ready, Fallback, Unavailable}"

lemma nextAttempt_phase:
  "recovery (nextAttempt token [] c) = Some (Settling token)"
  "recovery (nextAttempt token [Canvas2d] c) \<in> {Some (Settling token), Some (Creating token Canvas2d [])}"
  by (simp_all add: Let_def)

lemma activate_phase:
  "recovery (activate next cb token rest c) = Some (Settling token) \<or> (\<exists>d. recovery (activate next cb token rest c) = recovery (nextAttempt token rest d))"
  by (cases cb) (auto simp: activate_def Let_def)

lemma createSettled_phase:
  assumes "recovery c = Some (Creating token b rest)"
  shows "recovery (createSettled f cb c) = Some (Settling token) \<or> (\<exists>d. recovery (createSettled f cb c) = recovery (nextAttempt token rest d))"
  by (cases f) (auto simp: createSettled_def assms Let_def activate_phase)

lemma createSettled_idle: "recovery c = None \<or> recovery c = Some (Settling t) \<Longrightarrow> createSettled f cb c = c"
  by (auto simp: createSettled_def)

lemma canvas_settles: "recovery c = Some (Creating token Canvas2d []) \<Longrightarrow> recovery (createSettled f cb c) = Some (Settling token)"
  using createSettled_phase [of c token Canvas2d "[]" f cb] by (auto simp: nextAttempt_phase(1) simp del: nextAttempt.simps)

lemma creations_settle:
  assumes "controller_ok c"
  shows "recovery (createSettled f' cb' (createSettled f cb c)) = None \<or> (\<exists>t. recovery (createSettled f' cb' (createSettled f cb c)) = Some (Settling t))"
proof (cases "recovery c" rule: option.exhaust [case_names Idle Busy])
  case Idle
  then show ?thesis by (simp add: createSettled_idle)
next
  case (Busy r)
  show ?thesis
  proof (cases r)
    case (Settling t)
    then show ?thesis using Busy createSettled_idle [of c t] by simp
  next
    case (Creating token b rest)
    then have rest: "rest = [] \<or> rest = [Canvas2d]" using assms Busy by (auto simp: controller_ok_def)
    have "recovery (createSettled f cb c) \<in> {Some (Settling token), Some (Creating token Canvas2d [])}"
      using createSettled_phase [OF Busy [unfolded Creating], of f cb] rest nextAttempt_phase by (metis insert_iff)
    then show ?thesis using createSettled_idle [of "createSettled f cb c" token f' cb'] canvas_settles [of "createSettled f cb c" token f' cb'] by auto
  qed
qed

text \<open>
  C17: a recovery ends. From any state the controller can reach, once the creations in flight have settled, at most two of
  them, successfully or not, and the promise's \<open>finally\<close> has run, the controller is ready, on the fallback renderer or
  unavailable, with no recovery under way, unless it is disposed of.
\<close>

theorem recovery_ends:
  "settled_state (fold controllerStep (es @ [CreateSettled f cb, CreateSettled f' cb', RecoveryFinally]) (newController kind))"
proof -
  let ?c = "fold controllerStep es (newController kind)"
  let ?d = "createSettled f' cb' (createSettled f cb ?c)"
  have c: "controller_ok ?c" by (rule controller_machine.run_inv [OF newController_ok])
  have d: "controller_ok ?d" by (intro createSettled_ok c)
  then have e: "controller_ok (recoveryFinally ?d)" by (rule recoveryFinally_ok)
  from creations_settle [OF c, of f' cb' f cb] have "recovery (recoveryFinally ?d) = None \<or> stateValue ?d = Disposed"
    using d by (auto simp: recoveryFinally_def controller_ok_def)
  moreover have "stateValue (recoveryFinally ?d) = stateValue ?d" by (simp add: recoveryFinally_def split: option.split recovery_phase.split)
  ultimately have "settled_state (recoveryFinally ?d)"
    using e by (cases "stateValue (recoveryFinally ?d)") (auto simp: settled_state_def controller_ok_def resources_ok_def)
  then show ?thesis by simp
qed

text \<open>The handler of a restored context never has an effect: while the state is recovering a recovery is under way.\<close>

lemma context_restored_ignored: "controller_ok c \<Longrightarrow> onContextRestored c = c"
  by (cases "recovery c") (auto simp: onContextRestored_def requestRecovery_def controller_ok_def)

text \<open>A throwing activation callback: the old renderer is neither active nor disposed of, and the controller gives up although it has a renderer.\<close>

lemma activation_failure:
  "let c = fold controllerStep [ContextLost, CreateSettled None (ActivateThrows ''Error''), CreateSettled (Some ''Error'') CallbacksOk] (newController WebGl2)
   in leaked c = {0} \<and> stateValue c = Unavailable \<and> activeRenderer c = Some \<lparr>rendererId = 1, rendererKind = WebGl2\<rparr>"
  by (auto simp: controller_eval leaked_def owned_def)

end
