(* ===== verification/ColdRows.thy ===== *)
theory ColdRows
  imports Utf8
begin

text \<open>
  Archived terminal rows, \<open>packages/ghostty-react/src/cold-row-provider.ts\<close>: a bounded cache of immutable pages with
  requests in flight. The source is asynchronous: starting a request and its settling are separate steps, numbered by
  the request; a request keeps what the continuation captured. The NUL-joined keys are tuples, the length of a page's
  metadata as JSON is a parameter. The lemmas show the accounting of the cache and that only current pages are handed out.
\<close>

section \<open>Data\<close>

record cold_row =
  coldRowId :: js_text
  logicalRowId :: js_text
  wrapOffset :: int
  coldText :: js_text
  sourceFirstOffset :: int
  sourceLastOffset :: int

record cold_page =
  pageEpoch :: string
  pageIndex :: string
  coldRows :: "cold_row list"
  previousCursor :: "string option"
  nextCursor :: "string option"
  totalRows :: int
  retainedFirstRowId :: "string option"
  retainedLastRowId :: "string option"

record search_hit =
  hitRowId :: js_text
  hitLogicalRowId :: js_text
  startColumn :: js_num
  endColumn :: js_num

record search_page =
  hitsEpoch :: string
  hitsIndex :: string
  hitList :: "search_hit list"
  previousHits :: "string option"
  nextHits :: "string option"
  totalHits :: int

datatype cold_direction = Older | Newer

record rows_request =
  rowsCursor :: "string option"
  rowsDirection :: cold_direction
  rowLimit :: int
  byteLimit :: int

datatype page_key = PageKey string string rows_request

text \<open>The key joins the cursor with its absence as the empty string.\<close>

definition rowPageKey :: "string \<Rightarrow> string option \<Rightarrow> rows_request \<Rightarrow> page_key" where
  "rowPageKey epoch index r = PageKey epoch (coalesce index []) (r\<lparr>rowsCursor := Some (coalesce (rowsCursor r) [])\<rparr>)"

record cached_page =
  cachedPage :: cold_page
  cachedBytes :: int

text \<open>A request in flight and what its continuation captured.\<close>

datatype cold_request = RowsInFlight rows_request page_key nat | SearchInFlight nat nat int

datatype cold_error =
  EpochRequired | OptionOutOfRange | ProviderDisposed | QueueFull | SourceFailed string | PageTooLong | InvalidRowIds
| InvalidFences | PageTooLarge | StaleRequest | EpochChanged | BadQuery | StaleSearch | ResultTooLong | InvalidCellRange

record cold_provider =
  providerEpoch :: string
  indexGeneration :: "string option"
  coldPages :: "(page_key, cached_page) jsmap"
  cacheBytes :: int
  requestGeneration :: nat
  controllers :: "nat list"
  pendingPages :: "(page_key, nat) jsmap"
  providerDisposed :: bool
  searchKey :: "(bool \<times> js_text) option"
  searchGeneration :: nat
  searchControllers :: "nat list"
  maximumPages :: int
  maximumBytes :: int
  inFlight :: "(nat, cold_request) jsmap"
  nextRequest :: nat

section \<open>Operations\<close>

definition maximumRequests :: nat where "maximumRequests = 16"

definition boundedInteger :: "js_num \<Rightarrow> int \<Rightarrow> int \<Rightarrow> int option" where
  "boundedInteger v minimum maximum =
     (if \<not> isSafeInteger v \<or> finValue v < of_int minimum \<or> of_int maximum < finValue v then None else Some \<lfloor>finValue v\<rfloor>)"

definition newProvider :: "string \<Rightarrow> js_num option \<Rightarrow> js_num option \<Rightarrow> cold_error + cold_provider" where
  "newProvider epoch pages bytes =
     (if epoch = [] then Inl EpochRequired
      else case boundedInteger (coalesce pages (Fin 8)) 1 32 of
        None \<Rightarrow> Inl OptionOutOfRange
      | Some mp \<Rightarrow>
          (case boundedInteger (coalesce bytes (Fin (2 * 1024 * 1024))) (64 * 1024) (16 * 1024 * 1024) of
             None \<Rightarrow> Inl OptionOutOfRange
           | Some mb \<Rightarrow> Inr
               \<lparr>providerEpoch = epoch, indexGeneration = None, coldPages = [], cacheBytes = 0, requestGeneration = 0,
                controllers = [], pendingPages = [], providerDisposed = False, searchKey = None, searchGeneration = 0,
                searchControllers = [], maximumPages = mp, maximumBytes = mb, inFlight = [], nextRequest = 0\<rparr>))"

definition invalidate :: "bool \<Rightarrow> cold_provider \<Rightarrow> cold_provider" where
  "invalidate clear s =
     (let s' = s\<lparr>requestGeneration := requestGeneration s + 1, controllers := [], searchControllers := [], pendingPages := []\<rparr>
      in if \<not> clear then s' else s'\<lparr>coldPages := [], cacheBytes := 0\<rparr>)"

definition setEpoch :: "string \<Rightarrow> cold_provider \<Rightarrow> cold_error option \<times> cold_provider" where
  "setEpoch epoch s =
     (if epoch = [] then (Some EpochRequired, s)
      else if epoch = providerEpoch s then (None, s)
      else (None, invalidate True (s\<lparr>providerEpoch := epoch, indexGeneration := None\<rparr>)))"

definition beginRequest :: "cold_provider \<Rightarrow> (cold_error + nat) \<times> cold_provider" where
  "beginRequest s =
     (if providerDisposed s then (Inl ProviderDisposed, s)
      else if maximumRequests \<le> length (controllers s) then (Inl QueueFull, s)
      else (Inr (nextRequest s), s\<lparr>controllers := controllers s @ [nextRequest s], nextRequest := nextRequest s + 1\<rparr>))"

text \<open>An error, a cached page, the request whose promise is shared, or the request started.\<close>

datatype cold_output = Refused cold_error | GotPage cold_page | GotHits search_page | Joined nat | Started nat | NoOutput

record rows_options =
  optCursor :: "string option"
  optDirection :: "cold_direction option"
  optRowLimit :: "js_num option"
  optByteLimit :: "js_num option"

definition rowsRequest :: "rows_options \<Rightarrow> rows_request option" where
  "rowsRequest opts =
     (case boundedInteger (coalesce (optRowLimit opts) (Fin 256)) 1 512 of
        None \<Rightarrow> None
      | Some rl \<Rightarrow>
          map_option (\<lambda>bl. \<lparr>rowsCursor = optCursor opts, rowsDirection = coalesce (optDirection opts) Older, rowLimit = rl, byteLimit = bl\<rparr>)
            (boundedInteger (coalesce (optByteLimit opts) (Fin (256 * 1024))) 1 (1024 * 1024)))"

definition readRows :: "rows_options \<Rightarrow> cold_provider \<Rightarrow> cold_output \<times> cold_provider" where
  "readRows opts s =
     (if providerDisposed s then (Refused ProviderDisposed, s)
      else case rowsRequest opts of
        None \<Rightarrow> (Refused OptionOutOfRange, s)
      | Some r \<Rightarrow>
          (let key = rowPageKey (providerEpoch s) (indexGeneration s) r in
           case jget (coldPages s) key of
             Some cached \<Rightarrow> (GotPage (cachedPage cached), s\<lparr>coldPages := jset key cached (jdelete key (coldPages s))\<rparr>)
           | None \<Rightarrow>
               (case jget (pendingPages s) key of
                  Some i \<Rightarrow> (Joined i, s)
                | None \<Rightarrow>
                    (case beginRequest s of
                       (Inl e, s') \<Rightarrow> (Refused e, s')
                     | (Inr i, s') \<Rightarrow>
                         (Started i, s'\<lparr>inFlight := jset i (RowsInFlight r key (requestGeneration s)) (inFlight s'),
                                        pendingPages := jset key i (pendingPages s')\<rparr>)))))"

text \<open>The checks row by row: the ids seen, the bytes and the last offset so far.\<close>

fun checkRows :: "js_text list \<Rightarrow> int \<Rightarrow> int \<Rightarrow> cold_row list \<Rightarrow> cold_error + int" where
  "checkRows ids bytes prev [] = Inr bytes"
| "checkRows ids bytes prev (r # rs) =
     (if coldRowId r = [] \<or> coldRowId r \<in> set ids then Inl InvalidRowIds
      else if sourceFirstOffset r < 1 \<or> sourceLastOffset r < sourceFirstOffset r \<or> sourceFirstOffset r \<le> prev then Inl InvalidFences
      else checkRows (coldRowId r # ids) (bytes + int (length (utf8Encode (coldText r)))) (sourceLastOffset r) rs)"

definition validateRows :: "cold_row list \<Rightarrow> int \<Rightarrow> int \<Rightarrow> cold_error option" where
  "validateRows rows rl bl =
     (if rl < int (length rows) then Some PageTooLong
      else case checkRows [] 0 0 rows of
        Inl e \<Rightarrow> Some e
      | Inr bytes \<Rightarrow> if bl < bytes then Some PageTooLarge else None)"

definition acceptVersion :: "string \<Rightarrow> string \<Rightarrow> nat \<Rightarrow> cold_provider \<Rightarrow> cold_error option \<times> cold_provider" where
  "acceptVersion epoch index gen s =
     (if gen \<noteq> requestGeneration s then (Some StaleRequest, s)
      else if epoch \<noteq> providerEpoch s then (Some EpochChanged, s)
      else (None, (if indexGeneration s \<noteq> None \<and> indexGeneration s \<noteq> Some index then invalidate True s else s)\<lparr>indexGeneration := Some index\<rparr>))"

fun evictPages :: "int \<Rightarrow> int \<Rightarrow> (page_key, cached_page) jsmap \<Rightarrow> int \<Rightarrow> (page_key, cached_page) jsmap \<times> int" where
  "evictPages mp mb [] bytes = ([], bytes)"
| "evictPages mp mb (e # es) bytes =
     (if mp < int (length (e # es)) \<or> mb < bytes then evictPages mp mb es (bytes - cachedBytes (snd e)) else (e # es, bytes))"

definition remember :: "page_key \<Rightarrow> cached_page \<Rightarrow> cold_provider \<Rightarrow> cold_provider" where
  "remember key entry s =
     (let before = cacheBytes s - (case jget (coldPages s) key of None \<Rightarrow> 0 | Some c \<Rightarrow> cachedBytes c);
          (pages, bytes) = evictPages (maximumPages s) (maximumBytes s) (jset key entry (coldPages s)) (before + cachedBytes entry)
      in s\<lparr>coldPages := pages, cacheBytes := bytes\<rparr>)"

definition pageBytes :: "(cold_page \<Rightarrow> nat) \<Rightarrow> cold_page \<Rightarrow> int" where
  "pageBytes metaLength page = 2 * int (metaLength page) +
     sum_list (map (\<lambda>r. 2 * int (unitsOf (coldText r) + unitsOf (coldRowId r) + unitsOf (logicalRowId r)) + 96) (coldRows page))"

text \<open>The continuation of a rows request, and its \<open>finally\<close> blocks.\<close>

definition acceptRows :: "(cold_page \<Rightarrow> nat) \<Rightarrow> rows_request \<Rightarrow> nat \<Rightarrow> cold_page \<Rightarrow> cold_provider \<Rightarrow> cold_output \<times> cold_provider" where
  "acceptRows metaLength r gen page s =
     (case validateRows (coldRows page) (rowLimit r) (byteLimit r) of
        Some e \<Rightarrow> (Refused e, s)
      | None \<Rightarrow>
          (case acceptVersion (pageEpoch page) (pageIndex page) gen s of
             (Some e, s') \<Rightarrow> (Refused e, s')
           | (None, s') \<Rightarrow>
               (let bytes = pageBytes metaLength page in
                (GotPage page,
                 if bytes \<le> maximumBytes s'
                 then remember (rowPageKey (providerEpoch s') (indexGeneration s') r) \<lparr>cachedPage = page, cachedBytes = bytes\<rparr> s'
                 else s'))))"

definition finishRequest :: "nat \<Rightarrow> cold_provider \<Rightarrow> cold_provider" where
  "finishRequest i s = s\<lparr>inFlight := jdelete i (inFlight s), controllers := removeAll i (controllers s)\<rparr>"

definition dropPendingPage :: "page_key \<Rightarrow> nat \<Rightarrow> cold_provider \<Rightarrow> cold_provider" where
  "dropPendingPage key i s = (if jget (pendingPages s) key = Some i then s\<lparr>pendingPages := jdelete key (pendingPages s)\<rparr> else s)"

definition rowsSettled :: "(cold_page \<Rightarrow> nat) \<Rightarrow> nat \<Rightarrow> string + cold_page \<Rightarrow> cold_provider \<Rightarrow> cold_output \<times> cold_provider" where
  "rowsSettled metaLength i outcome s =
     (case jget (inFlight s) i of
        Some (RowsInFlight r key gen) \<Rightarrow>
          (let (out, s') = (case outcome of Inl e \<Rightarrow> (Refused (SourceFailed e), s) | Inr page \<Rightarrow> acceptRows metaLength r gen page s)
           in (out, dropPendingPage key i (finishRequest i s')))
      | _ \<Rightarrow> (NoOutput, s))"

record search_options =
  searchQuery :: js_text
  caseSensitive :: "bool option"
  searchLimit :: "js_num option"

definition newSearchKey :: "bool \<times> js_text \<Rightarrow> cold_provider \<Rightarrow> cold_provider" where
  "newSearchKey key s =
     (if searchKey s = Some key then s
      else s\<lparr>searchKey := Some key, searchGeneration := searchGeneration s + 1,
             controllers := filter (\<lambda>i. i \<notin> set (searchControllers s)) (controllers s), searchControllers := []\<rparr>)"

definition startSearch :: "search_options \<Rightarrow> cold_provider \<Rightarrow> cold_output \<times> cold_provider" where
  "startSearch opts s =
     (if providerDisposed s then (Refused ProviderDisposed, s)
      else if searchQuery opts = [] \<or> 4096 < length (utf8Encode (searchQuery opts)) then (Refused BadQuery, s)
      else case boundedInteger (coalesce (searchLimit opts) (Fin 100)) 1 500 of
        None \<Rightarrow> (Refused OptionOutOfRange, s)
      | Some limit \<Rightarrow>
          (let s1 = newSearchKey (coalesce (caseSensitive opts) False, searchQuery opts) s in
           case beginRequest s1 of
             (Inl e, s2) \<Rightarrow> (Refused e, s2)
           | (Inr i, s2) \<Rightarrow>
               (Started i, s2\<lparr>searchControllers := searchControllers s2 @ [i],
                              inFlight := jset i (SearchInFlight (searchGeneration s2) (requestGeneration s2) limit) (inFlight s2)\<rparr>)))"

definition validHit :: "search_hit \<Rightarrow> bool" where
  "validHit h \<longleftrightarrow> isSafeInteger (startColumn h) \<and> isSafeInteger (endColumn h) \<and> 0 \<le> finValue (startColumn h)
     \<and> finValue (startColumn h) < finValue (endColumn h)"

definition acceptHits :: "nat \<Rightarrow> nat \<Rightarrow> int \<Rightarrow> search_page \<Rightarrow> cold_provider \<Rightarrow> cold_output \<times> cold_provider" where
  "acceptHits sgen gen limit page s =
     (if sgen \<noteq> searchGeneration s then (Refused StaleSearch, s)
      else if limit < int (length (hitList page)) then (Refused ResultTooLong, s)
      else if \<not> list_all validHit (hitList page) then (Refused InvalidCellRange, s)
      else case acceptVersion (hitsEpoch page) (hitsIndex page) gen s of
        (Some e, s') \<Rightarrow> (Refused e, s')
      | (None, s') \<Rightarrow> (GotHits page, s'))"

definition searchSettled :: "nat \<Rightarrow> string + search_page \<Rightarrow> cold_provider \<Rightarrow> cold_output \<times> cold_provider" where
  "searchSettled i outcome s =
     (case jget (inFlight s) i of
        Some (SearchInFlight sgen gen limit) \<Rightarrow>
          (let (out, s') = (case outcome of Inl e \<Rightarrow> (Refused (SourceFailed e), s) | Inr page \<Rightarrow> acceptHits sgen gen limit page s)
           in (out, (finishRequest i s')\<lparr>searchControllers := removeAll i (searchControllers s')\<rparr>))
      | _ \<Rightarrow> (NoOutput, s))"

definition cancelPending :: "cold_provider \<Rightarrow> cold_provider" where
  "cancelPending s = invalidate False s"

definition disposeProvider :: "cold_provider \<Rightarrow> cold_provider" where
  "disposeProvider s = invalidate True (s\<lparr>providerDisposed := True\<rparr>)"

datatype cold_op =
  SetEpoch string | ReadRows rows_options | RowsSettled nat "string + cold_page"
| Search search_options | SearchSettled nat "string + search_page" | CancelPending | DisposeProvider

fun coldStep :: "(cold_page \<Rightarrow> nat) \<Rightarrow> cold_op \<Rightarrow> cold_provider \<Rightarrow> cold_output \<times> cold_provider" where
  "coldStep ml (SetEpoch epoch) s = (case setEpoch epoch s of (Some e, s') \<Rightarrow> (Refused e, s') | (None, s') \<Rightarrow> (NoOutput, s'))"
| "coldStep ml (ReadRows opts) s = readRows opts s"
| "coldStep ml (RowsSettled i outcome) s = rowsSettled ml i outcome s"
| "coldStep ml (Search opts) s = startSearch opts s"
| "coldStep ml (SearchSettled i outcome) s = searchSettled i outcome s"
| "coldStep ml CancelPending s = (NoOutput, cancelPending s)"
| "coldStep ml DisposeProvider s = (NoOutput, disposeProvider s)"

section \<open>The cache\<close>

definition cacheOk :: "cold_provider \<Rightarrow> bool" where
  "cacheOk s \<longleftrightarrow> jwf (coldPages s) \<and> cacheBytes s = jsum cachedBytes (coldPages s)
     \<and> int (length (coldPages s)) \<le> maximumPages s \<and> cacheBytes s \<le> maximumBytes s \<and> 0 \<le> maximumPages s \<and> 0 \<le> maximumBytes s"

text \<open>What may be handed out for a request: a page of the current epoch and index that passed the checks of its bounds.\<close>

definition currentPage :: "cold_provider \<Rightarrow> rows_request \<Rightarrow> cold_page \<Rightarrow> bool" where
  "currentPage s r page \<longleftrightarrow> pageEpoch page = providerEpoch s \<and> indexGeneration s = Some (pageIndex page)
     \<and> validateRows (coldRows page) (rowLimit r) (byteLimit r) = None"

definition entriesOk :: "cold_provider \<Rightarrow> bool" where
  "entriesOk s \<longleftrightarrow> (\<forall>(key, e) \<in> set (coldPages s).
     \<exists>r. key = rowPageKey (providerEpoch s) (indexGeneration s) r \<and> currentPage s r (cachedPage e))"

lemma evictPages_suffix: "\<exists>dropped. es = dropped @ fst (evictPages mp mb es bytes)"
proof (induction mp mb es bytes rule: evictPages.induct)
  case (2 mp mb e es bytes)
  show ?case
  proof (cases "mp < int (length (e # es)) \<or> mb < bytes")
    case True
    from 2 [OF True] obtain dropped where "es = dropped @ fst (evictPages mp mb es (bytes - cachedBytes (snd e)))" by blast
    then have "e # es = (e # dropped) @ fst (evictPages mp mb (e # es) bytes)" using True by simp
    then show ?thesis by blast
  qed simp
qed simp

lemma evictPages_spec:
  "bytes = jsum cachedBytes es \<Longrightarrow> 0 \<le> mp \<Longrightarrow> 0 \<le> mb \<Longrightarrow>
     snd (evictPages mp mb es bytes) = jsum cachedBytes (fst (evictPages mp mb es bytes))
     \<and> int (length (fst (evictPages mp mb es bytes))) \<le> mp \<and> snd (evictPages mp mb es bytes) \<le> mb"
proof (induction mp mb es bytes rule: evictPages.induct)
  case (2 mp mb e es bytes)
  have "bytes - cachedBytes (snd e) = jsum cachedBytes es" using 2(2) by (simp add: jsum_def)
  then show ?case using 2 by (cases "mp < int (length (e # es)) \<or> mb < bytes") simp_all
qed simp

lemma remember_ok:
  assumes "cacheOk s"
  shows "cacheOk (remember key entry s)" "set (coldPages (remember key entry s)) \<subseteq> insert (key, entry) (set (coldPages s))"
proof -
  let ?pages = "jset key entry (coldPages s)"
  let ?bytes = "cacheBytes s - (case jget (coldPages s) key of None \<Rightarrow> 0 | Some c \<Rightarrow> cachedBytes c) + cachedBytes entry"
  let ?r = "evictPages (maximumPages s) (maximumBytes s) ?pages ?bytes"
  have r: "remember key entry s = s\<lparr>coldPages := fst ?r, cacheBytes := snd ?r\<rparr>"
    by (simp add: remember_def split: prod.split)
  have wf: "jwf ?pages" and b: "?bytes = jsum cachedBytes ?pages"
    using assms by (simp_all add: cacheOk_def jsum_jset split: option.split)
  obtain dropped where d: "?pages = dropped @ fst ?r" using evictPages_suffix by blast
  then have "jwf (fst ?r)" using wf by (metis distinct_append map_append)
  then show "cacheOk (remember key entry s)"
    using evictPages_spec [OF b, of "maximumPages s" "maximumBytes s"] assms by (simp add: r cacheOk_def)
  have "set (fst ?r) \<subseteq> set ?pages" by (subst d) auto
  moreover have "set ?pages \<subseteq> insert (key, entry) (set (coldPages s))"
  proof (rule subrelI)
    fix k e assume "(k, e) \<in> set ?pages"
    then have "jget ?pages k = Some e" using wf by (rule map_of_is_SomeI [rotated])
    then have "(if key = k then Some entry else jget (coldPages s) k) = Some e" by (simp only: jget_jset)
    then show "(k, e) \<in> insert (key, entry) (set (coldPages s))" by (auto split: if_splits dest: map_of_SomeD)
  qed
  ultimately show "set (coldPages (remember key entry s)) \<subseteq> insert (key, entry) (set (coldPages s))" by (auto simp: r)
qed

section \<open>Requests in flight\<close>

fun capturedGeneration :: "cold_request \<Rightarrow> nat" where
  "capturedGeneration (RowsInFlight r key g) = g"
| "capturedGeneration (SearchInFlight sg g limit) = g"

fun capturedSearch :: "cold_request \<Rightarrow> nat" where
  "capturedSearch (RowsInFlight r key g) = 0"
| "capturedSearch (SearchInFlight sg g limit) = sg"

text \<open>A request whose result may still be accepted.\<close>

fun live :: "cold_request \<Rightarrow> cold_provider \<Rightarrow> bool" where
  "live (RowsInFlight r key g) s = (g = requestGeneration s)"
| "live (SearchInFlight sg g limit) s = (g = requestGeneration s \<and> sg = searchGeneration s)"

fun flightOk :: "nat \<Rightarrow> cold_request \<Rightarrow> cold_provider \<Rightarrow> bool" where
  "flightOk i (RowsInFlight r key g) s = (i < nextRequest s \<and> g \<le> requestGeneration s \<and> i \<notin> set (searchControllers s)
     \<and> (g = requestGeneration s \<longrightarrow> i \<in> set (controllers s) \<and> \<not> providerDisposed s))"
| "flightOk i (SearchInFlight sg g limit) s = (i < nextRequest s \<and> g \<le> requestGeneration s \<and> sg \<le> searchGeneration s
     \<and> (g = requestGeneration s \<longrightarrow> \<not> providerDisposed s \<and> (sg = searchGeneration s \<longrightarrow> i \<in> set (controllers s))))"

definition requestsOk :: "cold_provider \<Rightarrow> bool" where
  "requestsOk s \<longleftrightarrow> length (controllers s) \<le> maximumRequests \<and> (\<forall>i \<in> set (controllers s) \<union> set (searchControllers s). i < nextRequest s)
     \<and> (\<forall>i r. jget (inFlight s) i = Some r \<longrightarrow> flightOk i r s)
     \<and> (\<forall>key i. jget (pendingPages s) key = Some i \<longrightarrow> (\<exists>r. jget (inFlight s) i = Some (RowsInFlight r key (requestGeneration s))))"

definition coldOk :: "cold_provider \<Rightarrow> bool" where
  "coldOk s \<longleftrightarrow> cacheOk s \<and> entriesOk s \<and> requestsOk s"

lemma newProvider_ok: "newProvider epoch pages bytes = Inr s \<Longrightarrow> coldOk s"
  by (auto simp: newProvider_def boundedInteger_def coldOk_def cacheOk_def entriesOk_def requestsOk_def le_floor_iff
      split: if_splits option.splits)

text \<open>Fencing: all that is in flight becomes stale.\<close>

definition numbered :: "cold_provider \<Rightarrow> bool" where
  "numbered s \<longleftrightarrow> (\<forall>i r. jget (inFlight s) i = Some r \<longrightarrow> i < nextRequest s \<and> capturedGeneration r \<le> requestGeneration s
     \<and> capturedSearch r \<le> searchGeneration s)"

lemma flightOk_numbered: "flightOk i r s \<Longrightarrow> i < nextRequest s \<and> capturedGeneration r \<le> requestGeneration s
    \<and> capturedSearch r \<le> searchGeneration s"
  by (cases r) simp_all

lemma flight_of: "requestsOk s \<Longrightarrow> jget (inFlight s) i = Some r \<Longrightarrow> flightOk i r s"
  unfolding requestsOk_def by blast

lemma requestsOk_numbered: "requestsOk s \<Longrightarrow> numbered s"
  unfolding requestsOk_def numbered_def using flightOk_numbered by blast

lemma invalidate_requests:
  assumes "numbered s"
  shows "requestsOk (invalidate clear s)"
proof -
  have "flightOk i r (invalidate clear s)" if "jget (inFlight s) i = Some r" for i r
    using assms that by (cases r) (force simp: numbered_def invalidate_def Let_def)+
  moreover have "inFlight (invalidate clear s) = inFlight s" "controllers (invalidate clear s) = []" "searchControllers (invalidate clear s) = []"
    "pendingPages (invalidate clear s) = []"
    by (simp_all add: invalidate_def Let_def)
  ultimately show ?thesis by (simp add: requestsOk_def)
qed

lemma invalidate_ok: "numbered s \<Longrightarrow> 0 \<le> maximumPages s \<Longrightarrow> 0 \<le> maximumBytes s \<Longrightarrow> coldOk (invalidate True s)"
  using invalidate_requests [of s True]
  by (simp add: coldOk_def cacheOk_def entriesOk_def invalidate_def Let_def)

lemma cancelPending_ok: "coldOk s \<Longrightarrow> coldOk (cancelPending s)"
  using invalidate_requests [of s False] requestsOk_numbered
  by (simp add: coldOk_def cancelPending_def cacheOk_def entriesOk_def currentPage_def invalidate_def Let_def)

lemma disposeProvider_ok: "coldOk s \<Longrightarrow> coldOk (disposeProvider s)"
  unfolding disposeProvider_def using requestsOk_numbered [of s]
  by (intro invalidate_ok) (simp_all add: coldOk_def cacheOk_def numbered_def)

lemma setEpoch_ok: "coldOk s \<Longrightarrow> coldOk (snd (setEpoch epoch s))"
  using requestsOk_numbered [of s] invalidate_ok [of "s\<lparr>providerEpoch := epoch, indexGeneration := None\<rparr>"]
  by (simp add: setEpoch_def coldOk_def cacheOk_def numbered_def)

text \<open>Fields that the requests do not depend on.\<close>

lemma flightOk_cong:
  "nextRequest t = nextRequest s \<Longrightarrow> requestGeneration t = requestGeneration s \<Longrightarrow> searchGeneration t = searchGeneration s \<Longrightarrow>
   controllers t = controllers s \<Longrightarrow> searchControllers t = searchControllers s \<Longrightarrow> providerDisposed t = providerDisposed s \<Longrightarrow>
   flightOk i r t = flightOk i r s"
  by (cases r) simp_all

lemma requestsOk_cong:
  assumes "nextRequest t = nextRequest s" "requestGeneration t = requestGeneration s" "searchGeneration t = searchGeneration s"
    "controllers t = controllers s" "searchControllers t = searchControllers s" "providerDisposed t = providerDisposed s"
    "inFlight t = inFlight s" "pendingPages t = pendingPages s"
  shows "requestsOk t = requestsOk s"
  using flightOk_cong [OF assms(1-6)] assms by (simp add: requestsOk_def)

lemma beginRequest_ok:
  assumes "requestsOk s" "beginRequest s = (Inr i, s')"
  shows "i = nextRequest s \<and> \<not> providerDisposed s \<and> s' = s\<lparr>controllers := controllers s @ [i], nextRequest := i + 1\<rparr>
    \<and> requestsOk s' \<and> jget (inFlight s) i = None \<and> i \<notin> set (controllers s) \<union> set (searchControllers s)"
proof -
  have s': "i = nextRequest s" "\<not> providerDisposed s" "length (controllers s) < maximumRequests"
    "s' = s\<lparr>controllers := controllers s @ [i], nextRequest := i + 1\<rparr>"
    using assms(2) by (auto simp: beginRequest_def split: if_splits)
  have keep: "flightOk j r s'" if "flightOk j r s" for j r using that by (cases r) (auto simp: s')
  have eqs: "inFlight s' = inFlight s" "pendingPages s' = pendingPages s" "requestGeneration s' = requestGeneration s"
    "controllers s' = controllers s @ [nextRequest s]" "searchControllers s' = searchControllers s" "nextRequest s' = Suc (nextRequest s)"
    by (simp_all add: s'(4)) (simp_all add: s'(1))
  have "length (controllers s') \<le> maximumRequests" "\<forall>i \<in> set (controllers s') \<union> set (searchControllers s'). i < nextRequest s'"
    using s'(3) assms(1) by (auto simp: eqs requestsOk_def less_Suc_eq)
  moreover have "\<forall>i r. jget (inFlight s') i = Some r \<longrightarrow> flightOk i r s'"
    unfolding eqs using assms(1) keep by (simp add: requestsOk_def)
  ultimately have "requestsOk s'" using assms(1) unfolding requestsOk_def eqs by blast
  moreover have "jget (inFlight s) i = None"
  proof (rule ccontr)
    assume "jget (inFlight s) i \<noteq> None"
    then obtain r where "jget (inFlight s) i = Some r" by blast
    then have "flightOk i r s" using assms(1) by (simp add: requestsOk_def)
    then show False using flightOk_numbered s'(1) by blast
  qed
  moreover have "i \<notin> set (controllers s) \<union> set (searchControllers s)"
    using assms(1) s'(1) unfolding requestsOk_def by blast
  ultimately show ?thesis using s' by blast
qed

text \<open>Recording a request that has just begun.\<close>

lemma track_ok:
  assumes "requestsOk s" "jget (inFlight s) i = None" "flightOk i r s"
  shows "requestsOk (s\<lparr>inFlight := jset i r (inFlight s)\<rparr>)"
proof -
  have "flightOk j q (s\<lparr>inFlight := f\<rparr>) = flightOk j q s" for j q f by (rule flightOk_cong) simp_all
  moreover have "jget (pendingPages s) key \<noteq> Some i" for key
    by (metis assms(1, 2) option.distinct(1) requestsOk_def)
  ultimately show ?thesis using assms by (auto simp: requestsOk_def)
qed

lemma cache_hit_ok:
  assumes "coldOk s" "jget (coldPages s) key = Some c"
  shows "coldOk (s\<lparr>coldPages := jset key c (jdelete key (coldPages s))\<rparr>)"
proof -
  let ?p = "jset key c (jdelete key (coldPages s))"
  have wf: "jwf (coldPages s)" "jwf (jdelete key (coldPages s))" using assms(1) by (simp_all add: coldOk_def cacheOk_def)
  have p: "?p = jdelete key (coldPages s) @ [(key, c)]" by (rule jset_absent) (auto simp: jdelete_filter)
  have "jsum cachedBytes ?p = jsum cachedBytes (coldPages s)"
    using wf assms(2) by (simp add: jsum_jset jsum_jdelete)
  moreover have "length ?p \<le> length (coldPages s)"
  proof -
    have "(key, c) \<in> set (coldPages s)" using assms(2) by (rule map_of_SomeD)
    then have "length (jdelete key (coldPages s)) < length (coldPages s)"
      unfolding jdelete_filter by (intro length_filter_less [of "(key, c)"]) simp_all
    then show ?thesis by (simp add: p)
  qed
  moreover have "set ?p \<subseteq> set (coldPages s)"
    unfolding p using assms(2) by (auto simp: jdelete_filter dest: map_of_SomeD)
  moreover have "requestsOk (s\<lparr>coldPages := ?p\<rparr>)"
    using assms(1) requestsOk_cong [of "s\<lparr>coldPages := ?p\<rparr>" s] by (simp add: coldOk_def)
  ultimately show ?thesis
    using assms(1) wf by (auto simp: coldOk_def cacheOk_def entriesOk_def currentPage_def)
qed

lemma pages_untouched:
  assumes "cacheOk s" "entriesOk s" "coldPages t = coldPages s" "cacheBytes t = cacheBytes s" "maximumPages t = maximumPages s"
    "maximumBytes t = maximumBytes s" "providerEpoch t = providerEpoch s" "indexGeneration t = indexGeneration s"
  shows "cacheOk t \<and> entriesOk t"
  using assms by (simp add: cacheOk_def entriesOk_def currentPage_def)

lemma readRows_ok:
  assumes "coldOk s"
  shows "coldOk (snd (readRows opts s))"
proof -
  define key where "key r = rowPageKey (providerEpoch s) (indexGeneration s) r" for r
  have start: "coldOk (s'\<lparr>inFlight := jset i (RowsInFlight r (key r) (requestGeneration s)) (inFlight s'), pendingPages := jset (key r) i (pendingPages s')\<rparr>)"
    if b: "beginRequest s = (Inr i, s')" for i s' r
  proof -
    let ?f = "RowsInFlight r (key r) (requestGeneration s)"
    have s': "requestsOk s" "cacheOk s" "entriesOk s" using assms by (simp_all add: coldOk_def)
    note b' = beginRequest_ok [OF s'(1) b]
    have "requestsOk (s'\<lparr>inFlight := jset i ?f (inFlight s')\<rparr>)"
      by (rule track_ok) (use b' in auto)
    then have "requestsOk (s'\<lparr>inFlight := jset i ?f (inFlight s'), pendingPages := jset (key r) i (pendingPages s')\<rparr>)"
      using b' flightOk_cong [of "s'\<lparr>inFlight := jset i ?f (inFlight s'), pendingPages := jset (key r) i (pendingPages s')\<rparr>"
          "s'\<lparr>inFlight := jset i ?f (inFlight s')\<rparr>"]
      by (auto simp: requestsOk_def)
    then show ?thesis using pages_untouched [OF s'(2, 3)] b' by (simp add: coldOk_def)
  qed
  have "beginRequest s = (Inl e, s') \<Longrightarrow> s' = s" for e s' by (auto simp: beginRequest_def split: if_splits)
  then show ?thesis
    using assms cache_hit_ok start
    by (auto simp: readRows_def Let_def key_def split: option.split prod.split sum.split)
qed

section \<open>Answers\<close>

lemma acceptVersion_ok:
  assumes "coldOk s" "acceptVersion epoch index gen s = (x, s')"
  shows "coldOk s' \<and> inFlight s' = inFlight s
    \<and> (x = None \<longrightarrow> providerEpoch s' = epoch \<and> indexGeneration s' = Some index \<and> gen = requestGeneration s \<and> providerDisposed s' = providerDisposed s)"
proof -
  have base: "0 \<le> maximumPages s" "0 \<le> maximumBytes s" "numbered s"
    using assms(1) requestsOk_numbered by (auto simp: coldOk_def cacheOk_def)
  note inv = invalidate_ok [OF base(3, 1, 2)]
  have same: "coldOk (s\<lparr>indexGeneration := Some index\<rparr>)" if "indexGeneration s = None \<or> indexGeneration s = Some index"
  proof -
    have "entriesOk (s\<lparr>indexGeneration := Some index\<rparr>)"
      using that assms(1) by (fastforce simp: coldOk_def entriesOk_def currentPage_def)
    then show ?thesis
      using assms(1) requestsOk_cong [of "s\<lparr>indexGeneration := Some index\<rparr>" s] by (simp add: coldOk_def cacheOk_def)
  qed
  have other: "coldOk ((invalidate True s)\<lparr>indexGeneration := Some index\<rparr>)"
    using inv requestsOk_cong [of "(invalidate True s)\<lparr>indexGeneration := Some index\<rparr>" "invalidate True s"]
    by (simp add: coldOk_def cacheOk_def entriesOk_def) (simp add: invalidate_def Let_def)
  show ?thesis
    using assms same other by (cases "indexGeneration s") (auto simp: acceptVersion_def invalidate_def Let_def split: if_splits)
qed

lemma remember_current:
  assumes "coldOk s" "currentPage s r page"
  shows "coldOk (remember (rowPageKey (providerEpoch s) (indexGeneration s) r) \<lparr>cachedPage = page, cachedBytes = b\<rparr> s)"
proof -
  let ?key = "rowPageKey (providerEpoch s) (indexGeneration s) r" and ?e = "\<lparr>cachedPage = page, cachedBytes = b\<rparr>"
  let ?t = "remember ?key ?e s"
  have keep: "providerEpoch ?t = providerEpoch s" "indexGeneration ?t = indexGeneration s" "nextRequest ?t = nextRequest s"
    "requestGeneration ?t = requestGeneration s" "searchGeneration ?t = searchGeneration s" "controllers ?t = controllers s"
    "searchControllers ?t = searchControllers s" "providerDisposed ?t = providerDisposed s" "inFlight ?t = inFlight s"
    "pendingPages ?t = pendingPages s"
    by (simp_all add: remember_def split: prod.split)
  have s: "cacheOk s" "entriesOk s" "requestsOk s" using assms(1) by (simp_all add: coldOk_def)
  have "entriesOk ?t"
    using remember_ok(2) [OF s(1), of ?key ?e] s(2) assms(2) unfolding entriesOk_def currentPage_def keep by fastforce
  then show ?thesis using remember_ok(1) [OF s(1)] requestsOk_cong [OF keep(3-10)] s(3) by (simp add: coldOk_def)
qed

lemma acceptRows_ok:
  assumes "coldOk s" "acceptRows ml r gen page s = (out, s')"
  shows "coldOk s' \<and> inFlight s' = inFlight s
    \<and> (\<forall>p. out = GotPage p \<longrightarrow> currentPage s' r p \<and> gen = requestGeneration s \<and> providerDisposed s' = providerDisposed s)
    \<and> (\<forall>h. out \<noteq> GotHits h) \<and> (\<forall>i. out \<noteq> Joined i)"
proof (cases "validateRows (coldRows page) (rowLimit r) (byteLimit r)")
  case (Some e)
  then show ?thesis using assms by (auto simp: acceptRows_def)
next
  case valid: None
  obtain x t where v: "acceptVersion (pageEpoch page) (pageIndex page) gen s = (x, t)" by fastforce
  note t = acceptVersion_ok [OF assms(1) v]
  show ?thesis
  proof (cases x)
    case (Some e)
    then show ?thesis using assms(2) valid v t by (auto simp: acceptRows_def)
  next
    case None
    then have cur: "currentPage t r page" using t valid by (simp add: currentPage_def)
    have rem: "currentPage (remember k e t) r page \<longleftrightarrow> currentPage t r page" "inFlight (remember k e t) = inFlight t"
      "providerDisposed (remember k e t) = providerDisposed t" for k e
      by (simp_all add: remember_def currentPage_def split: prod.split)
    show ?thesis
      using assms(2) valid v None t cur remember_current [OF _ cur] rem by (auto simp: acceptRows_def Let_def split: if_splits)
  qed
qed

lemma finish_rows:
  assumes "coldOk s" "jget (inFlight s) i = Some (RowsInFlight r key g)"
  shows "coldOk (dropPendingPage key i (finishRequest i s))"
proof -
  let ?t = "dropPendingPage key i (finishRequest i s)"
  have t: "inFlight ?t = jdelete i (inFlight s)" "controllers ?t = removeAll i (controllers s)" "searchControllers ?t = searchControllers s"
    "nextRequest ?t = nextRequest s" "requestGeneration ?t = requestGeneration s" "searchGeneration ?t = searchGeneration s"
    "providerDisposed ?t = providerDisposed s" "pendingPages ?t = (if jget (pendingPages s) key = Some i then jdelete key (pendingPages s) else pendingPages s)"
    "coldPages ?t = coldPages s" "cacheBytes ?t = cacheBytes s" "maximumPages ?t = maximumPages s" "maximumBytes ?t = maximumBytes s"
    "providerEpoch ?t = providerEpoch s" "indexGeneration ?t = indexGeneration s"
    by (simp_all add: dropPendingPage_def finishRequest_def)
  have s: "cacheOk s" "entriesOk s" "requestsOk s" using assms(1) by (simp_all add: coldOk_def)
  have flight: "flightOk j q ?t" if "flightOk j q s" "j \<noteq> i" for j q using that by (cases q) (auto simp: t)
  have pend: "j \<noteq> i" if "jget (pendingPages ?t) k = Some j" for j k
  proof
    assume "j = i"
    with that have k: "jget (pendingPages s) k = Some i" "k = key \<longrightarrow> jget (pendingPages s) key \<noteq> Some i"
      by (auto simp: t split: if_splits)
    then have "\<exists>r. jget (inFlight s) i = Some (RowsInFlight r k (requestGeneration s))" using s(3) unfolding requestsOk_def by blast
    then show False using assms(2) k by auto
  qed
  have "length (removeAll i (controllers s)) \<le> maximumRequests"
    by (rule le_trans [OF length_removeAll_less_eq]) (use s(3) in \<open>simp add: requestsOk_def\<close>)
  then have 1: "length (controllers ?t) \<le> maximumRequests" "\<forall>j \<in> set (controllers ?t) \<union> set (searchControllers ?t). j < nextRequest ?t"
    using s(3) unfolding requestsOk_def t by auto
  have 2: "\<forall>j q. jget (inFlight ?t) j = Some q \<longrightarrow> flightOk j q ?t"
    using s(3) flight unfolding requestsOk_def t(1) by (auto split: if_splits)
  have 3: "\<exists>r. jget (inFlight ?t) j = Some (RowsInFlight r k (requestGeneration ?t))" if "jget (pendingPages ?t) k = Some j" for k j
  proof -
    have "jget (pendingPages s) k = Some j" using that by (auto simp: t split: if_splits)
    then show ?thesis using s(3) pend [OF that] unfolding requestsOk_def t(1, 5) by auto
  qed
  have "requestsOk ?t" unfolding requestsOk_def using 1 2 3 by blast
  then show ?thesis using pages_untouched [OF s(1, 2) t(9-14)] by (simp add: coldOk_def)
qed

lemma finish_search:
  assumes "coldOk s" "jget (inFlight s) i = Some (SearchInFlight sg g limit)"
  shows "coldOk ((finishRequest i s)\<lparr>searchControllers := removeAll i (searchControllers s)\<rparr>)"
proof -
  let ?t = "(finishRequest i s)\<lparr>searchControllers := removeAll i (searchControllers s)\<rparr>"
  have s: "cacheOk s" "entriesOk s" "requestsOk s" using assms(1) by (simp_all add: coldOk_def)
  have flight: "flightOk j q ?t" if "flightOk j q s" "j \<noteq> i" for j q using that by (cases q) (auto simp: finishRequest_def)
  have pend: "jget (pendingPages s) k \<noteq> Some i" for k using s(3) assms(2) unfolding requestsOk_def by fastforce
  have "length (removeAll i (controllers s)) \<le> maximumRequests"
    by (rule le_trans [OF length_removeAll_less_eq]) (use s(3) in \<open>simp add: requestsOk_def\<close>)
  then have "requestsOk ?t" using s(3) flight pend unfolding requestsOk_def by (auto simp: finishRequest_def)
  then show ?thesis using pages_untouched [OF s(1, 2), of ?t] by (simp add: coldOk_def finishRequest_def)
qed

text \<open>Searches.\<close>

lemma newSearchKey_ok:
  assumes "coldOk s"
  shows "coldOk (newSearchKey key s)"
proof (cases "searchKey s = Some key")
  case True
  then show ?thesis using assms by (simp add: newSearchKey_def)
next
  case False
  let ?t = "newSearchKey key s"
  have s: "cacheOk s" "entriesOk s" "requestsOk s" using assms by (simp_all add: coldOk_def)
  have flight: "flightOk j q ?t" if "flightOk j q s" for j q using that False by (cases q) (auto simp: newSearchKey_def)
  have "length (filter (\<lambda>i. i \<notin> set (searchControllers s)) (controllers s)) \<le> maximumRequests"
    by (rule le_trans [OF length_filter_le]) (use s(3) in \<open>simp add: requestsOk_def\<close>)
  then have "requestsOk ?t" using s(3) flight False unfolding requestsOk_def by (auto simp: newSearchKey_def)
  then show ?thesis using pages_untouched [OF s(1, 2), of ?t] by (simp add: coldOk_def newSearchKey_def)
qed

lemma startSearch_ok:
  assumes "coldOk s"
  shows "coldOk (snd (startSearch opts s))"
proof -
  have go: "coldOk (s2\<lparr>searchControllers := searchControllers s2 @ [i],
      inFlight := jset i (SearchInFlight (searchGeneration s2) (requestGeneration s2) limit) (inFlight s2)\<rparr>)"
    if "coldOk s1" and b: "beginRequest s1 = (Inr i, s2)" for s1 s2 i limit
  proof -
    let ?u = "s2\<lparr>searchControllers := searchControllers s2 @ [i]\<rparr>"
    have s1: "cacheOk s1" "entriesOk s1" "requestsOk s1" using that(1) by (simp_all add: coldOk_def)
    note b' = beginRequest_ok [OF s1(3) b]
    have flight: "flightOk j q ?u" if "jget (inFlight s2) j = Some q" for j q
    proof -
      have "flightOk j q s2" using b' that unfolding requestsOk_def by blast
      moreover have "j \<noteq> i" using that b' by auto
      ultimately show ?thesis by (cases q) auto
    qed
    have r2: "requestsOk s2" using b' by blast
    have "i < nextRequest s2" using b' by simp
    then have "requestsOk ?u" using r2 flight unfolding requestsOk_def by auto
    moreover have "jget (inFlight ?u) i = None" using b' by auto
    moreover have "flightOk i (SearchInFlight (searchGeneration s2) (requestGeneration s2) limit) ?u" using b' by auto
    ultimately have "requestsOk (?u\<lparr>inFlight := jset i (SearchInFlight (searchGeneration s2) (requestGeneration s2) limit) (inFlight ?u)\<rparr>)"
      by (rule track_ok)
    then show ?thesis using pages_untouched [OF s1(1, 2)] b' by (simp add: coldOk_def)
  qed
  have fail: "beginRequest t = (Inl e, t') \<Longrightarrow> t' = t" for e t t' by (auto simp: beginRequest_def split: if_splits)
  have each: "coldOk (snd (case beginRequest t of (Inl e, s2) \<Rightarrow> (Refused e, s2)
      | (Inr i, s2) \<Rightarrow> (Started i, s2\<lparr>searchControllers := searchControllers s2 @ [i],
          inFlight := jset i (SearchInFlight (searchGeneration s2) (requestGeneration s2) limit) (inFlight s2)\<rparr>)))"
    if "coldOk t" for t limit
  proof (cases "beginRequest t")
    case (Pair x s2)
    then show ?thesis using that fail go by (cases x) auto
  qed
  show ?thesis
    unfolding startSearch_def Let_def using assms each [OF newSearchKey_ok [OF assms]] by (simp split: option.split)
qed

lemma acceptHits_ok:
  assumes "coldOk s" "acceptHits sg g limit page s = (out, s')"
  shows "coldOk s' \<and> inFlight s' = inFlight s \<and> (\<forall>p. out \<noteq> GotPage p) \<and> (\<forall>i. out \<noteq> Joined i)
    \<and> (\<forall>h. out = GotHits h \<longrightarrow> hitsEpoch h = providerEpoch s' \<and> indexGeneration s' = Some (hitsIndex h)
         \<and> g = requestGeneration s \<and> providerDisposed s' = providerDisposed s)"
proof (cases "acceptVersion (hitsEpoch page) (hitsIndex page) g s")
  case (Pair x t)
  then show ?thesis
    using assms acceptVersion_ok [OF assms(1) Pair] by (cases x) (auto simp: acceptHits_def split: if_splits)
qed

section \<open>Every step\<close>

definition currentAnswer :: "cold_output \<Rightarrow> cold_provider \<Rightarrow> cold_provider \<Rightarrow> bool" where
  "currentAnswer out s s' \<longleftrightarrow>
     (\<forall>p. out = GotPage p \<longrightarrow> \<not> providerDisposed s' \<and> (\<exists>r. currentPage s' r p)) \<and>
     (\<forall>h. out = GotHits h \<longrightarrow> \<not> providerDisposed s' \<and> hitsEpoch h = providerEpoch s' \<and> indexGeneration s' = Some (hitsIndex h)) \<and>
     (\<forall>i. out = Joined i \<longrightarrow> (\<exists>r. jget (inFlight s) i = Some r \<and> live r s))"

lemma rowsSettled_ok:
  assumes "coldOk s" "rowsSettled ml i outcome s = (out, s')"
  shows "coldOk s' \<and> currentAnswer out s s'"
proof (cases "\<exists>r key g. jget (inFlight s) i = Some (RowsInFlight r key g)")
  case False
  then have "out = NoOutput" "s' = s" using assms(2) by (auto simp: rowsSettled_def split: option.splits cold_request.splits)
  then show ?thesis using assms(1) by (simp add: currentAnswer_def)
next
  case True
  then obtain r key g where i: "jget (inFlight s) i = Some (RowsInFlight r key g)" by blast
  have fin: "providerDisposed (dropPendingPage key i (finishRequest i t)) = providerDisposed t"
    "currentPage (dropPendingPage key i (finishRequest i t)) q p = currentPage t q p" for t q p
    by (simp_all add: dropPendingPage_def finishRequest_def currentPage_def)
  show ?thesis
  proof (cases outcome)
    case (Inl e)
    then show ?thesis using assms i finish_rows [OF assms(1) i] by (auto simp: rowsSettled_def currentAnswer_def)
  next
    case (Inr page)
    obtain o' t where a: "acceptRows ml r g page s = (o', t)" by fastforce
    note t = acceptRows_ok [OF assms(1) a]
    have "flightOk i (RowsInFlight r key g) s" using assms(1) i flight_of by (simp only: coldOk_def)
    then have "g = requestGeneration s \<longrightarrow> \<not> providerDisposed s" by simp
    moreover have "out = o'" "s' = dropPendingPage key i (finishRequest i t)" using assms(2) i Inr a by (auto simp: rowsSettled_def)
    ultimately show ?thesis using t finish_rows [of t i r key g] i fin by (auto simp: currentAnswer_def)
  qed
qed

lemma searchSettled_ok:
  assumes "coldOk s" "searchSettled i outcome s = (out, s')"
  shows "coldOk s' \<and> currentAnswer out s s'"
proof (cases "\<exists>sg g limit. jget (inFlight s) i = Some (SearchInFlight sg g limit)")
  case False
  then have "out = NoOutput" "s' = s" using assms(2) by (auto simp: searchSettled_def split: option.splits cold_request.splits)
  then show ?thesis using assms(1) by (simp add: currentAnswer_def)
next
  case True
  then obtain sg g limit where i: "jget (inFlight s) i = Some (SearchInFlight sg g limit)" by blast
  show ?thesis
  proof (cases outcome)
    case (Inl e)
    then show ?thesis using assms i finish_search [OF assms(1) i] by (auto simp: searchSettled_def currentAnswer_def)
  next
    case (Inr page)
    obtain o' t where a: "acceptHits sg g limit page s = (o', t)" by fastforce
    note t = acceptHits_ok [OF assms(1) a]
    have "flightOk i (SearchInFlight sg g limit) s" using assms(1) i flight_of by (simp only: coldOk_def)
    then have "g = requestGeneration s \<longrightarrow> \<not> providerDisposed s" by simp
    moreover have "out = o'" "s' = (finishRequest i t)\<lparr>searchControllers := removeAll i (searchControllers t)\<rparr>"
      using assms(2) i Inr a by (auto simp: searchSettled_def)
    ultimately show ?thesis using t finish_search [of t i sg g limit] i by (auto simp: currentAnswer_def finishRequest_def)
  qed
qed

lemma readRows_current:
  assumes "coldOk s" "readRows opts s = (out, s')"
  shows "currentAnswer out s s'"
proof -
  have entry: "\<exists>r. currentPage s r (cachedPage c)" if "jget (coldPages s) key = Some c" for key c
    using assms(1) map_of_SomeD [OF that] by (fastforce simp: coldOk_def entriesOk_def)
  have hit: "currentPage (s\<lparr>coldPages := x\<rparr>) r p = currentPage s r p" for x r p by (simp add: currentPage_def)
  have joined: "\<exists>r. jget (inFlight s) i = Some r \<and> live r s" if "jget (pendingPages s) key = Some i" for key i
    using assms(1) that by (fastforce simp: coldOk_def requestsOk_def)
  show ?thesis
    using assms(2) entry joined by (auto simp: readRows_def Let_def currentAnswer_def hit split: if_splits option.splits prod.splits sum.splits)
qed

lemma coldStep_ok:
  assumes "coldOk s" "coldStep ml op s = (out, s')"
  shows "coldOk s' \<and> currentAnswer out s s'"
proof (cases op)
  case (SetEpoch epoch)
  then show ?thesis
    using assms setEpoch_ok [OF assms(1), of epoch] by (auto simp: currentAnswer_def split: prod.splits option.splits)
next
  case (ReadRows opts)
  then show ?thesis using assms readRows_ok [OF assms(1), of opts] readRows_current [of s opts out s'] by simp
next
  case (Search opts)
  then have "coldOk s'" "\<forall>p. out \<noteq> GotPage p" "\<forall>h. out \<noteq> GotHits h" "\<forall>i. out \<noteq> Joined i"
    using assms startSearch_ok [OF assms(1), of opts]
    by (auto simp: startSearch_def Let_def split: if_splits option.splits prod.splits sum.splits)
  then show ?thesis by (simp add: currentAnswer_def)
next
  case (RowsSettled i outcome)
  then show ?thesis using assms rowsSettled_ok [of s ml i outcome out s'] by simp
next
  case (SearchSettled i outcome)
  then show ?thesis using assms searchSettled_ok [of s i outcome out s'] by simp
qed (use assms cancelPending_ok disposeProvider_ok in \<open>auto simp: currentAnswer_def\<close>)

abbreviation coldRun :: "(cold_page \<Rightarrow> nat) \<Rightarrow> cold_op list \<Rightarrow> cold_provider \<Rightarrow> cold_provider" where
  "coldRun ml ops s \<equiv> fold (\<lambda>op s. snd (coldStep ml op s)) ops s"

interpretation cold_machine: event_machine "\<lambda>op s. snd (coldStep ml op s)" coldOk for ml
  by unfold_locales (metis coldStep_ok prod.collapse)

lemma coldRun_ok: "newProvider epoch mp mb = Inr s0 \<Longrightarrow> coldOk (coldRun ml ops s0)"
  by (rule cold_machine.run_inv [OF newProvider_ok])

lemma checkRows_ids: "checkRows ids bytes prev rows = Inr n \<Longrightarrow> distinct (map coldRowId rows) \<and> set ids \<inter> set (map coldRowId rows) = {}"
  by (induction ids bytes prev rows rule: checkRows.induct) (auto split: if_splits)

text \<open>
  C14: after any sequence of epoch changes, reads, searches, cancellations, disposals and answers in any order, every page
  handed out, from the cache or from an answer, and every search result carries the provider's current epoch and index
  generation, no answer is accepted once the provider is disposed of, the rows of a page have distinct ids, and a
  caller only joins a request whose answer can still be accepted.
\<close>

theorem cold_pages_current:
  assumes "newProvider epoch mp mb = Inr s0" "coldStep ml op (coldRun ml ops s0) = (out, s')"
  shows "(\<forall>p. out = GotPage p \<longrightarrow> \<not> providerDisposed s' \<and> pageEpoch p = providerEpoch s' \<and> indexGeneration s' = Some (pageIndex p)
            \<and> distinct (map coldRowId (coldRows p)))
    \<and> (\<forall>h. out = GotHits h \<longrightarrow> \<not> providerDisposed s' \<and> hitsEpoch h = providerEpoch s' \<and> indexGeneration s' = Some (hitsIndex h))
    \<and> (\<forall>i. out = Joined i \<longrightarrow> (\<exists>r. jget (inFlight (coldRun ml ops s0)) i = Some r \<and> live r (coldRun ml ops s0)))"
proof -
  have "distinct (map coldRowId (coldRows p))" if "currentPage s' r p" for r p
  proof -
    have "validateRows (coldRows p) (rowLimit r) (byteLimit r) = None" using that by (simp add: currentPage_def)
    then obtain n where "checkRows [] 0 0 (coldRows p) = Inr n"
      by (cases "checkRows [] 0 0 (coldRows p)") (auto simp: validateRows_def split: if_splits)
    then show ?thesis using checkRows_ids by blast
  qed
  then show ?thesis
    using coldStep_ok [OF coldRun_ok [OF assms(1)] assms(2)] by (auto simp: currentAnswer_def currentPage_def)
qed

text \<open>
  C15: the cache never holds more pages or bytes than its limits, its byte counter is exactly the sum over its pages, and
  at most sixteen requests whose answers can still be accepted are in flight.
\<close>

theorem cold_cache_bounded:
  assumes "newProvider epoch mp mb = Inr s0"
  shows "let s = coldRun ml ops s0 in
    cacheBytes s = jsum cachedBytes (coldPages s) \<and> cacheBytes s \<le> maximumBytes s \<and> int (length (coldPages s)) \<le> maximumPages s
    \<and> card {i. \<exists>r. jget (inFlight s) i = Some r \<and> live r s} \<le> 16"
proof -
  define s where "s = coldRun ml ops s0"
  have ok: "cacheOk s" "requestsOk s" using coldRun_ok [OF assms] by (simp_all add: s_def coldOk_def)
  have "i \<in> set (controllers s)" if "jget (inFlight s) i = Some r" "live r s" for i r
    using flight_of [OF ok(2) that(1)] that(2) by (cases r) auto
  then have "{i. \<exists>r. jget (inFlight s) i = Some r \<and> live r s} \<subseteq> set (controllers s)" by blast
  then have "card {i. \<exists>r. jget (inFlight s) i = Some r \<and> live r s} \<le> card (set (controllers s))" by (simp add: card_mono)
  also have "\<dots> \<le> length (controllers s)" by (rule card_length)
  also have "\<dots> \<le> 16" using ok(2) by (simp add: requestsOk_def maximumRequests_def)
  finally show ?thesis using ok(1) by (simp add: Let_def s_def [symmetric] cacheOk_def)
qed

definition samplePage :: "string \<Rightarrow> cold_page" where
  "samplePage index = \<lparr>pageEpoch = ''e1'', pageIndex = index,
     coldRows = [\<lparr>coldRowId = [49], logicalRowId = [49], wrapOffset = 0, coldText = [104, 105], sourceFirstOffset = 1, sourceLastOffset = 2\<rparr>],
     previousCursor = None, nextCursor = None, totalRows = 1, retainedFirstRowId = None, retainedLastRowId = None\<rparr>"

definition sampleOptions :: rows_options where
  "sampleOptions = \<lparr>optCursor = None, optDirection = None, optRowLimit = None, optByteLimit = None\<rparr>"

definition sampleProvider :: cold_provider where
  "sampleProvider = \<lparr>providerEpoch = ''e1'', indexGeneration = None, coldPages = [], cacheBytes = 0, requestGeneration = 0,
     controllers = [], pendingPages = [], providerDisposed = False, searchKey = None, searchGeneration = 0,
     searchControllers = [], maximumPages = 8, maximumBytes = 2097152, inFlight = [], nextRequest = 0\<rparr>"

lemma sampleProvider_new: "newProvider ''e1'' None None = Inr sampleProvider"
  by (simp add: newProvider_def boundedInteger_def maxSafeInteger_def sampleProvider_def)

lemma sampleOptions_request: "rowsRequest sampleOptions = Some \<lparr>rowsCursor = None, rowsDirection = Older, rowLimit = 256, byteLimit = 262144\<rparr>"
  by (simp add: rowsRequest_def sampleOptions_def boundedInteger_def maxSafeInteger_def)

text \<open>The sample run: a read that is answered, then read again.\<close>

definition sampleRequest :: rows_request where
  "sampleRequest = \<lparr>rowsCursor = None, rowsDirection = Older, rowLimit = 256, byteLimit = 262144\<rparr>"

definition startedSample :: cold_provider where
  "startedSample = sampleProvider\<lparr>controllers := [0], nextRequest := 1,
     inFlight := [(0, RowsInFlight sampleRequest (rowPageKey ''e1'' None sampleRequest) 0)],
     pendingPages := [(rowPageKey ''e1'' None sampleRequest, 0)]\<rparr>"

definition answeredSample :: cold_provider where
  "answeredSample = sampleProvider\<lparr>nextRequest := 1, indexGeneration := Some ''g1'', cacheBytes := 264,
     coldPages := [(rowPageKey ''e1'' (Some ''g1'') sampleRequest, \<lparr>cachedPage = samplePage ''g1'', cachedBytes = 264\<rparr>)]\<rparr>"

lemma sample_start: "coldStep ml (ReadRows sampleOptions) sampleProvider = (Started 0, startedSample)"
  by (simp add: readRows_def sampleOptions_request sampleRequest_def [symmetric] beginRequest_def maximumRequests_def startedSample_def
      sampleProvider_def Let_def)

lemma sample_valid: "validateRows (coldRows (samplePage g)) 256 262144 = None"
  by (simp add: validateRows_def samplePage_def utf8Encode_def scalarBytes_def)

lemma sample_bytes: "pageBytes (\<lambda>_. 80) (samplePage g) = 264"
  by (simp add: pageBytes_def samplePage_def unitsOf_def)

lemma sample_accept:
  "acceptRows (\<lambda>_. 80) sampleRequest 0 (samplePage ''g1'') startedSample =
     (GotPage (samplePage ''g1''), startedSample\<lparr>indexGeneration := Some ''g1'', cacheBytes := 264,
       coldPages := [(rowPageKey ''e1'' (Some ''g1'') sampleRequest, \<lparr>cachedPage = samplePage ''g1'', cachedBytes = 264\<rparr>)]\<rparr>)"
proof -
  have "acceptVersion (pageEpoch (samplePage ''g1'')) (pageIndex (samplePage ''g1'')) 0 startedSample = (None, startedSample\<lparr>indexGeneration := Some ''g1''\<rparr>)"
    by (simp add: acceptVersion_def startedSample_def sampleProvider_def samplePage_def)
  then show ?thesis
    by (simp add: acceptRows_def sample_valid sample_bytes remember_def startedSample_def sampleProvider_def sampleRequest_def Let_def)
qed

lemma sample_answer: "coldStep (\<lambda>_. 80) (RowsSettled 0 (Inr (samplePage ''g1''))) startedSample = (GotPage (samplePage ''g1''), answeredSample)"
proof -
  have "jget (inFlight startedSample) 0 = Some (RowsInFlight sampleRequest (rowPageKey ''e1'' None sampleRequest) 0)"
    by (simp add: startedSample_def)
  then show ?thesis
    by (simp add: rowsSettled_def sample_accept) (simp add: dropPendingPage_def finishRequest_def startedSample_def answeredSample_def sampleProvider_def)
qed

lemma sample_again: "\<exists>s'. coldStep ml (ReadRows sampleOptions) answeredSample = (GotPage (samplePage ''g1''), s')"
  by (simp add: readRows_def sampleOptions_request sampleRequest_def [symmetric] answeredSample_def sampleProvider_def Let_def)

lemma sample_run: "coldRun (\<lambda>_. 80) [ReadRows sampleOptions, RowsSettled 0 (Inr (samplePage ''g1''))] sampleProvider = answeredSample"
  unfolding fold_simps comp_apply sample_start snd_conv sample_answer id_apply ..

theorem cold_pages_current_witness:
  "\<exists>s'. coldStep (\<lambda>_. 80) (ReadRows sampleOptions) answeredSample = (GotPage (samplePage ''g1''), s')
     \<and> indexGeneration s' = Some ''g1'' \<and> \<not> providerDisposed s'"
proof -
  obtain s' where s': "coldStep (\<lambda>_. 80) (ReadRows sampleOptions) answeredSample = (GotPage (samplePage ''g1''), s')"
    using sample_again by blast
  have "indexGeneration s' = Some (pageIndex (samplePage ''g1''))" "\<not> providerDisposed s'"
    using cold_pages_current [OF sampleProvider_new s' [folded sample_run]] by blast+
  then show ?thesis using s' by (simp add: samplePage_def)
qed

theorem cold_cache_bounded_witness: "cacheBytes answeredSample = jsum cachedBytes (coldPages answeredSample) \<and> cacheBytes answeredSample \<le> 2097152"
proof -
  have "maximumBytes answeredSample = 2097152" by (simp add: answeredSample_def sampleProvider_def)
  then show ?thesis
    using cold_cache_bounded [OF sampleProvider_new, of "\<lambda>_. 80" "[ReadRows sampleOptions, RowsSettled 0 (Inr (samplePage ''g1''))]"]
    unfolding sample_run Let_def by simp
qed

end
