(* ===== verification/Submissions.thy ===== *)
theory Submissions
  imports Prelude "HOL-Library.Word" "HOL-Library.Char_ord" "HOL-Library.List_Lexorder"
begin

unbundle bit_operations_syntax

text \<open>
  Idempotent submissions of the agents client, \<open>packages/agents-client/src/lib/submissions.ts\<close>: one record per kind and
  target in the session storage, which blocks a different request while the outcome of the last one is unknown. Strings
  are lists of 8-bit characters. \<open>JSON.parse\<close>, \<open>JSON.stringify\<close>, the fresh key and the clock are parameters; a browser that
  denies the storage is \<open>None\<close>. Left out: a storage whose quota is exceeded, \<open>undefined\<close> inside a request, and a stored state that
  is an array of one name, which \<open>String\<close> reads as that name. The lemmas show that a retry reuses its key until the submission is settled.
\<close>

section \<open>Records\<close>

datatype submission_kind = CreateRun | CancelRun | SteerRun | FollowUpRun
datatype submission_state = SubmissionPending | SubmissionUncertain | SubmissionFailed

record submission =
  submissionKey :: string
  submissionKind :: submission_kind
  submissionTarget :: string
  requestDigest :: string
  submittedAt :: string
  submissionState :: submission_state
  receiptId :: "string option"
  metadata :: "(string \<times> json) list"

definition STORAGE_PREFIX :: string where "STORAGE_PREFIX = ''pideck.submission.''"

definition submissionKinds :: "submission_kind list" where
  "submissionKinds = [CreateRun, CancelRun, SteerRun, FollowUpRun]"

fun kindText :: "submission_kind \<Rightarrow> string" where
  "kindText CreateRun = ''create-run''"
| "kindText CancelRun = ''cancel-run''"
| "kindText SteerRun = ''steer-run''"
| "kindText FollowUpRun = ''follow-up-run''"

fun stateText :: "submission_state \<Rightarrow> string" where
  "stateText SubmissionPending = ''pending''"
| "stateText SubmissionUncertain = ''uncertain''"
| "stateText SubmissionFailed = ''failed''"

definition kindOf :: "json option \<Rightarrow> submission_kind option" where
  "kindOf v = (case v of Some (JStr s) \<Rightarrow> find (\<lambda>k. kindText k = s) submissionKinds | _ \<Rightarrow> None)"

definition stateOf :: "json option \<Rightarrow> submission_state option" where
  "stateOf v = (case v of Some (JStr s) \<Rightarrow> find (\<lambda>k. stateText k = s) [SubmissionPending, SubmissionUncertain, SubmissionFailed] | _ \<Rightarrow> None)"

section \<open>The digest of a request\<close>

text \<open>\<open>join(',')\<close>.\<close>

fun commaJoin :: "string list \<Rightarrow> string" where
  "commaJoin [] = []"
| "commaJoin [x] = x"
| "commaJoin (x # y # xs) = x @ '','' @ commaJoin (y # xs)"

text \<open>Keys sorted by code unit; \<open>quote\<close> is \<open>JSON.stringify\<close> of a value that is no object.\<close>

fun stableJson :: "(json \<Rightarrow> string) \<Rightarrow> json \<Rightarrow> string" where
  "stableJson quote (JArr vs) = ''['' @ commaJoin (map (stableJson quote) vs) @ '']''"
| "stableJson quote (JObj kvs) =
     ''{'' @ commaJoin (map snd (sort_key fst (map (\<lambda>(k, v). (k, quote (JStr k) @ '':'' @ stableJson quote v)) kvs))) @ ''}''"
| "stableJson quote v = quote v"

definition hashStep :: "nat \<Rightarrow> nat \<Rightarrow> 32 word \<times> 32 word \<Rightarrow> 32 word \<times> 32 word" where
  "hashStep index code h = ((fst h XOR of_nat code) * 0x01000193, (snd h XOR of_nat (code + index)) * 0x85ebca6b)"

fun hashFrom :: "nat \<Rightarrow> string \<Rightarrow> 32 word \<times> 32 word \<Rightarrow> 32 word \<times> 32 word" where
  "hashFrom index [] h = h"
| "hashFrom index (c # t) h = hashFrom (index + 1) t (hashStep index (of_char c) h)"

definition hexDigit :: "nat \<Rightarrow> char" where
  "hexDigit n = (''0123456789abcdef'' ! n)"

text \<open>\<open>toString(16).padStart(8, '0')\<close>.\<close>

definition hex8 :: "32 word \<Rightarrow> string" where
  "hex8 w = map (\<lambda>i. hexDigit (unat (drop_bit i w AND 15))) [28, 24, 20, 16, 12, 8, 4, 0]"

definition requestDigestOf :: "(json \<Rightarrow> string) \<Rightarrow> json \<Rightarrow> string" where
  "requestDigestOf quote v =
     (let h = hashFrom 0 (stableJson quote v) (0x811c9dc5, 0x01000193) in hex8 (fst h) @ hex8 (snd h))"

section \<open>The storage\<close>

type_synonym session_storage = "(string, string) jsmap option"

definition isPrimitive :: "json \<Rightarrow> bool" where
  "isPrimitive v = (case v of JArr _ \<Rightarrow> False | JObj _ \<Rightarrow> False | _ \<Rightarrow> True)"

definition metadataOf :: "json option \<Rightarrow> (string \<times> json) list option" where
  "metadataOf v = (case v of Some (JObj kvs) \<Rightarrow> if list_all (isPrimitive \<circ> snd) kvs then Some kvs else None | _ \<Rightarrow> None)"

definition submissionOf :: "(string \<times> json) list \<Rightarrow> submission option" where
  "submissionOf c =
     (if map_of c ''version'' \<noteq> Some (JNum (Fin 1)) then None
      else case (map_of c ''key'', kindOf (map_of c ''kind''), map_of c ''target'', map_of c ''requestDigest'', map_of c ''createdAt'',
                 stateOf (map_of c ''state''), metadataOf (map_of c ''metadata'')) of
        (Some (JStr key), Some kind, Some (JStr target), Some (JStr digest), Some (JStr moment), Some state, Some meta) \<Rightarrow>
          Some \<lparr>submissionKey = key, submissionKind = kind, submissionTarget = target, requestDigest = digest, submittedAt = moment,
                submissionState = state, receiptId = (case map_of c ''receiptId'' of Some (JStr r) \<Rightarrow> Some r | _ \<Rightarrow> None), metadata = meta\<rparr>
      | _ \<Rightarrow> None)"

definition parseSubmission :: "(string \<Rightarrow> json option) \<Rightarrow> string option \<Rightarrow> submission option" where
  "parseSubmission parse v =
     (if \<not> truthy v then None else case parse (the v) of Some (JObj c) \<Rightarrow> submissionOf c | _ \<Rightarrow> None)"

definition submissionJson :: "submission \<Rightarrow> json" where
  "submissionJson s = JObj ([(''version'', JNum (Fin 1)), (''key'', JStr (submissionKey s)), (''kind'', JStr (kindText (submissionKind s))),
      (''target'', JStr (submissionTarget s)), (''requestDigest'', JStr (requestDigest s)), (''createdAt'', JStr (submittedAt s)),
      (''state'', JStr (stateText (submissionState s))), (''metadata'', JObj (metadata s))]
      @ (case receiptId s of None \<Rightarrow> [] | Some r \<Rightarrow> [(''receiptId'', JStr r)]))"

definition storageKey :: "submission_kind \<Rightarrow> string \<Rightarrow> string" where
  "storageKey kind target = STORAGE_PREFIX @ kindText kind @ ''.'' @ target"

definition readSubmission :: "(string \<Rightarrow> json option) \<Rightarrow> submission_kind \<Rightarrow> string \<Rightarrow> session_storage \<Rightarrow> submission option" where
  "readSubmission parse kind target st =
     (case st of None \<Rightarrow> None | Some m \<Rightarrow> parseSubmission parse (jget m (storageKey kind target)))"

definition writeSubmission :: "(json \<Rightarrow> string) \<Rightarrow> submission \<Rightarrow> session_storage \<Rightarrow> session_storage" where
  "writeSubmission stringify s st = map_option (jset (storageKey (submissionKind s) (submissionTarget s)) (stringify (submissionJson s))) st"

definition removeSubmission :: "(string \<Rightarrow> json option) \<Rightarrow> submission_kind \<Rightarrow> string \<Rightarrow> string \<Rightarrow> session_storage \<Rightarrow> session_storage" where
  "removeSubmission parse kind target key st =
     (if map_option submissionKey (readSubmission parse kind target st) = Some key
      then map_option (jdelete (storageKey kind target)) st else st)"

definition readSubmissions :: "(string \<Rightarrow> json option) \<Rightarrow> session_storage \<Rightarrow> submission list" where
  "readSubmissions parse st =
     (case st of None \<Rightarrow> []
      | Some m \<Rightarrow> concat (map (\<lambda>kind.
          filter (\<lambda>r. submissionKind r = kind)
            (somes (map (\<lambda>(k, v). if take (length (storageKey kind [])) k = storageKey kind [] then parseSubmission parse (Some v) else None) m)))
          submissionKinds))"

section \<open>Operations\<close>

text \<open>\<open>Inl\<close>: blocked by that submission.\<close>

definition beginSubmission ::
  "(string \<Rightarrow> json option) \<Rightarrow> (json \<Rightarrow> string) \<Rightarrow> string \<Rightarrow> string \<Rightarrow> submission_kind \<Rightarrow> string \<Rightarrow> json \<Rightarrow> (string \<times> json) list
     \<Rightarrow> session_storage \<Rightarrow> (submission + submission) \<times> session_storage" where
  "beginSubmission parse stringify freshKey now kind target body meta st =
     (let digest = requestDigestOf stringify body;
          fresh = \<lparr>submissionKey = freshKey, submissionKind = kind, submissionTarget = target, requestDigest = digest,
                   submittedAt = now, submissionState = SubmissionPending, receiptId = None, metadata = meta\<rparr>
      in case readSubmission parse kind target st of
           Some existing \<Rightarrow>
             if requestDigest existing = digest then (Inr existing, st)
             else if submissionState existing = SubmissionPending \<or> submissionState existing = SubmissionUncertain then (Inl existing, st)
             else (Inr fresh, writeSubmission stringify fresh st)
         | None \<Rightarrow> (Inr fresh, writeSubmission stringify fresh st))"

definition updateSubmission ::
  "(string \<Rightarrow> json option) \<Rightarrow> (json \<Rightarrow> string) \<Rightarrow> submission \<Rightarrow> submission_state \<Rightarrow> string option \<Rightarrow> session_storage \<Rightarrow> submission \<times> session_storage" where
  "updateSubmission parse stringify s state receipt st =
     (let updated = s\<lparr>submissionState := state, receiptId := (if receipt = None then receiptId s else receipt)\<rparr>
      in (updated,
          if map_option submissionKey (readSubmission parse (submissionKind s) (submissionTarget s) st) = Some (submissionKey s)
          then writeSubmission stringify updated st else st))"

definition markSubmissionUncertain where
  "markSubmissionUncertain parse stringify s receipt st = updateSubmission parse stringify s SubmissionUncertain receipt st"

definition markSubmissionFailed where
  "markSubmissionFailed parse stringify s receipt st = updateSubmission parse stringify s SubmissionFailed receipt st"

definition rememberSubmissionReceipt where
  "rememberSubmissionReceipt parse stringify s receipt st = updateSubmission parse stringify s (submissionState s) receipt st"

definition completeSubmission :: "(string \<Rightarrow> json option) \<Rightarrow> submission \<Rightarrow> session_storage \<Rightarrow> session_storage" where
  "completeSubmission parse s st = removeSubmission parse (submissionKind s) (submissionTarget s) (submissionKey s) st"

text \<open>The errors after which the outcome is unknown: no answer of the API, or one of these.\<close>

definition isUncertainSubmissionError :: "(nat \<times> string) option \<Rightarrow> bool" where
  "isUncertainSubmissionError e =
     (case e of None \<Rightarrow> True
      | Some (status, code) \<Rightarrow> 500 \<le> status \<or> code = ''idempotency_in_progress'' \<or> code = ''command_outcome_unknown''
          \<or> code = ''supervisor_unavailable'')"

datatype submission_op =
  BeginSubmission string string submission_kind string json "(string \<times> json) list"
| MarkUncertain submission "string option" | MarkFailed submission "string option" | RememberReceipt submission "string option"
| CompleteSubmission submission

fun submissionStep :: "(string \<Rightarrow> json option) \<Rightarrow> (json \<Rightarrow> string) \<Rightarrow> submission_op \<Rightarrow> session_storage \<Rightarrow> session_storage" where
  "submissionStep parse stringify (BeginSubmission key now kind target body meta) st =
     snd (beginSubmission parse stringify key now kind target body meta st)"
| "submissionStep parse stringify (MarkUncertain s r) st = snd (markSubmissionUncertain parse stringify s r st)"
| "submissionStep parse stringify (MarkFailed s r) st = snd (markSubmissionFailed parse stringify s r st)"
| "submissionStep parse stringify (RememberReceipt s r) st = snd (rememberSubmissionReceipt parse stringify s r st)"
| "submissionStep parse stringify (CompleteSubmission s) st = completeSubmission parse s st"

section \<open>The digest\<close>

text \<open>Values that differ in the order of their keys only.\<close>

inductive same_json :: "json \<Rightarrow> json \<Rightarrow> bool" where
  refl: "same_json v v"
| trans: "same_json u v \<Longrightarrow> same_json v w \<Longrightarrow> same_json u w"
| arr: "list_all2 same_json vs ws \<Longrightarrow> same_json (JArr vs) (JArr ws)"
| obj: "map fst kvs = map fst lws \<Longrightarrow> list_all2 same_json (map snd kvs) (map snd lws) \<Longrightarrow> same_json (JObj kvs) (JObj lws)"
| perm: "distinct (map fst kvs) \<Longrightarrow> mset kvs = mset lws \<Longrightarrow> same_json (JObj kvs) (JObj lws)"

lemma filter_same_key: "distinct (map f xs) \<Longrightarrow> k \<in> set xs \<Longrightarrow> filter (\<lambda>x. f k = f x) xs = [k]"
proof (induction xs)
  case (Cons x xs)
  show ?case
  proof (cases "k = x")
    case True
    then show ?thesis using Cons.prems by (auto simp: filter_empty_conv)
  next
    case False
    then have "k \<in> set xs" "f k \<noteq> f x" using Cons.prems by (auto simp: image_iff)
    then show ?thesis using Cons by simp
  qed
qed simp

lemma sort_key_perm:
  assumes "distinct (map f xs)" "mset xs = mset ys"
  shows "sort_key f xs = sort_key f ys"
proof (rule properties_for_sort_key)
  show "mset (sort_key f ys) = mset xs" using assms(2) by simp
  have ys: "distinct (map f ys)" using assms by (metis mset_eq_imp_distinct_iff mset_map)
  show "filter (\<lambda>x. f k = f x) (sort_key f ys) = filter (\<lambda>x. f k = f x) xs" if "k \<in> set (sort_key f ys)" for k
  proof -
    have "k \<in> set ys" "k \<in> set xs" using that assms(2) by (auto dest: mset_eq_setD)
    moreover have "distinct (map f (sort_key f ys))" using ys by (metis mset_eq_imp_distinct_iff mset_map mset_sort)
    ultimately show ?thesis using filter_same_key [of f xs k] filter_same_key [of f "sort_key f ys" k] assms(1) by simp
  qed
qed simp

lemma entries_zip:
  "map (\<lambda>(k, v). (k, quote (JStr k) @ '':'' @ stableJson quote v)) kvs =
     map (\<lambda>(k, j). (k, quote (JStr k) @ '':'' @ j)) (zip (map fst kvs) (map (stableJson quote) (map snd kvs)))"
  by (induction kvs) auto

lemma stableJson_same: "same_json v w \<Longrightarrow> stableJson quote v = stableJson quote w"
proof (induction rule: same_json.induct)
  case (arr vs ws)
  have "map (stableJson quote) vs = map (stableJson quote) ws"
    using arr by (induction rule: list_all2_induct) auto
  then show ?case by (simp only: stableJson.simps)
next
  case (obj kvs lws)
  have "map (stableJson quote) (map snd kvs) = map (stableJson quote) (map snd lws)"
    using obj(2) by (induction rule: list_all2_induct) auto
  then have "map (\<lambda>(k, v). (k, quote (JStr k) @ '':'' @ stableJson quote v)) kvs = map (\<lambda>(k, v). (k, quote (JStr k) @ '':'' @ stableJson quote v)) lws"
    unfolding entries_zip obj(1) by simp
  then show ?case by (simp only: stableJson.simps)
next
  case (perm kvs lws)
  let ?f = "\<lambda>(k, v). (k, quote (JStr k) @ '':'' @ stableJson quote v)"
  have "map fst (map ?f kvs) = map fst kvs" by (induction kvs) auto
  then have "distinct (map fst (map ?f kvs))" "mset (map ?f kvs) = mset (map ?f lws)"
    using perm by (simp_all only: mset_map)
  then have "sort_key fst (map ?f kvs) = sort_key fst (map ?f lws)" by (rule sort_key_perm)
  then show ?case by (simp only: stableJson.simps)
qed simp_all

text \<open>
  The digest of a request does not depend on the order of the keys of its objects, at any depth, so that the same request
  built differently is recognised as a retry.
\<close>

theorem digest_ignores_key_order:
  assumes "same_json v w"
  shows "requestDigestOf quote v = requestDigestOf quote w"
  using stableJson_same [OF assms, of quote] by (simp add: requestDigestOf_def)

section \<open>The storage\<close>

lemma kindOf_text [simp]: "kindOf (Some (JStr (kindText k))) = Some k"
  by (cases k) (simp_all add: kindOf_def submissionKinds_def)

lemma stateOf_text [simp]: "stateOf (Some (JStr (stateText k))) = Some k"
  by (cases k) (simp_all add: stateOf_def)

text \<open>Metadata that JSON can carry: distinct keys, no nested values, finite numbers.\<close>

definition plainValue :: "json \<Rightarrow> bool" where
  "plainValue v = (case v of JArr _ \<Rightarrow> False | JObj _ \<Rightarrow> False | JNum x \<Rightarrow> isFinite x | _ \<Rightarrow> True)"

definition plainMetadata :: "submission \<Rightarrow> bool" where
  "plainMetadata s \<longleftrightarrow> distinct (map fst (metadata s)) \<and> list_all (plainValue \<circ> snd) (metadata s)"

text \<open>What the code relies on of \<open>JSON\<close>: reading back what was written, which is never empty.\<close>

definition json_codec :: "(string \<Rightarrow> json option) \<Rightarrow> (json \<Rightarrow> string) \<Rightarrow> bool" where
  "json_codec parse stringify \<longleftrightarrow>
     (\<forall>s. plainMetadata s \<longrightarrow> stringify (submissionJson s) \<noteq> [] \<and> parse (stringify (submissionJson s)) = Some (submissionJson s))"

lemma plain_primitive: "plainValue v \<Longrightarrow> isPrimitive v"
  by (cases v) (simp_all add: plainValue_def isPrimitive_def)

lemma submissionOf_json: "plainMetadata s \<Longrightarrow> submissionJson s = JObj c \<Longrightarrow> submissionOf c = Some s"
  using plain_primitive
  by (cases "receiptId s") (auto simp: submissionJson_def submissionOf_def metadataOf_def plainMetadata_def list_all_iff)

lemma parse_written:
  assumes "json_codec parse stringify" "plainMetadata s"
  shows "parseSubmission parse (Some (stringify (submissionJson s))) = Some s"
proof -
  obtain c where c: "submissionJson s = JObj c" by (simp add: submissionJson_def)
  then show ?thesis
    using assms(1) [unfolded json_codec_def, rule_format, OF assms(2)] submissionOf_json [OF assms(2) c]
    unfolding c by (simp add: parseSubmission_def)
qed

lemma storageKey_inj: "storageKey k t = storageKey k' t' \<longleftrightarrow> k = k' \<and> t = t'"
  by (cases k; cases k') (auto simp: storageKey_def)

lemma read_write:
  assumes "json_codec parse stringify" "plainMetadata s"
  shows "readSubmission parse kind target (writeSubmission stringify s st) =
     (if kind = submissionKind s \<and> target = submissionTarget s then map_option (\<lambda>_. s) st else readSubmission parse kind target st)"
  using parse_written [OF assms] by (cases st) (auto simp: readSubmission_def writeSubmission_def storageKey_inj)

lemma read_write_other:
  "kind \<noteq> submissionKind s \<or> target \<noteq> submissionTarget s \<Longrightarrow>
     readSubmission parse kind target (writeSubmission stringify s st) = readSubmission parse kind target st"
  by (cases st) (auto simp: readSubmission_def writeSubmission_def storageKey_inj)

lemma read_remove:
  "readSubmission parse kind target (removeSubmission parse kind' target' key st) =
     (if kind = kind' \<and> target = target' \<and> map_option submissionKey (readSubmission parse kind' target' st) = Some key then None
      else readSubmission parse kind target st)"
  by (cases st) (auto simp: readSubmission_def removeSubmission_def storageKey_inj parseSubmission_def)

section \<open>Retries\<close>

text \<open>The record of a kind and target whose outcome is unknown.\<close>

definition openRecord :: "(string \<Rightarrow> json option) \<Rightarrow> submission_kind \<Rightarrow> string \<Rightarrow> string \<Rightarrow> string \<Rightarrow> session_storage \<Rightarrow> bool" where
  "openRecord parse kind target key digest st \<longleftrightarrow> (\<exists>r. readSubmission parse kind target st = Some r \<and> submissionKey r = key
     \<and> requestDigest r = digest \<and> submissionState r \<noteq> SubmissionFailed)"

text \<open>Operations that neither complete that submission nor record its failure; handles of it carry its digest.\<close>

definition handleOf :: "submission_kind \<Rightarrow> string \<Rightarrow> string \<Rightarrow> submission \<Rightarrow> bool" where
  "handleOf kind target key s \<longleftrightarrow> submissionKind s = kind \<and> submissionTarget s = target \<and> submissionKey s = key"

fun leavesOpen :: "submission_kind \<Rightarrow> string \<Rightarrow> string \<Rightarrow> string \<Rightarrow> submission_op \<Rightarrow> bool" where
  "leavesOpen kind target key digest (BeginSubmission _ _ _ _ _ _) = True"
| "leavesOpen kind target key digest (MarkUncertain s _) = (handleOf kind target key s \<longrightarrow> requestDigest s = digest \<and> plainMetadata s)"
| "leavesOpen kind target key digest (RememberReceipt s _) =
     (handleOf kind target key s \<longrightarrow> requestDigest s = digest \<and> plainMetadata s \<and> submissionState s \<noteq> SubmissionFailed)"
| "leavesOpen kind target key digest (MarkFailed s _) = (\<not> handleOf kind target key s)"
| "leavesOpen kind target key digest (CompleteSubmission s) = (\<not> handleOf kind target key s)"

lemma update_open:
  assumes "json_codec parse stringify" "openRecord parse kind target key digest st"
    "handleOf kind target key s \<Longrightarrow> requestDigest s = digest \<and> plainMetadata s \<and> state \<noteq> SubmissionFailed"
  shows "openRecord parse kind target key digest (snd (updateSubmission parse stringify s state receipt st))"
proof -
  let ?u = "s\<lparr>submissionState := state, receiptId := (if receipt = None then receiptId s else receipt)\<rparr>"
  obtain r where r: "readSubmission parse kind target st = Some r" "submissionKey r = key" "requestDigest r = digest" "submissionState r \<noteq> SubmissionFailed"
    using assms(2) by (auto simp: openRecord_def)
  show ?thesis
  proof (cases "submissionKind s = kind \<and> submissionTarget s = target \<and> submissionKey s = key")
    case True
    then have s: "requestDigest s = digest" "plainMetadata s" "state \<noteq> SubmissionFailed" using assms(3) by (simp_all add: handleOf_def)
    then have plain: "plainMetadata ?u" by (simp add: plainMetadata_def)
    have "st \<noteq> None" using r(1) by (cases st) (simp_all add: readSubmission_def)
    then show ?thesis
      using True r s read_write [OF assms(1) plain, of kind target st]
      by (cases receipt) (auto simp: updateSubmission_def openRecord_def Let_def)
  next
    case False
    show ?thesis
    proof (cases "submissionKind s = kind \<and> submissionTarget s = target")
      case True
      then show ?thesis using False r by (auto simp: updateSubmission_def openRecord_def)
    next
      case other: False
      then have "readSubmission parse kind target (writeSubmission stringify ?u st) = readSubmission parse kind target st"
        by (intro read_write_other) auto
      then show ?thesis using assms(2) by (auto simp: updateSubmission_def openRecord_def Let_def)
    qed
  qed
qed

lemma begin_open:
  assumes "openRecord parse kind target key digest st"
  shows "openRecord parse kind target key digest (snd (beginSubmission parse stringify fk now k t body meta st))"
proof (cases "k = kind \<and> t = target")
  case True
  then show ?thesis
    using assms by (auto simp: openRecord_def beginSubmission_def Let_def) (metis submission_state.exhaust)+
next
  case False
  then have "readSubmission parse kind target (writeSubmission stringify s st) = readSubmission parse kind target st"
    if "submissionKind s = k" "submissionTarget s = t" for s using that by (intro read_write_other) auto
  then show ?thesis using assms by (auto simp: openRecord_def beginSubmission_def Let_def split: option.split)
qed

lemma step_open:
  assumes "json_codec parse stringify" "openRecord parse kind target key digest st" "leavesOpen kind target key digest op"
  shows "openRecord parse kind target key digest (submissionStep parse stringify op st)"
proof (cases op)
  case (CompleteSubmission s)
  then show ?thesis using assms(2, 3) by (auto simp: openRecord_def completeSubmission_def read_remove handleOf_def)
next
  case (MarkFailed s r)
  then show ?thesis using update_open [OF assms(1, 2), of s SubmissionFailed r] assms(3) by (simp add: markSubmissionFailed_def)
qed (use assms begin_open update_open in \<open>auto simp: markSubmissionUncertain_def markSubmissionFailed_def rememberSubmissionReceipt_def\<close>)

lemma run_open:
  "json_codec parse stringify \<Longrightarrow> openRecord parse kind target key digest st \<Longrightarrow> list_all (leavesOpen kind target key digest) ops \<Longrightarrow>
     openRecord parse kind target key digest (fold (submissionStep parse stringify) ops st)"
  by (induction ops arbitrary: st) (simp_all add: step_open)

lemma begin_stored:
  assumes "json_codec parse stringify" "beginSubmission parse stringify fk now kind target body meta st = (Inr s, st')" "st \<noteq> None"
    "distinct (map fst meta)" "list_all (plainValue \<circ> snd) meta"
  shows "readSubmission parse kind target st' = Some s \<and> requestDigest s = requestDigestOf stringify body"
proof (cases "readSubmission parse kind target st = Some s \<and> st' = st")
  case True
  then show ?thesis using assms(2) by (auto simp: beginSubmission_def Let_def split: if_splits)
next
  case False
  then have fresh: "s = \<lparr>submissionKey = fk, submissionKind = kind, submissionTarget = target, requestDigest = requestDigestOf stringify body,
      submittedAt = now, submissionState = SubmissionPending, receiptId = None, metadata = meta\<rparr>" "st' = writeSubmission stringify s st"
    using assms(2) by (auto simp: beginSubmission_def Let_def split: option.splits if_splits)
  have "plainMetadata s" using assms(4, 5) by (simp add: fresh(1) plainMetadata_def)
  from read_write [OF assms(1) this, of kind target st] show ?thesis using assms(3) fresh by auto
qed

text \<open>
  C18: a retry is idempotent. Once a submission has begun and its outcome is not known to be a failure, then whatever else is
  begun, marked, remembered or completed, as long as it is itself neither completed nor marked as failed, beginning
  the same request again returns the same key, and beginning a different one for the same target is blocked by it.
\<close>

theorem retry_keeps_key:
  assumes "json_codec parse stringify"
    "beginSubmission parse stringify fk now kind target body meta st = (Inr s, st')" "st \<noteq> None"
    "distinct (map fst meta)" "list_all (plainValue \<circ> snd) meta" "submissionState s \<noteq> SubmissionFailed"
    "list_all (leavesOpen kind target (submissionKey s) (requestDigest s)) ops"
  shows "\<exists>r. submissionKey r = submissionKey s \<and>
     fst (beginSubmission parse stringify fk' now' kind target body' meta' (fold (submissionStep parse stringify) ops st')) =
       (if requestDigestOf stringify body' = requestDigestOf stringify body then Inr r else Inl r)"
proof -
  note stored = begin_stored [OF assms(1-5)]
  then have "openRecord parse kind target (submissionKey s) (requestDigest s) st'" using assms(6) by (simp add: openRecord_def)
  from run_open [OF assms(1) this assms(7)] obtain r where
    r: "readSubmission parse kind target (fold (submissionStep parse stringify) ops st') = Some r" "submissionKey r = submissionKey s"
    "requestDigest r = requestDigestOf stringify body" "submissionState r \<noteq> SubmissionFailed"
    using stored by (auto simp: openRecord_def)
  have "submissionState r = SubmissionPending \<or> submissionState r = SubmissionUncertain" using r(4) by (cases "submissionState r") simp_all
  then show ?thesis using r by (auto simp: beginSubmission_def Let_def)
qed

text \<open>The retry of a failed submission is not protected: the record stays failed, and a different request replaces it.\<close>

lemma failed_retry_unprotected:
  assumes "readSubmission parse kind target st = Some r" "submissionState r = SubmissionFailed" "requestDigest r = requestDigestOf stringify body"
    and "requestDigestOf stringify body' \<noteq> requestDigestOf stringify body"
  shows "beginSubmission parse stringify fk now kind target body meta st = (Inr r, st) \<and>
     (\<exists>r'. fst (beginSubmission parse stringify fk' now' kind target body' meta' st) = Inr r' \<and> submissionKey r' = fk')"
  using assms by (auto simp: beginSubmission_def Let_def)

section \<open>A codec\<close>

text \<open>A codec of that kind for flat records: tagged values, escaped strings, fractions in unary.\<close>

fun encStr :: "string \<Rightarrow> string" where
  "encStr [] = ''.''"
| "encStr (c # t) = CHR ''_'' # c # encStr t"

fun decStr :: "string \<Rightarrow> (string \<times> string) option" where
  "decStr (q # r) =
     (if q = CHR ''.'' then Some ([], r)
      else case r of [] \<Rightarrow> None | c # t \<Rightarrow> map_option (\<lambda>(s, u). (c # s, u)) (decStr t))"
| "decStr [] = None"

definition encNat :: "nat \<Rightarrow> string" where "encNat n = replicate n (CHR ''1'') @ ''.''"

fun decNat :: "string \<Rightarrow> (nat \<times> string) option" where
  "decNat (q # r) = (if q = CHR ''1'' then map_option (\<lambda>(n, u). (Suc n, u)) (decNat r) else Some (0, r))"
| "decNat [] = None"

fun encVal :: "json \<Rightarrow> string" where
  "encVal (JBool b) = (if b then ''t'' else ''f'')"
| "encVal (JStr s) = CHR ''s'' # encStr s"
| "encVal (JNum (Fin x)) =
     (let (p, q) = quotient_of x in (if p < 0 then CHR ''-'' else CHR ''+'') # encNat (nat (abs p)) @ encNat (nat q))"
| "encVal v = ''n''"

fun decVal :: "string \<Rightarrow> (json \<times> string) option" where
  "decVal (q # r) =
     (if q = CHR ''n'' then Some (JNull, r)
      else if q = CHR ''t'' then Some (JBool True, r)
      else if q = CHR ''f'' then Some (JBool False, r)
      else if q = CHR ''s'' then map_option (\<lambda>(s, u). (JStr s, u)) (decStr r)
      else case decNat r of None \<Rightarrow> None
        | Some (a, t) \<Rightarrow> map_option (\<lambda>(b, u).
            (JNum (Fin (of_int (if q = CHR ''-'' then - int a else int a) / of_nat b)), u)) (decNat t))"
| "decVal [] = None"

fun encObj :: "(json \<Rightarrow> string) \<Rightarrow> (string \<times> json) list \<Rightarrow> string" where
  "encObj ev [] = ''}''"
| "encObj ev ((k, v) # t) = CHR '','' # encStr k @ ev v @ encObj ev t"

fun decObj :: "(string \<Rightarrow> (json \<times> string) option) \<Rightarrow> nat \<Rightarrow> string \<Rightarrow> ((string \<times> json) list \<times> string) option" where
  "decObj dv (Suc n) (q # r) =
     (if q = CHR ''}'' then Some ([], r)
      else case decStr r of None \<Rightarrow> None
        | Some (k, t) \<Rightarrow> (case dv t of None \<Rightarrow> None
            | Some (v, u) \<Rightarrow> map_option (\<lambda>(kvs, w). ((k, v) # kvs, w)) (decObj dv n u)))"
| "decObj dv _ _ = None"

definition encTree :: "(json \<Rightarrow> string) \<Rightarrow> json \<Rightarrow> string" where
  "encTree ev v = (case v of JObj kvs \<Rightarrow> CHR ''{'' # encObj ev kvs | _ \<Rightarrow> encVal v)"

definition decTree :: "(string \<Rightarrow> (json \<times> string) option) \<Rightarrow> string \<Rightarrow> (json \<times> string) option" where
  "decTree dv s =
     (if s \<noteq> [] \<and> hd s = CHR ''{'' then map_option (\<lambda>(kvs, u). (JObj kvs, u)) (decObj dv (length s) (tl s)) else decVal s)"

definition flatStringify :: "json \<Rightarrow> string" where "flatStringify v = encTree (encTree encVal) v"

definition flatParse :: "string \<Rightarrow> json option" where "flatParse s = map_option fst (decTree (decTree decVal) s)"

lemma dec_encStr: "decStr (encStr s @ r) = Some (s, r)"
  by (induction s) simp_all

lemma dec_encNat: "decNat (encNat n @ r) = Some (n, r)"
  by (induction n) (simp_all add: encNat_def)

lemma dec_encVal:
  assumes "plainValue v"
  shows "decVal (encVal v @ r) = Some (v, r)"
proof (cases v)
  case (JNum n)
  then obtain x where x: "n = Fin x" using assms by (cases n) (simp_all add: plainValue_def)
  obtain p q where pq: "quotient_of x = (p, q)" by (cases "quotient_of x")
  then have "0 < q" "x = of_int p / of_int q" using quotient_of_denom_pos quotient_of_div by blast+
  then show ?thesis using JNum x pq by (simp add: dec_encNat)
qed (use assms in \<open>auto simp: plainValue_def dec_encStr\<close>)

lemma dec_encObj:
  "(\<And>k v u. (k, v) \<in> set kvs \<Longrightarrow> dv (ev v @ u) = Some (v, u)) \<Longrightarrow> length kvs < n \<Longrightarrow>
     decObj dv n (encObj ev kvs @ r) = Some (kvs, r)"
proof (induction kvs arbitrary: n)
  case Nil
  then show ?case by (cases n) simp_all
next
  case (Cons e kvs)
  obtain k v where e: "e = (k, v)" by (cases e)
  obtain m where m: "n = Suc m" using Cons.prems(2) by (cases n) simp_all
  have "decObj dv m (encObj ev kvs @ r) = Some (kvs, r)" by (rule Cons.IH) (use Cons.prems m in auto)
  moreover have "dv (ev v @ encObj ev kvs @ r) = Some (v, encObj ev kvs @ r)" by (rule Cons.prems(1) [of k]) (simp add: e)
  ultimately show ?case by (simp add: e m dec_encStr)
qed

lemma encObj_longer: "length kvs < length (encObj ev kvs)"
  by (induction ev kvs rule: encObj.induct) simp_all

lemma dec_encTree:
  assumes "\<And>k v u. (k, v) \<in> set kvs \<Longrightarrow> dv (ev v @ u) = Some (v, u)"
  shows "decTree dv (encTree ev (JObj kvs) @ r) = Some (JObj kvs, r)"
proof -
  have "length kvs < length (encTree ev (JObj kvs) @ r)" using encObj_longer [of kvs ev] by (simp add: encTree_def)
  from dec_encObj [of kvs dv ev, OF assms this] show ?thesis by (simp add: decTree_def encTree_def)
qed

lemma dec_plain: "plainValue v \<Longrightarrow> decTree dv (encTree ev v @ r) = Some (v, r)"
  using dec_encVal [of v r] by (cases v rule: encVal.cases) (auto simp: plainValue_def decTree_def encTree_def Let_def split: prod.splits)

lemma flat_codec: "json_codec flatParse flatStringify"
  unfolding json_codec_def
proof (intro allI impI)
  fix s assume s: "plainMetadata s"
  obtain c where c: "submissionJson s = JObj c" by (simp add: submissionJson_def)
  have "decTree decVal (encTree encVal v @ u) = Some (v, u)" if "(k, v) \<in> set c" for k v u
  proof (cases "v = JObj (metadata s)")
    case True
    have "plainValue x" if "(k, x) \<in> set (metadata s)" for k x using s that by (auto simp: plainMetadata_def list_all_iff)
    then show ?thesis unfolding True by (intro dec_encTree dec_encVal) auto
  next
    case False
    then have "plainValue v" using that c by (auto simp: submissionJson_def plainValue_def split: option.splits)
    then show ?thesis by (rule dec_plain)
  qed
  from dec_encTree [of c "decTree decVal" "encTree encVal" "[]", OF this]
  show "flatStringify (submissionJson s) \<noteq> [] \<and> flatParse (flatStringify (submissionJson s)) = Some (submissionJson s)"
    by (simp add: c flatStringify_def flatParse_def) (simp add: encTree_def)
qed

section \<open>Witnesses\<close>

definition demoSubmission :: submission where
  "demoSubmission = \<lparr>submissionKey = ''k1'', submissionKind = CreateRun, submissionTarget = ''p'',
     requestDigest = requestDigestOf flatStringify (JBool True), submittedAt = ''t'', submissionState = SubmissionPending,
     receiptId = None, metadata = []\<rparr>"

theorem retry_keeps_key_witness:
  "\<exists>r. submissionKey r = submissionKey demoSubmission \<and>
     fst (beginSubmission flatParse flatStringify ''k2'' ''u'' CreateRun ''p'' (JBool True) []
       (fold (submissionStep flatParse flatStringify)
         [MarkUncertain demoSubmission (Some ''r''), BeginSubmission ''k3'' ''u'' CreateRun ''p'' JNull []]
         (writeSubmission flatStringify demoSubmission (Some [])))) =
       (if requestDigestOf flatStringify (JBool True) = requestDigestOf flatStringify (JBool True) then Inr r else Inl r)"
proof (rule retry_keeps_key [OF flat_codec])
  show "beginSubmission flatParse flatStringify ''k1'' ''t'' CreateRun ''p'' (JBool True) [] (Some []) =
     (Inr demoSubmission, writeSubmission flatStringify demoSubmission (Some []))"
    by (simp add: beginSubmission_def readSubmission_def parseSubmission_def Let_def demoSubmission_def)
qed (simp_all add: demoSubmission_def plainMetadata_def)

theorem digest_ignores_key_order_witness:
  "requestDigestOf flatStringify (JArr [JObj [(''a'', JNull), (''b'', JBool True)]]) =
     requestDigestOf flatStringify (JArr [JObj [(''b'', JBool True), (''a'', JNull)]])"
  by (rule digest_ignores_key_order) (auto intro!: same_json.arr same_json.perm)

end
