(* ===== verification/ExecutionService.thy ===== *)
theory ExecutionService
  imports Prelude
begin

text \<open>
  Executions of agents, \<open>packages/supervisor/src/service.ts\<close> with its status machine (\<open>execution-state.ts\<close>): the tables, the
  transactions on them, and the service as an interleaving of its \<open>await\<close>s with what agents, timers and clients do. A
  transaction is atomic and is not retried; encoded columns hold the value they encode; the schema of requests has been applied.
  Events that are committed but not yet published wait in order. The lemmas show that a row always reflects its
  event log, that an execution only moves along its life cycle, and that none is left behind.
\<close>

section \<open>Statuses\<close>

datatype execution_status = ExPending | ExStarting | ExRunning | ExSucceeded | ExFailed | ExCancelled | ExTimedOut

fun transitions :: "execution_status \<Rightarrow> execution_status list" where
  "transitions ExPending = [ExStarting, ExFailed, ExCancelled, ExTimedOut]"
| "transitions ExStarting = [ExRunning, ExFailed, ExCancelled, ExTimedOut]"
| "transitions ExRunning = [ExSucceeded, ExFailed, ExCancelled, ExTimedOut]"
| "transitions ExSucceeded = []"
| "transitions ExFailed = []"
| "transitions ExCancelled = []"
| "transitions ExTimedOut = []"

definition isTerminalExecutionStatus :: "execution_status \<Rightarrow> bool" where
  "isTerminalExecutionStatus st \<longleftrightarrow> transitions st = []"

definition canTransitionExecution :: "execution_status \<Rightarrow> execution_status \<Rightarrow> bool" where
  "canTransitionExecution st target \<longleftrightarrow> target \<in> set (transitions st)"

datatype service_error =
  ExecutionNotFound string | ExecutionNotCancellable string | InvalidTransition execution_status execution_status
| InvalidPersistedRequest | InsertMissing | ConstraintError string | ServiceClosed

definition assertExecutionTransition :: "execution_status \<Rightarrow> execution_status \<Rightarrow> service_error + unit" where
  "assertExecutionTransition st target = (if canTransitionExecution st target then Inr () else Inl (InvalidTransition st target))"

section \<open>Tables\<close>

datatype agent_event =
  AgentStarted | AgentMessage string | AgentOutput json | AgentCompleted | AgentFailed string string

datatype event_type = StartedEvent | MessageEvent | OutputEvent | CompletedEvent | FailedEvent

fun eventType :: "agent_event \<Rightarrow> event_type" where
  "eventType AgentStarted = StartedEvent"
| "eventType (AgentMessage _) = MessageEvent"
| "eventType (AgentOutput _) = OutputEvent"
| "eventType AgentCompleted = CompletedEvent"
| "eventType (AgentFailed _ _) = FailedEvent"

fun eventPayload :: "agent_event \<Rightarrow> json" where
  "eventPayload AgentStarted = JObj []"
| "eventPayload AgentCompleted = JObj []"
| "eventPayload (AgentMessage msg) = JObj [(''message'', JStr msg)]"
| "eventPayload (AgentOutput v) = JObj [(''output'', v)]"
| "eventPayload (AgentFailed code msg) = JObj [(''code'', JStr code), (''message'', JStr msg)]"

record execution_row =
  rowId :: string
  rowKey :: string
  rowAgentType :: string
  rowRequest :: json
  rowStatus :: execution_status
  rowTimeout :: nat
  rowOutput :: "json option"
  rowErrorCode :: "string option"
  rowErrorMessage :: "string option"
  rowCreatedAt :: string
  rowStartedAt :: "string option"
  rowFinishedAt :: "string option"

record execution_event =
  executionOf :: string
  eventSequence :: nat
  typeOfEvent :: event_type
  payloadOf :: json
  eventAt :: string

record supervisor_db =
  executions :: "(string, execution_row) jsmap"
  eventLog :: "execution_event list"
  idempotencyKeys :: "(string, string) jsmap"

definition eventsOf :: "supervisor_db \<Rightarrow> string \<Rightarrow> execution_event list" where
  "eventsOf d i = filter (\<lambda>e. executionOf e = i) (eventLog d)"

definition getExecutionRow :: "supervisor_db \<Rightarrow> string \<Rightarrow> execution_row option" where
  "getExecutionRow d i = jget (executions d) i"

definition findByIdempotencyKey :: "supervisor_db \<Rightarrow> string \<Rightarrow> execution_row option" where
  "findByIdempotencyKey d key = Option.bind (jget (idempotencyKeys d) key) (getExecutionRow d)"

text \<open>The query for the last sequence number, plus one.\<close>

definition nextSequence :: "supervisor_db \<Rightarrow> string \<Rightarrow> nat" where
  "nextSequence d i = foldr max (map eventSequence (eventsOf d i)) 0 + 1"

section \<open>Transactions\<close>

record persist_result =
  resultEvent :: "execution_event option"
  resultIgnored :: bool
  resultTerminal :: bool

definition writeRow :: "(execution_row \<Rightarrow> execution_row) \<Rightarrow> string \<Rightarrow> supervisor_db \<Rightarrow> supervisor_db" where
  "writeRow f i d = (case getExecutionRow d i of None \<Rightarrow> d | Some row \<Rightarrow> d\<lparr>executions := jset i (f row) (executions d)\<rparr>)"

definition insertEvent :: "execution_event \<Rightarrow> supervisor_db \<Rightarrow> supervisor_db" where
  "insertEvent e d = d\<lparr>eventLog := eventLog d @ [e]\<rparr>"

text \<open>The update of the row, and whether the event is the last one.\<close>

fun eventUpdate :: "agent_event \<Rightarrow> string \<Rightarrow> execution_row \<Rightarrow> service_error + execution_row \<times> bool" where
  "eventUpdate (AgentOutput v) moment row = Inr (row\<lparr>rowOutput := Some v\<rparr>, False)"
| "eventUpdate AgentStarted moment row =
     (if rowStatus row = ExStarting then
        (case assertExecutionTransition (rowStatus row) ExRunning of Inl e \<Rightarrow> Inl e
         | Inr _ \<Rightarrow> Inr (row\<lparr>rowStatus := ExRunning, rowStartedAt := Some (coalesce (rowStartedAt row) moment)\<rparr>, False))
      else Inr (row, False))"
| "eventUpdate AgentCompleted moment row =
     (case assertExecutionTransition (rowStatus row) ExSucceeded of Inl e \<Rightarrow> Inl e
      | Inr _ \<Rightarrow> Inr (row\<lparr>rowStatus := ExSucceeded, rowFinishedAt := Some moment\<rparr>, True))"
| "eventUpdate (AgentFailed code msg) moment row =
     (case assertExecutionTransition (rowStatus row) ExFailed of Inl e \<Rightarrow> Inl e
      | Inr _ \<Rightarrow> Inr (row\<lparr>rowStatus := ExFailed, rowErrorCode := Some code, rowErrorMessage := Some msg, rowFinishedAt := Some moment\<rparr>, True))"
| "eventUpdate (AgentMessage _) moment row = Inr (row, False)"

definition persistAgentEvent ::
  "string \<Rightarrow> agent_event \<Rightarrow> string \<Rightarrow> supervisor_db \<Rightarrow> service_error + persist_result \<times> supervisor_db" where
  "persistAgentEvent i event moment d =
     (case getExecutionRow d i of
        None \<Rightarrow> Inl (ExecutionNotFound i)
      | Some row \<Rightarrow>
          if isTerminalExecutionStatus (rowStatus row) then
            Inr (\<lparr>resultEvent = None, resultIgnored = True, resultTerminal = True\<rparr>, d)
          else if eventType event = OutputEvent \<and> rowOutput row \<noteq> None then
            Inr (\<lparr>resultEvent = None, resultIgnored = True, resultTerminal = False\<rparr>, d)
          else
            let persisted = \<lparr>executionOf = i, eventSequence = nextSequence d i, typeOfEvent = eventType event,
                             payloadOf = eventPayload event, eventAt = moment\<rparr>
            in case eventUpdate event moment row of
                 Inl e \<Rightarrow> Inl e
               | Inr (row', final) \<Rightarrow>
                   Inr (\<lparr>resultEvent = Some persisted, resultIgnored = False, resultTerminal = final\<rparr>,
                        writeRow (\<lambda>_. row') i (insertEvent persisted d)))"

definition markTerminal ::
  "string \<Rightarrow> execution_status \<Rightarrow> string \<Rightarrow> string \<Rightarrow> string \<Rightarrow> supervisor_db \<Rightarrow> service_error + execution_event option \<times> supervisor_db" where
  "markTerminal i target code msg moment d =
     (case getExecutionRow d i of
        None \<Rightarrow> Inl (ExecutionNotFound i)
      | Some row \<Rightarrow>
          if isTerminalExecutionStatus (rowStatus row) then Inr (None, d)
          else case assertExecutionTransition (rowStatus row) target of
            Inl e \<Rightarrow> Inl e
          | Inr _ \<Rightarrow>
              let event = \<lparr>executionOf = i, eventSequence = nextSequence d i, typeOfEvent = FailedEvent,
                           payloadOf = JObj [(''code'', JStr code), (''message'', JStr msg)], eventAt = moment\<rparr>
              in Inr (Some event, writeRow (\<lambda>row. row\<lparr>rowStatus := target, rowErrorCode := Some code, rowErrorMessage := Some msg,
                                                      rowFinishedAt := Some moment\<rparr>) i (insertEvent event d)))"

definition transitionStatus ::
  "string \<Rightarrow> execution_status \<Rightarrow> string \<Rightarrow> supervisor_db \<Rightarrow> service_error + bool \<times> supervisor_db" where
  "transitionStatus i target moment d =
     (case getExecutionRow d i of
        None \<Rightarrow> Inl (ExecutionNotFound i)
      | Some row \<Rightarrow>
          if isTerminalExecutionStatus (rowStatus row) then Inr (False, d)
          else if rowStatus row = target then Inr (True, d)
          else case assertExecutionTransition (rowStatus row) target of
            Inl e \<Rightarrow> Inl e
          | Inr _ \<Rightarrow> Inr (True, writeRow (\<lambda>row. row\<lparr>rowStatus := target, rowStartedAt :=
                (if target = ExRunning then Some (coalesce (rowStartedAt row) moment) else rowStartedAt row)\<rparr>) i d))"

record create_request =
  requestKey :: string
  requestAgentType :: string
  requestInput :: json
  requestConfig :: "(string \<times> json) list"
  requestTimeout :: nat

text \<open>The constraints of the tables; the code of the error is the driver's.\<close>

datatype table_constraint = PrimaryKeyConstraint | UniqueConstraint

definition insertExecution ::
  "(table_constraint \<Rightarrow> string) \<Rightarrow> create_request \<Rightarrow> string \<Rightarrow> string \<Rightarrow> supervisor_db \<Rightarrow> service_error + supervisor_db" where
  "insertExecution driver r i moment d =
     (if jhas (executions d) i \<or> jhas (idempotencyKeys d) (requestKey r) then Inl (ConstraintError (driver PrimaryKeyConstraint))
      else if i \<in> set (jvalues (idempotencyKeys d)) then Inl (ConstraintError (driver UniqueConstraint))
      else Inr (d\<lparr>executions := jset i \<lparr>rowId = i, rowKey = requestKey r, rowAgentType = requestAgentType r,
                     rowRequest = JObj [(''input'', requestInput r), (''config'', JObj (requestConfig r))], rowStatus = ExPending,
                     rowTimeout = requestTimeout r, rowOutput = None, rowErrorCode = None, rowErrorMessage = None,
                     rowCreatedAt = moment, rowStartedAt = None, rowFinishedAt = None\<rparr> (executions d),
                   idempotencyKeys := jset (requestKey r) i (idempotencyKeys d)\<rparr>))"

definition isUniqueConstraintError :: "service_error \<Rightarrow> bool" where
  "isUniqueConstraintError e \<longleftrightarrow> e = ConstraintError ''SQLITE_CONSTRAINT_UNIQUE''"

record agent_request =
  agentExecution :: string
  agentTypeOf :: string
  agentInput :: json
  agentConfig :: "(string \<times> json) list"

definition agentRequest :: "execution_row \<Rightarrow> service_error + agent_request" where
  "agentRequest row =
     (case (map_of (asRecord (Some (rowRequest row))) ''input'', map_of (asRecord (Some (rowRequest row))) ''config'') of
        (Some input, Some (JObj config)) \<Rightarrow>
          Inr \<lparr>agentExecution = rowId row, agentTypeOf = rowAgentType row, agentInput = input, agentConfig = config\<rparr>
      | _ \<Rightarrow> Inl InvalidPersistedRequest)"

section \<open>The service\<close>

text \<open>What a run waits for; \<open>LeaveStream\<close> is the end of the agent's iterator after a \<open>break\<close>.\<close>

datatype run_phase =
  ReadRow | MarkStarting execution_row | CreateAgent agent_request | MarkStartFailed | MarkRunning agent_request
| NextEvent | MarkInvalid | PersistEvent agent_event | LeaveStream | ReadEnded | MarkEnded | ReadThrown | MarkThrown | Disposing

record run =
  runPhase :: run_phase
  runAborted :: bool
  runAgent :: bool

datatype creation =
  LookUp create_request | Insert create_request | LookUpAgain create_request service_error | ReadCreated create_request string

record service =
  db :: supervisor_db
  runs :: "(string, run) jsmap"
  creations :: "creation list"
  cancelling :: "string list"
  restarting :: "string list"
  wasStarted :: bool
  wasClosed :: bool
  unpublished :: "execution_event list"
  answers :: "(string \<times> string \<times> bool) list"
  failures :: "service_error list"
  rejections :: "(string \<times> service_error) list"

definition newService :: "supervisor_db \<Rightarrow> service" where
  "newService d = \<lparr>db = d, runs = [], creations = [], cancelling = [], restarting = [], wasStarted = False, wasClosed = False,
     unpublished = [], answers = [], failures = [], rejections = []\<rparr>"

definition setPhase :: "string \<Rightarrow> run_phase \<Rightarrow> service \<Rightarrow> service" where
  "setPhase i p s = (case jget (runs s) i of None \<Rightarrow> s | Some r \<Rightarrow> s\<lparr>runs := jset i (r\<lparr>runPhase := p\<rparr>) (runs s)\<rparr>)"

text \<open>The \<open>finally\<close> of a run: an agent is disposed of first.\<close>

definition finishRun :: "string \<Rightarrow> service \<Rightarrow> service" where
  "finishRun i s =
     (case jget (runs s) i of None \<Rightarrow> s
      | Some r \<Rightarrow> if runAgent r then setPhase i Disposing s else s\<lparr>runs := jdelete i (runs s)\<rparr>)"

definition rejectRun :: "string \<Rightarrow> service_error \<Rightarrow> service \<Rightarrow> service" where
  "rejectRun i e s = finishRun i (s\<lparr>rejections := rejections s @ [(i, e)]\<rparr>)"

definition commit :: "execution_event option \<Rightarrow> supervisor_db \<Rightarrow> service \<Rightarrow> service" where
  "commit e d s = s\<lparr>db := d, unpublished := unpublished s @ (case e of None \<Rightarrow> [] | Some e \<Rightarrow> [e])\<rparr>"

definition abortRun :: "string \<Rightarrow> service \<Rightarrow> service" where
  "abortRun i s = (case jget (runs s) i of None \<Rightarrow> s | Some r \<Rightarrow> s\<lparr>runs := jset i (r\<lparr>runAborted := True\<rparr>) (runs s)\<rparr>)"

text \<open>\<open>schedule\<close>, with the part of \<open>runExecution\<close> before its first \<open>await\<close>.\<close>

definition scheduleRun :: "string \<Rightarrow> service \<Rightarrow> service" where
  "scheduleRun i s = s\<lparr>runs := jset i \<lparr>runPhase = ReadRow, runAborted = False, runAgent = False\<rparr> (runs s)\<rparr>"

datatype run_input =
  Resume string | AgentCreated | AgentRefused | AgentYields agent_event | AgentYieldsInvalid | AgentDone | AgentThrows | AgentDisposed

text \<open>A step of \<open>runExecution\<close> that waits for the database.\<close>

fun resumeRun :: "string \<Rightarrow> run_phase \<Rightarrow> string \<Rightarrow> service \<Rightarrow> service" where
  "resumeRun i ReadRow moment s =
     (case getExecutionRow (db s) i of
        None \<Rightarrow> finishRun i s
      | Some row \<Rightarrow> if isTerminalExecutionStatus (rowStatus row) then finishRun i s else setPhase i (MarkStarting row) s)"
| "resumeRun i (MarkStarting row) moment s =
     (case transitionStatus i ExStarting moment (db s) of
        Inl e \<Rightarrow> rejectRun i e s
      | Inr (changed, d) \<Rightarrow>
          if \<not> changed then finishRun i s
          else case agentRequest row of
            Inl e \<Rightarrow> rejectRun i e (commit None d s)
          | Inr request \<Rightarrow> setPhase i (CreateAgent request) (commit None d s))"
| "resumeRun i MarkStartFailed moment s =
     (case markTerminal i ExFailed ''agent_start_failed'' ''The agent could not be started'' moment (db s) of
        Inl e \<Rightarrow> rejectRun i e s | Inr (e, d) \<Rightarrow> finishRun i (commit e d s))"
| "resumeRun i (MarkRunning request) moment s =
     (case transitionStatus i ExRunning moment (db s) of
        Inl e \<Rightarrow> rejectRun i e s
      | Inr (changed, d) \<Rightarrow> if \<not> changed then finishRun i s else setPhase i NextEvent (commit None d s))"
| "resumeRun i MarkInvalid moment s =
     (case markTerminal i ExFailed ''invalid_agent_event'' ''The agent emitted an invalid event'' moment (db s) of
        Inl e \<Rightarrow> setPhase i ReadThrown s | Inr (e, d) \<Rightarrow> setPhase i LeaveStream (commit e d s))"
| "resumeRun i (PersistEvent event) moment s =
     (case persistAgentEvent i event moment (db s) of
        Inl e \<Rightarrow> setPhase i ReadThrown s
      | Inr (result, d) \<Rightarrow> setPhase i (if resultTerminal result then LeaveStream else NextEvent) (commit (resultEvent result) d s))"
| "resumeRun i ReadEnded moment s =
     (case getExecutionRow (db s) i of
        None \<Rightarrow> finishRun i s
      | Some row \<Rightarrow> if isTerminalExecutionStatus (rowStatus row) then finishRun i s else setPhase i MarkEnded s)"
| "resumeRun i MarkEnded moment s =
     (case markTerminal i ExFailed ''agent_stream_ended'' ''The agent ended without a terminal event'' moment (db s) of
        Inl e \<Rightarrow> setPhase i ReadThrown s | Inr (e, d) \<Rightarrow> finishRun i (commit e d s))"
| "resumeRun i ReadThrown moment s =
     (case getExecutionRow (db s) i of
        None \<Rightarrow> finishRun i s
      | Some row \<Rightarrow> if isTerminalExecutionStatus (rowStatus row) then finishRun i s else setPhase i MarkThrown s)"
| "resumeRun i MarkThrown moment s =
     (case markTerminal i ExFailed ''agent_exception'' ''The agent failed unexpectedly'' moment (db s) of
        Inl e \<Rightarrow> rejectRun i e s | Inr (e, d) \<Rightarrow> finishRun i (commit e d s))"
| "resumeRun i (CreateAgent request) moment s = s"
| "resumeRun i NextEvent moment s = s"
| "resumeRun i LeaveStream moment s = s"
| "resumeRun i Disposing moment s = s"

text \<open>A step of \<open>runExecution\<close>; an input the phase does not wait for does nothing.\<close>

definition continueRun :: "string \<Rightarrow> run_input \<Rightarrow> service \<Rightarrow> service" where
  "continueRun i input s =
     (case jget (runs s) i of None \<Rightarrow> s
      | Some r \<Rightarrow> (case (input, runPhase r) of
            (Resume moment, p) \<Rightarrow> resumeRun i p moment s
          | (AgentCreated, CreateAgent request) \<Rightarrow>
              s\<lparr>runs := jset i (r\<lparr>runPhase := MarkRunning request, runAgent := True\<rparr>) (runs s)\<rparr>
          | (AgentRefused, CreateAgent request) \<Rightarrow> setPhase i MarkStartFailed s
          | (AgentYields event, NextEvent) \<Rightarrow> setPhase i (PersistEvent event) s
          | (AgentYieldsInvalid, NextEvent) \<Rightarrow> setPhase i MarkInvalid s
          | (AgentDone, NextEvent) \<Rightarrow> setPhase i ReadEnded s
          | (AgentThrows, NextEvent) \<Rightarrow> setPhase i ReadThrown s
          | (AgentDone, LeaveStream) \<Rightarrow> setPhase i ReadEnded s
          | (AgentThrows, LeaveStream) \<Rightarrow> setPhase i ReadThrown s
          | (AgentDisposed, Disposing) \<Rightarrow> s\<lparr>runs := jdelete i (runs s)\<rparr>
          | _ \<Rightarrow> s))"

section \<open>Clients\<close>

definition dropCreation :: "nat \<Rightarrow> service \<Rightarrow> service" where
  "dropCreation n s = s\<lparr>creations := take n (creations s) @ drop (Suc n) (creations s)\<rparr>"

definition answerWith :: "nat \<Rightarrow> string \<times> string \<times> bool \<Rightarrow> service \<Rightarrow> service" where
  "answerWith n a s = dropCreation n (s\<lparr>answers := answers s @ [a]\<rparr>)"

definition failWith :: "nat \<Rightarrow> service_error \<Rightarrow> service \<Rightarrow> service" where
  "failWith n e s = dropCreation n (s\<lparr>failures := failures s @ [e]\<rparr>)"

text \<open>The next step of the \<open>n\<close>th call of \<open>createExecution\<close> in progress; \<open>i\<close> is what \<open>idFactory\<close> gives.\<close>

definition continueCreate :: "(table_constraint \<Rightarrow> string) \<Rightarrow> nat \<Rightarrow> string \<Rightarrow> string \<Rightarrow> service \<Rightarrow> service" where
  "continueCreate driver n i moment s =
     (if length (creations s) \<le> n then s
      else case creations s ! n of
        LookUp r \<Rightarrow> (case findByIdempotencyKey (db s) (requestKey r) of
            Some row \<Rightarrow> answerWith n (requestKey r, rowId row, False) s
          | None \<Rightarrow> s\<lparr>creations := (creations s)[n := Insert r]\<rparr>)
      | Insert r \<Rightarrow> (case insertExecution driver r i moment (db s) of
            Inr d \<Rightarrow> s\<lparr>db := d, creations := (creations s)[n := ReadCreated r i]\<rparr>
          | Inl e \<Rightarrow> if isUniqueConstraintError e then s\<lparr>creations := (creations s)[n := LookUpAgain r e]\<rparr> else failWith n e s)
      | LookUpAgain r e \<Rightarrow> (case findByIdempotencyKey (db s) (requestKey r) of
            Some row \<Rightarrow> answerWith n (requestKey r, rowId row, False) s
          | None \<Rightarrow> failWith n e s)
      | ReadCreated r j \<Rightarrow> (case getExecutionRow (db s) j of
            None \<Rightarrow> failWith n InsertMissing s
          | Some row \<Rightarrow> answerWith n (requestKey r, j, True) (scheduleRun j s)))"

text \<open>\<open>cancelExecution\<close>: the check, then the transaction.\<close>

definition checkCancel :: "string \<Rightarrow> service \<Rightarrow> service" where
  "checkCancel i s =
     (case getExecutionRow (db s) i of
        None \<Rightarrow> s\<lparr>failures := failures s @ [ExecutionNotFound i]\<rparr>
      | Some row \<Rightarrow>
          if isTerminalExecutionStatus (rowStatus row) then s\<lparr>failures := failures s @ [ExecutionNotCancellable i]\<rparr>
          else s\<lparr>cancelling := cancelling s @ [i]\<rparr>)"

text \<open>A terminal mark that aborts the run when it changes something.\<close>

definition stopExecution :: "execution_status \<Rightarrow> string \<Rightarrow> string \<Rightarrow> string \<Rightarrow> string \<Rightarrow> service \<Rightarrow> service" where
  "stopExecution target code msg i moment s =
     (case markTerminal i target code msg moment (db s) of
        Inl e \<Rightarrow> s\<lparr>failures := failures s @ [e]\<rparr>
      | Inr (e, d) \<Rightarrow> (if e = None then s else abortRun i (commit e d s)))"

definition markCancelled :: "string \<Rightarrow> string \<Rightarrow> service \<Rightarrow> service" where
  "markCancelled i moment s =
     (if List.member (cancelling s) i
      then stopExecution ExCancelled ''execution_cancelled'' ''Execution was cancelled'' i moment (s\<lparr>cancelling := remove1 i (cancelling s)\<rparr>)
      else s)"

definition timeoutExecution :: "string \<Rightarrow> string \<Rightarrow> service \<Rightarrow> service" where
  "timeoutExecution i moment s = stopExecution ExTimedOut ''execution_timed_out'' ''Execution exceeded its timeout'' i moment s"

text \<open>\<open>start\<close> reads the interrupted executions and then marks them one by one.\<close>

definition startService :: "service \<Rightarrow> service" where
  "startService s =
     (if wasStarted s then s
      else if wasClosed s then s\<lparr>failures := failures s @ [ServiceClosed]\<rparr>
      else s\<lparr>wasStarted := True, restarting := map fst (filter (\<lambda>(i, row). rowStatus row \<in> {ExPending, ExStarting, ExRunning}) (executions (db s)))\<rparr>)"

definition startNext :: "string \<Rightarrow> service \<Rightarrow> service" where
  "startNext moment s =
     (case restarting s of [] \<Rightarrow> s
      | i # rest \<Rightarrow>
          (case markTerminal i ExFailed ''supervisor_restarted'' ''Execution was interrupted when the Supervisor restarted'' moment (db s) of
             Inl e \<Rightarrow> s\<lparr>restarting := [], failures := failures s @ [e]\<rparr>
           | Inr (e, d) \<Rightarrow> commit e d (s\<lparr>restarting := rest\<rparr>)))"

definition closeService :: "service \<Rightarrow> service" where
  "closeService s = (if wasClosed s then s else s\<lparr>wasClosed := True, runs := map (\<lambda>(i, r). (i, r\<lparr>runAborted := True\<rparr>)) (runs s)\<rparr>)"

datatype service_op =
  CreateExecution create_request | ContinueCreate nat string string | ContinueRun string run_input
| CancelExecution string | MarkCancelled string string | TimeoutExecution string string
| StartService | StartNext string | CloseService

fun serviceStep :: "(table_constraint \<Rightarrow> string) \<Rightarrow> service_op \<Rightarrow> service \<Rightarrow> service" where
  "serviceStep driver (CreateExecution r) s = s\<lparr>creations := creations s @ [LookUp r]\<rparr>"
| "serviceStep driver (ContinueCreate n i moment) s = continueCreate driver n i moment s"
| "serviceStep driver (ContinueRun i input) s = continueRun i input s"
| "serviceStep driver (CancelExecution i) s = checkCancel i s"
| "serviceStep driver (MarkCancelled i moment) s = markCancelled i moment s"
| "serviceStep driver (TimeoutExecution i moment) s = (if jhas (executions (db s)) i then timeoutExecution i moment s else s)"
| "serviceStep driver StartService s = startService s"
| "serviceStep driver (StartNext moment) s = startNext moment s"
| "serviceStep driver CloseService s = closeService s"

section \<open>Rows reflect their events\<close>

definition endsLog :: "event_type \<Rightarrow> bool" where
  "endsLog t \<longleftrightarrow> t = CompletedEvent \<or> t = FailedEvent"

text \<open>
  A row is what its events say: they are numbered from 1, only the last can end the execution and it does so exactly in a
  terminal status, the error is the payload of the failure, and the output that of the only output event.
\<close>

definition reflects :: "execution_row \<Rightarrow> execution_event list \<Rightarrow> bool" where
  "reflects row es \<longleftrightarrow> map eventSequence es = [1..<Suc (length es)]
     \<and> list_all (\<lambda>e. \<not> endsLog (typeOfEvent e)) (butlast es)
     \<and> (isTerminalExecutionStatus (rowStatus row) \<longleftrightarrow> es \<noteq> [] \<and> endsLog (typeOfEvent (last es)))
     \<and> (rowStatus row = ExSucceeded \<longleftrightarrow> es \<noteq> [] \<and> typeOfEvent (last es) = CompletedEvent)
     \<and> rowFinishedAt row = (if isTerminalExecutionStatus (rowStatus row) then Some (eventAt (last es)) else None)
     \<and> (case (rowErrorCode row, rowErrorMessage row) of
          (Some code, Some msg) \<Rightarrow> rowStatus row \<in> {ExFailed, ExCancelled, ExTimedOut}
            \<and> payloadOf (last es) = JObj [(''code'', JStr code), (''message'', JStr msg)]
        | (None, None) \<Rightarrow> rowStatus row \<notin> {ExFailed, ExCancelled, ExTimedOut}
        | _ \<Rightarrow> False)
     \<and> map payloadOf (filter (\<lambda>e. typeOfEvent e = OutputEvent) es) =
         (case rowOutput row of None \<Rightarrow> [] | Some v \<Rightarrow> [JObj [(''output'', v)]])
     \<and> (rowStatus row \<in> {ExRunning, ExSucceeded} \<longrightarrow> rowStartedAt row \<noteq> None)"

definition validRequest :: "json \<Rightarrow> bool" where
  "validRequest v = (case (map_of (asRecord (Some v)) ''input'', map_of (asRecord (Some v)) ''config'') of
     (Some _, Some (JObj _)) \<Rightarrow> True | _ \<Rightarrow> False)"

definition rowOk :: "supervisor_db \<Rightarrow> string \<Rightarrow> execution_row \<Rightarrow> bool" where
  "rowOk d i row \<longleftrightarrow> rowId row = i \<and> validRequest (rowRequest row) \<and> reflects row (eventsOf d i)
     \<and> jget (idempotencyKeys d) (rowKey row) = Some i"

definition dbOk :: "supervisor_db \<Rightarrow> bool" where
  "dbOk d \<longleftrightarrow> jwf (executions d)
     \<and> (\<forall>i row. getExecutionRow d i = Some row \<longrightarrow> rowOk d i row)
     \<and> (\<forall>k i. jget (idempotencyKeys d) k = Some i \<longrightarrow> (\<exists>row. getExecutionRow d i = Some row \<and> rowKey row = k))
     \<and> (\<forall>e \<in> set (eventLog d). getExecutionRow d (executionOf e) \<noteq> None)"

named_theorems execution_simps \<open>how the tables change\<close>

lemma terminal_cases: "isTerminalExecutionStatus st \<longleftrightarrow> st \<in> {ExSucceeded, ExFailed, ExCancelled, ExTimedOut}"
  by (cases st) (simp_all add: isTerminalExecutionStatus_def)

lemma writeRow_get [execution_simps]:
  "getExecutionRow (writeRow f i d) j = (if i = j then map_option f (getExecutionRow d i) else getExecutionRow d j)"
  by (auto simp: writeRow_def getExecutionRow_def split: option.split)

lemma writeRow_log [execution_simps]:
  "eventLog (writeRow f i d) = eventLog d" "idempotencyKeys (writeRow f i d) = idempotencyKeys d"
  by (simp_all add: writeRow_def split: option.split)

lemma writeRow_wf [execution_simps]: "jwf (executions d) \<Longrightarrow> jwf (executions (writeRow f i d))"
  by (auto simp: writeRow_def split: option.split)

lemma insertEvent_sel [execution_simps]:
  "eventLog (insertEvent e d) = eventLog d @ [e]" "idempotencyKeys (insertEvent e d) = idempotencyKeys d"
  "executions (insertEvent e d) = executions d" "getExecutionRow (insertEvent e d) i = getExecutionRow d i"
  by (simp_all add: insertEvent_def getExecutionRow_def)

lemma insertEvent_events [execution_simps]:
  "eventsOf (insertEvent e d) i = (if executionOf e = i then eventsOf d i @ [e] else eventsOf d i)"
  by (simp add: insertEvent_def eventsOf_def)

lemma writeRow_events [execution_simps]: "eventsOf (writeRow f i d) j = eventsOf d j"
  by (simp add: eventsOf_def writeRow_log)

lemma max_upto: "foldr max [1..<Suc n] 0 = (n :: nat)"
proof (induction n)
  case (Suc n)
  have "foldr max xs m = max m (foldr max xs 0)" for xs :: "nat list" and m by (induction xs) auto
  from this [of "[1..<Suc n]" "Suc n"] Suc show ?case by simp
qed simp

lemma nextSequence_ok: "reflects row (eventsOf d i) \<Longrightarrow> nextSequence d i = Suc (length (eventsOf d i))"
  using max_upto [of "length (eventsOf d i)"] by (simp add: nextSequence_def reflects_def)

text \<open>A transaction on one execution: it keeps the others, the keys, and a row that is terminal.\<close>

definition frame :: "string \<Rightarrow> supervisor_db \<Rightarrow> supervisor_db \<Rightarrow> bool" where
  "frame i d d' \<longleftrightarrow> idempotencyKeys d' = idempotencyKeys d
     \<and> (\<forall>j. j \<noteq> i \<longrightarrow> getExecutionRow d' j = getExecutionRow d j \<and> eventsOf d' j = eventsOf d j)
     \<and> (\<forall>row. getExecutionRow d i = Some row \<longrightarrow> (\<exists>row'. getExecutionRow d' i = Some row' \<and> rowKey row' = rowKey row
          \<and> rowRequest row' = rowRequest row))
     \<and> (getExecutionRow d i = None \<longrightarrow> getExecutionRow d' i = None)"

lemma frame_refl [simp]: "frame i d d"
  by (simp add: frame_def)

lemma valid_request: "validRequest (rowRequest row) \<Longrightarrow> \<exists>request. agentRequest row = Inr request"
  by (auto simp: validRequest_def agentRequest_def split: option.splits json.splits)

lemma dbOkD:
  assumes "dbOk d" "getExecutionRow d i = Some row"
  shows "rowOk d i row" "reflects row (eventsOf d i)"
  using assms by (auto simp: dbOk_def rowOk_def)

lemma dbOk_frame:
  assumes d: "dbOk d" and frame: "frame i d d'" and "jwf (executions d')" and row: "getExecutionRow d i = Some row"
    and i: "\<And>row'. getExecutionRow d' i = Some row' \<Longrightarrow> rowId row' = rowId row \<and> reflects row' (eventsOf d' i)"
    and log: "\<forall>e \<in> set (eventLog d'). getExecutionRow d (executionOf e) \<noteq> None"
  shows "dbOk d'"
  unfolding dbOk_def
proof (intro conjI allI impI ballI)
  show "jwf (executions d')" by fact
  show "rowOk d' j r" if r: "getExecutionRow d' j = Some r" for j r
  proof (cases "j = i")
    case True
    then show ?thesis using dbOkD(1) [OF d row] frame row i r by (auto simp: frame_def rowOk_def)
  next
    case False
    then have "getExecutionRow d j = Some r" using frame r by (simp add: frame_def)
    from dbOkD(1) [OF d this] False frame show ?thesis by (simp add: frame_def rowOk_def)
  qed
  have kept: "\<exists>r'. getExecutionRow d' j = Some r' \<and> rowKey r' = rowKey r" if "getExecutionRow d j = Some r" for j r
    using frame that by (cases "j = i") (auto simp: frame_def)
  show "\<exists>r. getExecutionRow d' j = Some r \<and> rowKey r = k" if "jget (idempotencyKeys d') k = Some j" for k j
  proof -
    have "jget (idempotencyKeys d) k = Some j" using frame that by (simp add: frame_def)
    then obtain r where "getExecutionRow d j = Some r" "rowKey r = k" using d unfolding dbOk_def by blast
    with kept show ?thesis by blast
  qed
  show "getExecutionRow d' (executionOf e) \<noteq> None" if "e \<in> set (eventLog d')" for e
    using log that kept by fastforce
qed

lemma dbOk_update:
  assumes "dbOk d" "getExecutionRow d i = Some row" "reflects (f row) (eventsOf d i)"
    "rowId (f row) = rowId row" "rowKey (f row) = rowKey row" "rowRequest (f row) = rowRequest row"
  shows "dbOk (writeRow f i d)" "frame i d (writeRow f i d)"
proof -
  show frame: "frame i d (writeRow f i d)" using assms by (simp add: frame_def execution_simps)
  show "dbOk (writeRow f i d)"
    using assms by (intro dbOk_frame [OF assms(1) frame _ assms(2)]) (auto simp: execution_simps dbOk_def)
qed

lemma dbOk_append:
  assumes "dbOk d" "getExecutionRow d i = Some row" "executionOf e = i" "reflects (f row) (eventsOf d i @ [e])"
    "rowId (f row) = rowId row" "rowKey (f row) = rowKey row" "rowRequest (f row) = rowRequest row"
  shows "dbOk (writeRow f i (insertEvent e d))" "frame i d (writeRow f i (insertEvent e d))"
proof -
  show frame: "frame i d (writeRow f i (insertEvent e d))" using assms by (simp add: frame_def execution_simps)
  show "dbOk (writeRow f i (insertEvent e d))"
    using assms by (intro dbOk_frame [OF assms(1) frame _ assms(2)]) (auto simp: execution_simps dbOk_def)
qed

lemma reflects_append:
  assumes "reflects row es" "\<not> isTerminalExecutionStatus (rowStatus row)" "eventSequence e = Suc (length es)"
    "isTerminalExecutionStatus (rowStatus row') \<longleftrightarrow> endsLog (typeOfEvent e)"
    "rowStatus row' = ExSucceeded \<longleftrightarrow> typeOfEvent e = CompletedEvent"
    "rowFinishedAt row' = (if isTerminalExecutionStatus (rowStatus row') then Some (eventAt e) else None)"
    "if rowStatus row' \<in> {ExFailed, ExCancelled, ExTimedOut}
     then (\<exists>code msg. rowErrorCode row' = Some code \<and> rowErrorMessage row' = Some msg \<and> payloadOf e = JObj [(''code'', JStr code), (''message'', JStr msg)])
     else rowErrorCode row' = None \<and> rowErrorMessage row' = None"
    "if typeOfEvent e = OutputEvent then rowOutput row = None \<and> (\<exists>v. rowOutput row' = Some v \<and> payloadOf e = JObj [(''output'', v)])
     else rowOutput row' = rowOutput row"
    "rowStatus row' \<in> {ExRunning, ExSucceeded} \<longrightarrow> rowStartedAt row' \<noteq> None"
  shows "reflects row' (es @ [e])"
proof -
  have "list_all (\<lambda>e. \<not> endsLog (typeOfEvent e)) es"
    using assms(1, 2) by (cases es rule: rev_cases) (auto simp: reflects_def)
  then show ?thesis
    using assms unfolding reflects_def
    by (simp split: if_splits option.splits)
qed

lemma reflects_live:
  assumes "reflects row es" "\<not> isTerminalExecutionStatus (rowStatus row)"
  shows "rowErrorCode row = None" "rowErrorMessage row = None" "rowFinishedAt row = None"
    "rowStatus row = ExRunning \<Longrightarrow> rowStartedAt row \<noteq> None"
proof -
  have "rowStatus row \<notin> {ExFailed, ExCancelled, ExTimedOut}" using assms(2) by (auto simp: terminal_cases)
  then show "rowErrorCode row = None" "rowErrorMessage row = None"
    using assms(1) unfolding reflects_def by (cases "rowErrorCode row"; cases "rowErrorMessage row"; simp)+
  show "rowFinishedAt row = None" using assms unfolding reflects_def by simp
  show "rowStatus row = ExRunning \<Longrightarrow> rowStartedAt row \<noteq> None" using assms unfolding reflects_def by simp
qed

lemma reflects_moved:
  assumes "reflects row es" "\<not> isTerminalExecutionStatus (rowStatus row)" "\<not> isTerminalExecutionStatus target"
    and "target = ExRunning \<Longrightarrow> moment \<noteq> None"
  shows "reflects (row\<lparr>rowStatus := target, rowStartedAt := moment\<rparr>) es"
proof -
  have "rowStatus row \<notin> {ExSucceeded, ExFailed, ExCancelled, ExTimedOut}" "target \<notin> {ExSucceeded, ExFailed, ExCancelled, ExTimedOut}"
    using assms(2, 3) by (auto simp: terminal_cases)
  then show ?thesis
    using assms reflects_live [OF assms(1, 2)] unfolding reflects_def by simp
qed

section \<open>The life of an execution\<close>

text \<open>What the service promises of one execution: its status and its events, without rows, runs or clients.\<close>

inductive life_step :: "execution_status \<times> execution_event list \<Rightarrow> execution_status \<times> execution_event list \<Rightarrow> bool" where
  starting: "life_step (ExPending, es) (ExStarting, es)"
| running: "life_step (ExStarting, es) (ExRunning, es)"
| started: "typeOfEvent e = StartedEvent \<Longrightarrow> life_step (ExStarting, es) (ExRunning, es @ [e])"
| emitted: "\<not> isTerminalExecutionStatus st \<Longrightarrow> \<not> endsLog (typeOfEvent e) \<Longrightarrow> life_step (st, es) (st, es @ [e])"
| completed: "typeOfEvent e = CompletedEvent \<Longrightarrow> life_step (ExRunning, es) (ExSucceeded, es @ [e])"
| stopped: "\<not> isTerminalExecutionStatus st \<Longrightarrow> target \<in> {ExFailed, ExCancelled, ExTimedOut} \<Longrightarrow> typeOfEvent e = FailedEvent \<Longrightarrow>
    life_step (st, es) (target, es @ [e])"

inductive_cases life_step_from: "life_step (st, es) v"

lemma life_terminal: "isTerminalExecutionStatus st \<Longrightarrow> life_step (st, es) v \<Longrightarrow> False"
  by (erule life_step_from) (auto simp: isTerminalExecutionStatus_def)

definition lifeOf :: "supervisor_db \<Rightarrow> string \<Rightarrow> (execution_status \<times> execution_event list) option" where
  "lifeOf d i = map_option (\<lambda>row. (rowStatus row, eventsOf d i)) (getExecutionRow d i)"

definition lives_on :: "supervisor_db \<Rightarrow> supervisor_db \<Rightarrow> bool" where
  "lives_on d d' \<longleftrightarrow> (\<forall>i v. lifeOf d i = Some v \<longrightarrow> (\<exists>w. lifeOf d' i = Some w \<and> life_step\<^sup>*\<^sup>* v w))"

lemma lives_on_refl [simp]: "lives_on d d"
  by (auto simp: lives_on_def)

lemma lives_on_trans: "lives_on d d' \<Longrightarrow> lives_on d' d'' \<Longrightarrow> lives_on d d''"
  unfolding lives_on_def by (meson rtranclp_trans)

lemma lives_on_frame:
  assumes "frame i d d'"
    and "\<And>row row'. getExecutionRow d i = Some row \<Longrightarrow> getExecutionRow d' i = Some row' \<Longrightarrow>
      life_step\<^sup>*\<^sup>* (rowStatus row, eventsOf d i) (rowStatus row', eventsOf d' i)"
  shows "lives_on d d'"
  unfolding lives_on_def lifeOf_def
proof (intro allI impI)
  fix j v assume v: "map_option (\<lambda>row. (rowStatus row, eventsOf d j)) (getExecutionRow d j) = Some v"
  show "\<exists>w. map_option (\<lambda>row. (rowStatus row, eventsOf d' j)) (getExecutionRow d' j) = Some w \<and> life_step\<^sup>*\<^sup>* v w"
  proof (cases "j = i")
    case True
    with v obtain row where "getExecutionRow d i = Some row" "v = (rowStatus row, eventsOf d i)" by auto
    with assms True show ?thesis by (fastforce simp: frame_def)
  next
    case False
    with v assms(1) show ?thesis by (auto simp: frame_def)
  qed
qed

text \<open>What every transaction on the execution \<open>i\<close> does.\<close>

definition txOk :: "string \<Rightarrow> supervisor_db \<Rightarrow> execution_event option \<Rightarrow> supervisor_db \<Rightarrow> bool" where
  "txOk i d e d' \<longleftrightarrow> dbOk d' \<and> frame i d d' \<and> lives_on d d'
     \<and> eventLog d' = eventLog d @ (case e of None \<Rightarrow> [] | Some e \<Rightarrow> [e])"

lemma txOk_none: "dbOk d \<Longrightarrow> txOk i d None d"
  by (simp add: txOk_def)

lemma txOk_append:
  assumes "dbOk d" "getExecutionRow d i = Some row" "executionOf e = i" "reflects (f row) (eventsOf d i @ [e])"
    "rowId (f row) = rowId row" "rowKey (f row) = rowKey row" "rowRequest (f row) = rowRequest row"
    "life_step (rowStatus row, eventsOf d i) (rowStatus (f row), eventsOf d i @ [e])"
  shows "txOk i d (Some e) (writeRow f i (insertEvent e d))"
  unfolding txOk_def
proof (intro conjI)
  note up = dbOk_append [where f = f, OF assms(1-7)]
  show "dbOk (writeRow f i (insertEvent e d))" "frame i d (writeRow f i (insertEvent e d))" by (rule up)+
  show "lives_on d (writeRow f i (insertEvent e d))"
    using assms by (intro lives_on_frame [OF up(2)]) (auto simp: execution_simps)
qed (simp add: execution_simps)

lemma markTerminal_ok:
  assumes d: "dbOk d" and row: "getExecutionRow d i = Some row" and target: "target \<in> {ExFailed, ExCancelled, ExTimedOut}"
  shows "\<exists>e d'. markTerminal i target code msg moment d = Inr (e, d') \<and> txOk i d e d'
     \<and> (\<exists>row'. getExecutionRow d' i = Some row' \<and> isTerminalExecutionStatus (rowStatus row'))
     \<and> (e = None \<longrightarrow> d' = d)"
proof (cases "isTerminalExecutionStatus (rowStatus row)")
  case True
  then show ?thesis using row txOk_none [OF d] by (simp add: markTerminal_def)
next
  case False
  then have can: "canTransitionExecution (rowStatus row) target"
    using target by (cases "rowStatus row") (auto simp: isTerminalExecutionStatus_def canTransitionExecution_def)
  define e where "e = \<lparr>executionOf = i, eventSequence = nextSequence d i, typeOfEvent = FailedEvent,
    payloadOf = JObj [(''code'', JStr code), (''message'', JStr msg)], eventAt = moment\<rparr>"
  define f where "f = (\<lambda>row :: execution_row. row\<lparr>rowStatus := target, rowErrorCode := Some code, rowErrorMessage := Some msg, rowFinishedAt := Some moment\<rparr>)"
  have result: "markTerminal i target code msg moment d = Inr (Some e, writeRow f i (insertEvent e d))"
    using row False can by (simp add: markTerminal_def assertExecutionTransition_def Let_def e_def f_def)
  have "reflects (f row) (eventsOf d i @ [e])"
    using target by (intro reflects_append [OF dbOkD(2) [OF d row] False])
      (auto simp: e_def f_def nextSequence_ok [OF dbOkD(2) [OF d row]] terminal_cases endsLog_def)
  then have "txOk i d (Some e) (writeRow f i (insertEvent e d))"
    using target by (intro txOk_append [OF d row]) (auto simp: e_def f_def intro: life_step.stopped [OF False])
  moreover have "\<exists>row'. getExecutionRow (writeRow f i (insertEvent e d)) i = Some row' \<and> isTerminalExecutionStatus (rowStatus row')"
    using row target by (auto simp: execution_simps f_def terminal_cases)
  ultimately show ?thesis using result by blast
qed

text \<open>In a status the runs leave it in, a transition is never refused.\<close>

lemma transitionStatus_ok:
  assumes d: "dbOk d" and row: "getExecutionRow d i = Some row"
    and target: "(target, rowStatus row) \<in> {(ExStarting, ExPending), (ExRunning, ExStarting)} \<or> isTerminalExecutionStatus (rowStatus row)"
  shows "\<exists>d' row'. transitionStatus i target moment d = Inr (\<not> isTerminalExecutionStatus (rowStatus row), d') \<and> txOk i d None d'
     \<and> getExecutionRow d' i = Some row' \<and> (isTerminalExecutionStatus (rowStatus row) \<and> d' = d \<or> rowStatus row' = target)"
proof (cases "isTerminalExecutionStatus (rowStatus row)")
  case True
  then show ?thesis using row txOk_none [OF d] by (simp add: transitionStatus_def)
next
  case False
  define f where "f = (\<lambda>row :: execution_row. row\<lparr>rowStatus := target, rowStartedAt :=
    (if target = ExRunning then Some (coalesce (rowStartedAt row) moment) else rowStartedAt row)\<rparr>)"
  have can: "canTransitionExecution (rowStatus row) target" "rowStatus row \<noteq> target"
    using target False by (auto simp: canTransitionExecution_def)
  then have result: "transitionStatus i target moment d = Inr (True, writeRow f i d)"
    using row False by (simp add: transitionStatus_def assertExecutionTransition_def f_def)
  have es: "reflects row (eventsOf d i)" by (rule dbOkD(2) [OF d row])
  have "reflects (f row) (eventsOf d i)"
    using target False unfolding f_def by (intro reflects_moved [OF es]) (auto simp: isTerminalExecutionStatus_def)
  from dbOk_update [where f = f, OF d row this]
  have up: "dbOk (writeRow f i d)" "frame i d (writeRow f i d)" by (simp_all add: f_def)
  have "lives_on d (writeRow f i d)"
    using row target False by (intro lives_on_frame [OF up(2)]) (auto simp: execution_simps f_def intro!: r_into_rtranclp intro: life_step.starting life_step.running)
  then have "txOk i d None (writeRow f i d)" using up by (simp add: txOk_def execution_simps)
  then show ?thesis using result row False by (auto simp: execution_simps f_def)
qed

lemma persistAgentEvent_ok:
  assumes d: "dbOk d" and row: "getExecutionRow d i = Some row"
    and st: "rowStatus row = ExRunning \<or> isTerminalExecutionStatus (rowStatus row)"
  shows "\<exists>r d' row'. persistAgentEvent i event moment d = Inr (r, d') \<and> txOk i d (resultEvent r) d' \<and> getExecutionRow d' i = Some row'
     \<and> (if resultTerminal r then isTerminalExecutionStatus (rowStatus row') else rowStatus row' = ExRunning)"
proof (cases "isTerminalExecutionStatus (rowStatus row) \<or> eventType event = OutputEvent \<and> rowOutput row \<noteq> None")
  case True
  then show ?thesis using row st txOk_none [OF d] by (auto simp: persistAgentEvent_def)
next
  case False
  then have run: "rowStatus row = ExRunning" and live: "\<not> isTerminalExecutionStatus (rowStatus row)" using st by blast+
  define e where "e = \<lparr>executionOf = i, eventSequence = nextSequence d i, typeOfEvent = eventType event,
    payloadOf = eventPayload event, eventAt = moment\<rparr>"
  have es: "reflects row (eventsOf d i)" by (rule dbOkD(2) [OF d row])
  have e_fields: "eventSequence e = Suc (length (eventsOf d i))" "typeOfEvent e = eventType event" "payloadOf e = eventPayload event" "eventAt e = moment"
    by (simp_all add: e_def nextSequence_ok [OF es])
  have fields: "rowErrorCode row = None" "rowErrorMessage row = None" "rowStartedAt row \<noteq> None" "rowFinishedAt row = None"
    using run reflects_live [OF es live] by simp_all
  have lives: "eventType event \<in> {StartedEvent, MessageEvent, OutputEvent} \<Longrightarrow> life_step (ExRunning, eventsOf d i) (ExRunning, eventsOf d i @ [e])"
    "eventType event = CompletedEvent \<Longrightarrow> life_step (ExRunning, eventsOf d i) (ExSucceeded, eventsOf d i @ [e])"
    "eventType event = FailedEvent \<Longrightarrow> life_step (ExRunning, eventsOf d i) (ExFailed, eventsOf d i @ [e])"
    by (rule life_step.emitted life_step.completed life_step.stopped; auto simp: e_fields endsLog_def isTerminalExecutionStatus_def)+
  have "\<exists>row'. eventUpdate event moment row = Inr (row', endsLog (eventType event)) \<and> rowId row' = rowId row \<and> rowKey row' = rowKey row \<and> rowRequest row' = rowRequest row
     \<and> life_step (rowStatus row, eventsOf d i) (rowStatus row', eventsOf d i @ [e]) \<and> reflects row' (eventsOf d i @ [e])
     \<and> (if endsLog (eventType event) then isTerminalExecutionStatus (rowStatus row') else rowStatus row' = ExRunning)"
  proof (cases event)
    case AgentStarted
    have "reflects row (eventsOf d i @ [e])"
      using run fields by (intro reflects_append [OF es live]) (simp_all add: e_fields AgentStarted endsLog_def terminal_cases)
    then show ?thesis using lives(1) run by (simp add: AgentStarted endsLog_def)
  next
    case (AgentMessage msg)
    have "reflects row (eventsOf d i @ [e])"
      using run fields by (intro reflects_append [OF es live]) (simp_all add: e_fields AgentMessage endsLog_def terminal_cases)
    then show ?thesis using lives(1) run by (simp add: AgentMessage endsLog_def)
  next
    case (AgentOutput v)
    have "reflects (row\<lparr>rowOutput := Some v\<rparr>) (eventsOf d i @ [e])"
      using run fields False by (intro reflects_append [OF es live]) (simp_all add: e_fields AgentOutput endsLog_def terminal_cases)
    then show ?thesis using lives(1) run by (simp add: AgentOutput endsLog_def)
  next
    case AgentCompleted
    have "reflects (row\<lparr>rowStatus := ExSucceeded, rowFinishedAt := Some moment\<rparr>) (eventsOf d i @ [e])"
      using run fields by (intro reflects_append [OF es live]) (simp_all add: e_fields AgentCompleted endsLog_def terminal_cases)
    then show ?thesis using lives(2) run
      by (simp add: AgentCompleted endsLog_def terminal_cases assertExecutionTransition_def canTransitionExecution_def)
  next
    case (AgentFailed code msg)
    have "reflects (row\<lparr>rowStatus := ExFailed, rowErrorCode := Some code, rowErrorMessage := Some msg, rowFinishedAt := Some moment\<rparr>) (eventsOf d i @ [e])"
      using run fields by (intro reflects_append [OF es live]) (simp_all add: e_fields AgentFailed endsLog_def terminal_cases)
    then show ?thesis using lives(3) run
      by (simp add: AgentFailed endsLog_def terminal_cases assertExecutionTransition_def canTransitionExecution_def)
  qed
  then obtain row' where u: "eventUpdate event moment row = Inr (row', endsLog (eventType event))" "rowId row' = rowId row" "rowKey row' = rowKey row"
    "rowRequest row' = rowRequest row" "life_step (rowStatus row, eventsOf d i) (rowStatus row', eventsOf d i @ [e])"
    "reflects row' (eventsOf d i @ [e])" "if endsLog (eventType event) then isTerminalExecutionStatus (rowStatus row') else rowStatus row' = ExRunning"
    by blast
  have "persistAgentEvent i event moment d =
     Inr (\<lparr>resultEvent = Some e, resultIgnored = False, resultTerminal = endsLog (eventType event)\<rparr>,
          writeRow (\<lambda>_. row') i (insertEvent e d))"
    using row False u(1) by (auto simp: persistAgentEvent_def Let_def e_def)
  moreover have "txOk i d (Some e) (writeRow (\<lambda>_. row') i (insertEvent e d))"
    using u by (intro txOk_append [OF d row]) (auto simp: e_def)
  ultimately show ?thesis using u(7) row by (auto simp: execution_simps)
qed

lemma insertExecution_ok:
  assumes d: "dbOk d" and ins: "insertExecution driver r i moment d = Inr d'"
  shows "dbOk d'" "lives_on d d'" "getExecutionRow d i = None" "jget (idempotencyKeys d) (requestKey r) = None"
    "idempotencyKeys d' = jset (requestKey r) i (idempotencyKeys d)"
    "\<exists>row. getExecutionRow d' i = Some row \<and> rowKey row = requestKey r \<and> rowStatus row = ExPending"
    "j \<noteq> i \<Longrightarrow> getExecutionRow d' j = getExecutionRow d j"
    "eventLog d' = eventLog d"
proof -
  define row where "row = \<lparr>rowId = i, rowKey = requestKey r, rowAgentType = requestAgentType r,
    rowRequest = JObj [(''input'', requestInput r), (''config'', JObj (requestConfig r))], rowStatus = ExPending,
    rowTimeout = requestTimeout r, rowOutput = None, rowErrorCode = None, rowErrorMessage = None,
    rowCreatedAt = moment, rowStartedAt = None, rowFinishedAt = None\<rparr>"
  show new: "getExecutionRow d i = None" and key: "jget (idempotencyKeys d) (requestKey r) = None"
    using ins by (auto simp: insertExecution_def jhas_iff getExecutionRow_def split: if_splits)
  have i: "i \<notin> set (jvalues (idempotencyKeys d))" using ins by (auto simp: insertExecution_def split: if_splits)
  have d': "d' = d\<lparr>executions := jset i row (executions d), idempotencyKeys := jset (requestKey r) i (idempotencyKeys d)\<rparr>"
    using ins by (auto simp: insertExecution_def row_def split: if_splits)
  have get: "getExecutionRow d' j = (if i = j then Some row else getExecutionRow d j)" for j by (simp add: d' getExecutionRow_def)
  then show "j \<noteq> i \<Longrightarrow> getExecutionRow d' j = getExecutionRow d j" by simp
  show keys: "idempotencyKeys d' = jset (requestKey r) i (idempotencyKeys d)" and log: "eventLog d' = eventLog d" by (simp_all add: d')
  show "\<exists>row. getExecutionRow d' i = Some row \<and> rowKey row = requestKey r \<and> rowStatus row = ExPending" by (simp add: get row_def)
  have es: "eventsOf d' j = eventsOf d j" for j by (simp add: d' eventsOf_def)
  have none: "eventsOf d i = []" using d new by (auto simp: dbOk_def eventsOf_def filter_empty_conv)
  show "lives_on d d'" using new by (auto simp: lives_on_def lifeOf_def get es)
  show "dbOk d'"
    unfolding dbOk_def
  proof (intro conjI allI impI ballI)
    show "jwf (executions d')" using d by (simp add: d' dbOk_def)
    show "rowOk d' j r'" if "getExecutionRow d' j = Some r'" for j r'
    proof (cases "j = i")
      case True
      then have "r' = row" using that get by simp
      then show ?thesis using True none
        by (simp add: rowOk_def keys es row_def reflects_def isTerminalExecutionStatus_def validRequest_def asRecord_def)
    next
      case False
      then have "getExecutionRow d j = Some r'" using that get by simp
      from dbOkD(1) [OF d this] key show ?thesis by (auto simp: rowOk_def keys es)
    qed
    show "\<exists>r'. getExecutionRow d' j = Some r' \<and> rowKey r' = k" if k: "jget (idempotencyKeys d') k = Some j" for k j
    proof (cases "k = requestKey r")
      case True
      then show ?thesis using k by (simp add: keys get row_def)
    next
      case False
      then have "jget (idempotencyKeys d) k = Some j" using k by (simp add: keys)
      moreover from this have "j \<noteq> i" using i map_of_SomeD by (force simp: jvalues_def)
      ultimately show ?thesis using d unfolding dbOk_def get by auto
    qed
    show "getExecutionRow d' (executionOf e) \<noteq> None" if "e \<in> set (eventLog d')" for e
      using d that log by (auto simp: dbOk_def get)
  qed
qed

section \<open>The invariant of the service\<close>

text \<open>The status a run has brought its execution to, unless something else has ended it.\<close>

fun phaseStatus :: "run_phase \<Rightarrow> execution_status option" where
  "phaseStatus ReadRow = Some ExPending"
| "phaseStatus (MarkStarting _) = Some ExPending"
| "phaseStatus (CreateAgent _) = Some ExStarting"
| "phaseStatus MarkStartFailed = Some ExStarting"
| "phaseStatus (MarkRunning _) = Some ExStarting"
| "phaseStatus Disposing = None"
| "phaseStatus _ = Some ExRunning"

definition phaseOk :: "supervisor_db \<Rightarrow> string \<Rightarrow> run_phase \<Rightarrow> bool" where
  "phaseOk d i p \<longleftrightarrow> (\<exists>row. getExecutionRow d i = Some row
     \<and> (isTerminalExecutionStatus (rowStatus row) \<or> phaseStatus p = Some (rowStatus row))
     \<and> (case p of MarkStarting row' \<Rightarrow> rowRequest row' = rowRequest row | _ \<Rightarrow> True))"

definition ended :: "supervisor_db \<Rightarrow> string \<Rightarrow> bool" where
  "ended d i \<longleftrightarrow> (\<exists>row. getExecutionRow d i = Some row \<and> isTerminalExecutionStatus (rowStatus row))"

definition createdBy :: "creation \<Rightarrow> string option" where
  "createdBy c = (case c of ReadCreated r i \<Rightarrow> Some i | _ \<Rightarrow> None)"

definition pendingIds :: "service \<Rightarrow> string list" where
  "pendingIds s = somes (map createdBy (creations s))"

definition createdIds :: "service \<Rightarrow> string list" where
  "createdIds s = map (fst \<circ> snd) (filter (snd \<circ> snd) (answers s)) @ pendingIds s"

text \<open>An execution that has not ended is the business of a run, of a call that creates it or of the restart.\<close>

definition attended :: "service \<Rightarrow> string \<Rightarrow> bool" where
  "attended s i \<longleftrightarrow> jget (runs s) i \<noteq> None \<or> i \<in> set (pendingIds s) \<or> i \<in> set (restarting s)"

definition serviceOk :: "service \<Rightarrow> bool" where
  "serviceOk s \<longleftrightarrow> dbOk (db s) \<and> rejections s = []
     \<and> (\<forall>i r. jget (runs s) i = Some r \<longrightarrow> phaseOk (db s) i (runPhase r))
     \<and> (\<forall>r i. ReadCreated r i \<in> set (creations s) \<longrightarrow> jget (runs s) i = None \<and> jget (idempotencyKeys (db s)) (requestKey r) = Some i
          \<and> phaseOk (db s) i ReadRow)
     \<and> distinct (createdIds s)
     \<and> (\<forall>(k, i, c) \<in> set (answers s). jget (idempotencyKeys (db s)) k = Some i)
     \<and> (\<forall>i \<in> set (restarting s) \<union> set (cancelling s). getExecutionRow (db s) i \<noteq> None)
     \<and> (wasStarted s \<longrightarrow> (\<forall>i. getExecutionRow (db s) i \<noteq> None \<longrightarrow> ended (db s) i \<or> attended s i))"

lemma pending_created: "i \<in> set (pendingIds s) \<longleftrightarrow> (\<exists>r. ReadCreated r i \<in> set (creations s))"
  by (force simp: pendingIds_def set_somes createdBy_def split: creation.splits)

lemma commit_sel [execution_simps]:
  "db (commit e d s) = d" "runs (commit e d s) = runs s" "creations (commit e d s) = creations s" "rejections (commit e d s) = rejections s"
  "answers (commit e d s) = answers s" "restarting (commit e d s) = restarting s" "cancelling (commit e d s) = cancelling s"
  "wasStarted (commit e d s) = wasStarted s" "pendingIds (commit e d s) = pendingIds s" "createdIds (commit e d s) = createdIds s"
  by (simp_all add: commit_def pendingIds_def createdIds_def)

lemma runs_upd_sel [execution_simps]:
  "pendingIds (s\<lparr>runs := rs\<rparr>) = pendingIds s" "createdIds (s\<lparr>runs := rs\<rparr>) = createdIds s"
  by (simp_all add: pendingIds_def createdIds_def)

lemma ended_phaseOk:
  "ended d i \<Longrightarrow> (\<And>row' row. p = MarkStarting row' \<Longrightarrow> getExecutionRow d i = Some row \<Longrightarrow> rowRequest row' = rowRequest row) \<Longrightarrow> phaseOk d i p"
  by (auto simp: ended_def phaseOk_def split: run_phase.split)

text \<open>A transaction on \<open>i\<close> together with a change of its run.\<close>

lemma move_ok:
  assumes s: "serviceOk s" and tx: "txOk i (db s) e d"
    and others: "\<And>j. j \<noteq> i \<Longrightarrow> jget rs j = jget (runs s) j"
    and phase: "\<And>r. jget rs i = Some r \<Longrightarrow> phaseOk d i (runPhase r)"
    and seen: "ended d i \<or> jget rs i \<noteq> None \<or> d = db s \<and> jget rs i = jget (runs s) i"
    and pending: "i \<in> set (pendingIds s) \<Longrightarrow> jget rs i = None \<and> phaseOk d i ReadRow"
  shows "serviceOk ((commit e d s)\<lparr>runs := rs\<rparr>)"
proof -
  let ?s = "(commit e d s)\<lparr>runs := rs\<rparr>"
  have frame: "frame i (db s) d" and d: "dbOk d" using tx by (simp_all add: txOk_def)
  have keys: "idempotencyKeys d = idempotencyKeys (db s)" and get: "j \<noteq> i \<Longrightarrow> getExecutionRow d j = getExecutionRow (db s) j" for j
    using frame by (simp_all add: frame_def)
  have exists: "getExecutionRow d j \<noteq> None \<longleftrightarrow> getExecutionRow (db s) j \<noteq> None" for j
    using frame by (cases "j = i") (auto simp: frame_def)
  have same: "phaseOk d j p \<longleftrightarrow> phaseOk (db s) j p" "ended d j \<longleftrightarrow> ended (db s) j" if "j \<noteq> i" for j p
    using get [OF that] by (simp_all add: phaseOk_def ended_def)
  have runs_ok: "phaseOk d j (runPhase r)" if "jget rs j = Some r" for j r
    using that phase others [of j] same [of j] s by (cases "j = i") (auto simp: serviceOk_def)
  have created: "jget rs j = None \<and> jget (idempotencyKeys d) (requestKey r) = Some j \<and> phaseOk d j ReadRow"
    if "ReadCreated r j \<in> set (creations s)" for r j
  proof -
    have old: "jget (runs s) j = None" "jget (idempotencyKeys (db s)) (requestKey r) = Some j" "phaseOk (db s) j ReadRow"
      using s that unfolding serviceOk_def by blast+
    show ?thesis
    proof (cases "j = i")
      case True
      then show ?thesis using pending old(2) keys that pending_created [of i s] by auto
    next
      case False
      then show ?thesis using old others same keys by auto
    qed
  qed
  have att: "ended d j \<or> attended ?s j" if "wasStarted s" "getExecutionRow d j \<noteq> None" for j
  proof -
    have old: "ended (db s) j \<or> attended s j" using s that exists unfolding serviceOk_def by blast
    show ?thesis
    proof (cases "j = i")
      case True
      then show ?thesis using seen old by (auto simp: attended_def execution_simps)
    next
      case False
      then show ?thesis using old same others [of j] by (simp add: attended_def execution_simps)
    qed
  qed
  show ?thesis
    using s d runs_ok created att exists unfolding serviceOk_def by (simp add: execution_simps keys)
qed

lemma setPhase_runs: "jget (runs s) i = Some r \<Longrightarrow> setPhase i p s = s\<lparr>runs := jset i (r\<lparr>runPhase := p\<rparr>) (runs s)\<rparr>"
  by (simp add: setPhase_def)

lemma own_ok:
  assumes "serviceOk s" "jget (runs s) i = Some r" "txOk i (db s) e d" "phaseOk d i p"
  shows "serviceOk (setPhase i p (commit e d s))"
proof -
  have "i \<notin> set (pendingIds s)" using assms(1, 2) unfolding serviceOk_def pending_created by force
  then have "serviceOk ((commit e d s)\<lparr>runs := jset i (r\<lparr>runPhase := p\<rparr>) (runs s)\<rparr>)"
    using assms(4) by (intro move_ok [OF assms(1, 3)]) auto
  then show ?thesis using assms(2) by (simp add: setPhase_runs execution_simps)
qed

lemma commit_nothing [simp]: "commit None (db s) s = s"
  by (simp add: commit_def)

lemma own_step_ok:
  "serviceOk s \<Longrightarrow> jget (runs s) i = Some r \<Longrightarrow> phaseOk (db s) i p \<Longrightarrow> serviceOk (setPhase i p s)"
  using own_ok [of s i r None "db s" p] txOk_none [of "db s" i] by (simp add: serviceOk_def)

lemma stop_ok:
  assumes "serviceOk s" "txOk i (db s) e d" "ended d i"
  shows "serviceOk (commit e d s)"
proof -
  have "phaseOk d i (runPhase r)" if "jget (runs s) i = Some r" for r
  proof (rule ended_phaseOk [OF assms(3)])
    fix row' row assume p: "runPhase r = MarkStarting row'" and row: "getExecutionRow d i = Some row"
    have "phaseOk (db s) i (runPhase r)" using assms(1) that unfolding serviceOk_def by blast
    then obtain row0 where "getExecutionRow (db s) i = Some row0" "rowRequest row' = rowRequest row0"
      unfolding phaseOk_def p by auto
    then show "rowRequest row' = rowRequest row" using assms(2) row by (auto simp: txOk_def frame_def)
  qed
  moreover have "jget (runs s) i = None \<and> phaseOk d i ReadRow" if "i \<in> set (pendingIds s)"
    using that assms(1) ended_phaseOk [OF assms(3), of ReadRow] unfolding serviceOk_def pending_created by auto
  ultimately have "serviceOk ((commit e d s)\<lparr>runs := runs s\<rparr>)"
    using assms(3) by (intro move_ok [OF assms(1, 2)]) auto
  then show ?thesis by (simp add: commit_def)
qed

lemma finish_ok:
  assumes "serviceOk s" "ended (db s) i"
  shows "serviceOk (finishRun i s)"
proof (cases "jget (runs s) i")
  case None
  then show ?thesis using assms(1) by (simp add: finishRun_def)
next
  case (Some r)
  have tx: "txOk i (db s) None (db s)" using assms(1) by (intro txOk_none) (simp add: serviceOk_def)
  have new: "i \<notin> set (pendingIds s)" using assms(1) Some unfolding serviceOk_def pending_created by force
  show ?thesis
  proof (cases "runAgent r")
    case True
    then show ?thesis using own_step_ok [OF assms(1) Some, of Disposing] ended_phaseOk [OF assms(2), of Disposing] Some
      by (simp add: finishRun_def)
  next
    case False
    have "serviceOk ((commit None (db s) s)\<lparr>runs := jdelete i (runs s)\<rparr>)"
      using new assms(2) by (intro move_ok [OF assms(1) tx]) auto
    then show ?thesis using False Some by (simp add: finishRun_def)
  qed
qed

lemma serviceOkD:
  assumes "serviceOk s"
  shows "dbOk (db s)" "rejections s = []" "jget (runs s) i = Some r \<Longrightarrow> phaseOk (db s) i (runPhase r)"
    "ReadCreated q i \<in> set (creations s) \<Longrightarrow> jget (runs s) i = None \<and> jget (idempotencyKeys (db s)) (requestKey q) = Some i \<and> phaseOk (db s) i ReadRow"
    "i \<in> set (restarting s) \<or> i \<in> set (cancelling s) \<Longrightarrow> getExecutionRow (db s) i \<noteq> None"
    "wasStarted s \<Longrightarrow> getExecutionRow (db s) i \<noteq> None \<Longrightarrow> ended (db s) i \<or> attended s i"
    "distinct (createdIds s)" "(k, i, c) \<in> set (answers s) \<Longrightarrow> jget (idempotencyKeys (db s)) k = Some i"
proof -
  note ok = assms [unfolded serviceOk_def]
  show "dbOk (db s)" "rejections s = []" "distinct (createdIds s)" using ok by simp_all
  show "phaseOk (db s) i (runPhase r)" if "jget (runs s) i = Some r" using ok that by simp
  show "jget (runs s) i = None \<and> jget (idempotencyKeys (db s)) (requestKey q) = Some i \<and> phaseOk (db s) i ReadRow"
    if "ReadCreated q i \<in> set (creations s)" using ok that by simp
  show "getExecutionRow (db s) i \<noteq> None" if "i \<in> set (restarting s) \<or> i \<in> set (cancelling s)" using ok that by auto
  show "ended (db s) i \<or> attended s i" if "wasStarted s" "getExecutionRow (db s) i \<noteq> None" using ok that by simp
  show "jget (idempotencyKeys (db s)) k = Some i" if "(k, i, c) \<in> set (answers s)" using ok that by auto
qed

lemma serviceOkI:
  assumes "dbOk (db s)" "rejections s = []" "\<And>i r. jget (runs s) i = Some r \<Longrightarrow> phaseOk (db s) i (runPhase r)"
    and calls: "\<And>q i. ReadCreated q i \<in> set (creations s) \<Longrightarrow>
      jget (runs s) i = None \<and> jget (idempotencyKeys (db s)) (requestKey q) = Some i \<and> phaseOk (db s) i ReadRow"
    and "\<And>i. i \<in> set (restarting s) \<or> i \<in> set (cancelling s) \<Longrightarrow> getExecutionRow (db s) i \<noteq> None"
    and "\<And>i. wasStarted s \<Longrightarrow> getExecutionRow (db s) i \<noteq> None \<Longrightarrow> ended (db s) i \<or> attended s i"
    and "distinct (createdIds s)" "\<And>k i c. (k, i, c) \<in> set (answers s) \<Longrightarrow> jget (idempotencyKeys (db s)) k = Some i"
  shows "serviceOk s"
  unfolding serviceOk_def
proof (intro conjI allI impI ballI)
  show "getExecutionRow (db s) i \<noteq> None" if "i \<in> set (restarting s) \<union> set (cancelling s)" for i using assms(5) that by blast
  show "case e of (k, i, c) \<Rightarrow> jget (idempotencyKeys (db s)) k = Some i" if "e \<in> set (answers s)" for e using assms(8) that by (cases e) blast
qed (use assms(1-3, 6, 7) calls in blast)+

lemma stop_run_ok:
  assumes s: "serviceOk s" and row: "getExecutionRow (db s) i \<noteq> None" and target: "target \<in> {ExFailed, ExCancelled, ExTimedOut}"
  shows "\<exists>e d. markTerminal i target code msg moment (db s) = Inr (e, d) \<and> serviceOk (commit e d s) \<and> ended d i \<and> (e = None \<longrightarrow> d = db s)
     \<and> txOk i (db s) e d"
proof -
  obtain r where r: "getExecutionRow (db s) i = Some r" using row by auto
  obtain e d where m: "markTerminal i target code msg moment (db s) = Inr (e, d)" "txOk i (db s) e d" "ended d i" "e = None \<longrightarrow> d = db s"
    using markTerminal_ok [OF serviceOkD(1) [OF s] r target, of code msg moment] unfolding ended_def by blast
  show ?thesis by (intro exI conjI) (rule m(1) stop_ok [OF s m(2, 3)] m(3) m(4) m(2))+
qed

lemma resume_ok:
  assumes s: "serviceOk s" and r: "jget (runs s) i = Some r"
  shows "serviceOk (resumeRun i (runPhase r) moment s)"
proof -
  obtain row where row: "getExecutionRow (db s) i = Some row"
    and st: "isTerminalExecutionStatus (rowStatus row) \<or> phaseStatus (runPhase r) = Some (rowStatus row)"
    and case_req: "case runPhase r of MarkStarting row' \<Rightarrow> rowRequest row' = rowRequest row | _ \<Rightarrow> True"
    using serviceOkD(3) [OF s r] unfolding phaseOk_def by blast
  have req: "rowRequest row' = rowRequest row" if "runPhase r = MarkStarting row'" for row' using case_req that by simp
  have d: "dbOk (db s)" by (rule serviceOkD(1) [OF s])
  have exists: "getExecutionRow (db s) i \<noteq> None" using row by simp
  have over: "serviceOk (finishRun i s)" if "isTerminalExecutionStatus (rowStatus row)"
    using that row by (intro finish_ok [OF s]) (auto simp: ended_def)
  have next_phase: "serviceOk (setPhase i p s)" if "phaseStatus p = phaseStatus (runPhase r)" "\<And>row'. p = MarkStarting row' \<Longrightarrow> row' = row" for p
    using that st row by (intro own_step_ok [OF s r]) (auto simp: phaseOk_def split: run_phase.splits)
  have finished: "serviceOk (finishRun i (commit e d' s))" if "serviceOk (commit e d' s)" "ended d' i" for e d'
    using that by (intro finish_ok) (simp_all add: execution_simps)
  show ?thesis
  proof (cases "runPhase r")
    case ReadRow
    then show ?thesis using row over next_phase [of "MarkStarting row"] by simp
  next
    case (MarkStarting row')
    obtain d' row'' where t: "transitionStatus i ExStarting moment (db s) = Inr (\<not> isTerminalExecutionStatus (rowStatus row), d')"
      "txOk i (db s) None d'" "getExecutionRow d' i = Some row''"
      "isTerminalExecutionStatus (rowStatus row) \<and> d' = db s \<or> rowStatus row'' = ExStarting"
      using transitionStatus_ok [OF d row, of ExStarting moment] st MarkStarting by auto
    have "validRequest (rowRequest row')" using req MarkStarting dbOkD(1) [OF d row] by (simp add: rowOk_def)
    then obtain request where request: "agentRequest row' = Inr request" using valid_request by blast
    show ?thesis
    proof (cases "isTerminalExecutionStatus (rowStatus row)")
      case True
      then show ?thesis using t(1) over MarkStarting by simp
    next
      case False
      then have "phaseOk d' i (CreateAgent request)" using t(3, 4) by (simp add: phaseOk_def)
      from own_ok [OF s r t(2) this] show ?thesis using t(1) False MarkStarting request by simp
    qed
  next
    case MarkStartFailed
    obtain e d' where "markTerminal i ExFailed ''agent_start_failed'' ''The agent could not be started'' moment (db s) = Inr (e, d')"
      "serviceOk (commit e d' s)" "ended d' i" using stop_run_ok [OF s exists, of ExFailed] by blast
    then show ?thesis using finished MarkStartFailed by simp
  next
    case (MarkRunning request)
    obtain d' row'' where t: "transitionStatus i ExRunning moment (db s) = Inr (\<not> isTerminalExecutionStatus (rowStatus row), d')"
      "txOk i (db s) None d'" "getExecutionRow d' i = Some row''"
      "isTerminalExecutionStatus (rowStatus row) \<and> d' = db s \<or> rowStatus row'' = ExRunning"
      using transitionStatus_ok [OF d row, of ExRunning moment] st MarkRunning by auto
    show ?thesis
    proof (cases "isTerminalExecutionStatus (rowStatus row)")
      case True
      then show ?thesis using t(1) over MarkRunning by simp
    next
      case False
      then have "phaseOk d' i NextEvent" using t(3, 4) by (simp add: phaseOk_def)
      from own_ok [OF s r t(2) this] show ?thesis using t(1) False MarkRunning by simp
    qed
  next
    case MarkInvalid
    obtain e d' where m: "markTerminal i ExFailed ''invalid_agent_event'' ''The agent emitted an invalid event'' moment (db s) = Inr (e, d')"
      "ended d' i" "txOk i (db s) e d'" using stop_run_ok [OF s exists, of ExFailed] by blast
    from own_ok [OF s r m(3) ended_phaseOk [OF m(2), of LeaveStream]] show ?thesis using m(1) MarkInvalid by simp
  next
    case (PersistEvent event)
    obtain result d' row' where t: "persistAgentEvent i event moment (db s) = Inr (result, d')" "txOk i (db s) (resultEvent result) d'"
      "getExecutionRow d' i = Some row'"
      "if resultTerminal result then isTerminalExecutionStatus (rowStatus row') else rowStatus row' = ExRunning"
      using persistAgentEvent_ok [OF d row, of event moment] st PersistEvent by auto
    have "phaseOk d' i (if resultTerminal result then LeaveStream else NextEvent)"
      using t(3, 4) by (auto simp: phaseOk_def split: if_splits)
    from own_ok [OF s r t(2) this] show ?thesis using t(1) PersistEvent by simp
  next
    case ReadEnded
    then show ?thesis using row over next_phase [of MarkEnded] by simp
  next
    case MarkEnded
    obtain e d' where "markTerminal i ExFailed ''agent_stream_ended'' ''The agent ended without a terminal event'' moment (db s) = Inr (e, d')"
      "serviceOk (commit e d' s)" "ended d' i" using stop_run_ok [OF s exists, of ExFailed] by blast
    then show ?thesis using finished MarkEnded by simp
  next
    case ReadThrown
    then show ?thesis using row over next_phase [of MarkThrown] by simp
  next
    case MarkThrown
    obtain e d' where "markTerminal i ExFailed ''agent_exception'' ''The agent failed unexpectedly'' moment (db s) = Inr (e, d')"
      "serviceOk (commit e d' s)" "ended d' i" using stop_run_ok [OF s exists, of ExFailed] by blast
    then show ?thesis using finished MarkThrown by simp
  qed (use s in simp_all)
qed

lemma service_db [execution_simps]:
  "db (setPhase i p s) = db s" "db (finishRun i s) = db s" "db (rejectRun i e s) = db s" "db (abortRun i s) = db s"
  "db (scheduleRun i s) = db s" "db (dropCreation n s) = db s" "db (answerWith n a s) = db s" "db (failWith n e s) = db s"
  by (simp_all add: setPhase_def finishRun_def rejectRun_def abortRun_def scheduleRun_def dropCreation_def answerWith_def failWith_def
      split: option.split)

lemma markTerminal_lives:
  assumes "dbOk d" "markTerminal i target code msg moment d = Inr (e, d')" "target \<in> {ExFailed, ExCancelled, ExTimedOut}"
  shows "lives_on d d'"
proof -
  obtain row where "getExecutionRow d i = Some row" using assms(2) by (auto simp: markTerminal_def split: option.splits)
  from markTerminal_ok [OF assms(1) this assms(3), of code msg moment] show ?thesis using assms(2) by (auto simp: txOk_def)
qed

lemma transition_lives:
  assumes "dbOk d" "transitionStatus i target moment d = Inr (b, d')" "target \<in> {ExStarting, ExRunning}"
  shows "lives_on d d'"
proof -
  obtain row where row: "getExecutionRow d i = Some row" using assms(2) by (auto simp: transitionStatus_def split: option.splits)
  show ?thesis
  proof (cases "(target, rowStatus row) \<in> {(ExStarting, ExPending), (ExRunning, ExStarting)} \<or> isTerminalExecutionStatus (rowStatus row)")
    case True
    from transitionStatus_ok [OF assms(1) row True, of moment] show ?thesis using assms(2) by (auto simp: txOk_def)
  next
    case False
    then have "rowStatus row = target \<or> \<not> canTransitionExecution (rowStatus row) target"
      using assms(3) by (cases "rowStatus row") (auto simp: canTransitionExecution_def)
    then have "d' = d" using assms(2) False row by (auto simp: transitionStatus_def assertExecutionTransition_def split: if_splits)
    then show ?thesis by simp
  qed
qed

lemma resume_lives:
  assumes s: "serviceOk s" and r: "jget (runs s) i = Some r"
  shows "lives_on (db s) (db (resumeRun i (runPhase r) moment s))"
proof -
  note d = serviceOkD(1) [OF s]
  show ?thesis
  proof (cases "runPhase r")
    case (PersistEvent event)
    obtain row where row: "getExecutionRow (db s) i = Some row"
      and st: "isTerminalExecutionStatus (rowStatus row) \<or> phaseStatus (runPhase r) = Some (rowStatus row)"
      using serviceOkD(3) [OF s r] unfolding phaseOk_def by blast
    have "rowStatus row = ExRunning \<or> isTerminalExecutionStatus (rowStatus row)" using st PersistEvent by auto
    from persistAgentEvent_ok [OF d row this, of event moment] obtain q d' where
      "persistAgentEvent i event moment (db s) = Inr (q, d')" "txOk i (db s) (resultEvent q) d'" by blast
    then show ?thesis using PersistEvent by (simp add: execution_simps txOk_def)
  qed (auto simp: execution_simps split: sum.split option.split intro: markTerminal_lives [OF d] transition_lives [OF d])
qed

text \<open>What a step of the service keeps and promises.\<close>

definition advances :: "service \<Rightarrow> service \<Rightarrow> bool" where
  "advances s s' \<longleftrightarrow> serviceOk s' \<and> lives_on (db s) (db s')"

lemma advancesI: "serviceOk s' \<Longrightarrow> lives_on (db s) (db s') \<Longrightarrow> advances s s'"
  by (simp add: advances_def)

lemma phaseOk_to:
  assumes "phaseOk d i p" "phaseStatus q = phaseStatus p" "\<And>row. q \<noteq> MarkStarting row"
  shows "phaseOk d i q"
proof -
  obtain row where "getExecutionRow d i = Some row" "isTerminalExecutionStatus (rowStatus row) \<or> phaseStatus p = Some (rowStatus row)"
    using assms(1) unfolding phaseOk_def by blast
  then show ?thesis using assms(2, 3) unfolding phaseOk_def by (cases q) auto
qed

lemma continueRun_ok:
  assumes s: "serviceOk s"
  shows "advances s (continueRun i input s)"
proof (cases "jget (runs s) i")
  case None
  then show ?thesis using s by (simp add: continueRun_def advances_def)
next
  case (Some r)
  have phase: "phaseOk (db s) i (runPhase r)" by (rule serviceOkD(3) [OF s Some])
  have new: "i \<notin> set (pendingIds s)" using serviceOkD(4) [OF s] Some unfolding pending_created by force
  have to: "advances s (setPhase i p s)" if "phaseStatus p = phaseStatus (runPhase r)" "\<And>row. p \<noteq> MarkStarting row" for p
    using own_step_ok [OF s Some phaseOk_to [OF phase that]] by (simp add: advances_def execution_simps)
  have set_run: "advances s (s\<lparr>runs := jset i r' (runs s)\<rparr>)" if "phaseOk (db s) i (runPhase r')" for r'
    using move_ok [OF s txOk_none [OF serviceOkD(1) [OF s]], where i = i and rs = "jset i r' (runs s)"] that new
    by (simp add: advances_def)
  show ?thesis
  proof (cases input)
    case (Resume moment)
    then show ?thesis using Some resume_ok [OF s Some] resume_lives [OF s Some] by (simp add: continueRun_def advances_def)
  next
    case AgentCreated
    have "phaseOk (db s) i (MarkRunning request)" if "runPhase r = CreateAgent request" for request using phase that by (simp add: phaseOk_def)
    then show ?thesis using Some s set_run AgentCreated by (cases "runPhase r") (simp_all add: continueRun_def advances_def)
  next
    case AgentDisposed
    have "advances s (s\<lparr>runs := jdelete i (runs s)\<rparr>)" if "runPhase r = Disposing"
    proof -
      have "ended (db s) i" using phase that by (auto simp: phaseOk_def ended_def)
      then show ?thesis
        using move_ok [OF s txOk_none [OF serviceOkD(1) [OF s]], where i = i and rs = "jdelete i (runs s)"] new by (simp add: advances_def)
    qed
    then show ?thesis using Some s AgentDisposed by (cases "runPhase r") (simp_all add: continueRun_def advances_def)
  qed (use Some s to in \<open>cases "runPhase r"; simp add: continueRun_def advances_def\<close>)+
qed

lemma drop_created:
  assumes "n < length (creations s)"
  shows "ReadCreated q j \<in> set (creations (dropCreation n s)) \<Longrightarrow> ReadCreated q j \<in> set (creations s)"
    "mset (pendingIds s) = mset (pendingIds (dropCreation n s)) + (case createdBy (creations s ! n) of None \<Rightarrow> {#} | Some i \<Rightarrow> {#i#})"
proof -
  have split: "creations s = take n (creations s) @ creations s ! n # drop (Suc n) (creations s)"
    by (rule id_take_nth_drop [OF assms])
  show "ReadCreated q j \<in> set (creations (dropCreation n s)) \<Longrightarrow> ReadCreated q j \<in> set (creations s)"
    by (auto simp: dropCreation_def dest: in_set_takeD in_set_dropD)
  show "mset (pendingIds s) = mset (pendingIds (dropCreation n s)) + (case createdBy (creations s ! n) of None \<Rightarrow> {#} | Some i \<Rightarrow> {#i#})"
    unfolding pendingIds_def by (subst split) (simp add: dropCreation_def split: option.split)
qed

lemma update_created:
  assumes "n < length (creations s)"
  shows "mset (pendingIds (s\<lparr>creations := (creations s)[n := c]\<rparr>)) + (case createdBy (creations s ! n) of None \<Rightarrow> {#} | Some i \<Rightarrow> {#i#})
     = mset (pendingIds s) + (case createdBy c of None \<Rightarrow> {#} | Some i \<Rightarrow> {#i#})"
proof -
  have split: "creations s = take n (creations s) @ creations s ! n # drop (Suc n) (creations s)"
    by (rule id_take_nth_drop [OF assms])
  have upd: "(creations s)[n := c] = take n (creations s) @ c # drop (Suc n) (creations s)"
    by (rule upd_conv_take_nth_drop [OF assms])
  have old: "mset (pendingIds s) = mset (somes (map createdBy (take n (creations s)))) + (case createdBy (creations s ! n) of None \<Rightarrow> {#} | Some i \<Rightarrow> {#i#})
      + mset (somes (map createdBy (drop (Suc n) (creations s))))"
    unfolding pendingIds_def by (subst split) (simp split: option.split)
  show ?thesis unfolding old by (simp add: pendingIds_def upd split: option.split)
qed

text \<open>A change of the calls in progress, the answers and the failures alone.\<close>

lemma calls_ok:
  assumes s: "serviceOk s" and same: "db s' = db s" "runs s' = runs s" "rejections s' = rejections s" "wasStarted s' = wasStarted s"
    "restarting s' = restarting s"
    and cancel: "set (cancelling s') \<subseteq> {i. getExecutionRow (db s) i \<noteq> None}"
    and calls: "\<And>q j. ReadCreated q j \<in> set (creations s') \<Longrightarrow> ReadCreated q j \<in> set (creations s)"
    and pending: "set (pendingIds s) \<subseteq> set (pendingIds s') \<union> {j. ended (db s) j \<or> jget (runs s) j \<noteq> None}"
    and ids: "distinct (createdIds s')"
    and answered: "\<And>k i c. (k, i, c) \<in> set (answers s') \<Longrightarrow> jget (idempotencyKeys (db s)) k = Some i"
  shows "advances s s'"
proof -
  have "ended (db s) i \<or> attended s' i" if "wasStarted s" "getExecutionRow (db s) i \<noteq> None" for i
    using serviceOkD(6) [OF s that] pending same by (auto simp: attended_def)
  moreover have "getExecutionRow (db s) i \<noteq> None" if "i \<in> set (restarting s') \<or> i \<in> set (cancelling s')" for i
    using that cancel serviceOkD(5) [OF s] same(5) by auto
  moreover have "jget (runs s) i = None \<and> jget (idempotencyKeys (db s)) (requestKey q) = Some i \<and> phaseOk (db s) i ReadRow"
    if "ReadCreated q i \<in> set (creations s')" for q i by (rule serviceOkD(4) [OF s calls [OF that]])
  ultimately have "serviceOk s'"
    using serviceOkD(1-3) [OF s] ids answered by (intro serviceOkI) (simp_all add: same)
  then show ?thesis by (simp add: advances_def same)
qed

lemma find_key:
  assumes "dbOk d" "findByIdempotencyKey d k = Some row"
  shows "jget (idempotencyKeys d) k = Some (rowId row)"
proof -
  obtain i where i: "jget (idempotencyKeys d) k = Some i" "getExecutionRow d i = Some row"
    using assms(2) by (auto simp: findByIdempotencyKey_def bind_eq_Some_conv)
  then show ?thesis using dbOkD(1) [OF assms(1) i(2)] by (simp add: rowOk_def)
qed

lemma distinct_created: "distinct (createdIds s) \<longleftrightarrow>
   distinct (map (fst \<circ> snd) (filter (snd \<circ> snd) (answers s))) \<and> distinct (pendingIds s)
     \<and> set (map (fst \<circ> snd) (filter (snd \<circ> snd) (answers s))) \<inter> set (pendingIds s) = {}"
  by (simp add: createdIds_def)

lemma call_sel [execution_simps]:
  "answers (dropCreation n s) = answers s" "answers (answerWith n a s) = answers s @ [a]" "answers (failWith n e s) = answers s"
  "creations (answerWith n a s) = creations (dropCreation n s)" "creations (failWith n e s) = creations (dropCreation n s)"
  "pendingIds (answerWith n a s) = pendingIds (dropCreation n s)" "pendingIds (failWith n e s) = pendingIds (dropCreation n s)"
  "runs (dropCreation n s) = runs s" "runs (answerWith n a s) = runs s" "runs (failWith n e s) = runs s"
  "rejections (dropCreation n s) = rejections s" "rejections (answerWith n a s) = rejections s" "rejections (failWith n e s) = rejections s"
  "wasStarted (dropCreation n s) = wasStarted s" "wasStarted (answerWith n a s) = wasStarted s" "wasStarted (failWith n e s) = wasStarted s"
  "restarting (dropCreation n s) = restarting s" "restarting (answerWith n a s) = restarting s" "restarting (failWith n e s) = restarting s"
  "cancelling (dropCreation n s) = cancelling s" "cancelling (answerWith n a s) = cancelling s" "cancelling (failWith n e s) = cancelling s"
  by (simp_all add: dropCreation_def answerWith_def failWith_def pendingIds_def)

lemma pendingIds_only: "creations s = creations s' \<Longrightarrow> pendingIds s = pendingIds s'"
  by (simp add: pendingIds_def)

lemma distinct_mset: "mset xs = mset ys \<Longrightarrow> distinct ys \<Longrightarrow> distinct xs"
  by (metis mset_eq_imp_distinct_iff)

lemma reply_ok:
  assumes s: "serviceOk s" and n: "n < length (creations s)" and c: "createdBy (creations s ! n) = None"
  shows "jget (idempotencyKeys (db s)) k = Some i \<Longrightarrow> advances s (answerWith n (k, i, False) s)" "advances s (failWith n e s)"
proof -
  have pending: "mset (pendingIds s) = mset (pendingIds (dropCreation n s))" using drop_created(2) [OF n] c by simp
  then have same: "set (pendingIds s) = set (pendingIds (dropCreation n s))" by (metis set_mset_mset)
  have ids: "mset (createdIds (answerWith n (k, i, False) s)) = mset (createdIds s)" "mset (createdIds (failWith n e s)) = mset (createdIds s)"
    using pending by (simp_all add: createdIds_def execution_simps)
  show "advances s (failWith n e s)"
    using drop_created(1) [OF n] same serviceOkD [OF s] distinct_mset [OF ids(2)]
    by (intro calls_ok [OF s]) (auto simp: execution_simps)
  show "advances s (answerWith n (k, i, False) s)" if "jget (idempotencyKeys (db s)) k = Some i"
    using drop_created(1) [OF n] same serviceOkD [OF s] distinct_mset [OF ids(1)] that
    by (intro calls_ok [OF s]) (auto simp: execution_simps)
qed

lemma move_call_ok:
  assumes s: "serviceOk s" and n: "n < length (creations s)" and c: "createdBy (creations s ! n) = None" "createdBy c = None"
  shows "advances s (s\<lparr>creations := (creations s)[n := c]\<rparr>)"
proof -
  let ?s = "s\<lparr>creations := (creations s)[n := c]\<rparr>"
  have pending: "mset (pendingIds ?s) = mset (pendingIds s)" using update_created [OF n, of c] c by simp
  then have same: "set (pendingIds ?s) = set (pendingIds s)" by (metis set_mset_mset)
  have "mset (createdIds ?s) = mset (createdIds s)" using pending by (simp add: createdIds_def)
  moreover have "ReadCreated q j \<in> set (creations s)" if "ReadCreated q j \<in> set (creations ?s)" for q j
    using that c(2) set_update_subset_insert [of "creations s" n c] by (auto simp: createdBy_def)
  ultimately show ?thesis
    using same serviceOkD [OF s] distinct_mset by (intro calls_ok [OF s]) auto
qed

text \<open>A run begins when the call that created its execution answers.\<close>

lemma schedule_ok:
  assumes s: "serviceOk s" and n: "n < length (creations s)" and c: "creations s ! n = ReadCreated r i"
  shows "advances s (answerWith n (requestKey r, i, True) (scheduleRun i s))"
proof -
  let ?s = "answerWith n (requestKey r, i, True) (scheduleRun i s)"
  have in_calls: "ReadCreated r i \<in> set (creations s)" using n c nth_mem by metis
  note old = serviceOkD(4) [OF s in_calls]
  have pend: "pendingIds ?s = pendingIds (dropCreation n s)"
    by (rule pendingIds_only) (simp add: answerWith_def dropCreation_def scheduleRun_def)
  have calls: "creations ?s = creations (dropCreation n s)" by (simp add: answerWith_def dropCreation_def scheduleRun_def)
  have pending: "mset (pendingIds s) = mset (pendingIds ?s) + {#i#}" unfolding pend using drop_created(2) [OF n] c by (simp add: createdBy_def)
  then have mem: "set (pendingIds s) = insert i (set (pendingIds ?s))" by (metis set_mset_mset set_mset_add_mset_insert union_mset_add_mset_right add.right_neutral)
  have "mset (createdIds ?s) = mset (createdIds s)" using pending by (simp add: createdIds_def execution_simps) (simp add: scheduleRun_def)
  from distinct_mset [OF this serviceOkD(7) [OF s]] have ids: "distinct (createdIds ?s)" .
  moreover have "distinct (pendingIds s)" using serviceOkD(7) [OF s] by (simp add: distinct_created)
  then have gone: "i \<notin> set (pendingIds ?s)"
    using pending mset_eq_imp_distinct_iff [of "pendingIds s" "i # pendingIds ?s"] by simp
  have sel: "db ?s = db s" "runs ?s = jset i \<lparr>runPhase = ReadRow, runAborted = False, runAgent = False\<rparr> (runs s)" "rejections ?s = rejections s"
    "restarting ?s = restarting s" "cancelling ?s = cancelling s" "wasStarted ?s = wasStarted s"
    "answers ?s = answers s @ [(requestKey r, i, True)]"
    by (simp_all add: execution_simps) (simp_all add: scheduleRun_def)
  have "serviceOk ?s"
  proof (rule serviceOkI)
    show "phaseOk (db ?s) j (runPhase q)" if "jget (runs ?s) j = Some q" for j q
      using that old serviceOkD(3) [OF s, of j q] by (auto simp: sel split: if_splits)
    show "jget (runs ?s) j = None \<and> jget (idempotencyKeys (db ?s)) (requestKey q) = Some j \<and> phaseOk (db ?s) j ReadRow"
      if q: "ReadCreated q j \<in> set (creations ?s)" for q j
    proof -
      have "j \<in> set (pendingIds ?s)" using q pending_created by blast
      then have "j \<noteq> i" using gone by blast
      then show ?thesis using serviceOkD(4) [OF s drop_created(1) [OF n]] q by (simp add: sel calls)
    qed
    show "ended (db ?s) j \<or> attended ?s j" if "wasStarted ?s" "getExecutionRow (db ?s) j \<noteq> None" for j
      using serviceOkD(6) [OF s, of j] that mem by (auto simp: sel attended_def)
    show "jget (idempotencyKeys (db ?s)) k = Some j" if "(k, j, b) \<in> set (answers ?s)" for k j b
      using that old serviceOkD(8) [OF s] by (auto simp: sel)
  qed (use serviceOkD [OF s] ids in \<open>simp_all add: sel\<close>)
  then show ?thesis by (simp add: advances_def sel)
qed

lemma insert_ok:
  assumes s: "serviceOk s" and n: "n < length (creations s)" and c: "creations s ! n = Insert r"
    and ins: "insertExecution driver r i moment (db s) = Inr d"
  shows "advances s (s\<lparr>db := d, creations := (creations s)[n := ReadCreated r i]\<rparr>)"
proof -
  let ?s = "s\<lparr>db := d, creations := (creations s)[n := ReadCreated r i]\<rparr>"
  note new = insertExecution_ok [OF serviceOkD(1) [OF s] ins]
  have same: "phaseOk d j p \<longleftrightarrow> phaseOk (db s) j p" "ended d j \<longleftrightarrow> ended (db s) j" if "j \<noteq> i" for j p
    using new(7) [OF that] by (simp_all add: phaseOk_def ended_def)
  have old_phase: "\<not> phaseOk (db s) i p" for p using new(3) by (simp add: phaseOk_def)
  have i_new: "phaseOk d i ReadRow" using new(6) by (auto simp: phaseOk_def)
  have i_run: "jget (runs s) i = None" using serviceOkD(3) [OF s, of i] old_phase by (cases "jget (runs s) i") auto
  have keys: "jget (idempotencyKeys d) k = (if k = requestKey r then Some i else jget (idempotencyKeys (db s)) k)" for k
    by (simp add: new(5))
  have key_row: "getExecutionRow (db s) j \<noteq> None" if "jget (idempotencyKeys (db s)) k = Some j" for k j
    using serviceOkD(1) [OF s] that unfolding dbOk_def by force
  have "mset (pendingIds (s\<lparr>creations := (creations s)[n := ReadCreated r i]\<rparr>)) = mset (pendingIds s) + {#i#}"
    using update_created [OF n, of "ReadCreated r i"] c by (simp add: createdBy_def)
  moreover have "pendingIds ?s = pendingIds (s\<lparr>creations := (creations s)[n := ReadCreated r i]\<rparr>)" by (rule pendingIds_only) simp
  ultimately have pending: "mset (pendingIds ?s) = mset (i # pendingIds s)" by simp
  then have mem: "set (pendingIds ?s) = insert i (set (pendingIds s))" by (metis set_mset_mset list.simps(15))
  have "i \<notin> set (createdIds s)"
  proof
    assume "i \<in> set (createdIds s)"
    then consider k b where "(k, i, b) \<in> set (answers s)" | q where "ReadCreated q i \<in> set (creations s)"
      by (auto simp: createdIds_def pending_created)
    then show False
    proof cases
      case 1
      then show False using serviceOkD(8) [OF s] key_row new(3) by blast
    next
      case 2
      then show False using serviceOkD(4) [OF s] old_phase by blast
    qed
  qed
  moreover have "mset (createdIds ?s) = mset (i # createdIds s)" using pending by (simp add: createdIds_def)
  ultimately have ids: "distinct (createdIds ?s)" using distinct_mset serviceOkD(7) [OF s] by (metis distinct.simps(2))
  have "serviceOk ?s"
  proof (rule serviceOkI)
    show "phaseOk (db ?s) j (runPhase q)" if "jget (runs ?s) j = Some q" for j q
      using that i_run same serviceOkD(3) [OF s, of j q] by (cases "j = i") simp_all
    show "jget (runs ?s) j = None \<and> jget (idempotencyKeys (db ?s)) (requestKey q) = Some j \<and> phaseOk (db ?s) j ReadRow"
      if q: "ReadCreated q j \<in> set (creations ?s)" for q j
    proof (cases "ReadCreated q j \<in> set (creations s)")
      case True
      note old = serviceOkD(4) [OF s this]
      then have "j \<noteq> i" using old_phase by blast
      moreover have "requestKey q \<noteq> requestKey r" using old new(4) by auto
      ultimately show ?thesis using old same keys by simp
    next
      case False
      then have "q = r \<and> j = i" using q set_update_subset_insert [of "creations s" n "ReadCreated r i"] by auto
      then show ?thesis using i_run i_new keys by simp
    qed
    show "getExecutionRow (db ?s) j \<noteq> None" if "j \<in> set (restarting ?s) \<or> j \<in> set (cancelling ?s)" for j
      using that serviceOkD(5) [OF s, of j] new(3, 7) by (cases "j = i") simp_all
    show "ended (db ?s) j \<or> attended ?s j" if "wasStarted ?s" "getExecutionRow (db ?s) j \<noteq> None" for j
      using serviceOkD(6) [OF s, of j] that mem same [of j] new(7) [of j] by (cases "j = i") (simp_all add: attended_def)
    show "jget (idempotencyKeys (db ?s)) k = Some j" if "(k, j, b) \<in> set (answers ?s)" for k j b
      using that serviceOkD(8) [OF s, of k j b] new(4) keys by auto
  qed (use serviceOkD(2) [OF s] ids new(1) in simp_all)
  then show ?thesis using new(2) by (simp add: advances_def)
qed

lemma continueCreate_ok:
  assumes s: "serviceOk s"
  shows "advances s (continueCreate driver n i moment s)"
proof (cases "n < length (creations s)")
  case False
  then show ?thesis using s by (simp add: continueCreate_def advances_def)
next
  case n: True
  have found: "jget (idempotencyKeys (db s)) (requestKey q) = Some (rowId row)" if "findByIdempotencyKey (db s) (requestKey q) = Some row" for q row
    by (rule find_key [OF serviceOkD(1) [OF s] that])
  show ?thesis
  proof (cases "creations s ! n")
    case (LookUp q)
    have c: "createdBy (creations s ! n) = None" by (simp add: createdBy_def LookUp)
    show ?thesis
      using n LookUp reply_ok(1) [OF s n c found] move_call_ok [OF s n c, of "Insert q"]
      by (cases "findByIdempotencyKey (db s) (requestKey q)") (simp_all add: continueCreate_def createdBy_def)
  next
    case (Insert q)
    have c: "createdBy (creations s ! n) = None" by (simp add: createdBy_def Insert)
    show ?thesis
    proof (cases "insertExecution driver q i moment (db s)")
      case (Inl e)
      then show ?thesis
        using n Insert reply_ok(2) [OF s n c, of e] move_call_ok [OF s n c, of "LookUpAgain q e"] by (simp add: continueCreate_def createdBy_def)
    next
      case (Inr d)
      then show ?thesis using n Insert insert_ok [OF s n Insert Inr] by (simp add: continueCreate_def)
    qed
  next
    case (LookUpAgain q e)
    have c: "createdBy (creations s ! n) = None" by (simp add: createdBy_def LookUpAgain)
    show ?thesis
      using n LookUpAgain reply_ok(1) [OF s n c found] reply_ok(2) [OF s n c, of e]
      by (cases "findByIdempotencyKey (db s) (requestKey q)") (simp_all add: continueCreate_def)
  next
    case (ReadCreated q j)
    have "ReadCreated q j \<in> set (creations s)" using n ReadCreated nth_mem by metis
    then have "getExecutionRow (db s) j \<noteq> None" using serviceOkD(4) [OF s] by (auto simp: phaseOk_def)
    then show ?thesis using n ReadCreated schedule_ok [OF s n ReadCreated] by (auto simp: continueCreate_def)
  qed
qed

lemma abort_ok:
  assumes s: "serviceOk s"
  shows "serviceOk (abortRun i s)"
proof (cases "jget (runs s) i")
  case None
  then show ?thesis using s by (simp add: abortRun_def)
next
  case (Some r)
  have "i \<notin> set (pendingIds s)" using serviceOkD(4) [OF s] Some unfolding pending_created by force
  then have "serviceOk ((commit None (db s) s)\<lparr>runs := jset i (r\<lparr>runAborted := True\<rparr>) (runs s)\<rparr>)"
    using serviceOkD(3) [OF s Some] by (intro move_ok [OF s txOk_none [OF serviceOkD(1) [OF s]]]) auto
  then show ?thesis using Some by (simp add: abortRun_def)
qed

lemma stopExecution_ok:
  assumes s: "serviceOk s" and row: "getExecutionRow (db s) i \<noteq> None" and target: "target \<in> {ExFailed, ExCancelled, ExTimedOut}"
  shows "advances s (stopExecution target code msg i moment s)"
proof -
  obtain e d where m: "markTerminal i target code msg moment (db s) = Inr (e, d)" "serviceOk (commit e d s)" "e = None \<longrightarrow> d = db s"
    "txOk i (db s) e d" using stop_run_ok [OF s row target, of code msg moment] by blast
  then show ?thesis
    using s abort_ok [OF m(2)] by (cases e) (simp_all add: stopExecution_def advances_def execution_simps txOk_def)
qed

lemma calls_only:
  assumes s: "serviceOk s" and same: "db s' = db s" "runs s' = runs s" "rejections s' = rejections s" "wasStarted s' = wasStarted s"
    "restarting s' = restarting s" "creations s' = creations s" "answers s' = answers s"
    and cancel: "set (cancelling s') \<subseteq> {i. getExecutionRow (db s) i \<noteq> None}"
  shows "advances s s'"
proof -
  have p: "pendingIds s' = pendingIds s" by (rule pendingIds_only [OF same(6)])
  show ?thesis
    using serviceOkD(7, 8) [OF s] p same cancel by (intro calls_ok [OF s]) (auto simp: createdIds_def)
qed

lemma checkCancel_ok:
  assumes s: "serviceOk s"
  shows "advances s (checkCancel i s)"
proof -
  have old: "set (cancelling s) \<subseteq> {i. getExecutionRow (db s) i \<noteq> None}" using serviceOkD(5) [OF s] by auto
  have "advances s (s\<lparr>failures := failures s @ [e]\<rparr>)" for e using old by (intro calls_only [OF s]) simp_all
  moreover have "advances s (s\<lparr>cancelling := cancelling s @ [i]\<rparr>)" if "getExecutionRow (db s) i = Some row" for row
    using old that by (intro calls_only [OF s]) auto
  ultimately show ?thesis by (auto simp: checkCancel_def split: option.split)
qed

lemma advances_trans: "advances s t \<Longrightarrow> advances t u \<Longrightarrow> advances s u"
  unfolding advances_def using lives_on_trans by blast

lemma markCancelled_ok:
  assumes s: "serviceOk s"
  shows "advances s (markCancelled i moment s)"
proof (cases "i \<in> set (cancelling s)")
  case False
  then show ?thesis using s by (simp add: markCancelled_def advances_def)
next
  case True
  let ?s = "s\<lparr>cancelling := remove1 i (cancelling s)\<rparr>"
  have old: "set (cancelling s) \<subseteq> {i. getExecutionRow (db s) i \<noteq> None}" using serviceOkD(5) [OF s] by auto
  have popped: "advances s ?s" using old set_remove1_subset [of i "cancelling s"] by (intro calls_only [OF s]) auto
  then have "advances ?s (stopExecution ExCancelled ''execution_cancelled'' ''Execution was cancelled'' i moment ?s)"
    using old True by (intro stopExecution_ok) (auto simp: advances_def)
  then show ?thesis using advances_trans [OF popped] True by (simp add: markCancelled_def)
qed

lemma startService_ok:
  assumes s: "serviceOk s"
  shows "advances s (startService s)"
proof -
  have fail: "advances s (s\<lparr>failures := failures s @ [ServiceClosed]\<rparr>)"
    using serviceOkD(5) [OF s] by (intro calls_only [OF s]) auto
  let ?ids = "map fst (filter (\<lambda>(i, row). rowStatus row \<in> {ExPending, ExStarting, ExRunning}) (executions (db s)))"
  let ?s = "s\<lparr>wasStarted := True, restarting := ?ids\<rparr>"
  have wf: "jwf (executions (db s))" using serviceOkD(1) [OF s] by (simp add: dbOk_def)
  have exists: "getExecutionRow (db s) i \<noteq> None" if "i \<in> set ?ids" for i
    using that wf by (force simp: getExecutionRow_def)
  have p: "pendingIds ?s = pendingIds s" by (rule pendingIds_only) simp
  have "serviceOk ?s"
  proof (rule serviceOkI)
    show "getExecutionRow (db ?s) i \<noteq> None" if "i \<in> set (restarting ?s) \<or> i \<in> set (cancelling ?s)" for i
      using that exists serviceOkD(5) [OF s, of i] by auto
    show "ended (db ?s) i \<or> attended ?s i" if ex: "getExecutionRow (db ?s) i \<noteq> None" for i
    proof -
      obtain row where row: "getExecutionRow (db s) i = Some row" using ex by auto
      then have "(i, row) \<in> set (executions (db s))" by (simp add: getExecutionRow_def map_of_SomeD)
      then show ?thesis using row by (cases "rowStatus row") (force simp: ended_def attended_def terminal_cases)+
    qed
  qed (use serviceOkD [OF s] p in \<open>simp_all add: createdIds_def\<close>)
  then have "advances s ?s" by (simp add: advances_def)
  moreover have "advances s s" using s by (simp add: advances_def)
  ultimately show ?thesis using fail unfolding startService_def by presburger
qed

lemma startNext_ok:
  assumes s: "serviceOk s"
  shows "advances s (startNext moment s)"
proof (cases "restarting s")
  case Nil
  then show ?thesis using s by (simp add: startNext_def advances_def)
next
  case (Cons i rest)
  then have "getExecutionRow (db s) i \<noteq> None" using serviceOkD(5) [OF s] by simp
  then obtain e d where m: "markTerminal i ExFailed ''supervisor_restarted'' ''Execution was interrupted when the Supervisor restarted'' moment (db s)
      = Inr (e, d)" "serviceOk (commit e d s)" "ended d i" "txOk i (db s) e d"
    using stop_run_ok [OF s, of i ExFailed] by blast
  let ?s = "commit e d (s\<lparr>restarting := rest\<rparr>)"
  have sel: "db ?s = db (commit e d s)" "rejections ?s = rejections (commit e d s)" "runs ?s = runs (commit e d s)"
    "creations ?s = creations (commit e d s)" "cancelling ?s = cancelling (commit e d s)" "wasStarted ?s = wasStarted (commit e d s)"
    "answers ?s = answers (commit e d s)" "restarting (commit e d s) = i # restarting ?s"
    using Cons by (simp_all add: execution_simps)
  have p: "pendingIds ?s = pendingIds (commit e d s)" by (rule pendingIds_only [OF sel(4)])
  have "serviceOk ?s"
  proof (rule serviceOkI)
    show "ended (db ?s) j \<or> attended ?s j" if "wasStarted ?s" "getExecutionRow (db ?s) j \<noteq> None" for j
      using serviceOkD(6) [OF m(2), of j] that m(3) p by (auto simp: sel attended_def commit_sel(1))
    show "getExecutionRow (db ?s) j \<noteq> None" if "j \<in> set (restarting ?s) \<or> j \<in> set (cancelling ?s)" for j
      using serviceOkD(5) [OF m(2), of j] that unfolding sel by auto
  qed (use serviceOkD [OF m(2)] p in \<open>simp_all add: sel createdIds_def\<close>)
  then show ?thesis using m(1, 4) Cons by (simp add: startNext_def advances_def txOk_def execution_simps)
qed

lemma closeService_ok:
  assumes s: "serviceOk s"
  shows "advances s (closeService s)"
proof (cases "wasClosed s")
  case True
  then show ?thesis using s by (simp add: closeService_def advances_def)
next
  case False
  let ?s = "s\<lparr>wasClosed := True, runs := map (\<lambda>(i, r). (i, r\<lparr>runAborted := True\<rparr>)) (runs s)\<rparr>"
  have get: "jget (runs ?s) i = map_option (\<lambda>r. r\<lparr>runAborted := True\<rparr>) (jget (runs s) i)" for i by (simp add: map_of_map)
  have p: "pendingIds ?s = pendingIds s" by (rule pendingIds_only) simp
  have "serviceOk ?s"
  proof (rule serviceOkI)
    show "phaseOk (db ?s) i (runPhase r)" if "jget (runs ?s) i = Some r" for i r
      using that serviceOkD(3) [OF s, of i] unfolding get by auto
    show "jget (runs ?s) i = None \<and> jget (idempotencyKeys (db ?s)) (requestKey q) = Some i \<and> phaseOk (db ?s) i ReadRow"
      if "ReadCreated q i \<in> set (creations ?s)" for q i using serviceOkD(4) [OF s, of q i] that unfolding get by simp
    show "ended (db ?s) i \<or> attended ?s i" if "wasStarted ?s" "getExecutionRow (db ?s) i \<noteq> None" for i
      using serviceOkD(6) [OF s, of i] that p unfolding attended_def get by simp
  qed (use serviceOkD [OF s] p in \<open>simp_all add: createdIds_def\<close>)
  then show ?thesis using False by (simp add: closeService_def advances_def)
qed

lemma serviceStep_ok: "serviceOk s \<Longrightarrow> advances s (serviceStep driver op s)"
proof (induction driver op s rule: serviceStep.induct)
  case (1 driver r s)
  then have "advances s (s\<lparr>creations := creations s @ [LookUp r]\<rparr>)"
    using serviceOkD(5, 7, 8) [OF 1] by (intro calls_ok [OF 1]) (auto simp: pendingIds_def createdIds_def createdBy_def)
  then show ?case by simp
next
  case (6 driver i moment s)
  then show ?case
    using stopExecution_ok [OF 6, of i ExTimedOut] by (auto simp: timeoutExecution_def jhas_iff getExecutionRow_def advances_def)
qed (simp_all add: continueCreate_ok continueRun_ok checkCancel_ok markCancelled_ok startService_ok startNext_ok closeService_ok)

interpretation service_machine: monotone_machine "serviceStep driver" serviceOk "\<lambda>s t. lives_on (db s) (db t)" for driver
proof
  show "serviceOk (serviceStep driver op s)" if "serviceOk s" for op s using serviceStep_ok [OF that] by (simp add: advances_def)
  show "lives_on (db s) (db (serviceStep driver op s))" if "serviceOk s" for op s using serviceStep_ok [OF that] by (simp add: advances_def)
qed (auto intro: lives_on_trans)

lemma newService_ok: "dbOk d \<Longrightarrow> serviceOk (newService d)"
  by (simp add: serviceOk_def newService_def createdIds_def pendingIds_def)

lemma life_terminal_stays: "life_step\<^sup>*\<^sup>* v w \<Longrightarrow> isTerminalExecutionStatus (fst v) \<Longrightarrow> w = v"
proof (induction rule: rtranclp_induct)
  case (step u w)
  then show ?case using life_terminal by (metis prod.collapse)
qed simp

lemma filter_index_unique:
  "distinct (map f (filter P xs)) \<Longrightarrow> m < length xs \<Longrightarrow> n < length xs \<Longrightarrow> P (xs ! m) \<Longrightarrow> P (xs ! n) \<Longrightarrow> f (xs ! m) = f (xs ! n) \<Longrightarrow> m = n"
proof (induction xs arbitrary: m n)
  case (Cons x xs)
  have other: "f x \<noteq> f (xs ! k)" if "P x" "k < length xs" "P (xs ! k)" for k using that Cons.prems(1) nth_mem by fastforce
  have "distinct (map f (filter P xs))" using Cons.prems(1) by (simp split: if_splits)
  then show ?case using Cons.IH Cons.prems other by (cases m; cases n) fastforce+
qed simp

section \<open>Properties\<close>

text \<open>
  C27: from any consistent database, such as the empty one, whatever clients, agents, timers and restarts do, every row reflects its
  event log: the events are numbered from 1 without gaps, only the last can end the execution and does so exactly when
  the status is terminal, the error is that of the last event and the output that of the only output event; and no run ever fails
  on a missing row, a refused transition or an unreadable request.
\<close>

theorem executions_reflect_log:
  assumes "dbOk d" "getExecutionRow (db (fold (serviceStep driver) ops (newService d))) i = Some row"
  shows "reflects row (eventsOf (db (fold (serviceStep driver) ops (newService d))) i)
    \<and> rejections (fold (serviceStep driver) ops (newService d)) = []"
proof -
  note ok = service_machine.run_inv [OF newService_ok [OF assms(1)], of driver ops]
  show ?thesis using dbOkD(2) [OF serviceOkD(1) [OF ok] assms(2)] serviceOkD(2) [OF ok] by blast
qed

text \<open>
  C29: the service implements the life cycle of an execution: between any two moments its status and its events move along
  the steps of that cycle, and once the status is terminal neither changes again.
\<close>

theorem execution_lives:
  assumes "dbOk d" "lifeOf (db (fold (serviceStep driver) ops (newService d))) i = Some v"
  shows "\<exists>w. lifeOf (db (fold (serviceStep driver) (ops @ later) (newService d))) i = Some w \<and> life_step\<^sup>*\<^sup>* v w
    \<and> (isTerminalExecutionStatus (fst v) \<longrightarrow> w = v)"
proof -
  let ?s = "fold (serviceStep driver) ops (newService d)"
  have "lives_on (db ?s) (db (fold (serviceStep driver) later ?s))"
    by (rule service_machine.run_le [OF service_machine.run_inv [OF newService_ok [OF assms(1)]]])
  then show ?thesis using assms(2) life_terminal_stays unfolding lives_on_def by fastforce
qed

text \<open>
  No execution is left behind. Once the service has started, an execution that has not ended is the business of a run,
  of a call that is creating it or of the restart; and the timeout ends it, whatever its run waits for.
\<close>

theorem nothing_left_behind:
  assumes "dbOk d" "s = fold (serviceStep driver) ops (newService d)" "wasStarted s" "getExecutionRow (db s) i \<noteq> None"
  shows "(ended (db s) i \<or> attended s i) \<and> ended (db (serviceStep driver (TimeoutExecution i moment) s)) i"
proof -
  have ok: "serviceOk s" unfolding assms(2) by (rule service_machine.run_inv [OF newService_ok [OF assms(1)]])
  obtain e d' where m: "markTerminal i ExTimedOut ''execution_timed_out'' ''Execution exceeded its timeout'' moment (db s) = Inr (e, d')"
    "ended d' i" "e = None \<longrightarrow> d' = db s"
    using stop_run_ok [OF ok assms(4), of ExTimedOut] by blast
  have "ended (db (serviceStep driver (TimeoutExecution i moment) s)) i"
    using m assms(4) by (cases e) (simp_all add: timeoutExecution_def stopExecution_def execution_simps jhas_iff getExecutionRow_def)
  then show ?thesis using serviceOkD(6) [OF ok assms(3, 4)] by blast
qed

text \<open>
  Creation is idempotent: two answers to requests with the same key name the same execution, and at most one of them
  says that it was created.
\<close>

theorem create_idempotent:
  assumes "dbOk d" "s = fold (serviceStep driver) ops (newService d)"
    and "m < length (answers s)" "n < length (answers s)" "answers s ! m = (k, i, a)" "answers s ! n = (k, j, b)"
  shows "i = j \<and> (a \<and> b \<longrightarrow> m = n)"
proof -
  have ok: "serviceOk s" unfolding assms(2) by (rule service_machine.run_inv [OF newService_ok [OF assms(1)]])
  have "(k, i, a) \<in> set (answers s)" "(k, j, b) \<in> set (answers s)" using assms(3-6) nth_mem by metis+
  then have same: "i = j" using serviceOkD(8) [OF ok] by (metis option.inject)
  have "distinct (map (fst \<circ> snd) (filter (snd \<circ> snd) (answers s)))" using serviceOkD(7) [OF ok] by (simp add: distinct_created)
  then have "m = n" if "a" "b" using filter_index_unique [of "fst \<circ> snd" "snd \<circ> snd" "answers s" m n] that assms(3-6) same by simp
  then show ?thesis using same by blast
qed

section \<open>Concurrent creation\<close>

text \<open>The codes of SQLite, which a driver may replace by one of its own.\<close>

definition sqliteDriver :: "table_constraint \<Rightarrow> string" where
  "sqliteDriver c = (case c of PrimaryKeyConstraint \<Rightarrow> ''SQLITE_CONSTRAINT_PRIMARYKEY'' | UniqueConstraint \<Rightarrow> ''SQLITE_CONSTRAINT_UNIQUE'')"

definition noRows :: supervisor_db where "noRows = \<lparr>executions = [], eventLog = [], idempotencyKeys = []\<rparr>"

text \<open>
  Two requests with the same key that both find no execution: the second insertion violates the primary key of
  the idempotency keys, which is not the violation the code recovers from, so that this call fails instead of answering with
  the execution of the first.
\<close>

theorem concurrent_create_fails:
  assumes "driver PrimaryKeyConstraint \<noteq> ''SQLITE_CONSTRAINT_UNIQUE''" "requestKey q = requestKey r" "i \<noteq> j"
    and "s = fold (serviceStep driver) [CreateExecution q, CreateExecution r, ContinueCreate 0 i t, ContinueCreate 1 j t,
      ContinueCreate 0 i t, ContinueCreate 1 j t, ContinueCreate 0 i t] (newService noRows)"
  shows "answers s = [(requestKey q, i, True)] \<and> failures s = [ConstraintError (driver PrimaryKeyConstraint)] \<and> creations s = []"
  unfolding assms(4) using assms(1-3)
  by (simp add: continueCreate_def newService_def noRows_def findByIdempotencyKey_def insertExecution_def isUniqueConstraintError_def
      jhas_iff getExecutionRow_def answerWith_def failWith_def dropCreation_def scheduleRun_def jvalues_def)

section \<open>Witnesses\<close>

definition demoRequest :: create_request where
  "demoRequest = \<lparr>requestKey = ''k'', requestAgentType = ''a'', requestInput = JNull, requestConfig = [], requestTimeout = 5\<rparr>"

definition demoCreate :: "service_op list" where
  "demoCreate = [StartService, CreateExecution demoRequest, ContinueCreate 0 ''e'' ''t'', ContinueCreate 0 ''e'' ''t'', ContinueCreate 0 ''e'' ''t'']"

definition demoRun :: "service_op list" where
  "demoRun = map (ContinueRun ''e'') [Resume ''t'', Resume ''t'', AgentCreated, Resume ''t'',
     AgentYields (AgentOutput (JBool True)), Resume ''t'', AgentYields AgentCompleted, Resume ''t'', AgentDone, Resume ''t'', AgentDisposed]"

definition demoRepeat :: "service_op list" where
  "demoRepeat = [CreateExecution demoRequest, ContinueCreate 0 ''f'' ''t'']"

definition demoRow :: execution_row where
  "demoRow = \<lparr>rowId = ''e'', rowKey = ''k'', rowAgentType = ''a'', rowRequest = JObj [(''input'', JNull), (''config'', JObj [])],
     rowStatus = ExSucceeded, rowTimeout = 5, rowOutput = Some (JBool True), rowErrorCode = None, rowErrorMessage = None,
     rowCreatedAt = ''t'', rowStartedAt = Some ''t'', rowFinishedAt = Some ''t''\<rparr>"

lemma noRows_ok: "dbOk noRows"
  by (simp add: dbOk_def noRows_def getExecutionRow_def)

theorem executions_reflect_log_witness:
  "reflects demoRow (eventsOf (db (fold (serviceStep sqliteDriver) (demoCreate @ demoRun) (newService noRows))) ''e'')
    \<and> rejections (fold (serviceStep sqliteDriver) (demoCreate @ demoRun) (newService noRows)) = []"
proof (rule executions_reflect_log [OF noRows_ok])
  show "getExecutionRow (db (fold (serviceStep sqliteDriver) (demoCreate @ demoRun) (newService noRows))) ''e'' = Some demoRow"
    by code_simp
qed

theorem execution_lives_witness:
  "\<exists>w. lifeOf (db (fold (serviceStep sqliteDriver) (demoCreate @ demoRun) (newService noRows))) ''e'' = Some w
    \<and> life_step\<^sup>*\<^sup>* (ExPending, []) w \<and> (isTerminalExecutionStatus (fst (ExPending, [] :: execution_event list)) \<longrightarrow> w = (ExPending, []))"
proof (rule execution_lives [OF noRows_ok])
  show "lifeOf (db (fold (serviceStep sqliteDriver) demoCreate (newService noRows))) ''e'' = Some (ExPending, [])" by code_simp
qed

theorem nothing_left_behind_witness:
  "(ended (db (fold (serviceStep sqliteDriver) demoCreate (newService noRows))) ''e''
      \<or> attended (fold (serviceStep sqliteDriver) demoCreate (newService noRows)) ''e'')
    \<and> ended (db (serviceStep sqliteDriver (TimeoutExecution ''e'' ''u'') (fold (serviceStep sqliteDriver) demoCreate (newService noRows)))) ''e''"
proof (rule nothing_left_behind [OF noRows_ok refl])
  show "wasStarted (fold (serviceStep sqliteDriver) demoCreate (newService noRows))" by code_simp
  have "lifeOf (db (fold (serviceStep sqliteDriver) demoCreate (newService noRows))) ''e'' = Some (ExPending, [])" by code_simp
  then show "getExecutionRow (db (fold (serviceStep sqliteDriver) demoCreate (newService noRows))) ''e'' \<noteq> None" by (auto simp: lifeOf_def)
qed

theorem create_idempotent_witness:
  "answers (fold (serviceStep sqliteDriver) (demoCreate @ demoRun @ demoRepeat) (newService noRows)) = [(''k'', ''e'', True), (''k'', ''e'', False)]
    \<and> ''e'' = ''e'' \<and> (True \<and> False \<longrightarrow> (0 :: nat) = 1)"
proof -
  have answered: "answers (fold (serviceStep sqliteDriver) (demoCreate @ demoRun @ demoRepeat) (newService noRows)) = [(''k'', ''e'', True), (''k'', ''e'', False)]"
    by code_simp
  then show ?thesis
    using create_idempotent [OF noRows_ok refl, of 0 sqliteDriver "demoCreate @ demoRun @ demoRepeat" 1 "''k''" "''e''" True "''e''" False] by simp
qed

theorem concurrent_create_fails_witness:
  "answers (fold (serviceStep sqliteDriver) [CreateExecution demoRequest, CreateExecution demoRequest, ContinueCreate 0 ''e'' ''t'',
      ContinueCreate 1 ''f'' ''t'', ContinueCreate 0 ''e'' ''t'', ContinueCreate 1 ''f'' ''t'', ContinueCreate 0 ''e'' ''t''] (newService noRows))
      = [(requestKey demoRequest, ''e'', True)]
    \<and> failures (fold (serviceStep sqliteDriver) [CreateExecution demoRequest, CreateExecution demoRequest, ContinueCreate 0 ''e'' ''t'',
      ContinueCreate 1 ''f'' ''t'', ContinueCreate 0 ''e'' ''t'', ContinueCreate 1 ''f'' ''t'', ContinueCreate 0 ''e'' ''t''] (newService noRows))
      = [ConstraintError (sqliteDriver PrimaryKeyConstraint)]
    \<and> creations (fold (serviceStep sqliteDriver) [CreateExecution demoRequest, CreateExecution demoRequest, ContinueCreate 0 ''e'' ''t'',
      ContinueCreate 1 ''f'' ''t'', ContinueCreate 0 ''e'' ''t'', ContinueCreate 1 ''f'' ''t'', ContinueCreate 0 ''e'' ''t''] (newService noRows)) = []"
  by (rule concurrent_create_fails [OF _ _ _ refl]) (simp_all add: sqliteDriver_def)

end
