(* ===== verification/ExecutionStream.thy ===== *)
theory ExecutionStream
  imports ExecutionService
begin

text \<open>
  Watching an execution: the hub of listeners (\<open>packages/supervisor/src/event-hub.ts\<close>, \<open>agent-event-hub.ts\<close>) and
  \<open>streamExecution\<close> of \<open>service.ts\<close>, which replays the events of the table and then passes on those published since. A
  listener set is an object that the closures returned by \<open>subscribe\<close> share, hence a reference. A listener is a stream, and sending
  does not throw. The lemmas show that a stream sends every later event exactly once, in order, and what goes
  wrong when a subscription is cancelled twice or a listener throws.
\<close>

section \<open>The hub\<close>

record 'l hub =
  listenerSets :: "'l list list"
  hubKeys :: "(string, nat) jsmap"

definition newHub :: "'l hub" where "newHub = \<lparr>listenerSets = [], hubKeys = []\<rparr>"

text \<open>Also the reference that the returned closure holds.\<close>

definition subscribe :: "string \<Rightarrow> 'l \<Rightarrow> 'l hub \<Rightarrow> nat \<times> 'l hub" where
  "subscribe key l h =
     (case jget (hubKeys h) key of
        Some r \<Rightarrow> (r, h\<lparr>listenerSets := (listenerSets h)[r := List.insert l (listenerSets h ! r)]\<rparr>)
      | None \<Rightarrow> (length (listenerSets h), h\<lparr>listenerSets := listenerSets h @ [[l]], hubKeys := jset key (length (listenerSets h)) (hubKeys h)\<rparr>))"

definition unsubscribe :: "string \<Rightarrow> nat \<Rightarrow> 'l \<Rightarrow> 'l hub \<Rightarrow> 'l hub" where
  "unsubscribe key r l h =
     (let rest = removeAll l (listenerSets h ! r);
          h' = h\<lparr>listenerSets := (listenerSets h)[r := rest]\<rparr>
      in if rest = [] then h'\<lparr>hubKeys := jdelete key (hubKeys h)\<rparr> else h')"

definition listenersOf :: "string \<Rightarrow> 'l hub \<Rightarrow> 'l list" where
  "listenersOf key h = (case jget (hubKeys h) key of None \<Rightarrow> [] | Some r \<Rightarrow> listenerSets h ! r)"

text \<open>\<open>publish\<close> of the execution hub: the listeners called, and whether one threw.\<close>

fun callListeners :: "('l \<Rightarrow> bool) \<Rightarrow> 'l list \<Rightarrow> 'l list \<times> bool" where
  "callListeners throws [] = ([], False)"
| "callListeners throws (l # ls) =
     (if throws l then ([l], True) else let (called, thrown) = callListeners throws ls in (l # called, thrown))"

definition publishExecution :: "('l \<Rightarrow> bool) \<Rightarrow> string \<Rightarrow> 'l hub \<Rightarrow> 'l list \<times> bool" where
  "publishExecution throws key h = callListeners throws (listenersOf key h)"

text \<open>\<open>publish\<close> of the agents' hub catches what a listener throws.\<close>

definition publishAgent :: "('l \<Rightarrow> bool) \<Rightarrow> string \<Rightarrow> 'l hub \<Rightarrow> 'l list \<times> bool" where
  "publishAgent throws key h = (listenersOf key h, False)"

section \<open>Streams\<close>

record stream =
  streamExecution :: string
  afterSequence :: nat
  streamRef :: nat
  streamRows :: "execution_event list option"
  replaying :: bool
  buffered :: "execution_event list"
  lastSequence :: nat
  sent :: "execution_event list"
  streamOpen :: bool

record stream_service =
  svc :: service
  eventHub :: "nat hub"
  streams :: "stream list"

definition newStreams :: "supervisor_db \<Rightarrow> stream_service" where
  "newStreams d = \<lparr>svc = newService d, eventHub = newHub, streams = []\<rparr>"

definition listEvents :: "supervisor_db \<Rightarrow> string \<Rightarrow> nat \<Rightarrow> execution_event list" where
  "listEvents d i after = sort_key eventSequence (filter (\<lambda>e. executionOf e = i \<and> after < eventSequence e) (eventLog d))"

definition deliverEvent :: "execution_event \<Rightarrow> stream \<Rightarrow> stream" where
  "deliverEvent e st = (if eventSequence e \<le> lastSequence st then st else st\<lparr>lastSequence := eventSequence e, sent := sent st @ [e]\<rparr>)"

text \<open>The listener of a stream.\<close>

definition receive :: "execution_event \<Rightarrow> stream \<Rightarrow> stream" where
  "receive e st = (if replaying st then st\<lparr>buffered := buffered st @ [e]\<rparr> else deliverEvent e st)"

definition replay :: "execution_event list \<Rightarrow> stream \<Rightarrow> stream" where
  "replay es st = (let st = (fold deliverEvent es st)\<lparr>replaying := False\<rparr> in fold deliverEvent (sort_key eventSequence (buffered st)) st)"

definition openStream :: "string \<Rightarrow> nat \<Rightarrow> stream_service \<Rightarrow> stream_service" where
  "openStream i after s =
     (case getExecutionRow (db (svc s)) i of
        None \<Rightarrow> s
      | Some row \<Rightarrow> let (r, h) = subscribe i (length (streams s)) (eventHub s) in
          s\<lparr>eventHub := h, streams := streams s @ [\<lparr>streamExecution = i, afterSequence = after, streamRef = r, streamRows = None,
            replaying = True, buffered = [], lastSequence = after, sent = [], streamOpen = True\<rparr>]\<rparr>)"

definition updateStream :: "nat \<Rightarrow> (stream \<Rightarrow> stream) \<Rightarrow> stream_service \<Rightarrow> stream_service" where
  "updateStream n f s = s\<lparr>streams := (streams s)[n := f (streams s ! n)]\<rparr>"

text \<open>The query of the replay, and what follows it.\<close>

definition readStream :: "nat \<Rightarrow> stream_service \<Rightarrow> stream_service" where
  "readStream n s =
     (if n < length (streams s) \<and> replaying (streams s ! n) \<and> streamRows (streams s ! n) = None
      then updateStream n (\<lambda>st. st\<lparr>streamRows := Some (listEvents (db (svc s)) (streamExecution st) (afterSequence st))\<rparr>) s else s)"

definition replayStream :: "nat \<Rightarrow> stream_service \<Rightarrow> stream_service" where
  "replayStream n s =
     (if n < length (streams s) \<and> replaying (streams s ! n)
      then case streamRows (streams s ! n) of None \<Rightarrow> s | Some es \<Rightarrow> updateStream n (replay es) s else s)"

text \<open>The closure that \<open>streamExecution\<close> returns, called once.\<close>

definition closeStream :: "nat \<Rightarrow> stream_service \<Rightarrow> stream_service" where
  "closeStream n s =
     (if n < length (streams s) \<and> streamOpen (streams s ! n) \<and> \<not> replaying (streams s ! n)
      then (updateStream n (\<lambda>st. st\<lparr>streamOpen := False\<rparr>) s)
             \<lparr>eventHub := unsubscribe (streamExecution (streams s ! n)) (streamRef (streams s ! n)) n (eventHub s)\<rparr>
      else s)"

text \<open>The publication of the oldest committed event.\<close>

definition publishNext :: "stream_service \<Rightarrow> stream_service" where
  "publishNext s =
     (case unpublished (svc s) of [] \<Rightarrow> s
      | e # rest \<Rightarrow> fold (\<lambda>n. updateStream n (receive e)) (listenersOf (executionOf e) (eventHub s)) (s\<lparr>svc := (svc s)\<lparr>unpublished := rest\<rparr>\<rparr>))"

datatype stream_op =
  ServiceOp service_op | PublishNext | OpenStream string nat | ReadStream nat | ReplayStream nat | CloseStream nat

fun streamStep :: "(table_constraint \<Rightarrow> string) \<Rightarrow> stream_op \<Rightarrow> stream_service \<Rightarrow> stream_service" where
  "streamStep driver (ServiceOp op) s = s\<lparr>svc := serviceStep driver op (svc s)\<rparr>"
| "streamStep driver PublishNext s = publishNext s"
| "streamStep driver (OpenStream i after) s = openStream i after s"
| "streamStep driver (ReadStream n) s = readStream n s"
| "streamStep driver (ReplayStream n) s = replayStream n s"
| "streamStep driver (CloseStream n) s = closeStream n s"

section \<open>Delivery\<close>

text \<open>The stream has sent the events after the given one among the first \<open>m\<close> of \<open>es\<close>.\<close>

definition caught_up :: "execution_event list \<Rightarrow> nat \<Rightarrow> stream \<Rightarrow> bool" where
  "caught_up es m st \<longleftrightarrow> lastSequence st = max (afterSequence st) m \<and> sent st = filter (\<lambda>e. afterSequence st < eventSequence e) (take m es)"

definition numbered :: "execution_event list \<Rightarrow> bool" where
  "numbered es \<longleftrightarrow> map eventSequence es = [1..<Suc (length es)]"

lemma numbered_nth: "numbered es \<Longrightarrow> k < length es \<Longrightarrow> eventSequence (es ! k) = Suc k"
  unfolding numbered_def by (metis add.commute length_map length_upt nth_map nth_upt plus_1_eq_Suc diff_Suc_1 add_Suc_right less_Suc_eq_le Suc_leI add_diff_cancel_left')

lemma numbered_sorted: "numbered es \<Longrightarrow> sort_key eventSequence (filter P (drop k (take m es))) = filter P (drop k (take m es))"
  by (rule sort_key_id_if_sorted, rule sorted_filter) (simp add: numbered_def drop_map [symmetric] take_map [symmetric] sorted_wrt_drop sorted_wrt_take del: upt_Suc)

lemma deliver_same [simp]:
  "afterSequence (deliverEvent e st) = afterSequence st" "streamExecution (deliverEvent e st) = streamExecution st" "streamRef (deliverEvent e st) = streamRef st"
  "replaying (deliverEvent e st) = replaying st" "buffered (deliverEvent e st) = buffered st" "streamOpen (deliverEvent e st) = streamOpen st"
  by (simp_all add: deliverEvent_def)

lemma fold_deliver_same [simp]:
  "afterSequence (fold deliverEvent es st) = afterSequence st" "streamExecution (fold deliverEvent es st) = streamExecution st"
  "streamRef (fold deliverEvent es st) = streamRef st" "replaying (fold deliverEvent es st) = replaying st"
  "buffered (fold deliverEvent es st) = buffered st" "streamOpen (fold deliverEvent es st) = streamOpen st"
  by (induction es arbitrary: st) simp_all

lemma deliver_next:
  assumes "numbered es" "caught_up es m st" "m < length es"
  shows "caught_up es (Suc m) (deliverEvent (es ! m) st)"
  using assms numbered_nth [OF assms(1, 3)] by (auto simp: caught_up_def deliverEvent_def take_Suc_conv_app_nth)

lemma deliver_old:
  "numbered es \<Longrightarrow> caught_up es m st \<Longrightarrow> k < m \<Longrightarrow> k < length es \<Longrightarrow> deliverEvent (es ! k) st = st"
  by (simp add: numbered_nth caught_up_def deliverEvent_def)

lemma deliver_range:
  assumes "numbered es" "caught_up es m st" "a \<le> m" "b \<le> length es"
  shows "caught_up es (max m b) (fold deliverEvent (drop a (take b es)) st)"
  using assms(3, 4)
proof (induction b)
  case 0
  then show ?case using assms(2) by simp
next
  case (Suc b)
  then have ih: "caught_up es (max m b) (fold deliverEvent (drop a (take b es)) st)" by simp
  have step: "take (Suc b) es = take b es @ [es ! b]" using Suc.prems by (simp add: take_Suc_conv_app_nth)
  show ?case
  proof (cases "a \<le> b")
    case True
    then have "drop a (take (Suc b) es) = drop a (take b es) @ [es ! b]" using Suc.prems by (simp add: step)
    moreover have "caught_up es (max m (Suc b)) (deliverEvent (es ! b) (fold deliverEvent (drop a (take b es)) st))"
    proof (cases "b < m")
      case True
      then show ?thesis using deliver_old [OF assms(1) ih, of b] ih Suc.prems by (simp add: max_absorb1)
    next
      case False
      then show ?thesis using deliver_next [OF assms(1) ih] Suc.prems by (simp add: max_absorb2)
    qed
    ultimately show ?thesis by simp
  next
    case False
    then have "Suc b \<le> m" using assms(3) by simp
    then show ?thesis using assms(2) False Suc.prems by (simp add: max_absorb1)
  qed
qed

lemma deliver_filter:
  "afterSequence st \<le> lastSequence st \<Longrightarrow>
     fold deliverEvent (filter (\<lambda>e. afterSequence st < eventSequence e) es) st = fold deliverEvent es st"
proof (induction es arbitrary: st)
  case (Cons e es)
  have "afterSequence (deliverEvent e st) \<le> lastSequence (deliverEvent e st)" using Cons.prems by (auto simp: deliverEvent_def)
  from Cons.IH [OF this] Cons.IH [OF Cons.prems] show ?case using Cons.prems by (auto simp: deliverEvent_def)
qed simp

section \<open>Committed events are published in order\<close>

definition grows :: "service \<Rightarrow> service \<Rightarrow> bool" where
  "grows s s' \<longleftrightarrow> (\<exists>es. eventLog (db s') = eventLog (db s) @ es \<and> unpublished s' = unpublished s @ es)"

lemma growsI: "db s' = db s \<Longrightarrow> unpublished s' = unpublished s \<Longrightarrow> grows s s'"
  by (simp add: grows_def)

lemma tx_log:
  "markTerminal i target code msg moment d = Inr (e, d') \<Longrightarrow> eventLog d' = eventLog d @ (case e of None \<Rightarrow> [] | Some e \<Rightarrow> [e])"
  "persistAgentEvent i event moment d = Inr (q, d') \<Longrightarrow> eventLog d' = eventLog d @ (case resultEvent q of None \<Rightarrow> [] | Some e \<Rightarrow> [e])"
  "transitionStatus i target moment d = Inr (b, d') \<Longrightarrow> eventLog d' = eventLog d"
  "insertExecution driver r i moment d = Inr d' \<Longrightarrow> eventLog d' = eventLog d"
  by (auto simp: markTerminal_def persistAgentEvent_def transitionStatus_def insertExecution_def Let_def execution_simps
      split: option.splits if_splits sum.splits)

lemma unpublished_sel [execution_simps]:
  "unpublished (setPhase i p s) = unpublished s" "unpublished (finishRun i s) = unpublished s" "unpublished (rejectRun i x s) = unpublished s"
  "unpublished (abortRun i s) = unpublished s" "unpublished (scheduleRun i s) = unpublished s" "unpublished (dropCreation n s) = unpublished s"
  "unpublished (answerWith n a s) = unpublished s" "unpublished (failWith n x s) = unpublished s"
  "unpublished (commit e d s) = unpublished s @ (case e of None \<Rightarrow> [] | Some e \<Rightarrow> [e])"
  by (simp_all add: setPhase_def finishRun_def rejectRun_def abortRun_def scheduleRun_def dropCreation_def answerWith_def failWith_def commit_def
      split: option.split)

lemma resume_grows: "grows s (resumeRun i p moment s)"
  by (cases p) (auto simp: grows_def execution_simps split: sum.split option.split dest: tx_log)

lemma continueRun_grows: "grows s (continueRun i input s)"
proof (cases "jget (runs s) i")
  case (Some r)
  show ?thesis
  proof (cases input)
    case (Resume moment)
    then show ?thesis using Some resume_grows by (simp add: continueRun_def del: resumeRun.simps)
  qed (use Some in \<open>cases "runPhase r"; simp add: continueRun_def grows_def execution_simps\<close>)+
qed (simp add: continueRun_def grows_def)

lemma stop_grows: "grows s (stopExecution target code msg i moment s)"
  by (auto simp: stopExecution_def grows_def execution_simps split: sum.split dest: tx_log)

lemma serviceStep_grows: "grows s (serviceStep driver op s)"
proof (cases op)
  case (ContinueCreate n i moment)
  have "grows s (continueCreate driver n i moment s)"
    by (auto simp: continueCreate_def grows_def execution_simps split: creation.split option.split sum.split dest: tx_log)
  then show ?thesis by (simp add: ContinueCreate)
next
  case (ContinueRun i input)
  then show ?thesis using continueRun_grows by simp
next
  case (MarkCancelled i moment)
  have "grows s (markCancelled i moment s)"
  proof (cases "i \<in> set (cancelling s)")
    case True
    have "grows (s\<lparr>cancelling := remove1 i (cancelling s)\<rparr>) (markCancelled i moment s)" using stop_grows True by (simp add: markCancelled_def)
    then show ?thesis by (simp add: grows_def)
  qed (simp add: markCancelled_def grows_def)
  then show ?thesis by (simp add: MarkCancelled)
next
  case (TimeoutExecution i moment)
  then show ?thesis using stop_grows by (simp add: timeoutExecution_def) (simp add: grows_def)
next
  case (StartNext moment)
  have "grows s (startNext moment s)"
    by (auto simp: startNext_def grows_def execution_simps split: list.split sum.split dest: tx_log)
  then show ?thesis by (simp add: StartNext)
qed (auto simp: grows_def checkCancel_def startService_def closeService_def split: option.split)

section \<open>The invariant of the streams\<close>

definition unpublishedOf :: "service \<Rightarrow> string \<Rightarrow> execution_event list" where
  "unpublishedOf s i = filter (\<lambda>e. executionOf e = i) (unpublished s)"

definition publishedCount :: "service \<Rightarrow> string \<Rightarrow> nat" where
  "publishedCount s i = length (eventsOf (db s) i) - length (unpublishedOf s i)"

text \<open>The rows read for the replay, which hold at least what was published when the stream subscribed.\<close>

definition rowsOk :: "execution_event list \<Rightarrow> nat \<Rightarrow> stream \<Rightarrow> bool" where
  "rowsOk es p0 st \<longleftrightarrow> (case streamRows st of None \<Rightarrow> True
     | Some rs \<Rightarrow> \<exists>k. p0 \<le> k \<and> k \<le> length es \<and> rs = filter (\<lambda>e. afterSequence st < eventSequence e) (take k es))"

text \<open>A stream, given the events of its execution and how many of them are published.\<close>

definition streamOk :: "execution_event list \<Rightarrow> nat \<Rightarrow> stream \<Rightarrow> bool" where
  "streamOk es p st \<longleftrightarrow>
     (if replaying st then lastSequence st = afterSequence st \<and> sent st = []
        \<and> (\<exists>p0 \<le> p. buffered st = drop p0 (take p es) \<and> rowsOk es p0 st)
      else \<exists>m. p \<le> m \<and> m \<le> length es \<and> caught_up es m st)"

lemma rowsOk_grows: "rowsOk es p0 st \<Longrightarrow> rowsOk (es @ new) p0 st"
  unfolding rowsOk_def by (cases "streamRows st") (simp, fastforce)

lemma rowsOk_buffered [simp]: "rowsOk es p0 (st\<lparr>buffered := b\<rparr>) = rowsOk es p0 st"
  by (cases "streamRows st") (simp_all add: rowsOk_def)

lemma streamOk_grows:
  assumes "streamOk es p st" "p \<le> length es"
  shows "streamOk (es @ new) p st"
proof (cases "replaying st")
  case True
  then show ?thesis using assms rowsOk_grows [of es _ st new] by (auto simp: streamOk_def)
next
  case False
  then obtain m where m: "p \<le> m" "m \<le> length es" "caught_up es m st" using assms(1) by (auto simp: streamOk_def)
  then have "caught_up (es @ new) m st" by (simp add: caught_up_def)
  then show ?thesis using False m(1, 2) by (auto simp: streamOk_def intro!: exI [of _ m])
qed

lemma streamOk_receive:
  assumes "numbered es" "streamOk es p st" "p < length es"
  shows "streamOk es (Suc p) (receive (es ! p) st)"
proof (cases "replaying st")
  case True
  then obtain p0 where p0: "p0 \<le> p" "buffered st = drop p0 (take p es)" "lastSequence st = afterSequence st" "sent st = []" "rowsOk es p0 st"
    using assms(2) by (auto simp: streamOk_def)
  have "drop p0 (take p es) @ [es ! p] = drop p0 (take (Suc p) es)" using p0(1) assms(3) by (simp add: take_Suc_conv_app_nth)
  then show ?thesis using True p0 by (auto simp: streamOk_def receive_def intro!: exI [of _ p0])
next
  case False
  then obtain m where m: "p \<le> m" "m \<le> length es" "caught_up es m st" using assms(2) by (auto simp: streamOk_def)
  show ?thesis
  proof (cases "p < m")
    case True
    then show ?thesis using deliver_old [OF assms(1) m(3) True assms(3)] m False
      by (auto simp: streamOk_def receive_def Suc_le_eq intro: exI [of _ m])
  next
    case p: False
    then have "caught_up es (Suc p) (deliverEvent (es ! p) st)" using deliver_next [OF assms(1) _ assms(3)] m by auto
    then show ?thesis using False assms(3) by (auto simp: streamOk_def receive_def)
  qed
qed

lemma streamOk_replay:
  assumes es: "numbered es" and st: "streamOk es p st" "replaying st" "streamRows st = Some rs" and p: "p \<le> length es"
  shows "streamOk es p (replay rs st)"
proof -
  obtain p0 k where p0: "p0 \<le> p" "buffered st = drop p0 (take p es)" "lastSequence st = afterSequence st" "sent st = []"
    "p0 \<le> k" "k \<le> length es" "rs = filter (\<lambda>e. afterSequence st < eventSequence e) (take k es)"
    using st by (auto simp: streamOk_def rowsOk_def)
  have start: "caught_up es 0 st" using p0 by (simp add: caught_up_def)
  have "fold deliverEvent rs st = fold deliverEvent (drop 0 (take k es)) st" using deliver_filter [of st "take k es"] p0 by simp
  then have first: "caught_up es k (fold deliverEvent rs st)" using deliver_range [OF es start, of 0 k] p0(6) by simp
  then have "caught_up es k ((fold deliverEvent rs st)\<lparr>replaying := False\<rparr>)" by (simp add: caught_up_def)
  from deliver_range [OF es this p0(5) p]
  have "caught_up es (max k p) (replay rs st)"
    using numbered_sorted [OF es, of "\<lambda>_. True" p0 p] p0(2) by (simp add: replay_def Let_def)
  moreover have "\<not> replaying (replay rs st)" by (simp add: replay_def Let_def)
  ultimately show ?thesis using p p0(6) by (auto simp: streamOk_def intro!: exI [of _ "max k p"])
qed

lemma streamOk_new: "p \<le> length es \<Longrightarrow> replaying st \<Longrightarrow> streamRows st = None \<Longrightarrow> buffered st = [] \<Longrightarrow> sent st = [] \<Longrightarrow>
    lastSequence st = afterSequence st \<Longrightarrow> streamOk es p st"
  by (auto simp: streamOk_def rowsOk_def)

section \<open>The hub and the streams\<close>

definition refsOk :: "nat hub \<Rightarrow> bool" where
  "refsOk h \<longleftrightarrow> (\<forall>k r. jget (hubKeys h) k = Some r \<longrightarrow> r < length (listenerSets h) \<and> distinct (listenerSets h ! r))
     \<and> (\<forall>k k' r. jget (hubKeys h) k = Some r \<longrightarrow> jget (hubKeys h) k' = Some r \<longrightarrow> k = k')"

text \<open>The listeners of a key are the open streams of that execution, and those hold the reference of its set.\<close>

definition hubOk :: "nat hub \<Rightarrow> stream list \<Rightarrow> bool" where
  "hubOk h sts \<longleftrightarrow> refsOk h
     \<and> (\<forall>k n. n \<in> set (listenersOf k h) \<longleftrightarrow> n < length sts \<and> streamOpen (sts ! n) \<and> streamExecution (sts ! n) = k)
     \<and> (\<forall>n < length sts. streamOpen (sts ! n) \<longrightarrow> jget (hubKeys h) (streamExecution (sts ! n)) = Some (streamRef (sts ! n)))"

lemma subscribe_ok:
  assumes "refsOk h" "subscribe key l h = (r, h')"
  shows "refsOk h'" "set (listenersOf k h') = (if k = key then insert l (set (listenersOf k h)) else set (listenersOf k h))"
    "jget (hubKeys h') key = Some r" "jget (hubKeys h) k = Some q \<Longrightarrow> jget (hubKeys h') k = Some q"
proof -
  have less: "jget (hubKeys h) k = Some q \<Longrightarrow> q < length (listenerSets h) \<and> distinct (listenerSets h ! q)" for k q
    using assms(1) by (auto simp: refsOk_def)
  have inj: "jget (hubKeys h) k = Some q \<Longrightarrow> jget (hubKeys h) k' = Some q \<Longrightarrow> k = k'" for k k' q
    using assms(1) by (auto simp: refsOk_def)
  show "refsOk h'"
  proof (cases "jget (hubKeys h) key")
    case None
    then have h': "h' = h\<lparr>listenerSets := listenerSets h @ [[l]], hubKeys := jset key (length (listenerSets h)) (hubKeys h)\<rparr>"
      using assms(2) by (auto simp: subscribe_def)
    show ?thesis
      unfolding refsOk_def
    proof (intro conjI allI impI)
      fix k q assume "jget (hubKeys h') k = Some q"
      then show "q < length (listenerSets h')" "distinct (listenerSets h' ! q)"
        using less [of k q] by (auto simp: h' nth_append split: if_splits)
    next
      fix k k' q assume "jget (hubKeys h') k = Some q" "jget (hubKeys h') k' = Some q"
      then show "k = k'" using inj [of k q k'] less [of k q] less [of k' q] by (auto simp: h' split: if_splits)
    qed
  next
    case (Some q)
    then have h': "h' = h\<lparr>listenerSets := (listenerSets h)[q := List.insert l (listenerSets h ! q)]\<rparr>"
      using assms(2) by (auto simp: subscribe_def)
    show ?thesis
      unfolding refsOk_def
    proof (intro conjI allI impI)
      fix k p assume "jget (hubKeys h') k = Some p"
      then show "p < length (listenerSets h')" "distinct (listenerSets h' ! p)"
        using less [of k p] less [OF Some] by (auto simp: h' nth_list_update)
    next
      fix k k' p assume "jget (hubKeys h') k = Some p" "jget (hubKeys h') k' = Some p"
      then show "k = k'" using inj by (simp add: h')
    qed
  qed
  show "set (listenersOf k h') = (if k = key then insert l (set (listenersOf k h)) else set (listenersOf k h))"
  proof (cases "jget (hubKeys h) key")
    case None
    then show ?thesis using assms(2) less by (auto simp: subscribe_def listenersOf_def nth_append split: option.split)
  next
    case (Some q)
    then have h': "h' = h\<lparr>listenerSets := (listenerSets h)[q := List.insert l (listenerSets h ! q)]\<rparr>"
      using assms(2) by (auto simp: subscribe_def)
    show ?thesis
    proof (cases "k = key")
      case True
      then show ?thesis using less [OF Some] Some by (simp add: h' listenersOf_def)
    next
      case False
      then have "p \<noteq> q" if "jget (hubKeys h) k = Some p" for p using inj [OF Some, of k] that by auto
      then have "listenersOf k h' = listenersOf k h" by (cases "jget (hubKeys h) k") (simp_all add: h' listenersOf_def)
      then show ?thesis using False by simp
    qed
  qed
  show "jget (hubKeys h') key = Some r" "jget (hubKeys h) k = Some q \<Longrightarrow> jget (hubKeys h') k = Some q"
    using assms(2) by (auto simp: subscribe_def split: option.splits)
qed

lemma unsubscribe_ok:
  assumes "refsOk h" "jget (hubKeys h) key = Some r"
  shows "refsOk (unsubscribe key r l h)"
    "set (listenersOf k (unsubscribe key r l h)) = (if k = key then set (listenersOf k h) - {l} else set (listenersOf k h))"
    "k \<noteq> key \<or> set (listenersOf key h) - {l} \<noteq> {} \<Longrightarrow> jget (hubKeys (unsubscribe key r l h)) k = jget (hubKeys h) k"
proof -
  have less: "jget (hubKeys h) k = Some q \<Longrightarrow> q < length (listenerSets h) \<and> distinct (listenerSets h ! q)" for k q
    using assms(1) by (auto simp: refsOk_def)
  have inj: "jget (hubKeys h) k = Some q \<Longrightarrow> jget (hubKeys h) k' = Some q \<Longrightarrow> k = k'" for k k' q
    using assms(1) by (auto simp: refsOk_def)
  let ?h = "unsubscribe key r l h"
  have sets: "listenerSets ?h = (listenerSets h)[r := removeAll l (listenerSets h ! r)]" by (simp add: unsubscribe_def Let_def)
  have sub: "jget (hubKeys ?h) k = Some q \<Longrightarrow> jget (hubKeys h) k = Some q" for k q
    by (auto simp: unsubscribe_def Let_def split: if_splits)
  show "refsOk ?h"
    unfolding refsOk_def
  proof (intro conjI allI impI)
    fix k q assume "jget (hubKeys ?h) k = Some q"
    then show "q < length (listenerSets ?h)" "distinct (listenerSets ?h ! q)"
      using less [OF sub] less [OF assms(2)] by (auto simp: sets nth_list_update distinct_removeAll)
  next
    fix k k' q assume "jget (hubKeys ?h) k = Some q" "jget (hubKeys ?h) k' = Some q"
    then show "k = k'" using inj sub by blast
  qed
  show "set (listenersOf k ?h) = (if k = key then set (listenersOf k h) - {l} else set (listenersOf k h))"
  proof (cases "k = key")
    case True
    show ?thesis
    proof (cases "removeAll l (listenerSets h ! r) = []")
      case empty: True
      then have gone: "set (listenerSets h ! r) - {l} = {}" by (metis empty_set set_removeAll)
      have "listenersOf k (unsubscribe key r l h) = []" using True empty by (simp add: unsubscribe_def listenersOf_def Let_def)
      moreover have "listenersOf k h = listenerSets h ! r" using True assms(2) by (simp add: listenersOf_def)
      ultimately show ?thesis using gone True by simp
    next
      case False
      then show ?thesis using True assms(2) less [OF assms(2)] by (simp add: unsubscribe_def listenersOf_def Let_def)
    qed
  next
    case False
    then have "jget (hubKeys ?h) k = jget (hubKeys h) k" by (simp add: unsubscribe_def Let_def)
    moreover have "q \<noteq> r" if "jget (hubKeys h) k = Some q" for q using inj [OF assms(2), of k] that False by auto
    ultimately show ?thesis using False by (cases "jget (hubKeys h) k") (auto simp: listenersOf_def sets)
  qed
  show "k \<noteq> key \<or> set (listenersOf key h) - {l} \<noteq> {} \<Longrightarrow> jget (hubKeys ?h) k = jget (hubKeys h) k"
  proof -
    assume a: "k \<noteq> key \<or> set (listenersOf key h) - {l} \<noteq> {}"
    have "removeAll l (listenerSets h ! r) \<noteq> []" if "k = key"
      using a that assms(2) by (metis empty_set listenersOf_def option.simps(5) set_removeAll)
    then show ?thesis by (auto simp: unsubscribe_def Let_def)
  qed
qed

section \<open>Every step keeps the invariant\<close>

definition streamsOk :: "stream_service \<Rightarrow> bool" where
  "streamsOk s \<longleftrightarrow> serviceOk (svc s)
     \<and> (\<exists>es. eventLog (db (svc s)) = es @ unpublished (svc s))
     \<and> hubOk (eventHub s) (streams s)
     \<and> (\<forall>n < length (streams s). getExecutionRow (db (svc s)) (streamExecution (streams s ! n)) \<noteq> None
          \<and> (streamOpen (streams s ! n) \<longrightarrow> streamOk (eventsOf (db (svc s)) (streamExecution (streams s ! n)))
               (publishedCount (svc s) (streamExecution (streams s ! n))) (streams s ! n)))"

lemma streamsOkD:
  assumes "streamsOk s"
  shows "serviceOk (svc s)" "\<exists>es. eventLog (db (svc s)) = es @ unpublished (svc s)" "hubOk (eventHub s) (streams s)"
    "n < length (streams s) \<Longrightarrow> getExecutionRow (db (svc s)) (streamExecution (streams s ! n)) \<noteq> None"
    "n < length (streams s) \<Longrightarrow> streamOpen (streams s ! n) \<Longrightarrow> streamOk (eventsOf (db (svc s)) (streamExecution (streams s ! n)))
      (publishedCount (svc s) (streamExecution (streams s ! n))) (streams s ! n)"
  using assms by (simp_all add: streamsOk_def)

lemma split_events:
  assumes "eventLog (db v) = es @ unpublished v"
  shows "eventsOf (db v) i = filter (\<lambda>e. executionOf e = i) es @ unpublishedOf v i"
    "publishedCount v i = length (filter (\<lambda>e. executionOf e = i) es)"
  using assms by (simp_all add: eventsOf_def unpublishedOf_def publishedCount_def)

lemma publishedCount_le: "publishedCount v i \<le> length (eventsOf (db v) i)"
  by (simp add: publishedCount_def)

lemma row_numbered: "serviceOk v \<Longrightarrow> getExecutionRow (db v) i \<noteq> None \<Longrightarrow> numbered (eventsOf (db v) i)"
  using dbOkD(2) [OF serviceOkD(1)] by (fastforce simp: numbered_def reflects_def)

lemma service_streams_ok:
  assumes s: "streamsOk s"
  shows "streamsOk (s\<lparr>svc := serviceStep driver op (svc s)\<rparr>)"
proof -
  let ?v = "svc s" and ?w = "serviceStep driver op (svc s)"
  have w: "serviceOk ?w" "lives_on (db ?v) (db ?w)" using serviceStep_ok [OF streamsOkD(1) [OF s]] by (auto simp: advances_def)
  obtain new where new: "eventLog (db ?w) = eventLog (db ?v) @ new" "unpublished ?w = unpublished ?v @ new"
    using serviceStep_grows [of ?v driver op] by (auto simp: grows_def)
  obtain es where es: "eventLog (db ?v) = es @ unpublished ?v" using streamsOkD(2) [OF s] by blast
  then have es': "eventLog (db ?w) = es @ unpublished ?w" using new by simp
  have count: "publishedCount ?w i = publishedCount ?v i" for i by (simp add: split_events(2) [OF es] split_events(2) [OF es'])
  have log: "eventsOf (db ?w) i = eventsOf (db ?v) i @ filter (\<lambda>e. executionOf e = i) new" for i by (simp add: eventsOf_def new(1))
  have row: "getExecutionRow (db ?w) i \<noteq> None" if "getExecutionRow (db ?v) i \<noteq> None" for i
    using w(2) that by (fastforce simp: lives_on_def lifeOf_def)
  show ?thesis
    using w(1) es' streamsOkD(3-5) [OF s] row streamOk_grows publishedCount_le
    unfolding streamsOk_def by (simp add: count log)
qed

lemma fold_update_streams:
  assumes "distinct ns" "\<forall>n \<in> set ns. n < length (streams s)"
  shows "length (streams (fold (\<lambda>n. updateStream n f) ns s)) = length (streams s)" "svc (fold (\<lambda>n. updateStream n f) ns s) = svc s"
    "eventHub (fold (\<lambda>n. updateStream n f) ns s) = eventHub s"
    "k < length (streams s) \<Longrightarrow> streams (fold (\<lambda>n. updateStream n f) ns s) ! k = (if k \<in> set ns then f (streams s ! k) else streams s ! k)"
  using assms by (induction ns arbitrary: s) (auto simp: updateStream_def nth_list_update)

lemma hubOk_same:
  assumes "hubOk h sts" "length sts' = length sts"
    "\<And>n. n < length sts \<Longrightarrow> streamOpen (sts' ! n) = streamOpen (sts ! n) \<and> streamExecution (sts' ! n) = streamExecution (sts ! n)
      \<and> streamRef (sts' ! n) = streamRef (sts ! n)"
  shows "hubOk h sts'"
  using assms unfolding hubOk_def by auto

lemma receive_same [simp]:
  "streamOpen (receive e st) = streamOpen st" "streamExecution (receive e st) = streamExecution st" "streamRef (receive e st) = streamRef st"
  by (simp_all add: receive_def)

lemma replay_same [simp]:
  "streamOpen (replay es st) = streamOpen st" "streamExecution (replay es st) = streamExecution st" "streamRef (replay es st) = streamRef st"
  by (simp_all add: replay_def Let_def)

lemma serviceOk_unpublished: "serviceOk v \<Longrightarrow> serviceOk (v\<lparr>unpublished := es\<rparr>)"
  unfolding serviceOk_def by (simp add: createdIds_def pendingIds_def attended_def)

lemma publishNext_ok:
  assumes s: "streamsOk s"
  shows "streamsOk (publishNext s)"
proof (cases "unpublished (svc s)")
  case Nil
  then show ?thesis using s by (simp add: publishNext_def)
next
  case (Cons e rest)
  let ?v = "svc s" and ?w = "(svc s)\<lparr>unpublished := rest\<rparr>"
  let ?ns = "listenersOf (executionOf e) (eventHub s)"
  define t where "t = s\<lparr>svc := ?w\<rparr>"
  have hub: "hubOk (eventHub s) (streams s)" by (rule streamsOkD(3) [OF s])
  have ns: "n \<in> set ?ns \<longleftrightarrow> n < length (streams s) \<and> streamOpen (streams s ! n) \<and> streamExecution (streams s ! n) = executionOf e" for n
    using hub by (simp add: hubOk_def)
  have dist: "distinct ?ns" using hub by (auto simp: hubOk_def refsOk_def listenersOf_def split: option.split)
  have inside: "\<forall>n \<in> set ?ns. n < length (streams t)" using ns by (simp add: t_def)
  note fold = fold_update_streams [OF dist inside, where f = "receive e"]
  have pub: "publishNext s = fold (\<lambda>n. updateStream n (receive e)) ?ns t" by (simp add: publishNext_def Cons t_def)
  have len: "length (streams t) = length (streams s)" "eventHub t = eventHub s" "svc t = ?w" "streams t = streams s" by (simp_all add: t_def)
  obtain es where es: "eventLog (db ?v) = es @ unpublished ?v" using streamsOkD(2) [OF s] by blast
  then have es': "eventLog (db ?w) = (es @ [e]) @ unpublished ?w" by (simp add: Cons)
  have count: "publishedCount ?w i = publishedCount ?v i + (if i = executionOf e then 1 else 0)" for i
    by (simp add: split_events(2) [OF es] split_events(2) [OF es'])
  have e_at: "publishedCount ?v (executionOf e) < length (eventsOf (db ?v) (executionOf e))"
    "eventsOf (db ?v) (executionOf e) ! publishedCount ?v (executionOf e) = e"
    by (simp_all add: split_events [OF es] unpublishedOf_def Cons)
  have one: "streamOk (eventsOf (db ?v) (streamExecution (streams s ! n))) (publishedCount ?w (streamExecution (streams s ! n)))
      (if n \<in> set ?ns then receive e (streams s ! n) else streams s ! n)" if n: "n < length (streams s)" "streamOpen (streams s ! n)" for n
  proof (cases "streamExecution (streams s ! n) = executionOf e")
    case True
    have "numbered (eventsOf (db ?v) (executionOf e))" using row_numbered [OF streamsOkD(1) [OF s]] streamsOkD(4) [OF s n(1)] True by simp
    from streamOk_receive [OF this _ e_at(1)] have "streamOk (eventsOf (db ?v) (executionOf e)) (Suc (publishedCount ?v (executionOf e))) (receive e (streams s ! n))"
      using streamsOkD(5) [OF s n] True e_at(2) by simp
    then show ?thesis using True ns n count by simp
  next
    case False
    then show ?thesis using streamsOkD(5) [OF s n] ns count by simp
  qed
  have w: "serviceOk ?w" by (rule serviceOk_unpublished [OF streamsOkD(1) [OF s]])
  have hub': "hubOk (eventHub s) (streams (publishNext s))"
    by (rule hubOk_same [OF hub]) (simp_all add: pub fold len)
  show ?thesis
    unfolding streamsOk_def
  proof (intro conjI allI impI)
    show "serviceOk (svc (publishNext s))" using w by (simp add: pub fold len)
    show "\<exists>es. eventLog (db (svc (publishNext s))) = es @ unpublished (svc (publishNext s))" using es' by (auto simp: pub fold len)
    show "hubOk (eventHub (publishNext s)) (streams (publishNext s))" using hub' by (simp add: pub fold len)
    fix n assume n: "n < length (streams (publishNext s))"
    then have n': "n < length (streams s)" by (simp add: pub fold len)
    then show "getExecutionRow (db (svc (publishNext s))) (streamExecution (streams (publishNext s) ! n)) \<noteq> None"
      using streamsOkD(4) [OF s n'] by (simp add: pub fold len)
    show "streamOk (eventsOf (db (svc (publishNext s))) (streamExecution (streams (publishNext s) ! n)))
        (publishedCount (svc (publishNext s)) (streamExecution (streams (publishNext s) ! n))) (streams (publishNext s) ! n)"
      if "streamOpen (streams (publishNext s) ! n)"
      using that one [OF n'] n' by (simp add: pub fold len split: if_splits)
  qed
qed

lemma updateStream_sel [simp]:
  "svc (updateStream n f s) = svc s" "eventHub (updateStream n f s) = eventHub s" "length (streams (updateStream n f s)) = length (streams s)"
  "k < length (streams s) \<Longrightarrow> streams (updateStream n f s) ! k = (if k = n then f (streams s ! n) else streams s ! k)"
  by (auto simp: updateStream_def nth_list_update)

text \<open>A step of one stream that does not touch the hub.\<close>

lemma updateStream_ok:
  assumes s: "streamsOk s" and n: "n < length (streams s)"
    and same: "streamOpen (f (streams s ! n)) = streamOpen (streams s ! n)" "streamExecution (f (streams s ! n)) = streamExecution (streams s ! n)"
      "streamRef (f (streams s ! n)) = streamRef (streams s ! n)"
    and ok: "streamOpen (streams s ! n) \<Longrightarrow> streamOk (eventsOf (db (svc s)) (streamExecution (streams s ! n)))
      (publishedCount (svc s) (streamExecution (streams s ! n))) (f (streams s ! n))"
  shows "streamsOk (updateStream n f s)"
proof -
  have hub: "hubOk (eventHub s) (streams (updateStream n f s))"
    by (rule hubOk_same [OF streamsOkD(3) [OF s]]) (auto simp: same)
  show ?thesis
    unfolding streamsOk_def
  proof (intro conjI allI impI)
    show "serviceOk (svc (updateStream n f s))" "\<exists>es. eventLog (db (svc (updateStream n f s))) = es @ unpublished (svc (updateStream n f s))"
      "hubOk (eventHub (updateStream n f s)) (streams (updateStream n f s))"
      using streamsOkD(1, 2) [OF s] hub by simp_all
    fix k assume k: "k < length (streams (updateStream n f s))"
    then show "getExecutionRow (db (svc (updateStream n f s))) (streamExecution (streams (updateStream n f s) ! k)) \<noteq> None"
      using streamsOkD(4) [OF s] same(2) by simp
    assume "streamOpen (streams (updateStream n f s) ! k)"
    then show "streamOk (eventsOf (db (svc (updateStream n f s))) (streamExecution (streams (updateStream n f s) ! k)))
        (publishedCount (svc (updateStream n f s)) (streamExecution (streams (updateStream n f s) ! k))) (streams (updateStream n f s) ! k)"
      using streamsOkD(5) [OF s] same k ok by (auto split: if_splits)
  qed
qed

lemma listEvents_rows:
  assumes "numbered (eventsOf d i)"
  shows "listEvents d i after = filter (\<lambda>e. after < eventSequence e) (take (length (eventsOf d i)) (eventsOf d i))"
  using numbered_sorted [OF assms, of "\<lambda>e. after < eventSequence e" 0 "length (eventsOf d i)"]
  by (simp add: listEvents_def eventsOf_def conj_commute)

lemma readStream_ok:
  assumes s: "streamsOk s"
  shows "streamsOk (readStream n s)"
proof (cases "n < length (streams s) \<and> replaying (streams s ! n) \<and> streamRows (streams s ! n) = None")
  case True
  let ?st = "streams s ! n"
  let ?es = "eventsOf (db (svc s)) (streamExecution ?st)" and ?p = "publishedCount (svc s) (streamExecution ?st)"
  have num: "numbered ?es" using row_numbered [OF streamsOkD(1) [OF s] streamsOkD(4) [OF s]] True by blast
  show ?thesis
    unfolding readStream_def if_P [OF True]
  proof (rule updateStream_ok [OF s])
    assume "streamOpen ?st"
    then obtain p0 where p0: "p0 \<le> ?p" "buffered ?st = drop p0 (take ?p ?es)" "lastSequence ?st = afterSequence ?st" "sent ?st = []"
      using streamsOkD(5) [OF s, of n] True unfolding streamOk_def by auto
    have "p0 \<le> length ?es" using p0(1) publishedCount_le le_trans by blast
    then have "rowsOk ?es p0 (?st\<lparr>streamRows := Some (listEvents (db (svc s)) (streamExecution ?st) (afterSequence ?st))\<rparr>)"
      unfolding rowsOk_def listEvents_rows [OF num] by (auto intro!: exI [of _ "length ?es"])
    then show "streamOk ?es ?p (?st\<lparr>streamRows := Some (listEvents (db (svc s)) (streamExecution ?st) (afterSequence ?st))\<rparr>)"
      using True p0 by (auto simp: streamOk_def)
  qed (use True in simp_all)
next
  case False
  then show ?thesis unfolding readStream_def if_not_P [OF False] using s by simp
qed

lemma replayStream_ok:
  assumes s: "streamsOk s"
  shows "streamsOk (replayStream n s)"
proof (cases "n < length (streams s) \<and> replaying (streams s ! n)")
  case True
  let ?st = "streams s ! n"
  have num: "numbered (eventsOf (db (svc s)) (streamExecution ?st))"
    using row_numbered [OF streamsOkD(1) [OF s] streamsOkD(4) [OF s]] True by blast
  show ?thesis
  proof (cases "streamRows ?st")
    case (Some rs)
    have "streamsOk (updateStream n (replay rs) s)"
      by (rule updateStream_ok [OF s]) (use True in \<open>simp_all add: streamOk_replay [OF num streamsOkD(5) [OF s] _ Some publishedCount_le]\<close>)
    then show ?thesis using True Some by (simp add: replayStream_def)
  qed (use True s in \<open>simp add: replayStream_def\<close>)
qed (auto simp: replayStream_def s)

lemma openStream_ok:
  assumes s: "streamsOk s"
  shows "streamsOk (openStream i after s)"
proof (cases "getExecutionRow (db (svc s)) i")
  case None
  then show ?thesis using s by (simp add: openStream_def)
next
  case (Some row)
  let ?n = "length (streams s)"
  obtain r h where h: "subscribe i ?n (eventHub s) = (r, h)" by (cases "subscribe i ?n (eventHub s)") auto
  define new where "new = \<lparr>streamExecution = i, afterSequence = after, streamRef = r, streamRows = None,
      replaying = True, buffered = [], lastSequence = after, sent = [], streamOpen = True\<rparr>"
  have t: "openStream i after s = s\<lparr>eventHub := h, streams := streams s @ [new]\<rparr>" using Some h by (simp add: openStream_def new_def)
  have hub: "hubOk (eventHub s) (streams s)" by (rule streamsOkD(3) [OF s])
  then have refs: "refsOk (eventHub s)" by (simp add: hubOk_def)
  note sub = subscribe_ok [OF refs h]
  have "hubOk h (streams s @ [new])"
    unfolding hubOk_def
  proof (intro conjI allI impI)
    show "refsOk h" by (rule sub(1))
    show "n \<in> set (listenersOf k h) \<longleftrightarrow> n < length (streams s @ [new]) \<and> streamOpen ((streams s @ [new]) ! n)
        \<and> streamExecution ((streams s @ [new]) ! n) = k" for k n
      using hub sub(2) [of k] by (auto simp: hubOk_def nth_append new_def less_Suc_eq)
    show "jget (hubKeys h) (streamExecution ((streams s @ [new]) ! n)) = Some (streamRef ((streams s @ [new]) ! n))"
      if "n < length (streams s @ [new])" "streamOpen ((streams s @ [new]) ! n)" for n
      using hub sub(3, 4) that by (auto simp: hubOk_def nth_append new_def less_Suc_eq)
  qed
  moreover have "streamOk (eventsOf (db (svc s)) i) (publishedCount (svc s) i) new"
    by (rule streamOk_new) (simp_all add: new_def publishedCount_le)
  ultimately show ?thesis
    using streamsOkD [OF s] Some unfolding t streamsOk_def by (auto simp: nth_append less_Suc_eq new_def)
qed

lemma closeStream_ok:
  assumes s: "streamsOk s"
  shows "streamsOk (closeStream n s)"
proof (cases "n < length (streams s) \<and> streamOpen (streams s ! n) \<and> \<not> replaying (streams s ! n)")
  case True
  let ?key = "streamExecution (streams s ! n)" and ?r = "streamRef (streams s ! n)"
  let ?h = "unsubscribe ?key ?r n (eventHub s)"
  let ?t = "updateStream n (\<lambda>st. st\<lparr>streamOpen := False\<rparr>) s"
  have hub: "hubOk (eventHub s) (streams s)" by (rule streamsOkD(3) [OF s])
  then have refs: "refsOk (eventHub s)" and ref: "jget (hubKeys (eventHub s)) ?key = Some ?r" using True by (auto simp: hubOk_def)
  note un = unsubscribe_ok [OF refs ref]
  have "hubOk ?h (streams ?t)"
    unfolding hubOk_def
  proof (intro conjI allI impI)
    show "refsOk ?h" by (rule un(1))
    show "k \<in> set (listenersOf key ?h) \<longleftrightarrow> k < length (streams ?t) \<and> streamOpen (streams ?t ! k) \<and> streamExecution (streams ?t ! k) = key" for key k
      using hub un(2) [of key n] True by (auto simp: hubOk_def split: if_splits)
    show "jget (hubKeys ?h) (streamExecution (streams ?t ! k)) = Some (streamRef (streams ?t ! k))"
      if k: "k < length (streams ?t)" "streamOpen (streams ?t ! k)" for k
    proof -
      have k': "k < length (streams s)" "k \<noteq> n" "streamOpen (streams s ! k)" using k by (auto split: if_splits)
      then have "jget (hubKeys (eventHub s)) (streamExecution (streams s ! k)) = Some (streamRef (streams s ! k))"
        "k \<in> set (listenersOf (streamExecution (streams s ! k)) (eventHub s))" using hub by (auto simp: hubOk_def)
      then show ?thesis using un(3) [of "streamExecution (streams s ! k)" n] k' by (cases "streamExecution (streams s ! k) = ?key") auto
    qed
  qed
  moreover have "closeStream n s = ?t\<lparr>eventHub := ?h\<rparr>" using True by (simp add: closeStream_def)
  ultimately show ?thesis
    using streamsOkD [OF s] unfolding streamsOk_def by (auto split: if_splits)
next
  case False
  then show ?thesis unfolding closeStream_def if_not_P [OF False] using s by simp
qed

interpretation stream_machine: event_machine "streamStep driver" streamsOk for driver
proof
  show "streamsOk (streamStep driver op s)" if "streamsOk s" for op s
    using that by (cases op) (simp_all add: service_streams_ok publishNext_ok openStream_ok readStream_ok replayStream_ok closeStream_ok)
qed

lemma newStreams_ok: "dbOk d \<Longrightarrow> streamsOk (newStreams d)"
  by (auto simp: streamsOk_def newStreams_def newService_ok newHub_def hubOk_def refsOk_def listenersOf_def) (simp add: newService_def)

section \<open>Properties\<close>

text \<open>
  C28: a stream misses nothing and repeats nothing. In every interleaving of the service, the publication of its events and
  any number of streams, an open stream whose replay is over has sent, each once and in order, exactly the events after the
  requested one among the first \<open>m\<close> of its execution, and \<open>m\<close> covers at least all that were published: once nothing waits for
  publication it has sent them all. A stream that is still replaying has sent nothing.
\<close>

theorem stream_complete:
  assumes "dbOk d" "s = fold (streamStep driver) ops (newStreams d)"
    and "n < length (streams s)" "streamOpen (streams s ! n)"
  defines "es \<equiv> eventsOf (db (svc s)) (streamExecution (streams s ! n))"
  shows "if replaying (streams s ! n) then sent (streams s ! n) = []
    else \<exists>m \<ge> publishedCount (svc s) (streamExecution (streams s ! n)).
      sent (streams s ! n) = filter (\<lambda>e. afterSequence (streams s ! n) < eventSequence e) (take m es)"
proof -
  have "streamsOk s" unfolding assms(2) by (rule stream_machine.run_inv [OF newStreams_ok [OF assms(1)]])
  from streamsOkD(5) [OF this assms(3, 4)] show ?thesis unfolding es_def streamOk_def caught_up_def by auto
qed

section \<open>What the hubs do wrong\<close>

text \<open>
  A subscription that is cancelled twice: the first time emptied the set and dropped its key, so a later subscriber has a
  set of its own, and the second time drops the key of that one; nothing reaches it any more.
\<close>

lemma unsubscribe_twice:
  assumes "subscribe key a newHub = (r, h1)" "subscribe key b (unsubscribe key r a h1) = (q, h2)" "a \<noteq> b"
  shows "listenersOf key h2 = [b] \<and> listenersOf key (unsubscribe key r a h2) = []"
  using assms by (auto simp: subscribe_def unsubscribe_def newHub_def listenersOf_def Let_def)

text \<open>The executions' hub stops at the first listener that throws; the agents' hub calls them all.\<close>

lemma throwing_listener_starves:
  assumes "listenersOf key h = before @ l # later" "throws l" "list_all (\<lambda>x. \<not> throws x) before"
  shows "publishExecution throws key h = (before @ [l], True) \<and> publishAgent throws key h = (before @ l # later, False)"
proof -
  have "callListeners throws (before @ l # later) = (before @ [l], True)" using assms(2, 3) by (induction before) simp_all
  then show ?thesis using assms(1) by (simp add: publishExecution_def publishAgent_def)
qed

section \<open>Witnesses\<close>

definition demoWatch :: "stream_op list" where
  "demoWatch = map ServiceOp demoCreate @ [OpenStream ''e'' 0] @ map ServiceOp demoRun @ [PublishNext, ReadStream 0, ReplayStream 0, PublishNext]"

theorem stream_complete_witness:
  "if replaying (streams (fold (streamStep sqliteDriver) demoWatch (newStreams noRows)) ! 0)
    then sent (streams (fold (streamStep sqliteDriver) demoWatch (newStreams noRows)) ! 0) = []
    else \<exists>m \<ge> publishedCount (svc (fold (streamStep sqliteDriver) demoWatch (newStreams noRows)))
            (streamExecution (streams (fold (streamStep sqliteDriver) demoWatch (newStreams noRows)) ! 0)).
      sent (streams (fold (streamStep sqliteDriver) demoWatch (newStreams noRows)) ! 0)
        = filter (\<lambda>e. afterSequence (streams (fold (streamStep sqliteDriver) demoWatch (newStreams noRows)) ! 0) < eventSequence e)
            (take m (eventsOf (db (svc (fold (streamStep sqliteDriver) demoWatch (newStreams noRows))))
              (streamExecution (streams (fold (streamStep sqliteDriver) demoWatch (newStreams noRows)) ! 0))))"
proof (rule stream_complete [OF noRows_ok refl])
  show "0 < length (streams (fold (streamStep sqliteDriver) demoWatch (newStreams noRows)))" by code_simp
  show "streamOpen (streams (fold (streamStep sqliteDriver) demoWatch (newStreams noRows)) ! 0)" by code_simp
qed

lemma demoWatch_sends:
  "map eventSequence (sent (streams (fold (streamStep sqliteDriver) demoWatch (newStreams noRows)) ! 0)) = [1, 2]"
  by code_simp

end
