(* ===== verification/ExecutionQueries.thy ===== *)
theory ExecutionQueries
  imports ExecutionService "HOL-Library.Char_ord" "HOL-Library.List_Lexorder"
begin

text \<open>
  Listing executions page by page, \<open>listExecutions\<close> of \<open>packages/supervisor/src/service.ts\<close>. The encoding of cursors is that
  of the library (\<open>base64url\<close>), a parameter. Text columns compare as strings of characters. The lemmas show that following
  the cursors lists every execution once when the creation times differ, and what is lost when they do not.
\<close>

section \<open>Responses and pages\<close>

record execution_response =
  responseId :: string
  responseKey :: string
  responseAgentType :: string
  responseStatus :: execution_status
  responseTimeout :: nat
  responseOutput :: json
  responseError :: "(string \<times> string) option"
  responseCreatedAt :: string
  responseStartedAt :: "string option"
  responseFinishedAt :: "string option"

definition toResponse :: "execution_row \<Rightarrow> execution_response" where
  "toResponse row =
     \<lparr>responseId = rowId row, responseKey = rowKey row, responseAgentType = rowAgentType row, responseStatus = rowStatus row,
      responseTimeout = rowTimeout row, responseOutput = (case rowOutput row of None \<Rightarrow> JNull | Some v \<Rightarrow> v),
      responseError = (case (rowErrorCode row, rowErrorMessage row) of (Some code, Some msg) \<Rightarrow> Some (code, msg) | _ \<Rightarrow> None),
      responseCreatedAt = rowCreatedAt row, responseStartedAt = rowStartedAt row, responseFinishedAt = rowFinishedAt row\<rparr>"

definition getExecution :: "supervisor_db \<Rightarrow> string \<Rightarrow> execution_response option" where
  "getExecution d i = map_option toResponse (getExecutionRow d i)"

text \<open>By the time of creation and then the identifier, both descending.\<close>

definition newestFirst :: "execution_row list \<Rightarrow> execution_row list" where
  "newestFirst rows = rev (sort_key rowCreatedAt (sort_key rowId rows))"

definition withStatus :: "execution_status option \<Rightarrow> execution_row list \<Rightarrow> execution_row list" where
  "withStatus st rows = (case st of None \<Rightarrow> rows | Some st \<Rightarrow> filter (\<lambda>row. rowStatus row = st) rows)"

definition afterCursor :: "(string \<Rightarrow> string option) \<Rightarrow> string option \<Rightarrow> execution_row list \<Rightarrow> execution_row list" where
  "afterCursor decodeCursor cursor rows =
     (case cursor of None \<Rightarrow> rows
      | Some c \<Rightarrow> if c = [] then rows
          else (case decodeCursor c of None \<Rightarrow> rows
                | Some moment \<Rightarrow> if moment = [] then rows else filter (\<lambda>row. rowCreatedAt row < moment) rows))"

definition listExecutions ::
  "(string \<Rightarrow> string option) \<Rightarrow> (string \<Rightarrow> string) \<Rightarrow> execution_status option \<Rightarrow> nat \<Rightarrow> string option \<Rightarrow> supervisor_db
    \<Rightarrow> execution_response list \<times> string option" where
  "listExecutions decodeCursor encodeCursor st limit cursor d =
     (let rows = take (limit + 1) (newestFirst (afterCursor decodeCursor cursor (withStatus st (jvalues (executions d)))));
          hasMore = (limit < length rows);
          page = (if hasMore then take limit rows else rows)
      in (map toResponse page,
          if hasMore then Some (encodeCursor (if page = [] then [] else rowCreatedAt (last page))) else None))"

text \<open>A client that follows the cursors of an unchanging table, for at most so many pages.\<close>

fun followPages ::
  "(string \<Rightarrow> string option) \<Rightarrow> (string \<Rightarrow> string) \<Rightarrow> execution_status option \<Rightarrow> nat \<Rightarrow> supervisor_db \<Rightarrow> nat \<Rightarrow> string option
    \<Rightarrow> execution_response list option" where
  "followPages decodeCursor encodeCursor st limit d 0 cursor = None"
| "followPages decodeCursor encodeCursor st limit d (Suc n) cursor =
     (case listExecutions decodeCursor encodeCursor st limit cursor d of
        (page, None) \<Rightarrow> Some page
      | (page, Some c) \<Rightarrow> map_option ((@) page) (followPages decodeCursor encodeCursor st limit d n (Some c)))"

section \<open>Pages\<close>

lemma newestFirst_filter: "newestFirst (filter P rows) = filter P (newestFirst rows)"
  by (simp add: newestFirst_def filter_sort rev_filter [symmetric])

lemma set_newestFirst [simp]: "set (newestFirst rows) = set rows"
  by (simp add: newestFirst_def)

lemma length_newestFirst [simp]: "length (newestFirst rows) = length rows"
  by (simp add: newestFirst_def)

lemma newestFirst_descending:
  assumes "distinct (map rowCreatedAt rows)"
  shows "sorted_wrt (\<lambda>a b. rowCreatedAt b < rowCreatedAt a) (newestFirst rows)"
proof -
  let ?xs = "sort_key rowCreatedAt (sort_key rowId rows)"
  have "distinct (map rowCreatedAt ?xs)" using assms by (metis mset_eq_imp_distinct_iff mset_map mset_sort)
  then have "sorted_wrt (<) (map rowCreatedAt ?xs)" by (simp add: strict_sorted_iff)
  then show ?thesis by (simp add: newestFirst_def sorted_wrt_rev sorted_wrt_map)
qed

lemma descending_cut:
  assumes "sorted_wrt (\<lambda>a b. f b < f a) xs" "k < length xs"
  shows "filter (\<lambda>x. f x < (f (xs ! k) :: 'a :: linorder)) xs = drop (Suc k) xs"
proof -
  have "xs = take k xs @ xs ! k # drop (Suc k) xs" using assms(2) by (simp add: id_take_nth_drop)
  moreover have "\<forall>x \<in> set (take k xs). f (xs ! k) < f x" "\<forall>x \<in> set (drop (Suc k) xs). f x < f (xs ! k)"
    using assms(1) calculation by (metis sorted_wrt_append list.set_intros(1), metis sorted_wrt_append sorted_wrt.simps(2))
  ultimately have "filter (\<lambda>x. f x < f (xs ! k)) xs = filter (\<lambda>x. f x < f (xs ! k)) (take k xs) @ filter (\<lambda>x. f x < f (xs ! k)) (drop (Suc k) xs)"
    by (metis (no_types, lifting) filter.simps(2) filter_append less_irrefl)
  moreover have "filter (\<lambda>x. f x < f (xs ! k)) (take k xs) = []"
    using \<open>\<forall>x \<in> set (take k xs). f (xs ! k) < f x\<close> by (auto simp: filter_empty_conv)
  moreover have "filter (\<lambda>x. f x < f (xs ! k)) (drop (Suc k) xs) = drop (Suc k) xs"
    using \<open>\<forall>x \<in> set (drop (Suc k) xs). f x < f (xs ! k)\<close> by (simp add: filter_True)
  ultimately show ?thesis by simp
qed

lemma followPages_from:
  assumes rows: "rows = newestFirst (withStatus st (jvalues (executions d)))" "sorted_wrt (\<lambda>a b. rowCreatedAt b < rowCreatedAt a) rows"
    and times: "\<forall>row \<in> set rows. rowCreatedAt row \<noteq> []"
    and cursors: "\<forall>moment. moment \<noteq> [] \<longrightarrow> encodeCursor moment \<noteq> [] \<and> decodeCursor (encodeCursor moment) = Some moment"
    and limit: "0 < limit"
  shows "k \<le> length rows \<Longrightarrow> length rows - k < n \<Longrightarrow>
    (if k = 0 then cursor = None else cursor = Some (encodeCursor (rowCreatedAt (rows ! (k - 1))))) \<Longrightarrow>
    followPages decodeCursor encodeCursor st limit d n cursor = Some (map toResponse (drop k rows))"
proof (induction n arbitrary: k cursor)
  case (Suc n)
  have found: "newestFirst (afterCursor decodeCursor cursor (withStatus st (jvalues (executions d)))) = drop k rows"
  proof (cases "k = 0")
    case True
    then show ?thesis using Suc.prems rows(1) by (simp add: afterCursor_def)
  next
    case False
    then have k: "k - 1 < length rows" "Suc (k - 1) = k" using Suc.prems(1) by auto
    then have "rowCreatedAt (rows ! (k - 1)) \<noteq> []" using times by simp
    then show ?thesis
      using Suc.prems(3) False cursors descending_cut [OF rows(2) k(1)] k(2)
      by (simp add: afterCursor_def newestFirst_filter rows(1) [symmetric])
  qed
  show ?case
  proof (cases "limit < length (drop k rows)")
    case False
    then have "listExecutions decodeCursor encodeCursor st limit cursor d = (map toResponse (drop k rows), None)"
      by (simp add: listExecutions_def Let_def found)
    then show ?thesis by simp
  next
    case True
    have page: "take limit (take (limit + 1) (drop k rows)) = take limit (drop k rows)" by (simp add: min_def)
    have "last (take limit (drop k rows)) = rows ! (k + limit - 1)" "take limit (drop k rows) \<noteq> []"
      using True limit by (auto simp: last_conv_nth min_def)
    then have step: "listExecutions decodeCursor encodeCursor st limit cursor d =
        (map toResponse (take limit (drop k rows)), Some (encodeCursor (rowCreatedAt (rows ! (k + limit - 1)))))"
      using True by (simp add: listExecutions_def Let_def found page)
    have "followPages decodeCursor encodeCursor st limit d n (Some (encodeCursor (rowCreatedAt (rows ! (k + limit - 1)))))
        = Some (map toResponse (drop (k + limit) rows))"
      using True limit Suc.prems by (intro Suc.IH) auto
    then show ?thesis unfolding followPages.simps step
      by (simp add: map_append [symmetric] add.commute [of k] drop_drop [symmetric] del: map_append drop_drop)
  qed
qed simp

text \<open>
  Following the cursors from the first page gives every execution of the status exactly once, newest first, when no two of them
  were created at the same time; one page more than there are executions is enough.
\<close>

theorem pages_complete:
  assumes "distinct (map rowCreatedAt (withStatus st (jvalues (executions d))))"
    and "\<forall>row \<in> set (withStatus st (jvalues (executions d))). rowCreatedAt row \<noteq> []"
    and "\<forall>moment. moment \<noteq> [] \<longrightarrow> encodeCursor moment \<noteq> [] \<and> decodeCursor (encodeCursor moment) = Some moment"
    and "0 < limit"
  shows "followPages decodeCursor encodeCursor st limit d (Suc (length (withStatus st (jvalues (executions d))))) None
    = Some (map toResponse (newestFirst (withStatus st (jvalues (executions d)))))"
  using followPages_from [OF refl newestFirst_descending [OF assms(1)] _ assms(3, 4), of 0 "Suc (length (withStatus st (jvalues (executions d))))" None]
    assms(2) by simp

text \<open>Two executions created in the same millisecond: a page of one shows one of them, and its cursor skips the other.\<close>

definition twinRow :: "string \<Rightarrow> execution_row" where
  "twinRow i = demoRow\<lparr>rowId := i, rowKey := i\<rparr>"

definition twins :: supervisor_db where
  "twins = \<lparr>executions = [(''e'', twinRow ''e''), (''f'', twinRow ''f'')], eventLog = [], idempotencyKeys = [(''e'', ''e''), (''f'', ''f'')]\<rparr>"

lemma page_skips_twin:
  "map_option (map responseId) (followPages Some id None 1 twins 3 None) = Some [''f'']"
  by code_simp

theorem pages_complete_witness:
  "followPages Some id (Some ExSucceeded) 1 (twins\<lparr>executions := [(''e'', twinRow ''e''), (''f'', (twinRow ''f'')\<lparr>rowCreatedAt := ''u''\<rparr>)]\<rparr>) 3 None
    = Some (map toResponse [(twinRow ''f'')\<lparr>rowCreatedAt := ''u''\<rparr>, twinRow ''e''])"
proof -
  let ?d = "twins\<lparr>executions := [(''e'', twinRow ''e''), (''f'', (twinRow ''f'')\<lparr>rowCreatedAt := ''u''\<rparr>)]\<rparr>"
  have rows: "withStatus (Some ExSucceeded) (jvalues (executions ?d)) = [twinRow ''e'', (twinRow ''f'')\<lparr>rowCreatedAt := ''u''\<rparr>]" by code_simp
  have "newestFirst [twinRow ''e'', (twinRow ''f'')\<lparr>rowCreatedAt := ''u''\<rparr>] = [(twinRow ''f'')\<lparr>rowCreatedAt := ''u''\<rparr>, twinRow ''e'']" by code_simp
  then show ?thesis
    using pages_complete [of "Some ExSucceeded" ?d id Some 1] unfolding rows by (simp add: twinRow_def demoRow_def numeral_3_eq_3)
qed

end
