(* ===== verification/Spec2Isabelle.thy ===== *)
theory Spec2Isabelle
  imports TerminalTiling MuxStore FairScheduler FrameScheduler OutputWriter TerminalWs InputWriter DispatchTasks GeometryCoordinator ViewportActivity FocusHistory ViewportModel TerminalStreamV3 WorkerPool KeymapCanon KeymapSettings Transcript RetainedScene GlyphAtlas RendererRecovery ColdRows Submissions ExecutionStream ExecutionQueries
begin

text \<open>
  A verification development for piDeck (yaade), a multi-client terminal and agent workbench. What is modelled is TypeScript
  under \<open>src/packages\<close>: the code that arranges, routes, mirrors, streams and draws multiplexed terminals, the keymap, and the
  client and supervisor code for agent runs.

  \<^bold>\<open>The program.\<close> A host process owns terminals. A client mirrors the host's sessions, tabs and terminals (\<open>mux-store\<close>), picks what
  to show from a deep link (\<open>mux-routing\<close>) and lays terminals out in split panes (\<open>terminal-tiling\<close> over the tree of
  \<open>yaade-panels\<close>). Bytes arrive over a binary WebSocket protocol (\<open>terminal-ws\<close>) or as semantic patches
  (\<open>terminal-stream-v3\<close>), are queued by the output writer on a shared task lane, parsed in a pool of workers behind a fair
  scheduler, come back as packed render updates, are kept in a viewport model and drawn from a retained scene and a glyph atlas
  by a renderer that survives the loss of its context. Older rows come from a bounded cache. Keys go through the
  keymap to commands or through the input writer to the host. The supervisor runs agents as executions, whose events it stores,
  publishes and replays; a client collects numbered events in a transcript and makes its requests idempotent by stored submissions.

  \<^bold>\<open>The theories, and the code each of them translates.\<close>
  \<^item> \<^bold>\<open>Shared.\<close> \<open>Prelude\<close>: JavaScript numbers (\<open>js_num\<close>: rationals, NaN, infinities), insertion-ordered maps (\<open>jsmap\<close>), truthiness,
    JSON values, and the locales \<open>event_machine\<close> and \<open>monotone_machine\<close>: a step function that keeps an invariant (and a
    preorder) keeps it along every run. Most stateful components interpret one of them on their own step function.
    \<open>ByteCodec\<close>: fixed-width fields and the locale \<open>fixed_codec\<close>. \<open>Utf8\<close>: \<open>TextEncoder\<close> and \<open>TextDecoder\<close>. \<open>KeyStrings\<close>: UTF-16 strings.
  \<^item> \<^bold>\<open>Layout.\<close> \<open>PanelStore\<close> states what a tree of panes promises (locales \<open>panel_store\<close>, \<open>keyed_store\<close>); \<open>PanelTree\<close>
    (\<open>yaade-panels/src/tree.ts\<close>) provides it and \<open>TerminalTiling\<close> (\<open>yaade-app/src/mux/terminal-tiling.ts\<close>) uses it.
  \<^item> \<^bold>\<open>Mirror.\<close> \<open>MuxTypes\<close> (\<open>yaade-rpc/src/mux-session.ts\<close>), \<open>MuxRouting\<close>, \<open>MuxStore\<close> (\<open>yaade-app/src/mux/mux-routing.ts\<close>,
    \<open>mux-store.ts\<close>), \<open>FocusHistory\<close> (\<open>terminal-focus-history.ts\<close>, with its locale \<open>shrinking_profile\<close>).
  \<^item> \<^bold>\<open>Streams.\<close> \<open>TerminalWs\<close> (\<open>yaade-rpc/src/terminal-ws.ts\<close>), \<open>TerminalStreamV3\<close> (\<open>terminal-stream-v3.ts\<close> and
    \<open>yaade-host-client/src/terminal-v3-store.ts\<close>), \<open>OutputWriter\<close>, \<open>InputWriter\<close>, \<open>DispatchTasks\<close> (\<open>yaade-ui/src/panels/terminal-*.ts\<close>).
  \<^item> \<^bold>\<open>Workers and geometry.\<close> \<open>FairScheduler\<close>, \<open>WorkerPool\<close>, \<open>FrameScheduler\<close>, \<open>GeometryCoordinator\<close>, \<open>ViewportActivity\<close>
    (\<open>ghostty-react/src\<close>, its directories \<open>worker\<close>, \<open>scheduler\<close>, \<open>geometry\<close>).
  \<^item> \<^bold>\<open>Drawing.\<close> \<open>RenderUpdate\<close>, \<open>ViewportModel\<close> (\<open>ghostty-core/src\<close>), \<open>RetainedScene\<close>, \<open>GlyphAtlas\<close>, \<open>RendererRecovery\<close>
    (\<open>ghostty-react/src/renderers\<close>), \<open>ColdRows\<close> (\<open>cold-row-provider.ts\<close>).
  \<^item> \<^bold>\<open>Keys and commands.\<close> \<open>CommandCatalog\<close> (\<open>commands/catalog.ts\<close>), \<open>ContextKeys\<close> (\<open>yaade-workspace/src/context-keys.ts\<close>),
    \<open>KeymapProfile\<close>, \<open>Keybindings\<close>, \<open>KeymapSettings\<close> (\<open>keymap-profile.ts\<close>, \<open>keybindings.ts\<close>, \<open>keymap-storage.ts\<close>,
    \<open>effective-keymap.ts\<close>, the command runtime), \<open>KeymapCanon\<close> and \<open>KeymapDispatch\<close> (their theorems, the first over the locale \<open>unicode_casing\<close> of case mappings).
  \<^item> \<^bold>\<open>Agents.\<close> \<open>Transcript\<close>, \<open>Submissions\<close> (\<open>agents-client/src/lib\<close>),
    \<open>ExecutionService\<close>, \<open>ExecutionStream\<close> and \<open>ExecutionQueries\<close> (\<open>supervisor/src\<close>: \<open>service.ts\<close>, \<open>execution-state.ts\<close> and the two event hubs).

  \<^bold>\<open>How code becomes definitions.\<close> A class is a record of its fields and each method a function on it, with the name of the
  method; what it does to the outside is a trace or an output. \<open>throw\<close> is \<open>Inl\<close> or \<open>None\<close>. Promises, timers, animation frames,
  microtasks and callbacks that call back are separate operations of a step function, so that a run is any interleaving
  of them. Definitions are executable; the witnesses evaluate them.

  \<^bold>\<open>What the lemmas show.\<close> Every stateful component has a well-formedness predicate kept by every operation and, on top of it,
  what the component is for: the tree tiles the window; the tiling never shows a terminal twice; a layout that was saved is
  restored well formed; the store's selection is visible, as long as what is
  selected explicitly is, and events are idempotent; bytes and keys leave in the order they came; schedulers count exactly, are first in first out and
  make progress; frames and chords read back; the mirror of the stream only shows states of the host and recovers; the packed
  viewport, the scene on the GPU, the texels of the atlas and the cached pages are those last given; a compiled
  keymap is unambiguous and dispatches what it says; recovery ends with every renderer accounted for; the transcript keeps every
  event once, in order; a retry keeps its key; the
  row of an execution says what its events say, and a stream of them misses and repeats nothing. Behaviour that contradicts the code's intention is proved too
  (for instance \<open>digit_override_dead\<close>, \<open>failed_retry_unprotected\<close>, \<open>context_restored_ignored\<close>, \<open>concurrent_create_fails\<close>).

  \<^bold>\<open>Bounds and fuel.\<close> These are the source's own: pruning may take 64 rounds, and a lemma shows two are enough; a pump takes at most
  32 rounds over its terminals; six panes; three slots of render updates; four workers; sixteen archived requests;
  2500 ms for a chord; 64 characters for a binding, 128 overrides, 32 KiB of keymap and of focus history; an atlas of 16 MiB, hence
  of 2048 texels a side. Loops without a structural measure are \<open>function\<close>s with one, and the growth of the atlas is a
  \<open>partial_function\<close> that is shown to return. No fuel is the model's own, except where a lemma shows it is enough.

  \<^bold>\<open>Parameters.\<close> \<open>JSON.parse\<close>, \<open>JSON.stringify\<close>, schema decoders, URL parsing, \<open>localeCompare\<close>, case mappings, storage, clocks, fresh
  keys, rasterised pixels and the Unicode classes of glyphs are arguments. What a theorem assumes of them is a named
  hypothesis, and its witness gives a concrete function that satisfies it.

  \<^bold>\<open>Numbers.\<close> Layout, time and JSON numbers are rationals, without rounding; where NaN or infinity is inspected they are
  \<open>js_num\<close>; counters that the code checks against safe integers are integers; typed arrays, frames and hashes are machine words.

  \<^bold>\<open>Not modelled.\<close> React components and the rest of the \<open>.tsx\<close> files (the two largest, \<open>App.tsx\<close> and \<open>TerminalMultiplexer.tsx\<close>, are
  markup, hooks and wiring of the modules above); \<open>surface.ts\<close> (DOM events, canvas and clipboard around the modelled
  classes); the VT engine, a WebAssembly binary, and its binding \<open>core.ts\<close> except the snapshot types; shaders and draw
  calls; socket and fetch transports, whose behaviour is that of the browser; schema declarations; database and Pi
  subprocess access other than the executions and their events; theming, fonts, the Chrome extension; tests, build scripts and vendored data. The Rust server is another
  program, seen here only as the other side of the protocols.
\<close>

end
